(* ===== verification/Prelude.thy ===== *)
theory Prelude
  imports Main "HOL-Library.Word" "HOL-Library.AList" "HOL-Library.Sublist"
begin

text \<open>
  The shared prelude of the development.  It fixes how the Rust code is read:

  \<^item> \<open>u8\<close>, \<open>u32\<close>, \<open>u64\<close> are machine words; \<open>usize\<close> counts of in-memory
    collections are \<open>nat\<close>; timestamps (\<open>DateTime<Utc>\<close>) are \<open>int\<close> nanoseconds since the epoch;
  \<^item> \<open>Result<T, E>\<close> is \<open>'e + 'a\<close> (\<open>Inl\<close> the error); a method that also
    mutates state returns the result paired with the state reached, so that the
    state left behind by an error path is visible; \<open>and_then\<close> is the \<open>?\<close> operator
    and \<open>map_err\<close> the \<open>From\<close> conversion it applies;
  \<^item> \<open>HashMap<K, V>\<close> is an association list: \<open>map_of\<close> is \<open>get\<close>,
    \<open>AList.update\<close> is \<open>insert\<close>, \<open>AList.delete\<close> is \<open>remove\<close>, and the order of
    the list is the unspecified iteration order;
  \<^item> \<open>crates\<close> collects the functions of third-party crates the code calls
    (\<open>hex\<close>, \<open>blake3\<close>, \<open>uuid\<close>); they are arguments of the definitions.

  It also holds the little-endian codec of \<open>to_le_bytes\<close>/\<open>from_le_bytes\<close> and the
  record-log locale and the reference-counting locale that the
  components of both halves instantiate.
\<close>

named_theorems result_simps \<open>rewriting of and_then and map_err\<close>
named_theorems hmap_simps \<open>lookups after HashMap updates\<close>

type_synonym u8 = "8 word"
type_synonym u32 = "32 word"
type_synonym u64 = "64 word"
type_synonym bytes = "u8 list"
type_synonym uuid = "u8 list"
type_synonym chunk_hash = "u8 list"
type_synonym path = "string list"
type_synonym timestamp = int
type_synonym ('k, 'v) hmap = "('k \<times> 'v) list"

record crates =
  hex_encode :: "bytes \<Rightarrow> string"
  hex_decode :: "string \<Rightarrow> bytes option"
  blake3_hash :: "bytes \<Rightarrow> bytes"
  uuid_to_string :: "uuid \<Rightarrow> string"
  uuid_parse :: "string \<Rightarrow> uuid option"

text \<open>A concrete instance, for the closed examples of the development.\<close>

definition byte_char :: "u8 \<Rightarrow> char" where
  "byte_char b = char_of (unat b)"

definition sample_crates :: crates where
  "sample_crates = \<lparr>hex_encode = map byte_char,
     hex_decode = (\<lambda>s. Some (map (\<lambda>c. of_nat (of_char c)) s)),
     blake3_hash = (\<lambda>d. d),
     uuid_to_string = map byte_char,
     uuid_parse = (\<lambda>s. Some (map (\<lambda>c. of_nat (of_char c)) s))\<rparr>"

lemma byte_char_inverse: "of_nat (of_char (byte_char b)) = b"
proof -
  have "unat b < 256" using unsigned_less [of b, where ?'a = nat] by simp
  then show ?thesis by (simp add: byte_char_def)
qed

lemma inj_byte_char: "inj byte_char"
  by (rule inj_on_inverseI [where g = "\<lambda>c. of_nat (of_char c)"]) (rule byte_char_inverse)

lemma sample_crates_simps [simp]:
  "inj (hex_encode sample_crates)" "inj (uuid_to_string sample_crates)"
  "blake3_hash sample_crates d = d"
  "hex_decode sample_crates (hex_encode sample_crates b) = Some b"
  "uuid_parse sample_crates (uuid_to_string sample_crates b) = Some b"
  by (simp_all add: sample_crates_def inj_byte_char byte_char_inverse comp_def)

subsection \<open>Durations\<close>

text \<open>\<open>chrono\<close>'s \<open>num_seconds\<close> of a duration in nanoseconds truncates towards zero.\<close>

definition num_seconds :: "int \<Rightarrow> int" where
  "num_seconds ns = (if ns \<ge> 0 then ns div 1000000000 else - ((- ns) div 1000000000))"

subsection \<open>Strings\<close>

text \<open>\<open>str::split\<close> at a character.\<close>

fun split_on :: "char \<Rightarrow> string \<Rightarrow> string list" where
  "split_on c [] = [[]]"
| "split_on c (x # xs) = (if x = c then [] # split_on c xs else (case split_on c xs of y # ys \<Rightarrow> (x # y) # ys | [] \<Rightarrow> [[x]]))"

fun digits :: "nat \<Rightarrow> string \<Rightarrow> nat option" where
  "digits acc [] = Some acc"
| "digits acc (c # cs) = (if 48 \<le> (of_char c :: nat) \<and> (of_char c :: nat) \<le> 57 then digits (10 * acc + (of_char c - 48)) cs else None)"

text \<open>\<open>str::parse\<close> of an unsigned integer up to \<open>bound\<close>.\<close>

definition parse_uint :: "nat \<Rightarrow> string \<Rightarrow> nat option" where
  "parse_uint bound s = (let d = (case s of c # cs \<Rightarrow> if c = CHR ''+'' then cs else s | [] \<Rightarrow> []) in
     if d = [] then None else case digits 0 d of Some n \<Rightarrow> if n \<le> bound then Some n else None | None \<Rightarrow> None)"

text \<open>\<open>str::as_bytes\<close> of ASCII text, and the decimal rendering of an unsigned integer.\<close>

definition str_bytes :: "string \<Rightarrow> bytes" where
  "str_bytes = map of_char"

fun show_nat :: "nat \<Rightarrow> string" where
  "show_nat n = (if n < 10 then [char_of (48 + n)] else show_nat (n div 10) @ [char_of (48 + n mod 10)])"

declare show_nat.simps [simp del]

subsection \<open>Results\<close>

definition and_then :: "('e + 'a) \<times> 's \<Rightarrow> ('a \<Rightarrow> 's \<Rightarrow> ('e + 'b) \<times> 's) \<Rightarrow> ('e + 'b) \<times> 's" where
  "and_then r k = (case r of (Inl e, s) \<Rightarrow> (Inl e, s) | (Inr x, s) \<Rightarrow> k x s)"

definition map_err :: "('e \<Rightarrow> 'f) \<Rightarrow> ('e + 'a) \<times> 's \<Rightarrow> ('f + 'a) \<times> 's" where
  "map_err f r = (case r of (Inl e, s) \<Rightarrow> (Inl (f e), s) | (Inr x, s) \<Rightarrow> (Inr x, s))"

lemma and_then_simps [simp, result_simps]:
  "and_then (Inl e, s) k = (Inl e, s)"
  "and_then (Inr x, s) k = k x s"
  by (simp_all add: and_then_def)

lemma map_err_simps [simp, result_simps]:
  "map_err f (Inl e, s) = (Inl (f e), s)"
  "map_err f (Inr x, s) = (Inr x, s)"
  by (simp_all add: map_err_def)

lemma and_then_Ok_iff:
  "and_then r k = (Inr y, t) \<longleftrightarrow> (\<exists>x s. r = (Inr x, s) \<and> k x s = (Inr y, t))"
  by (auto simp: and_then_def split: prod.splits sum.splits)

lemma map_err_Ok_iff: "map_err f r = (Inr y, t) \<longleftrightarrow> r = (Inr y, t)"
  by (auto simp: map_err_def split: prod.splits sum.splits)

lemma and_then_Err_iff:
  "and_then r k = (Inl e, t) \<longleftrightarrow>
     r = (Inl e, t) \<or> (\<exists>x s. r = (Inr x, s) \<and> k x s = (Inl e, t))"
  by (auto simp: and_then_def split: prod.splits sum.splits)

lemma map_err_Err_iff: "map_err f r = (Inl e, t) \<longleftrightarrow> (\<exists>e'. r = (Inl e', t) \<and> e = f e')"
  by (auto simp: map_err_def split: prod.splits sum.splits)

lemma snd_map_err [simp]: "snd (map_err f r) = snd r"
  by (auto simp: map_err_def split: prod.splits sum.splits)

lemmas result_iffs = and_then_Ok_iff map_err_Ok_iff and_then_Err_iff map_err_Err_iff

text \<open>A state predicate kept by both stages is kept by their composition.\<close>

lemma and_then_inv:
  assumes "P (snd r)" and "\<And>x s. r = (Inr x, s) \<Longrightarrow> P s \<Longrightarrow> P (snd (k x s))"
  shows "P (snd (and_then r k))"
  using assms by (auto simp: and_then_def split: prod.splits sum.splits)

subsection \<open>Hash maps\<close>

abbreviation keys :: "('k, 'v) hmap \<Rightarrow> 'k list" where
  "keys m \<equiv> map fst m"

lemma map_of_update [hmap_simps]: "map_of (AList.update k v m) = (map_of m)(k \<mapsto> v)"
  by (rule update_conv')

lemma map_of_delete [hmap_simps]: "map_of (AList.delete k m) = (map_of m)(k := None)"
  by (rule delete_conv')

lemma distinct_keys_update [simp]: "distinct (keys m) \<Longrightarrow> distinct (keys (AList.update k v m))"
  by (rule distinct_update)

lemma distinct_keys_delete [simp]: "distinct (keys m) \<Longrightarrow> distinct (keys (AList.delete k m))"
  by (rule distinct_delete)

lemma map_of_filter_keys: "map_of (filter (\<lambda>(k, v). P k) m) k = (if P k then map_of m k else None)"
  by (induction m) auto

lemma map_of_map_vals: "map_of (map (\<lambda>(k, v). (k, f v)) m) k = map_option f (map_of m k)"
  by (induction m) auto

lemma map_of_SomeI: "distinct (keys m) \<Longrightarrow> (k, v) \<in> set m \<Longrightarrow> map_of m k = Some v"
  by simp

subsection \<open>Little-endian integers\<close>

text \<open>\<open>to_le_bytes\<close> of an \<open>n\<close>-byte unsigned integer and its inverse, on naturals.\<close>

fun le_bytes :: "nat \<Rightarrow> nat \<Rightarrow> bytes" where
  "le_bytes 0 x = []"
| "le_bytes (Suc n) x = of_nat x # le_bytes n (x div 256)"

fun of_le_bytes :: "bytes \<Rightarrow> nat" where
  "of_le_bytes [] = 0"
| "of_le_bytes (b # bs) = unat b + 256 * of_le_bytes bs"

lemma length_le_bytes [simp]: "length (le_bytes n x) = n"
  by (induction n arbitrary: x) auto

lemma of_le_le_bytes_mod: "of_le_bytes (le_bytes n x) = x mod 256 ^ n"
proof (induction n arbitrary: x)
  case (Suc n)
  have "unat (of_nat x :: u8) = x mod 256"
    by (simp add: unat_of_nat)
  moreover have "x mod 256 + 256 * (x div 256 mod 256 ^ n) = x mod (256 * 256 ^ n)"
    by (simp add: mod_mult2_eq)
  ultimately show ?case
    using Suc by simp
qed simp

lemma of_le_le_bytes [simp]: "x < 256 ^ n \<Longrightarrow> of_le_bytes (le_bytes n x) = x"
  by (simp add: of_le_le_bytes_mod)

lemma of_le_bytes_bound: "of_le_bytes bs < 256 ^ length bs"
proof (induction bs)
  case (Cons b bs)
  have "unat b < 256"
    using unsigned_less [of b, where ?'a = nat] by simp
  with Cons show ?case by simp
qed simp

subsection \<open>Record logs\<close>

text \<open>
  A log of self-delimiting records: \<open>enc\<close> writes one record, \<open>rd\<close> reads a whole file
  and answers the records it recovers (\<open>None\<close> where the reader reports an error).  The
  contract is about one record: a complete one is read and reading goes on behind it,
  an incomplete one ends the log.  The client lemmas are about whole logs and about
  logs cut off at an arbitrary byte.
\<close>

locale record_log =
  fixes enc :: "'r \<Rightarrow> bytes"
    and rd :: "bytes \<Rightarrow> 'r list option"
    and ok :: "'r \<Rightarrow> bool"
  assumes rd_empty: "rd [] = Some []"
    and rd_record: "ok r \<Longrightarrow> rd (enc r @ rest) = map_option ((#) r) (rd rest)"
    and rd_torn: "ok r \<Longrightarrow> strict_prefix p (enc r) \<Longrightarrow> rd p = Some []"
begin

lemma rd_append:
  "\<forall>r \<in> set rs. ok r \<Longrightarrow> rd (concat (map enc rs) @ tail) = map_option ((@) rs) (rd tail)"
  by (induction rs) (cases "rd tail"; auto simp: rd_record)+

theorem rd_log: "\<forall>r \<in> set rs. ok r \<Longrightarrow> rd (concat (map enc rs)) = Some rs"
  using rd_append [of rs "[]"] by (simp add: rd_empty)

text \<open>A crash at any byte leaves a readable log with a prefix of the records.\<close>

theorem rd_prefix:
  "\<forall>r \<in> set rs. ok r \<Longrightarrow> prefix p (concat (map enc rs)) \<Longrightarrow> \<exists>k. rd p = Some (take k rs)"
proof (induction rs arbitrary: p)
  case (Cons r rs)
  then consider (torn) "strict_prefix p (enc r)" | (whole) q where "p = enc r @ q" "prefix q (concat (map enc rs))"
    by (cases "p = enc r") (auto simp: prefix_append strict_prefix_def)
  then show ?case
  proof cases
    case torn
    then have "rd p = Some (take 0 (r # rs))" using rd_torn Cons.prems by auto
    then show ?thesis by blast
  next
    case whole
    then obtain k where "rd q = Some (take k rs)" using Cons.IH Cons.prems by auto
    then have "rd p = Some (take (Suc k) (r # rs))" using whole rd_record Cons.prems by simp
    then show ?thesis by blast
  qed
qed (simp add: rd_empty)

end

subsection \<open>Reference counts\<close>

text \<open>
  What a client of a reference-counted index relies on: an increment adds one to a
  registered key (modulo the width of the counter), a decrement subtracts one and
  stops at zero, and neither touches another key or registers a new one.
\<close>

locale refcount =
  fixes cnt :: "'s \<Rightarrow> 'k \<Rightarrow> nat option"
    and inc dec :: "'k \<Rightarrow> 's \<Rightarrow> 's"
    and width :: nat
  assumes cnt_inc: "cnt (inc k s) j =
      (if j = k then map_option (\<lambda>n. (n + 1) mod 2 ^ width) (cnt s k) else cnt s j)"
    and cnt_dec: "cnt (dec k s) j =
      (if j = k then map_option (\<lambda>n. n - 1) (cnt s k) else cnt s j)"
begin

lemma cnt_decs: "cnt (fold dec ks s) j = map_option (\<lambda>n. n - count_list ks j) (cnt s j)"
proof (induction ks arbitrary: s)
  case (Cons k ks)
  show ?case by (cases "cnt s k") (auto simp: Cons cnt_dec option.map_comp comp_def)
qed (simp add: option.map_ident)

lemma cnt_incs:
  "cnt s j = Some n \<Longrightarrow> n + count_list ks j < 2 ^ width \<Longrightarrow>
   cnt (fold inc ks s) j = Some (n + count_list ks j)"
proof (induction ks arbitrary: s n)
  case (Cons k ks)
  show ?case
  proof (cases "j = k")
    case True
    with Cons.prems have "cnt (inc k s) j = Some (n + 1)"
      by (simp add: cnt_inc)
    with Cons.prems Cons.IH [of "inc k s" "n + 1"] True show ?thesis by simp
  next
    case False
    with Cons.prems Cons.IH [of "inc k s" n] show ?thesis by (simp add: cnt_inc)
  qed
qed simp

lemma cnt_incs_None: "cnt s j = None \<Longrightarrow> cnt (fold inc ks s) j = None"
proof (induction ks arbitrary: s)
  case (Cons k ks)
  then have "cnt (inc k s) j = None" by (auto simp: cnt_inc)
  then show ?case using Cons.IH by simp
qed simp

theorem decs_undo_incs:
  assumes "cnt s j = Some n" and "n + count_list ks j < 2 ^ width"
  shows "cnt (fold dec ks (fold inc ks s)) j = Some n"
  using cnt_incs [OF assms] by (simp add: cnt_decs)

end

end
