(* ===== verification/FileSystem.thy ===== *)
theory FileSystem
  imports Prelude
begin

text \<open>
  The part of \<open>std::fs\<close> and \<open>std::path\<close> the storage layer calls: \<open>write\<close>,
  \<open>read\<close>, \<open>exists\<close>, \<open>is_file\<close>, \<open>create_dir_all\<close>, \<open>rename\<close> (of files),
  \<open>remove_file\<close>, \<open>remove_dir_all\<close>, \<open>read_dir\<close>, an append to an open file, and
  \<open>Path::with_extension\<close>.

  A file system is a map from paths to nodes.  It also carries a plan of
  environment faults: every call that can fail for outside reasons consumes one
  entry of the plan.  \<open>Fails\<close> makes the call fail without effect; \<open>Torn n\<close> makes a
  write fail after \<open>n\<close> bytes (\<open>std::fs::write\<close> truncates the file first).  An empty
  plan is a disk without faults.  A theorem that holds for every plan holds on every
  error path.
\<close>

datatype node = File bytes | Dir

datatype fault = NoFault | Fails | Torn nat

datatype io_error = IoFault | IoNotFound | IoNotADirectory | IoIsADirectory | IoInvalidData

record fsys =
  nodes :: "(path, node) hmap"
  faults :: "fault list"

definition lookup :: "fsys \<Rightarrow> path \<Rightarrow> node option" where
  "lookup s p = map_of (nodes s) p"

definition next_fault :: "fsys \<Rightarrow> fault \<times> fsys" where
  "next_fault s = (case faults s of [] \<Rightarrow> (NoFault, s) | f # fs \<Rightarrow> (f, s\<lparr>faults := fs\<rparr>))"

definition set_node :: "path \<Rightarrow> node \<Rightarrow> fsys \<Rightarrow> fsys" where
  "set_node p n s = s\<lparr>nodes := AList.update p n (nodes s)\<rparr>"

definition del_node :: "path \<Rightarrow> fsys \<Rightarrow> fsys" where
  "del_node p s = s\<lparr>nodes := AList.delete p (nodes s)\<rparr>"

subsection \<open>Queries\<close>

definition path_exists :: "fsys \<Rightarrow> path \<Rightarrow> bool" where
  "path_exists s p \<longleftrightarrow> p = [] \<or> lookup s p \<noteq> None"

definition is_dir :: "fsys \<Rightarrow> path \<Rightarrow> bool" where
  "is_dir s p \<longleftrightarrow> p = [] \<or> lookup s p = Some Dir"

definition is_file :: "fsys \<Rightarrow> path \<Rightarrow> bool" where
  "is_file s p \<longleftrightarrow> (case lookup s p of Some (File d) \<Rightarrow> True | _ \<Rightarrow> False)"

subsection \<open>Calls that may fail\<close>

definition fs_read :: "path \<Rightarrow> fsys \<Rightarrow> (io_error + bytes) \<times> fsys" where
  "fs_read p s0 = (case next_fault s0 of
     (NoFault, s) \<Rightarrow>
       (case lookup s p of
          Some (File d) \<Rightarrow> (Inr d, s)
        | Some Dir \<Rightarrow> (Inl IoIsADirectory, s)
        | None \<Rightarrow> (Inl IoNotFound, s))
   | (_, s) \<Rightarrow> (Inl IoFault, s))"

definition fs_write :: "path \<Rightarrow> bytes \<Rightarrow> fsys \<Rightarrow> (io_error + unit) \<times> fsys" where
  "fs_write p d s0 = (case next_fault s0 of (f, s) \<Rightarrow>
     if f = Fails then (Inl IoFault, s)
     else if \<not> is_dir s (butlast p) then (Inl IoNotFound, s)
     else if is_dir s p then (Inl IoIsADirectory, s)
     else (case f of Torn n \<Rightarrow> (Inl IoFault, set_node p (File (take n d)) s)
           | _ \<Rightarrow> (Inr (), set_node p (File d) s)))"

text \<open>\<open>write_all\<close> on a file opened with \<open>append(true)\<close>: a torn append keeps a prefix.\<close>

definition fs_append :: "path \<Rightarrow> bytes \<Rightarrow> fsys \<Rightarrow> (io_error + unit) \<times> fsys" where
  "fs_append p d s0 = (case next_fault s0 of (f, s) \<Rightarrow>
     if f = Fails then (Inl IoFault, s)
     else (case lookup s p of
        Some (File old) \<Rightarrow>
          (case f of Torn n \<Rightarrow> (Inl IoFault, set_node p (File (old @ take n d)) s)
           | _ \<Rightarrow> (Inr (), set_node p (File (old @ d)) s))
      | Some Dir \<Rightarrow> (Inl IoIsADirectory, s)
      | None \<Rightarrow> (Inl IoNotFound, s)))"

fun mk_dirs :: "path list \<Rightarrow> fsys \<Rightarrow> (io_error + unit) \<times> fsys" where
  "mk_dirs [] s = (Inr (), s)"
| "mk_dirs (p # ps) s =
     (if is_dir s p then mk_dirs ps s
      else if path_exists s p then (Inl IoNotADirectory, s)
      else mk_dirs ps (set_node p Dir s))"

definition fs_create_dir_all :: "path \<Rightarrow> fsys \<Rightarrow> (io_error + unit) \<times> fsys" where
  "fs_create_dir_all p s0 = (case next_fault s0 of
     (NoFault, s) \<Rightarrow> mk_dirs (tl (prefixes p)) s
   | (_, s) \<Rightarrow> (Inl IoFault, s))"

definition fs_rename :: "path \<Rightarrow> path \<Rightarrow> fsys \<Rightarrow> (io_error + unit) \<times> fsys" where
  "fs_rename src dst s0 = (case next_fault s0 of
     (NoFault, s) \<Rightarrow>
       (case lookup s src of
          Some (File d) \<Rightarrow>
            if \<not> is_dir s (butlast dst) then (Inl IoNotFound, s)
            else if is_dir s dst then (Inl IoIsADirectory, s)
            else (Inr (), set_node dst (File d) (del_node src s))
        | Some Dir \<Rightarrow> (Inl IoIsADirectory, s)
        | None \<Rightarrow> (Inl IoNotFound, s))
   | (_, s) \<Rightarrow> (Inl IoFault, s))"

definition fs_remove_file :: "path \<Rightarrow> fsys \<Rightarrow> (io_error + unit) \<times> fsys" where
  "fs_remove_file p s0 = (case next_fault s0 of
     (NoFault, s) \<Rightarrow>
       (case lookup s p of
          Some (File d) \<Rightarrow> (Inr (), del_node p s)
        | Some Dir \<Rightarrow> (Inl IoIsADirectory, s)
        | None \<Rightarrow> (Inl IoNotFound, s))
   | (_, s) \<Rightarrow> (Inl IoFault, s))"

definition fs_remove_dir_all :: "path \<Rightarrow> fsys \<Rightarrow> (io_error + unit) \<times> fsys" where
  "fs_remove_dir_all p s0 = (case next_fault s0 of
     (NoFault, s) \<Rightarrow>
       if is_dir s p then (Inr (), s\<lparr>nodes := filter (\<lambda>(q, n). \<not> prefix p q) (nodes s)\<rparr>)
       else if path_exists s p then (Inl IoNotADirectory, s)
       else (Inl IoNotFound, s)
   | (_, s) \<Rightarrow> (Inl IoFault, s))"

text \<open>\<open>read_dir\<close>: the file names of the direct children, in the order of the map.\<close>

definition children :: "fsys \<Rightarrow> path \<Rightarrow> string list" where
  "children s p = map (last \<circ> fst) (filter (\<lambda>(q, n). q \<noteq> [] \<and> butlast q = p) (nodes s))"

definition fs_read_dir :: "path \<Rightarrow> fsys \<Rightarrow> (io_error + string list) \<times> fsys" where
  "fs_read_dir p s0 = (case next_fault s0 of
     (NoFault, s) \<Rightarrow>
       if is_dir s p then (Inr (children s p), s)
       else if path_exists s p then (Inl IoNotADirectory, s)
       else (Inl IoNotFound, s)
   | (_, s) \<Rightarrow> (Inl IoFault, s))"

subsection \<open>File names\<close>

definition file_stem :: "string \<Rightarrow> string" where
  "file_stem name =
     (if CHR ''.'' \<in> set name \<and> rev (tl (dropWhile (\<lambda>c. c \<noteq> CHR ''.'') (rev name))) \<noteq> []
      then rev (tl (dropWhile (\<lambda>c. c \<noteq> CHR ''.'') (rev name))) else name)"

definition with_extension :: "path \<Rightarrow> string \<Rightarrow> path" where
  "with_extension p ext = butlast p @ [file_stem (last p) @ ''.'' @ ext]"

lemma file_stem_snoc [simp]:
  assumes "CHR ''.'' \<notin> set e" and "u \<noteq> []"
  shows "file_stem (u @ CHR ''.'' # e) = u"
proof -
  have "dropWhile (\<lambda>c. c \<noteq> CHR ''.'') (rev e @ CHR ''.'' # rev u) = CHR ''.'' # rev u"
    using assms(1) by (subst dropWhile_append2) auto
  then show ?thesis
    using assms(2) by (simp add: file_stem_def)
qed

subsection \<open>What the calls do to lookups\<close>

lemma lookup_set_node [simp]: "lookup (set_node p n s) = (lookup s)(p \<mapsto> n)"
  by (auto simp: lookup_def set_node_def map_of_update fun_eq_iff)

lemma lookup_del_node [simp]: "lookup (del_node p s) = (lookup s)(p := None)"
  by (auto simp: lookup_def del_node_def map_of_delete fun_eq_iff)

lemma lookup_faults [simp]: "lookup (s\<lparr>faults := fs\<rparr>) = lookup s"
  by (simp add: lookup_def fun_eq_iff)

lemma lookup_filter [simp]:
  "lookup (s\<lparr>nodes := filter (\<lambda>(q, n). \<not> prefix p q) (nodes s)\<rparr>) q =
     (if prefix p q then None else lookup s q)"
  using map_of_filter_keys [of "\<lambda>q. \<not> prefix p q" "nodes s" q] by (simp add: lookup_def)

lemma faults_node [simp]: "faults (set_node p n s) = faults s" "faults (del_node p s) = faults s"
  by (simp_all add: set_node_def del_node_def)

lemma next_fault_lookup: "next_fault s = (f, t) \<Longrightarrow> lookup t = lookup s"
  by (auto simp: next_fault_def split: list.splits)

lemma next_fault_none [simp]: "faults s = [] \<Longrightarrow> next_fault s = (NoFault, s)"
  by (simp add: next_fault_def)

lemma queries_cong:
  assumes "lookup t = lookup s"
  shows "path_exists t = path_exists s" and "is_dir t = is_dir s" and "is_file t = is_file s"
  using assms by (auto simp: path_exists_def is_dir_def is_file_def fun_eq_iff)

lemma fs_read_lookup: "fs_read p s = (r, t) \<Longrightarrow> lookup t = lookup s"
  by (auto simp: fs_read_def split: prod.splits fault.splits option.splits node.splits
      dest: next_fault_lookup)

lemma fs_read_Ok: "fs_read p s = (Inr d, t) \<Longrightarrow> lookup s p = Some (File d)"
  by (auto simp: fs_read_def split: prod.splits fault.splits option.splits node.splits
      dest: next_fault_lookup)

lemma fs_write_Ok: "fs_write p d s = (Inr (), t) \<Longrightarrow> lookup t = (lookup s)(p \<mapsto> File d)"
  by (auto simp: fs_write_def split: prod.splits fault.splits if_splits dest: next_fault_lookup)

lemma fs_write_frame: "fs_write p d s = (r, t) \<Longrightarrow> q \<noteq> p \<Longrightarrow> lookup t q = lookup s q"
  by (auto simp: fs_write_def split: prod.splits fault.splits if_splits dest: next_fault_lookup)

lemma fs_append_Ok:
  "fs_append p d s = (Inr (), t) \<Longrightarrow>
   \<exists>old. lookup s p = Some (File old) \<and> lookup t = (lookup s)(p \<mapsto> File (old @ d))"
  by (auto simp: fs_append_def split: prod.splits fault.splits option.splits node.splits if_splits
      dest: next_fault_lookup)

lemma fs_append_cases:
  "fs_append p d s = (r, t) \<Longrightarrow> lookup s p = Some (File old) \<Longrightarrow>
   \<exists>n. lookup t = (lookup s)(p \<mapsto> File (old @ take n d)) \<and> (r = Inr () \<longrightarrow> n = length d)"
  by (fastforce simp: fs_append_def fun_upd_idem
      split: prod.splits fault.splits option.splits node.splits if_splits
      dest: next_fault_lookup intro: exI [of _ 0] exI [of _ "length d"])

lemma fs_rename_Ok:
  "fs_rename a b s = (Inr (), t) \<Longrightarrow>
   \<exists>d. lookup s a = Some (File d) \<and> lookup t = (lookup s)(a := None, b \<mapsto> File d)"
  by (auto simp: fs_rename_def split: prod.splits fault.splits option.splits node.splits if_splits
      dest: next_fault_lookup)

lemma fs_rename_Err: "fs_rename a b s = (Inl e, t) \<Longrightarrow> lookup t = lookup s"
  by (auto simp: fs_rename_def split: prod.splits fault.splits option.splits node.splits if_splits
      dest: next_fault_lookup)

lemma fs_remove_file_Ok: "fs_remove_file p s = (Inr (), t) \<Longrightarrow> lookup t = (lookup s)(p := None)"
  by (auto simp: fs_remove_file_def
      split: prod.splits fault.splits option.splits node.splits if_splits dest: next_fault_lookup)

lemma fs_remove_file_Err: "fs_remove_file p s = (Inl e, t) \<Longrightarrow> lookup t = lookup s"
  by (auto simp: fs_remove_file_def
      split: prod.splits fault.splits option.splits node.splits if_splits dest: next_fault_lookup)

lemma fs_remove_dir_all_Ok:
  "fs_remove_dir_all p s = (Inr (), t) \<Longrightarrow>
   lookup t q = (if prefix p q then None else lookup s q)"
  by (auto simp: fs_remove_dir_all_def split: prod.splits fault.splits if_splits
      dest: next_fault_lookup)

lemma fs_remove_dir_all_Err: "fs_remove_dir_all p s = (Inl e, t) \<Longrightarrow> lookup t = lookup s"
  by (auto simp: fs_remove_dir_all_def split: prod.splits fault.splits if_splits
      dest: next_fault_lookup)

lemma fs_read_dir_lookup: "fs_read_dir p s = (r, t) \<Longrightarrow> lookup t = lookup s"
  by (auto simp: fs_read_dir_def split: prod.splits fault.splits if_splits
      dest: next_fault_lookup)

lemma mk_dirs_lookup:
  "mk_dirs ps s = (r, t) \<Longrightarrow>
   lookup t q = lookup s q \<or> (lookup s q = None \<and> lookup t q = Some Dir \<and> q \<in> set ps)"
proof (induction ps s rule: mk_dirs.induct)
  case (2 p ps s)
  consider "is_dir s p" | "\<not> is_dir s p" "path_exists s p" | "\<not> is_dir s p" "\<not> path_exists s p"
    by blast
  then show ?case
  proof cases
    case 3
    then have "lookup s p = None" by (simp add: path_exists_def)
    with 3 "2.prems" "2.IH"(2) show ?thesis by (auto split: if_splits)
  qed (use "2.prems" "2.IH"(1) in auto)
qed simp

lemma mk_dirs_faults: "mk_dirs ps s = (r, t) \<Longrightarrow> faults t = faults s"
  by (induction ps s rule: mk_dirs.induct) (auto split: if_splits)

lemma in_tl_prefixes: "q \<in> set (tl (prefixes p)) \<Longrightarrow> prefix q p"
  using list.set_sel(2) [of "prefixes p" q] by (cases "prefixes p") (auto simp flip: in_set_prefixes)

lemma create_dir_all_lookup:
  "fs_create_dir_all p s = (r, t) \<Longrightarrow>
   lookup t q = lookup s q \<or> (lookup s q = None \<and> lookup t q = Some Dir \<and> prefix q p)"
  by (auto simp: fs_create_dir_all_def split: prod.splits fault.splits
      dest!: next_fault_lookup mk_dirs_lookup [of _ _ _ _ q] in_tl_prefixes)

lemma create_dir_all_keeps_file:
  "fs_create_dir_all p s = (r, t) \<Longrightarrow> lookup s q = Some n \<Longrightarrow> lookup t q = Some n"
  using create_dir_all_lookup [of p s r t q] by auto

subsection \<open>Calls without faults\<close>

lemma mk_dirs_total:
  "\<forall>p \<in> set ps. \<not> is_file s p \<Longrightarrow>
   \<exists>t. mk_dirs ps s = (Inr (), t) \<and> (\<forall>p \<in> set ps. is_dir t p) \<and> (\<forall>p. is_dir s p \<longrightarrow> is_dir t p)"
proof (induction ps arbitrary: s)
  case (Cons p ps)
  show ?case
  proof (cases "is_dir s p")
    case True
    with Cons show ?thesis by fastforce
  next
    case False
    have np: "\<not> path_exists s p"
      using False Cons.prems
      by (auto simp: path_exists_def is_dir_def is_file_def split: option.splits node.splits)
    have "\<forall>q \<in> set ps. \<not> is_file (set_node p Dir s) q"
      using Cons.prems by (auto simp: is_file_def)
    then obtain t where t: "mk_dirs ps (set_node p Dir s) = (Inr (), t)"
      "\<forall>q \<in> set ps. is_dir t q" "\<forall>q. is_dir (set_node p Dir s) q \<longrightarrow> is_dir t q"
      using Cons.IH by blast
    have "is_dir (set_node p Dir s) q" if "is_dir s q \<or> q = p" for q
      using that by (auto simp: is_dir_def)
    with t False np show ?thesis by auto
  qed
qed simp

lemma create_dir_all_total:
  assumes "faults s = []" and "\<forall>q. prefix q p \<longrightarrow> \<not> is_file s q"
  shows "\<exists>t. fs_create_dir_all p s = (Inr (), t) \<and> is_dir t p \<and> faults t = []"
proof -
  obtain t where t: "mk_dirs (tl (prefixes p)) s = (Inr (), t)"
    "\<forall>q \<in> set (tl (prefixes p)). is_dir t q"
    using mk_dirs_total [of "tl (prefixes p)" s] assms(2) in_tl_prefixes by blast
  have "p = [] \<or> p \<in> set (tl (prefixes p))"
    by (cases p) auto
  then have "is_dir t p" using t(2) by (auto simp: is_dir_def)
  then show ?thesis
    using t(1) mk_dirs_faults [OF t(1)] assms(1) by (auto simp: fs_create_dir_all_def)
qed

lemma fs_write_total:
  "faults s = [] \<Longrightarrow> is_dir s (butlast p) \<Longrightarrow> \<not> is_dir s p \<Longrightarrow>
   fs_write p d s = (Inr (), set_node p (File d) s)"
  by (simp add: fs_write_def)

end
