(* ===== verification/Badou_Domain.thy ===== *)
theory Badou_Domain
  imports FileSystem
begin

text \<open>
  The domain objects of the storage bucket (\<open>badou-engine/src/domain\<close>) and its
  on-disk layout (\<open>badou-engine/src/format.rs\<close>): chunks, manifests, snapshots,
  versions, repositories, the journal object and the index summary, each a record
  with the fields of the Rust struct, and the version life cycle.

  Enumerators carry a letter for their enum (\<open>V\<close> version, \<open>S\<close> snapshot, \<open>C\<close> chunk,
  \<open>R\<close> repository).  The clock (\<open>Utc::now\<close>) and fresh identifiers
  (\<open>Uuid::new_v4\<close>) are arguments of the constructors.
\<close>

subsection \<open>Chunks\<close>

datatype chunk_status = CActive | CGcPending | CPurged

record key_ref =
  key_id :: uuid
  key_source :: string

record badou_chunk =
  bc_chunk_hash :: chunk_hash
  bc_size :: u64
  bc_stored_size :: u64
  bc_ref_count :: u32
  bc_status :: chunk_status
  bc_created_at :: timestamp
  bc_encryption_ref :: "key_ref option"

definition badou_chunk_new :: "chunk_hash \<Rightarrow> u64 \<Rightarrow> u64 \<Rightarrow> timestamp \<Rightarrow> badou_chunk" where
  "badou_chunk_new h sz stored now =
     \<lparr>bc_chunk_hash = h, bc_size = sz, bc_stored_size = stored, bc_ref_count = 0,
      bc_status = CActive, bc_created_at = now, bc_encryption_ref = None\<rparr>"

definition increment_ref :: "badou_chunk \<Rightarrow> badou_chunk" where
  "increment_ref c = c\<lparr>bc_ref_count := bc_ref_count c + 1\<rparr>"

definition decrement_ref :: "badou_chunk \<Rightarrow> badou_chunk" where
  "decrement_ref c =
     (let c1 = (if bc_ref_count c > 0 then c\<lparr>bc_ref_count := bc_ref_count c - 1\<rparr> else c)
      in if bc_ref_count c1 = 0 then c1\<lparr>bc_status := CGcPending\<rparr> else c1)"

definition is_orphaned :: "badou_chunk \<Rightarrow> bool" where
  "is_orphaned c \<longleftrightarrow> bc_ref_count c = 0"

subsection \<open>Manifests\<close>

record chunk_ref =
  cr_chunk_hash :: chunk_hash
  cr_offset :: u64
  cr_size :: u64

record manifest =
  mf_manifest_id :: uuid
  mf_snapshot_id :: uuid
  mf_file_tree :: bytes
  mf_chunk_refs :: "chunk_ref list"
  mf_created_at :: timestamp

definition manifest_new :: "uuid \<Rightarrow> uuid \<Rightarrow> bytes \<Rightarrow> chunk_ref list \<Rightarrow> timestamp \<Rightarrow> manifest" where
  "manifest_new fresh snapshot_id file_tree refs now =
     \<lparr>mf_manifest_id = fresh, mf_snapshot_id = snapshot_id, mf_file_tree = file_tree,
      mf_chunk_refs = refs, mf_created_at = now\<rparr>"

definition manifest_chunk_count :: "manifest \<Rightarrow> nat" where
  "manifest_chunk_count m = length (mf_chunk_refs m)"

subsection \<open>Snapshots\<close>

datatype snapshot_status = SCreated | SWriting | SSealed | SCorrupt | SDeleted

record source_machine =
  hostname :: string
  os_type :: string
  agent_version :: string

record backup_policy =
  bp_paths :: "string list"
  bp_excludes :: "string list"
  bp_includes :: "string list"

record encryption_info =
  enc_enabled :: bool
  enc_algorithm :: string
  enc_key_ref :: "key_ref option"

record compression_info =
  comp_algorithm :: string
  comp_level :: u32

record verify_info =
  verified :: bool
  verified_at :: "timestamp option"
  checksum :: "string option"

record file_entry =
  fe_path :: string
  fe_size :: u64
  fe_is_directory :: bool
  fe_chunk_hashes :: "chunk_hash list"

record file_tree =
  ft_root :: string
  ft_entries :: "file_entry list"

record chunk_mapping_entry =
  cm_file_path :: string
  cm_offset :: u64
  cm_chunk_hash :: chunk_hash
  cm_size :: u64

record snapshot =
  sn_snapshot_id :: uuid
  sn_version_id :: uuid
  sn_source_machine :: source_machine
  sn_backup_policy :: backup_policy
  sn_file_tree :: file_tree
  sn_chunk_mapping :: "chunk_mapping_entry list"
  sn_encryption_info :: encryption_info
  sn_compression_info :: compression_info
  sn_verify_info :: verify_info
  sn_status :: snapshot_status
  sn_created_at :: timestamp
  sn_total_size :: u64
  sn_stored_size :: u64
  sn_file_count :: u32
  sn_chunk_count :: u32

definition snapshot_new :: "uuid \<Rightarrow> uuid \<Rightarrow> source_machine \<Rightarrow> timestamp \<Rightarrow> snapshot" where
  "snapshot_new snapshot_id version_id machine now =
     \<lparr>sn_snapshot_id = snapshot_id, sn_version_id = version_id, sn_source_machine = machine,
      sn_backup_policy = \<lparr>bp_paths = [], bp_excludes = [], bp_includes = []\<rparr>,
      sn_file_tree = \<lparr>ft_root = [], ft_entries = []\<rparr>,
      sn_chunk_mapping = [],
      sn_encryption_info = \<lparr>enc_enabled = False, enc_algorithm = [], enc_key_ref = None\<rparr>,
      sn_compression_info = \<lparr>comp_algorithm = ''zstd'', comp_level = 3\<rparr>,
      sn_verify_info = \<lparr>verified = False, verified_at = None, checksum = None\<rparr>,
      sn_status = SCreated, sn_created_at = now, sn_total_size = 0, sn_stored_size = 0,
      sn_file_count = 0, sn_chunk_count = 0\<rparr>"

definition snapshot_seal :: "snapshot \<Rightarrow> snapshot" where
  "snapshot_seal sn = sn\<lparr>sn_status := SSealed\<rparr>"

subsection \<open>Repositories\<close>

datatype repo_status = RActive | RReadonly | RDeleted | RImmutable

record repo_config =
  rc_name :: string
  rc_immutable :: bool
  rc_immutable_until :: "timestamp option"
  rc_options :: "(string, string) hmap"

record repository =
  r_repo_id :: uuid
  r_name :: string
  r_created_at :: timestamp
  r_config :: repo_config
  r_version_count :: u64
  r_status :: repo_status
  r_immutable_until :: "timestamp option"

definition repository_new :: "uuid \<Rightarrow> repo_config \<Rightarrow> timestamp \<Rightarrow> repository" where
  "repository_new repo_id config now =
     \<lparr>r_repo_id = repo_id, r_name = rc_name config, r_created_at = now, r_config = config,
      r_version_count = 0, r_status = RActive, r_immutable_until = None\<rparr>"

definition repo_is_immutable :: "repository \<Rightarrow> timestamp \<Rightarrow> bool" where
  "repo_is_immutable r now \<longleftrightarrow>
     r_status r = RImmutable \<or> rc_immutable (r_config r)
     \<or> (case r_immutable_until r of Some t \<Rightarrow> t > now | None \<Rightarrow> False)"

subsection \<open>The journal object and the index summary\<close>

datatype journal_op = JPutChunk | JDeleteChunk | JCommitSnapshot | JDeleteVersion | JGc

record journal_obj =
  jo_journal_id :: uuid
  jo_repo_id :: uuid
  jo_operation :: journal_op
  jo_payload :: bytes
  jo_timestamp :: timestamp
  jo_committed :: bool
  jo_append_only :: bool

definition journal_new :: "uuid \<Rightarrow> uuid \<Rightarrow> journal_op \<Rightarrow> bytes \<Rightarrow> timestamp \<Rightarrow> journal_obj" where
  "journal_new fresh repo_id op payload now =
     \<lparr>jo_journal_id = fresh, jo_repo_id = repo_id, jo_operation = op, jo_payload = payload,
      jo_timestamp = now, jo_committed = False, jo_append_only = True\<rparr>"

definition journal_commit :: "journal_obj \<Rightarrow> journal_obj" where
  "journal_commit j = j\<lparr>jo_committed := True\<rparr>"

record index_obj =
  io_repo_id :: uuid
  io_chunk_hash_entries :: u64
  io_updated_at :: timestamp
  io_consistent :: bool

definition index_new :: "uuid \<Rightarrow> timestamp \<Rightarrow> index_obj" where
  "index_new repo_id now =
     \<lparr>io_repo_id = repo_id, io_chunk_hash_entries = 0, io_updated_at = now, io_consistent = True\<rparr>"

definition index_mark_inconsistent :: "index_obj \<Rightarrow> timestamp \<Rightarrow> index_obj" where
  "index_mark_inconsistent i now = i\<lparr>io_consistent := False, io_updated_at := now\<rparr>"

definition index_mark_consistent :: "index_obj \<Rightarrow> timestamp \<Rightarrow> index_obj" where
  "index_mark_consistent i now = i\<lparr>io_consistent := True, io_updated_at := now\<rparr>"

subsection \<open>Versions\<close>

datatype version_status =
  VCreated | VWriting | VVerifying | VCommitting | VSealed | VExpired | VDeleted | VGcPending | VPurged

definition can_transition_to :: "version_status \<Rightarrow> version_status \<Rightarrow> bool" where
  "can_transition_to self target \<longleftrightarrow> (self, target) \<in> set
     [(VCreated, VWriting),
      (VWriting, VVerifying),
      (VWriting, VCreated),
      (VVerifying, VCommitting),
      (VVerifying, VWriting),
      (VCommitting, VSealed),
      (VSealed, VExpired),
      (VSealed, VDeleted),
      (VExpired, VDeleted),
      (VExpired, VGcPending),
      (VDeleted, VGcPending),
      (VGcPending, VPurged)]"

record version =
  v_version_id :: uuid
  v_repo_id :: uuid
  v_snapshot_id :: uuid
  v_parent_version_id :: "uuid option"
  v_sequence :: u64
  v_status :: version_status
  v_created_at :: timestamp
  v_sealed_at :: "timestamp option"
  v_immutable_until :: "timestamp option"

definition version_new :: "uuid \<Rightarrow> uuid \<Rightarrow> uuid \<Rightarrow> uuid option \<Rightarrow> u64 \<Rightarrow> timestamp \<Rightarrow> version" where
  "version_new vid rid sid parent seq now =
     \<lparr>v_version_id = vid, v_repo_id = rid, v_snapshot_id = sid, v_parent_version_id = parent,
      v_sequence = seq, v_status = VCreated, v_created_at = now, v_sealed_at = None,
      v_immutable_until = None\<rparr>"

text \<open>\<open>Version::transition\<close>: the error carries the two states of the message.\<close>

definition version_transition ::
  "version \<Rightarrow> version_status \<Rightarrow> timestamp \<Rightarrow> (version_status \<times> version_status) + version" where
  "version_transition v target now =
     (if \<not> can_transition_to (v_status v) target then Inl (v_status v, target)
      else let v1 = (if target = VSealed then v\<lparr>v_sealed_at := Some now\<rparr> else v)
           in Inr (v1\<lparr>v_status := target\<rparr>))"

definition version_is_sealed :: "version \<Rightarrow> bool" where
  "version_is_sealed v \<longleftrightarrow> v_status v = VSealed"

subsection \<open>The on-disk layout\<close>

record layout =
  data_root :: path

definition repo_root :: "crates \<Rightarrow> layout \<Rightarrow> uuid \<Rightarrow> path" where
  "repo_root X l rid = data_root l @ [''repositories'', uuid_to_string X rid]"

definition chunks_dir :: "crates \<Rightarrow> layout \<Rightarrow> uuid \<Rightarrow> path" where
  "chunks_dir X l rid = repo_root X l rid @ [''chunks'']"

definition manifests_dir :: "crates \<Rightarrow> layout \<Rightarrow> uuid \<Rightarrow> path" where
  "manifests_dir X l rid = repo_root X l rid @ [''manifests'']"

definition snapshots_dir :: "crates \<Rightarrow> layout \<Rightarrow> uuid \<Rightarrow> path" where
  "snapshots_dir X l rid = repo_root X l rid @ [''snapshots'']"

definition versions_dir :: "crates \<Rightarrow> layout \<Rightarrow> uuid \<Rightarrow> path" where
  "versions_dir X l rid = repo_root X l rid @ [''versions'']"

definition index_dir :: "crates \<Rightarrow> layout \<Rightarrow> uuid \<Rightarrow> path" where
  "index_dir X l rid = repo_root X l rid @ [''index'']"

definition journal_dir :: "crates \<Rightarrow> layout \<Rightarrow> uuid \<Rightarrow> path" where
  "journal_dir X l rid = repo_root X l rid @ [''journal'']"

definition gc_dir :: "crates \<Rightarrow> layout \<Rightarrow> uuid \<Rightarrow> path" where
  "gc_dir X l rid = repo_root X l rid @ [''gc'']"

definition locks_dir :: "crates \<Rightarrow> layout \<Rightarrow> uuid \<Rightarrow> path" where
  "locks_dir X l rid = repo_root X l rid @ [''locks'']"

definition staging_dir :: "crates \<Rightarrow> layout \<Rightarrow> uuid \<Rightarrow> path" where
  "staging_dir X l rid = repo_root X l rid @ [''.staging'']"

definition meta_dir :: "crates \<Rightarrow> layout \<Rightarrow> uuid \<Rightarrow> path" where
  "meta_dir X l rid = repo_root X l rid @ [''.badou'']"

definition format_version_path :: "crates \<Rightarrow> layout \<Rightarrow> uuid \<Rightarrow> path" where
  "format_version_path X l rid = meta_dir X l rid @ [''format_version'']"

definition bucket_prefix :: "crates \<Rightarrow> chunk_hash \<Rightarrow> string" where
  "bucket_prefix X h = hex_encode X (take 1 h)"

definition chunk_filename :: "crates \<Rightarrow> chunk_hash \<Rightarrow> string" where
  "chunk_filename X h = hex_encode X h @ ''.chunk''"

definition bucket_path :: "crates \<Rightarrow> layout \<Rightarrow> uuid \<Rightarrow> chunk_hash \<Rightarrow> path" where
  "bucket_path X l rid h = chunks_dir X l rid @ [hex_encode X (take 1 h), hex_encode X h @ ''.chunk'']"

datatype format_error = FmtIo io_error | FmtAlreadyExists path

text \<open>A run of \<open>create_dir_all\<close> calls, each followed by \<open>?\<close>.\<close>

fun create_all :: "path list \<Rightarrow> fsys \<Rightarrow> (io_error + unit) \<times> fsys" where
  "create_all [] s = (Inr (), s)"
| "create_all (p # ps) s = and_then (fs_create_dir_all p s) (\<lambda>_ s. create_all ps s)"

text \<open>\<open>init_repository\<close>: nine directories, the 256 buckets, the format version file.\<close>

definition init_repository :: "crates \<Rightarrow> layout \<Rightarrow> uuid \<Rightarrow> fsys \<Rightarrow> (format_error + unit) \<times> fsys" where
  "init_repository X l rid s =
     (if path_exists s (repo_root X l rid) then (Inl (FmtAlreadyExists (repo_root X l rid)), s)
      else and_then (map_err FmtIo (create_all
             [manifests_dir X l rid, snapshots_dir X l rid, versions_dir X l rid,
              index_dir X l rid, journal_dir X l rid, gc_dir X l rid, locks_dir X l rid,
              staging_dir X l rid, meta_dir X l rid] s))
        (\<lambda>_ s. and_then (map_err FmtIo (create_all
             (map (\<lambda>i. chunks_dir X l rid @ [hex_encode X [of_nat i]]) [0..<256]) s))
        (\<lambda>_ s. map_err FmtIo (fs_write (format_version_path X l rid) [49] s))))"

end
