(* ===== verification/Badou_State.thy ===== *)
theory Badou_State
  imports Badou_Domain
begin

text \<open>
  The version state machine and the retention guard of \<open>badou-state\<close>
  (\<open>state_machine.rs\<close>, \<open>immutable.rs\<close>).  The crate declares its own copy of the
  status enum (\<open>M\<close> enumerators here); the locale \<open>seal_protocol\<close> states the shape of
  the commit protocol once, and both copies of the transition table interpret it.
\<close>

subsection \<open>The state machine\<close>

datatype sm_status =
  MCreated | MWriting | MVerifying | MCommitting | MSealed | MExpired | MDeleted | MGcPending | MPurged

fun as_str :: "sm_status \<Rightarrow> string" where
  "as_str MCreated = ''created''"
| "as_str MWriting = ''writing''"
| "as_str MVerifying = ''verifying''"
| "as_str MCommitting = ''committing''"
| "as_str MSealed = ''sealed''"
| "as_str MExpired = ''expired''"
| "as_str MDeleted = ''deleted''"
| "as_str MGcPending = ''gc_pending''"
| "as_str MPurged = ''purged''"

definition from_str :: "string \<Rightarrow> string + sm_status" where
  "from_str s =
     (if s = ''created'' then Inr MCreated
      else if s = ''writing'' then Inr MWriting
      else if s = ''verifying'' then Inr MVerifying
      else if s = ''committing'' then Inr MCommitting
      else if s = ''sealed'' then Inr MSealed
      else if s = ''expired'' then Inr MExpired
      else if s = ''deleted'' then Inr MDeleted
      else if s = ''gc_pending'' then Inr MGcPending
      else if s = ''purged'' then Inr MPurged
      else Inl (''unknown version status: '' @ s))"

datatype sm_snapshot_status = MSnCreated | MSnWriting | MSnSealed | MSnCorrupt | MSnDeleted

fun snapshot_as_str :: "sm_snapshot_status \<Rightarrow> string" where
  "snapshot_as_str MSnCreated = ''created''"
| "snapshot_as_str MSnWriting = ''writing''"
| "snapshot_as_str MSnSealed = ''sealed''"
| "snapshot_as_str MSnCorrupt = ''corrupt''"
| "snapshot_as_str MSnDeleted = ''deleted''"

datatype state_transition_error =
  InvalidTransition sm_status sm_status
| NotSealed sm_status
| SkipVerifying sm_status

definition can_transition :: "sm_status \<Rightarrow> sm_status \<Rightarrow> bool" where
  "can_transition from to \<longleftrightarrow> (from, to) \<in> set
     [(MCreated, MWriting),
      (MWriting, MVerifying),
      (MWriting, MCreated),
      (MVerifying, MCommitting),
      (MVerifying, MWriting),
      (MCommitting, MSealed),
      (MSealed, MExpired),
      (MSealed, MDeleted),
      (MExpired, MDeleted),
      (MExpired, MGcPending),
      (MDeleted, MGcPending),
      (MGcPending, MPurged)]"

definition transition :: "sm_status \<Rightarrow> sm_status \<Rightarrow> state_transition_error + unit" where
  "transition from to =
     (if \<not> can_transition from to then
        if to = MSealed \<and> from \<noteq> MCommitting then Inl (SkipVerifying from)
        else Inl (InvalidTransition from to)
      else Inr ())"

definition assert_sealed :: "sm_status \<Rightarrow> state_transition_error + unit" where
  "assert_sealed st = (if st \<noteq> MSealed then Inl (NotSealed st) else Inr ())"

definition is_terminal :: "sm_status \<Rightarrow> bool" where
  "is_terminal st \<longleftrightarrow> st = MPurged"

definition is_visible :: "sm_status \<Rightarrow> bool" where
  "is_visible st \<longleftrightarrow> st \<notin> set [MCreated, MWriting, MVerifying, MCommitting, MPurged]"

subsection \<open>The retention guard\<close>

datatype immutable_conflict =
  RepoImmutable uuid timestamp
| VersionImmutable uuid timestamp

definition guard_check ::
  "timestamp option \<Rightarrow> timestamp \<Rightarrow> uuid \<Rightarrow> bool \<Rightarrow> immutable_conflict + unit" where
  "guard_check immutable_until now ident is_version =
     (case immutable_until of
        Some until \<Rightarrow>
          if now < until
          then Inl (if is_version then VersionImmutable ident until else RepoImmutable ident until)
          else Inr ()
      | None \<Rightarrow> Inr ())"

definition check_repo :: "timestamp option \<Rightarrow> timestamp \<Rightarrow> uuid \<Rightarrow> immutable_conflict + unit" where
  "check_repo immutable_until now repo_id = guard_check immutable_until now repo_id False"

definition check_version :: "timestamp option \<Rightarrow> timestamp \<Rightarrow> uuid \<Rightarrow> immutable_conflict + unit" where
  "check_version immutable_until now version_id = guard_check immutable_until now version_id True"

definition set_immutable :: "timestamp \<Rightarrow> timestamp option" where
  "set_immutable until = Some until"

definition clear_immutable :: "timestamp option" where
  "clear_immutable = None"

definition is_expired :: "timestamp option \<Rightarrow> timestamp \<Rightarrow> bool" where
  "is_expired immutable_until now = (case immutable_until of Some t \<Rightarrow> now \<ge> t | None \<Rightarrow> True)"

subsection \<open>Histories of a state machine\<close>

text \<open>A history is a sequence of states in which each step is permitted.\<close>

fun history :: "('a \<Rightarrow> 'a \<Rightarrow> bool) \<Rightarrow> 'a list \<Rightarrow> bool" where
  "history can [] = True"
| "history can [x] = True"
| "history can (x # y # zs) = (can x y \<and> history can (y # zs))"

lemma history_Cons: "history can (x # xs) \<longleftrightarrow> (xs = [] \<or> can x (hd xs)) \<and> history can xs"
  by (cases xs) auto

lemma history_append:
  "history can (xs @ ys) \<longleftrightarrow>
     history can xs \<and> history can ys \<and> (xs = [] \<or> ys = [] \<or> can (last xs) (hd ys))"
  by (induction xs) (auto simp: history_Cons)

text \<open>
  The shape of the two-phase commit: sealing has a single predecessor, and so has
  every stage behind it; past the seal a rank grows with every step and the
  pre-seal states are out of reach.
\<close>

locale seal_protocol =
  fixes can :: "'a \<Rightarrow> 'a \<Rightarrow> bool"
    and writing verifying committing sealed :: 'a
    and rank :: "'a \<Rightarrow> nat"
  assumes into_sealed: "can x sealed \<Longrightarrow> x = committing"
    and into_committing: "can x committing \<Longrightarrow> x = verifying"
    and into_verifying: "can x verifying \<Longrightarrow> x = writing"
    and rank_grows: "rank sealed \<le> rank x \<Longrightarrow> can x y \<Longrightarrow> rank x < rank y"
begin

lemma step_into:
  assumes "history can (xs @ [y])" and "xs \<noteq> []" and "\<And>x. can x y \<Longrightarrow> x = z"
  shows "\<exists>ys. xs = ys @ [z] \<and> history can (ys @ [z])"
proof -
  from assms(1,2) have "can (last xs) y" and "history can xs"
    by (auto simp: history_append)
  with assms(2,3) show ?thesis
    by (metis append_butlast_last_id)
qed

theorem sealed_history:
  assumes "history can (x # xs @ [sealed])" and "x \<notin> {writing, verifying, committing, sealed}"
  shows "\<exists>ys. x # xs @ [sealed] = ys @ [writing, verifying, committing, sealed]"
proof -
  have 1: "history can ((x # xs) @ [sealed])" using assms(1) by simp
  obtain as where a: "x # xs = as @ [committing]" "history can (as @ [committing])"
    using step_into [OF 1 _ into_sealed] by blast
  with assms(2) have "as \<noteq> []" by auto
  then obtain bs where b: "as = bs @ [verifying]" "history can (bs @ [verifying])"
    using step_into [OF a(2) _ into_committing] by blast
  with a(1) assms(2) have "bs \<noteq> []" by auto
  then obtain cs where "bs = cs @ [writing]"
    using step_into [OF b(2) _ into_verifying] by blast
  with a(1) b(1) show ?thesis by auto
qed

lemma rank_history:
  "history can (x # xs) \<Longrightarrow> rank sealed \<le> rank x \<Longrightarrow> y \<in> set xs \<Longrightarrow> rank x < rank y"
proof (induction xs arbitrary: x)
  case (Cons z zs)
  then have "rank x < rank z" using rank_grows by simp
  with Cons show ?case by (cases "y = z") force+
qed simp

lemma length_after_seal:
  "history can (x # xs) \<Longrightarrow> rank sealed \<le> rank x \<Longrightarrow> \<forall>y. rank y \<le> n \<Longrightarrow>
   length xs + rank x \<le> n"
proof (induction xs arbitrary: x)
  case (Cons z zs)
  then have "rank x < rank z" using rank_grows by simp
  with Cons.prems Cons.IH [of z] show ?case by simp
qed simp

end

fun v_rank :: "version_status \<Rightarrow> nat" where
  "v_rank VSealed = 1"
| "v_rank VExpired = 2"
| "v_rank VDeleted = 3"
| "v_rank VGcPending = 4"
| "v_rank VPurged = 5"
| "v_rank _ = 0"

lemma v_rank_after_seal:
  "v_rank VSealed < v_rank y \<longleftrightarrow> y \<in> {VExpired, VDeleted, VGcPending, VPurged}"
  by (cases y) auto

lemma v_rank_le: "v_rank y \<le> 5"
  by (cases y) auto

text \<open>The enum of \<open>badou-state\<close> mirrors the one of \<open>badou-engine\<close>.\<close>

fun to_sm :: "version_status \<Rightarrow> sm_status" where
  "to_sm VCreated = MCreated"
| "to_sm VWriting = MWriting"
| "to_sm VVerifying = MVerifying"
| "to_sm VCommitting = MCommitting"
| "to_sm VSealed = MSealed"
| "to_sm VExpired = MExpired"
| "to_sm VDeleted = MDeleted"
| "to_sm VGcPending = MGcPending"
| "to_sm VPurged = MPurged"

fun m_rank :: "sm_status \<Rightarrow> nat" where
  "m_rank MSealed = 1"
| "m_rank MExpired = 2"
| "m_rank MDeleted = 3"
| "m_rank MGcPending = 4"
| "m_rank MPurged = 5"
| "m_rank _ = 0"

interpretation engine: seal_protocol can_transition_to VWriting VVerifying VCommitting VSealed v_rank
  by unfold_locales (auto simp: can_transition_to_def)

interpretation machine: seal_protocol can_transition MWriting MVerifying MCommitting MSealed m_rank
  by unfold_locales (auto simp: can_transition_def)

subsection \<open>Properties\<close>

text \<open>(C9) A version that starts in \<open>Created\<close> reaches \<open>Sealed\<close> only through
  \<open>Writing\<close>, \<open>Verifying\<close> and \<open>Committing\<close>, the three steps right before the seal.\<close>

theorem sealed_only_after_verification:
  assumes "history can_transition_to (VCreated # xs @ [VSealed])"
  shows "\<exists>ys. VCreated # xs @ [VSealed] = ys @ [VWriting, VVerifying, VCommitting, VSealed]"
  using engine.sealed_history [OF assms] by simp

theorem sealed_only_after_verification_witness:
  "history can_transition_to (VCreated # [VWriting, VVerifying, VWriting, VVerifying, VCommitting] @ [VSealed])
   \<and> (\<exists>ys. VCreated # [VWriting, VVerifying, VWriting, VVerifying, VCommitting] @ [VSealed]
        = ys @ [VWriting, VVerifying, VCommitting, VSealed])"
proof -
  have h: "history can_transition_to
      (VCreated # [VWriting, VVerifying, VWriting, VVerifying, VCommitting] @ [VSealed])"
    by (simp add: can_transition_to_def)
  show ?thesis using h sealed_only_after_verification [OF h] by blast
qed

text \<open>(C34) After the seal nothing is written again: every later state is one of
  \<open>Expired\<close>, \<open>Deleted\<close>, \<open>GcPending\<close>, \<open>Purged\<close>, no state repeats, and the history ends
  within four steps.\<close>

theorem sealed_history_is_final:
  assumes "history can_transition_to (VSealed # xs)"
  shows "set xs \<subseteq> {VExpired, VDeleted, VGcPending, VPurged} \<and> distinct xs \<and> length xs \<le> 4"
proof -
  have "v_rank VSealed < v_rank y" if "y \<in> set xs" for y
    using engine.rank_history [OF assms _ that] by blast
  then have "set xs \<subseteq> {VExpired, VDeleted, VGcPending, VPurged}"
    using v_rank_after_seal by blast
  moreover have "distinct ys" if "history can_transition_to (y # ys)" "v_rank VSealed \<le> v_rank y" for y ys
    using that
  proof (induction ys arbitrary: y)
    case (Cons z zs)
    then have z: "v_rank VSealed \<le> v_rank z" "history can_transition_to (z # zs)"
      using engine.rank_grows [of y z] by auto
    then have "z \<notin> set zs"
      using engine.rank_history [OF z(2,1)] by blast
    with Cons.IH [OF z(2,1)] show ?case by simp
  qed simp
  ultimately show ?thesis
    using assms engine.length_after_seal [OF assms, of 5] v_rank_le by simp
qed

theorem sealed_history_is_final_witness:
  "history can_transition_to (VSealed # [VExpired, VDeleted, VGcPending, VPurged]) \<and>
   length [VExpired, VDeleted, VGcPending, VPurged] \<le> 4"
proof -
  have h: "history can_transition_to (VSealed # [VExpired, VDeleted, VGcPending, VPurged])"
    by (simp add: can_transition_to_def)
  show ?thesis using h sealed_history_is_final [OF h] by blast
qed

text \<open>The two copies of the transition table agree, \<open>StateMachine::transition\<close> reports a
  skipped verification exactly when an unverified version would be sealed, and a
  permitted step is the only one it accepts.\<close>

theorem state_machines_agree:
  "(transition (to_sm a) (to_sm b) = Inr () \<longleftrightarrow> can_transition_to a b) \<and>
   (transition (to_sm a) (to_sm b) = Inl (SkipVerifying (to_sm a)) \<longleftrightarrow> b = VSealed \<and> a \<noteq> VCommitting) \<and>
   (transition (to_sm a) (to_sm b) = Inl (InvalidTransition (to_sm a) (to_sm b)) \<longleftrightarrow>
      b \<noteq> VSealed \<and> \<not> can_transition_to a b)"
  by (cases a; cases b) (simp_all add: transition_def can_transition_def can_transition_to_def)

text \<open>Status names round-trip: \<open>from_str\<close> inverts \<open>as_str\<close>, and every string it accepts is
  the name of the status it answers.\<close>

theorem status_name_roundtrip:
  "from_str (as_str st) = Inr st \<and> (from_str s = Inr st \<longleftrightarrow> s = as_str st)"
  by (cases st) (auto simp: from_str_def)

end
