(* ===== verification/Badou_Index.thy ===== *)
theory Badou_Index
  imports Badou_State
begin

text \<open>
  The chunk index (\<open>badou-index\<close>): chunk hash to location, reference count and
  status, version to chunk list, manifest hashes, with the whole index written to
  its file after every change.

  An operation works on the index and the file system together.  The in-memory
  change happens before \<open>persist\<close>, so it stays when the write fails; the result
  pairs show it.  \<open>serde_json\<close> is the argument \<open>index_json\<close>.  The counting
  contract \<open>refcount\<close> of the prelude is interpreted here.
\<close>

datatype chunk_index_status = IActive | IGcPending | IPurged

fun index_status_as_str :: "chunk_index_status \<Rightarrow> string" where
  "index_status_as_str IActive = ''active''"
| "index_status_as_str IGcPending = ''gc_pending''"
| "index_status_as_str IPurged = ''purged''"

record chunk_index_entry =
  ie_bucket :: string
  ie_path :: path
  ie_ref_count :: u32
  ie_size :: u64
  ie_stored_size :: u64
  ie_created_at :: timestamp
  ie_status :: chunk_index_status

datatype index_error = IxIo io_error | IxSerde | IxNotFound string

record badou_index =
  bi_chunk_index :: "(string, chunk_index_entry) hmap"
  bi_version_chunks :: "(uuid, string list) hmap"
  bi_manifest_hashes :: "(uuid, string) hmap"
  bi_consistent :: bool
  bi_persist_path :: "path option"

record persisted_index =
  pi_chunk_index :: "(string, chunk_index_entry) hmap"
  pi_version_chunks :: "(uuid, string list) hmap"
  pi_manifest_hashes :: "(uuid, string) hmap"
  pi_consistent :: bool

record index_json =
  ij_to_vec :: "persisted_index \<Rightarrow> bytes option"
  ij_from_slice :: "bytes \<Rightarrow> persisted_index option"

type_synonym ist = "badou_index \<times> fsys"

subsection \<open>Operations\<close>

definition index_open :: "index_json \<Rightarrow> path \<Rightarrow> fsys \<Rightarrow> (index_error + badou_index) \<times> fsys" where
  "index_open J p s =
     (if path_exists s p then
        and_then (map_err IxIo (fs_read p s))
          (\<lambda>data s. case ij_from_slice J data of
             None \<Rightarrow> (Inl IxSerde, s)
           | Some d \<Rightarrow> (Inr \<lparr>bi_chunk_index = pi_chunk_index d, bi_version_chunks = pi_version_chunks d,
                bi_manifest_hashes = pi_manifest_hashes d, bi_consistent = pi_consistent d,
                bi_persist_path = Some p\<rparr>, s))
      else (Inr \<lparr>bi_chunk_index = [], bi_version_chunks = [], bi_manifest_hashes = [],
              bi_consistent = True, bi_persist_path = Some p\<rparr>, s))"

definition in_memory :: badou_index where
  "in_memory = \<lparr>bi_chunk_index = [], bi_version_chunks = [], bi_manifest_hashes = [],
     bi_consistent = True, bi_persist_path = None\<rparr>"

definition index_lookup :: "badou_index \<Rightarrow> string \<Rightarrow> chunk_index_entry option" where
  "index_lookup i h = map_of (bi_chunk_index i) h"

definition to_persisted :: "badou_index \<Rightarrow> persisted_index" where
  "to_persisted i = \<lparr>pi_chunk_index = bi_chunk_index i, pi_version_chunks = bi_version_chunks i,
     pi_manifest_hashes = bi_manifest_hashes i, pi_consistent = bi_consistent i\<rparr>"

definition persist :: "index_json \<Rightarrow> ist \<Rightarrow> (index_error + unit) \<times> ist" where
  "persist J = (\<lambda>(i, s). case bi_persist_path i of
     Some p \<Rightarrow>
       (case ij_to_vec J (to_persisted i) of
          None \<Rightarrow> (Inl IxSerde, (i, s))
        | Some b \<Rightarrow> (case map_err IxIo (fs_write p b s) of (r, s') \<Rightarrow> (r, (i, s'))))
   | None \<Rightarrow> (Inr (), (i, s)))"

definition register :: "index_json \<Rightarrow> string \<Rightarrow> chunk_index_entry \<Rightarrow> ist \<Rightarrow> (index_error + unit) \<times> ist" where
  "register J h e = (\<lambda>(i, s).
     persist J (i\<lparr>bi_chunk_index := AList.update h e (bi_chunk_index i)\<rparr>, s))"

definition increment_ref_count :: "index_json \<Rightarrow> string \<Rightarrow> ist \<Rightarrow> (index_error + u32) \<times> ist" where
  "increment_ref_count J h = (\<lambda>(i, s). case map_of (bi_chunk_index i) h of
     None \<Rightarrow> (Inl (IxNotFound h), (i, s))
   | Some e \<Rightarrow>
       let e' = e\<lparr>ie_ref_count := ie_ref_count e + 1\<rparr>;
           i' = i\<lparr>bi_chunk_index := AList.update h e' (bi_chunk_index i)\<rparr>
       in and_then (persist J (i', s)) (\<lambda>_ st. (Inr (ie_ref_count e'), st)))"

definition decr_entry :: "chunk_index_entry \<Rightarrow> chunk_index_entry" where
  "decr_entry e =
     (let e1 = (if ie_ref_count e > 0 then e\<lparr>ie_ref_count := ie_ref_count e - 1\<rparr> else e)
      in if ie_ref_count e1 = 0 then e1\<lparr>ie_status := IGcPending\<rparr> else e1)"

definition decrement_ref_count :: "index_json \<Rightarrow> string \<Rightarrow> ist \<Rightarrow> (index_error + u32) \<times> ist" where
  "decrement_ref_count J h = (\<lambda>(i, s). case map_of (bi_chunk_index i) h of
     None \<Rightarrow> (Inl (IxNotFound h), (i, s))
   | Some e \<Rightarrow>
       let e' = decr_entry e;
           i' = i\<lparr>bi_chunk_index := AList.update h e' (bi_chunk_index i)\<rparr>
       in and_then (persist J (i', s)) (\<lambda>_ st. (Inr (ie_ref_count e'), st)))"

definition update_status ::
  "index_json \<Rightarrow> string \<Rightarrow> chunk_index_status \<Rightarrow> ist \<Rightarrow> (index_error + unit) \<times> ist" where
  "update_status J h st = (\<lambda>(i, s). case map_of (bi_chunk_index i) h of
     None \<Rightarrow> (Inl (IxNotFound h), (i, s))
   | Some e \<Rightarrow>
       persist J (i\<lparr>bi_chunk_index := AList.update h (e\<lparr>ie_status := st\<rparr>) (bi_chunk_index i)\<rparr>, s))"

definition register_version_chunks ::
  "index_json \<Rightarrow> uuid \<Rightarrow> string list \<Rightarrow> ist \<Rightarrow> (index_error + unit) \<times> ist" where
  "register_version_chunks J vid hs = (\<lambda>(i, s).
     persist J (i\<lparr>bi_version_chunks := AList.update vid hs (bi_version_chunks i)\<rparr>, s))"

definition get_version_chunks :: "badou_index \<Rightarrow> uuid \<Rightarrow> string list" where
  "get_version_chunks i vid = (case map_of (bi_version_chunks i) vid of Some hs \<Rightarrow> hs | None \<Rightarrow> [])"

definition register_manifest_hash ::
  "index_json \<Rightarrow> uuid \<Rightarrow> string \<Rightarrow> ist \<Rightarrow> (index_error + unit) \<times> ist" where
  "register_manifest_hash J mid h = (\<lambda>(i, s).
     persist J (i\<lparr>bi_manifest_hashes := AList.update mid h (bi_manifest_hashes i)\<rparr>, s))"

definition verify_manifest_hash :: "badou_index \<Rightarrow> uuid \<Rightarrow> string \<Rightarrow> bool" where
  "verify_manifest_hash i mid expected =
     (case map_of (bi_manifest_hashes i) mid of Some h \<Rightarrow> h = expected | None \<Rightarrow> False)"

definition mark_inconsistent :: "index_json \<Rightarrow> ist \<Rightarrow> (index_error + unit) \<times> ist" where
  "mark_inconsistent J = (\<lambda>(i, s). persist J (i\<lparr>bi_consistent := False\<rparr>, s))"

definition mark_consistent :: "index_json \<Rightarrow> ist \<Rightarrow> (index_error + unit) \<times> ist" where
  "mark_consistent J = (\<lambda>(i, s). persist J (i\<lparr>bi_consistent := True\<rparr>, s))"

definition gc_candidates :: "badou_index \<Rightarrow> (string \<times> chunk_index_entry) list" where
  "gc_candidates i =
     filter (\<lambda>(_, e). ie_ref_count e = 0 \<and> ie_status e = IGcPending) (bi_chunk_index i)"

definition chunk_count :: "badou_index \<Rightarrow> nat" where
  "chunk_count i = length (bi_chunk_index i)"

subsection \<open>Effects on the in-memory index and on the file system\<close>

lemma persist_index [simp]: "fst (snd (persist J st)) = fst st"
  by (auto simp: persist_def map_err_def split: prod.splits option.splits sum.splits)

lemma persist_no_path: "bi_persist_path (fst st) = None \<Longrightarrow> persist J st = (Inr (), st)"
  by (auto simp: persist_def split: prod.splits)

lemma persist_frame:
  "persist J (i, s) = (r, (i', s')) \<Longrightarrow> bi_persist_path i \<noteq> Some q \<Longrightarrow> lookup s' q = lookup s q"
  by (auto simp: persist_def map_err_def split: option.splits prod.splits sum.splits
      dest: fs_write_frame [OF _ not_sym])

lemma persist_Ok:
  "persist J (i, s) = (Inr (), (i', s')) \<Longrightarrow> bi_persist_path i = Some p \<Longrightarrow>
   \<exists>b. ij_to_vec J (to_persisted i) = Some b \<and> lookup s' p = Some (File b)"
  by (auto simp: persist_def map_err_Ok_iff split: option.splits prod.splits dest: fs_write_Ok)

text \<open>The in-memory effect of each operation, whatever \<open>persist\<close> answers.\<close>

definition upd_entry ::
  "string \<Rightarrow> (chunk_index_entry \<Rightarrow> chunk_index_entry) \<Rightarrow> badou_index \<Rightarrow> badou_index" where
  "upd_entry h f i = (case map_of (bi_chunk_index i) h of
     None \<Rightarrow> i
   | Some e \<Rightarrow> i\<lparr>bi_chunk_index := AList.update h (f e) (bi_chunk_index i)\<rparr>)"

lemma index_after_register [simp]:
  "fst (snd (register J h e (i, s))) = i\<lparr>bi_chunk_index := AList.update h e (bi_chunk_index i)\<rparr>"
  by (simp add: register_def)

lemma index_after_increment [simp]:
  "fst (snd (increment_ref_count J h (i, s))) =
     upd_entry h (\<lambda>e. e\<lparr>ie_ref_count := ie_ref_count e + 1\<rparr>) i"
  by (auto simp: increment_ref_count_def upd_entry_def Let_def and_then_def
      split: option.splits prod.splits sum.splits dest!: arg_cong [where f = "\<lambda>x. fst (snd x)"])

lemma index_after_decrement [simp]:
  "fst (snd (decrement_ref_count J h (i, s))) = upd_entry h decr_entry i"
  by (auto simp: decrement_ref_count_def upd_entry_def Let_def and_then_def
      split: option.splits prod.splits sum.splits dest!: arg_cong [where f = "\<lambda>x. fst (snd x)"])

lemma index_after_update_status [simp]:
  "fst (snd (update_status J h st (i, s))) = upd_entry h (\<lambda>e. e\<lparr>ie_status := st\<rparr>) i"
  by (auto simp: update_status_def upd_entry_def split: option.splits)

lemma index_after_version_chunks [simp]:
  "fst (snd (register_version_chunks J vid hs (i, s))) =
     i\<lparr>bi_version_chunks := AList.update vid hs (bi_version_chunks i)\<rparr>"
  by (simp add: register_version_chunks_def)

lemma lookup_upd_entry:
  "index_lookup (upd_entry h f i) k =
     (if k = h then map_option f (index_lookup i h) else index_lookup i k)"
  by (auto simp: upd_entry_def index_lookup_def map_of_update split: option.splits)

lemma upd_entry_other [simp]:
  "bi_version_chunks (upd_entry h f i) = bi_version_chunks i"
  "bi_manifest_hashes (upd_entry h f i) = bi_manifest_hashes i"
  "bi_consistent (upd_entry h f i) = bi_consistent i"
  "bi_persist_path (upd_entry h f i) = bi_persist_path i"
  by (simp_all add: upd_entry_def split: option.splits)

lemma upd_entry_keys [simp]: "set (keys (bi_chunk_index (upd_entry h f i))) = set (keys (bi_chunk_index i))"
  by (auto simp: upd_entry_def dom_update split: option.splits dest: map_of_SomeD
      simp flip: dom_map_of_conv_image_fst simp: map_of_update)

lemma upd_entry_distinct [simp]:
  "distinct (keys (bi_chunk_index i)) \<Longrightarrow> distinct (keys (bi_chunk_index (upd_entry h f i)))"
  by (simp add: upd_entry_def split: option.splits)

lemma register_lookup:
  "index_lookup (i\<lparr>bi_chunk_index := AList.update h e (bi_chunk_index i)\<rparr>) k =
     (if k = h then Some e else index_lookup i k)"
  by (simp add: index_lookup_def map_of_update)

lemma get_version_chunks_upd [simp]:
  "get_version_chunks (i\<lparr>bi_version_chunks := AList.update vid hs (bi_version_chunks i)\<rparr>) w =
     (if w = vid then hs else get_version_chunks i w)"
  by (simp add: get_version_chunks_def map_of_update)

lemma get_version_chunks_cong [simp]:
  "get_version_chunks (upd_entry h f i) w = get_version_chunks i w"
  "get_version_chunks (i\<lparr>bi_chunk_index := m\<rparr>) w = get_version_chunks i w"
  by (simp_all add: get_version_chunks_def)

lemma decr_entry_count: "unat (ie_ref_count (decr_entry e)) = unat (ie_ref_count e) - 1"
proof (cases "ie_ref_count e = 0")
  case False
  then have "unat (ie_ref_count e - 1) = unat (ie_ref_count e) - 1"
    by (simp add: unat_minus_one)
  with False show ?thesis by (simp add: decr_entry_def Let_def word_neq_0_conv)
qed (simp add: decr_entry_def)

lemma decr_entry_status:
  "ie_status (decr_entry e) = (if unat (ie_ref_count e) \<le> 1 then IGcPending else ie_status e)"
  using decr_entry_count [of e]
  by (auto simp: decr_entry_def Let_def unat_eq_zero word_neq_0_conv split: if_splits)

lemma decr_entry_fields [simp]:
  "ie_path (decr_entry e) = ie_path e" "ie_stored_size (decr_entry e) = ie_stored_size e"
  by (simp_all add: decr_entry_def Let_def)

subsection \<open>The counting contract\<close>

definition index_cnt :: "ist \<Rightarrow> string \<Rightarrow> nat option" where
  "index_cnt st h = map_option (\<lambda>e. unat (ie_ref_count e)) (index_lookup (fst st) h)"

lemma unat_succ_mod: "unat (x + 1 :: u32) = (unat x + 1) mod 2 ^ 32"
  by (simp add: unat_word_ariths)

interpretation ixr: refcount index_cnt
  "\<lambda>h st. snd (increment_ref_count J h st)" "\<lambda>h st. snd (decrement_ref_count J h st)" 32
  for J
  by unfold_locales
     (auto simp: index_cnt_def lookup_upd_entry unat_succ_mod decr_entry_count
       option.map_comp comp_def split: prod.splits)

subsection \<open>Properties\<close>

text \<open>The changes a caller can make, as one type.\<close>

datatype index_op =
  OpRegister string chunk_index_entry
| OpIncrement string
| OpDecrement string
| OpUpdateStatus string chunk_index_status
| OpVersionChunks uuid "string list"
| OpManifestHash uuid string
| OpMarkInconsistent
| OpMarkConsistent

fun run_index_op :: "index_json \<Rightarrow> index_op \<Rightarrow> ist \<Rightarrow> (index_error + unit) \<times> ist" where
  "run_index_op J (OpRegister h e) st = register J h e st"
| "run_index_op J (OpIncrement h) st = and_then (increment_ref_count J h st) (\<lambda>_ st. (Inr (), st))"
| "run_index_op J (OpDecrement h) st = and_then (decrement_ref_count J h st) (\<lambda>_ st. (Inr (), st))"
| "run_index_op J (OpUpdateStatus h x) st = update_status J h x st"
| "run_index_op J (OpVersionChunks vid hs) st = register_version_chunks J vid hs st"
| "run_index_op J (OpManifestHash mid h) st = register_manifest_hash J mid h st"
| "run_index_op J OpMarkInconsistent st = mark_inconsistent J st"
| "run_index_op J OpMarkConsistent st = mark_consistent J st"

text \<open>Every successful change ended in a successful \<open>persist\<close> of the index it left.\<close>

lemma run_index_op_persisted:
  assumes "run_index_op J op (i, s) = (Inr (), (i', s'))"
  shows "\<exists>j. persist J (j, s) = (Inr (), (i', s')) \<and> bi_persist_path j = bi_persist_path i"
  using assms
  by (cases op) (auto simp: register_def increment_ref_count_def decrement_ref_count_def
      update_status_def register_version_chunks_def register_manifest_hash_def
      mark_inconsistent_def mark_consistent_def Let_def and_then_Ok_iff split: option.splits)

lemma open_after_persist:
  assumes "persist J (j, s) = (Inr (), (i, s'))" and "bi_persist_path j = Some p"
    and "\<forall>d b. ij_to_vec J d = Some b \<longrightarrow> ij_from_slice J b = Some d" and "faults s' = []"
  shows "index_open J p s' = (Inr i, s')"
proof -
  have i: "i = j" using persist_index [of J "(j, s)"] assms(1) by simp
  obtain b where b: "ij_to_vec J (to_persisted j) = Some b" "lookup s' p = Some (File b)"
    using persist_Ok [OF assms(1,2)] by blast
  then have "fs_read p s' = (Inr b, s')" using assms(4) by (simp add: fs_read_def)
  moreover have "path_exists s' p" using b(2) by (simp add: path_exists_def)
  moreover have "ij_from_slice J b = Some (to_persisted j)" using assms(3) b(1) by blast
  ultimately show ?thesis
    using i assms(2) by (simp add: index_open_def to_persisted_def)
qed

text \<open>(C26) A change of the index that reports success is durable: opening the index file
  afterwards gives back exactly the index in memory, whatever faults happened before.
  The hypothesis on \<open>serde_json\<close> is that \<open>from_slice\<close> inverts \<open>to_vec\<close>.\<close>

theorem index_change_is_durable:
  assumes "run_index_op J op (i, s) = (Inr (), (i', s'))"
    and "bi_persist_path i = Some p"
    and "\<forall>d b. ij_to_vec J d = Some b \<longrightarrow> ij_from_slice J b = Some d"
    and "faults s' = []"
  shows "index_open J p s' = (Inr i', s')"
proof -
  obtain j where "persist J (j, s) = (Inr (), (i', s'))" and "bi_persist_path j = Some p"
    using run_index_op_persisted [OF assms(1)] assms(2) by auto
  then show ?thesis using assms(3,4) by (rule open_after_persist)
qed

definition demo_entry :: chunk_index_entry where
  "demo_entry = \<lparr>ie_bucket = ''00'', ie_path = [''c''], ie_ref_count = 1, ie_size = 3,
     ie_stored_size = 3, ie_created_at = 0, ie_status = IActive\<rparr>"

text \<open>A serialiser that knows one value: enough to satisfy the round-trip hypothesis.\<close>

definition demo_json :: "persisted_index \<Rightarrow> index_json" where
  "demo_json d = \<lparr>ij_to_vec = (\<lambda>x. if x = d then Some [1] else None), ij_from_slice = (\<lambda>b. Some d)\<rparr>"

theorem index_change_is_durable_witness:
  "let i = in_memory\<lparr>bi_persist_path := Some [''ix'']\<rparr>;
       i' = i\<lparr>bi_chunk_index := [(''h'', demo_entry)]\<rparr>;
       J = demo_json (to_persisted i');
       s = \<lparr>nodes = [], faults = []\<rparr>;
       s' = \<lparr>nodes = [([''ix''], File [1])], faults = []\<rparr>
   in run_index_op J (OpRegister ''h'' demo_entry) (i, s) = (Inr (), (i', s'))
      \<and> index_open J [''ix''] s' = (Inr i', s')"
proof -
  let ?i = "in_memory\<lparr>bi_persist_path := Some [''ix'']\<rparr>"
  let ?i' = "?i\<lparr>bi_chunk_index := [(''h'', demo_entry)]\<rparr>"
  let ?J = "demo_json (to_persisted ?i')"
  let ?s' = "\<lparr>nodes = [([''ix''], File [1])], faults = []\<rparr>"
  have run: "run_index_op ?J (OpRegister ''h'' demo_entry) (?i, \<lparr>nodes = [], faults = []\<rparr>)
      = (Inr (), (?i', ?s'))"
    by (simp add: register_def persist_def demo_json_def to_persisted_def in_memory_def
        fs_write_def next_fault_def is_dir_def lookup_def set_node_def)
  have "index_open ?J [''ix''] ?s' = (Inr ?i', ?s')"
    by (rule index_change_is_durable [OF run]) (simp_all add: demo_json_def)
  with run show ?thesis by (simp add: Let_def)
qed

text \<open>Dropping a version's references undoes taking them: incrementing the counts of a
  list of chunks and then decrementing them in the same order brings every counter back,
  as long as no 32-bit counter overflows, and registers no chunk.\<close>

theorem index_references_balance:
  assumes "index_cnt st h = Some n" and "n + count_list hs h < 2 ^ 32"
  shows "index_cnt (fold (\<lambda>h st. snd (decrement_ref_count J h st)) hs
           (fold (\<lambda>h st. snd (increment_ref_count J h st)) hs st)) h = Some n"
  using ixr.decs_undo_incs [OF assms] .

theorem index_references_balance_witness:
  "index_cnt (in_memory\<lparr>bi_chunk_index := [(''h'', demo_entry)]\<rparr>, \<lparr>nodes = [], faults = []\<rparr>) ''h'' = Some 1
   \<and> (1::nat) + count_list [''h'', ''g'', ''h''] ''h'' < 2 ^ 32
   \<and> index_cnt (fold (\<lambda>h st. snd (decrement_ref_count (demo_json (to_persisted in_memory)) h st))
          [''h'', ''g'', ''h'']
        (fold (\<lambda>h st. snd (increment_ref_count (demo_json (to_persisted in_memory)) h st))
          [''h'', ''g'', ''h'']
          (in_memory\<lparr>bi_chunk_index := [(''h'', demo_entry)]\<rparr>, \<lparr>nodes = [], faults = []\<rparr>))) ''h'' = Some 1"
proof (intro conjI)
  show c: "index_cnt (in_memory\<lparr>bi_chunk_index := [(''h'', demo_entry)]\<rparr>,
      \<lparr>nodes = [], faults = []\<rparr>) ''h'' = Some 1"
    by (simp add: index_cnt_def index_lookup_def demo_entry_def)
  show d: "(1::nat) + count_list [''h'', ''g'', ''h''] ''h'' < 2 ^ 32" by simp
  show "index_cnt (fold (\<lambda>h st. snd (decrement_ref_count (demo_json (to_persisted in_memory)) h st))
          [''h'', ''g'', ''h'']
        (fold (\<lambda>h st. snd (increment_ref_count (demo_json (to_persisted in_memory)) h st))
          [''h'', ''g'', ''h'']
          (in_memory\<lparr>bi_chunk_index := [(''h'', demo_entry)]\<rparr>, \<lparr>nodes = [], faults = []\<rparr>))) ''h'' = Some 1"
    by (rule index_references_balance [OF c d])
qed

end
