(* ===== verification/Badou_Store.thy ===== *)
theory Badou_Store
  imports Badou_Index
begin

text \<open>
  The persistence layer (\<open>badou-store\<close>): the content-addressed chunk store, the
  framed manifest files, the snapshot files and the staging area of the two-phase
  commit.

  The chunk store works on the index and the file system (\<open>ist\<close>); the other stores
  work on the file system alone.  \<open>blake3\<close>, \<open>hex\<close> and \<open>uuid\<close> are fields of the
  \<open>crates\<close> argument, \<open>serde_json\<close> is an argument per serialised type.  The path
  stored in an index entry (a lossy string in Rust) is the path itself.  The locale
  \<open>content_store\<close> is the contract that commit, verification and recovery rely on.
\<close>

definition on_fs :: "(fsys \<Rightarrow> ('e + 'a) \<times> fsys) \<Rightarrow> ist \<Rightarrow> ('e + 'a) \<times> ist" where
  "on_fs f = (\<lambda>(i, s). case f s of (r, s') \<Rightarrow> (r, (i, s')))"

lemma on_fs_simp [simp]: "on_fs f (i, s) = (fst (f s), (i, snd (f s)))"
  by (simp add: on_fs_def split: prod.splits)

subsection \<open>Chunk store\<close>

datatype chunk_store_error =
  CsIo io_error
| CsHashMismatch string string
| CsIndex index_error
| CsNotFound string

record chunk_location =
  cl_bucket :: string
  cl_path :: path
  cl_deduplicated :: bool

definition chunk_path :: "crates \<Rightarrow> layout \<Rightarrow> uuid \<Rightarrow> chunk_hash \<Rightarrow> path" where
  "chunk_path X l rid h = bucket_path X l rid h"

definition chunk_exists :: "crates \<Rightarrow> badou_index \<Rightarrow> chunk_hash \<Rightarrow> bool" where
  "chunk_exists X i h \<longleftrightarrow> index_lookup i (hex_encode X h) \<noteq> None"

definition write_chunk ::
  "crates \<Rightarrow> index_json \<Rightarrow> layout \<Rightarrow> uuid \<Rightarrow> timestamp \<Rightarrow> chunk_hash \<Rightarrow> bytes \<Rightarrow> ist \<Rightarrow>
   (chunk_store_error + chunk_location) \<times> ist" where
  "write_chunk X J l rid now h data = (\<lambda>(i, s).
     case index_lookup i (hex_encode X h) of
       Some existing \<Rightarrow>
         and_then (map_err CsIndex (increment_ref_count J (hex_encode X h) (i, s)))
           (\<lambda>_ st. (Inr \<lparr>cl_bucket = ie_bucket existing, cl_path = ie_path existing,
                       cl_deduplicated = True\<rparr>, st))
     | None \<Rightarrow>
         and_then (map_err CsIo (on_fs (fs_create_dir_all (butlast (bucket_path X l rid h))) (i, s)))
         (\<lambda>_ st. and_then (map_err CsIo (on_fs (fs_write (bucket_path X l rid h) data) st))
         (\<lambda>_ st. and_then (map_err CsIndex (register J (hex_encode X h)
             \<lparr>ie_bucket = hex_encode X (take 1 h), ie_path = bucket_path X l rid h,
              ie_ref_count = 1, ie_size = of_nat (length data), ie_stored_size = of_nat (length data),
              ie_created_at = now, ie_status = IActive\<rparr> st))
         (\<lambda>_ st. (Inr \<lparr>cl_bucket = hex_encode X (take 1 h), cl_path = bucket_path X l rid h,
                     cl_deduplicated = False\<rparr>, st)))))"

definition read_chunk :: "crates \<Rightarrow> chunk_hash \<Rightarrow> ist \<Rightarrow> (chunk_store_error + bytes) \<times> ist" where
  "read_chunk X h = (\<lambda>(i, s).
     case index_lookup i (hex_encode X h) of
       None \<Rightarrow> (Inl (CsNotFound (hex_encode X h)), (i, s))
     | Some entry \<Rightarrow>
         and_then (map_err CsIo (on_fs (fs_read (ie_path entry)) (i, s)))
           (\<lambda>data st.
              if blake3_hash X data \<noteq> h
              then (Inl (CsHashMismatch (hex_encode X h) (hex_encode X (blake3_hash X data))), st)
              else (Inr data, st)))"

definition delete_chunk_physical ::
  "crates \<Rightarrow> index_json \<Rightarrow> chunk_hash \<Rightarrow> ist \<Rightarrow> (chunk_store_error + unit) \<times> ist" where
  "delete_chunk_physical X J h = (\<lambda>(i, s).
     case index_lookup i (hex_encode X h) of
       None \<Rightarrow> (Inl (CsNotFound (hex_encode X h)), (i, s))
     | Some entry \<Rightarrow>
         and_then (if path_exists s (ie_path entry)
                   then map_err CsIo (on_fs (fs_remove_file (ie_path entry)) (i, s))
                   else (Inr (), (i, s)))
           (\<lambda>_ st. map_err CsIndex (update_status J (hex_encode X h) IPurged st)))"

definition ref_count :: "crates \<Rightarrow> badou_index \<Rightarrow> chunk_hash \<Rightarrow> u32" where
  "ref_count X i h =
     (case index_lookup i (hex_encode X h) of Some e \<Rightarrow> ie_ref_count e | None \<Rightarrow> 0)"

subsection \<open>Manifest store\<close>

datatype manifest_store_error =
  MsIo io_error | MsSerde | MsNotFound uuid | MsInconsistent | MsTruncated

record manifest_json =
  mj_to_vec :: "manifest \<Rightarrow> bytes option"
  mj_from_slice :: "bytes \<Rightarrow> manifest option"

definition encode_manifest :: "manifest_json \<Rightarrow> manifest \<Rightarrow> manifest_store_error + bytes" where
  "encode_manifest M m = (case mj_to_vec M m of
     None \<Rightarrow> Inl MsSerde
   | Some json \<Rightarrow> Inr (le_bytes 4 (length json mod 2 ^ 32) @ json))"

definition decode_manifest :: "manifest_json \<Rightarrow> bytes \<Rightarrow> manifest_store_error + manifest" where
  "decode_manifest M data =
     (if length data < 4 then Inl MsTruncated
      else let len = of_le_bytes (take 4 data) in
        if length data < 4 + len then Inl MsTruncated
        else (case mj_from_slice M (take len (drop 4 data)) of
                None \<Rightarrow> Inl MsSerde
              | Some m \<Rightarrow> Inr m))"

definition manifest_path :: "crates \<Rightarrow> layout \<Rightarrow> uuid \<Rightarrow> uuid \<Rightarrow> path" where
  "manifest_path X l rid mid = manifests_dir X l rid @ [uuid_to_string X mid @ ''.manifest'']"

definition write_manifest ::
  "crates \<Rightarrow> manifest_json \<Rightarrow> layout \<Rightarrow> uuid \<Rightarrow> manifest \<Rightarrow> fsys \<Rightarrow>
   (manifest_store_error + uuid) \<times> fsys" where
  "write_manifest X M l rid m s =
     (let final = manifest_path X l rid (mf_manifest_id m);
          staging = with_extension final ''manifest.staging''
      in case encode_manifest M m of
           Inl e \<Rightarrow> (Inl e, s)
         | Inr encoded \<Rightarrow>
             and_then (map_err MsIo (fs_write staging encoded s))
             (\<lambda>_ s. and_then (map_err MsIo (fs_rename staging final s))
             (\<lambda>_ s. (Inr (mf_manifest_id m), s))))"

definition read_manifest ::
  "crates \<Rightarrow> manifest_json \<Rightarrow> layout \<Rightarrow> uuid \<Rightarrow> uuid \<Rightarrow> fsys \<Rightarrow>
   (manifest_store_error + manifest) \<times> fsys" where
  "read_manifest X M l rid mid s =
     (if \<not> path_exists s (manifest_path X l rid mid) then (Inl (MsNotFound mid), s)
      else and_then (map_err MsIo (fs_read (manifest_path X l rid mid) s))
             (\<lambda>data s. (decode_manifest M data, s)))"

definition manifest_exists :: "crates \<Rightarrow> layout \<Rightarrow> uuid \<Rightarrow> uuid \<Rightarrow> fsys \<Rightarrow> bool" where
  "manifest_exists X l rid mid s = path_exists s (manifest_path X l rid mid)"

definition compute_hash :: "crates \<Rightarrow> manifest_json \<Rightarrow> manifest \<Rightarrow> string" where
  "compute_hash X M m =
     (let encoded = (case encode_manifest M m of Inr b \<Rightarrow> b | Inl _ \<Rightarrow> [])
      in hex_encode X (blake3_hash X encoded))"

definition verify_consistency ::
  "crates \<Rightarrow> manifest \<Rightarrow> file_entry list \<Rightarrow> manifest_store_error + unit" where
  "verify_consistency X m files =
     (if set (map (\<lambda>r. hex_encode X (cr_chunk_hash r)) (mf_chunk_refs m))
         \<noteq> set (map (hex_encode X) (concat (map fe_chunk_hashes files)))
      then Inl MsInconsistent else Inr ())"

subsection \<open>Snapshot store\<close>

datatype snapshot_store_error =
  SsIo io_error | SsSerde | SsNotFound uuid | SsSealedImmutable uuid | SsVerifyInfoMissing uuid

record snapshot_json =
  sj_to_vec :: "snapshot \<Rightarrow> bytes option"
  sj_from_slice :: "bytes \<Rightarrow> snapshot option"

definition snapshot_path :: "crates \<Rightarrow> layout \<Rightarrow> uuid \<Rightarrow> uuid \<Rightarrow> path" where
  "snapshot_path X l rid sid = snapshots_dir X l rid @ [uuid_to_string X sid @ ''.snapshot'']"

definition write_snapshot ::
  "crates \<Rightarrow> snapshot_json \<Rightarrow> layout \<Rightarrow> uuid \<Rightarrow> snapshot \<Rightarrow> fsys \<Rightarrow>
   (snapshot_store_error + uuid) \<times> fsys" where
  "write_snapshot X N l rid sn s =
     (if sn_status sn = SSealed \<and> \<not> verified (sn_verify_info sn)
      then (Inl (SsVerifyInfoMissing (sn_snapshot_id sn)), s)
      else let final = snapshot_path X l rid (sn_snapshot_id sn);
               staging = with_extension final ''snapshot.staging''
           in case sj_to_vec N sn of
                None \<Rightarrow> (Inl SsSerde, s)
              | Some json \<Rightarrow>
                  and_then (map_err SsIo (fs_write staging json s))
                  (\<lambda>_ s. and_then (map_err SsIo (fs_rename staging final s))
                  (\<lambda>_ s. (Inr (sn_snapshot_id sn), s))))"

definition read_snapshot ::
  "crates \<Rightarrow> snapshot_json \<Rightarrow> layout \<Rightarrow> uuid \<Rightarrow> uuid \<Rightarrow> fsys \<Rightarrow>
   (snapshot_store_error + snapshot) \<times> fsys" where
  "read_snapshot X N l rid sid s =
     (if \<not> path_exists s (snapshot_path X l rid sid) then (Inl (SsNotFound sid), s)
      else and_then (map_err SsIo (fs_read (snapshot_path X l rid sid) s))
             (\<lambda>data s. case sj_from_slice N data of
                None \<Rightarrow> (Inl SsSerde, s)
              | Some sn \<Rightarrow> (Inr sn, s)))"

definition seal_snapshot ::
  "crates \<Rightarrow> snapshot_json \<Rightarrow> layout \<Rightarrow> uuid \<Rightarrow> uuid \<Rightarrow> fsys \<Rightarrow>
   (snapshot_store_error + unit) \<times> fsys" where
  "seal_snapshot X N l rid sid s =
     and_then (read_snapshot X N l rid sid s)
       (\<lambda>sn s.
          if sn_status sn = SSealed then (Inl (SsSealedImmutable sid), s)
          else if \<not> verified (sn_verify_info sn) then (Inl (SsVerifyInfoMissing sid), s)
          else (case sj_to_vec N (sn\<lparr>sn_status := SSealed\<rparr>) of
                  None \<Rightarrow> (Inl SsSerde, s)
                | Some json \<Rightarrow> map_err SsIo (fs_write (snapshot_path X l rid sid) json s)))"

definition snapshot_exists :: "crates \<Rightarrow> layout \<Rightarrow> uuid \<Rightarrow> uuid \<Rightarrow> fsys \<Rightarrow> bool" where
  "snapshot_exists X l rid sid s = path_exists s (snapshot_path X l rid sid)"

definition verify_sealed_immutability ::
  "crates \<Rightarrow> snapshot_json \<Rightarrow> layout \<Rightarrow> uuid \<Rightarrow> uuid \<Rightarrow> fsys \<Rightarrow>
   (snapshot_store_error + bool) \<times> fsys" where
  "verify_sealed_immutability X N l rid sid s =
     and_then (read_snapshot X N l rid sid s) (\<lambda>sn s. (Inr (sn_status sn = SSealed), s))"

definition check_verify_info ::
  "crates \<Rightarrow> snapshot_json \<Rightarrow> layout \<Rightarrow> uuid \<Rightarrow> uuid \<Rightarrow> fsys \<Rightarrow>
   (snapshot_store_error + bool) \<times> fsys" where
  "check_verify_info X N l rid sid s =
     and_then (read_snapshot X N l rid sid s) (\<lambda>sn s. (Inr (verified (sn_verify_info sn)), s))"

subsection \<open>Staging\<close>

datatype staging_error =
  StIo io_error | StAlreadyExists uuid | StNotFound uuid | StCommitFailed io_error

record staging_area =
  sd_version_id :: uuid
  sd_manifest_staging :: path
  sd_snapshot_staging :: path

definition manifest_staging_path :: "crates \<Rightarrow> layout \<Rightarrow> uuid \<Rightarrow> uuid \<Rightarrow> path" where
  "manifest_staging_path X l rid vid = manifests_dir X l rid @ [''.staging'', uuid_to_string X vid]"

definition snapshot_staging_path :: "crates \<Rightarrow> layout \<Rightarrow> uuid \<Rightarrow> uuid \<Rightarrow> path" where
  "snapshot_staging_path X l rid vid = snapshots_dir X l rid @ [''.staging'', uuid_to_string X vid]"

definition create_staging ::
  "crates \<Rightarrow> layout \<Rightarrow> uuid \<Rightarrow> uuid \<Rightarrow> fsys \<Rightarrow> (staging_error + staging_area) \<times> fsys" where
  "create_staging X l rid vid s =
     (let ms = manifest_staging_path X l rid vid; ss = snapshot_staging_path X l rid vid in
      if path_exists s ms \<or> path_exists s ss then (Inl (StAlreadyExists vid), s)
      else and_then (map_err StIo (fs_create_dir_all ms s))
        (\<lambda>_ s. and_then (map_err StIo (fs_create_dir_all ss s))
        (\<lambda>_ s. (Inr \<lparr>sd_version_id = vid, sd_manifest_staging = ms, sd_snapshot_staging = ss\<rparr>, s))))"

definition ends_with :: "string \<Rightarrow> string \<Rightarrow> bool" where
  "ends_with s suf \<longleftrightarrow> suffix suf s"

definition write_to_staging ::
  "staging_area \<Rightarrow> string \<Rightarrow> bytes \<Rightarrow> fsys \<Rightarrow> (staging_error + path) \<times> fsys" where
  "write_to_staging sd name data s =
     (let mp = sd_manifest_staging sd @ [name]; sp = sd_snapshot_staging sd @ [name] in
      if ends_with name ''.manifest''
      then and_then (map_err StIo (fs_write mp data s)) (\<lambda>_ s. (Inr mp, s))
      else if ends_with name ''.snapshot''
      then and_then (map_err StIo (fs_write sp data s)) (\<lambda>_ s. (Inr sp, s))
      else and_then (map_err StIo (fs_write mp data s)) (\<lambda>_ s. (Inr mp, s)))"

fun rename_entries :: "path \<Rightarrow> path \<Rightarrow> string list \<Rightarrow> fsys \<Rightarrow> (staging_error + unit) \<times> fsys" where
  "rename_entries staging target [] s = (Inr (), s)"
| "rename_entries staging target (name # names) s =
     (if is_file s (staging @ [name]) then
        and_then (map_err StCommitFailed (fs_rename (staging @ [name]) (target @ [name]) s))
          (\<lambda>_ s. rename_entries staging target names s)
      else rename_entries staging target names s)"

definition commit_dir :: "path \<Rightarrow> path \<Rightarrow> fsys \<Rightarrow> (staging_error + unit) \<times> fsys" where
  "commit_dir staging target s =
     (if \<not> path_exists s staging then (Inr (), s)
      else and_then (map_err StIo (fs_read_dir staging s))
             (\<lambda>names s. rename_entries staging target names s))"

definition cleanup_staging :: "crates \<Rightarrow> layout \<Rightarrow> uuid \<Rightarrow> uuid \<Rightarrow> fsys \<Rightarrow> (staging_error + unit) \<times> fsys" where
  "cleanup_staging X l rid vid s =
     (let ms = manifest_staging_path X l rid vid; ss = snapshot_staging_path X l rid vid in
      and_then (if path_exists s ms then map_err StIo (fs_remove_dir_all ms s) else (Inr (), s))
        (\<lambda>_ s. if path_exists s ss then map_err StIo (fs_remove_dir_all ss s) else (Inr (), s)))"

definition atomic_commit ::
  "crates \<Rightarrow> layout \<Rightarrow> uuid \<Rightarrow> staging_area \<Rightarrow> fsys \<Rightarrow> (staging_error + unit) \<times> fsys" where
  "atomic_commit X l rid sd s =
     and_then (commit_dir (sd_manifest_staging sd) (manifests_dir X l rid) s)
     (\<lambda>_ s. and_then (commit_dir (sd_snapshot_staging sd) (snapshots_dir X l rid) s)
     (\<lambda>_ s. cleanup_staging X l rid (sd_version_id sd) s))"

definition staging_exists :: "crates \<Rightarrow> layout \<Rightarrow> uuid \<Rightarrow> uuid \<Rightarrow> fsys \<Rightarrow> bool" where
  "staging_exists X l rid vid s \<longleftrightarrow>
     path_exists s (manifest_staging_path X l rid vid) \<or> path_exists s (snapshot_staging_path X l rid vid)"

definition list_pending_staging ::
  "crates \<Rightarrow> layout \<Rightarrow> uuid \<Rightarrow> fsys \<Rightarrow> (staging_error + uuid list) \<times> fsys" where
  "list_pending_staging X l rid s =
     (let root = manifests_dir X l rid @ [''.staging''] in
      if path_exists s root
      then and_then (map_err StIo (fs_read_dir root s))
             (\<lambda>names s. (Inr (List.map_filter (uuid_parse X) names), s))
      else (Inr [], s))"

end
