(* ===== verification/Badou_Chunk_Facts.thy ===== *)
theory Badou_Chunk_Facts
  imports Badou_Store
begin

text \<open>
  The chunk store as a content-addressed store.  The locale \<open>content_store\<close> is the
  contract: a successful read answers bytes with the requested digest, a write of an
  unknown digest adds its bytes, a write of a known digest leaves every content
  alone.  Its client lemmas are about loops of writes and reads.  \<open>write_chunk\<close> and
  \<open>read_chunk\<close> interpret it for every layout, repository and serialiser.
\<close>

subsection \<open>The contract\<close>

fun put_all :: "('h \<Rightarrow> 'd \<Rightarrow> 's \<Rightarrow> ('e + 'l) \<times> 's) \<Rightarrow> ('h \<times> 'd) list \<Rightarrow> 's \<Rightarrow> ('e + 'l list) \<times> 's" where
  "put_all put [] s = (Inr [], s)"
| "put_all put ((h, d) # cs) s =
     and_then (put h d s) (\<lambda>l s. and_then (put_all put cs s) (\<lambda>ls s. (Inr (l # ls), s)))"

locale content_store =
  fixes put :: "'h \<Rightarrow> 'd \<Rightarrow> 's \<Rightarrow> ('e + 'l) \<times> 's"
    and get :: "'h \<Rightarrow> 's \<Rightarrow> ('e + 'd) \<times> 's"
    and content :: "'s \<Rightarrow> 'h \<Rightarrow> 'd option"
    and known :: "'s \<Rightarrow> 'h \<Rightarrow> bool"
    and digest :: "'d \<Rightarrow> 'h"
    and inv :: "'s \<Rightarrow> bool"
    and quiet :: "'s \<Rightarrow> bool"
  assumes get_sound: "get h s = (Inr d, s') \<Longrightarrow> digest d = h \<and> content s h = Some d"
    and get_frame: "get h s = (r, s') \<Longrightarrow> content s' = content s \<and> known s' = known s"
    and get_inv: "inv s \<Longrightarrow> get h s = (r, s') \<Longrightarrow> inv s'"
    and get_total: "quiet s \<Longrightarrow> content s h = Some d \<Longrightarrow> digest d = h \<Longrightarrow> get h s = (Inr d, s)"
    and unknown: "\<not> known s h \<Longrightarrow> content s h = None"
    and put_known: "inv s \<Longrightarrow> known s h \<Longrightarrow> put h d s = (p, s') \<Longrightarrow> content s' = content s"
    and put_new: "inv s \<Longrightarrow> \<not> known s h \<Longrightarrow> put h d s = (Inr l, s') \<Longrightarrow> content s' = (content s)(h \<mapsto> d)"
    and put_knows: "inv s \<Longrightarrow> put h d s = (Inr l, s') \<Longrightarrow> known s' = (known s)(h := True)"
    and put_inv: "inv s \<Longrightarrow> put h d s = (p, s') \<Longrightarrow> inv s'"
begin

text \<open>
  After a loop of writes a known digest has its old content, and a new one has the
  bytes of its first occurrence in the loop.
\<close>

theorem put_all_content:
  assumes "inv s" and "put_all put cs s = (Inr ls, s')"
  shows "inv s' \<and> content s' h =
    (if known s h then content s h else map_of cs h) \<and>
    known s' h = (known s h \<or> h \<in> fst ` set cs)"
  using assms
proof (induction cs arbitrary: s ls)
  case (Cons c cs)
  obtain k d where c: "c = (k, d)" by fastforce
  with Cons.prems(2) obtain l s1 ls1 where
    p: "put k d s = (Inr l, s1)" and q: "put_all put cs s1 = (Inr ls1, s')"
    by (auto simp: and_then_Ok_iff)
  have i1: "inv s1" and k1: "known s1 = (known s)(k := True)"
    using put_inv [OF Cons.prems(1) p] put_knows [OF Cons.prems(1) p] by auto
  note IH = Cons.IH [OF i1 q]
  show ?case
  proof (cases "known s k")
    case True
    then have "content s1 = content s" using put_known Cons.prems(1) p by blast
    with IH k1 True c show ?thesis by auto
  next
    case False
    then have "content s1 = (content s)(k \<mapsto> d)" using put_new Cons.prems(1) p by blast
    with IH k1 False c show ?thesis by auto
  qed
qed (auto simp: unknown)

theorem put_all_get:
  assumes "inv s" and "put_all put cs s = (Inr ls, s')" and "quiet s'"
    and "\<not> known s h" and "map_of cs h = Some d" and "digest d = h"
  shows "get h s' = (Inr d, s')"
  using put_all_content [OF assms(1,2), of h] assms(4-6) by (intro get_total assms(3)) auto

theorem put_get:
  assumes "inv s" and "put h d s = (Inr l, s')" and "quiet s'" and "\<not> known s h" and "digest d = h"
  shows "get h s' = (Inr d, s')"
  using put_new [OF assms(1,4,2)] by (intro get_total assms(3,5)) auto

text \<open>A known digest without content is lost: the write is accepted and no read succeeds.\<close>

theorem lost_content:
  assumes "inv s" and "known s h" and "content s h = None" and "put h d s = (r, s')"
  shows "get h s' \<noteq> (Inr x, t)"
  using put_known [OF assms(1,2,4)] get_sound assms(3) by fastforce

end

subsection \<open>The chunk store meets it\<close>

definition file_at :: "fsys \<Rightarrow> path \<Rightarrow> bytes option" where
  "file_at s p = (case lookup s p of Some (File d) \<Rightarrow> Some d | _ \<Rightarrow> None)"

definition chunk_content :: "crates \<Rightarrow> ist \<Rightarrow> chunk_hash \<Rightarrow> bytes option" where
  "chunk_content X st h = (case index_lookup (fst st) (hex_encode X h) of
     None \<Rightarrow> None
   | Some e \<Rightarrow> file_at (snd st) (ie_path e))"

text \<open>
  Store invariant: every indexed path is the bucket path of its hash, and the index
  file itself is none of the bucket paths.  It also records what the code relies on
  of \<open>hex::encode\<close>, that different bytes have different encodings.
\<close>

definition store_inv :: "crates \<Rightarrow> layout \<Rightarrow> uuid \<Rightarrow> ist \<Rightarrow> bool" where
  "store_inv X l rid st \<longleftrightarrow> inj (hex_encode X) \<and>
     (\<forall>k e. index_lookup (fst st) k = Some e \<longrightarrow>
        (\<exists>h. k = hex_encode X h \<and> ie_path e = bucket_path X l rid h)) \<and>
     (\<forall>h. bi_persist_path (fst st) \<noteq> Some (bucket_path X l rid h))"

definition quiet :: "ist \<Rightarrow> bool" where
  "quiet st \<longleftrightarrow> faults (snd st) = []"

lemma store_inv_entry:
  "store_inv X l rid st \<Longrightarrow> index_lookup (fst st) (hex_encode X h) = Some e \<Longrightarrow>
   ie_path e = bucket_path X l rid h"
  unfolding store_inv_def by (metis injD)

lemma bucket_path_inj:
  "inj (hex_encode X) \<Longrightarrow> bucket_path X l rid h = bucket_path X l rid k \<longleftrightarrow> h = k"
  by (auto simp: bucket_path_def dest: injD)

lemma file_at_File [simp]: "lookup s p = Some (File d) \<Longrightarrow> file_at s p = Some d"
  by (simp add: file_at_def)

lemma file_at_Some: "file_at s p = Some d \<longleftrightarrow> lookup s p = Some (File d)"
  by (auto simp: file_at_def split: option.splits node.splits)

lemma file_at_lookup: "lookup t = lookup s \<Longrightarrow> file_at t = file_at s"
  by (auto simp: file_at_def fun_eq_iff)

lemma file_at_create_dir_all: "fs_create_dir_all p s = (r, t) \<Longrightarrow> file_at t = file_at s"
proof
  fix q assume a: "fs_create_dir_all p s = (r, t)"
  show "file_at t q = file_at s q"
    using create_dir_all_lookup [OF a, of q] by (auto simp: file_at_def)
qed

lemma file_at_write: "fs_write p d s = (r, t) \<Longrightarrow> q \<noteq> p \<Longrightarrow> file_at t q = file_at s q"
  using fs_write_frame [of p d s r t q] by (simp add: file_at_def)

lemma file_at_persist:
  "persist J (i, s) = (r, (i', s')) \<Longrightarrow> bi_persist_path i \<noteq> Some q \<Longrightarrow> file_at s' q = file_at s q"
  using persist_frame [of J i s r i' s' q] by (simp add: file_at_def)

lemma persist_keeps_content:
  assumes "store_inv X l rid (i, s)" and "persist J (i, s) = (r, (i', s'))"
  shows "chunk_content X (i', s') = chunk_content X (i, s)"
proof
  fix h
  have i: "i' = i" using persist_index [of J "(i, s)"] assms(2) by simp
  show "chunk_content X (i', s') h = chunk_content X (i, s) h"
  proof (cases "index_lookup i (hex_encode X h)")
    case (Some e)
    then have "ie_path e = bucket_path X l rid h"
      using store_inv_entry [OF assms(1), of h e] by simp
    then have "file_at s' (ie_path e) = file_at s (ie_path e)"
      using file_at_persist [OF assms(2), of "ie_path e"] assms(1) by (simp add: store_inv_def)
    then show ?thesis using Some i by (simp add: chunk_content_def)
  qed (simp add: chunk_content_def i)
qed

lemma store_inv_upd_entry:
  "store_inv X l rid (i, s) \<Longrightarrow> (\<And>e. ie_path (f e) = ie_path e) \<Longrightarrow>
   store_inv X l rid (upd_entry k f i, s')"
  unfolding store_inv_def by (auto simp: lookup_upd_entry split: if_splits)

lemma content_upd_entry:
  "(\<And>e. ie_path (f e) = ie_path e) \<Longrightarrow>
   chunk_content X (upd_entry k f i, s) = chunk_content X (i, s)"
  by (rule ext) (auto simp: chunk_content_def lookup_upd_entry split: option.splits)

lemma store_inv_index: "store_inv X l rid (i, s) \<Longrightarrow> store_inv X l rid (i, t)"
  by (simp add: store_inv_def)

lemma upd_entry_some:
  "map_of (bi_chunk_index i) h = Some e \<Longrightarrow>
   i\<lparr>bi_chunk_index := AList.update h (f e) (bi_chunk_index i)\<rparr> = upd_entry h f i"
  by (simp add: upd_entry_def)

text \<open>An entry update that keeps the path, followed by \<open>persist\<close>, keeps every content.\<close>

lemma entry_change_keeps_content:
  assumes "store_inv X l rid (i, s)" and "\<And>e. ie_path (f e) = ie_path e"
    and "persist J (upd_entry k f i, s) = (r, (i', s'))"
  shows "chunk_content X (i', s') = chunk_content X (i, s) \<and> store_inv X l rid (i', s')"
proof -
  have inv: "store_inv X l rid (upd_entry k f i, s)"
    using store_inv_upd_entry [OF assms(1,2)] .
  moreover have "i' = upd_entry k f i"
    using persist_index [of J "(upd_entry k f i, s)"] assms(3) by simp
  ultimately show ?thesis
    using persist_keeps_content [OF inv assms(3)] content_upd_entry [OF assms(2), of X k i s]
      store_inv_index [OF inv, of s'] by simp
qed

lemma increment_as_persist:
  assumes "index_lookup i h = Some e"
  shows "increment_ref_count J h (i, s) =
    and_then (persist J (upd_entry h (\<lambda>e. e\<lparr>ie_ref_count := ie_ref_count e + 1\<rparr>) i, s))
      (\<lambda>_ st. (Inr (ie_ref_count e + 1), st))"
  using assms by (simp add: increment_ref_count_def index_lookup_def Let_def upd_entry_def)

lemma increment_keeps_content:
  assumes "store_inv X l rid (i, s)" and "index_lookup i h = Some e"
    and "increment_ref_count J h (i, s) = (r, (i', s'))"
  shows "chunk_content X (i', s') = chunk_content X (i, s) \<and> store_inv X l rid (i', s')"
proof -
  let ?f = "\<lambda>e::chunk_index_entry. e\<lparr>ie_ref_count := ie_ref_count e + 1\<rparr>"
  obtain p where "persist J (upd_entry h ?f i, s) = (p, (i', s'))"
    using assms(3) unfolding increment_as_persist [OF assms(2)]
    by (cases "persist J (upd_entry h ?f i, s)") (auto simp: and_then_def split: sum.splits)
  then show ?thesis
    using entry_change_keeps_content [OF assms(1), of ?f] by simp
qed

lemma write_chunk_known:
  assumes "store_inv X l rid (i, s)" and "chunk_exists X i h"
    and "write_chunk X J l rid now h d (i, s) = (r, (i', s'))"
  shows "chunk_content X (i', s') = chunk_content X (i, s) \<and> store_inv X l rid (i', s')"
proof -
  obtain e where e: "index_lookup i (hex_encode X h) = Some e"
    using assms(2) by (auto simp: chunk_exists_def)
  obtain q where "increment_ref_count J (hex_encode X h) (i, s) = (q, (i', s'))"
    using assms(3) e
    by (cases "increment_ref_count J (hex_encode X h) (i, s)")
       (auto simp: write_chunk_def and_then_def map_err_def split: sum.splits)
  then show ?thesis by (rule increment_keeps_content [OF assms(1) e])
qed

lemma write_chunk_known_index:
  assumes "chunk_exists X i h"
  shows "fst (snd (write_chunk X J l rid now h d (i, s))) =
    upd_entry (hex_encode X h) (\<lambda>e. e\<lparr>ie_ref_count := ie_ref_count e + 1\<rparr>) i"
proof -
  obtain e where "index_lookup i (hex_encode X h) = Some e"
    using assms by (auto simp: chunk_exists_def)
  then show ?thesis
    using index_after_increment [of J "hex_encode X h" i s]
    by (cases "increment_ref_count J (hex_encode X h) (i, s)")
       (auto simp: write_chunk_def and_then_def map_err_def split: sum.splits)
qed

definition new_entry :: "crates \<Rightarrow> layout \<Rightarrow> uuid \<Rightarrow> timestamp \<Rightarrow> chunk_hash \<Rightarrow> bytes \<Rightarrow> chunk_index_entry" where
  "new_entry X l rid now h data =
     \<lparr>ie_bucket = hex_encode X (take 1 h), ie_path = bucket_path X l rid h,
      ie_ref_count = 1, ie_size = of_nat (length data), ie_stored_size = of_nat (length data),
      ie_created_at = now, ie_status = IActive\<rparr>"

lemma store_inv_register:
  assumes "store_inv X l rid (i, s)" and "ie_path e = bucket_path X l rid h"
  shows "store_inv X l rid (i\<lparr>bi_chunk_index := AList.update (hex_encode X h) e (bi_chunk_index i)\<rparr>, s')"
  using assms unfolding store_inv_def by (auto simp: register_lookup)

text \<open>The branch for an unknown hash, taken apart once for all the laws.\<close>

lemma write_chunk_new_cases:
  assumes "\<not> chunk_exists X i h" and "write_chunk X J l rid now h d (i, s) = (r, (i', s'))"
  obtains (dir) e where "fs_create_dir_all (butlast (bucket_path X l rid h)) s = (Inl e, s')"
      "i' = i" "r = Inl (CsIo e)"
  | (wr) s1 e where "fs_create_dir_all (butlast (bucket_path X l rid h)) s = (Inr (), s1)"
      "fs_write (bucket_path X l rid h) d s1 = (Inl e, s')" "i' = i" "r = Inl (CsIo e)"
  | (reg) s1 s2 p where "fs_create_dir_all (butlast (bucket_path X l rid h)) s = (Inr (), s1)"
      "fs_write (bucket_path X l rid h) d s1 = (Inr (), s2)"
      "register J (hex_encode X h) (new_entry X l rid now h d) (i, s2) = (p, (i', s'))"
      "(\<exists>x. r = Inr x) \<longleftrightarrow> p = Inr ()"
proof -
  obtain r1 s1 where d1: "fs_create_dir_all (butlast (bucket_path X l rid h)) s = (r1, s1)"
    by fastforce
  obtain r2 s2 where d2: "fs_write (bucket_path X l rid h) d s1 = (r2, s2)" by fastforce
  obtain r3 st3 where d3: "register J (hex_encode X h) (new_entry X l rid now h d) (i, s2) = (r3, st3)"
    by (rule prod.exhaust)
  note eq = assms(2) [unfolded write_chunk_def, simplified, folded new_entry_def]
  show thesis
  proof (cases r1)
    case (Inl e)
    with assms(1) eq d1 show thesis by (intro dir) (auto simp: chunk_exists_def)
  next
    case r1: (Inr u)
    show thesis
    proof (cases r2)
      case (Inl e)
      with assms(1) eq d1 d2 r1 show thesis by (intro wr) (auto simp: chunk_exists_def)
    next
      case (Inr v)
      with assms(1) eq d1 d2 d3 r1 show thesis
        by (intro reg [of s1 s2 r3]; cases r3) (auto simp: chunk_exists_def)
    qed
  qed
qed

lemma write_chunk_new_inv:
  assumes "store_inv X l rid (i, s)" and "\<not> chunk_exists X i h"
    and "write_chunk X J l rid now h d (i, s) = (r, (i', s'))"
  shows "store_inv X l rid (i', s')"
  using assms(2,3)
proof (cases rule: write_chunk_new_cases)
  case (reg s1 s2 p)
  have "i' = i\<lparr>bi_chunk_index := AList.update (hex_encode X h) (new_entry X l rid now h d) (bi_chunk_index i)\<rparr>"
    using index_after_register [of J _ _ i s2] reg(3) by (metis fst_conv snd_conv)
  then show ?thesis
    using store_inv_register [OF assms(1), of "new_entry X l rid now h d"] by (simp add: new_entry_def)
qed (use store_inv_index assms(1) in auto)

lemma write_chunk_new_content:
  assumes "store_inv X l rid (i, s)" and "\<not> chunk_exists X i h"
    and "write_chunk X J l rid now h d (i, s) = (Inr loc, (i', s'))"
  shows "chunk_content X (i', s') = (chunk_content X (i, s))(h \<mapsto> d) \<and>
    chunk_exists X i' = (chunk_exists X i)(h := True)"
  using assms(2,3)
proof (cases rule: write_chunk_new_cases)
  case (reg s1 s2 p)
  let ?i = "i\<lparr>bi_chunk_index := AList.update (hex_encode X h) (new_entry X l rid now h d) (bi_chunk_index i)\<rparr>"
  have inj: "inj (hex_encode X)" using assms(1) by (simp add: store_inv_def)
  have reg': "persist J (?i, s2) = (p, (i', s'))" using reg(3) by (simp add: register_def)
  have i': "i' = ?i" using persist_index [of J "(?i, s2)"] reg' by simp
  have inv: "store_inv X l rid (?i, s2)"
    using store_inv_register [OF assms(1), of "new_entry X l rid now h d"] by (simp add: new_entry_def)
  have s2: "file_at s2 (bucket_path X l rid k) =
      (if k = h then Some d else file_at s (bucket_path X l rid k))" for k
    using fs_write_Ok [OF reg(2)] file_at_write [OF reg(2)] file_at_create_dir_all [OF reg(1)]
      bucket_path_inj [OF inj, of l rid k h] by (auto simp: file_at_def)
  have "chunk_content X (?i, s2) k = ((chunk_content X (i, s))(h \<mapsto> d)) k" for k
    using s2 [of k] store_inv_entry [OF assms(1)] inj
    by (auto simp: chunk_content_def register_lookup new_entry_def inj_eq split: option.splits)
  then have "chunk_content X (i', s') = (chunk_content X (i, s))(h \<mapsto> d)"
    using persist_keeps_content [OF inv reg'] by auto
  moreover have "chunk_exists X i' = (chunk_exists X i)(h := True)"
    by (auto simp: i' chunk_exists_def register_lookup fun_eq_iff inj_eq [OF inj])
  ultimately show ?thesis ..
qed auto

lemma fs_read_snd [simp]: "lookup (snd (fs_read p s)) = lookup s"
  using fs_read_lookup [of p s] by (metis prod.collapse)

lemma fs_read_fst: "fst (fs_read p s) = Inr d \<Longrightarrow> lookup s p = Some (File d)"
  using fs_read_Ok [of p s d] by (metis prod.collapse)

lemma read_chunk_Ok:
  "read_chunk X h (i, s) = (Inr d, st') \<Longrightarrow> blake3_hash X d = h \<and> chunk_content X (i, s) h = Some d"
  by (auto simp: read_chunk_def chunk_content_def file_at_Some and_then_Ok_iff map_err_Ok_iff
      split: option.splits if_splits dest!: fs_read_fst)

lemma read_chunk_frame:
  "read_chunk X h (i, s) = (r, (i', s')) \<Longrightarrow> i' = i \<and> lookup s' = lookup s"
  by (auto simp: read_chunk_def and_then_def map_err_def
      split: option.splits if_splits sum.splits prod.splits)

lemma read_chunk_total:
  assumes "quiet (i, s)" and "chunk_content X (i, s) h = Some d" and "blake3_hash X d = h"
  shows "read_chunk X h (i, s) = (Inr d, (i, s))"
  using assms by (auto simp: quiet_def chunk_content_def read_chunk_def fs_read_def file_at_Some
      split: option.splits)

interpretation cs: content_store
  "write_chunk X J l rid now" "read_chunk X" "chunk_content X" "\<lambda>st. chunk_exists X (fst st)"
  "blake3_hash X" "store_inv X l rid" quiet
  for X J l rid now
proof unfold_locales
  fix h s s' d assume "read_chunk X h s = (Inr d, s')"
  then show "blake3_hash X d = h \<and> chunk_content X s h = Some d"
    by (cases s) (auto dest: read_chunk_Ok)
next
  fix h s r s' assume "read_chunk X h s = (r, s')"
  then have "fst s' = fst s" and "lookup (snd s') = lookup (snd s)"
    by (cases s; cases s'; auto dest: read_chunk_frame)+
  then show "chunk_content X s' = chunk_content X s \<and>
      (\<lambda>h. chunk_exists X (fst s') h) = (\<lambda>h. chunk_exists X (fst s) h)"
    using file_at_lookup [of "snd s'" "snd s"] by (simp add: chunk_content_def fun_eq_iff split: option.splits)
next
  fix h s r s' assume "store_inv X l rid s" "read_chunk X h s = (r, s')"
  then show "store_inv X l rid s'"
    by (cases s; cases s') (auto dest: read_chunk_frame intro: store_inv_index)
next
  fix h s d assume "quiet s" "chunk_content X s h = Some d" "blake3_hash X d = h"
  then show "read_chunk X h s = (Inr d, s)" by (cases s) (simp add: read_chunk_total)
next
  fix s :: ist and h assume "\<not> chunk_exists X (fst s) h"
  then show "chunk_content X s h = None" by (simp add: chunk_exists_def chunk_content_def)
next
  fix s h d r s' assume "store_inv X l rid s" "chunk_exists X (fst s) h"
    "write_chunk X J l rid now h d s = (r, s')"
  then show "chunk_content X s' = chunk_content X s"
    using write_chunk_known by (cases s; cases s') auto
next
  fix s h d x s' assume "store_inv X l rid s" "\<not> chunk_exists X (fst s) h"
    "write_chunk X J l rid now h d s = (Inr x, s')"
  then show "chunk_content X s' = (chunk_content X s)(h \<mapsto> d)"
    using write_chunk_new_content by (cases s; cases s') auto
next
  fix s h d x s' assume a: "store_inv X l rid s" "write_chunk X J l rid now h d s = (Inr x, s')"
  show "(\<lambda>k. chunk_exists X (fst s') k) = (\<lambda>k. chunk_exists X (fst s) k)(h := True)"
  proof (cases "chunk_exists X (fst s) h")
    case True
    then have "fst s' = upd_entry (hex_encode X h) (\<lambda>e. e\<lparr>ie_ref_count := ie_ref_count e + 1\<rparr>) (fst s)"
      using write_chunk_known_index [of X "fst s" h J l rid now d "snd s"] a(2) by simp
    then show ?thesis
      using True by (auto simp: chunk_exists_def lookup_upd_entry fun_eq_iff)
  next
    case False
    then show ?thesis using a write_chunk_new_content by (cases s; cases s') auto
  qed
next
  fix s h d r s' assume a: "store_inv X l rid s" "write_chunk X J l rid now h d s = (r, s')"
  obtain i t i' t' where [simp]: "s = (i, t)" "s' = (i', t')" by (metis prod.exhaust)
  show "store_inv X l rid s'"
    using a write_chunk_known [of X l rid i t h J now d r i' t']
      write_chunk_new_inv [of X l rid i t h J now d r i' t']
    by (cases "chunk_exists X i h") simp_all
qed

subsection \<open>Deletion\<close>

lemma delete_chunk_content:
  assumes "store_inv X l rid (i, s)" and "delete_chunk_physical X J h (i, s) = (Inr (), (i', s'))"
  shows "store_inv X l rid (i', s') \<and> chunk_exists X i' h \<and>
    chunk_content X (i', s') = (chunk_content X (i, s))(h := None) \<and>
    i' = upd_entry (hex_encode X h) (\<lambda>e. e\<lparr>ie_status := IPurged\<rparr>) i"
proof -
  let ?k = "hex_encode X h" and ?f = "\<lambda>e::chunk_index_entry. e\<lparr>ie_status := IPurged\<rparr>"
  obtain e where e: "index_lookup i ?k = Some e"
    using assms(2) by (auto simp: delete_chunk_physical_def split: option.splits)
  have path: "ie_path e = bucket_path X l rid h" using store_inv_entry [OF assms(1)] e by simp
  obtain s1 where s1: "lookup s1 = (lookup s)(ie_path e := None)"
    and u: "update_status J ?k IPurged (i, s1) = (Inr (), (i', s'))"
  proof (cases "path_exists s (ie_path e)")
    case True
    then obtain s1 where "fs_remove_file (ie_path e) s = (Inr (), s1)"
      and "update_status J ?k IPurged (i, s1) = (Inr (), (i', s'))"
      using assms(2) e by (cases "fs_remove_file (ie_path e) s")
        (auto simp: delete_chunk_physical_def and_then_Ok_iff map_err_Ok_iff)
    then show ?thesis using that fs_remove_file_Ok by blast
  next
    case False
    then show ?thesis using that [of s] assms(2) e
      by (auto simp: delete_chunk_physical_def map_err_Ok_iff path_exists_def fun_upd_idem)
  qed
  have p: "persist J (upd_entry ?k ?f i, s1) = (Inr (), (i', s'))"
    using u e by (simp add: update_status_def index_lookup_def upd_entry_def)
  have i': "i' = upd_entry ?k ?f i" using persist_index [of J "(upd_entry ?k ?f i, s1)"] p by simp
  have inv1: "store_inv X l rid (i, s1)" using assms(1) by (rule store_inv_index)
  have "chunk_content X (i, s1) = (chunk_content X (i, s))(h := None)"
  proof
    fix k
    have inj: "inj (hex_encode X)" using assms(1) by (simp add: store_inv_def)
    show "chunk_content X (i, s1) k = ((chunk_content X (i, s))(h := None)) k"
      using e path s1 store_inv_entry [OF assms(1), of k] bucket_path_inj [OF inj, of l rid k h]
      by (auto simp: chunk_content_def file_at_def split: option.splits)
  qed
  then show ?thesis
    using entry_change_keeps_content [OF inv1 _ p] i' e
    by (auto simp: chunk_exists_def lookup_upd_entry)
qed

text \<open>Whatever a deletion answers, it keeps the invariant and the bytes of every other chunk.\<close>

lemma delete_chunk_frame:
  assumes "store_inv X l rid (i, s)" and "delete_chunk_physical X J h (i, s) = (r, (i', s'))"
  shows "store_inv X l rid (i', s') \<and> (\<forall>k. k \<noteq> h \<longrightarrow> chunk_content X (i', s') k = chunk_content X (i, s) k)"
proof (cases "index_lookup i (hex_encode X h)")
  case None
  then show ?thesis using assms by (simp add: delete_chunk_physical_def)
next
  case (Some e)
  let ?k = "hex_encode X h" and ?f = "\<lambda>e::chunk_index_entry. e\<lparr>ie_status := IPurged\<rparr>"
  have inj: "inj (hex_encode X)" using assms(1) by (simp add: store_inv_def)
  have path: "ie_path e = bucket_path X l rid h" using store_inv_entry [OF assms(1)] Some by simp
  have others: "chunk_content X (i, s1) k = chunk_content X (i, s) k"
    if "\<forall>q. q \<noteq> ie_path e \<longrightarrow> lookup s1 q = lookup s q" "k \<noteq> h" for s1 k
    using that path store_inv_entry [OF assms(1), of k] bucket_path_inj [OF inj, of l rid k h]
    by (auto simp: chunk_content_def file_at_def split: option.splits)
  obtain r1 s1 where rm: "(if path_exists s (ie_path e) then fs_remove_file (ie_path e) s else (Inr (), s)) = (r1, s1)"
    by fastforce
  have s1: "\<forall>q. q \<noteq> ie_path e \<longrightarrow> lookup s1 q = lookup s q"
    using rm by (cases r1) (auto split: if_splits dest: fs_remove_file_Ok fs_remove_file_Err)
  have inv1: "store_inv X l rid (i, s1)" using assms(1) by (rule store_inv_index)
  show ?thesis
  proof (cases r1)
    case (Inl x)
    then have "i' = i" "s' = s1" using assms(2) Some rm
      by (auto simp: delete_chunk_physical_def split: if_splits)
    then show ?thesis using inv1 others [OF s1] by simp
  next
    case (Inr u)
    then obtain p where "persist J (upd_entry ?k ?f i, s1) = (p, (i', s'))"
      using assms(2) Some rm
      by (cases "persist J (upd_entry ?k ?f i, s1)")
         (auto simp: delete_chunk_physical_def update_status_def index_lookup_def upd_entry_def map_err_def
           split: if_splits sum.splits)
    then show ?thesis using entry_change_keeps_content [OF inv1, of ?f] others [OF s1] by simp
  qed
qed

subsection \<open>A fault-free write succeeds\<close>

text \<open>What the code expects of its surroundings: the serialiser does not fail, the index file
  lives in an existing directory, and the bucket path is free for a file.\<close>

definition index_ready :: "index_json \<Rightarrow> ist \<Rightarrow> bool" where
  "index_ready J st \<longleftrightarrow> (\<forall>d. ij_to_vec J d \<noteq> None) \<and>
     (\<forall>p. bi_persist_path (fst st) = Some p \<longrightarrow>
        is_dir (snd st) (butlast p) \<and> \<not> is_dir (snd st) p)"

definition path_free :: "fsys \<Rightarrow> path \<Rightarrow> bool" where
  "path_free s p \<longleftrightarrow> \<not> is_dir s p \<and> (\<forall>q. prefix q (butlast p) \<longrightarrow> \<not> is_file s q)"

lemma write_chunk_new_total:
  assumes inv: "store_inv X l rid (i, s)" and q: "quiet (i, s)" and new: "\<not> chunk_exists X i h"
    and ready: "index_ready J (i, s)" and free: "path_free s (bucket_path X l rid h)"
    and apart: "\<forall>p. bi_persist_path i = Some p \<longrightarrow> \<not> prefix p (bucket_path X l rid h)"
  shows "\<exists>loc st'. write_chunk X J l rid now h d (i, s) = (Inr loc, st') \<and> quiet st' \<and>
    \<not> cl_deduplicated loc"
proof -
  let ?p = "bucket_path X l rid h" and ?e = "new_entry X l rid now h d"
  let ?i = "i\<lparr>bi_chunk_index := AList.update (hex_encode X h) ?e (bi_chunk_index i)\<rparr>"
  obtain s1 where s1: "fs_create_dir_all (butlast ?p) s = (Inr (), s1)" "is_dir s1 (butlast ?p)"
    "faults s1 = []"
    using create_dir_all_total q free by (metis path_free_def quiet_def snd_conv)
  have "\<not> is_dir s1 ?p"
    using create_dir_all_lookup [OF s1(1), of ?p] free
    by (auto simp: path_free_def is_dir_def bucket_path_def butlast_append prefix_def)
  then have s2: "fs_write ?p d s1 = (Inr (), set_node ?p (File d) s1)"
    using fs_write_total s1 by blast
  have per: "\<exists>s3. persist J (?i, set_node ?p (File d) s1) = (Inr (), (?i, s3)) \<and> faults s3 = []"
  proof (cases "bi_persist_path i")
    case (Some ip)
    have dirs: "is_dir s (butlast ip)" "\<not> is_dir s ip"
      using ready Some by (auto simp: index_ready_def)
    have "is_dir (set_node ?p (File d) s1) (butlast ip)"
      using dirs(1) create_dir_all_keeps_file [OF s1(1), of "butlast ip" Dir] free
      by (auto simp: is_dir_def path_free_def)
    moreover have "\<not> is_dir (set_node ?p (File d) s1) ip"
      using dirs(2) create_dir_all_lookup [OF s1(1), of ip] apart Some prefix_order.trans [of ip "butlast ?p" ?p]
      by (auto simp: is_dir_def prefixeq_butlast)
    ultimately have w: "fs_write ip b (set_node ?p (File d) s1) =
        (Inr (), set_node ip (File b) (set_node ?p (File d) s1))" for b
      using fs_write_total [of "set_node ?p (File d) s1"] s1(3) by simp
    obtain b where "ij_to_vec J (to_persisted ?i) = Some b"
      using ready by (auto simp: index_ready_def)
    then show ?thesis using Some w s1(3) by (simp add: persist_def)
  qed (simp add: persist_def s1(3))
  then obtain s3 where s3: "persist J (?i, set_node ?p (File d) s1) = (Inr (), (?i, s3))" "faults s3 = []"
    by blast
  have "write_chunk X J l rid now h d (i, s) =
      (Inr \<lparr>cl_bucket = hex_encode X (take 1 h), cl_path = ?p, cl_deduplicated = False\<rparr>, (?i, s3))"
    using new s1 s2 s3 by (simp add: write_chunk_def chunk_exists_def register_def new_entry_def)
  then show ?thesis using s3(2) by (simp add: quiet_def)
qed

subsection \<open>Properties\<close>

text \<open>Store and fetch: without faults, writing a chunk that is not in the index succeeds,
  is not reported as a duplicate, and reading it back gives exactly the bytes written,
  provided the hash is the digest of the bytes.\<close>

theorem chunk_write_read_roundtrip:
  assumes "store_inv X l rid (i, s)" and "quiet (i, s)" and "\<not> chunk_exists X i h"
    and "index_ready J (i, s)" and "path_free s (bucket_path X l rid h)"
    and "\<forall>p. bi_persist_path i = Some p \<longrightarrow> \<not> prefix p (bucket_path X l rid h)"
    and "blake3_hash X d = h"
  shows "\<exists>loc st'. write_chunk X J l rid now h d (i, s) = (Inr loc, st') \<and>
    \<not> cl_deduplicated loc \<and> read_chunk X h st' = (Inr d, st')"
proof -
  obtain loc st' where w: "write_chunk X J l rid now h d (i, s) = (Inr loc, st')" "quiet st'"
    "\<not> cl_deduplicated loc"
    using write_chunk_new_total [OF assms(1-6)] by blast
  moreover have "read_chunk X h st' = (Inr d, st')"
    using cs.put_get [OF assms(1) w(1,2)] assms(3,7) by simp
  ultimately show ?thesis by blast
qed

definition sample_json :: index_json where
  "sample_json = \<lparr>ij_to_vec = (\<lambda>_. Some [123]), ij_from_slice = (\<lambda>_. None)\<rparr>"

abbreviation empty_fs :: fsys where
  "empty_fs \<equiv> \<lparr>nodes = [], faults = []\<rparr>"

abbreviation root_layout :: layout where
  "root_layout \<equiv> \<lparr>data_root = []\<rparr>"

lemma sample_store_inv: "store_inv sample_crates root_layout rid (in_memory, s)"
  by (simp add: store_inv_def in_memory_def index_lookup_def)

lemma bucket_path_nonempty [simp]: "bucket_path X l rid h \<noteq> []"
  by (simp add: bucket_path_def)

lemma sample_path_free: "path_free empty_fs (bucket_path X l rid h)"
  by (simp add: path_free_def is_dir_def is_file_def lookup_def)

theorem chunk_write_read_roundtrip_witness:
  "store_inv sample_crates root_layout [1] (in_memory, empty_fs) \<and>
   (\<exists>loc st'. write_chunk sample_crates sample_json root_layout [1] 0 [7, 9] [7, 9] (in_memory, empty_fs)
      = (Inr loc, st') \<and> \<not> cl_deduplicated loc \<and> read_chunk sample_crates [7, 9] st' = (Inr [7, 9], st'))"
proof
  show inv: "store_inv sample_crates root_layout [1] (in_memory, empty_fs)" by (rule sample_store_inv)
  show "\<exists>loc st'. write_chunk sample_crates sample_json root_layout [1] 0 [7, 9] [7, 9] (in_memory, empty_fs)
      = (Inr loc, st') \<and> \<not> cl_deduplicated loc \<and> read_chunk sample_crates [7, 9] st' = (Inr [7, 9], st')"
    by (rule chunk_write_read_roundtrip [OF inv])
       (simp_all add: quiet_def chunk_exists_def index_lookup_def in_memory_def index_ready_def
        sample_json_def sample_path_free)
qed

text \<open>(C5) Integrity of reads: whatever the state of the index and the disk, and whatever faults
  occur, a read that succeeds answers the bytes of the file the index names, and their digest
  is the requested hash; no read changes the index or a file.\<close>

theorem chunk_read_integrity:
  assumes "read_chunk X h (i, s) = (r, (i', s'))"
  shows "i' = i \<and> lookup s' = lookup s \<and>
    (\<forall>d. r = Inr d \<longrightarrow> blake3_hash X d = h \<and> chunk_content X (i, s) h = Some d)"
  using read_chunk_frame [OF assms] assms read_chunk_Ok by blast

text \<open>A purged chunk cannot be stored again.  Once \<open>delete_chunk_physical\<close> has removed a
  chunk, its entry stays in the index, so a later \<open>write_chunk\<close> of the same bytes takes the
  duplicate branch: it writes nothing, any success it reports is flagged as a duplicate, and no
  read of the chunk succeeds afterwards.\<close>

theorem purged_chunk_write_is_lost:
  assumes "store_inv X l rid (i, s)"
    and "delete_chunk_physical X J h (i, s) = (Inr (), (i1, s1))"
    and "write_chunk X J l rid now h d (i1, s1) = (r, st2)"
  shows "(\<forall>loc. r = Inr loc \<longrightarrow> cl_deduplicated loc) \<and> (\<forall>x t. read_chunk X h st2 \<noteq> (Inr x, t))"
proof -
  have inv: "store_inv X l rid (i1, s1)" and ex: "chunk_exists X i1 h"
    and lost: "chunk_content X (i1, s1) h = None"
    using delete_chunk_content [OF assms(1,2)] by auto
  have "cl_deduplicated loc" if "r = Inr loc" for loc
    using assms(3) ex that by (auto simp: write_chunk_def chunk_exists_def and_then_Ok_iff)
  moreover have "read_chunk X h st2 \<noteq> (Inr x, t)" for x t
    using cs.lost_content [OF inv _ lost assms(3)] ex by simp
  ultimately show ?thesis by blast
qed

definition sample_index :: badou_index where
  "sample_index = in_memory\<lparr>bi_chunk_index :=
     [(hex_encode sample_crates [7], new_entry sample_crates root_layout [1] 0 [7] [7])]\<rparr>"

definition sample_disk :: fsys where
  "sample_disk = \<lparr>nodes = [(bucket_path sample_crates root_layout [1] [7], File [7])], faults = []\<rparr>"

definition purged_index :: badou_index where
  "purged_index = upd_entry (hex_encode sample_crates [7]) (\<lambda>e. e\<lparr>ie_status := IPurged\<rparr>) sample_index"

lemma sample_index_inv: "store_inv sample_crates root_layout [1] (sample_index, s)"
  by (auto simp: store_inv_def sample_index_def in_memory_def index_lookup_def new_entry_def)

lemma sample_purge:
  "delete_chunk_physical sample_crates J [7] (sample_index, sample_disk) = (Inr (), (purged_index, empty_fs))"
  by (simp add: delete_chunk_physical_def sample_index_def index_lookup_def in_memory_def new_entry_def
      sample_disk_def path_exists_def lookup_def fs_remove_file_def next_fault_def del_node_def
      update_status_def persist_def purged_index_def upd_entry_def)

lemma sample_read:
  "read_chunk sample_crates [7] (sample_index, sample_disk) = (Inr [7], (sample_index, sample_disk))"
  by (simp add: read_chunk_def index_lookup_def sample_index_def in_memory_def new_entry_def sample_disk_def
      fs_read_def next_fault_def lookup_def)

lemma sample_read_corrupt:
  "read_chunk sample_crates [7] (sample_index, sample_disk\<lparr>nodes := [(bucket_path sample_crates root_layout [1] [7], File [8])]\<rparr>) =
     (r, st') \<Longrightarrow> \<forall>d. r \<noteq> Inr d"
  by (auto simp: read_chunk_def index_lookup_def sample_index_def in_memory_def new_entry_def sample_disk_def
      fs_read_def next_fault_def lookup_def)

text \<open>A stored chunk is read back with its bytes; when its file holds other bytes, the read fails.\<close>

theorem chunk_read_integrity_witness:
  "read_chunk sample_crates [7] (sample_index, sample_disk) = (Inr [7], (sample_index, sample_disk)) \<and>
   blake3_hash sample_crates [7] = [7] \<and> chunk_content sample_crates (sample_index, sample_disk) [7] = Some [7] \<and>
   (\<forall>d. fst (read_chunk sample_crates [7]
      (sample_index, sample_disk\<lparr>nodes := [(bucket_path sample_crates root_layout [1] [7], File [8])]\<rparr>)) \<noteq> Inr d)"
  using chunk_read_integrity [OF sample_read] sample_read sample_read_corrupt by (metis surjective_pairing)

theorem purged_chunk_write_is_lost_witness:
  "store_inv sample_crates root_layout [1] (sample_index, sample_disk) \<and>
   read_chunk sample_crates [7] (sample_index, sample_disk) = (Inr [7], (sample_index, sample_disk)) \<and>
   delete_chunk_physical sample_crates sample_json [7] (sample_index, sample_disk)
     = (Inr (), (purged_index, empty_fs)) \<and>
   (\<exists>loc st2. write_chunk sample_crates sample_json root_layout [1] 0 [7] [7] (purged_index, empty_fs)
       = (Inr loc, st2) \<and> (\<forall>x t. read_chunk sample_crates [7] st2 \<noteq> (Inr x, t)))"
proof (intro conjI)
  show "read_chunk sample_crates [7] (sample_index, sample_disk) = (Inr [7], (sample_index, sample_disk))"
    by (rule sample_read)
  obtain loc st2 where w: "write_chunk sample_crates sample_json root_layout [1] 0 [7] [7] (purged_index, empty_fs)
      = (Inr loc, st2)"
    by (simp add: write_chunk_def purged_index_def upd_entry_def sample_index_def index_lookup_def
        in_memory_def increment_ref_count_def persist_def Let_def)
  then show "\<exists>loc st2. write_chunk sample_crates sample_json root_layout [1] 0 [7] [7] (purged_index, empty_fs)
       = (Inr loc, st2) \<and> (\<forall>x t. read_chunk sample_crates [7] st2 \<noteq> (Inr x, t))"
    using purged_chunk_write_is_lost [OF sample_index_inv sample_purge w] by blast
qed (rule sample_index_inv, rule sample_purge)

end
