(* ===== verification/Badou_Ops.thy ===== *)
theory Badou_Ops
  imports Badou_Chunk_Facts
begin

text \<open>
  The operation layer of the storage bucket (\<open>badou-ops\<close>), without the commit: the
  version registry (\<open>version_ops.rs\<close>), the chunk operations (\<open>chunk_ops.rs\<close>) and the
  snapshot queries (\<open>snapshot_ops.rs\<close>).  The registry's runs are an inductive step
  relation; its invariant numbers the versions of a repository without gaps.
\<close>

subsection \<open>The version registry\<close>

datatype version_ops_error =
  VoNotFound uuid | VoInvalidTransition version_status version_status | VoParentNotFound uuid
| VoStateMachine string

record version_ops =
  vo_versions :: "(uuid, version) hmap"
  vo_repo_versions :: "(uuid, uuid list) hmap"
  vo_sequences :: "(uuid, u64) hmap"

definition version_ops_new :: version_ops where
  "version_ops_new = \<lparr>vo_versions = [], vo_repo_versions = [], vo_sequences = []\<rparr>"

definition seq_of :: "version_ops \<Rightarrow> uuid \<Rightarrow> u64" where
  "seq_of vo rid = (case map_of (vo_sequences vo) rid of Some n \<Rightarrow> n | None \<Rightarrow> 0)"

definition repo_ids :: "version_ops \<Rightarrow> uuid \<Rightarrow> uuid list" where
  "repo_ids vo rid = (case map_of (vo_repo_versions vo) rid of Some ids \<Rightarrow> ids | None \<Rightarrow> [])"

text \<open>\<open>vid\<close> and \<open>sid\<close> are the two fresh identifiers, \<open>now\<close> the clock.\<close>

definition create_version ::
  "uuid \<Rightarrow> uuid \<Rightarrow> timestamp \<Rightarrow> uuid \<Rightarrow> uuid option \<Rightarrow> version_ops \<Rightarrow>
   (version_ops_error + version) \<times> version_ops" where
  "create_version vid sid now rid parent vo =
     (case (case parent of
              Some p \<Rightarrow> if map_of (vo_versions vo) p = None then Some (VoParentNotFound p) else None
            | None \<Rightarrow> None) of
        Some e \<Rightarrow> (Inl e, vo)
      | None \<Rightarrow>
          let seq = seq_of vo rid + 1;
              v = version_new vid rid sid parent seq now
          in (Inr v,
              vo\<lparr>vo_versions := AList.update vid v (vo_versions vo),
                 vo_repo_versions := AList.update rid (repo_ids vo rid @ [vid]) (vo_repo_versions vo),
                 vo_sequences := AList.update rid seq (vo_sequences vo)\<rparr>))"

definition get_version :: "uuid \<Rightarrow> version_ops \<Rightarrow> version_ops_error + version" where
  "get_version vid vo = (case map_of (vo_versions vo) vid of Some v \<Rightarrow> Inr v | None \<Rightarrow> Inl (VoNotFound vid))"

definition list_versions :: "version_ops \<Rightarrow> uuid \<Rightarrow> version list" where
  "list_versions vo rid = List.map_filter (map_of (vo_versions vo)) (repo_ids vo rid)"

definition vo_transition ::
  "uuid \<Rightarrow> version_status \<Rightarrow> version_ops \<Rightarrow> (version_ops_error + version) \<times> version_ops" where
  "vo_transition vid target vo = (case map_of (vo_versions vo) vid of
     None \<Rightarrow> (Inl (VoNotFound vid), vo)
   | Some v \<Rightarrow>
       if \<not> can_transition_to (v_status v) target then (Inl (VoInvalidTransition (v_status v) target), vo)
       else (Inr (v\<lparr>v_status := target\<rparr>),
             vo\<lparr>vo_versions := AList.update vid (v\<lparr>v_status := target\<rparr>) (vo_versions vo)\<rparr>))"

definition start_writing :: "uuid \<Rightarrow> version_ops \<Rightarrow> (version_ops_error + version) \<times> version_ops" where
  "start_writing vid vo = vo_transition vid VWriting vo"

definition version_count :: "version_ops \<Rightarrow> uuid \<Rightarrow> nat" where
  "version_count vo rid = length (repo_ids vo rid)"

subsection \<open>Chunk operations\<close>

datatype chunk_ops_error = CoStore chunk_store_error | CoReferenced string | CoNotFound string

definition put_chunk ::
  "crates \<Rightarrow> index_json \<Rightarrow> layout \<Rightarrow> uuid \<Rightarrow> timestamp \<Rightarrow> chunk_hash \<Rightarrow> bytes \<Rightarrow> ist \<Rightarrow>
   (chunk_ops_error + chunk_location) \<times> ist" where
  "put_chunk X J l rid now h data st = map_err CoStore (write_chunk X J l rid now h data st)"

definition get_chunk :: "crates \<Rightarrow> chunk_hash \<Rightarrow> ist \<Rightarrow> (chunk_ops_error + bytes) \<times> ist" where
  "get_chunk X h st =
     map_err (\<lambda>e. case e of CsNotFound k \<Rightarrow> CoNotFound k | other \<Rightarrow> CoStore other) (read_chunk X h st)"

definition ops_chunk_exists :: "crates \<Rightarrow> badou_index \<Rightarrow> chunk_hash \<Rightarrow> bool \<times> u32" where
  "ops_chunk_exists X i h = (let count = ref_count X i h in (count > 0, count))"

definition batch_put_chunk ::
  "crates \<Rightarrow> index_json \<Rightarrow> layout \<Rightarrow> uuid \<Rightarrow> timestamp \<Rightarrow> (chunk_hash \<times> bytes) list \<Rightarrow> ist \<Rightarrow>
   (chunk_ops_error + chunk_location list) \<times> ist" where
  "batch_put_chunk X J l rid now chunks st = put_all (put_chunk X J l rid now) chunks st"

definition ops_delete_chunk ::
  "crates \<Rightarrow> index_json \<Rightarrow> chunk_hash \<Rightarrow> ist \<Rightarrow> (chunk_ops_error + unit) \<times> ist" where
  "ops_delete_chunk X J h st =
     (if snd (ops_chunk_exists X (fst st) h) > 0 then (Inl (CoReferenced (hex_encode X h)), st)
      else map_err CoStore (delete_chunk_physical X J h st))"

subsection \<open>Snapshot queries\<close>

datatype snapshot_ops_error = SoStore snapshot_store_error | SoManifest manifest_store_error | SoNotFound uuid

definition get_snapshot ::
  "crates \<Rightarrow> snapshot_json \<Rightarrow> layout \<Rightarrow> uuid \<Rightarrow> uuid \<Rightarrow> fsys \<Rightarrow> (snapshot_ops_error + snapshot) \<times> fsys" where
  "get_snapshot X N l rid sid s = map_err SoStore (read_snapshot X N l rid sid s)"

definition get_manifest ::
  "crates \<Rightarrow> manifest_json \<Rightarrow> layout \<Rightarrow> uuid \<Rightarrow> uuid \<Rightarrow> fsys \<Rightarrow> (snapshot_ops_error + manifest) \<times> fsys" where
  "get_manifest X M l rid mid s = map_err SoManifest (read_manifest X M l rid mid s)"

definition ops_is_sealed ::
  "crates \<Rightarrow> snapshot_json \<Rightarrow> layout \<Rightarrow> uuid \<Rightarrow> uuid \<Rightarrow> fsys \<Rightarrow> (snapshot_ops_error + bool) \<times> fsys" where
  "ops_is_sealed X N l rid sid s = map_err SoStore (verify_sealed_immutability X N l rid sid s)"

definition ops_is_verified ::
  "crates \<Rightarrow> snapshot_json \<Rightarrow> layout \<Rightarrow> uuid \<Rightarrow> uuid \<Rightarrow> fsys \<Rightarrow> (snapshot_ops_error + bool) \<times> fsys" where
  "ops_is_verified X N l rid sid s = map_err SoStore (check_verify_info X N l rid sid s)"

subsection \<open>Runs of the registry\<close>

text \<open>A run creates versions under fresh identifiers and changes their states; the trace
  records, per version, the states it went through.\<close>

inductive registry_run :: "version_ops \<Rightarrow> (uuid \<Rightarrow> version_status list) \<Rightarrow> bool" where
  start: "registry_run version_ops_new (\<lambda>_. [])"
| create: "registry_run vo tr \<Longrightarrow> map_of (vo_versions vo) vid = None \<Longrightarrow>
    create_version vid sid now rid parent vo = (Inr v, vo') \<Longrightarrow>
    registry_run vo' (tr(vid := [VCreated]))"
| change: "registry_run vo tr \<Longrightarrow> vo_transition vid target vo = (Inr v, vo') \<Longrightarrow>
    registry_run vo' (tr(vid := tr vid @ [target]))"
| refused: "registry_run vo tr \<Longrightarrow> vo_transition vid target vo = (Inl e, vo') \<Longrightarrow> registry_run vo' tr"

definition registry_inv :: "version_ops \<Rightarrow> bool" where
  "registry_inv vo \<longleftrightarrow> (\<forall>rid. distinct (repo_ids vo rid) \<and> seq_of vo rid = of_nat (length (repo_ids vo rid)) \<and>
     (\<forall>k < length (repo_ids vo rid). \<exists>v. map_of (vo_versions vo) (repo_ids vo rid ! k) = Some v \<and>
        v_repo_id v = rid \<and> v_sequence v = of_nat (Suc k)))"

lemma create_version_Ok:
  assumes "create_version vid sid now rid parent vo = (Inr v, vo')"
  shows "v = version_new vid rid sid parent (seq_of vo rid + 1) now"
    and "map_of (vo_versions vo') = (map_of (vo_versions vo))(vid \<mapsto> v)"
    and "repo_ids vo' r = (if r = rid then repo_ids vo rid @ [vid] else repo_ids vo r)"
    and "seq_of vo' r = (if r = rid then seq_of vo rid + 1 else seq_of vo r)"
  using assms by (auto simp: create_version_def Let_def map_of_update repo_ids_def seq_of_def
      split: option.splits if_splits)

lemma create_version_Err: "create_version vid sid now rid parent vo = (Inl e, vo') \<Longrightarrow> vo' = vo"
  by (auto simp: create_version_def Let_def split: option.splits)

lemma vo_transition_Ok:
  assumes "vo_transition vid target vo = (Inr v, vo')"
  shows "\<exists>w. map_of (vo_versions vo) vid = Some w \<and> v = w\<lparr>v_status := target\<rparr> \<and>
      can_transition_to (v_status w) target \<and>
      map_of (vo_versions vo') = (map_of (vo_versions vo))(vid \<mapsto> v)"
    and "repo_ids vo' = repo_ids vo" and "seq_of vo' = seq_of vo"
  using assms
  by (auto simp: vo_transition_def map_of_update repo_ids_def seq_of_def fun_eq_iff split: option.splits if_splits)

lemma vo_transition_Err: "vo_transition vid target vo = (Inl e, vo') \<Longrightarrow> vo' = vo"
  by (auto simp: vo_transition_def split: option.splits if_splits)

lemma registry_inv_create:
  assumes inv: "registry_inv vo" and fresh: "map_of (vo_versions vo) vid = None"
    and c: "create_version vid sid now rid parent vo = (Inr v, vo')"
  shows "registry_inv vo'"
  unfolding registry_inv_def
proof (intro allI conjI impI)
  fix r
  have i: "distinct (repo_ids vo r)" "seq_of vo r = of_nat (length (repo_ids vo r))"
    "\<And>k. k < length (repo_ids vo r) \<Longrightarrow> \<exists>v. map_of (vo_versions vo) (repo_ids vo r ! k) = Some v \<and>
        v_repo_id v = r \<and> v_sequence v = of_nat (Suc k)"
    using inv by (auto simp: registry_inv_def)
  have new: "vid \<notin> set (repo_ids vo r)"
    using i(3) fresh by (metis in_set_conv_nth option.distinct(1))
  show "distinct (repo_ids vo' r)" using i(1) new create_version_Ok(3) [OF c] by auto
  show "seq_of vo' r = of_nat (length (repo_ids vo' r))"
    using i(2) create_version_Ok(3,4) [OF c] by auto
  fix k assume k: "k < length (repo_ids vo' r)"
  show "\<exists>v. map_of (vo_versions vo') (repo_ids vo' r ! k) = Some v \<and> v_repo_id v = r \<and> v_sequence v = of_nat (Suc k)"
  proof (cases "k < length (repo_ids vo r)")
    case True
    then have "repo_ids vo' r ! k = repo_ids vo r ! k" "repo_ids vo r ! k \<noteq> vid"
      using create_version_Ok(3) [OF c, of r] new by (auto simp: nth_append)
    with i(3) [OF True] show ?thesis using create_version_Ok(2) [OF c] by auto
  next
    case False
    with k have "r = rid" "k = length (repo_ids vo r)"
      using create_version_Ok(3) [OF c, of r] by (auto split: if_splits)
    then show ?thesis
      using create_version_Ok [OF c] i(2) by (auto simp: version_new_def nth_append)
  qed
qed

lemma registry_inv_change:
  assumes "registry_inv vo" and "vo_transition vid target vo = (Inr v, vo')"
  shows "registry_inv vo'"
proof -
  obtain w where w: "map_of (vo_versions vo) vid = Some w" "v = w\<lparr>v_status := target\<rparr>"
    "map_of (vo_versions vo') = (map_of (vo_versions vo))(vid \<mapsto> v)"
    using vo_transition_Ok(1) [OF assms(2)] by blast
  show ?thesis
    using assms(1) w unfolding registry_inv_def vo_transition_Ok(2,3) [OF assms(2)]
    by (auto; metis fun_upd_apply option.inject version.simps(3,6) version.update_convs(6) version.surjective)
qed

lemma registry_run_inv: "registry_run vo tr \<Longrightarrow> registry_inv vo"
proof (induction rule: registry_run.induct)
  case start
  then show ?case by (simp add: registry_inv_def repo_ids_def seq_of_def version_ops_new_def)
next
  case (create vo tr vid sid now rid parent v vo')
  then show ?case using registry_inv_create by blast
next
  case (change vo tr vid target v vo')
  then show ?case using registry_inv_change by blast
next
  case (refused vo tr vid target e vo')
  then show ?case using vo_transition_Err by blast
qed

lemma list_versions_nth:
  assumes "registry_inv vo"
  shows "length (list_versions vo rid) = version_count vo rid"
    and "k < version_count vo rid \<Longrightarrow>
      map_of (vo_versions vo) (repo_ids vo rid ! k) = Some (list_versions vo rid ! k)"
proof -
  let ?ids = "repo_ids vo rid"
  have some: "\<exists>v. map_of (vo_versions vo) x = Some v" if "x \<in> set ?ids" for x
    using that assms by (auto simp: registry_inv_def in_set_conv_nth)
  then have "list_versions vo rid = map (\<lambda>x. the (map_of (vo_versions vo) x)) ?ids"
    unfolding list_versions_def map_filter_def by (subst filter_True) force+
  then show "length (list_versions vo rid) = version_count vo rid"
    "k < version_count vo rid \<Longrightarrow>
      map_of (vo_versions vo) (repo_ids vo rid ! k) = Some (list_versions vo rid ! k)"
    using some by (auto simp: version_count_def)
qed

subsection \<open>Properties\<close>

text \<open>The versions of a repository are numbered \<open>1, 2, \<dots>, n\<close> in the order they are
  listed, however creations and state changes interleave between repositories
  (64-bit numbers), and a listing shows exactly the versions of its repository.\<close>

theorem registry_versions_numbered:
  assumes "registry_run vo tr"
  shows "map v_sequence (list_versions vo rid) = map of_nat [1..<Suc (version_count vo rid)] \<and>
     (\<forall>v \<in> set (list_versions vo rid). v_repo_id v = rid)"
proof -
  note inv = registry_run_inv [OF assms]
  have k: "v_sequence (list_versions vo rid ! k) = of_nat (Suc k) \<and> v_repo_id (list_versions vo rid ! k) = rid"
    if "k < version_count vo rid" for k
    using list_versions_nth(2) [OF inv that] inv [unfolded registry_inv_def, rule_format, of rid] that
    by (fastforce simp: version_count_def)
  then have "map v_sequence (list_versions vo rid) = map of_nat [1..<Suc (version_count vo rid)]"
    using list_versions_nth(1) [OF inv] by (intro nth_equalityI) (auto simp del: upt_Suc)
  then show ?thesis using k list_versions_nth(1) [OF inv] by (auto simp: in_set_conv_nth)
qed

lemma registry_histories:
  "registry_run vo tr \<Longrightarrow> map_of (vo_versions vo) vid = Some v \<Longrightarrow>
   tr vid \<noteq> [] \<and> hd (tr vid) = VCreated \<and> last (tr vid) = v_status v \<and> history can_transition_to (tr vid)"
proof (induction arbitrary: v rule: registry_run.induct)
  case start
  then show ?case by (simp add: version_ops_new_def)
next
  case (create vo tr vid' sid now rid parent w vo')
  then show ?case
    using create_version_Ok(1,2) [OF create.hyps(3)] by (auto simp: version_new_def split: if_splits)
next
  case (change vo tr vid' target w vo')
  then show ?case
    using vo_transition_Ok(1) [OF change.hyps(2)]
    by (auto simp: history_append split: if_splits)
next
  case (refused vo tr vid' target e vo')
  then show ?case using vo_transition_Err by blast
qed

text \<open>Every version's states form a permitted history from \<open>Created\<close> to its current
  state; a sealed version was written, verified and committed right before.\<close>

theorem registry_sealed_was_verified:
  assumes "registry_run vo tr" and "map_of (vo_versions vo) vid = Some v" and "v_status v = VSealed"
  shows "\<exists>ys. tr vid = ys @ [VWriting, VVerifying, VCommitting, VSealed] \<and> hd (tr vid) = VCreated"
proof -
  have h: "tr vid \<noteq> []" "hd (tr vid) = VCreated" "last (tr vid) = VSealed" "history can_transition_to (tr vid)"
    using registry_histories [OF assms(1,2)] assms(3) by auto
  then have "tl (tr vid) \<noteq> []" by (cases "tr vid") auto
  then have t: "tr vid = VCreated # butlast (tl (tr vid)) @ [VSealed]"
    using h by (metis append_butlast_last_id last_tl list.collapse)
  with h engine.sealed_history [of VCreated "butlast (tl (tr vid))"] show ?thesis by auto
qed

text \<open>A referenced chunk cannot be deleted through \<open>ChunkOps\<close>: the call is refused and
  changes nothing; an accepted deletion leaves the bytes of every other chunk alone.\<close>

theorem delete_chunk_guarded:
  assumes "store_inv X l rid st"
    and "ops_delete_chunk X J h st = (r, st')"
  shows "(ref_count X (fst st) h > 0 \<longrightarrow> r = Inl (CoReferenced (hex_encode X h)) \<and> st' = st) \<and>
     (\<forall>k. k \<noteq> h \<longrightarrow> chunk_content X st' k = chunk_content X st k)"
  using assms delete_chunk_frame [of X l rid "fst st" "snd st"]
  by (cases st; cases st') (auto simp: ops_delete_chunk_def ops_chunk_exists_def Let_def
      map_err_def split: if_splits prod.splits sum.splits)

subsection \<open>Witnesses\<close>

definition sample_registry :: "version_status \<Rightarrow> version_ops" where
  "sample_registry st =
     \<lparr>vo_versions = [([1], (version_new [1] [9] [2] None 1 0)\<lparr>v_status := st\<rparr>)],
      vo_repo_versions = [([9], [[1]])], vo_sequences = [([9], 1)]\<rparr>"

lemma sample_registry_created: "registry_run (sample_registry VCreated) ((\<lambda>_. [])([1] := [VCreated]))"
  by (rule registry_run.create [OF registry_run.start, of "[1]" "[2]" 0 "[9]" None "version_new [1] [9] [2] None 1 0"])
     (simp_all add: version_ops_new_def create_version_def sample_registry_def seq_of_def repo_ids_def
       version_new_def Let_def)

lemma sample_registry_step:
  assumes "registry_run (sample_registry a) tr" and "can_transition_to a b"
  shows "registry_run (sample_registry b) (tr([1] := tr [1] @ [b]))"
proof (rule registry_run.change [OF assms(1)])
  show "vo_transition [1] b (sample_registry a) =
      (Inr ((version_new [1] [9] [2] None 1 0)\<lparr>v_status := b\<rparr>), sample_registry b)"
    using assms(2) by (simp add: vo_transition_def sample_registry_def)
qed

lemma sample_registry_sealed:
  "\<exists>tr. registry_run (sample_registry VSealed) tr \<and> tr [1] = [VCreated, VWriting, VVerifying, VCommitting, VSealed]"
proof -
  note r1 = sample_registry_step [OF sample_registry_created, of VWriting]
  then obtain tr1 where 1: "registry_run (sample_registry VWriting) tr1" "tr1 [1] = [VCreated, VWriting]"
    by (simp add: can_transition_to_def)
  then obtain tr2 where 2: "registry_run (sample_registry VVerifying) tr2" "tr2 [1] = [VCreated, VWriting, VVerifying]"
    using sample_registry_step [OF 1(1), of VVerifying] by (simp add: can_transition_to_def)
  then obtain tr3 where 3: "registry_run (sample_registry VCommitting) tr3"
      "tr3 [1] = [VCreated, VWriting, VVerifying, VCommitting]"
    using sample_registry_step [OF 2(1), of VCommitting] by (simp add: can_transition_to_def)
  then show ?thesis
    using sample_registry_step [OF 3(1), of VSealed]
    by (intro exI [of _ "tr3([1] := tr3 [1] @ [VSealed])"]) (simp add: can_transition_to_def)
qed

theorem registry_versions_numbered_witness:
  "map v_sequence (list_versions (sample_registry VCreated) [9]) = [1] \<and>
   version_count (sample_registry VCreated) [9] = 1"
  using registry_versions_numbered [OF sample_registry_created, of "[9]"]
  by (simp add: version_count_def repo_ids_def sample_registry_def)

theorem registry_sealed_was_verified_witness:
  "\<exists>tr ys. registry_run (sample_registry VSealed) tr \<and> tr [1] = ys @ [VWriting, VVerifying, VCommitting, VSealed]"
proof -
  obtain tr where r: "registry_run (sample_registry VSealed) tr" using sample_registry_sealed by blast
  show ?thesis
    using registry_sealed_was_verified [OF r, of "[1]" "(version_new [1] [9] [2] None 1 0)\<lparr>v_status := VSealed\<rparr>"] r
    by (auto simp: sample_registry_def)
qed

theorem delete_chunk_guarded_witness:
  "ops_delete_chunk sample_crates sample_json [7] (sample_index, sample_disk) =
     (Inl (CoReferenced (hex_encode sample_crates [7])), (sample_index, sample_disk)) \<and>
   ref_count sample_crates sample_index [7] > 0"
proof -
  have c: "ref_count sample_crates sample_index [7] > 0"
    by (simp add: ref_count_def sample_index_def index_lookup_def in_memory_def new_entry_def)
  obtain r st' where d: "ops_delete_chunk sample_crates sample_json [7] (sample_index, sample_disk) = (r, st')"
    by (rule prod.exhaust)
  from delete_chunk_guarded [OF sample_index_inv d] c d show ?thesis by simp
qed

end
