(* ===== verification/Badou_GC.thy ===== *)
theory Badou_GC
  imports Badou_Ops
begin

text \<open>
  Deletion and garbage collection (\<open>badou-gc\<close>): dropping the references of a version
  (\<open>delete.rs\<close>), the collector (\<open>executor.rs\<close>), the retention guard
  (\<open>immutable_guard.rs\<close>) and the trigger state (\<open>scheduler.rs\<close>).

  The deleter and the collector work on the index and the disk; the registry is only
  read.  Error texts in a report carry the error value.
\<close>

subsection \<open>Deleting a version\<close>

datatype delete_error =
  DeNotFound uuid | DeImmutable uuid | DeIndex index_error | DeVersionOps version_ops_error
| DeInvalidTransition version_status

record delete_result =
  dr_version_id :: uuid
  dr_removed_chunks :: "string list"
  dr_gc_candidates :: "string list"
  dr_kept_shared :: "string list"

text \<open>The loop of \<open>delete_version\<close>: the hashes dropped to zero and the ones kept.\<close>

fun drop_references ::
  "index_json \<Rightarrow> string list \<Rightarrow> ist \<Rightarrow> (index_error + string list \<times> string list) \<times> ist" where
  "drop_references J [] st = (Inr ([], []), st)"
| "drop_references J (h # hs) st =
     and_then (decrement_ref_count J h st)
     (\<lambda>count st.
        if count = 0 then
          and_then (update_status J h IGcPending st)
          (\<lambda>_ st. and_then (drop_references J hs st) (\<lambda>(cand, kept) st. (Inr (h # cand, kept), st)))
        else and_then (drop_references J hs st) (\<lambda>(cand, kept) st. (Inr (cand, h # kept), st)))"

definition delete_version ::
  "index_json \<Rightarrow> timestamp \<Rightarrow> version_ops \<Rightarrow> uuid \<Rightarrow> ist \<Rightarrow> (delete_error + delete_result) \<times> ist" where
  "delete_version J now vo vid st = (case get_version vid vo of
     Inl e \<Rightarrow> (Inl (DeVersionOps e), st)
   | Inr v \<Rightarrow>
       if (case v_immutable_until v of Some t \<Rightarrow> t > now | None \<Rightarrow> False) then (Inl (DeImmutable vid), st)
       else let chunk_hashes = get_version_chunks (fst st) vid in
         and_then (map_err DeIndex (drop_references J chunk_hashes st))
         (\<lambda>(cand, kept) st. and_then (map_err DeIndex (register_version_chunks J vid [] st))
         (\<lambda>_ st. (Inr \<lparr>dr_version_id = vid, dr_removed_chunks = chunk_hashes, dr_gc_candidates = cand,
                     dr_kept_shared = kept\<rparr>, st))))"

fun decrement_all :: "index_json \<Rightarrow> string list \<Rightarrow> ist \<Rightarrow> (index_error + unit) \<times> ist" where
  "decrement_all J [] st = (Inr (), st)"
| "decrement_all J (h # hs) st = and_then (decrement_ref_count J h st) (\<lambda>_ st. decrement_all J hs st)"

definition remove_references :: "index_json \<Rightarrow> uuid \<Rightarrow> ist \<Rightarrow> (delete_error + string list) \<times> ist" where
  "remove_references J vid st =
     (let chunk_hashes = get_version_chunks (fst st) vid in
      and_then (map_err DeIndex (decrement_all J chunk_hashes st))
      (\<lambda>_ st. and_then (map_err DeIndex (register_version_chunks J vid [] st))
      (\<lambda>_ st. (Inr chunk_hashes, st))))"

subsection \<open>The collector\<close>

datatype gc_error = GcIndex index_error | GcChunkStore chunk_store_error

record gc_report =
  gr_started_at :: timestamp
  gr_finished_at :: timestamp
  gr_purged_chunks :: "string list"
  gr_freed_bytes :: u64
  gr_skipped_chunks :: "string list"
  gr_errors :: "(string \<times> chunk_store_error) list"

definition gc_report_new :: "timestamp \<Rightarrow> gc_report" where
  "gc_report_new now = \<lparr>gr_started_at = now, gr_finished_at = now, gr_purged_chunks = [],
     gr_freed_bytes = 0, gr_skipped_chunks = [], gr_errors = []\<rparr>"

definition purged_count :: "gc_report \<Rightarrow> nat" where
  "purged_count rep = length (gr_purged_chunks rep)"

definition parse_hash :: "crates \<Rightarrow> string \<Rightarrow> chunk_hash" where
  "parse_hash X s =
     (let b = (case hex_decode X s of Some b \<Rightarrow> b | None \<Rightarrow> [])
      in if length b \<ge> 32 then take 32 b else replicate 32 0)"

fun gc_loop ::
  "crates \<Rightarrow> index_json \<Rightarrow> (string \<times> chunk_index_entry) list \<Rightarrow> gc_report \<Rightarrow> ist \<Rightarrow> (gc_error + gc_report) \<times> ist" where
  "gc_loop X J [] rep st = (Inr rep, st)"
| "gc_loop X J ((h, e) # cs) rep st =
     (if ie_status e \<noteq> IGcPending then
        gc_loop X J cs (rep\<lparr>gr_skipped_chunks := gr_skipped_chunks rep @ [h]\<rparr>) st
      else case delete_chunk_physical X J (parse_hash X h) st of
        (Inr _, st) \<Rightarrow>
          gc_loop X J cs (rep\<lparr>gr_purged_chunks := gr_purged_chunks rep @ [h],
            gr_freed_bytes := gr_freed_bytes rep + ie_stored_size e\<rparr>) st
      | (Inl (CsNotFound _), st) \<Rightarrow>
          and_then (map_err GcIndex (update_status J h IPurged st))
          (\<lambda>_ st. gc_loop X J cs (rep\<lparr>gr_skipped_chunks := gr_skipped_chunks rep @ [h]\<rparr>) st)
      | (Inl x, st) \<Rightarrow> gc_loop X J cs (rep\<lparr>gr_errors := gr_errors rep @ [(h, x)]\<rparr>) st)"

definition execute_gc ::
  "crates \<Rightarrow> index_json \<Rightarrow> timestamp \<Rightarrow> timestamp \<Rightarrow> ist \<Rightarrow> (gc_error + gc_report) \<times> ist" where
  "execute_gc X J started finished st =
     and_then (gc_loop X J (gc_candidates (fst st)) (gc_report_new started) st)
     (\<lambda>rep st. (Inr (rep\<lparr>gr_finished_at := finished\<rparr>), st))"

definition is_idempotent :: "badou_index \<Rightarrow> bool" where
  "is_idempotent i \<longleftrightarrow> set (map fst (gc_candidates i)) = set (map fst (gc_candidates i))"

subsection \<open>The retention guard of the collector\<close>

datatype gc_decision = GcAllow | GcBlockRetention timestamp | GcBlockReferences u32 | GcDefer timestamp

definition gc_check_version :: "timestamp \<Rightarrow> version_ops \<Rightarrow> uuid \<Rightarrow> version_ops_error + gc_decision" where
  "gc_check_version now vo vid = (case get_version vid vo of
     Inl e \<Rightarrow> Inl e
   | Inr v \<Rightarrow>
       (case v_immutable_until v of
          Some t \<Rightarrow> if t > now then Inr (GcBlockRetention t) else Inr GcAllow
        | None \<Rightarrow> Inr GcAllow))"

definition check_chunk_deletion ::
  "timestamp \<Rightarrow> version_ops \<Rightarrow> uuid \<Rightarrow> u32 \<Rightarrow> version_ops_error + gc_decision" where
  "check_chunk_deletion now vo vid n =
     (if n > 0 then Inr (GcBlockReferences n) else gc_check_version now vo vid)"

fun filter_gc_candidates ::
  "timestamp \<Rightarrow> version_ops \<Rightarrow> (string \<times> u32 \<times> uuid option) list \<Rightarrow> version_ops_error + string list" where
  "filter_gc_candidates now vo [] = Inr []"
| "filter_gc_candidates now vo ((h, n, v) # cs) =
     (if n > 0 then filter_gc_candidates now vo cs
      else case v of
        Some vid \<Rightarrow>
          (case gc_check_version now vo vid of
             Inl e \<Rightarrow> Inl e
           | Inr GcAllow \<Rightarrow>
               (case filter_gc_candidates now vo cs of Inl e \<Rightarrow> Inl e | Inr hs \<Rightarrow> Inr (h # hs))
           | Inr _ \<Rightarrow> filter_gc_candidates now vo cs)
      | None \<Rightarrow> (case filter_gc_candidates now vo cs of Inl e \<Rightarrow> Inl e | Inr hs \<Rightarrow> Inr (h # hs)))"

definition priority_order :: "string list" where
  "priority_order = [''immutable_retention'', ''retention_policy'', ''gc'', ''admin_delete'']"

subsection \<open>The trigger state\<close>

datatype gc_trigger_type = Manual | Scheduled | CapacityThreshold

datatype gc_scheduler_error = AlreadyRunning | NotRunning | ExecutorError string

record gc_schedule_config =
  gcc_interval_secs :: u64
  gcc_capacity_threshold_percent :: u8
  gcc_enabled :: bool

definition gc_schedule_config_default :: gc_schedule_config where
  "gc_schedule_config_default = \<lparr>gcc_interval_secs = 3600, gcc_capacity_threshold_percent = 80, gcc_enabled = True\<rparr>"

record gc_trigger_record =
  gt_triggered_at :: timestamp
  gt_trigger_type :: gc_trigger_type
  gt_purged_count :: nat
  gt_freed_bytes :: u64

record gc_scheduler =
  gs_config :: gc_schedule_config
  gs_last_run :: "timestamp option"
  gs_history :: "gc_trigger_record list"
  gs_running :: bool

definition gc_scheduler_new :: "gc_schedule_config \<Rightarrow> gc_scheduler" where
  "gc_scheduler_new c = \<lparr>gs_config = c, gs_last_run = None, gs_history = [], gs_running = False\<rparr>"

text \<open>The interval is compared as an \<open>i64\<close>.\<close>

definition should_trigger_scheduled :: "timestamp \<Rightarrow> gc_scheduler \<Rightarrow> bool" where
  "should_trigger_scheduled now g \<longleftrightarrow> gcc_enabled (gs_config g) \<and>
     (case gs_last_run g of
        None \<Rightarrow> True
      | Some t \<Rightarrow> num_seconds (now - t) \<ge> sint (gcc_interval_secs (gs_config g)))"

definition should_trigger_capacity :: "u8 \<Rightarrow> gc_scheduler \<Rightarrow> bool" where
  "should_trigger_capacity used g \<longleftrightarrow>
     gcc_enabled (gs_config g) \<and> used \<ge> gcc_capacity_threshold_percent (gs_config g)"

definition record_trigger :: "timestamp \<Rightarrow> gc_trigger_type \<Rightarrow> nat \<Rightarrow> u64 \<Rightarrow> gc_scheduler \<Rightarrow> gc_scheduler" where
  "record_trigger now ty n freed g = g\<lparr>gs_last_run := Some now,
     gs_history := gs_history g @ [\<lparr>gt_triggered_at = now, gt_trigger_type = ty, gt_purged_count = n, gt_freed_bytes = freed\<rparr>]\<rparr>"

definition manual_trigger :: "gc_scheduler \<Rightarrow> (gc_scheduler_error + gc_trigger_type) \<times> gc_scheduler" where
  "manual_trigger g = (if gs_running g then (Inl AlreadyRunning, g) else (Inr Manual, g\<lparr>gs_running := True\<rparr>))"

definition finish_trigger :: "gc_scheduler \<Rightarrow> gc_scheduler" where
  "finish_trigger g = g\<lparr>gs_running := False\<rparr>"

definition update_config :: "gc_schedule_config \<Rightarrow> gc_scheduler \<Rightarrow> gc_scheduler" where
  "update_config c g = g\<lparr>gs_config := c\<rparr>"

subsection \<open>References and counters\<close>

definition refs :: "badou_index \<Rightarrow> string \<Rightarrow> nat" where
  "refs i h = (\<Sum>(v, hs) \<leftarrow> bi_version_chunks i. count_list hs h)"

text \<open>Every counter covers the references the versions hold.\<close>

definition covered :: "badou_index \<Rightarrow> bool" where
  "covered i \<longleftrightarrow> distinct (keys (bi_version_chunks i)) \<and> distinct (keys (bi_chunk_index i)) \<and>
     (\<forall>h e. index_lookup i h = Some e \<longrightarrow> refs i h \<le> unat (ie_ref_count e))"

lemma sum_list_update:
  fixes f :: "'v \<Rightarrow> nat"
  assumes "distinct (keys m)"
  shows "(\<Sum>(k, v) \<leftarrow> AList.update x w m. f v) + (case map_of m x of Some v \<Rightarrow> f v | None \<Rightarrow> 0) =
     (\<Sum>(k, v) \<leftarrow> m. f v) + f w"
  using assms
proof (induction m)
  case (Cons a m)
  obtain k v where "a = (k, v)" by fastforce
  with Cons show ?case by (cases "k = x") (auto simp: map_of_eq_None_iff split: option.splits)
qed simp

lemma refs_drop:
  assumes "distinct (keys (bi_version_chunks i))"
  shows "refs (i\<lparr>bi_version_chunks := AList.update vid [] (bi_version_chunks i)\<rparr>) h
     + count_list (get_version_chunks i vid) h = refs i h"
  using sum_list_update [OF assms, of "\<lambda>hs. count_list hs h" vid "[]"]
  by (auto simp: refs_def get_version_chunks_def split: option.splits)

lemma refs_upd_entry [simp]: "refs (upd_entry h f i) k = refs i k"
  by (simp add: refs_def)

lemma refs_mem:
  assumes "h \<in> set (get_version_chunks i w)"
  shows "refs i h > 0"
proof -
  obtain hs where "(w, hs) \<in> set (bi_version_chunks i)" "h \<in> set hs"
    using assms map_of_SomeD [of "bi_version_chunks i" w]
    by (cases "map_of (bi_version_chunks i) w") (auto simp: get_version_chunks_def)
  then have "count_list hs h \<in> set (map (\<lambda>(v, hs). count_list hs h) (bi_version_chunks i))"
    and pos: "count_list hs h \<noteq> 0"
    by (force, simp add: count_list_0_iff)
  from member_le_sum_list [OF this(1)] pos show ?thesis by (simp add: refs_def)
qed

lemma candidate_entry:
  "distinct (keys (bi_chunk_index i)) \<Longrightarrow> (h, e) \<in> set (gc_candidates i) \<longleftrightarrow>
     index_lookup i h = Some e \<and> ie_ref_count e = 0 \<and> ie_status e = IGcPending"
  by (auto simp: gc_candidates_def index_lookup_def dest: map_of_SomeD)

lemma covered_not_candidate:
  assumes "covered i" and "h \<in> set (get_version_chunks i w)"
  shows "h \<notin> fst ` set (gc_candidates i)"
proof
  assume "h \<in> fst ` set (gc_candidates i)"
  then obtain e where "index_lookup i h = Some e" "ie_ref_count e = 0"
    using candidate_entry [of i h] assms(1) by (auto simp: covered_def)
  then show False using refs_mem [OF assms(2)] assms(1) by (fastforce simp: covered_def)
qed

subsection \<open>What deleting a version does to the index\<close>

text \<open>One round of the loop.\<close>

lemma drop_step:
  assumes "drop_references J (k # hs) (i, s) = (Inr (cand, kept), (i', s'))"
  obtains i2 s2 cand2 kept2 where "drop_references J hs (i2, s2) = (Inr (cand2, kept2), (i', s'))"
    "\<And>h. index_cnt (i2, s2) h = map_option (\<lambda>n. n - (if h = k then 1 else 0)) (index_cnt (i, s) h)"
    "\<exists>f. i2 = upd_entry k f i \<and> (\<forall>e. ie_path (f e) = ie_path e)"
    "set cand \<union> set kept = insert k (set cand2 \<union> set kept2)"
    "length cand + length kept = Suc (length cand2 + length kept2)"
proof -
  obtain n i1 s1 where d: "decrement_ref_count J k (i, s) = (Inr n, (i1, s1))"
    using assms by (cases "decrement_ref_count J k (i, s)"; cases "fst (decrement_ref_count J k (i, s))") auto
  have i1: "i1 = upd_entry k decr_entry i" using index_after_decrement [of J k i s] d by simp
  have c1: "index_cnt (i1, s1) h = map_option (\<lambda>n. n - (if h = k then 1 else 0)) (index_cnt (i, s) h)" for h
    using ixr.cnt_dec [of J k "(i, s)" h] d by (auto simp: option.map_ident)
  show thesis
  proof (cases "n = 0")
    case True
    then obtain i2 s2 cand2 kept2 where u: "update_status J k IGcPending (i1, s1) = (Inr (), (i2, s2))"
      and r: "drop_references J hs (i2, s2) = (Inr (cand2, kept2), (i', s'))" "cand = k # cand2" "kept = kept2"
      using assms d by (fastforce simp: and_then_Ok_iff)
    have i2: "i2 = upd_entry k (\<lambda>e. e\<lparr>ie_status := IGcPending\<rparr>) i1"
      using index_after_update_status [of J k IGcPending i1 s1] u by simp
    then have "index_cnt (i2, s2) h = index_cnt (i1, s1) h" for h
      by (auto simp: index_cnt_def lookup_upd_entry option.map_comp comp_def)
    moreover have "i2 = upd_entry k (\<lambda>e. (decr_entry e)\<lparr>ie_status := IGcPending\<rparr>) i"
      using i1 i2 by (auto simp: upd_entry_def map_of_update update_last split: option.splits)
    ultimately show thesis using c1 r by (intro that [OF r(1)]) auto
  next
    case False
    then obtain cand2 kept2 where r: "drop_references J hs (i1, s1) = (Inr (cand2, kept2), (i', s'))"
      "cand = cand2" "kept = k # kept2"
      using assms d by (fastforce simp: and_then_Ok_iff)
    show thesis using c1 i1 r by (intro that [OF r(1)]) auto
  qed
qed

lemma drop_references_effect:
  assumes "drop_references J hs (i, s) = (Inr (cand, kept), (i', s'))"
  shows "index_cnt (i', s') h = map_option (\<lambda>n. n - count_list hs h) (index_cnt (i, s) h) \<and>
    bi_version_chunks i' = bi_version_chunks i \<and>
    (distinct (keys (bi_chunk_index i)) \<longrightarrow> distinct (keys (bi_chunk_index i'))) \<and>
    set (keys (bi_chunk_index i')) = set (keys (bi_chunk_index i)) \<and>
    set cand \<union> set kept = set hs \<and> length cand + length kept = length hs"
  using assms
proof (induction hs arbitrary: i s cand kept)
  case (Cons k hs)
  then obtain i2 s2 cand2 kept2 where
    1: "drop_references J hs (i2, s2) = (Inr (cand2, kept2), (i', s'))" and
    2: "index_cnt (i2, s2) h = map_option (\<lambda>n. n - (if h = k then 1 else 0)) (index_cnt (i, s) h)" and
    3: "\<exists>f. i2 = upd_entry k f i \<and> (\<forall>e. ie_path (f e) = ie_path e)" and
    4: "set cand \<union> set kept = insert k (set cand2 \<union> set kept2)"
      "length cand + length kept = Suc (length cand2 + length kept2)"
    by (elim drop_step) blast
  from 3 obtain f where "i2 = upd_entry k f i" by blast
  then have "bi_version_chunks i2 = bi_version_chunks i" "set (keys (bi_chunk_index i2)) = set (keys (bi_chunk_index i))"
    "distinct (keys (bi_chunk_index i)) \<Longrightarrow> distinct (keys (bi_chunk_index i2))"
    by (simp_all only: upd_entry_keys upd_entry_other upd_entry_distinct)
  then show ?case using Cons.IH [OF 1] 2 4 by (auto simp: option.map_comp comp_def)
qed (auto simp: option.map_ident)

lemma decrement_keeps_content:
  assumes "store_inv X l rid (i, s)" and "decrement_ref_count J h (i, s) = (r, (i', s'))"
  shows "chunk_content X (i', s') = chunk_content X (i, s) \<and> store_inv X l rid (i', s')"
proof (cases "index_lookup i h")
  case None
  then show ?thesis using assms by (simp add: decrement_ref_count_def index_lookup_def)
next
  case (Some e)
  then obtain q where "persist J (upd_entry h decr_entry i, s) = (q, (i', s'))"
    using assms(2)
    by (cases "persist J (upd_entry h decr_entry i, s)")
       (auto simp: decrement_ref_count_def index_lookup_def Let_def upd_entry_def and_then_def split: sum.splits)
  then show ?thesis using entry_change_keeps_content [OF assms(1), of decr_entry] by simp
qed

lemma status_keeps_content:
  assumes "store_inv X l rid (i, s)" and "update_status J h x (i, s) = (r, (i', s'))"
  shows "chunk_content X (i', s') = chunk_content X (i, s) \<and> store_inv X l rid (i', s')"
proof (cases "index_lookup i h")
  case None
  then show ?thesis using assms by (simp add: update_status_def index_lookup_def)
next
  case (Some e)
  then have "persist J (upd_entry h (\<lambda>e. e\<lparr>ie_status := x\<rparr>) i, s) = (r, (i', s'))"
    using assms(2) by (simp add: update_status_def index_lookup_def upd_entry_def)
  then show ?thesis using entry_change_keeps_content [OF assms(1), of "\<lambda>e. e\<lparr>ie_status := x\<rparr>"] by simp
qed

lemma version_chunks_keeps_content:
  assumes "store_inv X l rid (i, s)" and "register_version_chunks J vid hs (i, s) = (r, (i', s'))"
  shows "chunk_content X (i', s') = chunk_content X (i, s) \<and> store_inv X l rid (i', s')"
proof -
  let ?i = "i\<lparr>bi_version_chunks := AList.update vid hs (bi_version_chunks i)\<rparr>"
  have p: "persist J (?i, s) = (r, (i', s'))" using assms(2) by (simp add: register_version_chunks_def)
  have i': "i' = ?i" using persist_index [of J "(?i, s)"] p by simp
  have inv: "store_inv X l rid (?i, t)" for t using assms(1) by (simp add: store_inv_def index_lookup_def)
  have "chunk_content X (?i, s) = chunk_content X (i, s)"
    by (rule ext) (simp add: chunk_content_def index_lookup_def split: option.splits)
  then show ?thesis using persist_keeps_content [OF inv p] inv i' by simp
qed

lemma drop_keeps_content:
  assumes "store_inv X l rid (i, s)" and "drop_references J hs (i, s) = (Inr ck, (i', s'))"
  shows "chunk_content X (i', s') = chunk_content X (i, s) \<and> store_inv X l rid (i', s')"
  using assms
proof (induction hs arbitrary: i s ck)
  case (Cons k hs)
  obtain n i1 s1 where d: "decrement_ref_count J k (i, s) = (Inr n, (i1, s1))"
    using Cons.prems(2) by (cases "decrement_ref_count J k (i, s)"; cases "fst (decrement_ref_count J k (i, s))") auto
  note k1 = decrement_keeps_content [OF Cons.prems(1) d]
  show ?case
  proof (cases "n = 0")
    case True
    then obtain i2 s2 ck2 where u: "update_status J k IGcPending (i1, s1) = (Inr (), (i2, s2))"
      and r: "drop_references J hs (i2, s2) = (Inr ck2, (i', s'))"
      using Cons.prems(2) d by (fastforce simp: and_then_Ok_iff)
    have k2: "chunk_content X (i2, s2) = chunk_content X (i1, s1) \<and> store_inv X l rid (i2, s2)"
      using status_keeps_content [OF _ u] k1 by blast
    then show ?thesis using Cons.IH [OF _ r] k1 by simp
  next
    case False
    then obtain ck2 where r: "drop_references J hs (i1, s1) = (Inr ck2, (i', s'))"
      using Cons.prems(2) d by (fastforce simp: and_then_Ok_iff)
    then show ?thesis using Cons.IH [OF _ r] k1 by simp
  qed
qed simp

lemma delete_version_Ok:
  assumes "delete_version J now vo vid (i, s) = (Inr res, (i', s'))"
  obtains i1 s1 cand kept where
    "drop_references J (get_version_chunks i vid) (i, s) = (Inr (cand, kept), (i1, s1))"
    "register_version_chunks J vid [] (i1, s1) = (Inr (), (i', s'))"
    "i' = i1\<lparr>bi_version_chunks := AList.update vid [] (bi_version_chunks i1)\<rparr>"
    "dr_gc_candidates res = cand" "dr_kept_shared res = kept" "dr_removed_chunks res = get_version_chunks i vid"
proof -
  obtain cand kept i1 s1 where
    a: "drop_references J (get_version_chunks i vid) (i, s) = (Inr (cand, kept), (i1, s1))"
      "register_version_chunks J vid [] (i1, s1) = (Inr (), (i', s'))"
      "res = \<lparr>dr_version_id = vid, dr_removed_chunks = get_version_chunks i vid, dr_gc_candidates = cand,
                     dr_kept_shared = kept\<rparr>"
    using assms by (auto simp: delete_version_def Let_def result_iffs split: sum.splits if_splits)
  have "i' = i1\<lparr>bi_version_chunks := AList.update vid [] (bi_version_chunks i1)\<rparr>"
    using index_after_version_chunks [of J vid "[]" i1 s1] a(2) by simp
  with a show thesis by (intro that) auto
qed

lemma index_lookup_chunks [simp]: "index_lookup (i\<lparr>bi_version_chunks := m\<rparr>) h = index_lookup i h"
  by (simp add: index_lookup_def)

lemma delete_keeps_covered:
  assumes "covered i" and "delete_version J now vo vid (i, s) = (Inr res, (i', s'))"
  shows "covered i' \<and> (\<forall>w. w \<noteq> vid \<longrightarrow> get_version_chunks i' w = get_version_chunks i w)
    \<and> get_version_chunks i' vid = [] \<and> set (keys (bi_chunk_index i')) = set (keys (bi_chunk_index i))"
proof -
  obtain i1 s1 cand kept where
    d: "drop_references J (get_version_chunks i vid) (i, s) = (Inr (cand, kept), (i1, s1))" and
    i': "i' = i1\<lparr>bi_version_chunks := AList.update vid [] (bi_version_chunks i1)\<rparr>"
    by (rule delete_version_Ok [OF assms(2)]) blast
  have e: "index_cnt (i1, s1) h = map_option (\<lambda>n. n - count_list (get_version_chunks i vid) h) (index_cnt (i, s) h)"
    "bi_version_chunks i1 = bi_version_chunks i" "distinct (keys (bi_chunk_index i1))"
    "set (keys (bi_chunk_index i1)) = set (keys (bi_chunk_index i))" for h
    using drop_references_effect [OF d, of h] assms(1) by (auto simp: covered_def)
  have gv: "get_version_chunks i1 w = get_version_chunks i w" for w
    using e(2) by (simp add: get_version_chunks_def)
  have "refs i' h \<le> unat (ie_ref_count x)" if x: "index_lookup i' h = Some x" for h x
  proof -
    have "index_cnt (i1, s1) h = Some (unat (ie_ref_count x))" using x i' by (simp add: index_cnt_def)
    then obtain y where y: "index_lookup i h = Some y"
      "unat (ie_ref_count x) = unat (ie_ref_count y) - count_list (get_version_chunks i vid) h"
      using e(1) [of h] by (cases "index_lookup i h") (auto simp: index_cnt_def)
    have "refs i' h + count_list (get_version_chunks i vid) h = refs i h"
      using refs_drop [of i1 vid h] e(2) assms(1) i' gv by (simp add: covered_def refs_def)
    moreover have "refs i h \<le> unat (ie_ref_count y)" using assms(1) y(1) by (simp add: covered_def)
    ultimately show ?thesis using y(2) by linarith
  qed
  moreover have "get_version_chunks i' w = (if w = vid then [] else get_version_chunks i w)" for w
    using i' gv by simp
  ultimately show ?thesis using e(2-4) i' assms(1) by (simp add: covered_def)
qed

subsection \<open>What the collector does\<close>

text \<open>What the code relies on of \<open>hex\<close>: decoding inverts encoding.  Index keys are the encodings of
  32-byte hashes, the type \<open>ChunkHash\<close>.\<close>

definition hash_keys :: "crates \<Rightarrow> badou_index \<Rightarrow> bool" where
  "hash_keys X i \<longleftrightarrow> (\<forall>h. hex_decode X (hex_encode X h) = Some h) \<and>
     (\<forall>k \<in> set (keys (bi_chunk_index i)). \<exists>h. length h = 32 \<and> k = hex_encode X h)"

lemma parse_hash_key:
  "hash_keys X i \<Longrightarrow> k \<in> set (keys (bi_chunk_index i)) \<Longrightarrow> \<exists>h. k = hex_encode X h \<and> parse_hash X k = h"
  by (fastforce simp: hash_keys_def parse_hash_def)

lemma gc_loop_keeps_others:
  assumes "store_inv X l rid (i, s)" and "\<forall>(k, e) \<in> set cs. \<exists>h. k = hex_encode X h \<and> parse_hash X k = h"
    and "gc_loop X J cs rep (i, s) = (r, (i', s'))" and "hex_encode X h \<notin> fst ` set cs"
  shows "chunk_content X (i', s') h = chunk_content X (i, s) h \<and> store_inv X l rid (i', s')"
  using assms
proof (induction cs arbitrary: i s rep)
  case (Cons c cs)
  obtain k e where c: "c = (k, e)" by fastforce
  obtain g where g: "k = hex_encode X g" "parse_hash X k = g" using Cons.prems(2) c by auto
  have neq: "h \<noteq> g" using Cons.prems(4) c g by auto
  note IH = Cons.IH [OF _ _ _ ]
  obtain q i1 s1 where d: "delete_chunk_physical X J g (i, s) = (q, (i1, s1))" by (metis prod_cases3)
  have d1: "store_inv X l rid (i1, s1)" "chunk_content X (i1, s1) h = chunk_content X (i, s) h"
    using delete_chunk_frame [OF Cons.prems(1) d] neq by auto
  have rest: ?case if "gc_loop X J cs rep' (i2, s2) = (r, (i', s'))" "store_inv X l rid (i2, s2)"
    "chunk_content X (i2, s2) h = chunk_content X (i, s) h" for rep' i2 s2
    using Cons.IH [OF that(2) _ that(1)] Cons.prems(2,4) that(3) by auto
  show ?case
  proof (cases "ie_status e = IGcPending")
    case False
    then show ?thesis using rest Cons.prems(1,3) c by auto
  next
    case True
    have skip: ?thesis if "q = Inl (CsNotFound x)" for x
    proof -
      obtain u i2 s2 where u: "update_status J k IPurged (i1, s1) = (u, (i2, s2))" by (metis prod_cases3)
      have "store_inv X l rid (i2, s2)" "chunk_content X (i2, s2) h = chunk_content X (i, s) h"
        using status_keeps_content [OF d1(1) u] d1(2) by auto
      then show ?thesis using rest Cons.prems(3) c d g True that u by (cases u) auto
    qed
    show ?thesis
    proof (cases q)
      case (Inl x)
      then show ?thesis using rest d1 skip Cons.prems(3) c d g True by (cases x) auto
    next
      case (Inr y)
      then show ?thesis using rest d1 Cons.prems(3) c d g True by auto
    qed
  qed
qed simp

subsection \<open>Properties\<close>

text \<open>(C4) Deleting a version and collecting never costs another version a chunk: if every
  counter covers the references the versions hold, then after a successful
  \<open>delete_version\<close> and any run of \<open>execute_gc\<close> (complete, failed or partial) every chunk
  another version lists still has exactly the bytes it had, the other versions keep their
  lists and the counters still cover them.\<close>

theorem delete_and_gc_keep_shared_chunks:
  assumes "store_inv X l rid (i, s)" and "hash_keys X i" and "covered i"
    and "delete_version J now vo vid (i, s) = (Inr res, (i1, s1))"
    and "execute_gc X J t0 t1 (i1, s1) = (r, st2)"
    and "w \<noteq> vid" and "hex_encode X h \<in> set (get_version_chunks i w)"
  shows "chunk_content X st2 h = chunk_content X (i, s) h \<and> covered i1 \<and>
     get_version_chunks i1 w = get_version_chunks i w"
proof -
  obtain i2 s2 where st2: "st2 = (i2, s2)" by fastforce
  obtain i0 s0 ck where d: "drop_references J (get_version_chunks i vid) (i, s) = (Inr ck, (i0, s0))"
    "register_version_chunks J vid [] (i0, s0) = (Inr (), (i1, s1))"
    by (rule delete_version_Ok [OF assms(4)]) blast
  have k0: "chunk_content X (i0, s0) = chunk_content X (i, s)" "store_inv X l rid (i0, s0)"
    using drop_keeps_content [OF assms(1) d(1)] by auto
  have k1: "chunk_content X (i1, s1) = chunk_content X (i, s)" "store_inv X l rid (i1, s1)"
    using version_chunks_keeps_content [OF k0(2) d(2)] k0(1) by auto
  note cov = delete_keeps_covered [OF assms(3,4)]
  have hk: "hash_keys X i1" using cov assms(2) by (simp add: hash_keys_def)
  have cand: "\<forall>(k, e) \<in> set (gc_candidates i1). \<exists>h. k = hex_encode X h \<and> parse_hash X k = h"
    using parse_hash_key [OF hk] by (force simp: gc_candidates_def)
  have "hex_encode X h \<notin> fst ` set (gc_candidates i1)"
    using covered_not_candidate [of i1 "hex_encode X h" w] cov assms(6,7) by simp
  moreover obtain q where "gc_loop X J (gc_candidates i1) (gc_report_new t0) (i1, s1) = (q, (i2, s2))"
    using assms(5) st2 by (cases "gc_loop X J (gc_candidates i1) (gc_report_new t0) (i1, s1)")
      (auto simp: execute_gc_def and_then_def split: sum.splits)
  ultimately have "chunk_content X (i2, s2) h = chunk_content X (i1, s1) h"
    using gc_loop_keeps_others [OF k1(2) cand] by blast
  then show ?thesis using k1(1) st2 cov assms(6) by simp
qed

text \<open>A deletion of an indexed chunk never answers \<open>NotFound\<close>, and changes one index entry.\<close>

lemma update_status_index:
  "update_status J h x (i, s) = (r, (i', s')) \<Longrightarrow> i' = upd_entry h (\<lambda>e. e\<lparr>ie_status := x\<rparr>) i"
  using index_after_update_status [of J h x i s] by simp

lemma delete_indexed:
  assumes "index_lookup i (hex_encode X g) = Some e" and "delete_chunk_physical X J g (i, s) = (q, (i', s'))"
  shows "q \<noteq> Inl (CsNotFound x)" and "k \<noteq> hex_encode X g \<Longrightarrow> index_lookup i' k = index_lookup i k"
    and "set (keys (bi_chunk_index i')) = set (keys (bi_chunk_index i))"
    and "distinct (keys (bi_chunk_index i)) \<Longrightarrow> distinct (keys (bi_chunk_index i'))"
proof -
  obtain r1 s1 where rm: "(if path_exists s (ie_path e) then fs_remove_file (ie_path e) s else (Inr (), s)) = (r1, s1)"
    by fastforce
  show "q \<noteq> Inl (CsNotFound x)"
    using assms by (auto simp: delete_chunk_physical_def and_then_def map_err_def split: if_splits sum.splits prod.splits)
  have "i' = i \<or> i' = upd_entry (hex_encode X g) (\<lambda>e. e\<lparr>ie_status := IPurged\<rparr>) i"
    using assms rm
    by (cases r1) (auto simp: delete_chunk_physical_def map_err_def split: if_splits sum.splits prod.splits
      dest!: update_status_index)
  then show "k \<noteq> hex_encode X g \<Longrightarrow> index_lookup i' k = index_lookup i k"
    "set (keys (bi_chunk_index i')) = set (keys (bi_chunk_index i))"
    "distinct (keys (bi_chunk_index i)) \<Longrightarrow> distinct (keys (bi_chunk_index i'))"
    by (auto simp: lookup_upd_entry simp del: set_map)
qed

lemma delete_chunk_distinct:
  assumes "delete_chunk_physical X J g (i, s) = (q, (i', s'))" and "distinct (keys (bi_chunk_index i))"
  shows "distinct (keys (bi_chunk_index i'))"
  using assms delete_indexed(4) [OF _ assms(1)]
  by (cases "index_lookup i (hex_encode X g)") (auto simp: delete_chunk_physical_def)

lemma gc_loop_distinct:
  "gc_loop X J cs rep (i, s) = (r, (i', s')) \<Longrightarrow> distinct (keys (bi_chunk_index i)) \<Longrightarrow> distinct (keys (bi_chunk_index i'))"
proof (induction cs arbitrary: rep i s)
  case (Cons c cs)
  obtain k e where c: "c = (k, e)" by fastforce
  obtain q i1 s1 where d: "delete_chunk_physical X J (parse_hash X k) (i, s) = (q, (i1, s1))" by (metis prod_cases3)
  obtain u i2 s2 where u: "update_status J k IPurged (i1, s1) = (u, (i2, s2))" by (metis prod_cases3)
  have d1: "distinct (keys (bi_chunk_index i1))" using delete_chunk_distinct [OF d Cons.prems(2)] .
  have "distinct (keys (bi_chunk_index i2))" using update_status_index [OF u] d1 by simp
  then show ?case
    using Cons.IH Cons.prems c d d1 u
    by (cases q; cases u) (auto split: if_splits chunk_store_error.splits)
qed simp

definition gc_split :: "(string \<times> chunk_index_entry) list \<Rightarrow> gc_report \<Rightarrow> gc_report \<Rightarrow>
    (string \<times> chunk_index_entry) list \<Rightarrow> (string \<times> chunk_store_error) list \<Rightarrow> bool" where
  "gc_split cs rep rep' P Er \<longleftrightarrow> gr_purged_chunks rep' = gr_purged_chunks rep @ keys P \<and>
     gr_errors rep' = gr_errors rep @ Er \<and> gr_skipped_chunks rep' = gr_skipped_chunks rep \<and>
     gr_freed_bytes rep' = gr_freed_bytes rep + sum_list (map (ie_stored_size \<circ> snd) P) \<and>
     set P \<subseteq> set cs \<and> set (keys P) \<union> set (keys Er) = set (keys cs) \<and> length P + length Er = length cs \<and>
     (Er = [] \<longrightarrow> P = cs)"

lemma gc_loop_split:
  assumes "store_inv X l rid (i, s)"
    and "\<forall>(k, e) \<in> set cs. ie_status e = IGcPending \<and> (\<exists>h. k = hex_encode X h \<and> parse_hash X k = h)"
    and "distinct (keys cs)" and "set (keys cs) \<subseteq> set (keys (bi_chunk_index i))"
    and "gc_loop X J cs rep (i, s) = (Inr rep', (i', s'))"
  shows "\<exists>P Er. gc_split cs rep rep' P Er \<and>
     (\<forall>h. hex_encode X h \<in> set (keys P) \<longrightarrow> chunk_content X (i', s') h = None \<and>
        (\<exists>e. index_lookup i' (hex_encode X h) = Some e \<and> ie_status e = IPurged)) \<and>
     (\<forall>k. k \<notin> set (keys cs) \<longrightarrow> index_lookup i' k = index_lookup i k)"
  using assms
proof (induction cs arbitrary: i s rep)
  case Nil
  then show ?case by (intro exI [of _ "[]"]) (simp add: gc_split_def)
next
  case (Cons c cs)
  obtain k e where c: "c = (k, e)" by fastforce
  obtain g where g: "k = hex_encode X g" "parse_hash X k = g" "ie_status e = IGcPending"
    using Cons.prems(2) c by auto
  have inj: "inj (hex_encode X)" using Cons.prems(1) by (simp add: store_inv_def)
  obtain x where x: "index_lookup i (hex_encode X g) = Some x"
    using Cons.prems(4) c g by (auto simp: index_lookup_def map_of_eq_None_iff dest!: not_None_eq [THEN iffD1] split: option.splits)
      (metis (no_types, lifting) fst_conv image_eqI map_of_eq_None_iff not_None_eq)
  obtain q i1 s1 where d: "delete_chunk_physical X J g (i, s) = (q, (i1, s1))" by (metis prod_cases3)
  note di = delete_indexed [OF x d]
  have inv1: "store_inv X l rid (i1, s1)" using delete_chunk_frame [OF Cons.prems(1) d] by simp
  define rep1 where "rep1 = (case q of
      Inr _ \<Rightarrow> rep\<lparr>gr_purged_chunks := gr_purged_chunks rep @ [k], gr_freed_bytes := gr_freed_bytes rep + ie_stored_size e\<rparr>
    | Inl y \<Rightarrow> rep\<lparr>gr_errors := gr_errors rep @ [(k, y)]\<rparr>)"
  have loop: "gc_loop X J cs rep1 (i1, s1) = (Inr rep', (i', s'))"
    using Cons.prems(5) c d g di(1) by (cases q) (auto simp: rep1_def split: chunk_store_error.splits)
  then obtain P Er where IH: "gc_split cs rep1 rep' P Er"
    "\<forall>h. hex_encode X h \<in> set (keys P) \<longrightarrow> chunk_content X (i', s') h = None \<and>
        (\<exists>e. index_lookup i' (hex_encode X h) = Some e \<and> ie_status e = IPurged)"
    "\<forall>k. k \<notin> set (keys cs) \<longrightarrow> index_lookup i' k = index_lookup i1 k"
    using Cons.IH [OF inv1 _ _ _ ] Cons.prems(2-4) di(3) by (auto 0 3 simp del: set_map) blast
  show ?case
  proof (cases q)
    case (Inl y)
    then have "gc_split (c # cs) rep rep' P ((k, y) # Er)" using IH(1) c by (auto simp: gc_split_def rep1_def)
    then show ?thesis using IH(2,3) di(2) c g by (intro exI [of _ P] exI [of _ "(k, y) # Er"]) auto
  next
    case (Inr u)
    have g': "chunk_content X (i1, s1) g = None" "index_lookup i1 k = Some (x\<lparr>ie_status := IPurged\<rparr>)"
      using delete_chunk_content [of X l rid i s J g i1 s1] Cons.prems(1) d Inr x g by (auto simp: lookup_upd_entry)
    have "k \<notin> fst ` set cs" using Cons.prems(3) c by auto
    moreover have keys: "\<forall>(k, e) \<in> set cs. \<exists>h. k = hex_encode X h \<and> parse_hash X k = h" using Cons.prems(2) by auto
    ultimately have g'': "chunk_content X (i', s') g = None" "index_lookup i' k = Some (x\<lparr>ie_status := IPurged\<rparr>)"
      using gc_loop_keeps_others [OF inv1 keys loop, of g] g' IH(3) g(1) by auto
    have "gc_split (c # cs) rep rep' ((k, e) # P) Er" using IH(1) c Inr by (auto simp: gc_split_def rep1_def algebra_simps)
    then show ?thesis using IH(2,3) di(2) c g g'' inj
      by (intro exI [of _ "(k, e) # P"] exI [of _ Er]) (auto simp: inj_eq)
  qed
qed

text \<open>(C10) A collection over an index whose keys are distinct 32-byte hashes in hexadecimal and whose entries name
  their bucket files, under any faults: every candidate ends up purged or reported with its error, none
  twice and none skipped; a purged chunk has no bytes left; and when no error is reported the freed bytes
  are those of all candidates, no candidate remains and a second collection does nothing.\<close>

theorem gc_collects:
  assumes "store_inv X l rid (i, s)" and "hash_keys X i" and "distinct (keys (bi_chunk_index i))"
    and "execute_gc X J t0 t1 (i, s) = (Inr rep, (i', s'))"
  shows "set (gr_purged_chunks rep) \<union> set (keys (gr_errors rep)) = set (keys (gc_candidates i)) \<and>
     purged_count rep + length (gr_errors rep) = length (gc_candidates i) \<and> gr_skipped_chunks rep = [] \<and>
     (\<forall>h. hex_encode X h \<in> set (gr_purged_chunks rep) \<longrightarrow> chunk_content X (i', s') h = None) \<and>
     (gr_errors rep = [] \<longrightarrow>
        gr_freed_bytes rep = sum_list (map (ie_stored_size \<circ> snd) (gc_candidates i)) \<and>
        gc_candidates i' = [] \<and>
        execute_gc X J t2 t3 (i', s') = (Inr ((gc_report_new t2)\<lparr>gr_finished_at := t3\<rparr>), (i', s')))"
proof -
  let ?cs = "gc_candidates i"
  have sub: "set ?cs \<subseteq> set (bi_chunk_index i)" by (auto simp: gc_candidates_def)
  have cand: "\<forall>(k, e) \<in> set ?cs. ie_status e = IGcPending \<and> (\<exists>h. k = hex_encode X h \<and> parse_hash X k = h)"
    using parse_hash_key [OF assms(2)] by (force simp: gc_candidates_def)
  have d: "distinct (keys ?cs)" using assms(3) by (simp add: gc_candidates_def distinct_map_filter)
  obtain rep0 where loop: "gc_loop X J ?cs (gc_report_new t0) (i, s) = (Inr rep0, (i', s'))"
    "rep = rep0\<lparr>gr_finished_at := t1\<rparr>"
    using assms(4) by (auto simp: execute_gc_def and_then_Ok_iff)
  obtain P Er where sp: "gc_split ?cs (gc_report_new t0) rep0 P Er"
    and gone: "\<forall>h. hex_encode X h \<in> set (keys P) \<longrightarrow> chunk_content X (i', s') h = None \<and>
        (\<exists>e. index_lookup i' (hex_encode X h) = Some e \<and> ie_status e = IPurged)"
    and rest: "\<forall>k. k \<notin> set (keys ?cs) \<longrightarrow> index_lookup i' k = index_lookup i k"
    using gc_loop_split [OF assms(1) cand d _ loop(1)] sub by (auto simp: image_mono)
  have none: "gc_candidates i' = []" if "Er = []"
  proof (rule ccontr)
    assume "gc_candidates i' \<noteq> []"
    then obtain k e where ke: "(k, e) \<in> set (gc_candidates i')" by (cases "gc_candidates i'") auto
    have "distinct (keys (bi_chunk_index i'))" using gc_loop_distinct [OF loop(1)] assms(3) by blast
    then have k: "index_lookup i' k = Some e" "ie_ref_count e = 0" "ie_status e = IGcPending"
      using candidate_entry ke by auto
    show False
    proof (cases "k \<in> set (keys ?cs)")
      case True
      then obtain h where "k = hex_encode X h" using cand by fastforce
      then show False using gone sp that True k by (auto simp: gc_split_def)
    next
      case False
      then have "(k, e) \<in> set ?cs" using candidate_entry [OF assms(3)] rest k by auto
      then show False using False by force
    qed
  qed
  then have "execute_gc X J t2 t3 (i', s') = (Inr ((gc_report_new t2)\<lparr>gr_finished_at := t3\<rparr>), (i', s'))" if "Er = []"
    using that by (simp add: execute_gc_def)
  then show ?thesis
    using sp gone none loop(2) by (auto simp: gc_split_def gc_report_new_def purged_count_def)
qed

lemma filter_gc_step:
  assumes "filter_gc_candidates now vo ((k, n, ov) # cs) = Inr hs"
  shows "\<exists>hs'. filter_gc_candidates now vo cs = Inr hs' \<and> (hs = hs' \<or> (hs = k # hs' \<and> n = 0 \<and>
     (\<forall>v. ov = Some v \<longrightarrow> gc_check_version now vo v = Inr GcAllow)))"
  using assms
  by (auto simp: word_neq_0_conv split: if_splits option.splits sum.splits gc_decision.splits)

text \<open>The retention check itself: while a version's retention runs, \<open>delete_version\<close> refuses it
  and changes nothing; the candidate filter answers only chunks without references whose
  version, if known, is past its retention.\<close>

theorem retention_blocks_deletion:
  assumes "get_version vid vo = Inr v" and "v_immutable_until v = Some t" and "now < t"
  shows "delete_version J now vo vid st = (Inl (DeImmutable vid), st) \<and>
     gc_check_version now vo vid = Inr (GcBlockRetention t) \<and>
     (\<forall>cs hs. filter_gc_candidates now vo cs = Inr hs \<longrightarrow>
        (\<forall>h \<in> set hs. \<exists>n ov. (h, n, ov) \<in> set cs \<and> n = 0 \<and> ov \<noteq> Some vid))"
proof -
  have block: "gc_check_version now vo vid = Inr (GcBlockRetention t)"
    using assms by (simp add: gc_check_version_def)
  have "\<exists>n ov. (h, n, ov) \<in> set cs \<and> n = 0 \<and> ov \<noteq> Some vid"
    if "filter_gc_candidates now vo cs = Inr hs" "h \<in> set hs" for cs hs h
    using that
  proof (induction cs arbitrary: hs)
    case (Cons c cs)
    obtain k n ov where c: "c = (k, n, ov)" by (cases c)
    obtain hs' where r: "filter_gc_candidates now vo cs = Inr hs'"
      "hs = hs' \<or> (hs = k # hs' \<and> n = 0 \<and> (\<forall>v. ov = Some v \<longrightarrow> gc_check_version now vo v = Inr GcAllow))"
      using filter_gc_step Cons.prems(1) c by blast
    show ?case
    proof (cases "h \<in> set hs'")
      case True
      then show ?thesis using Cons.IH [OF r(1)] by auto
    next
      case False
      then have "h = k" "n = 0" "ov \<noteq> Some vid" using r(2) Cons.prems(2) block by auto
      then show ?thesis using c by auto
    qed
  qed simp
  then show ?thesis using assms block by (auto simp: delete_version_def)
qed

text \<open>But no version is ever under retention: \<open>Version::new\<close> leaves \<open>immutable_until\<close> empty and nothing sets it, so
  in every registry that can arise the check passes and a deletion is never refused for retention.\<close>

lemma version_retention_never_set:
  "registry_run vo tr \<Longrightarrow> map_of (vo_versions vo) vid = Some v \<Longrightarrow> v_immutable_until v = None"
proof (induction arbitrary: v rule: registry_run.induct)
  case start
  then show ?case by (simp add: version_ops_new_def)
next
  case (create vo tr vid' sid now rid parent w vo')
  then show ?case using create_version_Ok(1,2) [OF create.hyps(3)] by (auto simp: version_new_def split: if_splits)
next
  case (change vo tr vid' target w vo')
  then show ?case using vo_transition_Ok(1) [OF change.hyps(2)] by (auto split: if_splits)
next
  case (refused vo tr vid' target e vo')
  then show ?case using vo_transition_Err by blast
qed

theorem version_retention_never_applies:
  assumes "registry_run vo tr" and "get_version vid vo = Inr v"
  shows "gc_check_version now vo vid = Inr GcAllow \<and> fst (delete_version J now vo vid st) \<noteq> Inl (DeImmutable vid)"
proof -
  have "v_immutable_until v = None"
    using version_retention_never_set [OF assms(1)] assms(2) by (auto simp: get_version_def split: option.splits)
  then show ?thesis using assms(2)
    by (auto simp: gc_check_version_def delete_version_def and_then_def map_err_def Let_def split: prod.splits sum.splits)
qed

subsection \<open>Witnesses\<close>

definition demo_hash :: chunk_hash where
  "demo_hash = replicate 32 7"

definition demo_gc_entry :: "u32 \<Rightarrow> chunk_index_status \<Rightarrow> chunk_index_entry" where
  "demo_gc_entry n x =
     (new_entry sample_crates root_layout [9] 0 demo_hash [1, 2])\<lparr>ie_ref_count := n, ie_status := x\<rparr>"

definition demo_gc_index :: "u32 \<Rightarrow> chunk_index_status \<Rightarrow> (uuid, string list) hmap \<Rightarrow> badou_index" where
  "demo_gc_index n x vc = in_memory\<lparr>bi_chunk_index := [(hex_encode sample_crates demo_hash, demo_gc_entry n x)],
     bi_version_chunks := vc\<rparr>"

definition demo_gc_disk :: fsys where
  "demo_gc_disk = \<lparr>nodes = [(bucket_path sample_crates root_layout [9] demo_hash, File [1, 2])], faults = []\<rparr>"

abbreviation demo_hex :: string where
  "demo_hex \<equiv> hex_encode sample_crates demo_hash"

lemma demo_gc_inv:
  "store_inv sample_crates root_layout [9] (demo_gc_index n x vc, s)" "hash_keys sample_crates (demo_gc_index n x vc)"
  "distinct (keys (bi_chunk_index (demo_gc_index n x vc)))"
  by (auto simp: store_inv_def demo_gc_index_def in_memory_def index_lookup_def demo_gc_entry_def new_entry_def
      hash_keys_def demo_hash_def intro: exI [of _ "replicate 32 7"] split: if_splits)

lemma demo_covered: "covered (demo_gc_index 2 IActive [([1], [demo_hex]), ([2], [demo_hex])])"
  by (auto simp: covered_def demo_gc_index_def in_memory_def refs_def index_lookup_def demo_gc_entry_def
      split: if_splits)

theorem delete_and_gc_keep_shared_chunks_witness:
  "\<exists>res i1 s1 r st2.
     delete_version sample_json 0 (sample_registry VSealed) [1]
       (demo_gc_index 2 IActive [([1], [demo_hex]), ([2], [demo_hex])], demo_gc_disk) = (Inr res, (i1, s1)) \<and>
     execute_gc sample_crates sample_json 0 0 (i1, s1) = (r, st2) \<and>
     chunk_content sample_crates st2 demo_hash = Some [1, 2]"
proof -
  let ?i = "demo_gc_index 2 IActive [([1], [demo_hex]), ([2], [demo_hex])]"
  obtain res i1 s1 where d: "delete_version sample_json 0 (sample_registry VSealed) [1] (?i, demo_gc_disk) = (Inr res, (i1, s1))"
    by (simp add: delete_version_def get_version_def sample_registry_def version_new_def get_version_chunks_def
        demo_gc_index_def in_memory_def decrement_ref_count_def decr_entry_def demo_gc_entry_def persist_def
        register_version_chunks_def Let_def)
  obtain r st2 where g: "execute_gc sample_crates sample_json 0 0 (i1, s1) = (r, st2)" by (rule prod.exhaust)
  have "chunk_content sample_crates (?i, demo_gc_disk) demo_hash = Some [1, 2]"
    by (simp add: chunk_content_def index_lookup_def demo_gc_index_def demo_gc_entry_def new_entry_def
        file_at_def lookup_def demo_gc_disk_def)
  moreover have "demo_hex \<in> set (get_version_chunks ?i [2])"
    by (simp add: get_version_chunks_def demo_gc_index_def)
  ultimately have "chunk_content sample_crates st2 demo_hash = Some [1, 2]"
    using delete_and_gc_keep_shared_chunks [OF demo_gc_inv(1,2) demo_covered d g, of "[2]" demo_hash] by simp
  with d g show ?thesis by blast
qed

theorem gc_collects_witness:
  "\<exists>rep i' s'. execute_gc sample_crates sample_json 0 1 (demo_gc_index 0 IGcPending [], demo_gc_disk) = (Inr rep, (i', s')) \<and>
     gr_purged_chunks rep = [demo_hex] \<and> chunk_content sample_crates (i', s') demo_hash = None \<and>
     gc_candidates i' = [] \<and> gr_freed_bytes rep = 2"
proof -
  let ?i = "demo_gc_index 0 IGcPending []"
  have ph: "parse_hash sample_crates demo_hex = demo_hash" by (simp add: parse_hash_def demo_hash_def)
  have cand: "gc_candidates ?i = [(demo_hex, demo_gc_entry 0 IGcPending)]"
    by (simp add: gc_candidates_def demo_gc_index_def demo_gc_entry_def)
  obtain i' s' where del: "delete_chunk_physical sample_crates sample_json demo_hash (?i, demo_gc_disk) = (Inr (), (i', s'))"
    by (simp add: delete_chunk_physical_def demo_gc_index_def index_lookup_def demo_gc_entry_def new_entry_def
        demo_gc_disk_def path_exists_def lookup_def fs_remove_file_def next_fault_def update_status_def persist_def
        in_memory_def)
  then obtain rep where g: "execute_gc sample_crates sample_json 0 1 (?i, demo_gc_disk) = (Inr rep, (i', s'))"
    "gr_purged_chunks rep = [demo_hex]" "gr_errors rep = []"
    by (simp add: execute_gc_def cand ph gc_report_new_def demo_gc_entry_def)
  from gc_collects [OF demo_gc_inv g(1)] g cand show ?thesis
    by (auto simp: demo_gc_entry_def new_entry_def)
qed

theorem retention_blocks_deletion_witness:
  "let v = (version_new [1] [9] [2] None 1 0)\<lparr>v_immutable_until := Some 10\<rparr>;
       vo = version_ops_new\<lparr>vo_versions := [([1], v)]\<rparr>
   in delete_version sample_json 5 vo [1] (in_memory, empty_fs) = (Inl (DeImmutable [1]), (in_memory, empty_fs))"
proof -
  let ?v = "(version_new [1] [9] [2] None 1 0)\<lparr>v_immutable_until := Some 10\<rparr>"
  let ?vo = "version_ops_new\<lparr>vo_versions := [([1], ?v)]\<rparr>"
  have "get_version [1] ?vo = Inr ?v" "v_immutable_until ?v = Some 10" by (simp_all add: get_version_def)
  from retention_blocks_deletion [OF this, of 5 sample_json "(in_memory, empty_fs)"] show ?thesis by simp
qed

end
