(* ===== verification/Badou_Cluster.thy ===== *)
theory Badou_Cluster
  imports FileSystem
begin

text \<open>
  The cluster layer (\<open>badou-cluster\<close>): the simplified Raft node (\<open>raft.rs\<close>), chunk
  replication (\<open>replica.rs\<close>), joining and leaving (\<open>scale.rs\<close>), failure recovery
  (\<open>failover.rs\<close>) and the health report (\<open>health.rs\<close>).  A node's lock-guarded fields
  are one record and every method is one step.  The clock and node identifiers are
  arguments; \<open>blake3\<close> is the field of \<open>crates\<close>.  The iteration order of a \<open>HashMap\<close> is
  the order of its association list; the free-text \<open>detail\<close> of a report and the
  constant \<open>disk_usage_percent\<close> are left out.
\<close>

type_synonym node_id = string

subsection \<open>The Raft node\<close>

datatype node_role = Leader | Follower | Candidate

record node_info =
  ni_node_id :: node_id
  ni_addr :: string
  ni_role :: node_role
  ni_joined_at :: timestamp
  ni_last_heartbeat :: "timestamp option"

datatype raft_log_entry =
  CreateRepository string string
| DeleteRepository string
| CreateVersion string string "string option"
| SealVersion string string
| DeleteVersion string string
| UpdateChunkRef string string u32
| AddNode node_id string
| RemoveNode node_id

record raft_log =
  rl_term :: u64
  rl_index :: u64
  rl_entry :: raft_log_entry
  rl_committed :: bool
  rl_timestamp :: timestamp

record raft_node =
  rn_node_id :: node_id
  rn_addr :: string
  rn_role :: node_role
  rn_term :: u64
  rn_leader_id :: "node_id option"
  rn_peers :: "(node_id, node_info) hmap"
  rn_log :: "raft_log list"
  rn_commit_index :: u64
  rn_last_applied :: u64

datatype raft_error = RaNotLeader node_role | RaNodeNotFound node_id | RaAlreadyCommitted u64
| RaTermMismatch u64 u64 | RaIo io_error | RaSerde

definition new_single :: "node_id \<Rightarrow> string \<Rightarrow> raft_node" where
  "new_single fresh addr = \<lparr>rn_node_id = fresh, rn_addr = addr, rn_role = Leader, rn_term = 1,
     rn_leader_id = Some fresh, rn_peers = [], rn_log = [], rn_commit_index = 0, rn_last_applied = 0\<rparr>"

definition new_follower :: "node_id \<Rightarrow> string \<Rightarrow> raft_node" where
  "new_follower fresh addr = \<lparr>rn_node_id = fresh, rn_addr = addr, rn_role = Follower, rn_term = 1,
     rn_leader_id = None, rn_peers = [], rn_log = [], rn_commit_index = 0, rn_last_applied = 0\<rparr>"

definition is_leader :: "raft_node \<Rightarrow> bool" where
  "is_leader n \<longleftrightarrow> rn_role n = Leader"

definition append_log :: "timestamp \<Rightarrow> raft_log_entry \<Rightarrow> raft_node \<Rightarrow> (raft_error + raft_log) \<times> raft_node" where
  "append_log now e n =
     (if \<not> is_leader n then (Inl (RaNotLeader (rn_role n)), n)
      else let index = of_nat (length (rn_log n)) + 1;
               entry = \<lparr>rl_term = rn_term n, rl_index = index, rl_entry = e, rl_committed = True, rl_timestamp = now\<rparr>
           in (Inr entry, n\<lparr>rn_log := rn_log n @ [entry], rn_commit_index := index, rn_last_applied := index\<rparr>))"

definition committed_logs :: "raft_node \<Rightarrow> raft_log list" where
  "committed_logs n = filter rl_committed (rn_log n)"

definition log_count :: "raft_node \<Rightarrow> nat" where
  "log_count n = length (rn_log n)"

definition add_peer :: "node_info \<Rightarrow> raft_node \<Rightarrow> raft_node" where
  "add_peer i n = n\<lparr>rn_peers := AList.update (ni_node_id i) i (rn_peers n)\<rparr>"

definition remove_peer :: "node_id \<Rightarrow> raft_node \<Rightarrow> node_info option \<times> raft_node" where
  "remove_peer k n = (map_of (rn_peers n) k, n\<lparr>rn_peers := AList.delete k (rn_peers n)\<rparr>)"

definition peers :: "raft_node \<Rightarrow> node_info list" where
  "peers n = map snd (rn_peers n)"

definition cluster_size :: "raft_node \<Rightarrow> nat" where
  "cluster_size n = length (rn_peers n) + 1"

definition start_election :: "raft_node \<Rightarrow> raft_node" where
  "start_election n =
     (let n1 = n\<lparr>rn_role := Candidate, rn_term := rn_term n + 1\<rparr>
      in if rn_peers n1 = [] then n1\<lparr>rn_role := Leader, rn_leader_id := Some (rn_node_id n1)\<rparr> else n1)"

definition receive_heartbeat :: "node_id \<Rightarrow> u64 \<Rightarrow> raft_node \<Rightarrow> raft_node" where
  "receive_heartbeat leader leader_term n =
     (if leader_term \<ge> rn_term n
      then n\<lparr>rn_term := leader_term, rn_role := Follower, rn_leader_id := Some leader\<rparr> else n)"

record raft_json =
  rj_to_vec :: "raft_log list \<Rightarrow> bytes option"
  rj_from_slice :: "bytes \<Rightarrow> raft_log list option"

definition persist_logs :: "raft_json \<Rightarrow> path \<Rightarrow> raft_node \<Rightarrow> fsys \<Rightarrow> (raft_error + unit) \<times> fsys" where
  "persist_logs J p n s = (case rj_to_vec J (rn_log n) of
     None \<Rightarrow> (Inl RaSerde, s)
   | Some b \<Rightarrow> map_err RaIo (fs_write p b s))"

definition restore_logs :: "raft_json \<Rightarrow> path \<Rightarrow> raft_node \<Rightarrow> fsys \<Rightarrow> (raft_error + raft_node) \<times> fsys" where
  "restore_logs J p n s =
     (if \<not> path_exists s p then (Inr n, s)
      else and_then (map_err RaIo (fs_read p s))
        (\<lambda>data s. case rj_from_slice J data of
           None \<Rightarrow> (Inl RaSerde, s)
         | Some logs \<Rightarrow>
             let m = foldr max (map rl_index logs) 0
             in (Inr (n\<lparr>rn_log := logs, rn_commit_index := m, rn_last_applied := m\<rparr>), s)))"

subsection \<open>Replicas\<close>

record replica_config =
  replication_factor :: nat
  enable_erasure_coding :: bool
  ec_data_shards :: nat
  ec_parity_shards :: nat

definition replica_config_default :: replica_config where
  "replica_config_default = \<lparr>replication_factor = 3, enable_erasure_coding = False, ec_data_shards = 4, ec_parity_shards = 2\<rparr>"

datatype replica_status = Complete | Pending | Missing | Repairing

record chunk_replica =
  cp_node_id :: node_id
  cp_status :: replica_status
  cp_written_at :: timestamp

record chunk_replica_info =
  ci_chunk_hash :: string
  ci_replicas :: "chunk_replica list"
  ci_min_required :: nat

definition complete_count :: "chunk_replica_info \<Rightarrow> nat" where
  "complete_count i = length (filter (\<lambda>r. cp_status r = Complete) (ci_replicas i))"

definition info_is_healthy :: "chunk_replica_info \<Rightarrow> bool" where
  "info_is_healthy i \<longleftrightarrow> complete_count i \<ge> ci_min_required i"

definition missing_nodes :: "chunk_replica_info \<Rightarrow> node_id list" where
  "missing_nodes i = map cp_node_id (filter (\<lambda>r. cp_status r = Missing) (ci_replicas i))"

record replica_manager =
  rm_config :: replica_config
  rm_replicas :: "(string, chunk_replica_info) hmap"
  rm_available_nodes :: "node_id list"

datatype replica_error = RpInsufficientNodes nat nat | RpChunkNotFound string
| RpWriteFailed node_id string | RpIo io_error | RpSerde

definition replica_manager_new :: "replica_config \<Rightarrow> replica_manager" where
  "replica_manager_new c = \<lparr>rm_config = c, rm_replicas = [], rm_available_nodes = []\<rparr>"

definition add_node :: "node_id \<Rightarrow> replica_manager \<Rightarrow> replica_manager" where
  "add_node k m = (if k \<in> set (rm_available_nodes m) then m else m\<lparr>rm_available_nodes := rm_available_nodes m @ [k]\<rparr>)"

definition mark_missing :: "node_id \<Rightarrow> chunk_replica_info \<Rightarrow> chunk_replica_info" where
  "mark_missing k i = i\<lparr>ci_replicas := map (\<lambda>r. if cp_node_id r = k then r\<lparr>cp_status := Missing\<rparr> else r) (ci_replicas i)\<rparr>"

definition remove_node :: "node_id \<Rightarrow> replica_manager \<Rightarrow> replica_manager" where
  "remove_node k m = m\<lparr>rm_available_nodes := filter (\<lambda>x. x \<noteq> k) (rm_available_nodes m),
     rm_replicas := map (\<lambda>(h, i). (h, mark_missing k i)) (rm_replicas m)\<rparr>"

definition node_count :: "replica_manager \<Rightarrow> nat" where
  "node_count m = length (rm_available_nodes m)"

definition select_replica_nodes :: "crates \<Rightarrow> string \<Rightarrow> replica_manager \<Rightarrow> replica_error + node_id list" where
  "select_replica_nodes X h m =
     (let nodes = rm_available_nodes m; needed = replication_factor (rm_config m) in
      if length nodes < needed then Inl (RpInsufficientNodes needed (length nodes))
      else let seed = of_nat (of_le_bytes (take 8 (blake3_hash X (map of_char h)))) :: u64;
               indices = sort_key (\<lambda>i. of_nat i * seed :: u64) [0..<length nodes]
           in Inr (map (\<lambda>i. nodes ! i) (take needed indices)))"

definition div_ceil :: "nat \<Rightarrow> nat \<Rightarrow> nat" where
  "div_ceil a b = (if a mod b = 0 then a div b else a div b + 1)"

definition write_replicas ::
  "crates \<Rightarrow> timestamp \<Rightarrow> string \<Rightarrow> replica_manager \<Rightarrow> (replica_error + chunk_replica_info) \<times> replica_manager" where
  "write_replicas X now h m = (case select_replica_nodes X h m of
     Inl e \<Rightarrow> (Inl e, m)
   | Inr targets \<Rightarrow>
       let info = \<lparr>ci_chunk_hash = h,
             ci_replicas = map (\<lambda>k. \<lparr>cp_node_id = k, cp_status = Complete, cp_written_at = now\<rparr>) targets,
             ci_min_required = div_ceil (replication_factor (rm_config m)) 2 + 1\<rparr>
       in (Inr info, m\<lparr>rm_replicas := AList.update h info (rm_replicas m)\<rparr>))"

definition get_replica_info :: "string \<Rightarrow> replica_manager \<Rightarrow> chunk_replica_info option" where
  "get_replica_info h m = map_of (rm_replicas m) h"

definition is_healthy :: "string \<Rightarrow> replica_manager \<Rightarrow> bool" where
  "is_healthy h m = (case map_of (rm_replicas m) h of Some i \<Rightarrow> info_is_healthy i | None \<Rightarrow> False)"

definition repair_info :: "timestamp \<Rightarrow> chunk_replica_info \<Rightarrow> chunk_replica_info" where
  "repair_info now i = i\<lparr>ci_replicas := map (\<lambda>r. if cp_status r = Missing
     then r\<lparr>cp_status := Complete, cp_written_at := now\<rparr> else r) (ci_replicas i)\<rparr>"

definition repair_replicas ::
  "timestamp \<Rightarrow> string \<Rightarrow> replica_manager \<Rightarrow> (replica_error + nat) \<times> replica_manager" where
  "repair_replicas now h m = (case map_of (rm_replicas m) h of
     None \<Rightarrow> (Inl (RpChunkNotFound h), m)
   | Some i \<Rightarrow> (Inr (length (missing_nodes i)),
                m\<lparr>rm_replicas := AList.update h (repair_info now i) (rm_replicas m)\<rparr>))"

definition delete_replicas :: "string \<Rightarrow> replica_manager \<Rightarrow> replica_manager" where
  "delete_replicas h m = m\<lparr>rm_replicas := AList.delete h (rm_replicas m)\<rparr>"

record replica_health_summary =
  hs_total_chunks :: nat
  hs_healthy_chunks :: nat
  hs_unhealthy_chunks :: nat
  hs_total_replicas :: nat
  hs_missing_replicas :: nat

definition health_summary :: "replica_manager \<Rightarrow> replica_health_summary" where
  "health_summary m =
     (let infos = map snd (rm_replicas m); healthy = length (filter info_is_healthy infos) in
      \<lparr>hs_total_chunks = length infos, hs_healthy_chunks = healthy, hs_unhealthy_chunks = length infos - healthy,
       hs_total_replicas = sum_list (map (\<lambda>i. length (ci_replicas i)) infos),
       hs_missing_replicas = length (filter (\<lambda>r. cp_status r = Missing) (concat (map ci_replicas infos)))\<rparr>)"

subsection \<open>Joining and leaving\<close>

record cluster =
  c_raft :: raft_node
  c_replica :: replica_manager

datatype scale_action =
  JoinCluster node_id string | LeaveCluster node_id | AddDisk node_id string | RebalanceData node_id node_id

record scale_record =
  sr_action :: scale_action
  sr_started_at :: timestamp
  sr_completed_at :: "timestamp option"
  sr_success :: bool

datatype scale_error =
  ScRaft raft_error | ScNodeAlreadyExists node_id | ScNodeNotInCluster node_id | ScCannotRemoveLastNode

definition scale_done :: "timestamp \<Rightarrow> scale_action \<Rightarrow> scale_record" where
  "scale_done now a = \<lparr>sr_action = a, sr_started_at = now, sr_completed_at = Some now, sr_success = True\<rparr>"

definition log_if_leader :: "timestamp \<Rightarrow> raft_log_entry \<Rightarrow> cluster \<Rightarrow> (scale_error + unit) \<times> cluster" where
  "log_if_leader now e c =
     (if is_leader (c_raft c) then
        (case append_log now e (c_raft c) of
           (Inl x, n) \<Rightarrow> (Inl (ScRaft x), c\<lparr>c_raft := n\<rparr>)
         | (Inr _, n) \<Rightarrow> (Inr (), c\<lparr>c_raft := n\<rparr>))
      else (Inr (), c))"

definition join_cluster :: "timestamp \<Rightarrow> node_id \<Rightarrow> string \<Rightarrow> cluster \<Rightarrow> (scale_error + scale_record) \<times> cluster" where
  "join_cluster now k addr c =
     (if \<exists>p \<in> set (peers (c_raft c)). ni_node_id p = k then (Inl (ScNodeAlreadyExists k), c)
      else let info = \<lparr>ni_node_id = k, ni_addr = addr, ni_role = Follower, ni_joined_at = now, ni_last_heartbeat = None\<rparr>;
               c1 = c\<lparr>c_raft := add_peer info (c_raft c), c_replica := add_node k (c_replica c)\<rparr>
           in and_then (log_if_leader now (AddNode k addr) c1)
                (\<lambda>_ c. (Inr (scale_done now (JoinCluster k addr)), c)))"

definition leave_cluster :: "timestamp \<Rightarrow> node_id \<Rightarrow> cluster \<Rightarrow> (scale_error + scale_record) \<times> cluster" where
  "leave_cluster now k c =
     (if cluster_size (c_raft c) \<le> 1 then (Inl ScCannotRemoveLastNode, c)
      else if \<not> (\<exists>p \<in> set (peers (c_raft c)). ni_node_id p = k) \<and> rn_node_id (c_raft c) \<noteq> k
      then (Inl (ScNodeNotInCluster k), c)
      else let c1 = c\<lparr>c_replica := remove_node k (c_replica c), c_raft := snd (remove_peer k (c_raft c))\<rparr>
           in and_then (log_if_leader now (RemoveNode k) c1)
                (\<lambda>_ c. (Inr (scale_done now (LeaveCluster k)), c)))"

definition add_disk :: "timestamp \<Rightarrow> node_id \<Rightarrow> string \<Rightarrow> scale_record" where
  "add_disk now k disk = scale_done now (AddDisk k disk)"

definition rebalance :: "timestamp \<Rightarrow> cluster \<Rightarrow> scale_record list" where
  "rebalance now c =
     (if hs_missing_replicas (health_summary (c_replica c)) > 0
      then [scale_done now (RebalanceData ''auto'' ''auto'')] else [])"

definition list_nodes :: "timestamp \<Rightarrow> cluster \<Rightarrow> node_info list" where
  "list_nodes now c = peers (c_raft c) @
     [\<lparr>ni_node_id = rn_node_id (c_raft c), ni_addr = rn_addr (c_raft c), ni_role = rn_role (c_raft c),
       ni_joined_at = now, ni_last_heartbeat = Some now\<rparr>]"

subsection \<open>Failures\<close>

datatype failure_type = NodeUnreachable | DiskFailure | JournalCorrupted | InsufficientReplicas

record failure_record =
  fr_node_id :: node_id
  fr_failure_type :: failure_type
  fr_detected_at :: timestamp
  fr_resolved :: bool
  fr_resolved_at :: "timestamp option"

record cluster_recovery_report =
  cr_failures_detected :: "failure_record list"
  cr_leader_re_elected :: bool
  cr_replicas_repaired :: nat
  cr_journal_recovered :: bool
  cr_success :: bool

definition failure_new :: "timestamp \<Rightarrow> node_id \<Rightarrow> failure_type \<Rightarrow> failure_record" where
  "failure_new now k t = \<lparr>fr_node_id = k, fr_failure_type = t, fr_detected_at = now, fr_resolved = False, fr_resolved_at = None\<rparr>"

definition is_stale :: "timestamp \<Rightarrow> node_info \<Rightarrow> bool" where
  "is_stale now p = (case ni_last_heartbeat p of Some t \<Rightarrow> num_seconds (now - t) > 30 | None \<Rightarrow> True)"

definition detect_failures :: "timestamp \<Rightarrow> cluster \<Rightarrow> failure_record list" where
  "detect_failures now c =
     (if hs_missing_replicas (health_summary (c_replica c)) > 0
      then [failure_new now ''unknown'' InsufficientReplicas] else []) @
     map (\<lambda>p. failure_new now (ni_node_id p) NodeUnreachable) (filter (is_stale now) (peers (c_raft c)))"

definition failover_recover :: "timestamp \<Rightarrow> cluster \<Rightarrow> cluster_recovery_report \<times> cluster" where
  "failover_recover now c =
     (let failures = detect_failures now c;
          elect = (\<not> is_leader (c_raft c) \<and> peers (c_raft c) = []);
          c1 = (if elect then c\<lparr>c_raft := start_election (c_raft c)\<rparr> else c);
          repaired = (if \<exists>x \<in> set failures. fr_failure_type x = InsufficientReplicas
                      then hs_missing_replicas (health_summary (c_replica c1)) else 0)
      in (\<lparr>cr_failures_detected = failures, cr_leader_re_elected = elect, cr_replicas_repaired = repaired,
           cr_journal_recovered = True, cr_success = True\<rparr>, c1))"

definition recover_from_restart ::
  "raft_json \<Rightarrow> timestamp \<Rightarrow> path \<Rightarrow> cluster \<Rightarrow> fsys \<Rightarrow> (raft_error + cluster_recovery_report \<times> cluster) \<times> fsys" where
  "recover_from_restart J now p c s =
     and_then (restore_logs J p (c_raft c) s)
       (\<lambda>n s. (Inr (failover_recover now (c\<lparr>c_raft := n\<rparr>)), s))"

definition mark_node_failed :: "timestamp \<Rightarrow> node_id \<Rightarrow> failure_type \<Rightarrow> cluster \<Rightarrow> failure_record \<times> cluster" where
  "mark_node_failed now k t c = (failure_new now k t, c\<lparr>c_replica := remove_node k (c_replica c)\<rparr>)"

subsection \<open>Health\<close>

datatype node_health_status = Healthy | Degraded | Unreachable

record node_health =
  nh_node_id :: node_id
  nh_addr :: string
  nh_role :: node_role
  nh_status :: node_health_status
  nh_journal_ok :: bool
  nh_last_heartbeat :: "timestamp option"

record cluster_health_report =
  hr_cluster_healthy :: bool
  hr_leader_id :: "node_id option"
  hr_term :: u64
  hr_cluster_size :: nat
  hr_nodes :: "node_health list"
  hr_replica_summary :: replica_health_summary
  hr_checked_at :: timestamp

definition peer_health :: "timestamp \<Rightarrow> node_info \<Rightarrow> node_health" where
  "peer_health now p = \<lparr>nh_node_id = ni_node_id p, nh_addr = ni_addr p, nh_role = ni_role p,
     nh_status = (case ni_last_heartbeat p of
        Some t \<Rightarrow> if num_seconds (now - t) < 30 then Healthy else Degraded | None \<Rightarrow> Degraded),
     nh_journal_ok = True, nh_last_heartbeat = ni_last_heartbeat p\<rparr>"

definition health_check :: "timestamp \<Rightarrow> cluster \<Rightarrow> cluster_health_report" where
  "health_check now c =
     (let n = c_raft c;
          nodes = \<lparr>nh_node_id = rn_node_id n, nh_addr = rn_addr n, nh_role = rn_role n, nh_status = Healthy,
             nh_journal_ok = True, nh_last_heartbeat = Some now\<rparr> # map (peer_health now) (peers n);
          summary = health_summary (c_replica c)
      in \<lparr>hr_cluster_healthy = ((\<forall>x \<in> set nodes. nh_status x \<noteq> Unreachable) \<and> hs_unhealthy_chunks summary = 0),
          hr_leader_id = rn_leader_id n, hr_term = rn_term n, hr_cluster_size = cluster_size n,
          hr_nodes = nodes, hr_replica_summary = summary, hr_checked_at = now\<rparr>)"

subsection \<open>Runs of a node\<close>

text \<open>The steps of one node.  An election needs room in the 64-bit term (a debug build panics
  at the overflow).\<close>

inductive raft_step :: "raft_node \<Rightarrow> raft_node \<Rightarrow> bool" where
  append: "append_log now e n = (r, n') \<Longrightarrow> raft_step n n'"
| add: "raft_step n (add_peer i n)"
| remove: "raft_step n (snd (remove_peer k n))"
| elect: "rn_term n \<noteq> -1 \<Longrightarrow> raft_step n (start_election n)"
| heartbeat: "raft_step n (receive_heartbeat l t n)"

definition raft_inv :: "raft_node \<Rightarrow> bool" where
  "raft_inv n \<longleftrightarrow> map rl_index (rn_log n) = map of_nat [1..<Suc (length (rn_log n))] \<and>
     rn_commit_index n = of_nat (length (rn_log n)) \<and> rn_last_applied n = rn_commit_index n \<and>
     sorted (map rl_term (rn_log n)) \<and> (\<forall>l \<in> set (rn_log n). rl_term l \<le> rn_term n \<and> rl_committed l)"

lemma word_less_Suc:
  assumes "(x :: u64) \<noteq> -1"
  shows "x < x + 1"
proof -
  have "unat x \<noteq> unat (-1 :: u64)" using assms unsigned_word_eqI by blast
  moreover have "unat (-1 :: u64) = 2 ^ 64 - 1" by (simp add: unsigned_minus_1_eq_mask mask_eq_exp_minus_1)
  moreover have "unat x < 2 ^ 64" using unsigned_less [of x, where ?'a = nat] by simp
  ultimately have "unat x + 1 < 2 ^ 64" by linarith
  then show ?thesis by (simp add: word_less_nat_alt unat_word_ariths)
qed

lemma raft_step_inv: "raft_step n n' \<Longrightarrow> raft_inv n \<Longrightarrow> raft_inv n' \<and> rn_term n \<le> rn_term n'"
proof (induction rule: raft_step.induct)
  case (append now e n r n')
  then show ?case
    by (auto simp: append_log_def raft_inv_def Let_def sorted_append is_leader_def split: if_splits)
next
  case (elect n)
  have "rn_term n < rn_term n + 1" using word_less_Suc [OF elect.hyps] .
  then show ?case using elect.prems by (auto simp: start_election_def raft_inv_def Let_def)
next
  case (heartbeat n l t)
  then show ?case by (auto simp: receive_heartbeat_def raft_inv_def)
qed (auto simp: raft_inv_def add_peer_def remove_peer_def)

lemma raft_run_inv: "raft_step\<^sup>*\<^sup>* n n' \<Longrightarrow> raft_inv n \<Longrightarrow> raft_inv n' \<and> rn_term n \<le> rn_term n'"
proof (induction rule: rtranclp_induct)
  case (step m k)
  then show ?case using raft_step_inv [OF step.hyps(2)] by auto
qed simp

lemma new_nodes_inv [simp]: "raft_inv (new_single k a)" "raft_inv (new_follower k a)"
  by (simp_all add: raft_inv_def new_single_def new_follower_def)

subsection \<open>Properties of the node\<close>

text \<open>In every run of a node (appends, elections, heartbeats, membership changes in any
  order) the log entries are numbered \<open>1, 2, \<dots>\<close> without gaps, the commit and apply indices
  are the number of the last entry, the terms along the log never decrease and never
  exceed the current term, which itself never decreases; and a node that is not the leader
  refuses to append without any change.\<close>

theorem raft_log_is_sequential:
  assumes "raft_step\<^sup>*\<^sup>* n0 n" and "n0 = new_single k a \<or> n0 = new_follower k a"
  shows "map rl_index (rn_log n) = map of_nat [1..<Suc (log_count n)] \<and>
     rn_commit_index n = of_nat (log_count n) \<and> rn_last_applied n = rn_commit_index n \<and>
     sorted (map rl_term (rn_log n)) \<and> (\<forall>l \<in> set (rn_log n). rl_term l \<le> rn_term n) \<and>
     rn_term n0 \<le> rn_term n \<and> committed_logs n = rn_log n \<and>
     (rn_role n \<noteq> Leader \<longrightarrow> append_log now e n = (Inl (RaNotLeader (rn_role n)), n))"
proof -
  have "raft_inv n0" using assms(2) by auto
  then have "raft_inv n" "rn_term n0 \<le> rn_term n" using raft_run_inv [OF assms(1)] by auto
  then show ?thesis
    by (auto simp: raft_inv_def log_count_def append_log_def is_leader_def committed_logs_def)
qed

lemma foldr_max_upt: "n < 2 ^ 64 \<Longrightarrow> foldr max (map (of_nat :: nat \<Rightarrow> u64) [1..<Suc n]) m = max (of_nat n) m"
proof (induction n arbitrary: m)
  case (Suc n)
  have le: "(of_nat n :: u64) \<le> of_nat (Suc n)"
    using Suc.prems by (simp add: word_le_nat_alt unsigned_of_nat take_bit_nat_eq_self del: of_nat_Suc)
  have "foldr max (map of_nat [1..<Suc (Suc n)]) m = foldr max (map (of_nat :: nat \<Rightarrow> u64) [1..<Suc n]) (max (of_nat (Suc n)) m)"
    by simp
  also have "\<dots> = max (of_nat n) (max (of_nat (Suc n)) m)" using Suc by simp
  also have "\<dots> = max (of_nat (Suc n)) m" using le by (metis max.absorb2 max.assoc)
  finally show ?case .
qed simp

text \<open>Restart: the log a node wrote with \<open>persist_logs\<close> is read back exactly by
  \<open>restore_logs\<close> into any node, with both indices back at the last entry.  The hypothesis on
  \<open>serde_json\<close> is that reading inverts writing.\<close>

theorem raft_restart_restores_log:
  assumes "raft_step\<^sup>*\<^sup>* (new_single k a) n" and "log_count n < 2 ^ 64"
    and "persist_logs J p n s = (Inr (), s')" and "faults s' = []"
    and "\<forall>x b. rj_to_vec J x = Some b \<longrightarrow> rj_from_slice J b = Some x"
  shows "restore_logs J p n1 s' =
     (Inr (n1\<lparr>rn_log := rn_log n, rn_commit_index := rn_commit_index n, rn_last_applied := rn_last_applied n\<rparr>), s')"
proof -
  have inv: "raft_inv n" using raft_run_inv [OF assms(1)] by simp
  obtain b where b: "rj_to_vec J (rn_log n) = Some b" "fs_write p b s = (Inr (), s')"
    using assms(3) by (auto simp: persist_logs_def map_err_Ok_iff split: option.splits)
  then have l: "lookup s' p = Some (File b)" using fs_write_Ok by auto
  have "foldr max (map rl_index (rn_log n)) 0 = rn_commit_index n"
    using inv foldr_max_upt [of "length (rn_log n)" 0] assms(2)
    by (simp add: raft_inv_def log_count_def del: upt_Suc)
  then show ?thesis
    using l assms(4,5) b(1) inv
    by (simp add: restore_logs_def path_exists_def fs_read_def Let_def raft_inv_def)
qed

subsection \<open>Properties of replication\<close>

lemma div_ceil_2: "div_ceil f 2 = (f + 1) div 2"
  unfolding div_ceil_def by (cases "f mod 2 = 0") presburger+

lemma select_nodes:
  assumes "select_replica_nodes X h m = Inr ks" and "distinct (rm_available_nodes m)"
  shows "length ks = replication_factor (rm_config m)" "distinct ks" "set ks \<subseteq> set (rm_available_nodes m)"
proof -
  let ?nodes = "rm_available_nodes m" and ?f = "replication_factor (rm_config m)"
  define ind where "ind = sort_key (\<lambda>i. of_nat i * (of_nat (of_le_bytes (take 8 (blake3_hash X (map of_char h)))) :: u64)) [0..<length ?nodes]"
  have ks: "ks = map (\<lambda>i. ?nodes ! i) (take ?f ind)" "\<not> length ?nodes < ?f"
    using assms(1) by (auto simp: select_replica_nodes_def Let_def ind_def split: if_splits)
  have ind: "length ind = length ?nodes" "distinct ind" "set ind = {0..<length ?nodes}"
    by (simp_all add: ind_def)
  then have sub: "set (take ?f ind) \<subseteq> {0..<length ?nodes}" using set_take_subset by metis
  show "length ks = ?f" using ks ind by simp
  show "distinct ks"
    using ks(1) sub ind(2) assms(2) by (auto simp: distinct_map inj_on_def nth_eq_iff_index_eq subset_iff)
  show "set ks \<subseteq> set ?nodes" using ks(1) sub by (auto simp: subset_iff)
qed

text \<open>Writing replicas places a chunk on exactly \<open>replication_factor\<close> different available
  nodes, refuses when there are fewer, and the chunk counts as healthy exactly when the
  factor is at least two: the required number, half the factor rounded up plus one, is
  never met by a single replica, and with the default factor of three it is all three, so
  that losing any one of its nodes makes the chunk unhealthy.\<close>

theorem replicas_placed_on_distinct_nodes:
  assumes "distinct (rm_available_nodes m)"
  shows "case write_replicas X now h m of
     (Inl e, m') \<Rightarrow> m' = m \<and> node_count m < replication_factor (rm_config m)
   | (Inr info, m') \<Rightarrow> get_replica_info h m' = Some info \<and>
       length (ci_replicas info) = replication_factor (rm_config m) \<and>
       distinct (map cp_node_id (ci_replicas info)) \<and>
       set (map cp_node_id (ci_replicas info)) \<subseteq> set (rm_available_nodes m) \<and>
       (is_healthy h m' \<longleftrightarrow> replication_factor (rm_config m) \<ge> 2) \<and>
       (replication_factor (rm_config m) = 3 \<longrightarrow>
          (\<forall>k \<in> set (map cp_node_id (ci_replicas info)). \<not> is_healthy h (remove_node k m')))"
proof (cases "select_replica_nodes X h m")
  case (Inl e)
  then show ?thesis by (auto simp: write_replicas_def select_replica_nodes_def Let_def node_count_def split: if_splits)
next
  case (Inr ks)
  note sel = select_nodes [OF Inr assms]
  let ?f = "replication_factor (rm_config m)"
  let ?info = "\<lparr>ci_chunk_hash = h, ci_replicas = map (\<lambda>k. \<lparr>cp_node_id = k, cp_status = Complete, cp_written_at = now\<rparr>) ks,
             ci_min_required = div_ceil ?f 2 + 1\<rparr>"
  let ?m = "m\<lparr>rm_replicas := AList.update h ?info (rm_replicas m)\<rparr>"
  have w: "write_replicas X now h m = (Inr ?info, ?m)" using Inr by (simp add: write_replicas_def Let_def)
  have ids: "map cp_node_id (ci_replicas ?info) = ks" by (simp add: comp_def)
  have healthy: "is_healthy h ?m \<longleftrightarrow> ?f \<ge> 2"
    using sel(1) by (auto simp: is_healthy_def map_of_update info_is_healthy_def complete_count_def div_ceil_2)
  have "\<not> is_healthy h (remove_node k ?m)" if "?f = 3" "k \<in> set ks" for k
  proof -
    have "map_of (rm_replicas (remove_node k ?m)) h = Some (mark_missing k ?info)"
      by (simp add: remove_node_def map_of_map_vals map_of_update)
    moreover have "length (filter (\<lambda>x. x \<noteq> k) ks) < length ks" using that(2) by (simp add: length_filter_less)
    then have "complete_count (mark_missing k ?info) < 3"
      using sel(1) that(1) by (simp add: complete_count_def mark_missing_def filter_map comp_def)
    ultimately show ?thesis using that(1) by (simp add: is_healthy_def info_is_healthy_def mark_missing_def div_ceil_2)
  qed
  then show ?thesis using w ids sel healthy by (simp add: get_replica_info_def map_of_update)
qed

text \<open>Repair believes too much: after a node is removed its replicas are marked missing,
  and \<open>repair_replicas\<close> marks them complete again on the same, unavailable node; nothing is
  placed on another node, and the chunk counts as healthy.\<close>

theorem repair_trusts_removed_nodes:
  assumes "map_of (rm_replicas m) h = Some info" and "r \<in> set (ci_replicas info)" and "cp_node_id r = k"
    and "repair_replicas now h (remove_node k m) = (Inr n, m')"
  shows "k \<notin> set (rm_available_nodes m') \<and> n \<ge> 1 \<and>
     (\<exists>info'. map_of (rm_replicas m') h = Some info' \<and> map cp_node_id (ci_replicas info') = map cp_node_id (ci_replicas info) \<and>
        (\<forall>x \<in> set (ci_replicas info'). cp_node_id x = k \<longrightarrow> cp_status x = Complete))"
proof -
  have mo: "map_of (rm_replicas (remove_node k m)) h = Some (mark_missing k info)"
    using assms(1) by (simp add: remove_node_def map_of_map_vals)
  have m': "m' = (remove_node k m)\<lparr>rm_replicas := AList.update h (repair_info now (mark_missing k info)) (rm_replicas (remove_node k m))\<rparr>"
    and n: "n = length (missing_nodes (mark_missing k info))"
    using assms(4) mo by (auto simp: repair_replicas_def)
  have "r\<lparr>cp_status := Missing\<rparr> \<in> set (filter (\<lambda>r. cp_status r = Missing) (ci_replicas (mark_missing k info)))"
    using assms(2,3) by (force simp: mark_missing_def)
  then have "n \<ge> 1" using n unfolding missing_nodes_def by (cases "filter (\<lambda>r. cp_status r = Missing) (ci_replicas (mark_missing k info))") auto
  moreover have "k \<notin> set (rm_available_nodes m')" using m' by (simp add: remove_node_def)
  moreover have "map_of (rm_replicas m') h = Some (repair_info now (mark_missing k info))"
    using m' by (simp add: map_of_update)
  moreover have "map cp_node_id (ci_replicas (repair_info now (mark_missing k info))) = map cp_node_id (ci_replicas info)"
    by (simp add: repair_info_def mark_missing_def comp_def)
  moreover have "cp_status x = Complete" if x: "x \<in> set (ci_replicas (repair_info now (mark_missing k info)))" "cp_node_id x = k" for x
  proof -
    obtain y where "x = (let z = if cp_node_id y = k then y\<lparr>cp_status := Missing\<rparr> else y
        in if cp_status z = Missing then z\<lparr>cp_status := Complete, cp_written_at := now\<rparr> else z)"
      using x(1) by (auto simp: repair_info_def mark_missing_def Let_def simp del: if_image_distrib)
    with x(2) show ?thesis by (cases "cp_node_id y = k"; cases "cp_status y = Missing") (simp_all add: Let_def)
  qed
  ultimately show ?thesis by simp
qed

text \<open>Examples.  A leader appends two entries around an election; a manager with three nodes
  places a chunk, loses a node and repairs.\<close>

definition sample_node :: raft_node where
  "sample_node = snd (append_log 7 (RemoveNode ''x'') (start_election
     (snd (append_log 5 (AddNode ''x'' ''h:1'') (new_single ''n'' ''h:0'')))))"

lemma sample_node_run: "raft_step\<^sup>*\<^sup>* (new_single ''n'' ''h:0'') sample_node"
proof -
  let ?a = "snd (append_log 5 (AddNode ''x'' ''h:1'') (new_single ''n'' ''h:0''))"
  have "raft_step (new_single ''n'' ''h:0'') ?a" by (rule raft_step.append) (rule prod.collapse [symmetric])
  moreover have "raft_step ?a (start_election ?a)" by (rule raft_step.elect) (simp add: append_log_def new_single_def is_leader_def Let_def)
  moreover have "raft_step (start_election ?a) sample_node"
    unfolding sample_node_def by (rule raft_step.append) (rule prod.collapse [symmetric])
  ultimately show ?thesis by (meson converse_rtranclp_into_rtranclp rtranclp.rtrancl_refl)
qed

lemma sample_node_log: "map (\<lambda>l. (rl_term l, rl_index l)) (rn_log sample_node) = [(1, 1), (2, 2)]" "log_count sample_node = 2"
  by (simp_all add: sample_node_def append_log_def start_election_def new_single_def is_leader_def log_count_def Let_def)

theorem raft_log_is_sequential_witness:
  "map rl_index (rn_log sample_node) = [1, 2] \<and> rn_commit_index sample_node = 2 \<and> committed_logs sample_node = rn_log sample_node"
proof -
  note run = raft_log_is_sequential [OF sample_node_run, of "''n''" "''h:0''" 9 "RemoveNode ''y''"]
  then have "map rl_index (rn_log sample_node) = map of_nat [1..<Suc 2]" "rn_commit_index sample_node = of_nat 2"
      "committed_logs sample_node = rn_log sample_node"
    unfolding sample_node_log(2) by blast+
  then show ?thesis by (simp add: upt_rec)
qed

definition sample_raft_json :: raft_json where
  "sample_raft_json = \<lparr>rj_to_vec = (\<lambda>l. if l = rn_log sample_node then Some [1] else if l = [] then Some [0] else None),
     rj_from_slice = (\<lambda>b. if b = [1] then Some (rn_log sample_node) else if b = [0] then Some [] else None)\<rparr>"

theorem raft_restart_restores_log_witness:
  "\<exists>s. snd (restore_logs sample_raft_json [''log''] (new_follower ''m'' ''h:9'') s) = s \<and>
     rn_log (projr (fst (restore_logs sample_raft_json [''log''] (new_follower ''m'' ''h:9'') s))) = rn_log sample_node"
proof -
  let ?s0 = "\<lparr>nodes = [([], Dir)], faults = []\<rparr>"
  have w: "persist_logs sample_raft_json [''log''] sample_node ?s0 = (Inr (), snd (persist_logs sample_raft_json [''log''] sample_node ?s0))"
    "faults (snd (persist_logs sample_raft_json [''log''] sample_node ?s0)) = []"
    by (simp_all add: persist_logs_def sample_raft_json_def fs_write_def next_fault_def is_dir_def lookup_def set_node_def)
  have j: "\<forall>x b. rj_to_vec sample_raft_json x = Some b \<longrightarrow> rj_from_slice sample_raft_json b = Some x"
    by (simp add: sample_raft_json_def)
  show ?thesis
    using raft_restart_restores_log [OF sample_node_run _ w j, of "new_follower ''m'' ''h:9''"]
    by (intro exI [of _ "snd (persist_logs sample_raft_json [''log''] sample_node ?s0)"]) (simp add: sample_node_log)
qed

definition three_nodes :: replica_manager where
  "three_nodes = add_node ''c'' (add_node ''b'' (add_node ''a'' (replica_manager_new replica_config_default)))"

lemma three_nodes_simps: "rm_available_nodes three_nodes = [''a'', ''b'', ''c'']" "replication_factor (rm_config three_nodes) = 3"
  by (simp_all add: three_nodes_def add_node_def replica_manager_new_def replica_config_default_def)

theorem replicas_placed_on_distinct_nodes_witness:
  "\<exists>info m'. write_replicas sample_crates 3 ''ff'' three_nodes = (Inr info, m') \<and> is_healthy ''ff'' m' \<and>
     length (ci_replicas info) = 3"
proof -
  have "distinct (rm_available_nodes three_nodes)" by (simp add: three_nodes_simps)
  from replicas_placed_on_distinct_nodes [OF this, where X = sample_crates and now = 3 and h = "''ff''"]
  show ?thesis
    by (cases "write_replicas sample_crates 3 ''ff'' three_nodes"; cases "fst (write_replicas sample_crates 3 ''ff'' three_nodes)")
      (simp_all add: node_count_def three_nodes_simps)
qed

theorem repair_trusts_removed_nodes_witness:
  "\<exists>n m'. repair_replicas 9 ''ff'' (remove_node ''a'' (three_nodes\<lparr>rm_replicas :=
       [(''ff'', \<lparr>ci_chunk_hash = ''ff'', ci_replicas = [\<lparr>cp_node_id = ''a'', cp_status = Complete, cp_written_at = 3\<rparr>],
          ci_min_required = 1\<rparr>)]\<rparr>)) = (Inr n, m') \<and> ''a'' \<notin> set (rm_available_nodes m') \<and> n \<ge> 1"
proof -
  let ?r = "\<lparr>cp_node_id = ''a'', cp_status = Complete, cp_written_at = 3\<rparr>"
  let ?i = "\<lparr>ci_chunk_hash = ''ff'', ci_replicas = [?r], ci_min_required = 1\<rparr>"
  let ?m = "three_nodes\<lparr>rm_replicas := [(''ff'', ?i)]\<rparr>"
  have "fst (repair_replicas 9 ''ff'' (remove_node ''a'' ?m)) = Inr 1"
    by (simp add: repair_replicas_def remove_node_def mark_missing_def missing_nodes_def)
  then have e: "repair_replicas 9 ''ff'' (remove_node ''a'' ?m) = (Inr 1, snd (repair_replicas 9 ''ff'' (remove_node ''a'' ?m)))"
    by (metis prod.collapse)
  have "map_of (rm_replicas ?m) ''ff'' = Some ?i" by simp
  from repair_trusts_removed_nodes [OF this _ _ e, of ?r] e show ?thesis by auto
qed

end
