(* ===== verification/Badou_Journal.thy ===== *)
theory Badou_Journal
  imports FileSystem
begin

text \<open>
  The append-only journal of the storage bucket (\<open>badou-journal\<close>): the record format
  with its CRC, opening, appending with rotation, reading back, and the recovery plan.

  \<open>journal_crates\<close> holds the third-party functions: \<open>crc32fast\<close>, and the
  \<open>chrono\<close> conversions between an instant and its \<open>i64\<close> milliseconds.  File sizes
  (\<open>u64\<close>) are naturals.  The open file handle is the path its file has now: a rename moves
  it along, and the rotation re-opens it on the journal path.
\<close>

datatype journal_op_type = CommitStep | GcStep | VerifyStep | StateTransition | Recovery

fun as_u8 :: "journal_op_type \<Rightarrow> u8" where
  "as_u8 CommitStep = 1"
| "as_u8 GcStep = 2"
| "as_u8 VerifyStep = 3"
| "as_u8 StateTransition = 4"
| "as_u8 Recovery = 5"

definition from_u8 :: "u8 \<Rightarrow> journal_op_type option" where
  "from_u8 v =
     (if v = 1 then Some CommitStep
      else if v = 2 then Some GcStep
      else if v = 3 then Some VerifyStep
      else if v = 4 then Some StateTransition
      else if v = 5 then Some Recovery
      else None)"

record journal_entry =
  je_op_type :: journal_op_type
  je_timestamp :: timestamp
  je_job_id :: uuid
  je_payload :: bytes
  je_committed :: bool

definition entry_new :: "journal_op_type \<Rightarrow> uuid \<Rightarrow> bytes \<Rightarrow> timestamp \<Rightarrow> journal_entry" where
  "entry_new op job payload now =
     \<lparr>je_op_type = op, je_timestamp = now, je_job_id = job, je_payload = payload, je_committed = False\<rparr>"

definition entry_committed :: "journal_entry \<Rightarrow> journal_entry" where
  "entry_committed e = e\<lparr>je_committed := True\<rparr>"

datatype journal_error =
  JeIo io_error | JeCrc32Mismatch u32 u32 | JeInvalidType u8 | JeTruncated

record journal_crates =
  jc_crc32 :: "bytes \<Rightarrow> u32"
  jc_millis :: "timestamp \<Rightarrow> u64"
  jc_from_millis :: "u64 \<Rightarrow> timestamp option"

subsection \<open>The record format\<close>

abbreviation record_header_size :: nat where
  "record_header_size \<equiv> 29"

definition encode_body :: "journal_crates \<Rightarrow> journal_entry \<Rightarrow> bytes" where
  "encode_body C e =
     [as_u8 (je_op_type e)] @ le_bytes 8 (unat (jc_millis C (je_timestamp e))) @ je_job_id e @
     le_bytes 4 (length (je_payload e) mod 2 ^ 32) @ je_payload e @
     [if je_committed e then 1 else 0]"

definition encode_entry :: "journal_crates \<Rightarrow> journal_entry \<Rightarrow> bytes" where
  "encode_entry C e = encode_body C e @ le_bytes 4 (unat (jc_crc32 C (encode_body C e)))"

text \<open>\<open>read_exact\<close> on the bytes at the read position.\<close>

definition read_exact :: "nat \<Rightarrow> bytes \<Rightarrow> (bytes \<times> bytes) option" where
  "read_exact n bs = (if length bs < n then None else Some (take n bs, drop n bs))"

lemma read_exact_length: "read_exact n bs = Some (a, b) \<Longrightarrow> length a = n \<and> length b + n = length bs"
  by (auto simp: read_exact_def split: if_splits)

definition decode_entry ::
  "journal_crates \<Rightarrow> timestamp \<Rightarrow> bytes \<Rightarrow> journal_error + (journal_entry \<times> bytes) option" where
  "decode_entry C now bs = (case read_exact record_header_size bs of
     None \<Rightarrow> Inr None
   | Some (header, r1) \<Rightarrow>
     (case from_u8 (header ! 0) of
        None \<Rightarrow> Inl (JeInvalidType (header ! 0))
      | Some op \<Rightarrow>
        let millis = of_nat (of_le_bytes (take 8 (drop 1 header)));
            ts = (case jc_from_millis C millis of Some t \<Rightarrow> t | None \<Rightarrow> now);
            job = take 16 (drop 9 header);
            len = of_le_bytes (take 4 (drop 25 header))
        in (case read_exact len r1 of
              None \<Rightarrow> Inl JeTruncated
            | Some (payload, r2) \<Rightarrow>
              (case read_exact 1 r2 of
                 None \<Rightarrow> Inl JeTruncated
               | Some (flag, r3) \<Rightarrow>
                 (case read_exact 4 r3 of
                    None \<Rightarrow> Inl JeTruncated
                  | Some (crc, r4) \<Rightarrow>
                    let stored = of_nat (of_le_bytes crc);
                        computed = jc_crc32 C (header @ payload @ flag)
                    in if stored \<noteq> computed then Inl (JeCrc32Mismatch stored computed)
                       else Inr (Some (\<lparr>je_op_type = op, je_timestamp = ts, je_job_id = job,
                              je_payload = payload, je_committed = (flag ! 0 = 1)\<rparr>, r4)))))))"

lemma decode_entry_shorter:
  "decode_entry C now bs = Inr (Some (e, rest)) \<Longrightarrow> length rest < length bs"
  by (auto simp: decode_entry_def Let_def dest!: read_exact_length split: option.splits if_splits)

text \<open>The loop of \<open>read_from\<close>: a CRC mismatch and a truncated record end it quietly.\<close>

function read_records :: "journal_crates \<Rightarrow> timestamp \<Rightarrow> bytes \<Rightarrow> journal_error + journal_entry list" where
  "read_records C now bs = (case decode_entry C now bs of
     Inr (Some (e, rest)) \<Rightarrow>
       (case read_records C now rest of Inl x \<Rightarrow> Inl x | Inr es \<Rightarrow> Inr (e # es))
   | Inr None \<Rightarrow> Inr []
   | Inl (JeCrc32Mismatch _ _) \<Rightarrow> Inr []
   | Inl JeTruncated \<Rightarrow> Inr []
   | Inl x \<Rightarrow> Inl x)"
  by pat_completeness auto
termination
  by (relation "measure (\<lambda>(C, now, bs). length bs)") (auto dest: decode_entry_shorter)

declare read_records.simps [simp del]

subsection \<open>The journal file\<close>

record journal =
  j_path :: path
  j_handle :: path
  j_rotation_size :: nat
  j_current_size :: nat

type_synonym jst = "journal \<times> fsys"

text \<open>\<open>OpenOptions::new().create(true).append(true).read(true).open(path)\<close>.\<close>

definition open_append :: "path \<Rightarrow> fsys \<Rightarrow> (io_error + nat) \<times> fsys" where
  "open_append p s0 = (case next_fault s0 of
     (NoFault, s) \<Rightarrow>
       (case lookup s p of
          Some (File d) \<Rightarrow> (Inr (length d), s)
        | Some Dir \<Rightarrow> (Inl IoIsADirectory, s)
        | None \<Rightarrow> if is_dir s (butlast p) then (Inr 0, set_node p (File []) s)
                  else (Inl IoNotFound, s))
   | (_, s) \<Rightarrow> (Inl IoFault, s))"

definition default_rotation_size :: nat where
  "default_rotation_size = 16 * 1024 * 1024"

definition open_with_rotation :: "path \<Rightarrow> nat \<Rightarrow> fsys \<Rightarrow> (journal_error + journal) \<times> fsys" where
  "open_with_rotation p rotation_size s =
     and_then (map_err JeIo (open_append p s))
       (\<lambda>size s. (Inr \<lparr>j_path = p, j_handle = p, j_rotation_size = rotation_size, j_current_size = size\<rparr>, s))"

definition journal_open :: "path \<Rightarrow> fsys \<Rightarrow> (journal_error + journal) \<times> fsys" where
  "journal_open p s = open_with_rotation p default_rotation_size s"

text \<open>The archive name ends in the decimal rendering of the clock in seconds, the argument
  \<open>stamp\<close>.\<close>

definition archive_path :: "path \<Rightarrow> string \<Rightarrow> path" where
  "archive_path p stamp = butlast p @ [last p @ ''.archive.'' @ stamp]"

definition rotate_locked :: "string \<Rightarrow> jst \<Rightarrow> (journal_error + unit) \<times> jst" where
  "rotate_locked stamp = (\<lambda>(j, s).
     case fs_rename (j_path j) (archive_path (j_path j) stamp) s of
       (Inl e, s) \<Rightarrow> (Inl (JeIo e), (j, s))
     | (Inr _, s) \<Rightarrow>
         let j = (if j_handle j = j_path j then j\<lparr>j_handle := archive_path (j_path j) stamp\<rparr> else j) in
         (case open_append (j_path j) s of
            (Inl e, s) \<Rightarrow> (Inl (JeIo e), (j, s))
          | (Inr _, s) \<Rightarrow> (Inr (), (j\<lparr>j_handle := j_path j, j_current_size := 0\<rparr>, s))))"

definition journal_append ::
  "journal_crates \<Rightarrow> string \<Rightarrow> journal_entry \<Rightarrow> jst \<Rightarrow> (journal_error + nat) \<times> jst" where
  "journal_append C stamp e = (\<lambda>(j, s).
     let encoded = encode_entry C e in
     and_then (if j_current_size j + length encoded > j_rotation_size j
               then rotate_locked stamp (j, s) else (Inr (), (j, s)))
       (\<lambda>_ (j, s).
          case fs_append (j_handle j) encoded s of
            (Inl x, s) \<Rightarrow> (Inl (JeIo x), (j, s))
          | (Inr _, s) \<Rightarrow>
              (Inr (j_current_size j), (j\<lparr>j_current_size := j_current_size j + length encoded\<rparr>, s))))"

definition read_from ::
  "journal_crates \<Rightarrow> timestamp \<Rightarrow> nat \<Rightarrow> jst \<Rightarrow> (journal_error + journal_entry list) \<times> jst" where
  "read_from C now offset = (\<lambda>(j, s). case fs_read (j_handle j) s of
     (Inl x, s) \<Rightarrow> (Inl (JeIo x), (j, s))
   | (Inr data, s) \<Rightarrow> (read_records C now (drop offset data), (j, s)))"

definition read_all ::
  "journal_crates \<Rightarrow> timestamp \<Rightarrow> jst \<Rightarrow> (journal_error + journal_entry list) \<times> jst" where
  "read_all C now st = read_from C now 0 st"

definition current_size :: "journal \<Rightarrow> nat" where
  "current_size j = j_current_size j"

subsection \<open>Recovery planning\<close>

record uncompleted_op =
  uo_job_id :: uuid
  uo_op_type :: journal_op_type
  uo_payload :: bytes

datatype recovery_action =
  CleanStaging | RerunGc | MarkVerifyIncomplete | ContinueStateTransition | Skip

definition scan_uncompleted :: "journal_entry list \<Rightarrow> uncompleted_op list" where
  "scan_uncompleted entries =
     map (\<lambda>e. \<lparr>uo_job_id = je_job_id e, uo_op_type = je_op_type e, uo_payload = je_payload e\<rparr>)
       (filter (\<lambda>e. \<not> je_committed e) entries)"

definition classify_recovery :: "uncompleted_op \<Rightarrow> recovery_action" where
  "classify_recovery op = (case uo_op_type op of
     CommitStep \<Rightarrow> CleanStaging
   | GcStep \<Rightarrow> RerunGc
   | VerifyStep \<Rightarrow> MarkVerifyIncomplete
   | StateTransition \<Rightarrow> ContinueStateTransition
   | Recovery \<Rightarrow> Skip)"

definition plan_recovery :: "journal_entry list \<Rightarrow> (uncompleted_op \<times> recovery_action) list" where
  "plan_recovery entries = map (\<lambda>op. (op, classify_recovery op)) (scan_uncompleted entries)"

subsection \<open>One record\<close>

lemma from_as_u8 [simp]: "from_u8 (as_u8 op) = Some op"
  by (cases op) (simp_all add: from_u8_def)

text \<open>An entry the format represents exactly: a 16-byte identifier, a payload whose length fits
  the 32-bit field, and an instant with millisecond precision.\<close>

definition entry_ok :: "journal_crates \<Rightarrow> journal_entry \<Rightarrow> bool" where
  "entry_ok C e \<longleftrightarrow> length (je_job_id e) = 16 \<and> length (je_payload e) < 2 ^ 32 \<and>
     jc_from_millis C (jc_millis C (je_timestamp e)) = Some (je_timestamp e)"

definition header_of :: "journal_crates \<Rightarrow> journal_entry \<Rightarrow> bytes" where
  "header_of C e = [as_u8 (je_op_type e)] @ le_bytes 8 (unat (jc_millis C (je_timestamp e))) @
     je_job_id e @ le_bytes 4 (length (je_payload e) mod 2 ^ 32)"

lemma encode_entry_split:
  "encode_entry C e = header_of C e @ je_payload e @ [if je_committed e then 1 else 0] @
     le_bytes 4 (unat (jc_crc32 C (encode_body C e)))"
  by (simp add: encode_entry_def encode_body_def header_of_def)

lemma length_header [simp]: "length (je_job_id e) = 16 \<Longrightarrow> length (header_of C e) = 29"
  by (simp add: header_of_def)

lemma header_fields:
  assumes "length (je_job_id e) = 16" and "length (je_payload e) < 2 ^ 32"
  shows "header_of C e ! 0 = as_u8 (je_op_type e)"
    and "of_le_bytes (take 8 (drop 1 (header_of C e))) = unat (jc_millis C (je_timestamp e))"
    and "take 16 (drop 9 (header_of C e)) = je_job_id e"
    and "of_le_bytes (take 4 (drop 25 (header_of C e))) = length (je_payload e)"
proof -
  show "header_of C e ! 0 = as_u8 (je_op_type e)" by (simp add: header_of_def)
  have "unat (jc_millis C (je_timestamp e)) < 256 ^ 8"
    using unsigned_less [of "jc_millis C (je_timestamp e)", where ?'a = nat] by simp
  then show "of_le_bytes (take 8 (drop 1 (header_of C e))) = unat (jc_millis C (je_timestamp e))"
    by (simp add: header_of_def del: le_bytes.simps)
  show "take 16 (drop 9 (header_of C e)) = je_job_id e"
    using assms(1) by (simp add: header_of_def)
  have "take 4 (drop 25 (header_of C e)) = le_bytes 4 (length (je_payload e))"
    using assms by (simp add: header_of_def del: le_bytes.simps)
  then show "of_le_bytes (take 4 (drop 25 (header_of C e))) = length (je_payload e)"
    using assms(2) by (simp del: le_bytes.simps)
qed

lemma decode_encode:
  assumes "entry_ok C e"
  shows "decode_entry C now (encode_entry C e @ rest) = Inr (Some (e, rest))"
proof -
  have l: "length (je_job_id e) = 16" "length (je_payload e) < 2 ^ 32"
    "jc_from_millis C (jc_millis C (je_timestamp e)) = Some (je_timestamp e)"
    using assms by (auto simp: entry_ok_def)
  have crc: "of_nat (of_le_bytes (le_bytes 4 (unat (x :: u32)))) = x" for x
  proof -
    have "unat x < 256 ^ 4" using unsigned_less [of x, where ?'a = nat] by simp
    then show ?thesis by (simp del: le_bytes.simps)
  qed
  have body: "header_of C e @ je_payload e @ [if je_committed e then 1 else 0] = encode_body C e"
    by (simp add: encode_body_def header_of_def)
  show ?thesis
    unfolding encode_entry_split decode_entry_def read_exact_def
    using header_fields [OF l(1,2), of C] l body crc
    by (simp add: Let_def del: le_bytes.simps)
qed

lemma strict_prefix_cases:
  assumes "strict_prefix p (a @ b)"
  obtains (left) "strict_prefix p a" | (right) q where "p = a @ q" "strict_prefix q b"
  using assms by (cases "p = a") (auto simp: strict_prefix_def prefix_append)

lemma decode_torn:
  assumes "entry_ok C e" and "strict_prefix p (encode_entry C e)"
  shows "decode_entry C now p \<in> {Inr None, Inl JeTruncated}"
proof -
  have l: "length (je_job_id e) = 16" "length (je_payload e) < 2 ^ 32"
    using assms by (auto simp: entry_ok_def)
  let ?body = "je_payload e @ [if je_committed e then 1 else 0] @
     le_bytes 4 (unat (jc_crc32 C (encode_body C e)))"
  from assms(2) have "strict_prefix p (header_of C e @ ?body)" by (simp add: encode_entry_split)
  then show ?thesis
  proof (cases rule: strict_prefix_cases)
    case left
    then have "length p < 29" using prefix_length_less [OF left] l(1) by simp
    then show ?thesis by (simp add: decode_entry_def read_exact_def)
  next
    case (right q)
    then have "length q < length (je_payload e) + 5" using prefix_length_less [OF right(2)] by simp
    then show ?thesis
      using header_fields [OF l, of C] l right(1)
      by (auto simp: decode_entry_def read_exact_def Let_def)
  qed
qed

subsection \<open>Logs of records\<close>

definition log_of :: "journal_crates \<Rightarrow> journal_entry list \<Rightarrow> bytes" where
  "log_of C es = concat (map (encode_entry C) es)"

definition read_log :: "journal_crates \<Rightarrow> timestamp \<Rightarrow> bytes \<Rightarrow> journal_entry list option" where
  "read_log C now bs = (case read_records C now bs of Inr es \<Rightarrow> Some es | Inl _ \<Rightarrow> None)"

lemma read_log_Some: "read_log C now bs = Some es \<longleftrightarrow> read_records C now bs = Inr es"
  by (simp add: read_log_def split: sum.splits)

interpretation wal: record_log "encode_entry C" "read_log C now" "entry_ok C" for C now
proof unfold_locales
  show "read_log C now [] = Some []"
    by (simp add: read_log_def read_records.simps [of C now "[]"] decode_entry_def read_exact_def)
  fix r rest p
  assume ok: "entry_ok C r"
  then show "read_log C now (encode_entry C r @ rest) = map_option ((#) r) (read_log C now rest)"
    by (simp add: read_log_def read_records.simps [of C now "encode_entry C r @ rest"] decode_encode
        split: sum.splits)
  assume "strict_prefix p (encode_entry C r)"
  then show "read_log C now p = Some []"
    using decode_torn [OF ok, of p now] by (auto simp: read_log_def read_records.simps [of C now p])
qed

text \<open>An entry as \<open>BadouJournalEntry::new\<close> makes it may carry nanoseconds: the format keeps the milliseconds.  It
  fits the format when, besides the sizes, the milliseconds of its time denote an instant with these
  milliseconds, as those of \<open>chrono\<close> do; it is read back as \<open>as_stored\<close>, with its time cut off.\<close>

definition as_stored :: "journal_crates \<Rightarrow> journal_entry \<Rightarrow> journal_entry" where
  "as_stored C e = e\<lparr>je_timestamp := (case jc_from_millis C (jc_millis C (je_timestamp e)) of Some t \<Rightarrow> t | None \<Rightarrow> je_timestamp e)\<rparr>"

definition entry_fits :: "journal_crates \<Rightarrow> journal_entry \<Rightarrow> bool" where
  "entry_fits C e \<longleftrightarrow> length (je_job_id e) = 16 \<and> length (je_payload e) < 2 ^ 32 \<and>
     (\<exists>t. jc_from_millis C (jc_millis C (je_timestamp e)) = Some t \<and> jc_millis C t = jc_millis C (je_timestamp e))"

lemma as_stored_ok: "entry_fits C e \<Longrightarrow> entry_ok C (as_stored C e)"
  by (auto simp: entry_fits_def entry_ok_def as_stored_def)

lemma encode_stored: "entry_fits C e \<Longrightarrow> encode_entry C (as_stored C e) = encode_entry C e"
  by (auto simp: entry_fits_def as_stored_def encode_entry_def encode_body_def)

lemma journal_append_stored: "entry_fits C e \<Longrightarrow> journal_append C stamp (as_stored C e) st = journal_append C stamp e st"
  by (simp add: journal_append_def encode_stored)

text \<open>The journal holds exactly the records \<open>es\<close>.\<close>

definition journal_log :: "journal_crates \<Rightarrow> journal_entry list \<Rightarrow> jst \<Rightarrow> bool" where
  "journal_log C es = (\<lambda>(j, s). j_handle j = j_path j \<and>
     lookup s (j_path j) = Some (File (log_of C es)) \<and> j_current_size j = length (log_of C es) \<and>
     (\<forall>e \<in> set es. entry_ok C e))"

definition needs_rotation :: "journal_crates \<Rightarrow> journal \<Rightarrow> journal_entry \<Rightarrow> bool" where
  "needs_rotation C j e \<longleftrightarrow> j_current_size j + length (encode_entry C e) > j_rotation_size j"

lemma archive_path_neq [simp]: "archive_path p stamp \<noteq> p" "p \<noteq> archive_path p stamp"
proof -
  show "archive_path p stamp \<noteq> p"
  proof
    assume "archive_path p stamp = p"
    then have "last (archive_path p stamp) = last p" by simp
    then show False by (simp add: archive_path_def)
  qed
  then show "p \<noteq> archive_path p stamp" by metis
qed

lemma open_append_Ok:
  "open_append p s = (Inr n, t) \<Longrightarrow> lookup s p = None \<Longrightarrow> lookup t = (lookup s)(p \<mapsto> File []) \<and> n = 0"
  by (auto simp: open_append_def split: prod.splits fault.splits if_splits option.splits node.splits
      dest: next_fault_lookup)

lemma open_append_Err: "open_append p s = (Inl e, t) \<Longrightarrow> lookup t = lookup s"
  by (auto simp: open_append_def split: prod.splits fault.splits if_splits option.splits node.splits
      dest: next_fault_lookup)

text \<open>Rotation moves the whole log to the archive, on every path.\<close>

lemma rotate_cases:
  assumes "journal_log C es (j, s)" and "rotate_locked stamp (j, s) = (r, (j', s'))"
  shows "(r = Inr () \<and> journal_log C [] (j', s') \<and> j_path j' = j_path j \<and> j_rotation_size j' = j_rotation_size j
            \<and> lookup s' (archive_path (j_path j) stamp) = Some (File (log_of C es)))
       \<or> (r \<noteq> Inr () \<and> (lookup s' (j_path j) = Some (File (log_of C es))
            \<or> lookup s' (archive_path (j_path j) stamp) = Some (File (log_of C es))))"
  using assms
  by (fastforce simp: rotate_locked_def journal_log_def log_of_def Let_def
      split: prod.splits sum.splits dest!: fs_rename_Ok fs_rename_Err dest: open_append_Ok open_append_Err)

lemma append_cases:
  assumes "journal_log C es (j, s)" and "entry_ok C e"
    and "fs_append (j_handle j) (encode_entry C e) s = (r, s')"
  shows "\<exists>n. lookup s' = (lookup s)(j_path j \<mapsto> File (log_of C es @ take n (encode_entry C e)))
     \<and> (r = Inr () \<longrightarrow> n = length (encode_entry C e))"
  using assms fs_append_cases [OF assms(3), of "log_of C es"] by (auto simp: journal_log_def)

lemma log_of_snoc [simp]: "log_of C (es @ [e]) = log_of C es @ encode_entry C e"
  by (simp add: log_of_def)

lemma log_of_Nil [simp]: "log_of C [] = []"
  by (simp add: log_of_def)

subsection \<open>Properties\<close>

text \<open>A successful append keeps \<open>journal_log\<close>.\<close>

lemma journal_append_lemma:
  assumes "journal_log C es (j, s)" and "entry_ok C e"
    and "journal_append C stamp e (j, s) = (Inr off, (j', s'))"
  shows "if needs_rotation C j e
         then off = 0 \<and> journal_log C [e] (j', s') \<and>
              lookup s' (archive_path (j_path j) stamp) = Some (File (log_of C es))
         else off = length (log_of C es) \<and> journal_log C (es @ [e]) (j', s')"
proof (cases "needs_rotation C j e")
  case True
  with assms(3) obtain j1 s1 where rot: "rotate_locked stamp (j, s) = (Inr (), (j1, s1))"
    by (auto simp: journal_append_def needs_rotation_def Let_def and_then_Ok_iff)
  have l: "journal_log C [] (j1, s1)" "j_path j1 = j_path j"
    "lookup s1 (archive_path (j_path j) stamp) = Some (File (log_of C es))"
    using rotate_cases [OF assms(1) rot] by auto
  obtain s2 where a: "fs_append (j_handle j1) (encode_entry C e) s1 = (Inr (), s2)"
    and o: "off = j_current_size j1" "s' = s2"
      "j' = j1\<lparr>j_current_size := j_current_size j1 + length (encode_entry C e)\<rparr>"
    using assms(3) rot True
    by (auto simp: journal_append_def needs_rotation_def Let_def and_then_Ok_iff split: prod.splits sum.splits)
  from append_cases [OF l(1) assms(2) a]
  have "lookup s2 = (lookup s1)(j_path j1 \<mapsto> File (encode_entry C e))" by auto
  then show ?thesis using True l o assms(2) by (auto simp: journal_log_def log_of_def)
next
  case False
  then obtain s2 where a: "fs_append (j_handle j) (encode_entry C e) s = (Inr (), s2)"
    and o: "off = j_current_size j" "s' = s2"
      "j' = j\<lparr>j_current_size := j_current_size j + length (encode_entry C e)\<rparr>"
    using assms(3)
    by (auto simp: journal_append_def needs_rotation_def Let_def split: prod.splits sum.splits)
  from append_cases [OF assms(1,2) a]
  have "lookup s2 = (lookup s)(j_path j \<mapsto> File (log_of C es @ encode_entry C e))" by auto
  then show ?thesis using False o assms(1,2) by (auto simp: journal_log_def)
qed

text \<open>What a torn tail does to reading.\<close>

lemma read_log_torn:
  assumes "\<forall>x \<in> set es. entry_ok C x" and "entry_ok C e"
  shows "\<exists>k \<ge> length es. read_records C now (log_of C es @ take n (encode_entry C e)) = Inr (take k (es @ [e]))"
proof -
  have "prefix (take n (encode_entry C e)) (concat (map (encode_entry C) [e]))"
    by (simp add: take_is_prefix)
  then obtain k where "read_log C now (take n (encode_entry C e)) = Some (take k [e])"
    using wal.rd_prefix [where C = C and now = now and rs = "[e]"] assms(2) by force
  then have "read_log C now (log_of C es @ take n (encode_entry C e)) = Some (take (length es + k) (es @ [e]))"
    using wal.rd_append [OF assms(1), where now = now] by (simp add: log_of_def)
  then show ?thesis by (metis read_log_Some le_add1)
qed

lemma append_keeps_records:
  assumes "journal_log C es (j, s)" and "entry_ok C e"
    and "journal_append C stamp e (j, s) = (r, (j', s'))"
  shows "\<exists>f d k. f \<in> {j_path j, archive_path (j_path j) stamp} \<and> lookup s' f = Some (File d) \<and>
           length es \<le> k \<and> read_records C now d = Inr (take k (es @ [e]))"
proof -
  have ok: "\<forall>x \<in> set es. entry_ok C x" using assms(1) by (simp add: journal_log_def)
  have kept: ?thesis if "f \<in> {j_path j, archive_path (j_path j) stamp}"
    "lookup s' f = Some (File (log_of C es @ take n (encode_entry C e)))" for f n
    using that read_log_torn [OF ok assms(2), of now n] by blast
  show ?thesis
  proof (cases "needs_rotation C j e")
    case True
    obtain r1 j1 s1 where rot: "rotate_locked stamp (j, s) = (r1, (j1, s1))" by (metis prod_cases3)
    show ?thesis
    proof (cases "r1 = Inr ()")
      case ok1: True
      have l: "journal_log C [] (j1, s1)" "j_path j1 = j_path j"
        "lookup s1 (archive_path (j_path j) stamp) = Some (File (log_of C es))"
        using rotate_cases [OF assms(1) rot] ok1 by auto
      obtain r2 s2 where a: "fs_append (j_handle j1) (encode_entry C e) s1 = (r2, s2)" by (metis prod.exhaust)
      have "s' = s2" using assms(3) rot ok1 True a
        by (auto simp: journal_append_def needs_rotation_def Let_def and_then_def split: sum.splits)
      with append_cases [OF l(1) assms(2) a] l(2,3)
      have "lookup s' (archive_path (j_path j) stamp) = Some (File (log_of C es))" by auto
      then show ?thesis using kept [of "archive_path (j_path j) stamp" 0] by simp
    next
      case False
      then have "s' = s1" using assms(3) rot True
        by (auto simp: journal_append_def needs_rotation_def Let_def and_then_def split: sum.splits)
      then show ?thesis using rotate_cases [OF assms(1) rot] False kept [of _ 0] by auto
    qed
  next
    case False
    obtain r2 s2 where a: "fs_append (j_handle j) (encode_entry C e) s = (r2, s2)" by (metis prod.exhaust)
    have "s' = s2" using assms(3) a False
      by (auto simp: journal_append_def needs_rotation_def Let_def split: sum.splits)
    from append_cases [OF assms(1,2) a] obtain n where
      "lookup s2 = (lookup s)(j_path j \<mapsto> File (log_of C es @ take n (encode_entry C e)))" by blast
    with \<open>s' = s2\<close> have "lookup s' (j_path j) = Some (File (log_of C es @ take n (encode_entry C e)))"
      by simp
    then show ?thesis using kept [of "j_path j" n] by simp
  qed
qed

text \<open>(C25) Take a journal whose current file is intact: it holds the records \<open>es\<close>, which the format represents
  exactly.  Whatever fault hits an append (none, a refused call, a write torn at any byte, a failing
  rotation), afterwards reading the current file or the archive this append may have made returns all of
  \<open>es\<close>, in order, with at most the new record behind them, its time cut to milliseconds.  Records of
  earlier archives are not covered: a rotation within the same second replaces the archive
  (\<open>rotation_in_same_second_drops_archive\<close>), nor are records behind a torn tail
  (\<open>append_after_torn_byte_is_lost\<close>).\<close>

theorem journal_append_never_loses_records:
  assumes "journal_log C es (j, s)" and "entry_fits C e"
    and "journal_append C stamp e (j, s) = (r, (j', s'))"
  shows "\<exists>f d k. f \<in> {j_path j, archive_path (j_path j) stamp} \<and> lookup s' f = Some (File d) \<and>
           length es \<le> k \<and> read_records C now d = Inr (take k (es @ [as_stored C e]))"
  using append_keeps_records [OF assms(1) as_stored_ok [OF assms(2)]] assms(3) journal_append_stored [OF assms(2)] by simp

text \<open>The recovery plan of a journal is the sequence of its uncommitted entries, in order,
  each with the action of its kind; a journal whose entries are all committed needs no
  recovery, and reading the plan from disk is exact.\<close>

theorem recovery_plan_from_disk:
  assumes "journal_log C es (j, s)" and "read_all C now (j, s) = (Inr got, st)"
  shows "got = es \<and> map fst (plan_recovery got) = scan_uncompleted es \<and>
     (plan_recovery got = [] \<longleftrightarrow> (\<forall>e \<in> set es. je_committed e)) \<and>
     (\<forall>(op, a) \<in> set (plan_recovery got). \<exists>e \<in> set es. \<not> je_committed e \<and>
        uo_job_id op = je_job_id e \<and> uo_payload op = je_payload e \<and>
        (a = CleanStaging \<longleftrightarrow> je_op_type e = CommitStep))"
proof -
  have ok: "\<forall>x \<in> set es. entry_ok C x" using assms(1) by (simp add: journal_log_def)
  have "read_records C now (log_of C es) = Inr got"
    using assms by (auto simp: read_all_def read_from_def journal_log_def split: prod.splits sum.splits
        dest!: fs_read_Ok)
  then have "got = es"
    using wal.rd_log [OF ok, of now] by (simp add: read_log_def log_of_def)
  then show ?thesis
    by (auto simp: plan_recovery_def scan_uncompleted_def classify_recovery_def comp_def filter_empty_conv
        split: journal_op_type.splits)
qed

subsection \<open>Two ways the journal loses acknowledged records\<close>

text \<open>The archive name has a resolution of one second: a second rotation within it replaces the
  first archive, and the records in it are gone.\<close>

lemma rotation_in_same_second_drops_archive:
  assumes "journal_log C es (j, s)" and "entry_ok C e1" and "entry_ok C e2"
    and "journal_append C stamp e1 (j, s) = (Inr o1, (j1, s1))" and "needs_rotation C j e1"
    and "journal_append C stamp e2 (j1, s1) = (Inr o2, (j2, s2))" and "needs_rotation C j1 e2"
    and "j_path j1 = j_path j"
  shows "lookup s1 (archive_path (j_path j) stamp) = Some (File (log_of C es)) \<and>
     lookup s2 (archive_path (j_path j) stamp) = Some (File (log_of C [e1])) \<and>
     journal_log C [e2] (j2, s2)"
proof -
  have first: "journal_log C [e1] (j1, s1)"
    "lookup s1 (archive_path (j_path j) stamp) = Some (File (log_of C es))"
    using journal_append_lemma [OF assms(1,2,4)] assms(5) by auto
  show ?thesis using first journal_append_lemma [OF first(1) assms(3,6)] assms(7,8) by auto
qed

text \<open>Opening does not cut a torn tail.  One stray byte of an interrupted append makes every
  record written after it unreadable, although the append answers success.\<close>

lemma take_le_bytes: "take m (le_bytes n x) = le_bytes (min m n) x"
proof (induction n arbitrary: m x)
  case (Suc n)
  then show ?case by (cases m) simp_all
qed simp

lemma stray_byte_hides_record:
  assumes "entry_ok C e" and "je_payload e \<noteq> []" and "length (je_payload e) < 2 ^ 24"
  shows "read_records C now (as_u8 op # encode_entry C e) = Inr []"
proof -
  let ?L = "length (je_payload e)" and ?bs = "as_u8 op # encode_entry C e"
  have l: "length (je_job_id e) = 16" "?L < 2 ^ 32" using assms by (auto simp: entry_ok_def)
  have "take 4 (drop 25 (take 29 ?bs)) = drop 15 (je_job_id e) @ take 3 (le_bytes 4 ?L)"
    using l by (simp add: encode_entry_split header_of_def take_Cons' drop_Cons' del: le_bytes.simps)
  moreover have "take 3 (le_bytes 4 ?L) = le_bytes 3 ?L"
    by (simp add: take_le_bytes del: le_bytes.simps)
  moreover have "length (drop 15 (je_job_id e)) = 1" using l(1) by simp
  then obtain b where "drop 15 (je_job_id e) = [b]"
    by (cases "drop 15 (je_job_id e)") (simp_all del: length_drop)
  ultimately have "of_le_bytes (take 4 (drop 25 (take 29 ?bs))) = unat b + 256 * ?L"
    using assms(3) by (simp del: le_bytes.simps)
  moreover have "length ?bs = ?L + 35" using l by (simp add: encode_entry_split del: le_bytes.simps)
  ultimately have "decode_entry C now ?bs = Inl JeTruncated"
    using assms(2) by (cases "je_payload e") (simp_all add: decode_entry_def read_exact_def Let_def del: le_bytes.simps)
  then show ?thesis by (simp add: read_records.simps [of C now ?bs])
qed

subsection \<open>Appending and reading back\<close>

lemma read_all_log:
  assumes "journal_log C es (j, s)" and "faults s = []"
  shows "read_all C now (j, s) = (Inr es, (j, s))"
proof -
  have "read_records C now (log_of C es) = Inr es"
    using wal.rd_log [of es C now] assms(1) by (simp add: journal_log_def read_log_Some log_of_def)
  then show ?thesis
    using assms by (simp add: read_all_def read_from_def fs_read_def journal_log_def)
qed

lemma append_then_read:
  assumes "journal_log C es (j, s)" and "entry_ok C e"
    and "journal_append C stamp e (j, s) = (Inr off, (j', s'))" and "faults s' = []"
  shows "read_all C now (j', s') = (Inr (if needs_rotation C j e then [e] else es @ [e]), (j', s')) \<and>
     (needs_rotation C j e \<longrightarrow> lookup s' (archive_path (j_path j) stamp) = Some (File (log_of C es))) \<and>
     current_size j' = off + length (encode_entry C e) \<and>
     read_from C now off (j', s') = (Inr [e], (j', s'))"
proof -
  let ?pre = "if needs_rotation C j e then [] else es"
  have log: "journal_log C (?pre @ [e]) (j', s')" and off: "off = length (log_of C ?pre)"
    using journal_append_lemma [OF assms(1-3)] by (auto split: if_splits)
  have "read_records C now (encode_entry C e) = Inr [e]"
    using wal.rd_log [of "[e]" C now] assms(2) by (simp add: read_log_Some)
  then have "read_from C now off (j', s') = (Inr [e], (j', s'))"
    using log off assms(4) unfolding log_of_snoc journal_log_def
    by (simp add: read_from_def fs_read_def)
  then show ?thesis
    using read_all_log [OF log assms(4), of now] journal_append_lemma [OF assms(1-3)] log off
    by (auto simp: current_size_def journal_log_def split: if_splits)
qed


text \<open>Opening a journal does not cut a torn tail: once an interrupted append has left one byte
  behind, the next append answers success, but no later read returns its record.\<close>

theorem append_after_torn_byte_is_lost:
  assumes "lookup s (j_handle j) = Some (File (log_of C es @ [as_u8 op]))"
    and "\<forall>x \<in> set es. entry_ok C x" and "entry_ok C e"
    and "je_payload e \<noteq> []" and "length (je_payload e) < 2 ^ 24"
    and "\<not> needs_rotation C j e"
    and "journal_append C stamp e (j, s) = (Inr off, (j', s'))"
    and "read_all C now (j', s') = (Inr got, st)"
  shows "got = es"
proof -
  have a: "fs_append (j_handle j) (encode_entry C e) s = (Inr (), s')" "j_handle j' = j_handle j"
    using assms(6,7)
    by (auto simp: journal_append_def needs_rotation_def Let_def split: prod.splits sum.splits)
  have "lookup s' (j_handle j) = Some (File (log_of C es @ as_u8 op # encode_entry C e))"
    using fs_append_Ok [OF a(1)] assms(1) by auto
  then have "read_records C now (log_of C es @ as_u8 op # encode_entry C e) = Inr got"
    using assms(8) a(2)
    by (auto simp: read_all_def read_from_def split: prod.splits sum.splits dest!: fs_read_Ok)
  moreover have "read_log C now (log_of C es @ as_u8 op # encode_entry C e) = Some es"
    using wal.rd_append [OF assms(2), where now = now] stray_byte_hides_record [OF assms(3-5)]
    by (simp add: log_of_def read_log_def)
  ultimately show ?thesis by (simp add: read_log_def)
qed

subsection \<open>Witnesses\<close>

definition sample_jc :: journal_crates where
  "sample_jc = \<lparr>jc_crc32 = (\<lambda>b. of_nat (length b)), jc_millis = of_int, jc_from_millis = (\<lambda>m. Some (uint m))\<rparr>"

definition sample_entry :: "journal_op_type \<Rightarrow> journal_entry" where
  "sample_entry op = entry_new op (replicate 16 9) [5] 7"

definition sample_journal :: "nat \<Rightarrow> journal" where
  "sample_journal n = \<lparr>j_path = [''j''], j_handle = [''j''], j_rotation_size = 100, j_current_size = n\<rparr>"

definition sample_jfs :: "bytes \<Rightarrow> fault list \<Rightarrow> fsys" where
  "sample_jfs d fs = \<lparr>nodes = [([''j''], File d)], faults = fs\<rparr>"

text \<open>Nanosecond clocks: an entry made at 7 ms and 123 ns is read back with the time 7 ms.\<close>

definition nano_jc :: journal_crates where
  "nano_jc = \<lparr>jc_crc32 = (\<lambda>b. of_nat (length b)), jc_millis = (\<lambda>t. of_int (t div 1000000)),
     jc_from_millis = (\<lambda>m. Some (uint m * 1000000))\<rparr>"

definition nano_entry :: "journal_op_type \<Rightarrow> int \<Rightarrow> journal_entry" where
  "nano_entry op ns = entry_new op (replicate 16 9) [5] (7000000 + ns)"

lemma nano_entry_facts:
  "entry_fits nano_jc (nano_entry op 123)" "as_stored nano_jc (nano_entry op 123) = nano_entry op 0"
  "entry_ok nano_jc (nano_entry op 0)" "length (encode_entry nano_jc (nano_entry op 0)) = 35"
  "length (encode_entry nano_jc (nano_entry op 123)) = 35"
  by (simp_all add: entry_fits_def as_stored_def entry_ok_def nano_jc_def nano_entry_def entry_new_def encode_entry_split)

lemma nano_journal_log:
  "journal_log nano_jc [nano_entry op 0] (sample_journal 35, sample_jfs (encode_entry nano_jc (nano_entry op 0)) fs)"
  by (simp add: journal_log_def sample_journal_def sample_jfs_def lookup_def log_of_def nano_entry_facts)

lemma sample_entry_ok [simp]: "entry_ok sample_jc (sample_entry op)"
  by (simp add: entry_ok_def sample_jc_def sample_entry_def entry_new_def)

lemma sample_encoding_length [simp]: "length (encode_entry sample_jc (sample_entry op)) = 35"
  by (simp add: encode_entry_split sample_entry_def entry_new_def)

lemma sample_journal_log:
  "journal_log sample_jc [sample_entry op]
     (sample_journal 35, sample_jfs (encode_entry sample_jc (sample_entry op)) fs)"
  by (simp add: journal_log_def sample_journal_def sample_jfs_def lookup_def log_of_def)

lemmas sample_append_simps = journal_append_def sample_journal_def sample_jfs_def fs_append_def
  next_fault_def lookup_def set_node_def needs_rotation_def Let_def

theorem journal_append_never_loses_records_witness:
  "\<exists>r j' s' f d k. journal_append nano_jc ''0'' (nano_entry GcStep 123)
       (sample_journal 35, sample_jfs (encode_entry nano_jc (nano_entry CommitStep 0)) [Torn 3]) = (r, (j', s')) \<and>
     lookup s' f = Some (File d) \<and>
     1 \<le> k \<and> read_records nano_jc 0 d = Inr (take k [nano_entry CommitStep 0, nano_entry GcStep 0])"
proof -
  let ?st = "(sample_journal 35, sample_jfs (encode_entry nano_jc (nano_entry CommitStep 0)) [Torn 3])"
  obtain r j' s' where a: "journal_append nano_jc ''0'' (nano_entry GcStep 123) ?st = (r, (j', s'))"
    by (metis prod_cases3)
  from journal_append_never_loses_records [OF nano_journal_log nano_entry_facts(1) a, of 0] a
  show ?thesis unfolding nano_entry_facts(2) by fastforce
qed

theorem recovery_plan_from_disk_witness:
  "\<exists>got st. read_all sample_jc 0 (sample_journal 35, sample_jfs (encode_entry sample_jc (sample_entry CommitStep)) [])
      = (Inr got, st) \<and> map fst (plan_recovery got) = scan_uncompleted [sample_entry CommitStep]"
proof -
  let ?st = "(sample_journal 35, sample_jfs (encode_entry sample_jc (sample_entry CommitStep)) [])"
  have r: "read_all sample_jc 0 ?st = (Inr [sample_entry CommitStep], ?st)"
    by (rule read_all_log [OF sample_journal_log]) (simp add: sample_jfs_def)
  from recovery_plan_from_disk [OF sample_journal_log r] r show ?thesis by blast
qed


theorem append_after_torn_byte_is_lost_witness:
  "\<exists>off j' s'. journal_append sample_jc ''0'' (sample_entry GcStep) (sample_journal 1, sample_jfs [1] [])
      = (Inr off, (j', s')) \<and> (\<forall>got st. read_all sample_jc 0 (j', s') = (Inr got, st) \<longrightarrow> got = [])"
proof -
  let ?st = "(sample_journal 1, sample_jfs [1] [])"
  obtain off j' s' where a: "journal_append sample_jc ''0'' (sample_entry GcStep) ?st = (Inr off, (j', s'))"
    and n: "\<not> needs_rotation sample_jc (sample_journal 1) (sample_entry GcStep)"
    and l: "lookup (sample_jfs [1] []) (j_handle (sample_journal 1)) =
      Some (File (log_of sample_jc [] @ [as_u8 CommitStep]))"
    by (simp add: sample_append_simps)
  have "got = []" if "read_all sample_jc 0 (j', s') = (Inr got, st)" for got st
    by (rule append_after_torn_byte_is_lost [OF l _ sample_entry_ok _ _ n a that])
      (simp_all add: sample_entry_def entry_new_def)
  with a show ?thesis by blast
qed

end
