(* ===== verification/Badou_Commit.thy ===== *)
theory Badou_Commit
  imports Badou_Ops Badou_Journal
begin

text \<open>
  The two-phase commit (\<open>badou-ops/src/commit.rs\<close>): staging, writing and verifying the
  chunks, the switch of the staged files into place, the seal, with its journal records.

  The state is the version registry, the chunk index, the journal and the file system
  they share.  \<open>commit_env\<close> collects what the call gets from outside: the third-party
  functions, the layout and repository, the fresh identifiers, and the clock, read at
  named points of the code (and per iteration in a loop).  Reasons of a failed commit
  carry the error value where the code formats it into a message.
\<close>

record commit_st =
  cs_vo :: version_ops
  cs_ix :: badou_index
  cs_jr :: journal
  cs_fs :: fsys

record commit_env =
  ce_crates :: crates
  ce_ijson :: index_json
  ce_mjson :: manifest_json
  ce_sjson :: snapshot_json
  ce_jc :: journal_crates
  ce_layout :: layout
  ce_repo :: uuid
  ce_vid :: uuid
  ce_sid :: uuid
  ce_clock :: "string \<Rightarrow> nat \<Rightarrow> timestamp"
  ce_stamp :: "string \<Rightarrow> string"

datatype commit_error =
  CeStaging staging_error | CeVersionOps version_ops_error | CeChunkStore chunk_store_error
| CeManifestStore manifest_store_error | CeSnapshotStore snapshot_store_error
| CeJournal journal_error | CeIndex index_error | CeSerde

datatype failure_reason = StagingCreationFailed staging_error | ChunkVerificationFailed

datatype commit_result = CommitSuccess uuid uuid | CommitFailure uuid failure_reason

definition on_vo :: "(version_ops \<Rightarrow> ('e + 'a) \<times> version_ops) \<Rightarrow> commit_st \<Rightarrow> ('e + 'a) \<times> commit_st" where
  "on_vo f st = (case f (cs_vo st) of (r, vo) \<Rightarrow> (r, st\<lparr>cs_vo := vo\<rparr>))"

definition on_ix :: "(ist \<Rightarrow> ('e + 'a) \<times> ist) \<Rightarrow> commit_st \<Rightarrow> ('e + 'a) \<times> commit_st" where
  "on_ix f st = (case f (cs_ix st, cs_fs st) of (r, (i, s)) \<Rightarrow> (r, st\<lparr>cs_ix := i, cs_fs := s\<rparr>))"

definition on_jr :: "(jst \<Rightarrow> ('e + 'a) \<times> jst) \<Rightarrow> commit_st \<Rightarrow> ('e + 'a) \<times> commit_st" where
  "on_jr f st = (case f (cs_jr st, cs_fs st) of (r, (j, s)) \<Rightarrow> (r, st\<lparr>cs_jr := j, cs_fs := s\<rparr>))"

definition on_disk :: "(fsys \<Rightarrow> ('e + 'a) \<times> fsys) \<Rightarrow> commit_st \<Rightarrow> ('e + 'a) \<times> commit_st" where
  "on_disk f st = (case f (cs_fs st) of (r, s) \<Rightarrow> (r, st\<lparr>cs_fs := s\<rparr>))"

definition journal_note ::
  "commit_env \<Rightarrow> journal_op_type \<Rightarrow> string \<Rightarrow> bool \<Rightarrow> commit_st \<Rightarrow> (commit_error + nat) \<times> commit_st" where
  "journal_note E op text done st =
     (let e = entry_new op (ce_vid E) (str_bytes text) (ce_clock E text 0);
          e = (if done then entry_committed e else e)
      in map_err CeJournal (on_jr (journal_append (ce_jc E) (ce_stamp E text) e) st))"

fun write_chunks :: "commit_env \<Rightarrow> nat \<Rightarrow> (chunk_hash \<times> bytes) list \<Rightarrow> commit_st \<Rightarrow> (commit_error + unit) \<times> commit_st" where
  "write_chunks E k [] st = (Inr (), st)"
| "write_chunks E k ((h, d) # cs) st =
     and_then (map_err CeChunkStore
       (on_ix (write_chunk (ce_crates E) (ce_ijson E) (ce_layout E) (ce_repo E) (ce_clock E ''chunk'' k) h d) st))
     (\<lambda>_ st. write_chunks E (Suc k) cs st)"

text \<open>The answer is whether every chunk read back equals its data.\<close>

fun verify_chunks :: "commit_env \<Rightarrow> (chunk_hash \<times> bytes) list \<Rightarrow> commit_st \<Rightarrow> (commit_error + bool) \<times> commit_st" where
  "verify_chunks E [] st = (Inr True, st)"
| "verify_chunks E ((h, d) # cs) st =
     and_then (map_err CeChunkStore (on_ix (read_chunk (ce_crates E) h) st))
     (\<lambda>stored st. if stored \<noteq> d then (Inr False, st) else verify_chunks E cs st)"

definition fail_commit :: "commit_env \<Rightarrow> string \<Rightarrow> commit_st \<Rightarrow> (commit_error + unit) \<times> commit_st" where
  "fail_commit E reason st =
     and_then (map_err CeStaging (on_disk (cleanup_staging (ce_crates E) (ce_layout E) (ce_repo E) (ce_vid E)) st))
     (\<lambda>_ st. and_then (journal_note E Recovery reason False st) (\<lambda>_ st. (Inr (), st)))"

definition snapshot_to_commit :: "commit_env \<Rightarrow> manifest \<Rightarrow> snapshot \<Rightarrow> snapshot" where
  "snapshot_to_commit E m sn = sn\<lparr>sn_snapshot_id := ce_sid E, sn_status := SWriting,
     sn_verify_info := \<lparr>verified = True, verified_at = Some (ce_clock E ''verified_at'' 0),
       checksum = Some (compute_hash (ce_crates E) (ce_mjson E) m)\<rparr>\<rparr>"

text \<open>From the end of verification to the seal.\<close>

definition commit_finish ::
  "commit_env \<Rightarrow> staging_area \<Rightarrow> manifest \<Rightarrow> snapshot \<Rightarrow> commit_st \<Rightarrow> (commit_error + commit_result) \<times> commit_st" where
  "commit_finish E staging m sn0 st =
     (let X = ce_crates E; l = ce_layout E; rid = ce_repo E; vid = ce_vid E;
          sn = snapshot_to_commit E m sn0 in
      and_then (journal_note E VerifyStep ''verified'' False st)
      (\<lambda>_ st. and_then (map_err CeVersionOps (on_vo (vo_transition vid VCommitting) st))
      (\<lambda>_ st. case sj_to_vec (ce_sjson E) sn of
         None \<Rightarrow> (Inl CeSerde, st)
       | Some snapshot_bytes \<Rightarrow>
           and_then (map_err CeStaging (on_disk (write_to_staging staging
             (uuid_to_string X (ce_sid E) @ ''.snapshot'') snapshot_bytes) st))
           (\<lambda>_ st. and_then (map_err CeStaging (on_disk (atomic_commit X l rid staging) st))
           (\<lambda>_ st. and_then (journal_note E CommitStep ''staging_committed'' False st)
           (\<lambda>_ st. and_then (map_err CeVersionOps (on_vo (vo_transition vid VSealed) st))
           (\<lambda>_ st. and_then (map_err CeSnapshotStore (on_disk
               (write_snapshot X (ce_sjson E) l rid (sn\<lparr>sn_status := SSealed\<rparr>)) st))
           (\<lambda>_ st. and_then (journal_note E CommitStep ''sealed'' True st)
           (\<lambda>_ st. (Inr (CommitSuccess vid (ce_sid E)), st))))))))))"

text \<open>From the staging area to the end of verification.\<close>

definition commit_staged ::
  "commit_env \<Rightarrow> staging_area \<Rightarrow> manifest \<Rightarrow> snapshot \<Rightarrow> (chunk_hash \<times> bytes) list \<Rightarrow> commit_st \<Rightarrow>
   (commit_error + commit_result) \<times> commit_st" where
  "commit_staged E staging m sn chunks st =
     and_then (map_err CeVersionOps (on_vo (start_writing (ce_vid E)) st))
     (\<lambda>_ st. and_then (write_chunks E 0 chunks st)
     (\<lambda>_ st. case mj_to_vec (ce_mjson E) m of
        None \<Rightarrow> (Inl CeSerde, st)
      | Some manifest_bytes \<Rightarrow>
          and_then (map_err CeStaging (on_disk (write_to_staging staging
            (uuid_to_string (ce_crates E) (mf_manifest_id m) @ ''.manifest'') manifest_bytes) st))
          (\<lambda>_ st. and_then (journal_note E CommitStep ''chunks_written'' False st)
          (\<lambda>_ st. and_then (map_err CeVersionOps (on_vo (vo_transition (ce_vid E) VVerifying) st))
          (\<lambda>_ st. and_then (verify_chunks E chunks st)
          (\<lambda>ok st. if \<not> ok then
               and_then (fail_commit E ''chunk hash verification failed'' st)
                 (\<lambda>_ st. (Inr (CommitFailure (ce_vid E) ChunkVerificationFailed), st))
             else commit_finish E staging m sn st))))))"

definition commit_backup ::
  "commit_env \<Rightarrow> uuid option \<Rightarrow> manifest \<Rightarrow> snapshot \<Rightarrow> (chunk_hash \<times> bytes) list \<Rightarrow> commit_st \<Rightarrow>
   (commit_error + commit_result) \<times> commit_st" where
  "commit_backup E parent m sn chunks st =
     and_then (map_err CeVersionOps (on_vo
       (create_version (ce_vid E) (ce_sid E) (ce_clock E ''version'' 0) (ce_repo E) parent) st))
     (\<lambda>_ st. and_then (journal_note E CommitStep ''start'' False st)
     (\<lambda>_ st. case on_disk (create_staging (ce_crates E) (ce_layout E) (ce_repo E) (ce_vid E)) st of
        (Inl e, st) \<Rightarrow> (Inr (CommitFailure (ce_vid E) (StagingCreationFailed e)), st)
      | (Inr staging, st) \<Rightarrow> commit_staged E staging m sn chunks st))"

fun cleanup_each :: "commit_env \<Rightarrow> uuid list \<Rightarrow> commit_st \<Rightarrow> (commit_error + uuid list) \<times> commit_st" where
  "cleanup_each E [] st = (Inr [], st)"
| "cleanup_each E (v # vs) st =
     and_then (map_err CeStaging (on_disk (cleanup_staging (ce_crates E) (ce_layout E) (ce_repo E) v) st))
     (\<lambda>_ st. and_then (cleanup_each E vs st) (\<lambda>cleaned st. (Inr (v # cleaned), st)))"

definition cleanup_incomplete :: "commit_env \<Rightarrow> commit_st \<Rightarrow> (commit_error + uuid list) \<times> commit_st" where
  "cleanup_incomplete E st =
     and_then (map_err CeStaging (on_disk (list_pending_staging (ce_crates E) (ce_layout E) (ce_repo E)) st))
     (\<lambda>pending st. cleanup_each E pending st)"

end
