(* ===== verification/Badou_Commit_Facts.thy ===== *)
theory Badou_Commit_Facts
  imports Badou_Commit
begin

text \<open>
  What the two-phase commit guarantees.  The frame argument: everything the commit does
  after verification happens under the manifest and snapshot directories or in the
  journal, so the verified chunks stay on disk.
\<close>

subsection \<open>Zones of the repository\<close>

definition meta_zone :: "crates \<Rightarrow> layout \<Rightarrow> uuid \<Rightarrow> path \<Rightarrow> bool" where
  "meta_zone X l rid p \<longleftrightarrow> prefix (manifests_dir X l rid) p \<or> prefix (snapshots_dir X l rid) p"

definition data_zone :: "crates \<Rightarrow> layout \<Rightarrow> uuid \<Rightarrow> path \<Rightarrow> bool" where
  "data_zone X l rid p \<longleftrightarrow> prefix (chunks_dir X l rid) p \<or> meta_zone X l rid p"

lemmas dir_defs = chunks_dir_def manifests_dir_def snapshots_dir_def

lemma chunk_not_meta [simp]: "\<not> meta_zone X l rid (bucket_path X l rid h)"
  by (auto simp: meta_zone_def bucket_path_def dir_defs)

lemma chunk_in_data [simp]: "data_zone X l rid (bucket_path X l rid h)"
  by (simp add: data_zone_def bucket_path_def)

lemma meta_in_data: "meta_zone X l rid p \<Longrightarrow> data_zone X l rid p"
  by (simp add: data_zone_def)

lemma meta_zone_append: "meta_zone X l rid p \<Longrightarrow> meta_zone X l rid (p @ q)"
  by (auto simp: meta_zone_def)

lemma meta_paths [simp]:
  "meta_zone X l rid (manifests_dir X l rid @ q)"
  "meta_zone X l rid (snapshots_dir X l rid @ q)"
  "meta_zone X l rid (manifest_staging_path X l rid v)"
  "meta_zone X l rid (snapshot_staging_path X l rid v)"
  "meta_zone X l rid (snapshot_path X l rid sid)"
  "meta_zone X l rid (manifest_path X l rid sid)"
  by (simp_all add: meta_zone_def manifest_staging_path_def snapshot_staging_path_def
      snapshot_path_def manifest_path_def)

lemma with_extension_dir: "with_extension (d @ [n]) ext = d @ [file_stem n @ ''.'' @ ext]"
  by (simp add: with_extension_def)

text \<open>Outside the zone \<open>Z\<close>, \<open>s'\<close> has the nodes of \<open>s\<close> and perhaps new directories.\<close>

definition touches :: "(path \<Rightarrow> bool) \<Rightarrow> fsys \<Rightarrow> fsys \<Rightarrow> bool" where
  "touches Z s s' \<longleftrightarrow> (\<forall>p. \<not> Z p \<longrightarrow>
     lookup s' p = lookup s p \<or> (lookup s p = None \<and> lookup s' p = Some Dir))"

lemma touches_file: "touches Z s s' \<Longrightarrow> \<not> Z p \<Longrightarrow> file_at s' p = file_at s p"
  by (fastforce simp: touches_def file_at_def)

lemma touches_dir: "touches Z s s' \<Longrightarrow> \<not> Z p \<Longrightarrow> is_dir s p \<Longrightarrow> is_dir s' p"
  by (fastforce simp: touches_def is_dir_def)

lemma touches_refl [simp]: "touches Z s s"
  by (simp add: touches_def)

lemma touches_trans: "touches Z s t \<Longrightarrow> touches Z t u \<Longrightarrow> touches Z s u"
  unfolding touches_def by metis

lemma touches_mono: "touches Y s t \<Longrightarrow> (\<And>p. Y p \<Longrightarrow> Z p) \<Longrightarrow> touches Z s t"
  by (auto simp: touches_def)

lemma touches_lookup: "(\<And>p. \<not> Z p \<Longrightarrow> lookup t p = lookup s p) \<Longrightarrow> touches Z s t"
  by (simp add: touches_def)

lemma touches_write: "Z p \<Longrightarrow> touches Z s (snd (fs_write p d s))"
proof (rule touches_lookup)
  fix q assume "Z p" and "\<not> Z q"
  then have "q \<noteq> p" by auto
  then show "lookup (snd (fs_write p d s)) q = lookup s q"
    using fs_write_frame by (cases "fs_write p d s") fastforce
qed

lemma touches_append: "Z p \<Longrightarrow> touches Z s (snd (fs_append p d s))"
  by (rule touches_lookup)
     (auto simp: fs_append_def split: prod.splits fault.splits option.splits node.splits
      dest: next_fault_lookup)

lemma touches_rename: "Z p \<Longrightarrow> Z q \<Longrightarrow> touches Z s (snd (fs_rename p q s))"
  by (rule touches_lookup)
     (auto simp: fs_rename_def split: prod.splits fault.splits option.splits node.splits
      dest: next_fault_lookup)

lemma touches_create_dir_all: "touches Z s (snd (fs_create_dir_all p s))"
  using create_dir_all_lookup [of p s] by (cases "fs_create_dir_all p s") (auto simp: touches_def)

lemma touches_read: "touches Z s (snd (fs_read p s))" "touches Z s (snd (fs_read_dir p s))"
  by (cases "fs_read p s"; simp add: touches_def fs_read_lookup)
     (cases "fs_read_dir p s"; simp add: touches_def fs_read_dir_lookup)

lemma touches_remove_dir_all: "(\<And>q. prefix p q \<Longrightarrow> Z q) \<Longrightarrow> touches Z s (snd (fs_remove_dir_all p s))"
  using fs_remove_dir_all_Ok [of p s] fs_remove_dir_all_Err [of p s]
  by (cases "fs_remove_dir_all p s"; cases "fst (fs_remove_dir_all p s)") (auto simp: touches_def)

lemma touches_and_then:
  assumes "touches Z s (snd r)" and "\<And>x t. r = (Inr x, t) \<Longrightarrow> touches Z t (snd (k x t))"
  shows "touches Z s (snd (and_then r k))"
  using assms by (auto simp: and_then_def split: prod.splits sum.splits intro: touches_trans)

lemma touches_open_append: "Z p \<Longrightarrow> touches Z s (snd (open_append p s))"
  by (rule touches_lookup) (auto simp: open_append_def split: prod.splits fault.splits option.splits node.splits
      dest: next_fault_lookup)

lemmas touches_intros = touches_and_then touches_write touches_append touches_rename touches_create_dir_all
  touches_read touches_remove_dir_all

subsection \<open>Which files each step touches\<close>

definition staging_in :: "crates \<Rightarrow> layout \<Rightarrow> uuid \<Rightarrow> staging_area \<Rightarrow> bool" where
  "staging_in X l rid sd \<longleftrightarrow> sd_manifest_staging sd = manifest_staging_path X l rid (sd_version_id sd) \<and>
     sd_snapshot_staging sd = snapshot_staging_path X l rid (sd_version_id sd)"

lemma create_staging_in:
  "create_staging X l rid vid s = (Inr sd, s') \<Longrightarrow> staging_in X l rid sd \<and> sd_version_id sd = vid"
  by (auto simp: create_staging_def staging_in_def Let_def result_iffs split: if_splits)

lemma touches_create_staging: "touches Z s (snd (create_staging X l rid vid s))"
  by (auto simp: create_staging_def Let_def touches_create_dir_all intro!: touches_and_then)

lemma touches_write_to_staging:
  "staging_in X l rid sd \<Longrightarrow> touches (meta_zone X l rid) s (snd (write_to_staging sd name d s))"
  by (auto simp: write_to_staging_def staging_in_def Let_def intro!: touches_and_then touches_write
      meta_zone_append)

lemma touches_rename_entries:
  "\<lbrakk>\<And>n. Z (a @ [n]); \<And>n. Z (b @ [n])\<rbrakk> \<Longrightarrow> touches Z s (snd (rename_entries a b names s))"
proof (induction names arbitrary: s)
  case (Cons n ns)
  then show ?case by (auto intro!: touches_and_then touches_rename)
qed simp

lemma touches_commit_dir:
  "\<lbrakk>\<And>n. Z (a @ [n]); \<And>n. Z (b @ [n])\<rbrakk> \<Longrightarrow> touches Z s (snd (commit_dir a b s))"
  by (auto simp: commit_dir_def intro!: touches_and_then touches_read touches_rename_entries)

lemma touches_cleanup_staging:
  "touches (meta_zone X l rid) s (snd (cleanup_staging X l rid vid s))"
proof -
  have *: "meta_zone X l rid q" if "prefix (manifest_staging_path X l rid vid) q \<or> prefix (snapshot_staging_path X l rid vid) q" for q
    using that by (auto simp: meta_zone_def manifest_staging_path_def snapshot_staging_path_def dest: append_prefixD)
  show ?thesis
    by (auto simp: cleanup_staging_def Let_def intro!: touches_and_then touches_remove_dir_all *)
qed

lemma touches_atomic_commit:
  "staging_in X l rid sd \<Longrightarrow> touches (meta_zone X l rid) s (snd (atomic_commit X l rid sd s))"
  by (auto simp: atomic_commit_def staging_in_def meta_zone_append
      intro!: touches_and_then touches_commit_dir touches_cleanup_staging)

lemma touches_write_snapshot: "touches (meta_zone X l rid) s (snd (write_snapshot X N l rid sn s))"
  by (auto simp: write_snapshot_def Let_def snapshot_path_def with_extension_dir
      intro!: touches_and_then touches_write touches_rename split: option.splits)

text \<open>The journal's files.\<close>

definition journal_files :: "journal \<Rightarrow> path \<Rightarrow> bool" where
  "journal_files j p \<longleftrightarrow> p = j_path j \<or> p = j_handle j \<or> (\<exists>stamp. p = archive_path (j_path j) stamp)"

lemma rotate_touches:
  assumes "rotate_locked stamp (j, s) = (r, (j', s'))"
  shows "touches (journal_files j) s s'" and "j_path j' = j_path j"
    and "j_handle j' \<in> {j_path j, j_handle j, archive_path (j_path j) stamp}"
proof -
  have z: "journal_files j (j_path j)" "journal_files j (archive_path (j_path j) stamp)"
    by (auto simp: journal_files_def)
  obtain r1 s1 where 1: "fs_rename (j_path j) (archive_path (j_path j) stamp) s = (r1, s1)" by fastforce
  obtain r2 s2 where 2: "open_append (j_path j) s1 = (r2, s2)" by fastforce
  have t: "touches (journal_files j) s s1" "touches (journal_files j) s1 s2"
    using touches_rename [of "journal_files j", OF z, of s] touches_open_append [of "journal_files j", OF z(1), of s1] 1 2
    by auto
  show "touches (journal_files j) s s'" "j_path j' = j_path j"
    "j_handle j' \<in> {j_path j, j_handle j, archive_path (j_path j) stamp}"
    using assms 1 2 t touches_trans [OF t]
    by (auto simp: rotate_locked_def Let_def split: sum.splits if_splits)
qed

lemma journal_append_touches:
  assumes "journal_append C stamp e (j, s) = (r, (j', s'))"
  shows "touches (journal_files j) s s'" and "j_path j' = j_path j"
    and "j_handle j' \<in> {j_path j, j_handle j, archive_path (j_path j) stamp}"
proof -
  obtain r1 j1 s1 where 1: "(if j_current_size j + length (encode_entry C e) > j_rotation_size j
      then rotate_locked stamp (j, s) else (Inr (), (j, s))) = (r1, (j1, s1))" by (metis prod_cases3)
  have t: "touches (journal_files j) s s1" "j_path j1 = j_path j"
    "j_handle j1 \<in> {j_path j, j_handle j, archive_path (j_path j) stamp}"
    using 1 rotate_touches [of stamp j s r1 j1 s1] by (auto split: if_splits)
  obtain r2 s2 where 2: "fs_append (j_handle j1) (encode_entry C e) s1 = (r2, s2)" by fastforce
  have "touches (journal_files j) s1 s2"
    using touches_append [of "journal_files j" "j_handle j1" s1 "encode_entry C e"] t(3) 2
    by (auto simp: journal_files_def)
  then have t2: "touches (journal_files j) s s2" using t(1) touches_trans by blast
  have eq: "journal_append C stamp e (j, s) = and_then (r1, (j1, s1)) (\<lambda>_ (j, s).
     case fs_append (j_handle j) (encode_entry C e) s of
       (Inl x, s) \<Rightarrow> (Inl (JeIo x), (j, s))
     | (Inr _, s) \<Rightarrow> (Inr (j_current_size j), (j\<lparr>j_current_size := j_current_size j + length (encode_entry C e)\<rparr>, s)))"
    unfolding journal_append_def Let_def by (simp add: 1)
  show "touches (journal_files j) s s'" "j_path j' = j_path j"
    "j_handle j' \<in> {j_path j, j_handle j, archive_path (j_path j) stamp}"
    using assms t t2 2 unfolding eq by (auto simp: and_then_def split: sum.splits)
qed

subsection \<open>Steps that keep the stored chunks\<close>

text \<open>The journal lives outside the chunk, manifest and snapshot directories (the layout puts it
  in a directory of its own).\<close>

definition journal_apart :: "commit_env \<Rightarrow> journal \<Rightarrow> bool" where
  "journal_apart E j \<longleftrightarrow> (\<forall>p. journal_files j p \<longrightarrow> \<not> data_zone (ce_crates E) (ce_layout E) (ce_repo E) p)"

lemma journal_apart_append:
  assumes "journal_apart E j" and "journal_append C stamp e (j, s) = (r, (j', s'))"
  shows "journal_apart E j'"
  using assms(1) journal_append_touches(2,3) [OF assms(2)]
  by (auto simp: journal_apart_def journal_files_def)

definition keeps :: "commit_env \<Rightarrow> commit_st \<Rightarrow> commit_st \<Rightarrow> bool" where
  "keeps E a b \<longleftrightarrow> cs_ix b = cs_ix a \<and> journal_apart E (cs_jr b) \<and>
     (\<forall>h. file_at (cs_fs b) (bucket_path (ce_crates E) (ce_layout E) (ce_repo E) h) =
          file_at (cs_fs a) (bucket_path (ce_crates E) (ce_layout E) (ce_repo E) h))"

lemma keeps_refl: "journal_apart E (cs_jr a) \<Longrightarrow> keeps E a a"
  by (simp add: keeps_def)

lemma keeps_vo: "keeps E a b \<Longrightarrow> keeps E a (snd (on_vo f b))"
  by (simp add: keeps_def on_vo_def split: prod.splits)

lemma keeps_disk:
  "keeps E a b \<Longrightarrow> touches (meta_zone (ce_crates E) (ce_layout E) (ce_repo E)) (cs_fs b) (snd (f (cs_fs b))) \<Longrightarrow>
   keeps E a (snd (on_disk f b))"
  by (cases "f (cs_fs b)") (auto simp: keeps_def on_disk_def touches_file)

lemma keeps_note:
  assumes "keeps E a b"
  shows "keeps E a (snd (journal_note E op text done b))"
proof -
  define e where "e = (let e = entry_new op (ce_vid E) (str_bytes text) (ce_clock E text 0)
    in if done then entry_committed e else e)"
  obtain r j s where app: "journal_append (ce_jc E) (ce_stamp E text) e (cs_jr b, cs_fs b) = (r, (j, s))"
    by (metis prod_cases3)
  have apart: "journal_apart E (cs_jr b)" using assms by (simp add: keeps_def)
  have "\<not> journal_files (cs_jr b) (bucket_path (ce_crates E) (ce_layout E) (ce_repo E) h)" for h
    using apart by (auto simp: journal_apart_def)
  moreover have "snd (journal_note E op text done b) = b\<lparr>cs_jr := j, cs_fs := s\<rparr>"
    using app by (simp add: journal_note_def on_jr_def Let_def e_def)
  ultimately show ?thesis
    using assms touches_file [OF journal_append_touches(1) [OF app]] journal_apart_append [OF apart app]
    by (auto simp: keeps_def)
qed

lemma keeps_read:
  assumes "keeps E a b"
  shows "keeps E a (snd (on_ix (read_chunk X h) b))"
proof -
  obtain r i s where rd: "read_chunk X h (cs_ix b, cs_fs b) = (r, (i, s))" by (metis prod_cases3)
  then have "i = cs_ix b" "lookup s = lookup (cs_fs b)" using read_chunk_frame [OF rd] by auto
  then show ?thesis using rd assms file_at_lookup [of s "cs_fs b"] by (simp add: on_ix_def keeps_def)
qed

lemma keeps_then:
  "keeps E a (snd r) \<Longrightarrow> (\<And>x s. keeps E a s \<Longrightarrow> keeps E a (snd (k x s))) \<Longrightarrow> keeps E a (snd (and_then r k))"
  by (rule and_then_inv)

lemma keeps_map_err: "keeps E a (snd r) \<Longrightarrow> keeps E a (snd (map_err f r))"
  by simp

lemmas keeps_intros = keeps_then keeps_map_err keeps_vo keeps_disk keeps_note keeps_read
  touches_write_to_staging touches_atomic_commit touches_write_snapshot touches_cleanup_staging
  touches_create_staging

lemma keeps_verify: "keeps E a b \<Longrightarrow> keeps E a (snd (verify_chunks E cs b))"
proof (induction cs arbitrary: b)
  case (Cons c cs)
  obtain h d where "c = (h, d)" by fastforce
  then show ?case
    using Cons by (simp, intro keeps_intros) (simp_all add: Cons)
qed simp

lemma keeps_finish:
  assumes "keeps E a b" and "staging_in (ce_crates E) (ce_layout E) (ce_repo E) sd"
  shows "keeps E a (snd (commit_finish E sd m sn b))"
proof (cases "sj_to_vec (ce_sjson E) (snapshot_to_commit E m sn)")
  case None
  show ?thesis unfolding commit_finish_def Let_def None option.case
    by (intro keeps_then keeps_map_err keeps_note keeps_vo assms) simp_all
next
  case (Some json)
  show ?thesis unfolding commit_finish_def Let_def Some option.case
    by (intro keeps_intros assms) simp_all
qed

text \<open>All chunks are stored: the data's digest is its hash and the chunk file holds the data.\<close>

definition all_stored :: "commit_env \<Rightarrow> (chunk_hash \<times> bytes) list \<Rightarrow> commit_st \<Rightarrow> bool" where
  "all_stored E chunks st \<longleftrightarrow> (\<forall>(h, d) \<in> set chunks. blake3_hash (ce_crates E) d = h \<and>
     chunk_content (ce_crates E) (cs_ix st, cs_fs st) h = Some d)"

definition commit_inv :: "commit_env \<Rightarrow> commit_st \<Rightarrow> bool" where
  "commit_inv E st \<longleftrightarrow> store_inv (ce_crates E) (ce_layout E) (ce_repo E) (cs_ix st, cs_fs st) \<and>
     journal_apart E (cs_jr st)"

lemma keeps_content:
  assumes "commit_inv E a" and "keeps E a b"
  shows "chunk_content (ce_crates E) (cs_ix b, cs_fs b) = chunk_content (ce_crates E) (cs_ix a, cs_fs a)"
    and "commit_inv E b"
proof
  have inv: "store_inv (ce_crates E) (ce_layout E) (ce_repo E) (cs_ix a, cs_fs a)"
    using assms(1) by (simp add: commit_inv_def)
  show "commit_inv E b"
    using inv assms(2) store_inv_index [OF inv] by (simp add: commit_inv_def keeps_def)
  fix h
  show "chunk_content (ce_crates E) (cs_ix b, cs_fs b) h = chunk_content (ce_crates E) (cs_ix a, cs_fs a) h"
    using store_inv_entry [OF inv, of h] assms(2)
    by (auto simp: chunk_content_def keeps_def split: option.splits)
qed

lemma verify_chunks_stored:
  assumes "commit_inv E st" and "verify_chunks E cs st = (Inr True, st')"
  shows "all_stored E cs st"
  using assms
proof (induction cs arbitrary: st)
  case (Cons c cs)
  obtain h d where c: "c = (h, d)" by fastforce
  with Cons.prems(2) obtain st1 where
    r: "on_ix (read_chunk (ce_crates E) h) st = (Inr d, st1)" and v: "verify_chunks E cs st1 = (Inr True, st')"
    by (auto simp: result_iffs split: if_splits)
  have "keeps E st (snd (on_ix (read_chunk (ce_crates E) h) st))"
    by (rule keeps_read [OF keeps_refl]) (use Cons.prems(1) in \<open>simp add: commit_inv_def\<close>)
  with r have k: "keeps E st st1" by simp
  have "all_stored E cs st1" using Cons.IH [OF keeps_content(2) [OF Cons.prems(1) k] v] .
  then have "all_stored E cs st" using keeps_content(1) [OF Cons.prems(1) k] by (simp add: all_stored_def)
  moreover obtain i s where "read_chunk (ce_crates E) h (cs_ix st, cs_fs st) = (Inr d, (i, s))"
    using r by (auto simp: on_ix_def split: prod.splits)
  then have "blake3_hash (ce_crates E) d = h" "chunk_content (ce_crates E) (cs_ix st, cs_fs st) h = Some d"
    using cs.get_sound by blast+
  ultimately show ?case using c by (simp add: all_stored_def)
qed (simp add: all_stored_def)

subsection \<open>Before the seal\<close>

definition version_state :: "uuid \<Rightarrow> commit_st \<Rightarrow> version_status option" where
  "version_state vid st = map_option v_status (map_of (vo_versions (cs_vo st)) vid)"

definition pre_seal :: "commit_env \<Rightarrow> commit_st \<Rightarrow> bool" where
  "pre_seal E st \<longleftrightarrow> version_state (ce_vid E) st \<noteq> Some VSealed \<and> commit_inv E st"

lemma cs_vo_steps [simp]:
  "cs_vo (snd (on_ix f st)) = cs_vo st" "cs_vo (snd (on_jr g st)) = cs_vo st" "cs_vo (snd (on_disk k st)) = cs_vo st"
  "cs_vo (snd (journal_note E op text done st)) = cs_vo st"
  by (simp_all add: on_ix_def on_jr_def on_disk_def journal_note_def Let_def split: prod.splits)

lemma pre_seal_keeps:
  "pre_seal E a \<Longrightarrow> (\<And>b. keeps E b a \<Longrightarrow> keeps E b c) \<Longrightarrow> cs_vo c = cs_vo a \<Longrightarrow> pre_seal E c"
  using keeps_content(2) [of E a c] keeps_refl [of E a]
  by (simp add: pre_seal_def version_state_def commit_inv_def)

lemma pre_seal_note: "pre_seal E st \<Longrightarrow> pre_seal E (snd (journal_note E op text done st))"
  by (rule pre_seal_keeps) (simp_all add: keeps_note)

lemma pre_seal_disk:
  assumes "pre_seal E st" and "touches (meta_zone (ce_crates E) (ce_layout E) (ce_repo E)) (cs_fs st) (snd (f (cs_fs st)))"
  shows "pre_seal E (snd (on_disk f st))"
  by (rule pre_seal_keeps [OF assms(1)]) (simp_all add: keeps_disk assms)

lemma pre_seal_transition:
  assumes "pre_seal E st" and "target \<noteq> VSealed"
  shows "pre_seal E (snd (on_vo (vo_transition (ce_vid E) target) st))"
proof -
  have "version_state (ce_vid E) (snd (on_vo (vo_transition (ce_vid E) target) st)) \<noteq> Some VSealed"
    using assms by (auto simp: pre_seal_def version_state_def on_vo_def vo_transition_def map_of_update
        split: option.splits)
  then show ?thesis using assms(1) by (simp add: pre_seal_def commit_inv_def on_vo_def split: prod.splits)
qed

lemma pre_seal_create:
  assumes "pre_seal E st"
  shows "pre_seal E (snd (on_vo (create_version (ce_vid E) sid now rid parent) st))"
proof -
  have "version_state (ce_vid E) (snd (on_vo (create_version (ce_vid E) sid now rid parent) st)) \<noteq> Some VSealed"
    using assms by (auto simp: pre_seal_def version_state_def on_vo_def create_version_def Let_def map_of_update
        version_new_def split: option.splits)
  then show ?thesis using assms by (simp add: pre_seal_def commit_inv_def on_vo_def split: prod.splits)
qed

lemma pre_seal_write:
  assumes "pre_seal E st"
  shows "pre_seal E (snd (on_ix (write_chunk (ce_crates E) (ce_ijson E) (ce_layout E) (ce_repo E) now h d) st))"
proof -
  obtain r i s where w: "write_chunk (ce_crates E) (ce_ijson E) (ce_layout E) (ce_repo E) now h d (cs_ix st, cs_fs st) = (r, (i, s))"
    by (metis prod_cases3)
  have "store_inv (ce_crates E) (ce_layout E) (ce_repo E) (i, s)"
    using cs.put_inv [OF _ w] assms by (simp add: pre_seal_def commit_inv_def)
  then show ?thesis using w assms by (simp add: pre_seal_def commit_inv_def on_ix_def version_state_def)
qed

lemma pre_seal_write_chunks: "pre_seal E st \<Longrightarrow> pre_seal E (snd (write_chunks E k cs st))"
proof (induction cs arbitrary: k st)
  case (Cons c cs)
  obtain h d where "c = (h, d)" by fastforce
  then show ?case using Cons by (auto intro!: and_then_inv [where P = "pre_seal E"] pre_seal_write)
qed simp

lemma pre_seal_verify: "pre_seal E st \<Longrightarrow> pre_seal E (snd (verify_chunks E cs st))"
proof (rule pre_seal_keeps)
  show "cs_vo (snd (verify_chunks E cs st)) = cs_vo st" for st
  proof (induction cs arbitrary: st)
    case (Cons c cs)
    obtain h d where "c = (h, d)" by fastforce
    then show ?case using Cons by (auto intro!: and_then_inv [where P = "\<lambda>s. cs_vo s = cs_vo st"])
  qed simp
qed (simp_all add: keeps_verify)

text \<open>The outcome of the whole call: sealed only with every chunk stored.\<close>

definition safe_outcome :: "commit_env \<Rightarrow> (chunk_hash \<times> bytes) list \<Rightarrow> commit_st \<Rightarrow> bool" where
  "safe_outcome E chunks st \<longleftrightarrow> version_state (ce_vid E) st = Some VSealed \<longrightarrow> all_stored E chunks st"

lemma pre_seal_safe: "pre_seal E st \<Longrightarrow> safe_outcome E chunks st"
  by (simp add: pre_seal_def safe_outcome_def)

lemma safe_then:
  assumes "pre_seal E (snd r)" and "\<And>x s. r = (Inr x, s) \<Longrightarrow> pre_seal E s \<Longrightarrow> safe_outcome E chunks (snd (k x s))"
  shows "safe_outcome E chunks (snd (and_then r k))"
  using assms pre_seal_safe by (auto simp: and_then_def split: prod.splits sum.splits)

lemma safe_finish:
  assumes "pre_seal E st" and "all_stored E chunks st" and "staging_in (ce_crates E) (ce_layout E) (ce_repo E) sd"
  shows "safe_outcome E chunks (snd (commit_finish E sd m sn st))"
proof -
  have inv: "commit_inv E st" using assms(1) by (simp add: pre_seal_def)
  then have "keeps E st (snd (commit_finish E sd m sn st))"
    using keeps_finish [OF keeps_refl assms(3)] by (simp add: commit_inv_def)
  then show ?thesis
    using keeps_content(1) [OF inv] assms(2) by (simp add: safe_outcome_def all_stored_def)
qed

lemma safe_staged:
  assumes "pre_seal E st" and "staging_in (ce_crates E) (ce_layout E) (ce_repo E) sd"
  shows "safe_outcome E chunks (snd (commit_staged E sd m sn chunks st))"
proof (cases "mj_to_vec (ce_mjson E) m")
  case None
  show ?thesis unfolding commit_staged_def start_writing_def None option.case
    by (intro safe_then) (simp_all add: pre_seal_transition pre_seal_write_chunks pre_seal_safe assms)
next
  case (Some json)
  have verified: "safe_outcome E chunks (snd (if \<not> ok then and_then (fail_commit E t s)
      (\<lambda>_ st. (Inr (CommitFailure (ce_vid E) ChunkVerificationFailed), st)) else commit_finish E sd m sn s))"
    if v: "verify_chunks E chunks s0 = (Inr ok, s)" and p: "pre_seal E s0" "pre_seal E s" for s0 s ok t
  proof (cases ok)
    case True
    have inv: "commit_inv E s0" using p by (simp add: pre_seal_def)
    have "keeps E s0 s" using keeps_verify [OF keeps_refl, of E s0 chunks] v inv by (simp add: commit_inv_def)
    moreover have "all_stored E chunks s0" using verify_chunks_stored [OF inv] v True by simp
    ultimately have "all_stored E chunks s" using keeps_content(1) [OF inv] by (simp add: all_stored_def)
    then show ?thesis using safe_finish [OF p(2) _ assms(2)] True by simp
  next
    case False
    have "pre_seal E (snd (fail_commit E t s))"
      unfolding fail_commit_def
      by (intro and_then_inv [where P = "pre_seal E"])
         (auto intro!: pre_seal_disk touches_cleanup_staging pre_seal_note p)
    then show ?thesis using False by (simp, intro safe_then) (simp_all add: pre_seal_safe)
  qed
  show ?thesis unfolding commit_staged_def start_writing_def Some option.case
  proof (intro safe_then)
    fix s0 ok s
    assume "verify_chunks E chunks s0 = (Inr ok, s)" "pre_seal E s0" "pre_seal E s"
    then show "safe_outcome E chunks (snd (if \<not> ok
        then and_then (fail_commit E ''chunk hash verification failed'' s)
          (\<lambda>_ st. (Inr (CommitFailure (ce_vid E) ChunkVerificationFailed), st))
        else commit_finish E sd m sn s))" by (rule verified)
  qed (simp_all add: pre_seal_transition pre_seal_write_chunks pre_seal_disk touches_write_to_staging
      pre_seal_note pre_seal_verify assms)
qed

subsection \<open>The verified chunks\<close>

lemma commit_safe:
  assumes "commit_inv E st" and "version_state (ce_vid E) st = None"
    and "commit_backup E parent m sn chunks st = (r, st')"
  shows "safe_outcome E chunks st'"
proof -
  have start: "pre_seal E st" using assms(1,2) by (simp add: pre_seal_def)
  have "safe_outcome E chunks (snd (commit_backup E parent m sn chunks st))"
    unfolding commit_backup_def
  proof (intro safe_then)
    fix x1 s1 x2 s2
    assume p: "pre_seal E s2"
    obtain r3 s3 where c: "on_disk (create_staging (ce_crates E) (ce_layout E) (ce_repo E) (ce_vid E)) s2 = (r3, s3)"
      by fastforce
    have p3: "pre_seal E s3" 
      using pre_seal_disk [where f = "create_staging (ce_crates E) (ce_layout E) (ce_repo E) (ce_vid E)", OF p]
        touches_create_staging c by (metis snd_conv)
    have "staging_in (ce_crates E) (ce_layout E) (ce_repo E) sd" if "r3 = Inr sd" for sd
      using c that create_staging_in by (auto simp: on_disk_def split: prod.splits)
    then show "safe_outcome E chunks (snd (case on_disk (create_staging (ce_crates E) (ce_layout E) (ce_repo E) (ce_vid E)) s2 of
        (Inl e, st) \<Rightarrow> (Inr (CommitFailure (ce_vid E) (StagingCreationFailed e)), st)
      | (Inr staging, st) \<Rightarrow> commit_staged E staging m sn chunks st))"
      using c p3 pre_seal_safe safe_staged by (cases r3) auto
  qed (simp_all add: start pre_seal_create pre_seal_note)
  then show ?thesis using assms(3) by simp
qed

lemma all_stored_reads:
  assumes "all_stored E chunks st" and "faults (cs_fs st) = []" and "(h, d) \<in> set chunks"
  shows "read_chunk (ce_crates E) h (cs_ix st, cs_fs st) = (Inr d, (cs_ix st, cs_fs st))"
  using cs.get_total [of "(cs_ix st, cs_fs st)"] assms by (auto simp: all_stored_def quiet_def)

text \<open>(C1) The commit seals only what it verified.  Whatever the outcome (success, a reported
  failure, an error at any step, any faults), if the new version is sealed afterwards then
  every chunk handed to the commit has the digest it was declared with and its file holds
  exactly its bytes, and reading it back on a healthy disk returns them.\<close>

theorem commit_sealed_is_complete:
  assumes "commit_inv E st" and "version_state (ce_vid E) st = None"
    and "commit_backup E parent m sn chunks st = (r, st')"
    and "version_state (ce_vid E) st' = Some VSealed"
  shows "all_stored E chunks st' \<and>
     (faults (cs_fs st') = [] \<longrightarrow> (\<forall>(h, d) \<in> set chunks.
        read_chunk (ce_crates E) h (cs_ix st', cs_fs st') = (Inr d, (cs_ix st', cs_fs st'))))"
  using commit_safe [OF assms(1-3)] assms(4) all_stored_reads by (fastforce simp: safe_outcome_def)

end
