(* ===== verification/Badou_Commit_Success.thy ===== *)
theory Badou_Commit_Success
  imports Badou_Commit_Facts
begin

text \<open>
  The disk after a successful commit: the sealed snapshot in place, the version sealed,
  and the manifest bytes in the manifest directory.
\<close>

subsection \<open>The staged files reach their places\<close>

lemma children_mem: "lookup s (p @ [n]) = Some x \<Longrightarrow> n \<in> set (children s p)"
  by (force simp: lookup_def children_def dest: map_of_SomeD)

lemma rename_entries_moves:
  assumes "rename_entries a b names s = (Inr (), s')" and "file_at s (a @ [n]) = Some d" and "n \<in> set names"
    and "a \<noteq> b"
  shows "file_at s' (b @ [n]) = Some d"
  using assms
proof (induction names arbitrary: s)
  case (Cons k names)
  have kept: "file_at s' (b @ [n]) = Some d"
    if "rename_entries a b ns t = (Inr (), s')" "n \<notin> set ns \<or> file_at t (a @ [n]) = None"
      "file_at t (b @ [n]) = Some d" for ns t
    using that
  proof (induction ns arbitrary: t)
    case (Cons m ns)
    show ?case
    proof (cases "is_file t (a @ [m])")
      case True
      then obtain t1 where r: "fs_rename (a @ [m]) (b @ [m]) t = (Inr (), t1)"
        and rest: "rename_entries a b ns t1 = (Inr (), s')" using Cons.prems(1) by (auto simp: result_iffs)
      obtain x where x: "lookup t (a @ [m]) = Some (File x)"
        "lookup t1 = (lookup t)(a @ [m] := None, b @ [m] \<mapsto> File x)" using fs_rename_Ok [OF r] by blast
      have "m \<noteq> n" using Cons.prems(2) x(1) by auto
      then show ?thesis using Cons.IH [OF rest] Cons.prems(2,3) x(2) \<open>a \<noteq> b\<close> by (auto simp: file_at_def)
    next
      case False
      then show ?thesis using Cons.IH [of t] Cons.prems by auto
    qed
  qed simp
  show ?case
  proof (cases "is_file s (a @ [k])")
    case True
    then obtain t where r: "fs_rename (a @ [k]) (b @ [k]) s = (Inr (), t)"
      and rest: "rename_entries a b names t = (Inr (), s')" using Cons.prems(1) by (auto simp: result_iffs)
    obtain x where x: "lookup s (a @ [k]) = Some (File x)"
      "lookup t = (lookup s)(a @ [k] := None, b @ [k] \<mapsto> File x)" using fs_rename_Ok [OF r] by blast
    show ?thesis
    proof (cases "k = n")
      case True
      then have "file_at t (b @ [n]) = Some d" "file_at t (a @ [n]) = None"
        using x Cons.prems(2,4) by (auto simp: file_at_def)
      then show ?thesis using kept [OF rest] by simp
    next
      case False
      then have "file_at t (a @ [n]) = Some d" using x(2) Cons.prems(2,4) by (auto simp: file_at_def)
      then show ?thesis using Cons.IH [OF rest] Cons.prems(3,4) False by simp
    qed
  next
    case False
    then have "k \<noteq> n" using Cons.prems(2) by (auto simp: is_file_def file_at_def split: option.splits node.splits)
    then show ?thesis using Cons.IH [of s] Cons.prems False by auto
  qed
qed simp

lemma commit_dir_moves:
  assumes "commit_dir a b s = (Inr (), s')" and "file_at s (a @ [n]) = Some d" and "is_dir s a" and "a \<noteq> b"
  shows "file_at s' (b @ [n]) = Some d"
proof -
  have "path_exists s a" using assms(3) by (auto simp: path_exists_def is_dir_def)
  then obtain names t where r: "fs_read_dir a s = (Inr names, t)"
    and m: "rename_entries a b names t = (Inr (), s')" using assms(1) by (auto simp: commit_dir_def result_iffs)
  have t: "lookup t = lookup s" using fs_read_dir_lookup [OF r] .
  obtain u where u: "names = children u a" "lookup u = lookup s"
    using r by (auto simp: fs_read_dir_def split: prod.splits fault.splits if_splits dest: next_fault_lookup)
  have "n \<in> set names" using assms(2) children_mem [of u a n] u by (auto simp: file_at_Some)
  moreover have "file_at t (a @ [n]) = Some d" using t assms(2) by (simp add: file_at_Some)
  ultimately show ?thesis using rename_entries_moves [OF m] assms(4) by blast
qed

lemma staging_differs:
  "manifest_staging_path X l rid v \<noteq> manifests_dir X l rid"
  "\<not> prefix (manifest_staging_path X l rid v) (manifests_dir X l rid @ [n])"
  "\<not> prefix (snapshot_staging_path X l rid v) (manifests_dir X l rid @ [n])"
  "snapshot_staging_path X l rid v \<noteq> manifests_dir X l rid"
  "snapshots_dir X l rid \<noteq> manifests_dir X l rid"
  "snapshot_staging_path X l rid v \<noteq> manifest_staging_path X l rid v"
  "snapshot_staging_path X l rid v @ [k] \<noteq> manifest_staging_path X l rid v"
  by (auto simp: manifest_staging_path_def snapshot_staging_path_def dir_defs)

lemma atomic_commit_moves:
  assumes "atomic_commit X l rid sd s = (Inr (), s')" and "staging_in X l rid sd"
    and "file_at s (sd_manifest_staging sd @ [n]) = Some d" and "is_dir s (sd_manifest_staging sd)"
  shows "file_at s' (manifests_dir X l rid @ [n]) = Some d"
proof -
  obtain s1 s2 where
    c1: "commit_dir (sd_manifest_staging sd) (manifests_dir X l rid) s = (Inr (), s1)" and
    c2: "commit_dir (sd_snapshot_staging sd) (snapshots_dir X l rid) s1 = (Inr (), s2)" and
    c3: "cleanup_staging X l rid (sd_version_id sd) s2 = (Inr (), s')"
    using assms(1) by (auto simp: atomic_commit_def result_iffs)
  have st: "sd_manifest_staging sd = manifest_staging_path X l rid (sd_version_id sd)"
    "sd_snapshot_staging sd = snapshot_staging_path X l rid (sd_version_id sd)"
    using assms(2) by (auto simp: staging_in_def)
  let ?p = "manifests_dir X l rid @ [n]"
  have 1: "file_at s1 ?p = Some d"
    using commit_dir_moves [OF c1 assms(3,4)] st staging_differs(1) by simp
  have "touches (\<lambda>p. p \<noteq> ?p) s1 s2"
    using touches_commit_dir [of "\<lambda>p. p \<noteq> ?p" "sd_snapshot_staging sd" "snapshots_dir X l rid" s1] c2
    by (simp add: st staging_differs)
  then have 2: "file_at s2 ?p = Some d" using touches_file [of "\<lambda>p. p \<noteq> ?p" s1 s2 ?p] 1 by simp
  have "touches (\<lambda>p. p \<noteq> ?p) s2 (snd (cleanup_staging X l rid (sd_version_id sd) s2))"
    unfolding cleanup_staging_def Let_def using staging_differs(2,3)
    by (auto intro!: touches_and_then touches_remove_dir_all)
  then show ?thesis using touches_file [of "\<lambda>p. p \<noteq> ?p" s2 s' ?p] 2 c3 by simp
qed

subsection \<open>The last phase\<close>

lemma note_step:
  assumes "journal_note E op text done st = (r, st')" and "journal_apart E (cs_jr st)"
  shows "cs_vo st' = cs_vo st" and "journal_apart E (cs_jr st')"
    and "data_zone (ce_crates E) (ce_layout E) (ce_repo E) p \<Longrightarrow>
      file_at (cs_fs st') p = file_at (cs_fs st) p \<and> (is_dir (cs_fs st) p \<longrightarrow> is_dir (cs_fs st') p)"
proof -
  define e where "e = (let e = entry_new op (ce_vid E) (str_bytes text) (ce_clock E text 0)
    in if done then entry_committed e else e)"
  obtain q j s where app: "journal_append (ce_jc E) (ce_stamp E text) e (cs_jr st, cs_fs st) = (q, (j, s))"
    by (metis prod_cases3)
  then have st': "st' = st\<lparr>cs_jr := j, cs_fs := s\<rparr>"
    using assms(1) by (auto simp: journal_note_def on_jr_def Let_def e_def map_err_def split: sum.splits)
  show "cs_vo st' = cs_vo st" "journal_apart E (cs_jr st')"
    using st' journal_apart_append [OF assms(2) app] by auto
  assume "data_zone (ce_crates E) (ce_layout E) (ce_repo E) p"
  then have "\<not> journal_files (cs_jr st) p" using assms(2) by (auto simp: journal_apart_def)
  then show "file_at (cs_fs st') p = file_at (cs_fs st) p \<and> (is_dir (cs_fs st) p \<longrightarrow> is_dir (cs_fs st') p)"
    using st' touches_file touches_dir journal_append_touches(1) [OF app] by fastforce
qed

lemma on_disk_Ok: "on_disk f st = (Inr x, st') \<longleftrightarrow> (\<exists>s. f (cs_fs st) = (Inr x, s) \<and> st' = st\<lparr>cs_fs := s\<rparr>)"
  by (auto simp: on_disk_def split: prod.splits)

lemma on_vo_Ok: "on_vo f st = (Inr x, st') \<longleftrightarrow> (\<exists>vo. f (cs_vo st) = (Inr x, vo) \<and> st' = st\<lparr>cs_vo := vo\<rparr>)"
  by (auto simp: on_vo_def split: prod.splits)

lemma write_snapshot_Ok:
  assumes "write_snapshot X N l rid sn s = (Inr x, s')"
  shows "\<exists>json. sj_to_vec N sn = Some json \<and> file_at s' (snapshot_path X l rid (sn_snapshot_id sn)) = Some json"
    and "touches (prefix (snapshots_dir X l rid)) s s'"
proof -
  show "\<exists>json. sj_to_vec N sn = Some json \<and> file_at s' (snapshot_path X l rid (sn_snapshot_id sn)) = Some json"
    using assms by (auto simp: write_snapshot_def Let_def result_iffs file_at_Some split: if_splits option.splits
        dest!: fs_write_Ok fs_rename_Ok)
  have "touches (prefix (snapshots_dir X l rid)) s (snd (write_snapshot X N l rid sn s))"
    by (auto simp: write_snapshot_def Let_def snapshot_path_def with_extension_dir
        intro!: touches_and_then touches_write touches_rename split: option.splits)
  then show "touches (prefix (snapshots_dir X l rid)) s s'" using assms by simp
qed

text \<open>The chain of states of a successful last phase.\<close>

lemma finish_chain:
  assumes "commit_finish E sd m sn st = (Inr res, st')" and "journal_apart E (cs_jr st)"
    and "staging_in (ce_crates E) (ce_layout E) (ce_repo E) sd"
  obtains s1 s2 s3 s4 s5 j2 x y w v1 vo vo' where
    "res = CommitSuccess (ce_vid E) (ce_sid E)"
    "\<And>p. data_zone (ce_crates E) (ce_layout E) (ce_repo E) p \<Longrightarrow>
       file_at s1 p = file_at (cs_fs st) p \<and> (is_dir (cs_fs st) p \<longrightarrow> is_dir s1 p)"
    "write_to_staging sd (uuid_to_string (ce_crates E) (ce_sid E) @ ''.snapshot'') j2 s1 = (Inr x, s2)"
    "atomic_commit (ce_crates E) (ce_layout E) (ce_repo E) sd s2 = (Inr (), s3)"
    "\<And>p. data_zone (ce_crates E) (ce_layout E) (ce_repo E) p \<Longrightarrow> file_at s4 p = file_at s3 p"
    "write_snapshot (ce_crates E) (ce_sjson E) (ce_layout E) (ce_repo E)
       ((snapshot_to_commit E m sn)\<lparr>sn_status := SSealed\<rparr>) s4 = (Inr y, s5)"
    "\<And>p. data_zone (ce_crates E) (ce_layout E) (ce_repo E) p \<Longrightarrow> file_at (cs_fs st') p = file_at s5 p"
    "vo_transition (ce_vid E) VCommitting (cs_vo st) = (Inr v1, vo)"
    "vo_transition (ce_vid E) VSealed vo = (Inr w, vo')" "cs_vo st' = vo'"
proof -
  obtain n1 t1 where n1: "journal_note E VerifyStep ''verified'' False st = (Inr n1, t1)"
    and r1: "and_then (map_err CeVersionOps (on_vo (vo_transition (ce_vid E) VCommitting) t1))
      (\<lambda>_ st. case sj_to_vec (ce_sjson E) (snapshot_to_commit E m sn) of
         None \<Rightarrow> (Inl CeSerde, st)
       | Some snapshot_bytes \<Rightarrow>
           and_then (map_err CeStaging (on_disk (write_to_staging sd
             (uuid_to_string (ce_crates E) (ce_sid E) @ ''.snapshot'') snapshot_bytes) st))
           (\<lambda>_ st. and_then (map_err CeStaging (on_disk (atomic_commit (ce_crates E) (ce_layout E) (ce_repo E) sd) st))
           (\<lambda>_ st. and_then (journal_note E CommitStep ''staging_committed'' False st)
           (\<lambda>_ st. and_then (map_err CeVersionOps (on_vo (vo_transition (ce_vid E) VSealed) st))
           (\<lambda>_ st. and_then (map_err CeSnapshotStore (on_disk
               (write_snapshot (ce_crates E) (ce_sjson E) (ce_layout E) (ce_repo E)
                 ((snapshot_to_commit E m sn)\<lparr>sn_status := SSealed\<rparr>)) st))
           (\<lambda>_ st. and_then (journal_note E CommitStep ''sealed'' True st)
           (\<lambda>_ st. (Inr (CommitSuccess (ce_vid E) (ce_sid E)), st)))))))) = (Inr res, st')"
    using assms(1) unfolding commit_finish_def Let_def by (auto simp: and_then_Ok_iff)
  obtain v1 vo j2 x s2 s3 n4 t4 w vo' y s5 n6 where
    a: "vo_transition (ce_vid E) VCommitting (cs_vo t1) = (Inr v1, vo)"
      "write_to_staging sd (uuid_to_string (ce_crates E) (ce_sid E) @ ''.snapshot'') j2 (cs_fs t1) = (Inr x, s2)"
      "atomic_commit (ce_crates E) (ce_layout E) (ce_repo E) sd s2 = (Inr (), s3)"
      "journal_note E CommitStep ''staging_committed'' False (t1\<lparr>cs_vo := vo, cs_fs := s3\<rparr>) = (Inr n4, t4)"
      "vo_transition (ce_vid E) VSealed (cs_vo t4) = (Inr w, vo')"
      "write_snapshot (ce_crates E) (ce_sjson E) (ce_layout E) (ce_repo E)
         ((snapshot_to_commit E m sn)\<lparr>sn_status := SSealed\<rparr>) (cs_fs t4) = (Inr y, s5)"
      "journal_note E CommitStep ''sealed'' True (t4\<lparr>cs_vo := vo', cs_fs := s5\<rparr>) = (Inr n6, st')"
      "res = CommitSuccess (ce_vid E) (ce_sid E)"
    using r1 by (auto simp: and_then_Ok_iff map_err_Ok_iff on_disk_Ok on_vo_Ok split: option.splits)
  note m1 = note_step [OF n1 assms(2)]
  have "journal_apart E (cs_jr (t1\<lparr>cs_vo := vo, cs_fs := s3\<rparr>))" using m1(2) by simp
  note m4 = note_step [OF a(4) this]
  have "journal_apart E (cs_jr (t4\<lparr>cs_vo := vo', cs_fs := s5\<rparr>))" using m4(2) by simp
  note m6 = note_step [OF a(7) this]
  show thesis
    by (rule that [of "cs_fs t1" j2 x s2 s3 "cs_fs t4" y s5 v1 vo w vo'])
       (use a m1 m4 m6 in \<open>auto\<close>)
qed

subsection \<open>The manifest on the way to its place\<close>

lemma fs_write_parent:
  assumes "fs_write p d s = (Inr (), t)" and "p \<noteq> []"
  shows "is_dir t (butlast p)"
proof -
  have "butlast p \<noteq> p" using assms(2) by (metis append_butlast_last_id append_self_conv not_Cons_self2)
  moreover have "is_dir s (butlast p)"
    using assms(1) by (auto simp: fs_write_def is_dir_def split: prod.splits fault.splits if_splits
        dest: next_fault_lookup)
  ultimately show ?thesis using fs_write_Ok [OF assms(1)] by (simp add: is_dir_def)
qed

lemma stage_manifest:
  assumes "write_to_staging sd (n @ ''.manifest'') d s = (Inr x, t)"
  shows "file_at t (sd_manifest_staging sd @ [n @ ''.manifest'']) = Some d \<and> is_dir t (sd_manifest_staging sd)"
proof -
  have "ends_with (n @ ''.manifest'') ''.manifest''" by (simp add: ends_with_def suffix_def)
  then have "fs_write (sd_manifest_staging sd @ [n @ ''.manifest'']) d s = (Inr (), t)"
    using assms by (auto simp: write_to_staging_def Let_def result_iffs)
  from fs_write_Ok [OF this] fs_write_parent [OF this] show ?thesis by simp
qed

lemma stage_snapshot_frame:
  assumes "write_to_staging sd (n @ ''.snapshot'') d s = (Inr x, t)" and "staging_in X l rid sd"
    and "file_at s (sd_manifest_staging sd @ [k]) = Some e" and "is_dir s (sd_manifest_staging sd)"
  shows "file_at t (sd_manifest_staging sd @ [k]) = Some e \<and> is_dir t (sd_manifest_staging sd)"
proof -
  have "\<not> ends_with (n @ ''.snapshot'') ''.manifest''"
    by (auto simp: ends_with_def suffix_def append_eq_append_conv_if)
  moreover have "ends_with (n @ ''.snapshot'') ''.snapshot''" by (simp add: ends_with_def suffix_def)
  ultimately have w: "fs_write (sd_snapshot_staging sd @ [n @ ''.snapshot'']) d s = (Inr (), t)"
    using assms(1) by (auto simp: write_to_staging_def Let_def result_iffs split: if_splits)
  have "sd_snapshot_staging sd \<noteq> sd_manifest_staging sd"
    "sd_snapshot_staging sd @ [n @ ''.snapshot''] \<noteq> sd_manifest_staging sd"
    using assms(2) staging_differs by (auto simp: staging_in_def)
  then show ?thesis using fs_write_Ok [OF w] assms(3,4) by (auto simp: file_at_def is_dir_def)
qed

lemma verify_frame:
  "verify_chunks E cs st = (r, st') \<Longrightarrow>
   lookup (cs_fs st') = lookup (cs_fs st) \<and> cs_jr st' = cs_jr st \<and> cs_vo st' = cs_vo st"
proof (induction cs arbitrary: st)
  case (Cons c cs)
  obtain h d where c: "c = (h, d)" by fastforce
  obtain q i s where rd: "read_chunk (ce_crates E) h (cs_ix st, cs_fs st) = (q, (i, s))" by (metis prod_cases3)
  have "lookup s = lookup (cs_fs st)" using read_chunk_frame [OF rd] by simp
  then show ?case using Cons.prems Cons.IH c rd
    by (cases q) (auto simp: on_ix_def split: if_splits)
qed simp

lemma commit_chain:
  assumes "commit_backup E parent m sn chunks st = (Inr (CommitSuccess v i), st')"
    and "journal_apart E (cs_jr st)"
  obtains t sd json where
    "commit_finish E sd m sn t = (Inr (CommitSuccess v i), st')"
    "staging_in (ce_crates E) (ce_layout E) (ce_repo E) sd" "journal_apart E (cs_jr t)"
    "mj_to_vec (ce_mjson E) m = Some json"
    "file_at (cs_fs t) (sd_manifest_staging sd @ [uuid_to_string (ce_crates E) (mf_manifest_id m) @ ''.manifest'']) = Some json"
    "is_dir (cs_fs t) (sd_manifest_staging sd)"
proof -
  let ?X = "ce_crates E" and ?l = "ce_layout E" and ?rid = "ce_repo E"
  obtain x0 t0 n1 t1 sd s2 where
    c: "on_vo (create_version (ce_vid E) (ce_sid E) (ce_clock E ''version'' 0) ?rid parent) st = (Inr x0, t0)"
      "journal_note E CommitStep ''start'' False t0 = (Inr n1, t1)"
      "create_staging ?X ?l ?rid (ce_vid E) (cs_fs t1) = (Inr sd, s2)"
      "commit_staged E sd m sn chunks (t1\<lparr>cs_fs := s2\<rparr>) = (Inr (CommitSuccess v i), st')"
    using assms(1)
    by (auto simp: commit_backup_def and_then_Ok_iff map_err_Ok_iff on_disk_def split: prod.splits sum.splits)
  have sd: "staging_in ?X ?l ?rid sd" using create_staging_in [OF c(3)] by simp
  have j1: "journal_apart E (cs_jr t1)"
    using note_step(2) [OF c(2)] c(1) assms(2) by (auto simp: on_vo_Ok)
  obtain u3 t3 t4 json x5 s5 n6 t6 vo7 w7 t8 where
    d: "on_vo (start_writing (ce_vid E)) (t1\<lparr>cs_fs := s2\<rparr>) = (Inr u3, t3)"
      "write_chunks E 0 chunks t3 = (Inr (), t4)" "mj_to_vec (ce_mjson E) m = Some json"
      "write_to_staging sd (uuid_to_string ?X (mf_manifest_id m) @ ''.manifest'') json (cs_fs t4) = (Inr x5, s5)"
      "journal_note E CommitStep ''chunks_written'' False (t4\<lparr>cs_fs := s5\<rparr>) = (Inr n6, t6)"
      "vo_transition (ce_vid E) VVerifying (cs_vo t6) = (Inr w7, vo7)"
      "verify_chunks E chunks (t6\<lparr>cs_vo := vo7\<rparr>) = (Inr True, t8)"
      "commit_finish E sd m sn t8 = (Inr (CommitSuccess v i), st')"
    using c(4)
    by (auto simp: commit_staged_def and_then_Ok_iff map_err_Ok_iff on_disk_Ok on_vo_Ok[of "vo_transition _ _"]
        split: option.splits if_splits)
  have "cs_jr (snd (write_chunks E k cs s)) = cs_jr s" for k cs s
  proof (induction cs arbitrary: k s)
    case (Cons c cs)
    then show ?case
      by (cases c) (auto simp: on_ix_def intro!: and_then_inv [where P = "\<lambda>t. cs_jr t = cs_jr s"] split: prod.splits)
  qed simp
  from this [of 0 chunks t3] have j4: "journal_apart E (cs_jr (t4\<lparr>cs_fs := s5\<rparr>))" using d(1,2) j1 by (auto simp: on_vo_Ok)
  note m6 = note_step [OF d(5) j4]
  let ?p = "sd_manifest_staging sd" and ?n = "uuid_to_string ?X (mf_manifest_id m) @ ''.manifest''"
  have dz: "data_zone ?X ?l ?rid (?p @ q)" for q
    using sd by (simp add: staging_in_def meta_in_data meta_zone_append)
  have "file_at (cs_fs t6) (?p @ [?n]) = Some json" "is_dir (cs_fs t6) ?p"
    using stage_manifest [OF d(4)] m6(3) [OF dz] dz [of "[]"] m6(3) [of ?p] by auto
  then have "file_at (cs_fs t8) (?p @ [?n]) = Some json" "is_dir (cs_fs t8) ?p"
    using verify_frame [OF d(7)] by (auto simp: file_at_def is_dir_def)
  moreover have "journal_apart E (cs_jr t8)" using verify_frame [OF d(7)] m6(2) by simp
  ultimately show thesis using that d(3,8) sd by blast
qed

subsection \<open>Properties\<close>

definition sealed_snapshot :: "commit_env \<Rightarrow> manifest \<Rightarrow> snapshot \<Rightarrow> snapshot" where
  "sealed_snapshot E m sn = (snapshot_to_commit E m sn)\<lparr>sn_status := SSealed\<rparr>"

lemma commit_snapshot_file:
  assumes "commit_backup E parent m sn chunks st = (Inr (CommitSuccess v i), st')"
    and "journal_apart E (cs_jr st)"
  shows "v = ce_vid E \<and> i = ce_sid E \<and> version_state (ce_vid E) st' = Some VSealed \<and>
     (\<exists>json. sj_to_vec (ce_sjson E) (sealed_snapshot E m sn) = Some json \<and>
        lookup (cs_fs st') (snapshot_path (ce_crates E) (ce_layout E) (ce_repo E) (ce_sid E)) = Some (File json))"
proof -
  let ?X = "ce_crates E" and ?l = "ce_layout E" and ?rid = "ce_repo E"
  let ?sealed = "(snapshot_to_commit E m sn)\<lparr>sn_status := SSealed\<rparr>"
  obtain t sd where f: "commit_finish E sd m sn t = (Inr (CommitSuccess v i), st')"
    "staging_in ?X ?l ?rid sd" "journal_apart E (cs_jr t)"
    using commit_chain [OF assms(1,2)] by blast
  obtain s4 y s5 w vo vo' where
    res: "CommitSuccess v i = CommitSuccess (ce_vid E) (ce_sid E)" and
    w: "write_snapshot ?X (ce_sjson E) ?l ?rid ?sealed s4 = (Inr y, s5)" and
    k: "\<And>p. data_zone ?X ?l ?rid p \<Longrightarrow> file_at (cs_fs st') p = file_at s5 p" and
    vo: "vo_transition (ce_vid E) VSealed vo = (Inr w, vo')" "cs_vo st' = vo'"
    by (rule finish_chain [OF f(1,3,2)]) blast
  have id: "sn_snapshot_id ?sealed = ce_sid E" by (simp add: snapshot_to_commit_def)
  obtain json where json: "sj_to_vec (ce_sjson E) ?sealed = Some json"
    "file_at s5 (snapshot_path ?X ?l ?rid (ce_sid E)) = Some json"
    using write_snapshot_Ok(1) [OF w] id by auto
  have "lookup (cs_fs st') (snapshot_path ?X ?l ?rid (ce_sid E)) = Some (File json)"
    using json(2) k [of "snapshot_path ?X ?l ?rid (ce_sid E)"] by (simp add: meta_in_data file_at_Some)
  moreover have "version_state (ce_vid E) st' = Some VSealed"
    using vo_transition_Ok(1) [OF vo(1)] vo(2) by (auto simp: version_state_def)
  ultimately show ?thesis using res json(1) by (simp add: sealed_snapshot_def)
qed

lemma commit_disk:
  assumes "commit_backup E parent m sn chunks st = (Inr (CommitSuccess v i), st')"
    and "journal_apart E (cs_jr st)"
    and "\<forall>x b. sj_to_vec (ce_sjson E) x = Some b \<longrightarrow> sj_from_slice (ce_sjson E) b = Some x"
    and "faults (cs_fs st') = []"
  shows "v = ce_vid E \<and> i = ce_sid E \<and> version_state (ce_vid E) st' = Some VSealed \<and>
     read_snapshot (ce_crates E) (ce_sjson E) (ce_layout E) (ce_repo E) (ce_sid E) (cs_fs st')
          = (Inr (sealed_snapshot E m sn), cs_fs st')"
  using commit_snapshot_file [OF assms(1,2)] assms(3,4) by (auto simp: read_snapshot_def path_exists_def fs_read_def)

text \<open>(C24) A successful commit: the answer names the new version and snapshot, the version is
  sealed in the registry, the snapshot file holds the serialised snapshot with status
  \<open>Sealed\<close>, the verification mark and the manifest checksum, and reading it back (the
  serialiser being invertible) returns that snapshot.\<close>

theorem commit_success:
  assumes "commit_backup E parent m sn chunks st = (Inr (CommitSuccess v i), st')"
    and "journal_apart E (cs_jr st)"
    and "\<forall>x b. sj_to_vec (ce_sjson E) x = Some b \<longrightarrow> sj_from_slice (ce_sjson E) b = Some x"
    and "faults (cs_fs st') = []"
  shows "v = ce_vid E \<and> i = ce_sid E \<and> version_state (ce_vid E) st' = Some VSealed \<and>
     (\<exists>sealed. read_snapshot (ce_crates E) (ce_sjson E) (ce_layout E) (ce_repo E) (ce_sid E) (cs_fs st')
          = (Inr sealed, cs_fs st') \<and>
        sn_status sealed = SSealed \<and> verified (sn_verify_info sealed) \<and> sn_snapshot_id sealed = ce_sid E \<and>
        checksum (sn_verify_info sealed) = Some (compute_hash (ce_crates E) (ce_mjson E) m) \<and>
        sn_file_tree sealed = sn_file_tree sn \<and> sn_chunk_mapping sealed = sn_chunk_mapping sn)"
  using commit_disk [OF assms] by (simp add: sealed_snapshot_def snapshot_to_commit_def)

text \<open>The manifest file of a successful commit holds the bare JSON.\<close>

lemma commit_manifest_bytes:
  assumes "commit_backup E parent m sn chunks st = (Inr (CommitSuccess v i), st')"
    and "journal_apart E (cs_jr st)"
  shows "\<exists>json. mj_to_vec (ce_mjson E) m = Some json \<and>
    file_at (cs_fs st') (manifest_path (ce_crates E) (ce_layout E) (ce_repo E) (mf_manifest_id m)) = Some json"
proof -
  let ?X = "ce_crates E" and ?l = "ce_layout E" and ?rid = "ce_repo E"
  let ?n = "uuid_to_string ?X (mf_manifest_id m) @ ''.manifest''"
  obtain t sd json where f: "commit_finish E sd m sn t = (Inr (CommitSuccess v i), st')"
    "staging_in ?X ?l ?rid sd" "journal_apart E (cs_jr t)" "mj_to_vec (ce_mjson E) m = Some json"
    "file_at (cs_fs t) (sd_manifest_staging sd @ [?n]) = Some json" "is_dir (cs_fs t) (sd_manifest_staging sd)"
    using commit_chain [OF assms] by blast
  obtain s1 j2 x s2 s3 s4 y s5 where
    1: "\<And>p. data_zone ?X ?l ?rid p \<Longrightarrow> file_at s1 p = file_at (cs_fs t) p \<and> (is_dir (cs_fs t) p \<longrightarrow> is_dir s1 p)" and
    2: "write_to_staging sd (uuid_to_string ?X (ce_sid E) @ ''.snapshot'') j2 s1 = (Inr x, s2)" and
    3: "atomic_commit ?X ?l ?rid sd s2 = (Inr (), s3)" and
    4: "\<And>p. data_zone ?X ?l ?rid p \<Longrightarrow> file_at s4 p = file_at s3 p" and
    5: "write_snapshot ?X (ce_sjson E) ?l ?rid ((snapshot_to_commit E m sn)\<lparr>sn_status := SSealed\<rparr>) s4 = (Inr y, s5)" and
    6: "\<And>p. data_zone ?X ?l ?rid p \<Longrightarrow> file_at (cs_fs st') p = file_at s5 p"
    by (rule finish_chain [OF f(1,3,2)]) blast
  have dz: "data_zone ?X ?l ?rid (sd_manifest_staging sd @ q)" for q
    using f(2) by (simp add: staging_in_def meta_in_data meta_zone_append)
  have "file_at s1 (sd_manifest_staging sd @ [?n]) = Some json" "is_dir s1 (sd_manifest_staging sd)"
    using 1 [OF dz, of "[?n]"] 1 [OF dz, of "[]"] f(5,6) by auto
  then have "file_at s2 (sd_manifest_staging sd @ [?n]) = Some json" "is_dir s2 (sd_manifest_staging sd)"
    using stage_snapshot_frame [OF 2 f(2)] by auto
  then have "file_at s3 (manifests_dir ?X ?l ?rid @ [?n]) = Some json"
    by (rule atomic_commit_moves [OF 3 f(2)])
  moreover have "\<not> prefix (snapshots_dir ?X ?l ?rid) (manifests_dir ?X ?l ?rid @ [?n])"
    by (auto simp: dir_defs)
  ultimately have "file_at s5 (manifests_dir ?X ?l ?rid @ [?n]) = Some json"
    using touches_file [OF write_snapshot_Ok(2) [OF 5]] 4 [of "manifests_dir ?X ?l ?rid @ [?n]"] meta_in_data
    by simp
  then show ?thesis using 6 f(4) by (simp add: manifest_path_def meta_in_data)
qed

text \<open>(C38) The committed manifest cannot be read back: the commit stages the bare JSON, while
  \<open>read_manifest\<close> expects a four-byte length in front of it.  The JSON text of a manifest
  starts with the name of its first field, and those four bytes taken as a length exceed
  every manifest below 1.5 GB.\<close>

theorem committed_manifest_is_unreadable:
  assumes "commit_backup E parent m sn chunks st = (Inr (CommitSuccess v i), st')"
    and "journal_apart E (cs_jr st)"
    and "\<forall>json. mj_to_vec (ce_mjson E) m = Some json \<longrightarrow>
        take 4 json = [123, 34, 109, 97] \<and> length json < 1500000000"
    and "faults (cs_fs st') = []"
  shows "read_manifest (ce_crates E) (ce_mjson E) (ce_layout E) (ce_repo E) (mf_manifest_id m) (cs_fs st')
     = (Inl MsTruncated, cs_fs st')"
proof -
  obtain json where j: "mj_to_vec (ce_mjson E) m = Some json"
    "lookup (cs_fs st') (manifest_path (ce_crates E) (ce_layout E) (ce_repo E) (mf_manifest_id m)) = Some (File json)"
    using commit_manifest_bytes [OF assms(1,2)] by (auto simp: file_at_Some)
  then have h: "take 4 json = [123, 34, 109, 97]" "length json < 1500000000" using assms(3) by auto
  have "decode_manifest (ce_mjson E) json = Inl MsTruncated"
    using h by (simp add: decode_manifest_def)
  then show ?thesis
    using j(2) assms(4) by (simp add: read_manifest_def path_exists_def fs_read_def)
qed

text \<open>The framed format does round-trip: decoding what \<open>encode_manifest\<close> produced returns the
  manifest, for JSON below the 4 GB its length field can express, and every strict prefix is
  refused as truncated.\<close>

theorem manifest_frame_roundtrip:
  assumes "encode_manifest M m = Inr bs" and "\<forall>b. mj_to_vec M m = Some b \<longrightarrow> length b < 2 ^ 32 \<and> mj_from_slice M b = Some m"
  shows "decode_manifest M bs = Inr m \<and> (\<forall>p. strict_prefix p bs \<longrightarrow> decode_manifest M p = Inl MsTruncated)"
proof -
  obtain b where b: "mj_to_vec M m = Some b" "bs = le_bytes 4 (length b) @ b" "length b < 2 ^ 32" "mj_from_slice M b = Some m"
    using assms by (auto simp: encode_manifest_def split: option.splits)
  have len: "of_le_bytes (le_bytes 4 (length b)) = length b" using b(3) by (simp del: le_bytes.simps)
  have "decode_manifest M bs = Inr m" using b len by (simp add: decode_manifest_def Let_def del: le_bytes.simps)
  moreover have "decode_manifest M p = Inl MsTruncated" if "strict_prefix p bs" for p
    using that unfolding b(2)
  proof (cases rule: strict_prefix_cases)
    case left
    then show ?thesis using prefix_length_less [OF left] by (simp add: decode_manifest_def del: le_bytes.simps)
  next
    case (right q)
    then show ?thesis using prefix_length_less [OF right(2)] len
      by (simp add: decode_manifest_def Let_def del: le_bytes.simps)
  qed
  ultimately show ?thesis by blast
qed

subsection \<open>Witnesses\<close>

definition sample_manifest :: manifest where
  "sample_manifest = manifest_new [5] [2] [] [\<lparr>cr_chunk_hash = [7], cr_offset = 0, cr_size = 1\<rparr>] 0"

definition sample_snapshot :: snapshot where
  "sample_snapshot = (snapshot_new [2] [1] \<lparr>hostname = ''h'', os_type = ''l'', agent_version = ''1''\<rparr> 0)
     \<lparr>sn_file_tree := \<lparr>ft_root = ''r'', ft_entries =
        [\<lparr>fe_path = ''f'', fe_size = 1, fe_is_directory = False, fe_chunk_hashes = [[7]]\<rparr>]\<rparr>\<rparr>"

definition sample_env0 :: commit_env where
  "sample_env0 = \<lparr>ce_crates = sample_crates, ce_ijson = sample_json,
     ce_mjson = \<lparr>mj_to_vec = (\<lambda>_. Some [123, 34, 109, 97]), mj_from_slice = (\<lambda>_. Some sample_manifest)\<rparr>,
     ce_sjson = \<lparr>sj_to_vec = (\<lambda>_. None), sj_from_slice = (\<lambda>_. None)\<rparr>,
     ce_jc = sample_jc, ce_layout = root_layout, ce_repo = [9], ce_vid = [1], ce_sid = [2],
     ce_clock = (\<lambda>_ _. 0), ce_stamp = (\<lambda>_. ''0'')\<rparr>"

definition sample_written :: snapshot where
  "sample_written = snapshot_to_commit sample_env0 sample_manifest sample_snapshot"

definition sample_env :: commit_env where
  "sample_env = sample_env0\<lparr>ce_sjson :=
     \<lparr>sj_to_vec = (\<lambda>x. if x = sample_written then Some [1]
        else if x = sample_written\<lparr>sn_status := SSealed\<rparr> then Some [2] else None),
      sj_from_slice = (\<lambda>b. if b = [1] then Some sample_written
        else if b = [2] then Some (sample_written\<lparr>sn_status := SSealed\<rparr>) else None)\<rparr>\<rparr>"

definition sample_commit_st :: commit_st where
  "sample_commit_st = \<lparr>cs_vo = version_ops_new, cs_ix = in_memory,
     cs_jr = \<lparr>j_path = [''j''], j_handle = [''j''], j_rotation_size = 100000, j_current_size = 0\<rparr>,
     cs_fs = \<lparr>nodes = [([''j''], File [])], faults = []\<rparr>\<rparr>"

lemma length_encode_entry [simp]: "length (encode_entry C e) = 18 + length (je_job_id e) + length (je_payload e)"
  by (simp add: encode_entry_def encode_body_def)

lemma sample_env_fields [simp]:
  "ce_crates sample_env = sample_crates" "ce_ijson sample_env = sample_json" "ce_jc sample_env = sample_jc"
  "ce_layout sample_env = root_layout" "ce_repo sample_env = [9]" "ce_vid sample_env = [1]" "ce_sid sample_env = [2]"
  "ce_clock sample_env t k = 0" "ce_stamp sample_env t = ''0''"
  "mj_to_vec (ce_mjson sample_env) m = Some [123, 34, 109, 97]"
  "snapshot_to_commit sample_env sample_manifest sample_snapshot = sample_written"
  "sj_to_vec (ce_sjson sample_env) sample_written = Some [1]"
  "sj_to_vec (ce_sjson sample_env) (sample_written\<lparr>sn_status := SSealed\<rparr>) = Some [2]"
  "mf_manifest_id sample_manifest = [5]" "sn_snapshot_id sample_written = [2]" "verified (sn_verify_info sample_written)"
proof -
  have "sn_status sample_written \<noteq> SSealed" by (simp add: sample_written_def snapshot_to_commit_def)
  then show "sj_to_vec (ce_sjson sample_env) (sample_written\<lparr>sn_status := SSealed\<rparr>) = Some [2]"
    by (simp add: sample_env_def) (metis snapshot.select_convs(10) snapshot.surjective snapshot.update_convs(10))
qed (simp_all add: sample_manifest_def manifest_new_def sample_env_def sample_env0_def sample_written_def snapshot_to_commit_def)

lemmas sample_fs_simps = fs_append_def fs_write_def fs_rename_def fs_read_def fs_read_dir_def
  fs_remove_dir_all_def fs_create_dir_all_def lookup_def next_fault_def set_node_def del_node_def
  is_dir_def is_file_def path_exists_def children_def

lemmas sample_commit_simps = create_version_def version_ops_new_def seq_of_def repo_ids_def
  vo_transition_def start_writing_def version_new_def can_transition_to_def
  on_vo_def on_ix_def on_jr_def on_disk_def journal_note_def entry_new_def entry_committed_def
  str_bytes_def journal_append_def repo_root_def manifests_dir_def snapshots_dir_def chunks_dir_def
  bucket_path_def manifest_staging_path_def snapshot_staging_path_def snapshot_path_def with_extension_def
  file_stem_def create_staging_def write_to_staging_def ends_with_def suffix_def atomic_commit_def
  commit_dir_def cleanup_staging_def write_snapshot_def write_chunk_def read_chunk_def index_lookup_def
  register_def persist_def Let_def

lemma sample_commit:
  "\<exists>st'. commit_backup sample_env None sample_manifest sample_snapshot [([7], [7])] sample_commit_st
     = (Inr (CommitSuccess [1] [2]), st') \<and> faults (cs_fs st') = [] \<and> version_state [1] st' = Some VSealed"
  by (simp add: commit_backup_def commit_staged_def commit_finish_def sample_fs_simps sample_commit_simps sample_commit_st_def
     in_memory_def version_state_def
    sample_crates_def
     split del: if_split)

lemma sample_apart: "journal_apart E (cs_jr sample_commit_st)" if "ce_layout E = root_layout"
  using that
  by (auto simp: journal_apart_def journal_files_def sample_commit_st_def archive_path_def data_zone_def
      meta_zone_def dir_defs repo_root_def)

lemma sample_commit_inv: "commit_inv sample_env sample_commit_st"
  using sample_apart [of sample_env] sample_store_inv by (simp add: commit_inv_def sample_commit_st_def)

lemma sample_snapshot_json:
  "\<forall>x b. sj_to_vec (ce_sjson sample_env) x = Some b \<longrightarrow> sj_from_slice (ce_sjson sample_env) b = Some x"
  by (auto simp: sample_env_def split: if_splits)

theorem commit_sealed_is_complete_witness:
  "\<exists>r st'. commit_backup sample_env None sample_manifest sample_snapshot [([7], [7])] sample_commit_st = (r, st') \<and>
     version_state [1] st' = Some VSealed \<and> all_stored sample_env [([7], [7])] st'"
proof -
  obtain st' where c: "commit_backup sample_env None sample_manifest sample_snapshot [([7], [7])] sample_commit_st
      = (Inr (CommitSuccess [1] [2]), st')" "version_state [1] st' = Some VSealed"
    using sample_commit by blast
  have "version_state (ce_vid sample_env) sample_commit_st = None"
    by (simp add: version_state_def sample_commit_st_def version_ops_new_def)
  from commit_sealed_is_complete [OF sample_commit_inv this c(1)] c show ?thesis by auto
qed

theorem commit_success_witness:
  "\<exists>st' sealed. commit_backup sample_env None sample_manifest sample_snapshot [([7], [7])] sample_commit_st
      = (Inr (CommitSuccess [1] [2]), st') \<and>
     read_snapshot sample_crates (ce_sjson sample_env) root_layout [9] [2] (cs_fs st') = (Inr sealed, cs_fs st') \<and>
     sn_status sealed = SSealed"
proof -
  obtain st' where c: "commit_backup sample_env None sample_manifest sample_snapshot [([7], [7])] sample_commit_st
      = (Inr (CommitSuccess [1] [2]), st')" "faults (cs_fs st') = []"
    using sample_commit by blast
  from commit_success [OF c(1) sample_apart sample_snapshot_json c(2)] c(1) show ?thesis by auto
qed

theorem committed_manifest_is_unreadable_witness:
  "\<exists>st'. commit_backup sample_env None sample_manifest sample_snapshot [([7], [7])] sample_commit_st
      = (Inr (CommitSuccess [1] [2]), st') \<and>
     read_manifest sample_crates (ce_mjson sample_env) root_layout [9] [5] (cs_fs st') = (Inl MsTruncated, cs_fs st')"
proof -
  obtain st' where c: "commit_backup sample_env None sample_manifest sample_snapshot [([7], [7])] sample_commit_st
      = (Inr (CommitSuccess [1] [2]), st')" "faults (cs_fs st') = []"
    using sample_commit by blast
  from committed_manifest_is_unreadable [OF c(1) sample_apart _ c(2)] c(1) show ?thesis by auto
qed

theorem manifest_frame_roundtrip_witness:
  "encode_manifest (ce_mjson sample_env0) sample_manifest = Inr [4, 0, 0, 0, 123, 34, 109, 97] \<and>
   decode_manifest (ce_mjson sample_env0) [4, 0, 0, 0, 123, 34, 109, 97] = Inr sample_manifest"
proof -
  have e: "encode_manifest (ce_mjson sample_env0) sample_manifest = Inr [4, 0, 0, 0, 123, 34, 109, 97]"
  proof -
    have "le_bytes (Suc (Suc (Suc (Suc 0)))) 4 = [4, 0, 0, 0]" by simp
    moreover have "(4::nat) = Suc (Suc (Suc (Suc 0)))" by simp
    ultimately have "le_bytes 4 4 = [4, 0, 0, 0]" by metis
    then show ?thesis by (simp add: encode_manifest_def sample_env0_def)
  qed
  have "\<forall>b. mj_to_vec (ce_mjson sample_env0) sample_manifest = Some b \<longrightarrow>
      length b < 2 ^ 32 \<and> mj_from_slice (ce_mjson sample_env0) b = Some sample_manifest"
    by (simp add: sample_env0_def)
  from manifest_frame_roundtrip [OF e this] e show ?thesis by simp
qed

end
