(* ===== verification/Badou_Recovery.thy ===== *)
theory Badou_Recovery
  imports Badou_Commit_Success
begin

text \<open>
  Recovery (\<open>badou-recovery\<close>) and integrity checks (\<open>badou-verify\<close>).  Both read the index
  and the disk; reads consume the fault plan.  The texts of reports and failures carry
  the values they are formatted from.
\<close>

subsection \<open>Recovery\<close>

datatype recovery_error =
  ReSnapshotNotFound uuid | ReSnapshotCorrupted uuid | ReNotSealed snapshot_status
| ReChunkNotFound string | ReHashMismatch string string

record recovery_request =
  rq_snapshot_id :: uuid
  rq_file_filter :: "string list option"

record recovered_file =
  rf_path :: string
  rf_size :: u64
  rf_data :: bytes
  rf_chunk_hashes :: "string list"

record recovery_failure =
  rl_path :: string
  rl_reason :: recovery_error

record recovery_result =
  rr_snapshot_id :: uuid
  rr_version_id :: uuid
  rr_recovered_files :: "recovered_file list"
  rr_failed_files :: "recovery_failure list"
  rr_total_bytes :: u64

text \<open>The loop of \<open>recover_file\<close> over the chunk hashes, answering the concatenated bytes.\<close>

fun recover_chunks :: "crates \<Rightarrow> chunk_hash list \<Rightarrow> ist \<Rightarrow> (recovery_error + bytes) \<times> ist" where
  "recover_chunks X [] st = (Inr [], st)"
| "recover_chunks X (h # hs) st =
     and_then (map_err (\<lambda>_. ReChunkNotFound (hex_encode X h)) (read_chunk X h st))
     (\<lambda>data st.
        if blake3_hash X data \<noteq> h
        then (Inl (ReHashMismatch (hex_encode X h) (hex_encode X (blake3_hash X data))), st)
        else and_then (recover_chunks X hs st) (\<lambda>rest st. (Inr (data @ rest), st)))"

definition recover_file :: "crates \<Rightarrow> file_entry \<Rightarrow> ist \<Rightarrow> (recovery_error + recovered_file) \<times> ist" where
  "recover_file X entry st =
     and_then (recover_chunks X (fe_chunk_hashes entry) st)
     (\<lambda>data st. (Inr \<lparr>rf_path = fe_path entry, rf_size = of_nat (length data), rf_data = data,
        rf_chunk_hashes = map (hex_encode X) (fe_chunk_hashes entry)\<rparr>, st))"

fun recover_entries ::
  "crates \<Rightarrow> string set option \<Rightarrow> file_entry list \<Rightarrow> recovery_result \<Rightarrow> ist \<Rightarrow> recovery_result \<times> ist" where
  "recover_entries X flt [] res st = (res, st)"
| "recover_entries X flt (e # es) res st =
     (if (case flt of Some f \<Rightarrow> fe_path e \<notin> f | None \<Rightarrow> False) then recover_entries X flt es res st
      else case recover_file X e st of
        (Inr file, st) \<Rightarrow>
          recover_entries X flt es (res\<lparr>rr_total_bytes := rr_total_bytes res + rf_size file,
            rr_recovered_files := rr_recovered_files res @ [file]\<rparr>) st
      | (Inl x, st) \<Rightarrow>
          recover_entries X flt es (res\<lparr>rr_failed_files := rr_failed_files res @
            [\<lparr>rl_path = fe_path e, rl_reason = x\<rparr>]\<rparr>) st)"

definition recover ::
  "crates \<Rightarrow> snapshot_json \<Rightarrow> layout \<Rightarrow> uuid \<Rightarrow> recovery_request \<Rightarrow> ist \<Rightarrow> (recovery_error + recovery_result) \<times> ist" where
  "recover X N l rid req st =
     and_then (map_err (\<lambda>_. ReSnapshotNotFound (rq_snapshot_id req))
       (on_fs (read_snapshot X N l rid (rq_snapshot_id req)) st))
     (\<lambda>sn st.
        if sn_status sn = SCorrupt then (Inl (ReSnapshotCorrupted (rq_snapshot_id req)), st)
        else if sn_status sn \<noteq> SSealed then (Inl (ReNotSealed (sn_status sn)), st)
        else case recover_entries X (map_option set (rq_file_filter req)) (ft_entries (sn_file_tree sn))
               \<lparr>rr_snapshot_id = rq_snapshot_id req, rr_version_id = sn_version_id sn,
                rr_recovered_files = [], rr_failed_files = [], rr_total_bytes = 0\<rparr> st of
               (res, st) \<Rightarrow> (Inr res, st))"

definition recovery_verify_sealed ::
  "crates \<Rightarrow> snapshot_json \<Rightarrow> layout \<Rightarrow> uuid \<Rightarrow> uuid \<Rightarrow> ist \<Rightarrow> (recovery_error + bool) \<times> ist" where
  "recovery_verify_sealed X N l rid sid st =
     and_then (map_err (\<lambda>_. ReSnapshotNotFound sid) (on_fs (read_snapshot X N l rid sid) st))
     (\<lambda>sn st. (Inr (sn_status sn = SSealed), st))"

subsection \<open>Integrity checks\<close>

datatype verify_status = VsPass | VsFail | VsMismatch string string | VsMissing

datatype verify_target =
  VtChunk string | VtManifest uuid | VtSnapshot uuid | VtVersion uuid | VtRepository uuid

datatype verify_mode = Quick | Full

record verify_report =
  vp_target :: verify_target
  vp_status :: verify_status
  vp_checked_at :: timestamp

definition verify_chunk :: "crates \<Rightarrow> timestamp \<Rightarrow> chunk_hash \<Rightarrow> ist \<Rightarrow> verify_report \<times> ist" where
  "verify_chunk X now h st =
     (let rep = (\<lambda>s. \<lparr>vp_target = VtChunk (hex_encode X h), vp_status = s, vp_checked_at = now\<rparr>) in
      case read_chunk X h st of
        (Inr data, st) \<Rightarrow>
          (rep (if blake3_hash X data = h then VsPass
                else VsMismatch (hex_encode X h) (hex_encode X (blake3_hash X data))), st)
      | (Inl (CsNotFound _), st) \<Rightarrow> (rep VsMissing, st)
      | (Inl _, st) \<Rightarrow> (rep VsFail, st))"

fun verify_refs :: "crates \<Rightarrow> timestamp \<Rightarrow> chunk_ref list \<Rightarrow> ist \<Rightarrow> verify_report option \<times> ist" where
  "verify_refs X now [] st = (None, st)"
| "verify_refs X now (r # rs) st = (case verify_chunk X now (cr_chunk_hash r) st of
     (rep, st) \<Rightarrow> if vp_status rep \<noteq> VsPass then (Some rep, st) else verify_refs X now rs st)"

definition verify_manifest ::
  "crates \<Rightarrow> manifest_json \<Rightarrow> layout \<Rightarrow> uuid \<Rightarrow> timestamp \<Rightarrow> uuid \<Rightarrow> ist \<Rightarrow> verify_report \<times> ist" where
  "verify_manifest X M l rid now mid st =
     (let rep = (\<lambda>s. \<lparr>vp_target = VtManifest mid, vp_status = s, vp_checked_at = now\<rparr>) in
      case on_fs (read_manifest X M l rid mid) st of
        (Inr m, st) \<Rightarrow>
          (case verify_refs X now (mf_chunk_refs m) st of
             (Some bad, st) \<Rightarrow> (bad, st)
           | (None, st) \<Rightarrow> (rep VsPass, st))
      | (Inl (MsNotFound _), st) \<Rightarrow> (rep VsMissing, st)
      | (Inl _, st) \<Rightarrow> (rep VsFail, st))"

definition verify_snapshot ::
  "crates \<Rightarrow> snapshot_json \<Rightarrow> layout \<Rightarrow> uuid \<Rightarrow> timestamp \<Rightarrow> uuid \<Rightarrow> ist \<Rightarrow> verify_report \<times> ist" where
  "verify_snapshot X N l rid now sid st =
     (let rep = (\<lambda>s. \<lparr>vp_target = VtSnapshot sid, vp_status = s, vp_checked_at = now\<rparr>) in
      case on_fs (read_snapshot X N l rid sid) st of
        (Inr sn, st) \<Rightarrow>
          if \<not> verified (sn_verify_info sn) \<and> sn_status sn = SSealed then (rep VsMissing, st)
          else (rep VsPass, st)
      | (Inl (SsNotFound _), st) \<Rightarrow> (rep VsMissing, st)
      | (Inl _, st) \<Rightarrow> (rep VsFail, st))"

definition verify_repository :: "timestamp \<Rightarrow> badou_index \<Rightarrow> verify_report list" where
  "verify_repository now i =
     map (\<lambda>(h, e). \<lparr>vp_target = VtChunk h,
        vp_status = (if ie_status e = IGcPending then VsPass else VsFail), vp_checked_at = now\<rparr>)
       (gc_candidates i)"

text \<open>The derived \<open>Debug\<close> text of a status.\<close>

fun status_debug :: "chunk_index_status \<Rightarrow> string" where
  "status_debug IActive = ''Active''"
| "status_debug IGcPending = ''GcPending''"
| "status_debug IPurged = ''Purged''"

definition verify_ref_count_consistency :: "timestamp \<Rightarrow> badou_index \<Rightarrow> verify_report list" where
  "verify_ref_count_consistency now i =
     map (\<lambda>(h, e). \<lparr>vp_target = VtChunk h,
        vp_status = VsMismatch ''GcPending'' (status_debug (ie_status e)), vp_checked_at = now\<rparr>)
       (filter (\<lambda>(h, e). ie_ref_count e = 0 \<and> ie_status e \<noteq> IGcPending) (gc_candidates i))"

subsection \<open>The check schedule\<close>

datatype verify_schedule = Immediate | ScheduledEvery u64 | Background

datatype verify_scheduler_error = VseAlreadyRunning | VseVerify string

record verify_record =
  vr_started_at :: timestamp
  vr_finished_at :: timestamp
  vr_total_checks :: nat
  vr_passed :: nat
  vr_failed :: nat
  vr_schedule :: verify_schedule

record verify_scheduler =
  vsch_schedule :: verify_schedule
  vsch_history :: "verify_record list"
  vsch_running :: bool

definition verify_scheduler_new :: "verify_schedule \<Rightarrow> verify_scheduler" where
  "verify_scheduler_new x = \<lparr>vsch_schedule = x, vsch_history = [], vsch_running = False\<rparr>"

definition verify_start :: "verify_scheduler \<Rightarrow> (verify_scheduler_error + unit) \<times> verify_scheduler" where
  "verify_start v = (if vsch_running v then (Inl VseAlreadyRunning, v) else (Inr (), v\<lparr>vsch_running := True\<rparr>))"

definition verify_finish :: "timestamp \<Rightarrow> nat \<Rightarrow> nat \<Rightarrow> nat \<Rightarrow> verify_scheduler \<Rightarrow> verify_scheduler" where
  "verify_finish now checks passed failed v = v\<lparr>
     vsch_history := vsch_history v @ [\<lparr>vr_started_at = now, vr_finished_at = now, vr_total_checks = checks,
       vr_passed = passed, vr_failed = failed, vr_schedule = vsch_schedule v\<rparr>],
     vsch_running := False\<rparr>"

definition update_schedule :: "verify_schedule \<Rightarrow> verify_scheduler \<Rightarrow> verify_scheduler" where
  "update_schedule x v = v\<lparr>vsch_schedule := x\<rparr>"

definition last_result :: "verify_scheduler \<Rightarrow> verify_record option" where
  "last_result v = (if vsch_history v = [] then None else Some (last (vsch_history v)))"

subsection \<open>Reading back\<close>

lemma content_frame: "read_chunk X h st = (r, st') \<Longrightarrow> chunk_content X st' = chunk_content X st"
  using cs.get_frame by blast

text \<open>The bytes \<open>ds\<close> are the stored contents of the hashes \<open>hs\<close>, with matching digests.\<close>

definition contents_of :: "crates \<Rightarrow> ist \<Rightarrow> chunk_hash list \<Rightarrow> bytes list \<Rightarrow> bool" where
  "contents_of X st hs ds \<longleftrightarrow> list_all2 (\<lambda>h d. blake3_hash X d = h \<and> chunk_content X st h = Some d) hs ds"

lemma recover_chunks_sound:
  "recover_chunks X hs st = (r, st') \<Longrightarrow> chunk_content X st' = chunk_content X st \<and>
     (\<forall>data. r = Inr data \<longrightarrow> (\<exists>ds. contents_of X st hs ds \<and> data = concat ds))"
proof (induction hs arbitrary: st r st')
  case (Cons h hs)
  obtain q st1 where rd: "read_chunk X h st = (q, st1)" by (rule prod.exhaust)
  obtain p st2 where rest: "recover_chunks X hs st1 = (p, st2)" by (rule prod.exhaust)
  have f: "chunk_content X st1 = chunk_content X st" using content_frame [OF rd] .
  note IH = Cons.IH [OF rest]
  show ?case
  proof (cases q)
    case (Inl e)
    then show ?thesis using Cons.prems rd f by auto
  next
    case (Inr d)
    then have d: "blake3_hash X d = h" "chunk_content X st h = Some d" using rd cs.get_sound by blast+
    then show ?thesis using Cons.prems rd Inr rest IH f
      by (cases p) (auto simp: contents_of_def intro!: exI [of _ "d # ds" for ds])
  qed
qed (auto simp: contents_of_def)

lemma recover_chunks_total:
  assumes "quiet st" and "contents_of X st hs ds"
  shows "recover_chunks X hs st = (Inr (concat ds), st)"
  using assms(2)
proof (induction hs arbitrary: ds)
  case (Cons h hs)
  then obtain d ds' where d: "ds = d # ds'" "blake3_hash X d = h" "chunk_content X st h = Some d" "contents_of X st hs ds'"
    by (auto simp: contents_of_def list_all2_Cons1)
  have "read_chunk X h st = (Inr d, st)" using cs.get_total [OF assms(1) d(3,2)] .
  then show ?case using Cons.IH [OF d(4)] d by simp
qed (auto simp: contents_of_def)

definition selected :: "string set option \<Rightarrow> file_entry list \<Rightarrow> file_entry list" where
  "selected flt es = filter (\<lambda>e. case flt of Some f \<Rightarrow> fe_path e \<in> f | None \<Rightarrow> True) es"

text \<open>What one recovered file says about its entry.\<close>

definition faithful :: "crates \<Rightarrow> ist \<Rightarrow> file_entry \<Rightarrow> recovered_file \<Rightarrow> bool" where
  "faithful X st e f \<longleftrightarrow> rf_path f = fe_path e \<and> rf_size f = of_nat (length (rf_data f)) \<and>
     rf_chunk_hashes f = map (hex_encode X) (fe_chunk_hashes e) \<and>
     (\<exists>ds. contents_of X st (fe_chunk_hashes e) ds \<and> rf_data f = concat ds)"

lemma recover_file_sound:
  assumes "recover_file X e st = (r, st')"
  shows "chunk_content X st' = chunk_content X st \<and> (\<forall>f. r = Inr f \<longrightarrow> faithful X st e f)"
proof -
  obtain q st1 where c: "recover_chunks X (fe_chunk_hashes e) st = (q, st1)" by (rule prod.exhaust)
  show ?thesis using recover_chunks_sound [OF c] assms c
    by (cases q) (auto simp: recover_file_def faithful_def)
qed

text \<open>How the report accounts for the entries: they are, in order, an interleaving of those the recovered
  files stand for and those the failures stand for, one each; on a disk without faults only an entry with a
  chunk that is missing or damaged fails.\<close>

definition accounts :: "crates \<Rightarrow> ist \<Rightarrow> file_entry list \<Rightarrow> recovered_file list \<Rightarrow> recovery_failure list \<Rightarrow> bool" where
  "accounts X st es fs ls \<longleftrightarrow> (\<exists>got lost. es \<in> shuffles got lost \<and> list_all2 (faithful X st) got fs \<and>
     list_all2 (\<lambda>e l. rl_path l = fe_path e) lost ls \<and>
     (quiet st \<longrightarrow> (\<forall>e \<in> set lost. \<not> (\<exists>ds. contents_of X st (fe_chunk_hashes e) ds))))"

lemma accounts_Nil [simp]: "accounts X st [] [] []"
  by (simp add: accounts_def)

lemma accounts_file: "accounts X st es fs ls \<Longrightarrow> faithful X st e f \<Longrightarrow> accounts X st (e # es) (f # fs) ls"
  unfolding accounts_def using Cons_in_shuffles_leftI by (elim exE conjE, intro exI conjI) auto

lemma accounts_failure:
  assumes "accounts X st es fs ls" and "rl_path x = fe_path e"
    and "quiet st \<Longrightarrow> \<not> (\<exists>ds. contents_of X st (fe_chunk_hashes e) ds)"
  shows "accounts X st (e # es) fs (x # ls)"
proof -
  obtain good bad where "es \<in> shuffles good bad" "list_all2 (faithful X st) good fs" "list_all2 (\<lambda>e l. rl_path l = fe_path e) bad ls"
      "quiet st \<longrightarrow> (\<forall>e \<in> set bad. \<not> (\<exists>ds. contents_of X st (fe_chunk_hashes e) ds))"
    using assms(1) by (auto simp: accounts_def)
  then show ?thesis using assms(2,3) unfolding accounts_def
    by (intro exI [of _ good] exI [of _ "e # bad"]) (auto intro: Cons_in_shuffles_rightI)
qed

lemma read_chunk_quiet: "quiet st \<Longrightarrow> read_chunk X h st = (r, st') \<Longrightarrow> quiet st'"
  by (auto simp: quiet_def read_chunk_def and_then_def map_err_def fs_read_def next_fault_def
      split: prod.splits option.splits sum.splits list.splits node.splits fault.splits if_splits)

lemma recover_chunks_quiet: "quiet st \<Longrightarrow> recover_chunks X hs st = (r, st') \<Longrightarrow> quiet st'"
proof (induction hs arbitrary: st r st')
  case (Cons h hs)
  obtain q st1 where rd: "read_chunk X h st = (q, st1)" by (rule prod.exhaust)
  obtain p st2 where rest: "recover_chunks X hs st1 = (p, st2)" by (rule prod.exhaust)
  have "quiet st1" using read_chunk_quiet [OF Cons.prems(1) rd] .
  with Cons.IH [OF this rest] Cons.prems(2) rd rest show ?case by (cases q; cases p) (auto split: if_splits)
qed simp

lemma recover_file_quiet:
  assumes "quiet st" and "recover_file X e st = (r, st')"
  shows "quiet st'" and "r = Inl x \<Longrightarrow> \<not> (\<exists>ds. contents_of X st (fe_chunk_hashes e) ds)"
proof -
  obtain q st1 where c: "recover_chunks X (fe_chunk_hashes e) st = (q, st1)" by (rule prod.exhaust)
  then show "quiet st'" using recover_chunks_quiet [OF assms(1) c] assms(2) by (cases q) (auto simp: recover_file_def)
  show "\<not> (\<exists>ds. contents_of X st (fe_chunk_hashes e) ds)" if "r = Inl x"
    using recover_chunks_total [OF assms(1)] assms(2) that by (auto simp: recover_file_def)
qed

lemma recover_entries_sound:
  assumes "recover_entries X flt es res st = (res', st')"
  shows "\<exists>fs ls. rr_recovered_files res' = rr_recovered_files res @ fs \<and>
     rr_failed_files res' = rr_failed_files res @ ls \<and>
     rr_total_bytes res' = rr_total_bytes res + sum_list (map rf_size fs) \<and> accounts X st (selected flt es) fs ls"
  using assms
proof (induction es arbitrary: res st)
  case Nil
  then show ?case by (intro exI [of _ "[]"]) (simp add: selected_def)
next
  case (Cons e es)
  show ?case
  proof (cases "case flt of Some f \<Rightarrow> fe_path e \<notin> f | None \<Rightarrow> False")
    case True
    then have "selected flt (e # es) = selected flt es" by (auto simp: selected_def split: option.splits)
    then show ?thesis using Cons True by simp
  next
    case False
    then have s: "selected flt (e # es) = e # selected flt es" by (auto simp: selected_def split: option.splits)
    obtain q st1 where r: "recover_file X e st = (q, st1)" by (rule prod.exhaust)
    note snd1 = recover_file_sound [OF r] and qt = recover_file_quiet [OF _ r]
    have keep: "accounts X st es fs ls" if "accounts X st1 es fs ls" for es fs ls
    proof -
      have "faithful X st1 = faithful X st" "contents_of X st1 = contents_of X st"
        using snd1 by (simp_all add: faithful_def contents_of_def fun_eq_iff)
      then show ?thesis using that qt(1) unfolding accounts_def by metis
    qed
    let ?res = "case q of Inl x \<Rightarrow> res\<lparr>rr_failed_files := rr_failed_files res @ [\<lparr>rl_path = fe_path e, rl_reason = x\<rparr>]\<rparr>
      | Inr f \<Rightarrow> res\<lparr>rr_total_bytes := rr_total_bytes res + rf_size f, rr_recovered_files := rr_recovered_files res @ [f]\<rparr>"
    have "recover_entries X flt es ?res st1 = (res', st')" using Cons.prems r False by (cases q) simp_all
    from Cons.IH [OF this] obtain fs ls where IH: "rr_recovered_files res' = rr_recovered_files ?res @ fs"
      "rr_failed_files res' = rr_failed_files ?res @ ls" "rr_total_bytes res' = rr_total_bytes ?res + sum_list (map rf_size fs)"
      "accounts X st (selected flt es) fs ls" using keep by blast
    show ?thesis
    proof (cases q)
      case (Inl x)
      have "accounts X st (e # selected flt es) fs (\<lparr>rl_path = fe_path e, rl_reason = x\<rparr> # ls)"
        by (rule accounts_failure [OF IH(4)]) (use qt(2) Inl in simp_all)
      then show ?thesis using IH Inl s by (intro exI [of _ fs] exI [of _ "\<lparr>rl_path = fe_path e, rl_reason = x\<rparr> # ls"]) simp
    next
      case (Inr rf)
      then show ?thesis using IH s snd1 accounts_file [OF IH(4)]
        by (intro exI [of _ "rf # fs"] exI [of _ ls]) (simp add: algebra_simps)
    qed
  qed
qed

lemma recover_Ok:
  assumes "recover X N l rid req st = (Inr res, st')"
  shows "\<exists>sn st1. on_fs (read_snapshot X N l rid (rq_snapshot_id req)) st = (Inr sn, st1) \<and> sn_status sn = SSealed \<and>
     recover_entries X (map_option set (rq_file_filter req)) (ft_entries (sn_file_tree sn))
       \<lparr>rr_snapshot_id = rq_snapshot_id req, rr_version_id = sn_version_id sn,
        rr_recovered_files = [], rr_failed_files = [], rr_total_bytes = 0\<rparr> st1 = (res, st')"
  using assms by (auto simp: recover_def result_iffs split: if_splits prod.splits)

lemma read_snapshot_frame:
  "read_snapshot X N l rid sid s = (r, s') \<Longrightarrow> lookup s' = lookup s"
  by (auto simp: read_snapshot_def and_then_def map_err_def split: if_splits prod.splits sum.splits option.splits
      dest: fs_read_lookup)

lemma read_snapshot_no_faults:
  "read_snapshot X N l rid sid s = (r, s') \<Longrightarrow> faults s = [] \<Longrightarrow> faults s' = []"
  by (auto simp: read_snapshot_def and_then_def map_err_def fs_read_def next_fault_def
      split: if_splits prod.splits sum.splits option.splits list.splits node.splits fault.splits)

subsection \<open>Properties\<close>

text \<open>(C20) Recovery hands out only what the snapshot describes and the digests confirm: it needs a
  sealed snapshot; the selected entries are, in their order, an interleaving of the entries recovered and the
  entries reported as failed, each entry exactly once; each recovered file is the concatenation of the
  stored bytes of its entry's chunks, each with the digest the entry names; a failure names the path of its
  entry and, when the disk does not fail, occurs only for an entry with a chunk that is missing or damaged;
  sizes and the total (modulo \<open>2 ^ 64\<close>) are those of the data.\<close>

theorem recovery_is_faithful:
  assumes "recover X N l rid req (i, s) = (Inr res, st')"
  shows "\<exists>sn got lost. fst (read_snapshot X N l rid (rq_snapshot_id req) s) = Inr sn \<and> sn_status sn = SSealed \<and>
     selected (map_option set (rq_file_filter req)) (ft_entries (sn_file_tree sn)) \<in> shuffles got lost \<and>
     list_all2 (faithful X (i, s)) got (rr_recovered_files res) \<and>
     list_all2 (\<lambda>e x. rl_path x = fe_path e) lost (rr_failed_files res) \<and>
     (quiet (i, s) \<longrightarrow> (\<forall>e \<in> set lost. \<not> (\<exists>ds. contents_of X (i, s) (fe_chunk_hashes e) ds))) \<and>
     rr_total_bytes res = sum_list (map rf_size (rr_recovered_files res))"
proof -
  obtain sn st1 where r: "on_fs (read_snapshot X N l rid (rq_snapshot_id req)) (i, s) = (Inr sn, st1)"
    "sn_status sn = SSealed"
    "recover_entries X (map_option set (rq_file_filter req)) (ft_entries (sn_file_tree sn))
       \<lparr>rr_snapshot_id = rq_snapshot_id req, rr_version_id = sn_version_id sn,
        rr_recovered_files = [], rr_failed_files = [], rr_total_bytes = 0\<rparr> st1 = (res, st')"
    using recover_Ok [OF assms] by blast
  obtain s1 where s1: "read_snapshot X N l rid (rq_snapshot_id req) s = (Inr sn, s1)" "st1 = (i, s1)"
    using r(1) by (cases "read_snapshot X N l rid (rq_snapshot_id req) s") auto
  have "chunk_content X st1 = chunk_content X (i, s)"
    using file_at_lookup [OF read_snapshot_frame [OF s1(1)]] s1(2)
    by (simp add: chunk_content_def fun_eq_iff split: option.splits)
  then have same: "faithful X st1 = faithful X (i, s)" "contents_of X st1 = contents_of X (i, s)"
    by (simp_all add: faithful_def contents_of_def fun_eq_iff)
  have "quiet st1" if "quiet (i, s)" using read_snapshot_no_faults [OF s1(1)] that s1(2) by (simp add: quiet_def)
  then show ?thesis
    using recover_entries_sound [OF r(3)] s1(1) r(2) unfolding accounts_def same by auto
qed

text \<open>All entries recover on a healthy disk when their chunks are stored.\<close>

lemma recover_entries_total:
  assumes "quiet st" and "\<forall>e \<in> set es. contents_of X st (fe_chunk_hashes e) (dat e)"
  shows "\<exists>res'. recover_entries X None es res st = (res', st) \<and> rr_failed_files res' = rr_failed_files res \<and>
     map (\<lambda>f. (rf_path f, rf_data f)) (rr_recovered_files res') =
       map (\<lambda>f. (rf_path f, rf_data f)) (rr_recovered_files res) @ map (\<lambda>e. (fe_path e, concat (dat e))) es"
  using assms(2)
proof (induction es arbitrary: res)
  case (Cons e es)
  have "recover_chunks X (fe_chunk_hashes e) st = (Inr (concat (dat e)), st)"
    using recover_chunks_total [OF assms(1)] Cons.prems by simp
  then have "recover_file X e st = (Inr \<lparr>rf_path = fe_path e, rf_size = of_nat (length (concat (dat e))),
      rf_data = concat (dat e), rf_chunk_hashes = map (hex_encode X) (fe_chunk_hashes e)\<rparr>, st)"
    by (simp add: recover_file_def)
  then show ?case using Cons.IH Cons.prems by fastforce
qed simp

lemma contents_of_committed:
  assumes "all_stored E chunks st" and "set hs \<subseteq> fst ` set chunks"
  shows "contents_of (ce_crates E) (cs_ix st, cs_fs st) hs (map (\<lambda>h. the (map_of chunks h)) hs)"
proof -
  have "blake3_hash (ce_crates E) (the (map_of chunks h)) = h \<and>
      chunk_content (ce_crates E) (cs_ix st, cs_fs st) h = Some (the (map_of chunks h))" if "h \<in> set hs" for h
  proof -
    have "h \<in> fst ` set chunks" using that assms(2) by blast
    then obtain d where "map_of chunks h = Some d" by (cases "map_of chunks h") (auto simp: map_of_eq_None_iff)
    then have "(h, d) \<in> set chunks" by (rule map_of_SomeD)
    then show ?thesis using assms(1) \<open>map_of chunks h = Some d\<close> by (auto simp: all_stored_def)
  qed
  then show ?thesis by (simp add: contents_of_def list_all2_conv_all_nth)
qed

text \<open>(C6) Commit, then recover: after a successful commit whose file tree refers to committed
  chunks only, recovering the snapshot on a healthy disk fails for no file and returns
  every file of the tree, in order, as the concatenation of the bytes its chunks were
  committed with.\<close>

theorem commit_then_recover:
  assumes "commit_backup E parent m sn chunks st = (Inr (CommitSuccess v sid), st')"
    and "commit_inv E st" and "version_state (ce_vid E) st = None"
    and "\<forall>x b. sj_to_vec (ce_sjson E) x = Some b \<longrightarrow> sj_from_slice (ce_sjson E) b = Some x"
    and "faults (cs_fs st') = []"
    and "\<forall>e \<in> set (ft_entries (sn_file_tree sn)). set (fe_chunk_hashes e) \<subseteq> fst ` set chunks"
  shows "\<exists>res. recover (ce_crates E) (ce_sjson E) (ce_layout E) (ce_repo E)
       \<lparr>rq_snapshot_id = sid, rq_file_filter = None\<rparr> (cs_ix st', cs_fs st') = (Inr res, (cs_ix st', cs_fs st')) \<and>
     rr_failed_files res = [] \<and>
     map (\<lambda>f. (rf_path f, rf_data f)) (rr_recovered_files res) =
       map (\<lambda>e. (fe_path e, concat (map (\<lambda>h. the (map_of chunks h)) (fe_chunk_hashes e))))
         (ft_entries (sn_file_tree sn))"
proof -
  have apart: "journal_apart E (cs_jr st)" using assms(2) by (simp add: commit_inv_def)
  note disk = commit_disk [OF assms(1) apart assms(4,5)]
  have stored: "all_stored E chunks st'"
    using commit_safe [OF assms(2,3,1)] disk by (simp add: safe_outcome_def)
  let ?st = "(cs_ix st', cs_fs st')" and ?es = "ft_entries (sn_file_tree sn)"
  let ?dat = "\<lambda>e. map (\<lambda>h. the (map_of chunks h)) (fe_chunk_hashes e)"
  have "\<forall>e \<in> set ?es. contents_of (ce_crates E) ?st (fe_chunk_hashes e) (?dat e)"
    using contents_of_committed [OF stored] assms(6) by blast
  then obtain res where "recover_entries (ce_crates E) None ?es
      \<lparr>rr_snapshot_id = sid, rr_version_id = sn_version_id (sealed_snapshot E m sn),
        rr_recovered_files = [], rr_failed_files = [], rr_total_bytes = 0\<rparr> ?st = (res, ?st)"
    "rr_failed_files res = []"
    "map (\<lambda>f. (rf_path f, rf_data f)) (rr_recovered_files res) = map (\<lambda>e. (fe_path e, concat (?dat e))) ?es"
    using recover_entries_total [of ?st ?es "ce_crates E" ?dat] assms(5) by (fastforce simp: quiet_def)
  then show ?thesis using disk
    by (intro exI [of _ res]) (simp add: recover_def sealed_snapshot_def snapshot_to_commit_def)
qed

lemma verify_chunk_pass:
  assumes "verify_chunk X now h st = (rep, st')"
  shows "chunk_content X st' = chunk_content X st"
    and "vp_status rep = VsPass \<Longrightarrow> \<exists>d. blake3_hash X d = h \<and> chunk_content X st h = Some d"
proof -
  obtain q st1 where r: "read_chunk X h st = (q, st1)" by (rule prod.exhaust)
  then show "chunk_content X st' = chunk_content X st"
    using content_frame [OF r] assms by (cases q) (auto simp: verify_chunk_def Let_def split: chunk_store_error.splits)
  assume p: "vp_status rep = VsPass"
  then obtain d where "q = Inr d" using r assms by (cases q) (auto simp: verify_chunk_def Let_def split: chunk_store_error.splits)
  then show "\<exists>d. blake3_hash X d = h \<and> chunk_content X st h = Some d" using cs.get_sound r by blast
qed

lemma verify_refs_pass:
  "verify_refs X now rs st = (None, st') \<Longrightarrow> r \<in> set rs \<Longrightarrow>
   \<exists>d. blake3_hash X d = cr_chunk_hash r \<and> chunk_content X st (cr_chunk_hash r) = Some d"
proof (induction rs arbitrary: st)
  case (Cons x rs)
  obtain rep st1 where v: "verify_chunk X now (cr_chunk_hash x) st = (rep, st1)" by (rule prod.exhaust)
  then have p: "vp_status rep = VsPass" "verify_refs X now rs st1 = (None, st')"
    using Cons.prems by (auto split: if_splits)
  show ?case
  proof (cases "r = x")
    case True
    then show ?thesis using verify_chunk_pass(2) [OF v p(1)] by simp
  next
    case False
    then have "r \<in> set rs" using Cons.prems(2) by simp
    from Cons.IH [OF p(2) this] verify_chunk_pass(1) [OF v] show ?thesis by simp
  qed
qed simp

lemma verify_refs_bad: "verify_refs X now rs st = (Some rep, st') \<Longrightarrow> vp_status rep \<noteq> VsPass"
  by (induction rs arbitrary: st) (auto split: prod.splits if_splits)

text \<open>Checks are sound: a manifest that passes names only chunks whose stored bytes have the
  named digest, and on a healthy disk a chunk passes exactly when its stored bytes have its
  digest.  The reference-count check, in contrast, reports nothing for any index: it looks
  for entries that are not \<open>GcPending\<close> among the candidates, which all are.\<close>

theorem verification_is_sound:
  "(vp_status (fst (verify_manifest X M l rid now mid (i, s))) = VsPass \<longrightarrow>
      (\<exists>m. fst (read_manifest X M l rid mid s) = Inr m \<and>
        (\<forall>r \<in> set (mf_chunk_refs m). \<exists>d. blake3_hash X d = cr_chunk_hash r \<and>
           chunk_content X (i, s) (cr_chunk_hash r) = Some d))) \<and>
   (quiet (i, s) \<longrightarrow> (vp_status (fst (verify_chunk X now h (i, s))) = VsPass \<longleftrightarrow>
      (\<exists>d. blake3_hash X d = h \<and> chunk_content X (i, s) h = Some d))) \<and>
   verify_ref_count_consistency now i = []"
proof (intro conjI impI)
  show "verify_ref_count_consistency now i = []"
    by (auto simp: verify_ref_count_consistency_def gc_candidates_def filter_empty_conv)
next
  assume q: "quiet (i, s)"
  show "vp_status (fst (verify_chunk X now h (i, s))) = VsPass \<longleftrightarrow>
      (\<exists>d. blake3_hash X d = h \<and> chunk_content X (i, s) h = Some d)"
  proof
    assume "vp_status (fst (verify_chunk X now h (i, s))) = VsPass"
    then show "\<exists>d. blake3_hash X d = h \<and> chunk_content X (i, s) h = Some d"
      using verify_chunk_pass(2) by (metis prod.exhaust_sel)
  next
    assume "\<exists>d. blake3_hash X d = h \<and> chunk_content X (i, s) h = Some d"
    then obtain d where "blake3_hash X d = h" "read_chunk X h (i, s) = (Inr d, (i, s))"
      using cs.get_total [OF q] by blast
    then show "vp_status (fst (verify_chunk X now h (i, s))) = VsPass" by (simp add: verify_chunk_def)
  qed
next
  assume p: "vp_status (fst (verify_manifest X M l rid now mid (i, s))) = VsPass"
  obtain q s1 where r: "read_manifest X M l rid mid s = (q, s1)" by (rule prod.exhaust)
  have same: "lookup s1 = lookup s"
    using r by (auto simp: read_manifest_def and_then_def map_err_def split: if_splits prod.splits sum.splits
        dest: fs_read_lookup)
  obtain m where m: "q = Inr m"
    using p r by (cases q) (auto simp: verify_manifest_def Let_def split: manifest_store_error.splits)
  obtain b st2 where v: "verify_refs X now (mf_chunk_refs m) (i, s1) = (b, st2)" by (rule prod.exhaust)
  then have "b = None"
    using p r m verify_refs_bad by (cases b) (auto simp: verify_manifest_def Let_def)
  moreover have "chunk_content X (i, s1) = chunk_content X (i, s)"
    using file_at_lookup [OF same] by (simp add: chunk_content_def fun_eq_iff split: option.splits)
  ultimately show "\<exists>m. fst (read_manifest X M l rid mid s) = Inr m \<and>
        (\<forall>r \<in> set (mf_chunk_refs m). \<exists>d. blake3_hash X d = cr_chunk_hash r \<and>
           chunk_content X (i, s) (cr_chunk_hash r) = Some d)"
    using verify_refs_pass v m r by fastforce
qed

subsection \<open>Witnesses\<close>

theorem commit_then_recover_witness:
  "\<exists>st' res. commit_backup sample_env None sample_manifest sample_snapshot [([7], [7])] sample_commit_st
      = (Inr (CommitSuccess [1] [2]), st') \<and>
     recover sample_crates (ce_sjson sample_env) root_layout [9] \<lparr>rq_snapshot_id = [2], rq_file_filter = None\<rparr>
       (cs_ix st', cs_fs st') = (Inr res, (cs_ix st', cs_fs st')) \<and>
     map (\<lambda>f. (rf_path f, rf_data f)) (rr_recovered_files res) = [(''f'', [7])]"
proof -
  obtain st' where c: "commit_backup sample_env None sample_manifest sample_snapshot [([7], [7])] sample_commit_st
      = (Inr (CommitSuccess [1] [2]), st')" "faults (cs_fs st') = []"
    using sample_commit by blast
  have v: "version_state (ce_vid sample_env) sample_commit_st = None"
    by (simp add: version_state_def sample_commit_st_def version_ops_new_def)
  have t: "sn_file_tree sample_snapshot = \<lparr>ft_root = ''r'', ft_entries =
        [\<lparr>fe_path = ''f'', fe_size = 1, fe_is_directory = False, fe_chunk_hashes = [[7]]\<rparr>]\<rparr>"
    by (simp add: sample_snapshot_def)
  from commit_then_recover [OF c(1) sample_commit_inv v sample_snapshot_json c(2)] c(1) t show ?thesis by auto
qed

text \<open>A sealed snapshot of two files: the chunk of the first is stored and it is recovered, that of the second
  is missing and it is reported.\<close>

definition two_files :: snapshot where
  "two_files = sample_written\<lparr>sn_status := SSealed, sn_file_tree := \<lparr>ft_root = ''r'', ft_entries =
     [\<lparr>fe_path = ''f'', fe_size = 1, fe_is_directory = False, fe_chunk_hashes = [[7]]\<rparr>,
      \<lparr>fe_path = ''g'', fe_size = 1, fe_is_directory = False, fe_chunk_hashes = [[7], [8]]\<rparr>]\<rparr>\<rparr>"

definition two_files_disk :: fsys where
  "two_files_disk = \<lparr>nodes = (snapshot_path sample_crates root_layout [1] [2], File [2]) # nodes sample_disk, faults = []\<rparr>"

abbreviation two_files_json :: snapshot_json where
  "two_files_json \<equiv> \<lparr>sj_to_vec = (\<lambda>_. Some [2]), sj_from_slice = (\<lambda>_. Some two_files)\<rparr>"

lemma two_files_recover:
  "\<exists>x st''. recover sample_crates two_files_json root_layout [1] \<lparr>rq_snapshot_id = [2], rq_file_filter = None\<rparr> (sample_index, two_files_disk) =
     (Inr \<lparr>rr_snapshot_id = [2], rr_version_id = sn_version_id two_files,
        rr_recovered_files = [\<lparr>rf_path = ''f'', rf_size = 1, rf_data = [7], rf_chunk_hashes = [hex_encode sample_crates [7]]\<rparr>],
        rr_failed_files = [\<lparr>rl_path = ''g'', rl_reason = x\<rparr>], rr_total_bytes = 1\<rparr>, st'')"
proof -
  have rd: "read_snapshot sample_crates two_files_json root_layout [1] [2] two_files_disk = (Inr two_files, two_files_disk)"
    by (simp add: read_snapshot_def path_exists_def lookup_def fs_read_def next_fault_def two_files_disk_def)
  have place: "bucket_path sample_crates root_layout [1] [7] \<noteq> snapshot_path sample_crates root_layout [1] [2]"
    by (simp add: bucket_path_def chunks_dir_def snapshot_path_def snapshots_dir_def)
  have c: "read_chunk sample_crates [7] (sample_index, two_files_disk) = (Inr [7], (sample_index, two_files_disk))"
    by (simp add: read_chunk_def index_lookup_def sample_index_def in_memory_def new_entry_def two_files_disk_def sample_disk_def
        fs_read_def next_fault_def lookup_def place)
  have n: "\<exists>x. read_chunk sample_crates [8] (sample_index, two_files_disk) = (Inl x, (sample_index, two_files_disk))"
    using inj_eq [OF sample_crates_simps(1)] by (simp add: read_chunk_def index_lookup_def sample_index_def in_memory_def)
  have t: "sn_status two_files = SSealed" "ft_entries (sn_file_tree two_files) =
      [\<lparr>fe_path = ''f'', fe_size = 1, fe_is_directory = False, fe_chunk_hashes = [[7]]\<rparr>,
       \<lparr>fe_path = ''g'', fe_size = 1, fe_is_directory = False, fe_chunk_hashes = [[7], [8]]\<rparr>]" by (simp_all add: two_files_def)
  show ?thesis using n by (auto simp: recover_def rd t recover_file_def c)
qed

theorem recovery_is_faithful_witness:
  "\<exists>res st''. recover sample_crates two_files_json root_layout [1] \<lparr>rq_snapshot_id = [2], rq_file_filter = None\<rparr> (sample_index, two_files_disk) =
       (Inr res, st'') \<and> map rf_data (rr_recovered_files res) = [[7]] \<and> map rl_path (rr_failed_files res) = [''g''] \<and>
     (\<exists>ds. contents_of sample_crates (sample_index, two_files_disk) [[7]] ds \<and> concat ds = [7])"
proof -
  obtain x st'' where r: "recover sample_crates two_files_json root_layout [1] \<lparr>rq_snapshot_id = [2], rq_file_filter = None\<rparr> (sample_index, two_files_disk) =
     (Inr \<lparr>rr_snapshot_id = [2], rr_version_id = sn_version_id two_files,
        rr_recovered_files = [\<lparr>rf_path = ''f'', rf_size = 1, rf_data = [7], rf_chunk_hashes = [hex_encode sample_crates [7]]\<rparr>],
        rr_failed_files = [\<lparr>rl_path = ''g'', rl_reason = x\<rparr>], rr_total_bytes = 1\<rparr>, st'')"
    using two_files_recover by blast
  obtain e where "faithful sample_crates (sample_index, two_files_disk) e
      \<lparr>rf_path = ''f'', rf_size = 1, rf_data = [7], rf_chunk_hashes = [hex_encode sample_crates [7]]\<rparr>"
    using recovery_is_faithful [OF r] by (auto simp: list_all2_Cons2)
  then obtain ds where e: "[hex_encode sample_crates [7]] = map (hex_encode sample_crates) (fe_chunk_hashes e)"
      "contents_of sample_crates (sample_index, two_files_disk) (fe_chunk_hashes e) ds" "[7] = concat ds"
    by (auto simp: faithful_def)
  have "map (hex_encode sample_crates) (fe_chunk_hashes e) = map (hex_encode sample_crates) [[7]]" using e(1) by simp
  then have "fe_chunk_hashes e = [[7]]" using inj_map_eq_map [OF sample_crates_simps(1)] by blast
  then show ?thesis using r e(2,3) by (intro exI conjI) auto
qed

theorem verification_is_sound_witness:
  "quiet (sample_index, sample_disk) \<and> chunk_content sample_crates (sample_index, sample_disk) [7] = Some [7] \<and>
   vp_status (fst (verify_chunk sample_crates 0 [7] (sample_index, sample_disk))) = VsPass"
proof -
  have q: "quiet (sample_index, sample_disk)" by (simp add: quiet_def sample_disk_def)
  have c: "chunk_content sample_crates (sample_index, sample_disk) [7] = Some [7]"
    by (simp add: chunk_content_def sample_index_def index_lookup_def in_memory_def new_entry_def
        sample_disk_def file_at_def lookup_def)
  from verification_is_sound [of sample_crates _ _ _ 0 _ sample_index sample_disk "[7]"] q c show ?thesis by simp
qed

end
