(* ===== verification/Badou_Repository.thy ===== *)
theory Badou_Repository
  imports Badou_Index
begin

text \<open>
  The life cycle of repositories (\<open>badou-ops/src/repository.rs\<close>): create, open, list,
  delete, stat.  The manager keeps its data root and a map of the repositories it
  created; everything else is on disk, the metadata in \<open>.badou/repository.json\<close>
  (\<open>repository_json\<close>) and the chunk index in \<open>index/chunk_index.json\<close>.  The fresh identifier
  and the clock are arguments.  A handle holds the layout once: the chunk store is the
  layout and its index, the other stores and the staging manager are the layout.
\<close>

datatype repository_error =
  RmIo io_error | RmIoOther | RmAlreadyExists uuid | RmNotFound uuid | RmImmutable uuid
| RmFormat format_error | RmIndex index_error

record repository_json =
  rj_to_vec :: "repository \<Rightarrow> bytes option"
  rj_from_slice :: "bytes \<Rightarrow> repository option"

record repo_stat =
  rs_repo_id :: uuid
  rs_name :: string
  rs_status :: repo_status
  rs_version_count :: u64
  rs_total_size :: u64
  rs_stored_size :: u64
  rs_chunk_count :: u64
  rs_immutable :: bool

record repository_handle =
  rh_repo :: repository
  rh_layout :: layout
  rh_index :: badou_index

record repository_manager =
  rm_data_root :: path
  rm_repos :: "(uuid, repository) hmap"

type_synonym mst = "repository_manager \<times> fsys"

definition repository_manager_new :: "path \<Rightarrow> repository_manager" where
  "repository_manager_new root = \<lparr>rm_data_root = root, rm_repos = []\<rparr>"

definition rm_layout :: "repository_manager \<Rightarrow> layout" where
  "rm_layout m = \<lparr>data_root = rm_data_root m\<rparr>"

definition meta_path :: "crates \<Rightarrow> layout \<Rightarrow> uuid \<Rightarrow> path" where
  "meta_path X l rid = meta_dir X l rid @ [''repository.json'']"

definition index_path :: "crates \<Rightarrow> layout \<Rightarrow> uuid \<Rightarrow> path" where
  "index_path X l rid = index_dir X l rid @ [''chunk_index.json'']"

subsection \<open>Operations\<close>

definition create_repository ::
  "crates \<Rightarrow> index_json \<Rightarrow> repository_json \<Rightarrow> uuid \<Rightarrow> timestamp \<Rightarrow> string \<Rightarrow> repo_config \<Rightarrow> mst \<Rightarrow>
   (repository_error + repository) \<times> mst" where
  "create_repository X J R fresh now name config = (\<lambda>(m, s).
     let l = rm_layout m in
     if path_exists s (repo_root X l fresh) then (Inl (RmAlreadyExists fresh), (m, s))
     else case init_repository X l fresh s of
       (Inl e, s) \<Rightarrow> (Inl (RmFormat e), (m, s))
     | (Inr _, s) \<Rightarrow>
         (case index_open J (index_path X l fresh) s of
            (Inl e, s) \<Rightarrow> (Inl (RmIndex e), (m, s))
          | (Inr _, s) \<Rightarrow>
              let repo = repository_new fresh (config\<lparr>rc_name := name\<rparr>) now in
              (case rj_to_vec R repo of
                 None \<Rightarrow> (Inl RmIoOther, (m, s))
               | Some json \<Rightarrow>
                   (case fs_write (meta_path X l fresh) json s of
                      (Inl e, s) \<Rightarrow> (Inl (RmIo e), (m, s))
                    | (Inr _, s) \<Rightarrow>
                        (Inr repo, (m\<lparr>rm_repos := AList.update fresh repo (rm_repos m)\<rparr>, s))))))"

text \<open>\<open>std::fs::read\<close> of the metadata and its decoding.\<close>

definition read_meta :: "repository_json \<Rightarrow> path \<Rightarrow> fsys \<Rightarrow> (repository_error + repository) \<times> fsys" where
  "read_meta R p s = and_then (map_err RmIo (fs_read p s))
     (\<lambda>data s. case rj_from_slice R data of None \<Rightarrow> (Inl RmIoOther, s) | Some repo \<Rightarrow> (Inr repo, s))"

definition open_repository ::
  "crates \<Rightarrow> index_json \<Rightarrow> repository_json \<Rightarrow> repository_manager \<Rightarrow> uuid \<Rightarrow> fsys \<Rightarrow>
   (repository_error + repository_handle) \<times> fsys" where
  "open_repository X J R m rid s =
     (let l = rm_layout m in
      if \<not> path_exists s (repo_root X l rid) then (Inl (RmNotFound rid), s)
      else and_then (read_meta R (meta_path X l rid) s)
        (\<lambda>repo s. and_then (map_err RmIndex (index_open J (index_path X l rid) s))
        (\<lambda>index s. (Inr \<lparr>rh_repo = repo, rh_layout = l, rh_index = index\<rparr>, s))))"

text \<open>\<open>BadouIndex::open(..).map(|i| i.chunk_count() as u64).unwrap_or(0)\<close> behind the existence test.\<close>

definition indexed_chunks :: "index_json \<Rightarrow> path \<Rightarrow> fsys \<Rightarrow> u64 \<times> fsys" where
  "indexed_chunks J p s =
     (if path_exists s p
      then (case index_open J p s of (Inr i, s) \<Rightarrow> (of_nat (chunk_count i), s) | (Inl _, s) \<Rightarrow> (0, s))
      else (0, s))"

definition stat_of :: "repository \<Rightarrow> u64 \<Rightarrow> timestamp \<Rightarrow> repo_stat" where
  "stat_of repo chunks now =
     \<lparr>rs_repo_id = r_repo_id repo, rs_name = r_name repo, rs_status = r_status repo,
      rs_version_count = r_version_count repo, rs_total_size = 0, rs_stored_size = 0,
      rs_chunk_count = chunks, rs_immutable = repo_is_immutable repo now\<rparr>"

fun list_entries ::
  "crates \<Rightarrow> index_json \<Rightarrow> repository_json \<Rightarrow> timestamp \<Rightarrow> path \<Rightarrow> string list \<Rightarrow> fsys \<Rightarrow>
   (repository_error + repo_stat list) \<times> fsys" where
  "list_entries X J R now root [] s = (Inr [], s)"
| "list_entries X J R now root (name # names) s =
     (let path = root @ [name] in
      if \<not> is_dir s path \<or> uuid_parse X name = None \<or> \<not> path_exists s (path @ [''.badou'', ''repository.json''])
      then list_entries X J R now root names s
      else and_then (read_meta R (path @ [''.badou'', ''repository.json'']) s)
        (\<lambda>repo s. case indexed_chunks J (path @ [''index'', ''chunk_index.json'']) s of
           (chunks, s) \<Rightarrow> and_then (list_entries X J R now root names s)
             (\<lambda>rest s. (Inr (stat_of repo chunks now # rest), s))))"

definition list_repositories ::
  "crates \<Rightarrow> index_json \<Rightarrow> repository_json \<Rightarrow> timestamp \<Rightarrow> repository_manager \<Rightarrow> fsys \<Rightarrow>
   (repository_error + repo_stat list) \<times> fsys" where
  "list_repositories X J R now m s =
     (let root = rm_data_root m @ [''repositories''] in
      if \<not> path_exists s root then (Inr [], s)
      else and_then (map_err RmIo (fs_read_dir root s)) (\<lambda>names s. list_entries X J R now root names s))"

definition delete_repository ::
  "crates \<Rightarrow> repository_json \<Rightarrow> timestamp \<Rightarrow> uuid \<Rightarrow> mst \<Rightarrow> (repository_error + unit) \<times> mst" where
  "delete_repository X R now rid = (\<lambda>(m, s).
     let l = rm_layout m in
     if \<not> path_exists s (repo_root X l rid) then (Inl (RmNotFound rid), (m, s))
     else case (if path_exists s (meta_path X l rid)
                then and_then (read_meta R (meta_path X l rid) s)
                       (\<lambda>repo s. if repo_is_immutable repo now then (Inl (RmImmutable rid), s) else (Inr (), s))
                else (Inr (), s)) of
       (Inl e, s) \<Rightarrow> (Inl e, (m, s))
     | (Inr _, s) \<Rightarrow>
         (case fs_remove_dir_all (repo_root X l rid) s of
            (Inl e, s) \<Rightarrow> (Inl (RmIo e), (m, s))
          | (Inr _, s) \<Rightarrow> (Inr (), (m\<lparr>rm_repos := AList.delete rid (rm_repos m)\<rparr>, s))))"

definition stat_repository ::
  "crates \<Rightarrow> index_json \<Rightarrow> repository_json \<Rightarrow> timestamp \<Rightarrow> repository_manager \<Rightarrow> uuid \<Rightarrow> fsys \<Rightarrow>
   (repository_error + repo_stat) \<times> fsys" where
  "stat_repository X J R now m rid s =
     (let l = rm_layout m in
      if \<not> path_exists s (repo_root X l rid) then (Inl (RmNotFound rid), s)
      else and_then (read_meta R (meta_path X l rid) s)
        (\<lambda>repo s. case indexed_chunks J (index_path X l rid) s of
           (chunks, s) \<Rightarrow> (Inr (stat_of repo chunks now), s)))"

subsection \<open>Directory trees\<close>

text \<open>A disk whose nodes hang together: the parent of a node is a directory.\<close>

definition tree :: "fsys \<Rightarrow> bool" where
  "tree s \<longleftrightarrow> (\<forall>p x. lookup s (p @ [x]) \<noteq> None \<longrightarrow> is_dir s p)"

lemma tree_above: "tree s \<Longrightarrow> lookup s (p @ q) \<noteq> None \<Longrightarrow> q \<noteq> [] \<Longrightarrow> is_dir s p"
proof (induction q rule: rev_induct)
  case (snoc x q)
  then have "is_dir s (p @ q)" unfolding tree_def by (metis append_assoc)
  then show ?case using snoc by (cases "q = []") (auto simp: is_dir_def)
qed simp

lemma tree_dirs: "tree s \<Longrightarrow> is_dir s p \<Longrightarrow> prefix q p \<Longrightarrow> is_dir s q"
  using tree_above by (fastforce simp: prefix_def is_dir_def)

lemma tree_unused: "tree s \<Longrightarrow> \<not> path_exists s p \<Longrightarrow> prefix p q \<Longrightarrow> lookup s q = None"
  using tree_above [of s p] by (fastforce simp: prefix_def path_exists_def is_dir_def)

text \<open>No file lies on the way to \<open>p\<close>.\<close>

definition clear :: "fsys \<Rightarrow> path \<Rightarrow> bool" where
  "clear s p \<longleftrightarrow> (\<forall>q. prefix q p \<longrightarrow> \<not> is_file s q)"

lemma create_dir_all_files:
  "fs_create_dir_all p s = (r, t) \<Longrightarrow> is_file t q = is_file s q"
  using create_dir_all_lookup [of p s r t q] by (auto simp: is_file_def split: option.splits)

lemma create_dir_all_dirs:
  "fs_create_dir_all p s = (r, t) \<Longrightarrow> is_dir s q \<Longrightarrow> is_dir t q"
  using create_dir_all_lookup [of p s r t q] by (auto simp: is_dir_def)

lemma mk_dirs_Ok:
  "mk_dirs ps s = (Inr (), t) \<Longrightarrow> (\<forall>p \<in> set ps. is_dir t p) \<and> (\<forall>p. is_dir s p \<longrightarrow> is_dir t p)"
proof (induction ps s rule: mk_dirs.induct)
  case (2 p ps s)
  have "is_dir (set_node p Dir s) q" if "is_dir s q \<or> q = p" for q using that by (auto simp: is_dir_def)
  with 2 show ?case by (auto split: if_splits)
qed simp

lemma create_dir_all_parents:
  assumes "fs_create_dir_all p s = (Inr (), t)" and "prefix q p"
  shows "is_dir t q"
proof (cases "q = []")
  case False
  then have "q \<in> set (tl (prefixes p))" using assms(2) by (cases p; cases q) (auto simp: in_set_prefixes)
  moreover obtain s1 where "mk_dirs (tl (prefixes p)) s1 = (Inr (), t)"
    using assms(1) by (auto simp: fs_create_dir_all_def split: prod.splits fault.splits)
  ultimately show ?thesis using mk_dirs_Ok by blast
qed (simp add: is_dir_def)

lemma create_all_dirs:
  "create_all ps s = (Inr (), t) \<Longrightarrow> (\<forall>p \<in> set ps. \<forall>q. prefix q p \<longrightarrow> is_dir t q) \<and> (\<forall>q. is_dir s q \<longrightarrow> is_dir t q)"
proof (induction ps arbitrary: s)
  case (Cons p ps)
  then obtain s1 where c: "fs_create_dir_all p s = (Inr (), s1)" "create_all ps s1 = (Inr (), t)"
    by (auto simp: and_then_Ok_iff)
  then show ?case
    using Cons.IH [OF c(2)] create_dir_all_parents [OF c(1)] create_dir_all_dirs [OF c(1)] by auto
qed simp

lemma create_all_frame:
  "create_all ps s = (r, t) \<Longrightarrow>
   lookup t q = lookup s q \<or> (lookup s q = None \<and> lookup t q = Some Dir \<and> (\<exists>p \<in> set ps. prefix q p))"
proof (induction ps arbitrary: s)
  case (Cons p ps)
  obtain u s1 where c: "fs_create_dir_all p s = (u, s1)" by (rule prod.exhaust)
  then show ?case
    using Cons.prems Cons.IH [of s1] create_dir_all_lookup [OF c, of q] by (cases u) auto
qed simp

lemma create_all_total:
  "faults s = [] \<Longrightarrow> \<forall>p \<in> set ps. clear s p \<Longrightarrow>
   \<exists>t. create_all ps s = (Inr (), t) \<and> faults t = [] \<and> (\<forall>q. is_file t q = is_file s q)"
proof (induction ps arbitrary: s)
  case (Cons p ps)
  then obtain s1 where c: "fs_create_dir_all p s = (Inr (), s1)" "faults s1 = []"
    using create_dir_all_total [of s p] by (auto simp: clear_def)
  have "\<forall>q \<in> set ps. clear s1 q" using Cons.prems(2) create_dir_all_files [OF c(1)] by (simp add: clear_def)
  then show ?case using Cons.IH [OF c(2)] c create_dir_all_files [OF c(1)] by auto
qed simp

subsection \<open>A repository that was created\<close>

lemmas layout_dirs = manifests_dir_def snapshots_dir_def versions_dir_def index_dir_def journal_dir_def gc_dir_def
  locks_dir_def staging_dir_def meta_dir_def chunks_dir_def format_version_path_def meta_path_def index_path_def

definition repo_dirs :: "crates \<Rightarrow> layout \<Rightarrow> uuid \<Rightarrow> path list" where
  "repo_dirs X l rid = [manifests_dir X l rid, snapshots_dir X l rid, versions_dir X l rid,
     index_dir X l rid, journal_dir X l rid, gc_dir X l rid, locks_dir X l rid, staging_dir X l rid, meta_dir X l rid]"

definition bucket_dirs :: "crates \<Rightarrow> layout \<Rightarrow> uuid \<Rightarrow> path list" where
  "bucket_dirs X l rid = map (\<lambda>i. chunks_dir X l rid @ [hex_encode X [of_nat i]]) [0..<256]"

lemma init_repository_alt:
  "init_repository X l rid s =
     (if path_exists s (repo_root X l rid) then (Inl (FmtAlreadyExists (repo_root X l rid)), s)
      else and_then (map_err FmtIo (create_all (repo_dirs X l rid) s))
        (\<lambda>_ s. and_then (map_err FmtIo (create_all (bucket_dirs X l rid) s))
        (\<lambda>_ s. map_err FmtIo (fs_write (format_version_path X l rid) [49] s))))"
  unfolding init_repository_def repo_dirs_def bucket_dirs_def by (rule refl)

lemma below_root:
  "p \<in> set (repo_dirs X l rid) \<union> set (bucket_dirs X l rid) \<Longrightarrow>
   prefix (repo_root X l rid) p \<and> \<not> prefix (meta_dir X l rid @ [x]) p \<and> \<not> prefix (index_dir X l rid @ [x]) p"
  by (auto simp: repo_dirs_def bucket_dirs_def layout_dirs)

definition fresh_repo :: "crates \<Rightarrow> layout \<Rightarrow> uuid \<Rightarrow> fsys \<Rightarrow> bool" where
  "fresh_repo X l rid s \<longleftrightarrow> faults s = [] \<and> tree s \<and> \<not> path_exists s (repo_root X l rid) \<and> clear s (repo_root X l rid)"

lemma fresh_repo_clear:
  assumes "fresh_repo X l rid s" and "prefix (repo_root X l rid) p"
  shows "clear s p"
  unfolding clear_def
proof (intro allI impI)
  fix q assume "prefix q p"
  then consider "prefix q (repo_root X l rid)" | "prefix (repo_root X l rid) q" using assms(2) by (metis prefix_same_cases)
  then show "\<not> is_file s q"
    using assms(1) tree_unused [of s "repo_root X l rid" q] by cases (auto simp: fresh_repo_def clear_def is_file_def)
qed

text \<open>The paths the initialisation leaves alone: outside the root and the directories above it.\<close>

lemma init_repository_total:
  assumes "fresh_repo X l rid s"
  obtains t where "init_repository X l rid s = (Inr (), t)" and "faults t = []"
    and "\<And>p q. p \<in> set (repo_dirs X l rid) \<Longrightarrow> prefix q p \<Longrightarrow> is_dir t q"
    and "lookup t (meta_path X l rid) = None" and "lookup t (index_path X l rid) = None"
    and "\<And>p. \<not> prefix (repo_root X l rid) p \<Longrightarrow> \<not> prefix p (repo_root X l rid) \<Longrightarrow> lookup t p = lookup s p"
proof -
  let ?fv = "format_version_path X l rid"
  note f = assms [unfolded fresh_repo_def]
  have "\<forall>p \<in> set (repo_dirs X l rid). clear s p" "\<forall>p \<in> set (bucket_dirs X l rid). clear s p"
    using fresh_repo_clear [OF assms] below_root by blast+
  then obtain t1 where t1: "create_all (repo_dirs X l rid) s = (Inr (), t1)" "faults t1 = []"
      "\<forall>p \<in> set (bucket_dirs X l rid). clear t1 p"
    using create_all_total [of s "repo_dirs X l rid"] f by (auto simp: clear_def)
  then obtain t2 where t2: "create_all (bucket_dirs X l rid) t1 = (Inr (), t2)" "faults t2 = []"
    using create_all_total by blast
  have none: "lookup t2 (d @ [x]) = None" if "d = meta_dir X l rid \<or> d = index_dir X l rid" for d x
  proof -
    have "lookup s (d @ [x]) = None"
      using that f tree_unused [of s "repo_root X l rid" "d @ [x]"] by (auto simp: layout_dirs)
    moreover have "\<not> prefix (d @ [x]) p" if "p \<in> set (repo_dirs X l rid) \<union> set (bucket_dirs X l rid)" for p
      using below_root [OF that, of x] \<open>d = _ \<or> _\<close> by auto
    ultimately show ?thesis
      using create_all_frame [OF t1(1), of "d @ [x]"] create_all_frame [OF t2(1), of "d @ [x]"] by auto
  qed
  have dirs: "is_dir t2 q" if "p \<in> set (repo_dirs X l rid)" "prefix q p" for p q
    using create_all_dirs [OF t1(1)] create_all_dirs [OF t2(1)] that by blast
  have fv: "lookup t2 ?fv = None" using none by (simp add: format_version_path_def)
  have w: "fs_write ?fv [49] t2 = (Inr (), set_node ?fv (File [49]) t2)"
    using fv dirs [of "meta_dir X l rid" "meta_dir X l rid"] t2(2)
    by (intro fs_write_total) (auto simp: format_version_path_def repo_dirs_def is_dir_def)
  show ?thesis
  proof (rule that)
    show "init_repository X l rid s = (Inr (), set_node ?fv (File [49]) t2)"
      using f t1(1) t2(1) w by (simp add: init_repository_alt)
    show "is_dir (set_node ?fv (File [49]) t2) q" if "p \<in> set (repo_dirs X l rid)" "prefix q p" for p q
      using dirs [OF that] fv by (auto simp: is_dir_def)
    show "lookup (set_node ?fv (File [49]) t2) (meta_path X l rid) = None"
      using none by (simp add: meta_path_def format_version_path_def)
    show "lookup (set_node ?fv (File [49]) t2) (index_path X l rid) = None"
      using none [of "index_dir X l rid"] by (auto simp: index_path_def format_version_path_def layout_dirs)
    show "lookup (set_node ?fv (File [49]) t2) p = lookup s p"
      if "\<not> prefix (repo_root X l rid) p" "\<not> prefix p (repo_root X l rid)" for p
    proof -
      have "\<not> prefix p d" if "d \<in> set (repo_dirs X l rid) \<union> set (bucket_dirs X l rid)" for d
        using below_root [OF that] \<open>\<not> prefix (repo_root X l rid) p\<close> \<open>\<not> prefix p (repo_root X l rid)\<close>
        by (metis prefix_same_cases)
      moreover have "p \<noteq> ?fv" using that(1) by (auto simp: format_version_path_def meta_dir_def)
      ultimately show ?thesis
        using create_all_frame [OF t1(1), of p] create_all_frame [OF t2(1), of p] by auto
    qed
  qed (use t2(2) in simp)
qed

text \<open>What a successful creation leaves on disk, and that it succeeds on a fresh place.\<close>

definition empty_index :: "path \<Rightarrow> badou_index" where
  "empty_index p = \<lparr>bi_chunk_index = [], bi_version_chunks = [], bi_manifest_hashes = [],
     bi_consistent = True, bi_persist_path = Some p\<rparr>"

lemma index_open_absent: "lookup s p = None \<Longrightarrow> p \<noteq> [] \<Longrightarrow> index_open J p s = (Inr (empty_index p), s)"
  by (simp add: index_open_def path_exists_def empty_index_def)

lemma create_repository_total:
  fixes X :: crates and l :: layout and rid :: uuid
  assumes "l = rm_layout m" and "fresh_repo X l rid s"
    and "repo = repository_new rid (config\<lparr>rc_name := name\<rparr>) now" and "rj_to_vec R repo = Some json"
  obtains t where "create_repository X J R rid now name config (m, s) =
       (Inr repo, (m\<lparr>rm_repos := AList.update rid repo (rm_repos m)\<rparr>, t))"
    and "faults t = []" and "is_dir t (repo_root X l rid)"
    and "lookup t (meta_path X l rid) = Some (File json)" and "lookup t (index_path X l rid) = None"
    and "is_dir t (journal_dir X l rid)" and "is_dir t (index_dir X l rid)"
    and "is_dir t (manifests_dir X l rid)" and "is_dir t (snapshots_dir X l rid)"
    and "\<And>p. \<not> prefix (repo_root X l rid) p \<Longrightarrow> \<not> prefix p (repo_root X l rid) \<Longrightarrow> lookup t p = lookup s p"
proof -
  let ?mp = "meta_path X l rid"
  from assms(2) obtain t where t: "init_repository X l rid s = (Inr (), t)" "faults t = []"
    "\<And>p q. p \<in> set (repo_dirs X l rid) \<Longrightarrow> prefix q p \<Longrightarrow> is_dir t q"
    "lookup t ?mp = None" "lookup t (index_path X l rid) = None"
    "\<And>p. \<not> prefix (repo_root X l rid) p \<Longrightarrow> \<not> prefix p (repo_root X l rid) \<Longrightarrow> lookup t p = lookup s p"
    by (rule init_repository_total) blast
  have d: "is_dir t (repo_root X l rid)" "is_dir t (journal_dir X l rid)" "is_dir t (index_dir X l rid)"
    "is_dir t (manifests_dir X l rid)" "is_dir t (snapshots_dir X l rid)" "is_dir t (meta_dir X l rid)"
    by (rule t(3) [of "meta_dir X l rid"] t(3) [of "journal_dir X l rid"] t(3) [of "index_dir X l rid"]
          t(3) [of "manifests_dir X l rid"] t(3) [of "snapshots_dir X l rid"];
        simp add: repo_dirs_def meta_dir_def)+
  have w: "fs_write ?mp json t = (Inr (), set_node ?mp (File json) t)"
    using t(2,4) d(6) by (intro fs_write_total) (auto simp: meta_path_def is_dir_def)
  have keep: "is_dir (set_node ?mp (File json) t) q" if "is_dir t q" for q
    using that t(4) by (auto simp: is_dir_def)
  show ?thesis
  proof (rule that)
    show "create_repository X J R rid now name config (m, s) =
       (Inr repo, (m\<lparr>rm_repos := AList.update rid repo (rm_repos m)\<rparr>, set_node ?mp (File json) t))"
      using assms t(1,5) w index_open_absent [OF t(5)]
      by (simp add: create_repository_def Let_def fresh_repo_def index_path_def)
    show "lookup (set_node ?mp (File json) t) (index_path X l rid) = None"
      using t(5) by (simp add: layout_dirs)
    show "lookup (set_node ?mp (File json) t) p = lookup s p"
      if "\<not> prefix (repo_root X l rid) p" "\<not> prefix p (repo_root X l rid)" for p
      using t(6) [OF that] that by (auto simp: layout_dirs)
  qed (use t(2) keep d in simp_all)
qed

lemma read_meta_total:
  "faults s = [] \<Longrightarrow> lookup s p = Some (File json) \<Longrightarrow> rj_from_slice R json = Some repo \<Longrightarrow> read_meta R p s = (Inr repo, s)"
  by (simp add: read_meta_def fs_read_def)

lemma read_meta_lookup: "read_meta R p s = (r, t) \<Longrightarrow> lookup t = lookup s"
  by (auto simp: read_meta_def and_then_def map_err_def split: prod.splits sum.splits option.splits dest: fs_read_lookup)

lemma read_meta_Ok:
  "read_meta R p s = (Inr repo, t) \<Longrightarrow> \<exists>json. lookup s p = Some (File json) \<and> rj_from_slice R json = Some repo"
  by (auto simp: read_meta_def result_iffs split: option.splits dest: fs_read_Ok)

subsection \<open>Properties\<close>

text \<open>(C36) The life of a repository.  On a healthy disk with nothing at the new place, creation
  succeeds whatever the configuration; the repository can then be opened with an empty
  index and asked for its state.  Unless the configuration sets the \<open>immutable\<close> flag it can
  be deleted at any moment, also before the \<open>immutable_until\<close> the configuration asks for,
  which nothing reads; after that it is not found, and the disk outside its root is as
  before.\<close>

theorem repository_lifecycle:
  assumes "fresh_repo X (rm_layout m) rid s"
    and "repo = repository_new rid (config\<lparr>rc_name := name\<rparr>) now" and "rj_to_vec R repo = Some json"
    and "rj_from_slice R json = Some repo"
  shows "\<exists>m' t. create_repository X J R rid now name config (m, s) = (Inr repo, (m', t)) \<and>
     open_repository X J R m' rid t = (Inr \<lparr>rh_repo = repo, rh_layout = rm_layout m,
       rh_index = empty_index (index_path X (rm_layout m) rid)\<rparr>, t) \<and>
     stat_repository X J R later m' rid t = (Inr (stat_of repo 0 later), t) \<and>
     (\<not> rc_immutable config \<longrightarrow> (\<exists>m'' u. delete_repository X R later rid (m', t) = (Inr (), (m'', u)) \<and>
        open_repository X J R m'' rid u = (Inl (RmNotFound rid), u) \<and>
        (\<forall>p. \<not> prefix p (repo_root X (rm_layout m) rid) \<longrightarrow> lookup u p = lookup s p)))"
proof -
  let ?l = "rm_layout m" and ?root = "repo_root X (rm_layout m) rid"
  from create_repository_total [OF refl assms(1-3), where J = J] obtain t where t:
    "create_repository X J R rid now name config (m, s) = (Inr repo, (m\<lparr>rm_repos := AList.update rid repo (rm_repos m)\<rparr>, t))"
    "faults t = []" "is_dir t ?root" "lookup t (meta_path X ?l rid) = Some (File json)" "lookup t (index_path X ?l rid) = None"
    "\<And>p. \<not> prefix ?root p \<Longrightarrow> \<not> prefix p ?root \<Longrightarrow> lookup t p = lookup s p"
    by blast
  let ?m = "m\<lparr>rm_repos := AList.update rid repo (rm_repos m)\<rparr>"
  have l: "rm_layout ?m = ?l" by (simp add: rm_layout_def)
  have ne: "?root \<noteq> []" "index_path X ?l rid \<noteq> []" "meta_path X ?l rid \<noteq> []" by (auto simp: repo_root_def layout_dirs)
  have ex: "path_exists t ?root" "path_exists t (meta_path X ?l rid)" "\<not> path_exists t (index_path X ?l rid)"
    using t(3,4,5) ne by (auto simp: path_exists_def is_dir_def)
  have rd: "read_meta R (meta_path X ?l rid) t = (Inr repo, t)" using read_meta_total [OF t(2,4) assms(4)] .
  have "open_repository X J R ?m rid t = (Inr \<lparr>rh_repo = repo, rh_layout = ?l, rh_index = empty_index (index_path X ?l rid)\<rparr>, t)"
    using ex rd l index_open_absent [OF t(5) ne(2)] by (simp add: open_repository_def Let_def)
  moreover have "stat_repository X J R later ?m rid t = (Inr (stat_of repo 0 later), t)"
    using ex rd l by (simp add: stat_repository_def Let_def indexed_chunks_def)
  moreover have "\<exists>m'' u. delete_repository X R later rid (?m, t) = (Inr (), (m'', u)) \<and>
        open_repository X J R m'' rid u = (Inl (RmNotFound rid), u) \<and>
        (\<forall>p. \<not> prefix p ?root \<longrightarrow> lookup u p = lookup s p)" if "\<not> rc_immutable config"
  proof -
    let ?u = "t\<lparr>nodes := filter (\<lambda>(q, n). \<not> prefix ?root q) (nodes t)\<rparr>"
    have "\<not> repo_is_immutable repo later" using that assms(2) by (simp add: repo_is_immutable_def repository_new_def)
    then have "delete_repository X R later rid (?m, t) = (Inr (), (?m\<lparr>rm_repos := AList.delete rid (rm_repos ?m)\<rparr>, ?u))"
      using ex rd l t(2,3) by (simp add: delete_repository_def Let_def fs_remove_dir_all_def)
    moreover have "\<not> path_exists ?u ?root" using ne by (simp add: path_exists_def)
    moreover have "lookup ?u p = lookup s p" if "\<not> prefix p ?root" for p
      using t(6) [of p] that tree_unused [of s ?root p] assms(1) by (auto simp: fresh_repo_def)
    ultimately show ?thesis by (auto simp: open_repository_def Let_def rm_layout_def)
  qed
  ultimately show ?thesis using t(1) by blast
qed

text \<open>A repository whose stored configuration carries the \<open>immutable\<close> flag cannot be deleted,
  whatever fails on the way: the call is refused and nothing on disk changes.\<close>

theorem immutable_repository_survives:
  assumes "lookup s (meta_path X (rm_layout m) rid) = Some (File json)" and "rj_from_slice R json = Some repo"
    and "rc_immutable (r_config repo)" and "delete_repository X R now rid (m, s) = (r, (m', t))"
  shows "r \<noteq> Inr () \<and> m' = m \<and> lookup t = lookup s"
proof -
  have ex: "path_exists s (meta_path X (rm_layout m) rid)" using assms(1) by (simp add: path_exists_def)
  obtain q u where rd: "read_meta R (meta_path X (rm_layout m) rid) s = (q, u)" by (rule prod.exhaust)
  have same: "lookup u = lookup s" using read_meta_lookup [OF rd] .
  have "q = Inr x \<Longrightarrow> repo_is_immutable x now" for x
    using read_meta_Ok rd assms(1-3) by (fastforce simp: repo_is_immutable_def)
  then show ?thesis
    using assms(4) rd ex same by (cases q) (auto simp: delete_repository_def Let_def split: if_splits)
qed

subsection \<open>Witnesses\<close>

definition locked_config :: "bool \<Rightarrow> repo_config" where
  "locked_config flag = \<lparr>rc_name = ''r'', rc_immutable = flag, rc_immutable_until = Some 1000, rc_options = []\<rparr>"

definition blank_disk :: fsys where
  "blank_disk = \<lparr>nodes = [], faults = []\<rparr>"

text \<open>A serialiser that knows one repository.\<close>

definition one_repo_json :: "repository \<Rightarrow> repository_json" where
  "one_repo_json repo = \<lparr>rj_to_vec = (\<lambda>r. if r = repo then Some [1] else None),
     rj_from_slice = (\<lambda>b. if b = [1] then Some repo else None)\<rparr>"

lemma blank_fresh: "fresh_repo X l rid blank_disk"
  by (simp add: fresh_repo_def blank_disk_def tree_def lookup_def path_exists_def repo_root_def clear_def is_file_def)

theorem repository_lifecycle_witness:
  "\<exists>m' t m'' u. create_repository sample_crates \<lparr>ij_to_vec = \<lambda>_. None, ij_from_slice = \<lambda>_. None\<rparr> (one_repo_json (repository_new [9] (locked_config False) 0)) [9] 0 ''r''
        (locked_config False) (repository_manager_new [], blank_disk) = (Inr (repository_new [9] (locked_config False) 0), (m', t)) \<and>
     delete_repository sample_crates (one_repo_json (repository_new [9] (locked_config False) 0)) 5 [9] (m', t) = (Inr (), (m'', u)) \<and>
     rc_immutable_until (r_config (repository_new [9] (locked_config False) 0)) = Some 1000"
proof -
  let ?repo = "repository_new [9] (locked_config False) 0"
  have r: "?repo = repository_new [9] ((locked_config False)\<lparr>rc_name := ''r''\<rparr>) 0" by (simp add: locked_config_def)
  have j: "rj_to_vec (one_repo_json ?repo) ?repo = Some [1]" "rj_from_slice (one_repo_json ?repo) [1] = Some ?repo"
    by (simp_all add: one_repo_json_def)
  show ?thesis
    using repository_lifecycle [OF blank_fresh [of sample_crates "rm_layout (repository_manager_new [])" "[9]"] r j(1) j(2),
        of "\<lparr>ij_to_vec = \<lambda>_. None, ij_from_slice = \<lambda>_. None\<rparr>" 5]
    by (fastforce simp: locked_config_def repository_new_def)
qed

theorem immutable_repository_survives_witness:
  "\<exists>t. delete_repository sample_crates (one_repo_json (repository_new [9] (locked_config True) 0)) 5 [9]
       (repository_manager_new [], \<lparr>nodes = [(meta_path sample_crates \<lparr>data_root = []\<rparr> [9], File [1]), (repo_root sample_crates \<lparr>data_root = []\<rparr> [9], Dir)], faults = []\<rparr>)
       = (Inl (RmImmutable [9]), (repository_manager_new [], t)) \<and>
     lookup t (meta_path sample_crates \<lparr>data_root = []\<rparr> [9]) = Some (File [1])"
proof -
  let ?repo = "repository_new [9] (locked_config True) 0"
    and ?s = "\<lparr>nodes = [(meta_path sample_crates \<lparr>data_root = []\<rparr> [9], File [1]), (repo_root sample_crates \<lparr>data_root = []\<rparr> [9], Dir)], faults = []\<rparr>"
  have l: "rm_layout (repository_manager_new []) = \<lparr>data_root = []\<rparr>" by (simp add: rm_layout_def repository_manager_new_def)
  have p: "lookup ?s (meta_path sample_crates (rm_layout (repository_manager_new [])) [9]) = Some (File [1])"
    by (simp add: lookup_def l)
  have j: "rj_from_slice (one_repo_json ?repo) [1] = Some ?repo" "rc_immutable (r_config ?repo)"
    by (simp_all add: one_repo_json_def repository_new_def locked_config_def)
  obtain r m t where d: "delete_repository sample_crates (one_repo_json ?repo) 5 [9] (repository_manager_new [], ?s) = (r, (m, t))"
    by (metis prod_cases3)
  then have "r = Inl (RmImmutable [9])"
    using p j(2) l by (auto simp: delete_repository_def Let_def path_exists_def lookup_def layout_dirs repo_root_def
        read_meta_def fs_read_def next_fault_def one_repo_json_def repo_is_immutable_def split: if_splits)
  with immutable_repository_survives [OF p j d] p d l show ?thesis by auto
qed

end
