(* ===== verification/Badou_Auth.thy ===== *)
theory Badou_Auth
  imports Badou_Recovery Badou_Repository
begin

text \<open>
  Who may call the storage protocol (\<open>badou-hbop-server/src/auth.rs\<close>) and how its failures are
  reported (\<open>error.rs\<close>): signed tokens, roles, the protocol version, and the mapping of the
  errors of the storage layer to gRPC status codes.

  \<open>auth_crates\<close> holds the third-party functions: URL-safe base64, HMAC-SHA256 (\<open>None\<close> where
  the key is refused) and \<open>serde_json\<close> on claims.  A metadata value is \<open>None\<close> when absent and
  \<open>Some None\<close> when it is not text.  A status is its code and the part of its message before
  the colon.
\<close>

subsection \<open>Status codes\<close>

datatype grpc_code =
  GUnauthenticated | GPermissionDenied | GInvalidArgument | GNotFound | GAlreadyExists
| GFailedPrecondition | GDataLoss | GResourceExhausted | GInternal

record status =
  st_code :: grpc_code
  st_label :: string

datatype hbop_error_code =
  HAuthFailed | HPermissionDenied | HVersionMismatch | HRepoNotFound | HRepoAlreadyExists
| HVersionNotFound | HSnapshotNotFound | HChunkNotFound | HManifestNotFound | HImmutableConflict
| HStateConflict | HHashMismatch | HCorruptedData | HDiskFull | HInternalError | HRateLimited | HUnspecified

fun to_status :: "hbop_error_code \<Rightarrow> status" where
  "to_status HAuthFailed = \<lparr>st_code = GUnauthenticated, st_label = ''AUTH_FAILED''\<rparr>"
| "to_status HPermissionDenied = \<lparr>st_code = GPermissionDenied, st_label = ''FORBIDDEN''\<rparr>"
| "to_status HVersionMismatch = \<lparr>st_code = GInvalidArgument, st_label = ''VERSION_MISMATCH''\<rparr>"
| "to_status HRepoNotFound = \<lparr>st_code = GNotFound, st_label = ''REPO_NOT_FOUND''\<rparr>"
| "to_status HRepoAlreadyExists = \<lparr>st_code = GAlreadyExists, st_label = ''REPO_EXISTS''\<rparr>"
| "to_status HVersionNotFound = \<lparr>st_code = GNotFound, st_label = ''VERSION_NOT_FOUND''\<rparr>"
| "to_status HSnapshotNotFound = \<lparr>st_code = GNotFound, st_label = ''SNAPSHOT_NOT_FOUND''\<rparr>"
| "to_status HChunkNotFound = \<lparr>st_code = GNotFound, st_label = ''CHUNK_NOT_FOUND''\<rparr>"
| "to_status HManifestNotFound = \<lparr>st_code = GNotFound, st_label = ''MANIFEST_NOT_FOUND''\<rparr>"
| "to_status HImmutableConflict = \<lparr>st_code = GFailedPrecondition, st_label = ''IMMUTABLE_CONFLICT''\<rparr>"
| "to_status HStateConflict = \<lparr>st_code = GFailedPrecondition, st_label = ''STATE_CONFLICT''\<rparr>"
| "to_status HHashMismatch = \<lparr>st_code = GFailedPrecondition, st_label = ''HASH_MISMATCH''\<rparr>"
| "to_status HCorruptedData = \<lparr>st_code = GDataLoss, st_label = ''SNAPSHOT_CORRUPTED''\<rparr>"
| "to_status HDiskFull = \<lparr>st_code = GResourceExhausted, st_label = ''REPO_FULL''\<rparr>"
| "to_status HInternalError = \<lparr>st_code = GInternal, st_label = ''INTERNAL_ERROR''\<rparr>"
| "to_status HRateLimited = \<lparr>st_code = GResourceExhausted, st_label = ''RATE_LIMITED''\<rparr>"
| "to_status HUnspecified = \<lparr>st_code = GInternal, st_label = ''INTERNAL_ERROR''\<rparr>"

fun repo_error_to_status :: "repository_error \<Rightarrow> status" where
  "repo_error_to_status (RmAlreadyExists _) = to_status HRepoAlreadyExists"
| "repo_error_to_status (RmNotFound _) = to_status HRepoNotFound"
| "repo_error_to_status (RmImmutable _) = to_status HImmutableConflict"
| "repo_error_to_status _ = to_status HInternalError"

fun chunk_error_to_status :: "chunk_ops_error \<Rightarrow> status" where
  "chunk_error_to_status (CoNotFound _) = to_status HChunkNotFound"
| "chunk_error_to_status (CoReferenced _) = to_status HImmutableConflict"
| "chunk_error_to_status _ = to_status HInternalError"

fun snapshot_error_to_status :: "snapshot_ops_error \<Rightarrow> status" where
  "snapshot_error_to_status (SoNotFound _) = to_status HSnapshotNotFound"
| "snapshot_error_to_status _ = to_status HInternalError"

fun version_error_to_status :: "version_ops_error \<Rightarrow> status" where
  "version_error_to_status (VoNotFound _) = to_status HVersionNotFound"
| "version_error_to_status (VoInvalidTransition _ _) = to_status HStateConflict"
| "version_error_to_status (VoParentNotFound _) = to_status HVersionNotFound"
| "version_error_to_status _ = to_status HInternalError"

text \<open>The code has a further case for a verification error that \<open>commit_backup\<close> never raises.\<close>

fun commit_error_to_status :: "commit_error \<Rightarrow> status" where
  "commit_error_to_status (CeChunkStore (CsNotFound _)) = to_status HChunkNotFound"
| "commit_error_to_status _ = to_status HInternalError"

fun recovery_error_to_status :: "recovery_error \<Rightarrow> status" where
  "recovery_error_to_status (ReSnapshotNotFound _) = to_status HSnapshotNotFound"
| "recovery_error_to_status (ReSnapshotCorrupted _) = to_status HCorruptedData"
| "recovery_error_to_status (ReNotSealed _) = to_status HStateConflict"
| "recovery_error_to_status (ReChunkNotFound _) = to_status HChunkNotFound"
| "recovery_error_to_status (ReHashMismatch _ _) = to_status HHashMismatch"

subsection \<open>Roles and tokens\<close>

datatype role = Admin | Operator | Viewer

definition from_role_str :: "string \<Rightarrow> role option" where
  "from_role_str s = (if s = ''admin'' then Some Admin else if s = ''operator'' then Some Operator
     else if s = ''viewer'' then Some Viewer else None)"

fun can_write :: "role \<Rightarrow> bool" where
  "can_write Admin = True" | "can_write Operator = True" | "can_write Viewer = False"

fun can_admin :: "role \<Rightarrow> bool" where
  "can_admin Admin = True" | "can_admin Operator = False" | "can_admin Viewer = False"

record jwt_claims =
  jw_sub :: string
  jw_role :: string
  jw_exp :: u64
  jw_iat :: u64

record auth_config =
  jwt_secret :: bytes

definition from_secret :: "bytes \<Rightarrow> auth_config" where
  "from_secret secret = \<lparr>jwt_secret = secret\<rparr>"

record auth_crates =
  b64_encode :: "bytes \<Rightarrow> string"
  b64_decode :: "string \<Rightarrow> bytes option"
  hmac :: "bytes \<Rightarrow> bytes \<Rightarrow> bytes option"
  header_to_vec :: "bytes option"
  claims_to_vec :: "jwt_claims \<Rightarrow> bytes option"
  claims_from_slice :: "bytes \<Rightarrow> jwt_claims option"

text \<open>\<open>Utc::now().timestamp() as u64\<close>.\<close>

definition unix_seconds :: "timestamp \<Rightarrow> u64" where
  "unix_seconds now = of_int (now div 1000000000)"

definition validate_jwt :: "auth_crates \<Rightarrow> timestamp \<Rightarrow> auth_config \<Rightarrow> string \<Rightarrow> status + jwt_claims" where
  "validate_jwt A now cfg token = (case split_on (CHR ''.'') token of
     [header_b64, payload_b64, signature_b64] \<Rightarrow>
       (case b64_decode A signature_b64 of
          None \<Rightarrow> Inl (to_status HAuthFailed)
        | Some expected_sig \<Rightarrow>
          (case hmac A (jwt_secret cfg) (str_bytes (header_b64 @ ''.'' @ payload_b64)) of
             None \<Rightarrow> Inl \<lparr>st_code = GInternal, st_label = ''AUTH_FAILED''\<rparr>
           | Some mac \<Rightarrow>
             if mac \<noteq> expected_sig then Inl (to_status HAuthFailed)
             else (case b64_decode A payload_b64 of
                None \<Rightarrow> Inl (to_status HAuthFailed)
              | Some payload \<Rightarrow>
                (case claims_from_slice A payload of
                   None \<Rightarrow> Inl (to_status HAuthFailed)
                 | Some claims \<Rightarrow>
                   if jw_exp claims < unix_seconds now then Inl (to_status HAuthFailed) else Inr claims))))
   | _ \<Rightarrow> Inl (to_status HAuthFailed))"

definition generate_jwt :: "auth_crates \<Rightarrow> bytes \<Rightarrow> jwt_claims \<Rightarrow> string option" where
  "generate_jwt A secret claims = (case header_to_vec A of None \<Rightarrow> None | Some h \<Rightarrow>
     (case claims_to_vec A claims of None \<Rightarrow> None | Some p \<Rightarrow>
     (let signing_input = b64_encode A h @ ''.'' @ b64_encode A p in
      case hmac A secret (str_bytes signing_input) of None \<Rightarrow> None | Some signature \<Rightarrow>
        Some (b64_encode A h @ ''.'' @ b64_encode A p @ ''.'' @ b64_encode A signature))))"

subsection \<open>What a request must carry\<close>

record metadata =
  md_authorization :: "string option option"
  md_version :: "string option option"

definition strip_prefix :: "string \<Rightarrow> string \<Rightarrow> string option" where
  "strip_prefix p s = (if prefix p s then Some (drop (length p) s) else None)"

definition extract_auth :: "auth_crates \<Rightarrow> timestamp \<Rightarrow> auth_config \<Rightarrow> metadata \<Rightarrow> status + jwt_claims" where
  "extract_auth A now cfg md = (case md_authorization md of
     Some (Some auth_header) \<Rightarrow>
       (case strip_prefix ''Bearer '' auth_header of
          None \<Rightarrow> Inl (to_status HAuthFailed)
        | Some token \<Rightarrow> validate_jwt A now cfg token)
   | _ \<Rightarrow> Inl (to_status HAuthFailed))"

definition supported_versions :: "nat list" where
  "supported_versions = [1]"

definition extract_version :: "metadata \<Rightarrow> status + nat" where
  "extract_version md = (case md_version md of
     Some (Some version_str) \<Rightarrow>
       (case parse_uint (2 ^ 32 - 1) version_str of
          None \<Rightarrow> Inl (to_status HVersionMismatch)
        | Some version \<Rightarrow>
            if version \<notin> set supported_versions then Inl (to_status HVersionMismatch) else Inr version)
   | _ \<Rightarrow> Inl (to_status HVersionMismatch))"

definition require_auth :: "auth_crates \<Rightarrow> timestamp \<Rightarrow> auth_config \<Rightarrow> metadata \<Rightarrow> status + (jwt_claims \<times> nat)" where
  "require_auth A now cfg md = (case extract_auth A now cfg md of Inl e \<Rightarrow> Inl e | Inr claims \<Rightarrow>
     (case extract_version md of Inl e \<Rightarrow> Inl e | Inr version \<Rightarrow> Inr (claims, version)))"

text \<open>The two checks of a role differ in the permission they ask for.\<close>

definition require_role ::
  "(role \<Rightarrow> bool) \<Rightarrow> auth_crates \<Rightarrow> timestamp \<Rightarrow> auth_config \<Rightarrow> metadata \<Rightarrow> status + (jwt_claims \<times> nat)" where
  "require_role allowed A now cfg md = (case extract_auth A now cfg md of Inl e \<Rightarrow> Inl e | Inr claims \<Rightarrow>
     (case extract_version md of Inl e \<Rightarrow> Inl e | Inr version \<Rightarrow>
     (case from_role_str (jw_role claims) of
        None \<Rightarrow> Inl (to_status HPermissionDenied)
      | Some role \<Rightarrow> if \<not> allowed role then Inl (to_status HPermissionDenied) else Inr (claims, version))))"

definition require_write :: "auth_crates \<Rightarrow> timestamp \<Rightarrow> auth_config \<Rightarrow> metadata \<Rightarrow> status + (jwt_claims \<times> nat)" where
  "require_write = require_role can_write"

definition require_admin :: "auth_crates \<Rightarrow> timestamp \<Rightarrow> auth_config \<Rightarrow> metadata \<Rightarrow> status + (jwt_claims \<times> nat)" where
  "require_admin = require_role can_admin"

subsection \<open>Tokens\<close>

lemma split_on_dots:
  "CHR ''.'' \<notin> set a \<Longrightarrow> split_on (CHR ''.'') (a @ CHR ''.'' # s) = a # split_on (CHR ''.'') s"
  by (induction a) auto

lemma split_on_single: "c \<notin> set a \<Longrightarrow> split_on c a = [a]"
  by (induction a) auto

definition jwt_codec :: "auth_crates \<Rightarrow> bool" where
  "jwt_codec A \<longleftrightarrow> (\<forall>b. b64_decode A (b64_encode A b) = Some b \<and> CHR ''.'' \<notin> set (b64_encode A b)) \<and>
     (\<forall>c b. claims_to_vec A c = Some b \<longrightarrow> claims_from_slice A b = Some c)"

text \<open>A token issued under the server's secret is accepted until it expires and yields the
  claims it was issued for; a token is accepted only with the signature of the secret.\<close>

theorem jwt_roundtrip:
  assumes "jwt_codec A" and "generate_jwt A secret claims = Some token"
  shows "validate_jwt A now (from_secret secret) token =
     (if jw_exp claims < unix_seconds now then Inl (to_status HAuthFailed) else Inr claims)"
proof -
  obtain h p g where g: "claims_to_vec A claims = Some p"
    "hmac A secret (str_bytes (b64_encode A h @ ''.'' @ b64_encode A p)) = Some g"
    "token = b64_encode A h @ ''.'' @ b64_encode A p @ ''.'' @ b64_encode A g"
    using assms(2) by (auto simp: generate_jwt_def Let_def split: option.splits)
  have "split_on (CHR ''.'') token = [b64_encode A h, b64_encode A p, b64_encode A g]"
    using assms(1) g(3) by (simp add: jwt_codec_def split_on_dots split_on_single)
  then show ?thesis using assms(1) g(1,2) by (simp add: validate_jwt_def from_secret_def jwt_codec_def)
qed

text \<open>What an accepted token proves.\<close>

definition authentic :: "auth_crates \<Rightarrow> timestamp \<Rightarrow> auth_config \<Rightarrow> metadata \<Rightarrow> jwt_claims \<Rightarrow> bool" where
  "authentic A now cfg md claims \<longleftrightarrow> (\<exists>h p g mac payload.
     md_authorization md = Some (Some (''Bearer '' @ h @ ''.'' @ p @ ''.'' @ g)) \<and>
     hmac A (jwt_secret cfg) (str_bytes (h @ ''.'' @ p)) = Some mac \<and> b64_decode A g = Some mac \<and>
     b64_decode A p = Some payload \<and> claims_from_slice A payload = Some claims \<and>
     unix_seconds now \<le> jw_exp claims) \<and> (\<exists>v. extract_version md = Inr v)"

lemma split_on_Cons [simp]: "split_on c s \<noteq> []"
  by (cases s) (auto split: list.splits)

lemma split_on_join: "concat (map (\<lambda>w. w @ [c]) (butlast (split_on c s))) @ last (split_on c s) = s"
proof (induction s)
  case (Cons x s)
  obtain y ys where "split_on c s = y # ys" using split_on_Cons [of c s] by (cases "split_on c s") auto
  with Cons show ?case by (cases ys) auto
qed simp

lemma split_on_three: "split_on c s = [x, y, z] \<Longrightarrow> s = x @ c # y @ c # z"
  using split_on_join [of c s] by simp

lemma extract_auth_authentic:
  assumes "extract_auth A now cfg md = Inr claims" and "extract_version md = Inr v"
  shows "authentic A now cfg md claims"
proof -
  obtain s token where s: "md_authorization md = Some (Some s)" "s = ''Bearer '' @ token" "validate_jwt A now cfg token = Inr claims"
    using assms(1) by (auto simp: extract_auth_def strip_prefix_def prefix_def split: option.splits if_splits)
  then obtain h p g where "split_on (CHR ''.'') token = [h, p, g]"
    by (auto simp: validate_jwt_def split: list.splits)
  moreover from this have "token = h @ ''.'' @ p @ ''.'' @ g" by (auto dest: split_on_three)
  moreover from calculation s(3) obtain mac payload where "hmac A (jwt_secret cfg) (str_bytes (h @ ''.'' @ p)) = Some mac"
      "b64_decode A g = Some mac" "b64_decode A p = Some payload" "claims_from_slice A payload = Some claims"
      "unix_seconds now \<le> jw_exp claims"
    by (auto simp: validate_jwt_def linorder_not_less split: option.splits if_splits)
  ultimately show ?thesis using s(1,2) assms(2) unfolding authentic_def by blast
qed

lemma require_auth_authentic: "require_auth A now cfg md = Inr (claims, v) \<Longrightarrow> authentic A now cfg md claims"
  by (auto simp: require_auth_def extract_auth_authentic split: sum.splits)

lemma require_role_authentic:
  "require_role allowed A now cfg md = Inr (claims, v) \<Longrightarrow>
   authentic A now cfg md claims \<and> (\<exists>r. from_role_str (jw_role claims) = Some r \<and> allowed r)"
  by (auto simp: require_role_def extract_auth_authentic split: sum.splits option.splits if_splits)

end
