(* ===== verification/Badou_Server.thy ===== *)
theory Badou_Server
  imports Badou_Auth
begin

text \<open>
  The storage protocol server (\<open>badou-hbop-server\<close>): the shared state with its cache of open
  repositories (\<open>state.rs\<close>), the message conversions (\<open>convert.rs\<close>) and the twenty remote
  calls (\<open>repository_rpc.rs\<close>, \<open>chunk_rpc.rs\<close>, \<open>snapshot_rpc.rs\<close>, \<open>verify_rpc.rs\<close>,
  \<open>recovery_rpc.rs\<close>, dispatched by \<open>lib.rs\<close>).

  A call is one step on the server state; a stream is the list of its messages (an input
  stream may end in a transport error).  Message types are records with the fields of the
  protocol, enumerations carry the domain value they are converted from.  \<open>server_env\<close> holds the
  third-party functions, \<open>call_env\<close> what one call reads from outside: the clock and fresh
  identifiers at named points, and archive stamps.  An open repository holds two indexes,
  as in the code: the one inside the chunk store and the one handed to the verifier.
\<close>

subsection \<open>Messages\<close>

record pb_timestamp =
  ts_seconds :: int
  ts_nanos :: int

record pb_repo_config =
  pc_name :: string
  pc_immutable :: "bool option"
  pc_immutable_until :: "pb_timestamp option"
  pc_options :: "(string, string) hmap"

record pb_repo_info =
  pri_repo_id :: string
  pri_name :: string
  pri_status :: repo_status
  pri_immutable_until :: "pb_timestamp option"
  pri_version_count :: u64
  pri_total_size :: u64
  pri_stored_size :: u64
  pri_created_at :: pb_timestamp

record pb_chunk_data =
  pcd_chunk_hash :: string
  pcd_data :: bytes
  pcd_size :: u64

record pb_chunk_info =
  pci_chunk_hash :: string
  pci_size :: u64
  pci_stored_size :: u64
  pci_ref_count :: u32
  pci_status :: chunk_status
  pci_created_at :: pb_timestamp

record pb_chunk_ref =
  pcr_chunk_hash :: string
  pcr_offset :: u64
  pcr_size :: u64

record pb_manifest =
  pm_manifest_id :: string
  pm_snapshot_id :: string
  pm_file_tree :: bytes
  pm_chunk_refs :: "pb_chunk_ref list"
  pm_created_at :: "pb_timestamp option"

record pb_snapshot_meta =
  psm_snapshot_id :: string
  psm_version_id :: string
  psm_repo_id :: string
  psm_status :: snapshot_status
  psm_source_machine :: string
  psm_backup_policy :: bytes
  psm_file_tree_root :: string
  psm_encryption_info :: bytes
  psm_compression_info :: bytes
  psm_total_size :: u64
  psm_stored_size :: u64
  psm_file_count :: u32
  psm_chunk_count :: u32
  psm_created_at :: "pb_timestamp option"

record pb_version_info =
  pv_version_id :: string
  pv_repo_id :: string
  pv_snapshot_id :: string
  pv_parent_version_id :: string
  pv_sequence :: u64
  pv_status :: version_status
  pv_created_at :: pb_timestamp
  pv_sealed_at :: "pb_timestamp option"
  pv_immutable_until :: "pb_timestamp option"

record pb_verify_report =
  pvr_target_id :: string
  pvr_level :: nat
  pvr_passed :: bool
  pvr_total_checked :: nat
  pvr_total_failed :: nat
  pvr_checked_at :: pb_timestamp

record pb_recovery_chunk =
  prc_chunk_hash :: string
  prc_data :: bytes
  prc_size :: u64
  prc_file_path :: string
  prc_offset :: u64

record chunk_put_request =
  cpr_repo_id :: string
  cpr_chunk :: "pb_chunk_data option"

record snapshot_commit_request =
  scr_repo_id :: string
  scr_parent_version_id :: string
  scr_meta :: "pb_snapshot_meta option"
  scr_manifest :: "pb_manifest option"
  scr_chunk_hashes :: "string list"

subsection \<open>State\<close>

record server_env =
  sv_crates :: crates
  sv_ijson :: index_json
  sv_mjson :: manifest_json
  sv_sjson :: snapshot_json
  sv_rjson :: repository_json
  sv_jc :: journal_crates
  sv_auth :: auth_crates
  sv_from_timestamp :: "int \<Rightarrow> u32 \<Rightarrow> timestamp option"
  sv_policy_to_vec :: "backup_policy \<Rightarrow> bytes option"
  sv_policy_from_slice :: "bytes \<Rightarrow> backup_policy option"
  sv_enc_to_vec :: "encryption_info \<Rightarrow> bytes option"
  sv_enc_from_slice :: "bytes \<Rightarrow> encryption_info option"
  sv_comp_to_vec :: "compression_info \<Rightarrow> bytes option"
  sv_comp_from_slice :: "bytes \<Rightarrow> compression_info option"

record call_env =
  cv_now :: "string \<Rightarrow> nat \<Rightarrow> timestamp"
  cv_fresh :: "string \<Rightarrow> uuid"
  cv_stamp :: "string \<Rightarrow> string"

record open_repo =
  op_store_index :: badou_index
  op_index :: badou_index
  op_journal :: journal

record server_state =
  ss_manager :: repository_manager
  ss_versions :: version_ops
  ss_auth :: auth_config
  ss_open :: "(uuid, open_repo) hmap"
  ss_fs :: fsys

definition server_new :: "path \<Rightarrow> auth_config \<Rightarrow> fsys \<Rightarrow> server_state" where
  "server_new root cfg s = \<lparr>ss_manager = repository_manager_new root, ss_versions = version_ops_new,
     ss_auth = cfg, ss_open = [], ss_fs = s\<rparr>"

abbreviation ss_layout :: "server_state \<Rightarrow> layout" where
  "ss_layout st \<equiv> rm_layout (ss_manager st)"

text \<open>Running the manager or a disk operation on the server's part of the state.\<close>

definition on_manager :: "(mst \<Rightarrow> ('e + 'a) \<times> mst) \<Rightarrow> server_state \<Rightarrow> ('e + 'a) \<times> server_state" where
  "on_manager f st = (case f (ss_manager st, ss_fs st) of (r, (m, s)) \<Rightarrow> (r, st\<lparr>ss_manager := m, ss_fs := s\<rparr>))"

definition on_disk_of :: "(fsys \<Rightarrow> ('e + 'a) \<times> fsys) \<Rightarrow> server_state \<Rightarrow> ('e + 'a) \<times> server_state" where
  "on_disk_of f st = (case f (ss_fs st) of (r, s) \<Rightarrow> (r, st\<lparr>ss_fs := s\<rparr>))"

text \<open>An operation on the chunk store of the open repository \<open>op\<close>; the shared handle in the cache
  changes with it.\<close>

definition on_store ::
  "uuid \<Rightarrow> open_repo \<Rightarrow> (ist \<Rightarrow> ('e + 'a) \<times> ist) \<Rightarrow> server_state \<Rightarrow> ('e + 'a) \<times> server_state" where
  "on_store rid op f st = (case f (op_store_index op, ss_fs st) of (r, (i, s)) \<Rightarrow>
     (r, st\<lparr>ss_open := AList.update rid (op\<lparr>op_store_index := i\<rparr>) (ss_open st), ss_fs := s\<rparr>))"

definition journal_path :: "crates \<Rightarrow> layout \<Rightarrow> uuid \<Rightarrow> path" where
  "journal_path X l rid = journal_dir X l rid @ [''journal.log'']"

definition open_repo_handle ::
  "server_env \<Rightarrow> uuid \<Rightarrow> server_state \<Rightarrow> (repository_error + open_repo) \<times> server_state" where
  "open_repo_handle E rid st = (case map_of (ss_open st) rid of
     Some op \<Rightarrow> (Inr op, st)
   | None \<Rightarrow>
       and_then (on_disk_of (open_repository (sv_crates E) (sv_ijson E) (sv_rjson E) (ss_manager st) rid) st)
       (\<lambda>handle st. and_then (map_err RmIndex (on_disk_of (index_open (sv_ijson E)
           (index_path (sv_crates E) (rh_layout handle) rid)) st))
       (\<lambda>index st. and_then (map_err (\<lambda>_. RmIoOther) (on_disk_of (journal_open
           (journal_path (sv_crates E) (rh_layout handle) rid)) st))
       (\<lambda>journal st. let op = \<lparr>op_store_index = rh_index handle, op_index = index, op_journal = journal\<rparr> in
          (Inr op, st\<lparr>ss_open := AList.update rid op (ss_open st)\<rparr>)))))"

definition close_repo :: "uuid \<Rightarrow> server_state \<Rightarrow> server_state" where
  "close_repo rid st = st\<lparr>ss_open := AList.delete rid (ss_open st)\<rparr>"

subsection \<open>Conversions\<close>

definition ts_to_chrono :: "server_env \<Rightarrow> timestamp \<Rightarrow> pb_timestamp \<Rightarrow> timestamp" where
  "ts_to_chrono E now ts = (case sv_from_timestamp E (ts_seconds ts) (of_int (ts_nanos ts)) of
     Some t \<Rightarrow> t | None \<Rightarrow> now)"

definition chrono_to_ts :: "timestamp \<Rightarrow> pb_timestamp" where
  "chrono_to_ts t = \<lparr>ts_seconds = t div 1000000000, ts_nanos = t mod 1000000000\<rparr>"

definition pb_parse_hash :: "server_env \<Rightarrow> string \<Rightarrow> chunk_hash option" where
  "pb_parse_hash E s = (case hex_decode (sv_crates E) s of
     None \<Rightarrow> None | Some b \<Rightarrow> if length b \<noteq> 32 then None else Some b)"

definition pb_to_repo_config :: "server_env \<Rightarrow> timestamp \<Rightarrow> pb_repo_config \<Rightarrow> repo_config" where
  "pb_to_repo_config E now pb = \<lparr>rc_name = pc_name pb,
     rc_immutable = (case pc_immutable pb of Some b \<Rightarrow> b | None \<Rightarrow> False),
     rc_immutable_until = map_option (ts_to_chrono E now) (pc_immutable_until pb), rc_options = pc_options pb\<rparr>"

definition repo_to_pb_info :: "server_env \<Rightarrow> repository \<Rightarrow> pb_repo_info" where
  "repo_to_pb_info E repo = \<lparr>pri_repo_id = uuid_to_string (sv_crates E) (r_repo_id repo), pri_name = r_name repo,
     pri_status = r_status repo, pri_immutable_until = map_option chrono_to_ts (rc_immutable_until (r_config repo)),
     pri_version_count = r_version_count repo, pri_total_size = 0, pri_stored_size = 0,
     pri_created_at = chrono_to_ts (r_created_at repo)\<rparr>"

text \<open>The record the repository calls build from a \<open>RepoStat\<close>.\<close>

definition stat_to_info :: "server_env \<Rightarrow> timestamp \<Rightarrow> repo_stat \<Rightarrow> pb_repo_info" where
  "stat_to_info E now s = \<lparr>pri_repo_id = uuid_to_string (sv_crates E) (rs_repo_id s), pri_name = rs_name s,
     pri_status = rs_status s, pri_immutable_until = None, pri_version_count = rs_version_count s,
     pri_total_size = rs_total_size s, pri_stored_size = rs_stored_size s, pri_created_at = chrono_to_ts now\<rparr>"

definition version_to_pb_info :: "server_env \<Rightarrow> version \<Rightarrow> pb_version_info" where
  "version_to_pb_info E v = \<lparr>pv_version_id = uuid_to_string (sv_crates E) (v_version_id v),
     pv_repo_id = uuid_to_string (sv_crates E) (v_repo_id v),
     pv_snapshot_id = uuid_to_string (sv_crates E) (v_snapshot_id v),
     pv_parent_version_id = (case v_parent_version_id v of Some p \<Rightarrow> uuid_to_string (sv_crates E) p | None \<Rightarrow> []),
     pv_sequence = v_sequence v, pv_status = v_status v, pv_created_at = chrono_to_ts (v_created_at v),
     pv_sealed_at = map_option chrono_to_ts (v_sealed_at v),
     pv_immutable_until = map_option chrono_to_ts (v_immutable_until v)\<rparr>"

definition or_default :: "bytes option \<Rightarrow> bytes" where
  "or_default b = (case b of Some x \<Rightarrow> x | None \<Rightarrow> [])"

definition snapshot_to_pb_meta :: "server_env \<Rightarrow> snapshot \<Rightarrow> string \<Rightarrow> pb_snapshot_meta" where
  "snapshot_to_pb_meta E sn repo_id = \<lparr>psm_snapshot_id = uuid_to_string (sv_crates E) (sn_snapshot_id sn),
     psm_version_id = uuid_to_string (sv_crates E) (sn_version_id sn), psm_repo_id = repo_id,
     psm_status = sn_status sn, psm_source_machine = hostname (sn_source_machine sn),
     psm_backup_policy = or_default (sv_policy_to_vec E (sn_backup_policy sn)),
     psm_file_tree_root = ft_root (sn_file_tree sn),
     psm_encryption_info = or_default (sv_enc_to_vec E (sn_encryption_info sn)),
     psm_compression_info = or_default (sv_comp_to_vec E (sn_compression_info sn)),
     psm_total_size = sn_total_size sn, psm_stored_size = sn_stored_size sn, psm_file_count = sn_file_count sn,
     psm_chunk_count = sn_chunk_count sn, psm_created_at = Some (chrono_to_ts (sn_created_at sn))\<rparr>"

definition manifest_to_pb_data :: "server_env \<Rightarrow> manifest \<Rightarrow> pb_manifest" where
  "manifest_to_pb_data E m = \<lparr>pm_manifest_id = uuid_to_string (sv_crates E) (mf_manifest_id m),
     pm_snapshot_id = uuid_to_string (sv_crates E) (mf_snapshot_id m), pm_file_tree = mf_file_tree m,
     pm_chunk_refs = map (\<lambda>r. \<lparr>pcr_chunk_hash = hex_encode (sv_crates E) (cr_chunk_hash r),
        pcr_offset = cr_offset r, pcr_size = cr_size r\<rparr>) (mf_chunk_refs m),
     pm_created_at = Some (chrono_to_ts (mf_created_at m))\<rparr>"

definition make_chunk_info :: "string \<Rightarrow> u64 \<Rightarrow> u64 \<Rightarrow> u32 \<Rightarrow> timestamp \<Rightarrow> pb_chunk_info" where
  "make_chunk_info h sz stored_size count now = \<lparr>pci_chunk_hash = h, pci_size = sz,
     pci_stored_size = stored_size, pci_ref_count = count, pci_status = CActive, pci_created_at = chrono_to_ts now\<rparr>"

definition verify_report_to_pb :: "verify_report \<Rightarrow> string \<Rightarrow> pb_verify_report" where
  "verify_report_to_pb r target_id =
     (let passed = (vp_status r = VsPass);
          level = (case vp_target r of VtChunk _ \<Rightarrow> 3 | VtManifest _ \<Rightarrow> 2 | VtSnapshot _ \<Rightarrow> 2
                   | VtVersion _ \<Rightarrow> 2 | VtRepository _ \<Rightarrow> 1)
      in \<lparr>pvr_target_id = target_id, pvr_level = level, pvr_passed = passed, pvr_total_checked = 1,
          pvr_total_failed = (if passed then 0 else 1), pvr_checked_at = chrono_to_ts (vp_checked_at r)\<rparr>)"

definition make_recovery_chunk :: "string \<Rightarrow> bytes \<Rightarrow> string \<Rightarrow> u64 \<Rightarrow> pb_recovery_chunk" where
  "make_recovery_chunk h data file_path offset = \<lparr>prc_chunk_hash = h, prc_data = data,
     prc_size = of_nat (length data), prc_file_path = file_path, prc_offset = offset\<rparr>"

subsection \<open>Shared steps of the calls\<close>

datatype rpc_response =
  RespRepo pb_repo_info
| RespClosed
| RespRepos "pb_repo_info list"
| RespRepoDeleted
| RespStat pb_repo_info u64 u64 u64
| RespChunkInfo pb_chunk_info
| RespChunk pb_chunk_data
| RespExists bool "pb_chunk_info option"
| RespChunkDeleted bool
| RespBatch "pb_chunk_info list" u32 u32
| RespCommit pb_version_info pb_snapshot_meta
| RespSnapshot pb_snapshot_meta pb_manifest
| RespSnapshots "pb_snapshot_meta list"
| RespSnapshotDeleted bool
| RespReports "pb_verify_report list"
| RespVerifyChunk bool string string
| RespRecovery "pb_recovery_chunk list"

type_synonym rpc_result = "(status + rpc_response) \<times> server_state"

definition ok_or :: "status \<Rightarrow> 'a option \<Rightarrow> server_state \<Rightarrow> (status + 'a) \<times> server_state" where
  "ok_or e x st = (case x of None \<Rightarrow> (Inl e, st) | Some v \<Rightarrow> (Inr v, st))"

definition the_repo :: "server_env \<Rightarrow> string \<Rightarrow> server_state \<Rightarrow> (status + uuid) \<times> server_state" where
  "the_repo E repo_id st = ok_or (to_status HRepoNotFound) (uuid_parse (sv_crates E) repo_id) st"

definition opened :: "server_env \<Rightarrow> uuid \<Rightarrow> server_state \<Rightarrow> (status + open_repo) \<times> server_state" where
  "opened E rid st = map_err repo_error_to_status (open_repo_handle E rid st)"

definition put_and_count ::
  "server_env \<Rightarrow> layout \<Rightarrow> uuid \<Rightarrow> timestamp \<Rightarrow> chunk_hash \<Rightarrow> bytes \<Rightarrow> ist \<Rightarrow> (chunk_ops_error + u32) \<times> ist" where
  "put_and_count E l rid now h data ist =
     and_then (put_chunk (sv_crates E) (sv_ijson E) l rid now h data ist)
       (\<lambda>_ ist. (Inr (ref_count (sv_crates E) (fst ist) h), ist))"

definition total :: "('a \<times> 's) \<Rightarrow> (status + 'a) \<times> 's" where
  "total r = (Inr (fst r), snd r)"

definition stat_now :: "server_env \<Rightarrow> call_env \<Rightarrow> uuid \<Rightarrow> server_state \<Rightarrow> (status + repo_stat) \<times> server_state" where
  "stat_now E C rid st = map_err repo_error_to_status (on_disk_of (stat_repository (sv_crates E) (sv_ijson E) (sv_rjson E)
     (cv_now C ''stat'' 0) (ss_manager st) rid) st)"

subsection \<open>Repository calls\<close>

definition rpc_repository_create :: "server_env \<Rightarrow> call_env \<Rightarrow> metadata \<Rightarrow> pb_repo_config option \<Rightarrow> server_state \<Rightarrow> rpc_result" where
  "rpc_repository_create E C md config st =
     and_then (require_admin (sv_auth E) (cv_now C ''auth'' 0) (ss_auth st) md, st)
     (\<lambda>_ st. and_then (ok_or (to_status HRepoNotFound) config st)
     (\<lambda>pb st. let config = pb_to_repo_config E (cv_now C ''config'' 0) pb in
        and_then (map_err repo_error_to_status (on_manager (create_repository (sv_crates E) (sv_ijson E) (sv_rjson E)
          (cv_fresh C ''repo'') (cv_now C ''repo'' 0) (rc_name config) config) st))
        (\<lambda>repo st. (Inr (RespRepo (repo_to_pb_info E repo)), st))))"

definition rpc_repository_open :: "server_env \<Rightarrow> call_env \<Rightarrow> metadata \<Rightarrow> string \<Rightarrow> server_state \<Rightarrow> rpc_result" where
  "rpc_repository_open E C md repo_id st =
     and_then (require_auth (sv_auth E) (cv_now C ''auth'' 0) (ss_auth st) md, st)
     (\<lambda>_ st. and_then (the_repo E repo_id st)
     (\<lambda>rid st. and_then (opened E rid st)
     (\<lambda>_ st. and_then (stat_now E C rid st)
     (\<lambda>stat st. (Inr (RespRepo (stat_to_info E (cv_now C ''info'' 0) stat)), st)))))"

definition rpc_repository_close :: "server_env \<Rightarrow> call_env \<Rightarrow> metadata \<Rightarrow> string \<Rightarrow> server_state \<Rightarrow> rpc_result" where
  "rpc_repository_close E C md repo_id st =
     and_then (require_auth (sv_auth E) (cv_now C ''auth'' 0) (ss_auth st) md, st)
     (\<lambda>_ st. and_then (the_repo E repo_id st) (\<lambda>rid st. (Inr RespClosed, close_repo rid st)))"

definition rpc_repository_list :: "server_env \<Rightarrow> call_env \<Rightarrow> metadata \<Rightarrow> server_state \<Rightarrow> rpc_result" where
  "rpc_repository_list E C md st =
     and_then (require_auth (sv_auth E) (cv_now C ''auth'' 0) (ss_auth st) md, st)
     (\<lambda>_ st. and_then (map_err repo_error_to_status (on_disk_of (list_repositories (sv_crates E) (sv_ijson E) (sv_rjson E)
         (cv_now C ''stat'' 0) (ss_manager st)) st))
     (\<lambda>repos st. (Inr (RespRepos (map (stat_to_info E (cv_now C ''info'' 0)) repos)), st)))"

definition rpc_repository_delete :: "server_env \<Rightarrow> call_env \<Rightarrow> metadata \<Rightarrow> string \<Rightarrow> server_state \<Rightarrow> rpc_result" where
  "rpc_repository_delete E C md repo_id st =
     and_then (require_admin (sv_auth E) (cv_now C ''auth'' 0) (ss_auth st) md, st)
     (\<lambda>_ st. and_then (the_repo E repo_id st)
     (\<lambda>rid st. and_then (map_err repo_error_to_status (on_manager (delete_repository (sv_crates E) (sv_rjson E)
         (cv_now C ''delete'' 0) rid) (close_repo rid st)))
     (\<lambda>_ st. (Inr RespRepoDeleted, st))))"

definition rpc_repository_configure ::
  "server_env \<Rightarrow> call_env \<Rightarrow> metadata \<Rightarrow> string \<Rightarrow> pb_repo_config option \<Rightarrow> server_state \<Rightarrow> rpc_result" where
  "rpc_repository_configure E C md repo_id config st =
     and_then (require_write (sv_auth E) (cv_now C ''auth'' 0) (ss_auth st) md, st)
     (\<lambda>_ st. and_then (the_repo E repo_id st)
     (\<lambda>rid st. and_then (ok_or (to_status HRepoNotFound) config st)
     (\<lambda>_ st. and_then (stat_now E C rid st)
     (\<lambda>stat st. (Inr (RespRepo (stat_to_info E (cv_now C ''info'' 0) stat)), st)))))"

definition rpc_repository_stat :: "server_env \<Rightarrow> call_env \<Rightarrow> metadata \<Rightarrow> string \<Rightarrow> server_state \<Rightarrow> rpc_result" where
  "rpc_repository_stat E C md repo_id st =
     and_then (require_auth (sv_auth E) (cv_now C ''auth'' 0) (ss_auth st) md, st)
     (\<lambda>_ st. and_then (the_repo E repo_id st)
     (\<lambda>rid st. and_then (stat_now E C rid st)
     (\<lambda>stat st. (Inr (RespStat (stat_to_info E (cv_now C ''info'' 0) stat) (rs_chunk_count stat)
        (of_nat (version_count (ss_versions st) rid)) 0), st))))"

subsection \<open>Chunk calls\<close>

definition rpc_chunk_put :: "server_env \<Rightarrow> call_env \<Rightarrow> metadata \<Rightarrow> chunk_put_request \<Rightarrow> server_state \<Rightarrow> rpc_result" where
  "rpc_chunk_put E C md req st =
     and_then (require_write (sv_auth E) (cv_now C ''auth'' 0) (ss_auth st) md, st)
     (\<lambda>_ st. and_then (the_repo E (cpr_repo_id req) st)
     (\<lambda>rid st. and_then (ok_or (to_status HChunkNotFound) (cpr_chunk req) st)
     (\<lambda>chunk st. and_then (ok_or (to_status HHashMismatch) (pb_parse_hash E (pcd_chunk_hash chunk)) st)
     (\<lambda>hash st. if blake3_hash (sv_crates E) (pcd_data chunk) \<noteq> hash then (Inl (to_status HHashMismatch), st)
        else and_then (opened E rid st)
        (\<lambda>op st. and_then (map_err chunk_error_to_status (on_store rid op
            (put_and_count E (ss_layout st) rid (cv_now C ''chunk'' 0) hash (pcd_data chunk)) st))
        (\<lambda>count st. (Inr (RespChunkInfo (make_chunk_info (pcd_chunk_hash chunk) (pcd_size chunk) (pcd_size chunk)
            count (cv_now C ''info'' 0))), st)))))))"

definition rpc_chunk_get :: "server_env \<Rightarrow> call_env \<Rightarrow> metadata \<Rightarrow> string \<Rightarrow> string \<Rightarrow> server_state \<Rightarrow> rpc_result" where
  "rpc_chunk_get E C md repo_id chunk_hash st =
     and_then (require_auth (sv_auth E) (cv_now C ''auth'' 0) (ss_auth st) md, st)
     (\<lambda>_ st. and_then (the_repo E repo_id st)
     (\<lambda>rid st. and_then (ok_or (to_status HHashMismatch) (pb_parse_hash E chunk_hash) st)
     (\<lambda>hash st. and_then (opened E rid st)
     (\<lambda>op st. and_then (map_err chunk_error_to_status (on_store rid op (get_chunk (sv_crates E) hash) st))
     (\<lambda>data st. (Inr (RespChunk \<lparr>pcd_chunk_hash = chunk_hash, pcd_data = data, pcd_size = of_nat (length data)\<rparr>), st))))))"

definition rpc_chunk_exists :: "server_env \<Rightarrow> call_env \<Rightarrow> metadata \<Rightarrow> string \<Rightarrow> string \<Rightarrow> server_state \<Rightarrow> rpc_result" where
  "rpc_chunk_exists E C md repo_id chunk_hash st =
     and_then (require_auth (sv_auth E) (cv_now C ''auth'' 0) (ss_auth st) md, st)
     (\<lambda>_ st. and_then (the_repo E repo_id st)
     (\<lambda>rid st. and_then (ok_or (to_status HHashMismatch) (pb_parse_hash E chunk_hash) st)
     (\<lambda>hash st. and_then (opened E rid st)
     (\<lambda>op st. case ops_chunk_exists (sv_crates E) (op_store_index op) hash of (found, count) \<Rightarrow>
        (Inr (RespExists found (if found then Some (make_chunk_info chunk_hash 0 0 count (cv_now C ''info'' 0)) else None)), st)))))"

definition rpc_chunk_delete :: "server_env \<Rightarrow> call_env \<Rightarrow> metadata \<Rightarrow> string \<Rightarrow> string \<Rightarrow> server_state \<Rightarrow> rpc_result" where
  "rpc_chunk_delete E C md repo_id chunk_hash st =
     and_then (require_write (sv_auth E) (cv_now C ''auth'' 0) (ss_auth st) md, st)
     (\<lambda>_ st. and_then (the_repo E repo_id st)
     (\<lambda>rid st. and_then (ok_or (to_status HHashMismatch) (pb_parse_hash E chunk_hash) st)
     (\<lambda>hash st. and_then (opened E rid st)
     (\<lambda>op st. and_then (map_err chunk_error_to_status (on_store rid op (ops_delete_chunk (sv_crates E) (sv_ijson E) hash) st))
     (\<lambda>_ st. (Inr (RespChunkDeleted True), st))))))"

text \<open>The loop of \<open>chunk_batch_put\<close>: \<open>k\<close> numbers the messages, for the clock.\<close>

fun batch_loop ::
  "server_env \<Rightarrow> call_env \<Rightarrow> nat \<Rightarrow> (status + chunk_put_request) list \<Rightarrow> pb_chunk_info list \<Rightarrow> u32 \<Rightarrow> u32 \<Rightarrow>
   server_state \<Rightarrow> rpc_result" where
  "batch_loop E C k [] infos good bad st = (Inr (RespBatch infos good bad), st)"
| "batch_loop E C k (Inl e # reqs) infos good bad st = (Inl e, st)"
| "batch_loop E C k (Inr req # reqs) infos good bad st =
     and_then (the_repo E (cpr_repo_id req) st)
     (\<lambda>rid st. and_then (ok_or (to_status HChunkNotFound) (cpr_chunk req) st)
     (\<lambda>chunk st. and_then (ok_or (to_status HHashMismatch) (pb_parse_hash E (pcd_chunk_hash chunk)) st)
     (\<lambda>hash st. if blake3_hash (sv_crates E) (pcd_data chunk) \<noteq> hash
        then batch_loop E C (Suc k) reqs infos good (bad + 1) st
        else and_then (opened E rid st)
        (\<lambda>op st. case on_store rid op (put_and_count E (ss_layout st) rid (cv_now C ''chunk'' k) hash (pcd_data chunk)) st of
           (Inr count, st) \<Rightarrow> batch_loop E C (Suc k) reqs
             (infos @ [make_chunk_info (pcd_chunk_hash chunk) (pcd_size chunk) (pcd_size chunk) count (cv_now C ''info'' k)])
             (good + 1) bad st
         | (Inl _, st) \<Rightarrow> batch_loop E C (Suc k) reqs infos good (bad + 1) st))))"

definition rpc_chunk_batch_put ::
  "server_env \<Rightarrow> call_env \<Rightarrow> metadata \<Rightarrow> (status + chunk_put_request) list \<Rightarrow> server_state \<Rightarrow> rpc_result" where
  "rpc_chunk_batch_put E C md reqs st =
     and_then (require_write (sv_auth E) (cv_now C ''auth'' 0) (ss_auth st) md, st)
     (\<lambda>_ st. batch_loop E C 0 reqs [] 0 0 st)"

subsection \<open>Snapshot calls\<close>

definition commit_env_of :: "server_env \<Rightarrow> call_env \<Rightarrow> layout \<Rightarrow> uuid \<Rightarrow> commit_env" where
  "commit_env_of E C l rid = \<lparr>ce_crates = sv_crates E, ce_ijson = sv_ijson E, ce_mjson = sv_mjson E, ce_sjson = sv_sjson E,
     ce_jc = sv_jc E, ce_layout = l, ce_repo = rid, ce_vid = cv_fresh C ''version'', ce_sid = cv_fresh C ''snapshot'',
     ce_clock = cv_now C, ce_stamp = cv_stamp C\<rparr>"

text \<open>A commit works on the registry, the store's index, the journal and the disk.\<close>

definition on_commit ::
  "uuid \<Rightarrow> open_repo \<Rightarrow> (commit_st \<Rightarrow> ('e + 'a) \<times> commit_st) \<Rightarrow> server_state \<Rightarrow> ('e + 'a) \<times> server_state" where
  "on_commit rid op f st =
     (case f \<lparr>cs_vo = ss_versions st, cs_ix = op_store_index op, cs_jr = op_journal op, cs_fs = ss_fs st\<rparr> of
        (r, c) \<Rightarrow> (r, st\<lparr>ss_versions := cs_vo c,
          ss_open := AList.update rid (op\<lparr>op_store_index := cs_ix c, op_journal := cs_jr c\<rparr>) (ss_open st),
          ss_fs := cs_fs c\<rparr>))"

text \<open>\<open>read_chunk(..).unwrap_or_default()\<close> for every hash.\<close>

fun read_or_default :: "crates \<Rightarrow> chunk_hash list \<Rightarrow> ist \<Rightarrow> (chunk_hash \<times> bytes) list \<times> ist" where
  "read_or_default X [] ist = ([], ist)"
| "read_or_default X (h # hs) ist = (case read_chunk X h ist of (r, ist) \<Rightarrow>
     (case read_or_default X hs ist of (rest, ist) \<Rightarrow>
        ((h, case r of Inr data \<Rightarrow> data | Inl _ \<Rightarrow> []) # rest, ist)))"

definition hash_or_zero :: "server_env \<Rightarrow> string \<Rightarrow> chunk_hash" where
  "hash_or_zero E s = (case pb_parse_hash E s of Some h \<Rightarrow> h | None \<Rightarrow> replicate 32 0)"

definition uuid_or :: "server_env \<Rightarrow> string \<Rightarrow> uuid \<Rightarrow> uuid" where
  "uuid_or E s fresh = (case uuid_parse (sv_crates E) s of Some u \<Rightarrow> u | None \<Rightarrow> fresh)"

definition request_manifest :: "server_env \<Rightarrow> call_env \<Rightarrow> pb_manifest \<Rightarrow> manifest" where
  "request_manifest E C pm = manifest_new (cv_fresh C ''manifest'') (uuid_or E (pm_manifest_id pm) (cv_fresh C ''manifest_snapshot''))
     (pm_file_tree pm) (map (\<lambda>r. \<lparr>cr_chunk_hash = hash_or_zero E (pcr_chunk_hash r), cr_offset = pcr_offset r,
        cr_size = pcr_size r\<rparr>) (pm_chunk_refs pm)) (cv_now C ''manifest'' 0)"

definition request_snapshot :: "server_env \<Rightarrow> call_env \<Rightarrow> pb_snapshot_meta \<Rightarrow> manifest \<Rightarrow> snapshot" where
  "request_snapshot E C meta m =
     \<lparr>sn_snapshot_id = uuid_or E (psm_snapshot_id meta) (cv_fresh C ''meta_snapshot''),
      sn_version_id = uuid_or E (psm_version_id meta) (cv_fresh C ''meta_version''),
      sn_source_machine = \<lparr>hostname = psm_source_machine meta, os_type = [], agent_version = []\<rparr>,
      sn_backup_policy = (case sv_policy_from_slice E (psm_backup_policy meta) of Some p \<Rightarrow> p
        | None \<Rightarrow> \<lparr>bp_paths = [], bp_excludes = [], bp_includes = []\<rparr>),
      sn_file_tree = \<lparr>ft_root = psm_file_tree_root meta, ft_entries = map (\<lambda>r.
        \<lparr>fe_path = psm_file_tree_root meta @ ''/chunk_'' @ show_nat (unat (cr_offset r)), fe_size = cr_size r,
         fe_is_directory = False, fe_chunk_hashes = [cr_chunk_hash r]\<rparr>) (mf_chunk_refs m)\<rparr>,
      sn_chunk_mapping = [],
      sn_encryption_info = (case sv_enc_from_slice E (psm_encryption_info meta) of Some e \<Rightarrow> e
        | None \<Rightarrow> \<lparr>enc_enabled = False, enc_algorithm = [], enc_key_ref = None\<rparr>),
      sn_compression_info = (case sv_comp_from_slice E (psm_compression_info meta) of Some c \<Rightarrow> c
        | None \<Rightarrow> \<lparr>comp_algorithm = [], comp_level = 0\<rparr>),
      sn_verify_info = \<lparr>verified = False, verified_at = None, checksum = None\<rparr>,
      sn_status = SCreated, sn_created_at = cv_now C ''snapshot'' 0, sn_total_size = psm_total_size meta,
      sn_stored_size = psm_stored_size meta, sn_file_count = psm_file_count meta, sn_chunk_count = psm_chunk_count meta\<rparr>"

definition commit_answer :: "server_env \<Rightarrow> string \<Rightarrow> uuid \<Rightarrow> commit_result \<Rightarrow> server_state \<Rightarrow> rpc_result" where
  "commit_answer E repo_id rid result st = (case result of
     CommitSuccess vid sid \<Rightarrow>
       (case get_version vid (ss_versions st) of
          Inl e \<Rightarrow> (Inl (version_error_to_status e), st)
        | Inr v \<Rightarrow>
            and_then (map_err (\<lambda>e. snapshot_error_to_status (SoStore e))
              (on_disk_of (read_snapshot (sv_crates E) (sv_sjson E) (ss_layout st) rid sid) st))
            (\<lambda>sn st. (Inr (RespCommit (version_to_pb_info E v) (snapshot_to_pb_meta E sn repo_id)), st)))
   | CommitFailure _ _ \<Rightarrow> (Inl (to_status HStateConflict), st))"

definition rpc_snapshot_commit ::
  "server_env \<Rightarrow> call_env \<Rightarrow> metadata \<Rightarrow> snapshot_commit_request \<Rightarrow> server_state \<Rightarrow> rpc_result" where
  "rpc_snapshot_commit E C md req st =
     and_then (require_write (sv_auth E) (cv_now C ''auth'' 0) (ss_auth st) md, st)
     (\<lambda>_ st. and_then (the_repo E (scr_repo_id req) st)
     (\<lambda>rid st. and_then (if scr_parent_version_id req = [] then (Inr None, st)
          else ok_or (to_status HVersionNotFound) (map_option Some (uuid_parse (sv_crates E) (scr_parent_version_id req))) st)
     (\<lambda>parent st. and_then (ok_or (to_status HSnapshotNotFound) (scr_meta req) st)
     (\<lambda>meta st. and_then (ok_or (to_status HManifestNotFound) (scr_manifest req) st)
     (\<lambda>pm st. and_then (opened E rid st)
     (\<lambda>op st. and_then (on_store rid op (\<lambda>ist. total (read_or_default (sv_crates E) (map (hash_or_zero E) (scr_chunk_hashes req)) ist)) st)
     (\<lambda>chunks st. let m = request_manifest E C pm in
        and_then (map_err commit_error_to_status (on_commit rid op
          (commit_backup (commit_env_of E C (ss_layout st) rid) parent m (request_snapshot E C meta m) chunks) st))
        (\<lambda>result st. commit_answer E (scr_repo_id req) rid result st))))))))"

definition rpc_snapshot_get :: "server_env \<Rightarrow> call_env \<Rightarrow> metadata \<Rightarrow> string \<Rightarrow> string \<Rightarrow> server_state \<Rightarrow> rpc_result" where
  "rpc_snapshot_get E C md repo_id snapshot_id st =
     and_then (require_auth (sv_auth E) (cv_now C ''auth'' 0) (ss_auth st) md, st)
     (\<lambda>_ st. and_then (the_repo E repo_id st)
     (\<lambda>rid st. and_then (ok_or (to_status HSnapshotNotFound) (uuid_parse (sv_crates E) snapshot_id) st)
     (\<lambda>sid st. and_then (opened E rid st)
     (\<lambda>_ st. and_then (map_err snapshot_error_to_status (on_disk_of (get_snapshot (sv_crates E) (sv_sjson E) (ss_layout st) rid sid) st))
     (\<lambda>sn st. case on_disk_of (read_manifest (sv_crates E) (sv_mjson E) (ss_layout st) rid (sn_snapshot_id sn)) st of (r, st) \<Rightarrow>
        let m = (case r of Inr m \<Rightarrow> m | Inl _ \<Rightarrow> manifest_new (cv_fresh C ''manifest'') sid [] [] (cv_now C ''manifest'' 0)) in
        (Inr (RespSnapshot (snapshot_to_pb_meta E sn repo_id) (manifest_to_pb_data E m)), st))))))"

fun read_snapshots :: "server_env \<Rightarrow> string \<Rightarrow> uuid \<Rightarrow> version list \<Rightarrow> server_state \<Rightarrow> pb_snapshot_meta list \<times> server_state" where
  "read_snapshots E repo_id rid [] st = ([], st)"
| "read_snapshots E repo_id rid (v # vs) st =
     (case on_disk_of (read_snapshot (sv_crates E) (sv_sjson E) (ss_layout st) rid (v_snapshot_id v)) st of (r, st) \<Rightarrow>
      case read_snapshots E repo_id rid vs st of (rest, st) \<Rightarrow>
        (case r of Inr sn \<Rightarrow> snapshot_to_pb_meta E sn repo_id # rest | Inl _ \<Rightarrow> rest, st))"

definition rpc_snapshot_list :: "server_env \<Rightarrow> call_env \<Rightarrow> metadata \<Rightarrow> string \<Rightarrow> u32 option \<Rightarrow> server_state \<Rightarrow> rpc_result" where
  "rpc_snapshot_list E C md repo_id limit st =
     and_then (require_auth (sv_auth E) (cv_now C ''auth'' 0) (ss_auth st) md, st)
     (\<lambda>_ st. and_then (the_repo E repo_id st)
     (\<lambda>rid st. let versions = list_versions (ss_versions st) rid;
                   limit = unat (case limit of Some n \<Rightarrow> n | None \<Rightarrow> 100) in
        and_then (opened E rid st)
        (\<lambda>_ st. case read_snapshots E repo_id rid (take limit versions) st of (metas, st) \<Rightarrow> (Inr (RespSnapshots metas), st))))"

definition rpc_snapshot_delete :: "server_env \<Rightarrow> call_env \<Rightarrow> metadata \<Rightarrow> string \<Rightarrow> string \<Rightarrow> server_state \<Rightarrow> rpc_result" where
  "rpc_snapshot_delete E C md repo_id snapshot_id st =
     and_then (require_write (sv_auth E) (cv_now C ''auth'' 0) (ss_auth st) md, st)
     (\<lambda>_ st. and_then (the_repo E repo_id st)
     (\<lambda>rid st. and_then (ok_or (to_status HSnapshotNotFound) (uuid_parse (sv_crates E) snapshot_id) st)
     (\<lambda>sid st. and_then (opened E rid st)
     (\<lambda>_ st. and_then (map_err (\<lambda>e. snapshot_error_to_status (SoStore e))
         (on_disk_of (read_snapshot (sv_crates E) (sv_sjson E) (ss_layout st) rid sid) st))
     (\<lambda>sn st. if sn_status sn = SSealed then (Inl (to_status HImmutableConflict), st)
        else (Inr (RespSnapshotDeleted True), st))))))"

subsection \<open>Verification and recovery calls\<close>

definition rpc_verify_repository :: "server_env \<Rightarrow> call_env \<Rightarrow> metadata \<Rightarrow> string \<Rightarrow> server_state \<Rightarrow> rpc_result" where
  "rpc_verify_repository E C md repo_id st =
     and_then (require_auth (sv_auth E) (cv_now C ''auth'' 0) (ss_auth st) md, st)
     (\<lambda>_ st. and_then (the_repo E repo_id st)
     (\<lambda>rid st. and_then (opened E rid st)
     (\<lambda>op st. (Inr (RespReports (map (\<lambda>r. verify_report_to_pb r repo_id)
        (verify_repository (cv_now C ''verify'' 0) (op_index op)))), st))))"

definition the_version :: "server_env \<Rightarrow> string \<Rightarrow> server_state \<Rightarrow> (status + version) \<times> server_state" where
  "the_version E version_id st = and_then (ok_or (to_status HVersionNotFound) (uuid_parse (sv_crates E) version_id) st)
     (\<lambda>vid st. case get_version vid (ss_versions st) of
        Inl e \<Rightarrow> (Inl (version_error_to_status e), st) | Inr v \<Rightarrow> (Inr v, st))"

definition rpc_verify_version :: "server_env \<Rightarrow> call_env \<Rightarrow> metadata \<Rightarrow> string \<Rightarrow> string \<Rightarrow> server_state \<Rightarrow> rpc_result" where
  "rpc_verify_version E C md repo_id version_id st =
     and_then (require_auth (sv_auth E) (cv_now C ''auth'' 0) (ss_auth st) md, st)
     (\<lambda>_ st. and_then (the_repo E repo_id st)
     (\<lambda>rid st. and_then (the_version E version_id st)
     (\<lambda>v st. and_then (opened E rid st)
     (\<lambda>op st. and_then (on_store rid op (\<lambda>ist. total (verify_snapshot (sv_crates E) (sv_sjson E) (ss_layout st) rid
          (cv_now C ''verify'' 0) (v_snapshot_id v) ist)) st)
     (\<lambda>report st. (Inr (RespReports [verify_report_to_pb report version_id]), st))))))"

definition rpc_verify_chunk :: "server_env \<Rightarrow> call_env \<Rightarrow> metadata \<Rightarrow> string \<Rightarrow> string \<Rightarrow> server_state \<Rightarrow> rpc_result" where
  "rpc_verify_chunk E C md repo_id chunk_hash st =
     and_then (require_auth (sv_auth E) (cv_now C ''auth'' 0) (ss_auth st) md, st)
     (\<lambda>_ st. and_then (the_repo E repo_id st)
     (\<lambda>rid st. and_then (ok_or (to_status HHashMismatch) (pb_parse_hash E chunk_hash) st)
     (\<lambda>hash st. and_then (opened E rid st)
     (\<lambda>op st. and_then (on_store rid op (\<lambda>ist. total (verify_chunk (sv_crates E) (cv_now C ''verify'' 0) hash ist)) st)
     (\<lambda>report st. (Inr (case vp_status report of
          VsPass \<Rightarrow> RespVerifyChunk True chunk_hash chunk_hash
        | VsMismatch expected actual \<Rightarrow> RespVerifyChunk False expected actual
        | VsMissing \<Rightarrow> RespVerifyChunk False chunk_hash []
        | VsFail \<Rightarrow> RespVerifyChunk False chunk_hash []), st))))))"

definition rpc_recovery_open ::
  "server_env \<Rightarrow> call_env \<Rightarrow> metadata \<Rightarrow> string \<Rightarrow> string \<Rightarrow> string option \<Rightarrow> server_state \<Rightarrow> rpc_result" where
  "rpc_recovery_open E C md repo_id version_id file_path st =
     and_then (require_auth (sv_auth E) (cv_now C ''auth'' 0) (ss_auth st) md, st)
     (\<lambda>_ st. and_then (the_repo E repo_id st)
     (\<lambda>rid st. and_then (the_version E version_id st)
     (\<lambda>v st. and_then (opened E rid st)
     (\<lambda>op st. and_then (map_err recovery_error_to_status (on_store rid op (recover (sv_crates E) (sv_sjson E) (ss_layout st) rid
          \<lparr>rq_snapshot_id = v_snapshot_id v, rq_file_filter = map_option (\<lambda>p. [p]) file_path\<rparr>) st))
     (\<lambda>result st. (Inr (RespRecovery (map (\<lambda>f. make_recovery_chunk
          (case rf_chunk_hashes f of h # _ \<Rightarrow> h | [] \<Rightarrow> []) (rf_data f) (rf_path f) 0) (rr_recovered_files result))), st))))))"

subsection \<open>The service\<close>

datatype rpc =
  RepositoryCreate "pb_repo_config option" | RepositoryOpen string | RepositoryClose string | RepositoryList
| RepositoryDelete string | RepositoryConfigure string "pb_repo_config option" | RepositoryStat string
| ChunkPut chunk_put_request | ChunkGet string string | ChunkExists string string | ChunkDelete string string
| ChunkBatchPut "(status + chunk_put_request) list"
| SnapshotCommit snapshot_commit_request | SnapshotGet string string | SnapshotList string "u32 option"
| SnapshotDelete string string
| VerifyRepository string | VerifyVersion string string | VerifyChunk string string
| RecoveryOpen string string "string option"

fun serve :: "server_env \<Rightarrow> call_env \<Rightarrow> metadata \<Rightarrow> rpc \<Rightarrow> server_state \<Rightarrow> rpc_result" where
  "serve E C md (RepositoryCreate config) st = rpc_repository_create E C md config st"
| "serve E C md (RepositoryOpen r) st = rpc_repository_open E C md r st"
| "serve E C md (RepositoryClose r) st = rpc_repository_close E C md r st"
| "serve E C md RepositoryList st = rpc_repository_list E C md st"
| "serve E C md (RepositoryDelete r) st = rpc_repository_delete E C md r st"
| "serve E C md (RepositoryConfigure r config) st = rpc_repository_configure E C md r config st"
| "serve E C md (RepositoryStat r) st = rpc_repository_stat E C md r st"
| "serve E C md (ChunkPut req) st = rpc_chunk_put E C md req st"
| "serve E C md (ChunkGet r h) st = rpc_chunk_get E C md r h st"
| "serve E C md (ChunkExists r h) st = rpc_chunk_exists E C md r h st"
| "serve E C md (ChunkDelete r h) st = rpc_chunk_delete E C md r h st"
| "serve E C md (ChunkBatchPut reqs) st = rpc_chunk_batch_put E C md reqs st"
| "serve E C md (SnapshotCommit req) st = rpc_snapshot_commit E C md req st"
| "serve E C md (SnapshotGet r x) st = rpc_snapshot_get E C md r x st"
| "serve E C md (SnapshotList r n) st = rpc_snapshot_list E C md r n st"
| "serve E C md (SnapshotDelete r x) st = rpc_snapshot_delete E C md r x st"
| "serve E C md (VerifyRepository r) st = rpc_verify_repository E C md r st"
| "serve E C md (VerifyVersion r v) st = rpc_verify_version E C md r v st"
| "serve E C md (VerifyChunk r h) st = rpc_verify_chunk E C md r h st"
| "serve E C md (RecoveryOpen r v p) st = rpc_recovery_open E C md r v p st"

end
