(* ===== verification/Badou_Server_Auth.thy ===== *)
theory Badou_Server_Auth
  imports Badou_Server
begin

text \<open>
  What the access checks of the storage protocol guarantee: a call does nothing without a
  token signed under the server's secret and a role that covers the call, and a caller
  without write permission cannot change what is stored.
\<close>

subsection \<open>The gate of every call\<close>

fun needs :: "rpc \<Rightarrow> role \<Rightarrow> bool" where
  "needs (RepositoryCreate _) = can_admin"
| "needs (RepositoryDelete _) = can_admin"
| "needs (RepositoryConfigure _ _) = can_write"
| "needs (ChunkPut _) = can_write"
| "needs (ChunkDelete _ _) = can_write"
| "needs (ChunkBatchPut _) = can_write"
| "needs (SnapshotCommit _) = can_write"
| "needs (SnapshotDelete _ _) = can_write"
| "needs _ = (\<lambda>_. True)"

text \<open>Calls open to every authenticated user; they accept unknown role names as well.\<close>

fun open_to_all :: "rpc \<Rightarrow> bool" where
  "open_to_all (RepositoryOpen _) = True" | "open_to_all (RepositoryClose _) = True"
| "open_to_all RepositoryList = True" | "open_to_all (RepositoryStat _) = True"
| "open_to_all (ChunkGet _ _) = True" | "open_to_all (ChunkExists _ _) = True"
| "open_to_all (SnapshotGet _ _) = True" | "open_to_all (SnapshotList _ _) = True"
| "open_to_all (VerifyRepository _) = True" | "open_to_all (VerifyVersion _ _) = True"
| "open_to_all (VerifyChunk _ _) = True" | "open_to_all (RecoveryOpen _ _ _) = True"
| "open_to_all _ = False"

definition permitted :: "server_env \<Rightarrow> call_env \<Rightarrow> metadata \<Rightarrow> server_state \<Rightarrow> rpc \<Rightarrow> bool" where
  "permitted E C md st call \<longleftrightarrow> (\<exists>claims. authentic (sv_auth E) (cv_now C ''auth'' 0) (ss_auth st) md claims \<and>
     (open_to_all call \<or> (\<exists>r. from_role_str (jw_role claims) = Some r \<and> needs call r)))"

definition gate :: "server_env \<Rightarrow> call_env \<Rightarrow> metadata \<Rightarrow> server_state \<Rightarrow> rpc \<Rightarrow> status + (jwt_claims \<times> nat)" where
  "gate E C md st call = (let now = cv_now C ''auth'' 0 in
     if open_to_all call then require_auth (sv_auth E) now (ss_auth st) md
     else require_role (needs call) (sv_auth E) now (ss_auth st) md)"

lemmas rpc_defs = rpc_repository_create_def rpc_repository_open_def rpc_repository_close_def rpc_repository_list_def
  rpc_repository_delete_def rpc_repository_configure_def rpc_repository_stat_def rpc_chunk_put_def rpc_chunk_get_def
  rpc_chunk_exists_def rpc_chunk_delete_def rpc_chunk_batch_put_def rpc_snapshot_commit_def rpc_snapshot_get_def
  rpc_snapshot_list_def rpc_snapshot_delete_def rpc_verify_repository_def rpc_verify_version_def rpc_verify_chunk_def
  rpc_recovery_open_def

lemma serve_gated: "gate E C md st call = Inl e \<Longrightarrow> serve E C md call st = (Inl e, st)"
  by (cases call) (simp_all add: gate_def Let_def rpc_defs require_write_def require_admin_def)

lemma gate_permitted: "gate E C md st call = Inr cv \<Longrightarrow> permitted E C md st call"
  using require_auth_authentic require_role_authentic
  by (cases cv) (fastforce simp: gate_def permitted_def Let_def split: if_splits)

subsection \<open>Calls that only read\<close>

text \<open>The registry, the repositories and every stored file stay; at most empty files appear; an
  open repository keeps its state.\<close>

definition reads_only :: "server_state \<Rightarrow> server_state \<Rightarrow> bool" where
  "reads_only a b \<longleftrightarrow> ss_versions b = ss_versions a \<and> ss_manager b = ss_manager a \<and> ss_auth b = ss_auth a \<and>
     (\<forall>p. lookup (ss_fs b) p = lookup (ss_fs a) p \<or> (lookup (ss_fs a) p = None \<and> lookup (ss_fs b) p = Some (File []))) \<and>
     (\<forall>rid op. map_of (ss_open a) rid = Some op \<longrightarrow> map_of (ss_open b) rid = Some op)"

lemma reads_only_refl [simp]: "reads_only a a"
  by (simp add: reads_only_def)

lemma reads_only_and_then:
  assumes "reads_only a (snd r)" and "\<And>x b. r = (Inr x, b) \<Longrightarrow> reads_only a (snd (k x b))"
  shows "reads_only a (snd (and_then r k))"
  using assms by (auto simp: and_then_def split: prod.splits sum.splits)

definition fs_reads :: "(fsys \<Rightarrow> 'a \<times> fsys) \<Rightarrow> bool" where
  "fs_reads f \<longleftrightarrow> (\<forall>s. lookup (snd (f s)) = lookup s)"

lemma reads_only_disk: "fs_reads f \<Longrightarrow> reads_only a b \<Longrightarrow> reads_only a (snd (on_disk_of f b))"
  by (auto simp: on_disk_of_def fs_reads_def reads_only_def split: prod.splits) (metis snd_conv)+

definition store_reads :: "(ist \<Rightarrow> 'a \<times> ist) \<Rightarrow> bool" where
  "store_reads f \<longleftrightarrow> (\<forall>i s. fst (snd (f (i, s))) = i \<and> lookup (snd (snd (f (i, s)))) = lookup s)"

lemma reads_only_store:
  assumes "store_reads f" and "reads_only a b" and "map_of (ss_open b) rid = Some op"
  shows "reads_only a (snd (on_store rid op f b))"
proof -
  obtain r i s where f: "f (op_store_index op, ss_fs b) = (r, (i, s))" by (metis prod_cases3)
  then have i: "i = op_store_index op" "lookup s = lookup (ss_fs b)" using assms(1) by (metis store_reads_def fst_conv snd_conv)+
  then have "op\<lparr>op_store_index := i\<rparr> = op" by simp
  then show ?thesis using assms(2,3) f i(2)
    by (fastforce simp: on_store_def reads_only_def map_of_update)
qed

lemma fs_reads_meta: "fs_reads (read_meta R p)"
  using read_meta_lookup by (auto simp: fs_reads_def) (metis prod.collapse)

lemma fs_reads_read: "fs_reads (fs_read p)" "fs_reads (fs_read_dir p)"
  using fs_read_lookup fs_read_dir_lookup by (auto simp: fs_reads_def) (metis prod.collapse)+

lemma fs_reads_then:
  assumes "fs_reads f" and "\<And>x. fs_reads (k x)"
  shows "fs_reads (\<lambda>s. and_then (f s) k)"
  unfolding fs_reads_def
proof
  fix s
  show "lookup (snd (and_then (f s) k)) = lookup s"
    using assms by (cases "f s"; cases "fst (f s)") (auto simp: fs_reads_def, (metis snd_conv)+)
qed

lemma fs_reads_simps [simp]:
  "fs_reads (\<lambda>s. (r s, s))" "fs_reads (\<lambda>s. map_err g (f s)) = fs_reads f"
  by (simp_all add: fs_reads_def)

lemma fs_reads_if: "fs_reads f \<Longrightarrow> fs_reads g \<Longrightarrow> fs_reads (\<lambda>s. if c s then f s else g s)"
  by (simp add: fs_reads_def)

lemma fs_reads_option: "fs_reads f \<Longrightarrow> (\<And>x. fs_reads (g x)) \<Longrightarrow> fs_reads (\<lambda>s. case_option (f s) (\<lambda>x. g x s) y)"
  by (cases y) simp_all

lemmas fs_reads_intros = fs_reads_then fs_reads_if fs_reads_option fs_reads_read fs_reads_meta

lemma fs_reads_index_open: "fs_reads (index_open J p)"
  unfolding index_open_def by (intro fs_reads_intros) (simp_all add: fs_reads_read fs_reads_option)

lemma fs_reads_open: "fs_reads (open_repository X J R m rid)"
  unfolding open_repository_def Let_def
  by (intro fs_reads_intros) (simp_all add: fs_reads_index_open fs_reads_then)

lemma fs_reads_read_snapshot: "fs_reads (read_snapshot X N l rid sid)"
  unfolding read_snapshot_def by (intro fs_reads_intros) (simp_all add: fs_reads_read fs_reads_option)

lemma fs_reads_get_snapshot: "fs_reads (get_snapshot X N l rid sid)"
  unfolding get_snapshot_def by (simp add: fs_reads_read_snapshot)

lemma fs_reads_read_manifest: "fs_reads (read_manifest X M l rid mid)"
  unfolding read_manifest_def by (intro fs_reads_intros) (simp_all add: fs_reads_read)

lemma fs_reads_indexed: "lookup (snd (indexed_chunks J p s)) = lookup s"
  using fs_reads_index_open [of J p] by (auto simp: indexed_chunks_def fs_reads_def split: prod.splits sum.splits) (metis snd_conv)+

lemma fs_reads_counted: "(\<And>x. fs_reads (g x)) \<Longrightarrow> fs_reads (\<lambda>s. case indexed_chunks J p s of (n, s) \<Rightarrow> g n s)"
  using fs_reads_indexed [of J p] by (auto simp: fs_reads_def split: prod.splits) (metis snd_conv)

lemma fs_reads_stat: "fs_reads (stat_repository X J R now m rid)"
  unfolding stat_repository_def Let_def by (intro fs_reads_intros fs_reads_counted) simp_all

lemma fs_reads_list_entries: "fs_reads (list_entries X J R now root names)"
proof (induction names)
  case (Cons n ns)
  show ?case unfolding list_entries.simps Let_def
    by (intro fs_reads_intros fs_reads_counted Cons) simp_all
qed simp

lemma fs_reads_list: "fs_reads (list_repositories X J R now m)"
  unfolding list_repositories_def Let_def
  by (intro fs_reads_intros) (simp_all add: fs_reads_read fs_reads_list_entries)

lemma journal_open_files:
  "lookup (snd (journal_open p s)) q = lookup s q \<or> (lookup s q = None \<and> lookup (snd (journal_open p s)) q = Some (File []))"
proof -
  obtain r t where o: "open_append p s = (r, t)" by (rule prod.exhaust)
  then have "lookup t q = lookup s q \<or> (lookup s q = None \<and> lookup t q = Some (File []))"
    by (auto simp: open_append_def split: prod.splits fault.splits option.splits node.splits if_splits dest: next_fault_lookup)
  moreover have "snd (journal_open p s) = t"
    using o by (cases r) (simp_all add: journal_open_def open_with_rotation_def)
  ultimately show ?thesis by simp
qed

lemma reads_only_journal: "reads_only a b \<Longrightarrow> reads_only a (snd (on_disk_of (journal_open p) b))"
  using journal_open_files [of p "ss_fs b"]
  by (auto simp: on_disk_of_def reads_only_def split: prod.splits) (metis snd_conv)+

lemma on_disk_of_other [simp]:
  "ss_open (snd (on_disk_of f st)) = ss_open st" "ss_manager (snd (on_disk_of f st)) = ss_manager st"
  "ss_versions (snd (on_disk_of f st)) = ss_versions st" "ss_auth (snd (on_disk_of f st)) = ss_auth st"
  by (simp_all add: on_disk_of_def split: prod.splits)

lemma opened_in: "opened E rid st = (Inr op, st') \<Longrightarrow> map_of (ss_open st') rid = Some op"
  by (auto simp: opened_def open_repo_handle_def result_iffs Let_def map_of_update split: option.splits)

lemma reads_only_opened:
  assumes "reads_only a b"
  shows "reads_only a (snd (opened E rid b))"
proof (cases "map_of (ss_open b) rid")
  case None
  have fresh: "reads_only a c \<Longrightarrow> map_of (ss_open c) rid = None \<Longrightarrow> reads_only a (c\<lparr>ss_open := AList.update rid op (ss_open c)\<rparr>)" for c op
    by (auto simp: reads_only_def map_of_update)
  show ?thesis
    unfolding opened_def open_repo_handle_def None option.case snd_map_err
  proof (intro reads_only_and_then)
    fix h c i d j e
    assume o: "on_disk_of (open_repository (sv_crates E) (sv_ijson E) (sv_rjson E) (ss_manager b) rid) b = (Inr h, c)"
      and i: "map_err RmIndex (on_disk_of (index_open (sv_ijson E) (index_path (sv_crates E) (rh_layout h) rid)) c) = (Inr i, d)"
      and j: "map_err (\<lambda>_. RmIoOther) (on_disk_of (journal_open (journal_path (sv_crates E) (rh_layout h) rid)) d) = (Inr j, e)"
    have c: "reads_only a c" "ss_open c = ss_open b"
      using reads_only_disk [OF fs_reads_open assms, of "sv_crates E" "sv_ijson E" "sv_rjson E" "ss_manager b" rid] o
        on_disk_of_other(1) [of "open_repository (sv_crates E) (sv_ijson E) (sv_rjson E) (ss_manager b) rid" b] by simp_all
    have d: "reads_only a d" "ss_open d = ss_open b"
      using reads_only_disk [OF fs_reads_index_open c(1), of "sv_ijson E" "index_path (sv_crates E) (rh_layout h) rid"] i c(2)
        on_disk_of_other(1) [of "index_open (sv_ijson E) (index_path (sv_crates E) (rh_layout h) rid)" c]
      by (metis snd_conv snd_map_err)+
    have e: "reads_only a e" "ss_open e = ss_open b"
      using reads_only_journal [OF d(1), of "journal_path (sv_crates E) (rh_layout h) rid"] j d(2)
        on_disk_of_other(1) [of "journal_open (journal_path (sv_crates E) (rh_layout h) rid)" d]
      by (metis snd_conv snd_map_err)+
    show "reads_only a (snd (let op = \<lparr>op_store_index = rh_index h, op_index = i, op_journal = j\<rparr> in
        (Inr op, e\<lparr>ss_open := AList.update rid op (ss_open e)\<rparr>)))"
      using fresh [OF e(1)] e(2) None by (simp add: Let_def)
  qed (simp_all add: reads_only_disk fs_reads_open fs_reads_index_open assms reads_only_journal, (metis reads_only_disk fs_reads_open assms snd_conv fs_reads_index_open reads_only_journal snd_map_err)+)
qed (simp add: opened_def open_repo_handle_def assms)

subsection \<open>Reading through an open repository\<close>

lemma store_reads_chunk: "store_reads (read_chunk X h)"
  using read_chunk_frame by (auto simp: store_reads_def) (metis prod.collapse)+

lemma store_reads_get: "store_reads (get_chunk X h)"
  using store_reads_chunk [of X h] by (simp add: store_reads_def get_chunk_def)

lemma store_reads_fs: "fs_reads f \<Longrightarrow> store_reads (on_fs f)"
  by (simp add: store_reads_def fs_reads_def)

lemma store_reads_total: "store_reads f \<Longrightarrow> store_reads (\<lambda>ist. total (f ist))"
  by (simp add: store_reads_def total_def)

lemma store_reads_then:
  assumes "store_reads f" and "\<And>x. store_reads (k x)"
  shows "store_reads (\<lambda>ist. and_then (f ist) k)"
  unfolding store_reads_def
proof (intro allI)
  fix i s
  obtain r j t where f: "f (i, s) = (r, (j, t))" by (metis prod_cases3)
  then have "j = i" "lookup t = lookup s" using assms(1) by (metis store_reads_def fst_conv snd_conv)+
  then show "fst (snd (and_then (f (i, s)) k)) = i \<and> lookup (snd (snd (and_then (f (i, s)) k))) = lookup s"
    using f assms(2) by (cases r) (simp_all add: store_reads_def)
qed

lemma store_reads_simps [simp]:
  "store_reads (\<lambda>ist. (r ist, ist))" "store_reads (\<lambda>ist. map_err g (f ist)) = store_reads f"
  by (simp_all add: store_reads_def)

lemma store_reads_if: "store_reads f \<Longrightarrow> store_reads g \<Longrightarrow> store_reads (\<lambda>ist. if c then f ist else g ist)"
  by (simp add: store_reads_def)

lemma store_reads_recover_chunks: "store_reads (recover_chunks X hs)"
proof (induction hs)
  case (Cons h hs)
  show ?case unfolding recover_chunks.simps
    by (intro store_reads_then store_reads_if Cons) (simp_all add: store_reads_chunk)
qed simp

lemma store_reads_recover_file: "store_reads (recover_file X e)"
  unfolding recover_file_def by (intro store_reads_then store_reads_recover_chunks) simp

lemma store_reads_recover_entries: "store_reads (recover_entries X flt es res)"
proof (induction es arbitrary: res)
  case (Cons e es)
  show ?case unfolding store_reads_def
  proof (intro allI)
    fix i s
    obtain r j t where f: "recover_file X e (i, s) = (r, (j, t))" by (metis prod_cases3)
    then have "j = i" "lookup t = lookup s"
      using store_reads_recover_file [of X e] by (metis store_reads_def fst_conv snd_conv)+
    then show "fst (snd (recover_entries X flt (e # es) res (i, s))) = i \<and>
        lookup (snd (snd (recover_entries X flt (e # es) res (i, s)))) = lookup s"
      using f Cons by (cases r) (auto simp: store_reads_def)
  qed
qed (simp add: store_reads_def)

lemma store_reads_recover: "store_reads (recover X N l rid req)"
proof -
  have entries: "store_reads (\<lambda>ist. case recover_entries X flt es res ist of (res, ist) \<Rightarrow> (Inr res, ist))" for flt es res
    using store_reads_recover_entries [of X flt es res] by (auto simp: store_reads_def split: prod.splits) (metis fst_conv snd_conv)+
  show ?thesis unfolding recover_def
    by (intro store_reads_then store_reads_if entries)
       (simp_all add: store_reads_fs fs_reads_read_snapshot)
qed

lemma store_reads_verify_chunk: "store_reads (verify_chunk X now h)"
  using store_reads_chunk [of X h]
  by (auto simp: store_reads_def verify_chunk_def Let_def split: prod.splits sum.splits chunk_store_error.splits)
     (metis fst_conv snd_conv)+

lemma store_reads_verify_snapshot: "store_reads (verify_snapshot X N l rid now sid)"
  using store_reads_fs [OF fs_reads_read_snapshot, of X N l rid sid]
  by (auto simp: store_reads_def verify_snapshot_def Let_def split: prod.splits sum.splits snapshot_store_error.splits)

subsection \<open>Calls open to all\<close>

lemma reads_only_ok_or: "reads_only a b \<Longrightarrow> reads_only a (snd (ok_or e x b))"
  by (simp add: ok_or_def split: option.splits)

lemma ok_or_state: "ok_or e x b = (r, c) \<Longrightarrow> c = b"
  by (auto simp: ok_or_def split: option.splits)

lemma the_repo_state: "the_repo E s b = (r, c) \<Longrightarrow> c = b"
  by (auto simp: the_repo_def dest: ok_or_state)

lemma the_version_state: "the_version E s b = (r, c) \<Longrightarrow> c = b"
  by (auto simp: the_version_def and_then_def ok_or_def split: prod.splits sum.splits option.splits)

lemma reads_only_stat: "reads_only a b \<Longrightarrow> reads_only a (snd (stat_now E C rid b))"
  unfolding stat_now_def by (simp add: reads_only_disk fs_reads_stat)

lemma reads_only_read_snapshots: "reads_only a b \<Longrightarrow> reads_only a (snd (read_snapshots E rs rid vs b))"
proof (induction vs arbitrary: b)
  case (Cons v vs)
  obtain r c where r: "on_disk_of (read_snapshot (sv_crates E) (sv_sjson E) (ss_layout b) rid (v_snapshot_id v)) b = (r, c)"
    by (rule prod.exhaust)
  then have "reads_only a c"
    using reads_only_disk [OF fs_reads_read_snapshot Cons.prems, of "sv_crates E" "sv_sjson E" "ss_layout b" rid "v_snapshot_id v"]
    by simp
  from Cons.IH [OF this] show ?case using r by (auto split: prod.splits)
qed simp

lemma reads_only_the_repo: "reads_only a b \<Longrightarrow> reads_only a (snd (the_repo E s b))"
  by (simp add: the_repo_def reads_only_ok_or)

lemma reads_only_the_version: "reads_only a b \<Longrightarrow> reads_only a (snd (the_version E s b))"
  using the_version_state [of E s b] by (cases "the_version E s b") auto

lemma reads_only_bind:
  "reads_only a (snd r) \<Longrightarrow> (\<And>x b. reads_only a b \<Longrightarrow> reads_only a (snd (k x b))) \<Longrightarrow> reads_only a (snd (and_then r k))"
  by (rule and_then_inv)

lemma reads_only_opened_then:
  assumes "reads_only a st" and "\<And>op b. reads_only a b \<Longrightarrow> map_of (ss_open b) rid = Some op \<Longrightarrow> reads_only a (snd (k op b))"
  shows "reads_only a (snd (and_then (opened E rid st) k))"
proof (rule reads_only_and_then)
  show "reads_only a (snd (opened E rid st))" using reads_only_opened [OF assms(1)] .
  then show "reads_only a (snd (k op b))" if "opened E rid st = (Inr op, b)" for op b
    using that assms(2) opened_in by simp
qed

lemma reads_only_map_err: "reads_only a (snd r) \<Longrightarrow> reads_only a (snd (map_err g r))"
  by simp

text \<open>The shape of the calls: find the repository, open it, read.\<close>

lemmas reads_only_chain = reads_only_bind [OF reads_only_the_repo] reads_only_bind [OF reads_only_ok_or]
  reads_only_bind [OF reads_only_the_version] reads_only_opened_then reads_only_bind [OF reads_only_stat]
  reads_only_bind [OF reads_only_map_err [OF reads_only_disk]] reads_only_bind [OF reads_only_store]
  reads_only_bind [OF reads_only_map_err [OF reads_only_store]]

lemmas reading = fs_reads_get_snapshot fs_reads_read_snapshot fs_reads_read_manifest fs_reads_list
  store_reads_get store_reads_recover store_reads_total [OF store_reads_verify_chunk] store_reads_total [OF store_reads_verify_snapshot]

lemma open_calls_read:
  assumes "open_to_all call" and "\<forall>r. call \<noteq> RepositoryClose r"
  shows "reads_only st (snd (serve E C md call st))"
proof (cases "gate E C md st call")
  case (Inl e)
  then show ?thesis by (simp add: serve_gated)
next
  case (Inr cv)
  then have ok: "require_auth (sv_auth E) (cv_now C ''auth'' 0) (ss_auth st) md = Inr cv"
    using assms(1) by (simp add: gate_def Let_def)
  note body = rpc_defs ok and_then_simps Let_def serve.simps
  show ?thesis
  proof (cases call)
    case (SnapshotGet r x)
    show ?thesis unfolding SnapshotGet body
      by (intro reads_only_chain reading reads_only_refl; simp add: prod.case_eq_if reads_only_disk reading)
  next
    case (SnapshotList r n)
    show ?thesis unfolding SnapshotList body
      by (intro reads_only_chain reading reads_only_refl; simp add: prod.case_eq_if reads_only_read_snapshots)
  next
    case (ChunkExists r h)
    show ?thesis unfolding ChunkExists body
      by (intro reads_only_chain reading reads_only_refl; simp add: prod.case_eq_if)
  qed (use assms in simp_all, simp_all only: body, (intro reads_only_chain reading reads_only_refl; simp)+)
qed

subsection \<open>Access\<close>

definition writer :: "server_env \<Rightarrow> call_env \<Rightarrow> metadata \<Rightarrow> server_state \<Rightarrow> bool" where
  "writer E C md st \<longleftrightarrow> (\<exists>claims r. authentic (sv_auth E) (cv_now C ''auth'' 0) (ss_auth st) md claims \<and>
     from_role_str (jw_role claims) = Some r \<and> can_write r)"

lemma can_admin_write: "can_admin r \<Longrightarrow> can_write r"
  by (cases r) simp_all

lemma needs_write: "\<not> open_to_all call \<Longrightarrow> needs call r \<Longrightarrow> can_write r"
  by (cases call) (simp_all add: can_admin_write)

lemma not_permitted: "\<not> permitted E C md st call \<Longrightarrow> \<exists>e. serve E C md call st = (Inl e, st)"
  using gate_permitted serve_gated by (cases "gate E C md st call") blast+

lemma close_changes_cache:
  "serve E C md (RepositoryClose r) st = (x, st') \<Longrightarrow> st' = st \<or> (\<exists>rid. st' = close_repo rid st)"
  by (auto simp: rpc_repository_close_def the_repo_def ok_or_def and_then_def split: sum.splits option.splits)

text \<open>(C12) Access control.  A call without a token that is signed under the server's secret, is not
  expired, names a supported protocol version and carries a role that covers the call is
  answered with an error and changes nothing.  A caller who cannot write may read, but
  whatever the call and whatever fails, the version registry and the repositories stay, no
  file is changed or removed (opening a repository may create its empty journal), and
  repositories that stay open keep their index and journal.\<close>

theorem access_control:
  assumes "serve E C md call st = (r, st')"
  shows "(\<not> permitted E C md st call \<longrightarrow> (\<exists>e. r = Inl e) \<and> st' = st) \<and>
     (\<not> writer E C md st \<longrightarrow> ss_versions st' = ss_versions st \<and> ss_manager st' = ss_manager st \<and>
        (\<forall>p. lookup (ss_fs st') p = lookup (ss_fs st) p \<or>
             (lookup (ss_fs st) p = None \<and> lookup (ss_fs st') p = Some (File []))) \<and>
        (\<forall>rid op. map_of (ss_open st) rid = Some op \<longrightarrow> map_of (ss_open st') rid \<in> {None, Some op}))"
proof (intro conjI impI)
  assume "\<not> permitted E C md st call"
  then show "\<exists>e. r = Inl e" "st' = st" using not_permitted assms by fastforce+
next
  assume w: "\<not> writer E C md st"
  consider "\<not> open_to_all call" | x where "call = RepositoryClose x" | "open_to_all call" "\<forall>r. call \<noteq> RepositoryClose r" by blast
  then have "reads_only st st' \<or> (\<exists>rid. st' = close_repo rid st)"
  proof cases
    case 1
    then have "\<not> permitted E C md st call" using w needs_write by (auto simp: permitted_def writer_def)
    then show ?thesis using not_permitted assms by fastforce
  next
    case 2
    then show ?thesis using close_changes_cache assms by fastforce
  next
    case 3
    then show ?thesis using open_calls_read [of call st E C md] assms by simp
  qed
  then show "ss_versions st' = ss_versions st" "ss_manager st' = ss_manager st"
    "\<forall>p. lookup (ss_fs st') p = lookup (ss_fs st) p \<or> (lookup (ss_fs st) p = None \<and> lookup (ss_fs st') p = Some (File []))"
    "\<forall>rid op. map_of (ss_open st) rid = Some op \<longrightarrow> map_of (ss_open st') rid \<in> {None, Some op}"
    by (auto simp: reads_only_def close_repo_def map_of_delete split: if_splits)
qed

subsection \<open>Witness\<close>

text \<open>A server whose codecs accept one token shape; the role is that of the caller.\<close>

definition sample_auth :: "string \<Rightarrow> auth_crates" where
  "sample_auth role_name = \<lparr>b64_encode = (\<lambda>b. map byte_char b), b64_decode = (\<lambda>_. Some []), hmac = (\<lambda>_ _. Some []),
     header_to_vec = Some [], claims_to_vec = (\<lambda>_. Some []),
     claims_from_slice = (\<lambda>_. Some \<lparr>jw_sub = ''u'', jw_role = role_name, jw_exp = 100, jw_iat = 0\<rparr>)\<rparr>"

definition sample_server :: "string \<Rightarrow> server_env" where
  "sample_server role_name = \<lparr>sv_crates = sample_crates, sv_ijson = sample_json, sv_mjson = ce_mjson sample_env,
     sv_sjson = ce_sjson sample_env,
     sv_rjson = \<lparr>rj_to_vec = (\<lambda>_. Some [1]), rj_from_slice = (\<lambda>_. Some (repository_new [9] (locked_config False) 0))\<rparr>,
     sv_jc = sample_jc, sv_auth = sample_auth role_name, sv_from_timestamp = (\<lambda>_ _. None),
     sv_policy_to_vec = (\<lambda>_. None), sv_policy_from_slice = (\<lambda>_. None), sv_enc_to_vec = (\<lambda>_. None),
     sv_enc_from_slice = (\<lambda>_. None), sv_comp_to_vec = (\<lambda>_. None), sv_comp_from_slice = (\<lambda>_. None)\<rparr>"

definition sample_call :: call_env where
  "sample_call = \<lparr>cv_now = (\<lambda>_ _. 0), cv_fresh = (\<lambda>_. [9]), cv_stamp = (\<lambda>_. ''0'')\<rparr>"

definition sample_md :: metadata where
  "sample_md = \<lparr>md_authorization = Some (Some ''Bearer a.b.c''), md_version = Some (Some ''1'')\<rparr>"

lemma sample_version: "extract_version sample_md = Inr 1"
  by (simp add: extract_version_def sample_md_def parse_uint_def supported_versions_def)

lemma sample_claims:
  "extract_auth (sample_auth r) 0 cfg sample_md = Inr \<lparr>jw_sub = ''u'', jw_role = r, jw_exp = 100, jw_iat = 0\<rparr>"
  by (simp add: extract_auth_def sample_md_def strip_prefix_def validate_jwt_def sample_auth_def unix_seconds_def)

lemma sample_gates:
  "require_auth (sample_auth r) 0 cfg sample_md = Inr (\<lparr>jw_sub = ''u'', jw_role = r, jw_exp = 100, jw_iat = 0\<rparr>, 1)"
  "require_role p (sample_auth r) 0 cfg sample_md = (case from_role_str r of
     None \<Rightarrow> Inl (to_status HPermissionDenied)
   | Some x \<Rightarrow> if \<not> p x then Inl (to_status HPermissionDenied) else Inr (\<lparr>jw_sub = ''u'', jw_role = r, jw_exp = 100, jw_iat = 0\<rparr>, 1))"
  by (simp_all add: require_auth_def require_role_def sample_claims sample_version split: option.splits)

lemma sample_authentic: "authentic (sample_auth r) 0 cfg sample_md claims \<Longrightarrow> jw_role claims = r"
  by (auto simp: authentic_def sample_auth_def)

theorem access_control_witness:
  "\<not> writer (sample_server ''viewer'') sample_call sample_md (server_new [] (from_secret []) blank_disk) \<and>
   fst (serve (sample_server ''viewer'') sample_call sample_md RepositoryList (server_new [] (from_secret []) blank_disk)) = Inr (RespRepos []) \<and>
   serve (sample_server ''viewer'') sample_call sample_md (RepositoryDelete ''r'') (server_new [] (from_secret []) blank_disk) =
     (Inl (to_status HPermissionDenied), server_new [] (from_secret []) blank_disk) \<and>
   ss_versions (snd (serve (sample_server ''viewer'') sample_call sample_md (RepositoryOpen ''r'') (server_new [] (from_secret []) blank_disk))) = version_ops_new"
proof -
  let ?E = "sample_server ''viewer''" and ?st = "server_new [] (from_secret []) blank_disk"
  have v: "from_role_str ''viewer'' = Some Viewer" by (simp add: from_role_str_def)
  have w: "\<not> writer ?E sample_call sample_md ?st"
    using sample_authentic v by (auto simp: writer_def sample_server_def sample_call_def)
  have p: "\<not> permitted ?E sample_call sample_md ?st (RepositoryDelete ''r'')"
    using sample_authentic v by (auto simp: permitted_def sample_server_def sample_call_def)
  obtain r st' where d: "serve ?E sample_call sample_md (RepositoryDelete ''r'') ?st = (r, st')" by (rule prod.exhaust)
  then have "r = Inl (to_status HPermissionDenied)"
    by (auto simp: rpc_repository_delete_def require_admin_def sample_server_def sample_call_def sample_gates v)
  moreover have "st' = ?st" using access_control [OF d] p by blast
  moreover obtain r2 st2 where o: "serve ?E sample_call sample_md (RepositoryOpen ''r'') ?st = (r2, st2)" by (rule prod.exhaust)
  have "ss_versions st2 = version_ops_new" using access_control [OF o] w by (auto simp: server_new_def)
  moreover have "fst (serve ?E sample_call sample_md RepositoryList ?st) = Inr (RespRepos [])"
    by (simp add: rpc_repository_list_def sample_server_def sample_call_def sample_gates on_disk_of_def list_repositories_def
        server_new_def repository_manager_new_def blank_disk_def path_exists_def lookup_def)
  ultimately show ?thesis using w d o by simp
qed

end
