(* ===== verification/Badou_Server_Steps.thy ===== *)
theory Badou_Server_Steps
  imports Badou_Server_Auth
begin

text \<open>
  What the calls of the service keep.  An open repository is good when its index names the
  bucket file of every chunk, is written to the repository's own index file, and its journal
  lies in the journal directory; a disk is good when every index file that can be decoded has
  that form.  Every operation of a repository works under the repository's root, keeps it
  good and keeps the stored bytes of every other chunk (\<open>repo_step\<close>).  Lifted to the server
  (\<open>server_step\<close>), every call keeps every open repository good, whatever fails, and a chunk that
  was put is answered by a later get until its repository is closed or deleted.
\<close>

subsection \<open>Good repositories\<close>

definition entries_good :: "crates \<Rightarrow> layout \<Rightarrow> uuid \<Rightarrow> (string, chunk_index_entry) hmap \<Rightarrow> bool" where
  "entries_good X l rid m \<longleftrightarrow> (\<forall>k e. map_of m k = Some e \<longrightarrow>
     (\<exists>h. k = hex_encode X h \<and> ie_path e = bucket_path X l rid h))"

text \<open>The index file, if it can be decoded.\<close>

definition disk_good :: "crates \<Rightarrow> index_json \<Rightarrow> layout \<Rightarrow> uuid \<Rightarrow> fsys \<Rightarrow> bool" where
  "disk_good X J l rid s \<longleftrightarrow> (\<forall>b x. file_at s (index_path X l rid) = Some b \<longrightarrow> ij_from_slice J b = Some x \<longrightarrow>
     entries_good X l rid (pi_chunk_index x))"

definition index_good :: "crates \<Rightarrow> layout \<Rightarrow> uuid \<Rightarrow> badou_index \<Rightarrow> bool" where
  "index_good X l rid i \<longleftrightarrow> entries_good X l rid (bi_chunk_index i) \<and> bi_persist_path i = Some (index_path X l rid)"

definition journal_good :: "crates \<Rightarrow> layout \<Rightarrow> uuid \<Rightarrow> journal \<Rightarrow> bool" where
  "journal_good X l rid j \<longleftrightarrow> j_path j = journal_path X l rid \<and> prefix (journal_dir X l rid) (j_handle j)"

definition repo_good :: "crates \<Rightarrow> index_json \<Rightarrow> layout \<Rightarrow> uuid \<Rightarrow> badou_index \<Rightarrow> journal \<Rightarrow> fsys \<Rightarrow> bool" where
  "repo_good X J l rid i j s \<longleftrightarrow> index_good X l rid i \<and> journal_good X l rid j \<and> disk_good X J l rid s"

text \<open>What the code relies on: distinct hashes and identifiers have distinct names, and an index
  file that was cut off while it was written cannot be decoded to another index.\<close>

definition crates_good :: "crates \<Rightarrow> index_json \<Rightarrow> bool" where
  "crates_good X J \<longleftrightarrow> inj (hex_encode X) \<and> inj (uuid_to_string X) \<and> ij_from_slice J [] = None \<and>
     (\<forall>x b n. ij_to_vec J x = Some b \<longrightarrow> ij_from_slice J (take n b) \<in> {None, Some x})"

lemma crates_goodD:
  "crates_good X J \<Longrightarrow> inj (hex_encode X)" "crates_good X J \<Longrightarrow> inj (uuid_to_string X)"
  "crates_good X J \<Longrightarrow> ij_from_slice J [] = None"
  "crates_good X J \<Longrightarrow> ij_to_vec J x = Some b \<Longrightarrow> ij_from_slice J (take n b) = Some y \<Longrightarrow> y = x"
  by (auto simp: crates_good_def) (metis option.distinct(1) option.inject)

lemma index_good_store_inv: "inj (hex_encode X) \<Longrightarrow> index_good X l rid i \<Longrightarrow> store_inv X l rid (i, s)"
  by (auto simp: store_inv_def index_good_def entries_good_def index_lookup_def index_path_def bucket_path_def
      index_dir_def chunks_dir_def)

subsection \<open>Places in a repository\<close>

abbreviation in_repo :: "crates \<Rightarrow> layout \<Rightarrow> uuid \<Rightarrow> path \<Rightarrow> bool" where
  "in_repo X l rid \<equiv> prefix (repo_root X l rid)"

lemmas place_defs = index_path_def bucket_path_def journal_path_def meta_path_def format_version_path_def
  index_dir_def chunks_dir_def journal_dir_def meta_dir_def manifests_dir_def snapshots_dir_def

lemma places_in_repo [simp]:
  "in_repo X l rid (index_path X l rid)" "in_repo X l rid (bucket_path X l rid h)"
  "in_repo X l rid (journal_dir X l rid @ q)" "in_repo X l rid (meta_dir X l rid @ q)"
  by (simp_all add: place_defs)

lemma other_repo:
  "inj (uuid_to_string X) \<Longrightarrow> r \<noteq> rid \<Longrightarrow> in_repo X l rid (repo_root X l r @ q) \<Longrightarrow> False"
  by (auto simp: repo_root_def dest: injD)

lemma other_places:
  assumes "inj (uuid_to_string X)" and "r \<noteq> rid"
  shows "\<not> in_repo X l rid (index_path X l r)" "\<not> in_repo X l rid (bucket_path X l r h)"
  using other_repo [OF assms] by (auto simp: place_defs)

lemma index_apart [simp]:
  "index_path X l r \<noteq> bucket_path X l rid h" "\<not> meta_zone X l rid (index_path X l r)"
  "\<not> prefix (journal_dir X l rid) (index_path X l r)" "\<not> prefix (meta_dir X l rid) (index_path X l r)"
  by (auto simp: place_defs meta_zone_def repo_root_def)

lemma bucket_apart [simp]:
  "\<not> prefix (journal_dir X l rid) (bucket_path X l r h)" "\<not> prefix (meta_dir X l rid) (bucket_path X l r h)"
  "\<not> meta_zone X l rid (bucket_path X l r h)"
  by (auto simp: place_defs meta_zone_def repo_root_def)

lemma meta_in_repo: "meta_zone X l rid p \<Longrightarrow> in_repo X l rid p"
  by (auto simp: meta_zone_def place_defs prefix_def)

lemma journal_in_repo: "prefix (journal_dir X l rid) p \<Longrightarrow> in_repo X l rid p"
  by (auto simp: place_defs prefix_def)

subsection \<open>Steps of one repository\<close>

text \<open>From \<open>(i, j, s)\<close> to \<open>(i', j', s')\<close> only files of the repository change, and stored chunks outside
  \<open>K\<close> stay as they are.\<close>

definition repo_step ::
  "crates \<Rightarrow> index_json \<Rightarrow> layout \<Rightarrow> uuid \<Rightarrow> chunk_hash set \<Rightarrow> badou_index \<times> journal \<times> fsys \<Rightarrow> badou_index \<times> journal \<times> fsys \<Rightarrow> bool" where
  "repo_step X J l rid K = (\<lambda>(i, j, s) (i', j', s'). repo_good X J l rid i' j' s' \<and> touches (in_repo X l rid) s s' \<and>
     (\<forall>h d. h \<notin> K \<longrightarrow> chunk_content X (i, s) h = Some d \<longrightarrow> chunk_content X (i', s') h = Some d))"

lemma repo_step_refl: "repo_good X J l rid i j s \<Longrightarrow> repo_step X J l rid K (i, j, s) (i, j, s)"
  by (simp add: repo_step_def)

lemma repo_step_trans: "repo_step X J l rid K a b \<Longrightarrow> repo_step X J l rid K b c \<Longrightarrow> repo_step X J l rid K a c"
  by (auto simp: repo_step_def split: prod.splits intro: touches_trans)

lemma repo_step_good: "repo_step X J l rid K a (i, j, s) \<Longrightarrow> repo_good X J l rid i j s"
  by (auto simp: repo_step_def split: prod.splits)

text \<open>A disk step that leaves the index file and the buckets alone.\<close>

lemma disk_good_cong: "file_at s' (index_path X l rid) = file_at s (index_path X l rid) \<Longrightarrow> disk_good X J l rid s \<Longrightarrow> disk_good X J l rid s'"
  by (simp add: disk_good_def)

lemma content_at:
  "inj (hex_encode X) \<Longrightarrow> index_good X l rid i \<Longrightarrow> chunk_content X (i, s) h =
     (if index_lookup i (hex_encode X h) = None then None else file_at s (bucket_path X l rid h))"
  using store_inv_entry [OF index_good_store_inv, of X l rid i s h] by (auto simp: chunk_content_def split: option.splits)

lemma repo_step_disk:
  assumes "crates_good X J" and "repo_good X J l rid i j s" and "journal_good X l rid j'"
    and "touches Z s s'" and "\<And>p. Z p \<Longrightarrow> in_repo X l rid p" and "\<not> Z (index_path X l rid)" and "\<And>h. \<not> Z (bucket_path X l rid h)"
  shows "repo_step X J l rid K (i, j, s) (i, j', s')"
  using assms touches_file [OF assms(4)] disk_good_cong [of s' X l rid s J] touches_mono [OF assms(4,5)]
  by (auto simp: repo_step_def repo_good_def content_at crates_goodD(1) split: if_splits)

text \<open>Writing the index out, after a change of its entries.\<close>

lemma fs_write_cases:
  "fs_write p d s = (r, t) \<Longrightarrow> lookup t p = lookup s p \<or> (\<exists>n. lookup t p = Some (File (take n d)))"
  by (auto simp: fs_write_def split: prod.splits fault.splits if_splits dest: next_fault_lookup)
     (metis take_all order_refl)+

lemma persist_good:
  assumes "crates_good X J" and "index_good X l rid i" and "disk_good X J l rid s" and "persist J (i, s) = (r, (i', s'))"
  shows "i' = i \<and> disk_good X J l rid s' \<and> (\<forall>q. q \<noteq> index_path X l rid \<longrightarrow> lookup s' q = lookup s q)"
proof (intro conjI allI impI)
  have p: "bi_persist_path i = Some (index_path X l rid)" and e: "entries_good X l rid (pi_chunk_index (to_persisted i))"
    using assms(2) by (simp_all add: index_good_def to_persisted_def)
  show i: "i' = i" using persist_index [of J "(i, s)"] assms(4) by simp
  show "lookup s' q = lookup s q" if "q \<noteq> index_path X l rid" for q
    using persist_frame [OF assms(4), of q] p that by auto
  show "disk_good X J l rid s'"
  proof (cases "ij_to_vec J (to_persisted i)")
    case None
    then show ?thesis using assms(3,4) p by (simp add: persist_def)
  next
    case (Some b)
    obtain r1 where w: "fs_write (index_path X l rid) b s = (r1, s')"
      using assms(4) p Some by (auto simp: persist_def map_err_def split: prod.splits sum.splits)
    from fs_write_cases [OF this] show ?thesis
      using assms(1,3) e Some by (auto simp: disk_good_def file_at_def dest: crates_goodD(4))
  qed
qed

lemma repo_step_persist:
  assumes "crates_good X J" and "repo_good X J l rid i0 j s" and "index_good X l rid i"
    and "\<And>h. index_lookup i (hex_encode X h) = None \<Longrightarrow> index_lookup i0 (hex_encode X h) = None"
    and "persist J (i, s) = (r, (i', s'))"
  shows "repo_step X J l rid K (i0, j, s) (i', j, s')"
proof -
  have p: "i' = i" "disk_good X J l rid s'" "\<forall>q. q \<noteq> index_path X l rid \<longrightarrow> lookup s' q = lookup s q"
    using persist_good [OF assms(1,3) _ assms(5)] assms(2) by (auto simp: repo_good_def)
  have t: "touches (in_repo X l rid) s s'" using p(3) by (intro touches_lookup) (metis places_in_repo(1))
  have "file_at s' (bucket_path X l rid h) = file_at s (bucket_path X l rid h)" for h
    using p(3) by (metis file_at_def index_apart(1))
  moreover have g: "index_good X l rid i0" "journal_good X l rid j" using assms(2) by (simp_all add: repo_good_def)
  ultimately show ?thesis
    using t p(1,2) assms(3,4) by (auto simp: repo_step_def repo_good_def content_at [OF crates_goodD(1) [OF assms(1)]] split: if_splits)
qed

lemma index_good_upd:
  "index_good X l rid i \<Longrightarrow> (\<And>e. ie_path (f e) = ie_path e) \<Longrightarrow> index_good X l rid (upd_entry k f i)"
  by (auto simp: index_good_def entries_good_def upd_entry_def map_of_update split: option.splits)

lemma upd_entry_None [simp]: "index_lookup (upd_entry k f i) n = None \<longleftrightarrow> index_lookup i n = None"
  by (simp add: lookup_upd_entry)

lemma repo_step_upd:
  assumes "crates_good X J" and "repo_good X J l rid i j s" and "\<And>e. ie_path (f e) = ie_path e"
    and "persist J (upd_entry k f i, s) = (r, (i', s'))"
  shows "repo_step X J l rid K (i, j, s) (i', j, s')"
  using repo_step_persist [OF assms(1,2) index_good_upd [OF _ assms(3)] _ assms(4)] assms(2) by (simp add: repo_good_def)

lemma repo_step_write_known:
  assumes "crates_good X J" and "repo_good X J l rid i j s" and "chunk_exists X i h"
    and "write_chunk X J l rid now h d (i, s) = (r, (i', s'))"
  shows "repo_step X J l rid K (i, j, s) (i', j, s')"
proof -
  obtain e where e: "index_lookup i (hex_encode X h) = Some e" using assms(3) by (auto simp: chunk_exists_def)
  let ?i = "upd_entry (hex_encode X h) (\<lambda>e. e\<lparr>ie_ref_count := ie_ref_count e + 1\<rparr>) i"
  obtain p t where p: "persist J (?i, s) = (p, t)" by (rule prod.exhaust)
  then have "t = (i', s')"
    using assms(4) e increment_as_persist [OF e, of J s]
    by (cases p) (auto simp: write_chunk_def and_then_def map_err_def split: sum.splits)
  with p show ?thesis by (intro repo_step_upd [OF assms(1,2), of "\<lambda>e. e\<lparr>ie_ref_count := ie_ref_count e + 1\<rparr>"]) simp_all
qed

text \<open>Writing a new chunk: directory, bucket file, index entry.\<close>

lemma repo_step_bucket:
  assumes "crates_good X J" and "repo_good X J l rid i j s" and "index_lookup i (hex_encode X h) = None"
    and "touches (\<lambda>p. p = bucket_path X l rid h) s s'"
  shows "repo_step X J l rid K (i, j, s) (i, j, s')"
proof -
  note good = assms(2) [unfolded repo_good_def]
  have "file_at s' (bucket_path X l rid k) = file_at s (bucket_path X l rid k)" if "k \<noteq> h" for k
    using touches_file [OF assms(4)] that bucket_path_inj [OF crates_goodD(1) [OF assms(1)]] by auto
  moreover have "file_at s' (index_path X l rid) = file_at s (index_path X l rid)"
    using touches_file [OF assms(4), of "index_path X l rid"] by simp
  moreover have "touches (in_repo X l rid) s s'" by (rule touches_mono [OF assms(4)]) simp
  ultimately show ?thesis
    using good assms(3) disk_good_cong [of s' X l rid s J] content_at [OF crates_goodD(1) [OF assms(1)], of l rid i]
    by (auto simp: repo_step_def repo_good_def split: if_splits) (metis option.distinct(1))
qed

lemma touches_tup: "q = (r, s') \<Longrightarrow> touches Z s (snd q) \<Longrightarrow> touches Z s s'"
  by simp

lemma repo_step_write:
  assumes "crates_good X J" and "repo_good X J l rid i j s"
    and "write_chunk X J l rid now h d (i, s) = (r, (i', s'))"
  shows "repo_step X J l rid K (i, j, s) (i', j, s')"
proof (cases "chunk_exists X i h")
  case True
  then show ?thesis using repo_step_write_known [OF assms(1,2) _ assms(3)] by blast
next
  case new: False
  then have none: "index_lookup i (hex_encode X h) = None" by (simp add: chunk_exists_def)
  note bucket = repo_step_bucket [OF assms(1,2) none]
  let ?Z = "\<lambda>p. p = bucket_path X l rid h"
  from new assms(3) show ?thesis
  proof (cases rule: write_chunk_new_cases)
    case (dir e)
    then show ?thesis using bucket touches_tup [OF dir(1) touches_create_dir_all] by simp
  next
    case (wr s1 e)
    have "touches ?Z s s'" using touches_trans [OF touches_tup [OF wr(1) touches_create_dir_all] touches_tup [OF wr(2) touches_write]] by simp
    then show ?thesis using bucket wr by simp
  next
    case (reg s1 s2 p)
    have "touches ?Z s s2" using touches_trans [OF touches_tup [OF reg(1) touches_create_dir_all] touches_tup [OF reg(2) touches_write]] by simp
    then have a: "repo_step X J l rid K (i, j, s) (i, j, s2)" by (rule bucket)
    let ?i = "i\<lparr>bi_chunk_index := AList.update (hex_encode X h) (new_entry X l rid now h d) (bi_chunk_index i)\<rparr>"
    have "index_good X l rid ?i"
      using repo_step_good [OF a] by (auto simp: repo_good_def index_good_def entries_good_def map_of_update new_entry_def)
    moreover have "index_lookup i (hex_encode X k) = None" if "index_lookup ?i (hex_encode X k) = None" for k
      using that by (simp add: register_lookup split: if_splits)
    ultimately have "repo_step X J l rid K (i, j, s2) (i', j, s')"
      using repo_step_persist [OF assms(1) repo_step_good [OF a], of ?i p i' s'] reg(3) by (simp add: register_def)
    then show ?thesis by (rule repo_step_trans [OF a])
  qed
qed

lemma repo_step_delete:
  assumes "crates_good X J" and "repo_good X J l rid i j s" and "h \<in> K"
    and "delete_chunk_physical X J h (i, s) = (r, (i', s'))"
  shows "repo_step X J l rid K (i, j, s) (i', j, s')"
proof (cases "index_lookup i (hex_encode X h)")
  case None
  then show ?thesis using assms by (simp add: delete_chunk_physical_def repo_step_refl)
next
  case (Some e)
  have inj: "inj (hex_encode X)" using crates_goodD(1) [OF assms(1)] .
  have p: "ie_path e = bucket_path X l rid h"
    using store_inv_entry [OF index_good_store_inv [OF inj], of l rid i s h e] Some assms(2) by (simp add: repo_good_def)
  obtain r1 s1 where rm: "(if path_exists s (bucket_path X l rid h) then map_err CsIo (fs_remove_file (bucket_path X l rid h) s)
      else (Inr (), s)) = (r1, s1)" by fastforce
  have "\<forall>q. q \<noteq> bucket_path X l rid h \<longrightarrow> lookup s1 q = lookup s q"
    using rm fs_remove_file_Ok [of "bucket_path X l rid h" s] fs_remove_file_Err [of "bucket_path X l rid h" s]
    by (cases "fs_remove_file (bucket_path X l rid h) s"; cases "fst (fs_remove_file (bucket_path X l rid h) s)")
       (auto simp: map_err_def split: if_splits)
  then have q: "lookup s1 q = lookup s q" if "q \<noteq> bucket_path X l rid h" for q using that by blast
  have "file_at s1 (bucket_path X l rid k) = file_at s (bucket_path X l rid k)" if "k \<notin> K" for k
    using q [of "bucket_path X l rid k"] bucket_path_inj [OF inj, of l rid k h] that assms(3) by (auto simp: file_at_def)
  moreover have "file_at s1 (index_path X l rid) = file_at s (index_path X l rid)"
    using q [of "index_path X l rid"] by (simp add: file_at_def)
  moreover have "touches (in_repo X l rid) s s1" by (rule touches_lookup) (metis q places_in_repo(2))
  ultimately have a: "repo_step X J l rid K (i, j, s) (i, j, s1)"
    using assms(2) disk_good_cong [of s1 X l rid s J] content_at [OF inj, of l rid i]
    by (auto simp: repo_step_def repo_good_def split: if_splits)
  have eq: "delete_chunk_physical X J h (i, s) = and_then (r1, (i, s1)) (\<lambda>_ st. map_err CsIndex (update_status J (hex_encode X h) IPurged st))"
    using rm by (auto simp: delete_chunk_physical_def Some p map_err_def split: if_splits prod.splits sum.splits)
  show ?thesis
  proof (cases r1)
    case (Inl x)
    then have "i' = i" "s' = s1" using assms(4) unfolding eq by simp_all
    then show ?thesis using a by simp
  next
    case (Inr x)
    obtain p2 where "persist J (upd_entry (hex_encode X h) (\<lambda>e. e\<lparr>ie_status := IPurged\<rparr>) i, s1) = (p2, (i', s'))"
      using assms(4) Some Inr unfolding eq
      by (cases "persist J (upd_entry (hex_encode X h) (\<lambda>e. e\<lparr>ie_status := IPurged\<rparr>) i, s1)")
         (auto simp: map_err_def update_status_def index_lookup_def upd_entry_def split: sum.splits)
    then show ?thesis by (intro repo_step_trans [OF a] repo_step_upd [OF assms(1) repo_step_good [OF a], of "\<lambda>e. e\<lparr>ie_status := IPurged\<rparr>"]) simp_all
  qed
qed

lemma repo_step_read:
  assumes "crates_good X J" and "repo_good X J l rid i j s" and "lookup s' = lookup s"
  shows "repo_step X J l rid K (i, j, s) (i, j, s')"
  by (rule repo_step_disk [where Z = "\<lambda>_. False", OF assms(1,2)]) (use assms in \<open>simp_all add: repo_good_def touches_def\<close>)

text \<open>Appending to the journal.\<close>

lemma journal_good_files: "journal_good X l rid j \<Longrightarrow> journal_files j p \<Longrightarrow> prefix (journal_dir X l rid) p"
  by (auto simp: journal_good_def journal_files_def journal_path_def archive_path_def)

lemma repo_step_append:
  assumes "crates_good X J" and "repo_good X J l rid i j s" and "journal_append C stamp e (j, s) = (r, (j', s'))"
  shows "repo_step X J l rid K (i, j, s) (i, j', s')"
proof (rule repo_step_disk [where Z = "prefix (journal_dir X l rid)", OF assms(1,2)])
  have g: "journal_good X l rid j" using assms(2) by (simp add: repo_good_def)
  note t = journal_append_touches [OF assms(3)]
  show "touches (prefix (journal_dir X l rid)) s s'" by (rule touches_mono [OF t(1)]) (rule journal_good_files [OF g])
  show "journal_good X l rid j'"
    using g t(2,3) by (auto simp: journal_good_def journal_path_def archive_path_def)
qed (simp_all add: journal_in_repo)

subsection \<open>Steps of a commit\<close>

definition commit_step :: "commit_env \<Rightarrow> commit_st \<Rightarrow> commit_st \<Rightarrow> bool" where
  "commit_step E a b \<longleftrightarrow> repo_step (ce_crates E) (ce_ijson E) (ce_layout E) (ce_repo E) {}
     (cs_ix a, cs_jr a, cs_fs a) (cs_ix b, cs_jr b, cs_fs b)"

definition commit_ready :: "commit_env \<Rightarrow> bool" where
  "commit_ready E \<longleftrightarrow> crates_good (ce_crates E) (ce_ijson E)"

lemma commit_step_then:
  "commit_step E a (snd r) \<Longrightarrow> (\<And>x b. commit_step E a b \<Longrightarrow> commit_step E a (snd (k x b))) \<Longrightarrow> commit_step E a (snd (and_then r k))"
  by (rule and_then_inv)

lemma commit_step_map_err: "commit_step E a (snd r) \<Longrightarrow> commit_step E a (snd (map_err f r))"
  by simp

lemma commit_step_vo: "commit_step E a b \<Longrightarrow> commit_step E a (snd (on_vo f b))"
  by (simp add: commit_step_def on_vo_def split: prod.splits)

lemma commit_step_disk:
  assumes "commit_ready E" and "commit_step E a b"
    and "touches (meta_zone (ce_crates E) (ce_layout E) (ce_repo E)) (cs_fs b) (snd (f (cs_fs b)))"
  shows "commit_step E a (snd (on_disk f b))"
proof -
  obtain r s where f: "f (cs_fs b) = (r, s)" by fastforce
  have g: "repo_good (ce_crates E) (ce_ijson E) (ce_layout E) (ce_repo E) (cs_ix b) (cs_jr b) (cs_fs b)"
    using assms(2) repo_step_good by (simp add: commit_step_def)
  have "repo_step (ce_crates E) (ce_ijson E) (ce_layout E) (ce_repo E) {} (cs_ix b, cs_jr b, cs_fs b) (cs_ix b, cs_jr b, s)"
    by (rule repo_step_disk [OF assms(1) [unfolded commit_ready_def] g, where Z = "meta_zone (ce_crates E) (ce_layout E) (ce_repo E)"])
       (use assms(3) f g in \<open>simp_all add: meta_in_repo repo_good_def\<close>)
  then show ?thesis using assms(2) f repo_step_trans by (auto simp: commit_step_def on_disk_def)
qed

lemma commit_step_note:
  assumes "commit_ready E" and "commit_step E a b"
  shows "commit_step E a (snd (journal_note E op text done b))"
proof -
  define e where "e = (let e = entry_new op (ce_vid E) (str_bytes text) (ce_clock E text 0)
    in if done then entry_committed e else e)"
  obtain r j s where app: "journal_append (ce_jc E) (ce_stamp E text) e (cs_jr b, cs_fs b) = (r, (j, s))"
    by (metis prod_cases3)
  have "snd (journal_note E op text done b) = b\<lparr>cs_jr := j, cs_fs := s\<rparr>"
    using app by (simp add: journal_note_def on_jr_def Let_def e_def)
  then show ?thesis
    using repo_step_trans [OF _ repo_step_append [OF _ repo_step_good app]] assms by (auto simp: commit_step_def commit_ready_def)
qed

lemma commit_step_ix:
  assumes "commit_step E a b"
    and "\<And>i j s. repo_good (ce_crates E) (ce_ijson E) (ce_layout E) (ce_repo E) i j s \<Longrightarrow>
       repo_step (ce_crates E) (ce_ijson E) (ce_layout E) (ce_repo E) {} (i, j, s) (fst (snd (f (i, s))), j, snd (snd (f (i, s))))"
  shows "commit_step E a (snd (on_ix f b))"
  using assms(1) repo_step_trans [OF assms(1) [unfolded commit_step_def] assms(2) [OF repo_step_good [OF assms(1) [unfolded commit_step_def]]]]
  by (auto simp: commit_step_def on_ix_def split: prod.splits)

lemma commit_step_write:
  "commit_ready E \<Longrightarrow> commit_step E a b \<Longrightarrow>
   commit_step E a (snd (on_ix (write_chunk (ce_crates E) (ce_ijson E) (ce_layout E) (ce_repo E) now h d) b))"
  by (rule commit_step_ix) (auto simp: commit_ready_def intro!: repo_step_write prod_eqI)

lemma commit_step_read: "commit_ready E \<Longrightarrow> commit_step E a b \<Longrightarrow> commit_step E a (snd (on_ix (read_chunk X h) b))"
  by (rule commit_step_ix) (use store_reads_chunk [of X h] in \<open>auto simp: commit_ready_def store_reads_def intro!: repo_step_read\<close>)

lemmas commit_step_intros = commit_step_then commit_step_map_err commit_step_vo commit_step_disk commit_step_note
  commit_step_write commit_step_read touches_write_to_staging touches_atomic_commit touches_write_snapshot
  touches_cleanup_staging touches_create_staging

lemma commit_step_write_chunks: "commit_ready E \<Longrightarrow> commit_step E a b \<Longrightarrow> commit_step E a (snd (write_chunks E k cs b))"
proof (induction cs arbitrary: k b)
  case (Cons c cs)
  obtain h d where "c = (h, d)" by fastforce
  then show ?case using Cons by (simp, intro commit_step_intros) (simp_all add: Cons)
qed simp

lemma commit_step_verify: "commit_ready E \<Longrightarrow> commit_step E a b \<Longrightarrow> commit_step E a (snd (verify_chunks E cs b))"
proof (induction cs arbitrary: b)
  case (Cons c cs)
  obtain h d where "c = (h, d)" by fastforce
  then show ?case using Cons by (simp, intro commit_step_intros) (simp_all add: Cons)
qed simp

lemma commit_step_finish:
  assumes "commit_ready E" and "commit_step E a b" and "staging_in (ce_crates E) (ce_layout E) (ce_repo E) sd"
  shows "commit_step E a (snd (commit_finish E sd m sn b))"
  unfolding commit_finish_def Let_def
  by (cases "sj_to_vec (ce_sjson E) (snapshot_to_commit E m sn)"; simp only: option.case)
     (intro commit_step_intros assms; simp)+

lemma commit_step_staged:
  assumes "commit_ready E" and "commit_step E a b" and "staging_in (ce_crates E) (ce_layout E) (ce_repo E) sd"
  shows "commit_step E a (snd (commit_staged E sd m sn chunks b))"
  unfolding commit_staged_def fail_commit_def start_writing_def
  by (cases "mj_to_vec (ce_mjson E) m"; simp only: option.case)
     (intro commit_step_intros commit_step_write_chunks commit_step_verify assms; simp add: commit_step_finish assms commit_step_intros)+

lemma commit_step_backup:
  assumes "commit_ready E" and "commit_step E a b"
  shows "commit_step E a (snd (commit_backup E parent m sn chunks b))"
  unfolding commit_backup_def
proof (intro commit_step_then commit_step_map_err commit_step_vo commit_step_note assms)
  fix s2 assume s2: "commit_step E a s2"
  obtain r3 s3 where c: "on_disk (create_staging (ce_crates E) (ce_layout E) (ce_repo E) (ce_vid E)) s2 = (r3, s3)" by fastforce
  have "commit_step E a s3"
    using commit_step_disk [OF assms(1) s2, of "create_staging (ce_crates E) (ce_layout E) (ce_repo E) (ce_vid E)"] c touches_create_staging by simp
  moreover have "staging_in (ce_crates E) (ce_layout E) (ce_repo E) sd" if "r3 = Inr sd" for sd
    using c that create_staging_in by (auto simp: on_disk_def split: prod.splits)
  ultimately show "commit_step E a (snd (case on_disk (create_staging (ce_crates E) (ce_layout E) (ce_repo E) (ce_vid E)) s2 of
      (Inl e, st) \<Rightarrow> (Inr (CommitFailure (ce_vid E) (StagingCreationFailed e)), st)
    | (Inr staging, st) \<Rightarrow> commit_staged E staging m sn chunks st))"
    using c commit_step_staged [OF assms(1)] by (cases r3) auto
qed

subsection \<open>Steps of the server\<close>

definition server_good :: "server_env \<Rightarrow> server_state \<Rightarrow> bool" where
  "server_good E st \<longleftrightarrow> (\<forall>rid. disk_good (sv_crates E) (sv_ijson E) (ss_layout st) rid (ss_fs st)) \<and>
     (\<forall>rid op. map_of (ss_open st) rid = Some op \<longrightarrow>
        index_good (sv_crates E) (ss_layout st) rid (op_store_index op) \<and> journal_good (sv_crates E) (ss_layout st) rid (op_journal op))"

text \<open>The open repository \<open>rid\<close> stores the bytes \<open>d\<close> under \<open>h\<close>.\<close>

definition stored :: "server_env \<Rightarrow> server_state \<Rightarrow> uuid \<Rightarrow> chunk_hash \<Rightarrow> bytes \<Rightarrow> bool" where
  "stored E st rid h d \<longleftrightarrow> (\<exists>op. map_of (ss_open st) rid = Some op \<and>
     chunk_content (sv_crates E) (op_store_index op, ss_fs st) h = Some d)"

text \<open>The second index of an open repository, which only its verification reads: good, or the one the
  repository had.\<close>

definition second_kept :: "server_env \<Rightarrow> server_state \<Rightarrow> server_state \<Rightarrow> bool" where
  "second_kept E a b \<longleftrightarrow> (\<forall>rid op. map_of (ss_open b) rid = Some op \<longrightarrow> index_good (sv_crates E) (ss_layout b) rid (op_index op) \<or>
     (\<exists>op'. map_of (ss_open a) rid = Some op' \<and> op_index op' = op_index op))"

lemma second_kept_refl [simp]: "second_kept E a a"
  by (auto simp: second_kept_def)

lemma second_kept_trans: "second_kept E a b \<Longrightarrow> second_kept E b c \<Longrightarrow> ss_layout c = ss_layout b \<Longrightarrow> second_kept E a c"
  unfolding second_kept_def by metis

definition server_step :: "server_env \<Rightarrow> (uuid \<times> chunk_hash) set \<Rightarrow> server_state \<Rightarrow> server_state \<Rightarrow> bool" where
  "server_step E G a b \<longleftrightarrow> server_good E b \<and> ss_layout b = ss_layout a \<and>
     (\<forall>rid h d. (rid, h) \<notin> G \<longrightarrow> stored E a rid h d \<longrightarrow> stored E b rid h d) \<and>
     (\<forall>rid op. (\<exists>h. (rid, h) \<notin> G) \<longrightarrow> map_of (ss_open a) rid = Some op \<longrightarrow>
        (\<exists>op'. map_of (ss_open b) rid = Some op' \<and> op_index op' = op_index op)) \<and>
     second_kept E a b"

definition env_good :: "server_env \<Rightarrow> bool" where
  "env_good E \<longleftrightarrow> crates_good (sv_crates E) (sv_ijson E)"

lemma server_step_refl: "server_good E a \<Longrightarrow> server_step E G a a"
  by (simp add: server_step_def)

lemma server_step_trans:
  assumes ab: "server_step E G a b" and bc: "server_step E G b c"
  shows "server_step E G a c"
proof -
  have "second_kept E a c" using ab bc second_kept_trans by (auto simp: server_step_def)
  moreover have "\<exists>op'. map_of (ss_open c) rid = Some op' \<and> op_index op' = op_index op"
    if open_a: "\<exists>h. (rid, h) \<notin> G" "map_of (ss_open a) rid = Some op" for rid op
  proof -
    obtain o1 where "map_of (ss_open b) rid = Some o1" "op_index o1 = op_index op"
      using ab open_a unfolding server_step_def by blast
    then show ?thesis using bc open_a(1) unfolding server_step_def by metis
  qed
  ultimately show ?thesis using ab bc by (simp add: server_step_def)
qed

lemma server_step_good: "server_step E G a b \<Longrightarrow> server_good E b"
  by (simp add: server_step_def)

lemma server_good_repo:
  "server_good E st \<Longrightarrow> map_of (ss_open st) rid = Some op \<Longrightarrow>
   repo_good (sv_crates E) (sv_ijson E) (ss_layout st) rid (op_store_index op) (op_journal op) (ss_fs st)"
  by (simp add: server_good_def repo_good_def)

text \<open>A step of one open repository is a step of the server: the others live under other roots.\<close>

lemma other_content:
  assumes "env_good E" and "touches (in_repo (sv_crates E) l rid) s s'" and "r \<noteq> rid" and "index_good (sv_crates E) l r i"
  shows "chunk_content (sv_crates E) (i, s') h = chunk_content (sv_crates E) (i, s) h"
proof -
  have inj: "inj (hex_encode (sv_crates E))" "inj (uuid_to_string (sv_crates E))"
    using assms(1) by (simp_all add: env_good_def crates_goodD)
  show "chunk_content (sv_crates E) (i, s') h = chunk_content (sv_crates E) (i, s) h"
    using touches_file [OF assms(2) other_places(2) [OF inj(2) assms(3)]] by (simp add: content_at [OF inj(1) assms(4)])
qed

lemma other_disk:
  assumes "env_good E" and "touches (in_repo (sv_crates E) l rid) s s'" and "r \<noteq> rid" and "disk_good (sv_crates E) (sv_ijson E) l r s"
  shows "disk_good (sv_crates E) (sv_ijson E) l r s'"
proof -
  have "inj (uuid_to_string (sv_crates E))" using assms(1) by (simp add: env_good_def crates_goodD)
  from touches_file [OF assms(2) other_places(1) [OF this assms(3)]] show ?thesis by (rule disk_good_cong) (rule assms(4))
qed

lemma server_step_repo:
  assumes E: "env_good E" and b: "server_good E b" and op: "map_of (ss_open b) rid = Some op"
    and step: "repo_step (sv_crates E) (sv_ijson E) (ss_layout b) rid K (op_store_index op, op_journal op, ss_fs b) (op_store_index op', op_journal op', ss_fs c)"
    and c: "ss_layout c = ss_layout b" "map_of (ss_open c) = (map_of (ss_open b))(rid \<mapsto> op')"
    and index: "op_index op' = op_index op"
    and G: "\<And>h. h \<in> K \<Longrightarrow> (rid, h) \<in> G"
  shows "server_step E G b c"
proof -
  have t: "touches (in_repo (sv_crates E) (ss_layout b) rid) (ss_fs b) (ss_fs c)"
    and g: "repo_good (sv_crates E) (sv_ijson E) (ss_layout b) rid (op_store_index op') (op_journal op') (ss_fs c)"
    and k: "\<And>h d. h \<notin> K \<Longrightarrow> chunk_content (sv_crates E) (op_store_index op, ss_fs b) h = Some d \<Longrightarrow>
         chunk_content (sv_crates E) (op_store_index op', ss_fs c) h = Some d"
    using step by (auto simp: repo_step_def)
  have "disk_good (sv_crates E) (sv_ijson E) (ss_layout c) r (ss_fs c)" for r
    using g other_disk [OF E t, of r] b c(1) by (cases "r = rid") (auto simp: repo_good_def server_good_def)
  then have good: "server_good E c"
    using g b c by (auto simp: server_good_def repo_good_def split: if_splits)
  have "stored E c r h d" if G': "(r, h) \<notin> G" and st: "stored E b r h d" for r h d
  proof (cases "r = rid")
    case True
    then show ?thesis using that k G op c(2) by (auto simp: stored_def)
  next
    case False
    obtain o1 where o1: "map_of (ss_open b) r = Some o1" "chunk_content (sv_crates E) (op_store_index o1, ss_fs b) h = Some d"
      using st by (auto simp: stored_def)
    then have "chunk_content (sv_crates E) (op_store_index o1, ss_fs c) h = Some d"
      using other_content [OF E t False, of "op_store_index o1"] b by (simp add: server_good_def)
    then show ?thesis using False o1(1) c(2) by (simp add: stored_def)
  qed
  then show ?thesis using good c index op by (simp add: server_step_def second_kept_def)
qed

lemma stored_frame:
  assumes "env_good E" and "server_good E b" and "stored E b q h d" and "map_of (ss_open c) q = map_of (ss_open b) q"
    and "file_at (ss_fs c) (bucket_path (sv_crates E) (ss_layout b) q h) = file_at (ss_fs b) (bucket_path (sv_crates E) (ss_layout b) q h)"
  shows "stored E c q h d"
proof -
  obtain op where op: "map_of (ss_open b) q = Some op" "chunk_content (sv_crates E) (op_store_index op, ss_fs b) h = Some d"
    using assms(3) by (auto simp: stored_def)
  have "inj (hex_encode (sv_crates E))" using assms(1) by (simp add: env_good_def crates_goodD)
  from content_at [OF this, of "ss_layout b" q "op_store_index op"] show ?thesis
    using op assms(2,4,5) by (auto simp: stored_def server_good_def split: if_splits)
qed

text \<open>A disk step away from every index file and bucket.\<close>

definition side_step :: "server_env \<Rightarrow> layout \<Rightarrow> fsys \<Rightarrow> fsys \<Rightarrow> bool" where
  "side_step E l s s' \<longleftrightarrow> (\<forall>rid. file_at s' (index_path (sv_crates E) l rid) = file_at s (index_path (sv_crates E) l rid) \<and>
     (\<forall>h. file_at s' (bucket_path (sv_crates E) l rid h) = file_at s (bucket_path (sv_crates E) l rid h)))"

lemma side_step_touches:
  "touches Z s s' \<Longrightarrow> (\<And>r. \<not> Z (index_path (sv_crates E) l r)) \<Longrightarrow> (\<And>r h. \<not> Z (bucket_path (sv_crates E) l r h)) \<Longrightarrow> side_step E l s s'"
  by (simp add: side_step_def touches_file)

lemma side_step_reads: "lookup s' = lookup s \<Longrightarrow> side_step E l s s'"
  using file_at_lookup [of s' s] by (simp add: side_step_def)

lemma server_step_side:
  assumes "env_good E" and "server_good E b" and "side_step E (ss_layout b) (ss_fs b) (ss_fs c)"
    and "ss_layout c = ss_layout b" and "map_of (ss_open c) = map_of (ss_open b)"
  shows "server_step E G b c"
proof -
  have inj: "inj (hex_encode (sv_crates E))" using assms(1) by (simp add: env_good_def crates_goodD)
  have "server_good E c" using assms(2-5) by (simp add: server_good_def side_step_def disk_good_def)
  moreover have "chunk_content (sv_crates E) (op_store_index op, ss_fs c) h = chunk_content (sv_crates E) (op_store_index op, ss_fs b) h"
    if "map_of (ss_open b) rid = Some op" for rid op h
    using that assms(2,3) content_at [OF inj, of "ss_layout b" rid "op_store_index op"] by (simp add: server_good_def side_step_def)
  ultimately show ?thesis using assms(4,5) by (auto simp: server_step_def second_kept_def stored_def)
qed

subsection \<open>Opening a repository\<close>

lemma index_open_good:
  "disk_good X J l rid s \<Longrightarrow> index_open J (index_path X l rid) s = (Inr i, s') \<Longrightarrow> index_good X l rid i"
  by (auto simp: index_open_def index_good_def result_iffs disk_good_def file_at_def entries_good_def
      split: if_splits option.splits dest!: fs_read_Ok)

lemma open_repository_good:
  assumes "disk_good X J (rm_layout m) rid s" and "open_repository X J R m rid s = (Inr h, s')"
  shows "index_good X (rm_layout m) rid (rh_index h)" and "rh_layout h = rm_layout m"
proof -
  obtain repo s1 i where "read_meta R (meta_path X (rm_layout m) rid) s = (Inr repo, s1)"
    and i: "index_open J (index_path X (rm_layout m) rid) s1 = (Inr i, s')" and h: "rh_index h = i" "rh_layout h = rm_layout m"
    using assms(2) by (auto simp: open_repository_def Let_def result_iffs split: if_splits)
  then have "file_at s1 = file_at s" using file_at_lookup [OF read_meta_lookup] by blast
  then show "index_good X (rm_layout m) rid (rh_index h)"
    using index_open_good [OF _ i] assms(1) h(1) by (simp add: disk_good_def)
  show "rh_layout h = rm_layout m" by (rule h)
qed

lemma journal_open_good:
  "journal_open (journal_path X l rid) s = (Inr j, s') \<Longrightarrow> journal_good X l rid j"
  by (auto simp: journal_open_def open_with_rotation_def journal_good_def journal_path_def result_iffs)

lemma side_step_journal: "side_step E l s (snd (journal_open (journal_path (sv_crates E) l rid) s))"
proof (rule side_step_touches [where Z = "prefix (journal_dir (sv_crates E) l rid)"])
  show "touches (prefix (journal_dir (sv_crates E) l rid)) s (snd (journal_open (journal_path (sv_crates E) l rid) s))"
    by (auto simp: journal_open_def open_with_rotation_def journal_path_def intro!: touches_and_then touches_open_append)
qed simp_all

lemma server_step_disk:
  assumes "env_good E" and "server_step E G a b" and "side_step E (ss_layout b) (ss_fs b) (snd (f (ss_fs b)))"
  shows "server_step E G a (snd (on_disk_of f b))"
proof -
  have "server_step E G b (snd (on_disk_of f b))"
    by (rule server_step_side [OF assms(1) server_step_good [OF assms(2)]])
       (use assms(3) in \<open>auto simp: on_disk_of_def split: prod.splits\<close>)
  then show ?thesis using assms(2) by (rule server_step_trans [rotated])
qed

lemma server_step_reads: "env_good E \<Longrightarrow> server_step E G a b \<Longrightarrow> fs_reads f \<Longrightarrow> server_step E G a (snd (on_disk_of f b))"
  by (rule server_step_disk) (simp_all add: fs_reads_def side_step_reads)

lemma server_step_cached:
  assumes "server_step E G a b" and "map_of (ss_open b) rid = None"
    and "index_good (sv_crates E) (ss_layout b) rid (op_store_index op)" and "journal_good (sv_crates E) (ss_layout b) rid (op_journal op)"
    and "index_good (sv_crates E) (ss_layout b) rid (op_index op)"
  shows "server_step E G a (b\<lparr>ss_open := AList.update rid op (ss_open b)\<rparr>)"
proof (rule server_step_trans [OF assms(1)])
  have "server_good E b" using assms(1) by (rule server_step_good)
  then show "server_step E G b (b\<lparr>ss_open := AList.update rid op (ss_open b)\<rparr>)"
    using assms(2-5) by (auto simp: server_step_def server_good_def stored_def map_of_update second_kept_def)
qed

lemma on_disk_of_Ok: "on_disk_of f st = (r, st') \<Longrightarrow> \<exists>s. f (ss_fs st) = (r, s) \<and> st' = st\<lparr>ss_fs := s\<rparr>"
  by (auto simp: on_disk_of_def split: prod.splits)

lemma server_step_opened:
  assumes E: "env_good E" and b: "server_step E G a b"
  shows "server_step E G a (snd (opened E rid b))"
proof (cases "map_of (ss_open b) rid")
  case None
  let ?X = "sv_crates E" and ?l = "ss_layout b"
  have g: "server_good E b" using b by (rule server_step_good)
  let ?open = "on_disk_of (open_repository ?X (sv_ijson E) (sv_rjson E) (ss_manager b) rid) b"
  have c: "server_step E G a (snd ?open)" using server_step_reads [OF E b fs_reads_open] .
  show ?thesis
    unfolding opened_def open_repo_handle_def None option.case snd_map_err
  proof (rule and_then_inv [where P = "server_step E G a", OF c])
    fix h c assume o: "?open = (Inr h, c)"
    then obtain s where op: "open_repository ?X (sv_ijson E) (sv_rjson E) (ss_manager b) rid (ss_fs b) = (Inr h, s)"
      and c': "c = b\<lparr>ss_fs := s\<rparr>" using on_disk_of_Ok by blast
    note h = open_repository_good [OF _ op]
    have hg: "index_good ?X ?l rid (rh_index h)" "rh_layout h = ?l" using h g by (simp_all add: server_good_def)
    have sc: "server_step E G a c" using c o by simp
    let ?ix = "on_disk_of (index_open (sv_ijson E) (index_path ?X (rh_layout h) rid)) c"
    have d: "server_step E G a (snd ?ix)" using server_step_reads [OF E sc fs_reads_index_open] .
    show "server_step E G a (snd (and_then (map_err RmIndex ?ix) (\<lambda>index st.
        and_then (map_err (\<lambda>_. RmIoOther) (on_disk_of (journal_open (journal_path ?X (rh_layout h) rid)) st))
          (\<lambda>journal st. let op = \<lparr>op_store_index = rh_index h, op_index = index, op_journal = journal\<rparr> in
             (Inr op, st\<lparr>ss_open := AList.update rid op (ss_open st)\<rparr>)))))"
    proof (rule and_then_inv [where P = "server_step E G a"])
      show "server_step E G a (snd (map_err RmIndex ?ix))" using d by simp
      fix i d assume ix: "map_err RmIndex ?ix = (Inr i, d)"
      obtain t where "index_open (sv_ijson E) (index_path ?X (rh_layout h) rid) (ss_fs c) = (Inr i, t)"
        using ix on_disk_of_Ok by (fastforce simp: map_err_Ok_iff)
      then have ig: "index_good ?X ?l rid i"
        using index_open_good server_step_good [OF sc] hg(2) c' by (fastforce simp: server_good_def)
      from ix have sd: "server_step E G a d" and d': "ss_open d = ss_open b" "ss_manager d = ss_manager b"
        using d on_disk_of_other(1,2) [of "index_open (sv_ijson E) (index_path ?X (rh_layout h) rid)" c] c'
        by (auto simp: map_err_Ok_iff)
      let ?jr = "on_disk_of (journal_open (journal_path ?X (rh_layout h) rid)) d"
      have e: "server_step E G a (snd ?jr)"
        using server_step_disk [OF E sd] side_step_journal [of E "ss_layout d" "ss_fs d" rid] d'(2) hg(2) by simp
      show "server_step E G a (snd (and_then (map_err (\<lambda>_. RmIoOther) ?jr)
          (\<lambda>journal st. let op = \<lparr>op_store_index = rh_index h, op_index = i, op_journal = journal\<rparr> in
             (Inr op, st\<lparr>ss_open := AList.update rid op (ss_open st)\<rparr>))))"
      proof (rule and_then_inv [where P = "server_step E G a"])
        show "server_step E G a (snd (map_err (\<lambda>_. RmIoOther) ?jr))" using e by simp
        fix j e' assume "map_err (\<lambda>_. RmIoOther) ?jr = (Inr j, e')"
        then have jr: "?jr = (Inr j, e')" by (simp add: map_err_Ok_iff)
        then have "ss_open e' = ss_open b" "ss_manager e' = ss_manager b" "journal_good ?X ?l rid j"
          using on_disk_of_Ok [OF jr] d' hg(2) by (auto dest: journal_open_good)
        then show "server_step E G a (snd (let op = \<lparr>op_store_index = rh_index h, op_index = i, op_journal = j\<rparr> in
             (Inr op, e'\<lparr>ss_open := AList.update rid op (ss_open e')\<rparr>)))"
          unfolding Let_def snd_conv
          by (intro server_step_cached) (use e jr hg(1) ig None in simp_all)
      qed
    qed
  qed
qed (simp add: opened_def open_repo_handle_def b)

subsection \<open>Working on an open repository\<close>

definition store_step :: "server_env \<Rightarrow> layout \<Rightarrow> uuid \<Rightarrow> chunk_hash set \<Rightarrow> (ist \<Rightarrow> 'a \<times> ist) \<Rightarrow> bool" where
  "store_step E l rid K f \<longleftrightarrow> (\<forall>i j s. repo_good (sv_crates E) (sv_ijson E) l rid i j s \<longrightarrow>
     repo_step (sv_crates E) (sv_ijson E) l rid K (i, j, s) (fst (snd (f (i, s))), j, snd (snd (f (i, s)))))"

lemma store_step_reads: "env_good E \<Longrightarrow> store_reads f \<Longrightarrow> store_step E l rid K f"
  by (auto simp: store_step_def store_reads_def env_good_def intro!: repo_step_read)

lemma store_step_put: "env_good E \<Longrightarrow> store_step E l rid K (put_and_count E l rid now h d)"
  using repo_step_write by (auto simp: store_step_def put_and_count_def put_chunk_def env_good_def and_then_def map_err_def
      split: prod.splits sum.splits)

lemma store_step_delete: "env_good E \<Longrightarrow> h \<in> K \<Longrightarrow> store_step E l rid K (ops_delete_chunk (sv_crates E) (sv_ijson E) h)"
  using repo_step_delete repo_step_refl by (auto simp: store_step_def ops_delete_chunk_def env_good_def map_err_def Let_def
      split: prod.splits sum.splits)

lemma server_step_store:
  assumes E: "env_good E" and b: "server_step E G a b" and op: "map_of (ss_open b) rid = Some op"
    and f: "store_step E (ss_layout b) rid K f" and K: "\<And>h. h \<in> K \<Longrightarrow> (rid, h) \<in> G"
  shows "server_step E G a (snd (on_store rid op f b))"
proof -
  obtain r i s where f': "f (op_store_index op, ss_fs b) = (r, (i, s))" by (metis prod_cases3)
  have g: "server_good E b" using b by (rule server_step_good)
  have "repo_step (sv_crates E) (sv_ijson E) (ss_layout b) rid K (op_store_index op, op_journal op, ss_fs b) (i, op_journal op, s)"
    using f server_good_repo [OF g op] f' unfolding store_step_def by fastforce
  then have "server_step E G b (snd (on_store rid op f b))"
    by (intro server_step_repo [OF E g op, where op' = "op\<lparr>op_store_index := i\<rparr>"]) (auto simp: on_store_def f' map_of_update fun_eq_iff K)
  then show ?thesis by (rule server_step_trans [OF b])
qed

lemma server_step_commit:
  assumes E: "env_good E" and b: "server_step E G a b" and op: "map_of (ss_open b) rid = Some op"
  shows "server_step E G a (snd (on_commit rid op (commit_backup (commit_env_of E C (ss_layout b) rid) parent m sn chunks) b))"
proof -
  let ?E = "commit_env_of E C (ss_layout b) rid"
  let ?a = "\<lparr>cs_vo = ss_versions b, cs_ix = op_store_index op, cs_jr = op_journal op, cs_fs = ss_fs b\<rparr>"
  obtain r c where f: "commit_backup ?E parent m sn chunks ?a = (r, c)" by fastforce
  have g: "server_good E b" using b by (rule server_step_good)
  have "commit_step ?E ?a ?a"
    using server_good_repo [OF g op] by (simp add: commit_step_def commit_env_of_def repo_step_refl)
  then have "commit_step ?E ?a c"
    using commit_step_backup [of ?E ?a ?a parent m sn chunks] f E by (simp add: commit_ready_def commit_env_of_def env_good_def)
  then have "repo_step (sv_crates E) (sv_ijson E) (ss_layout b) rid {} (op_store_index op, op_journal op, ss_fs b) (cs_ix c, cs_jr c, cs_fs c)"
    by (simp add: commit_step_def commit_env_of_def)
  then have "server_step E G b (snd (on_commit rid op (commit_backup ?E parent m sn chunks) b))"
    by (intro server_step_repo [OF E g op, where op' = "op\<lparr>op_store_index := cs_ix c, op_journal := cs_jr c\<rparr>" and K = "{}"])
       (auto simp: on_commit_def f map_of_update fun_eq_iff)
  then show ?thesis by (rule server_step_trans [OF b])
qed

subsection \<open>Creating and deleting repositories\<close>

lemma touches_create_all: "touches Z s (snd (create_all ps s))"
  by (induction ps arbitrary: s) (auto intro!: touches_and_then touches_create_dir_all)

lemma side_step_create:
  "side_step E (rm_layout m) s (snd (snd (create_repository (sv_crates E) J R fresh now name config (m, s))))"
proof (rule side_step_touches [where Z = "prefix (meta_dir (sv_crates E) (rm_layout m) fresh)"])
  let ?X = "sv_crates E" and ?l = "rm_layout m" and ?Z = "prefix (meta_dir (sv_crates E) (rm_layout m) fresh)"
  have init: "touches ?Z s (snd (init_repository ?X ?l fresh s))" for s
    by (auto simp: init_repository_def format_version_path_def simp del: create_all.simps
        intro!: touches_and_then touches_create_all touches_write)
  have opn: "touches ?Z s (snd (index_open J p s))" for s p
    using fs_reads_index_open [of J p] by (simp add: fs_reads_def touches_def)
  have meta: "touches ?Z s (snd (fs_write (meta_path ?X ?l fresh) json s))" for s json
    by (rule touches_write) (simp add: meta_path_def)
  show "touches ?Z s (snd (snd (create_repository ?X J R fresh now name config (m, s))))"
    using init [of s] opn meta
    by (auto simp: create_repository_def Let_def split: prod.splits sum.splits option.splits) (metis snd_conv touches_trans)+
qed simp_all

lemma create_layout: "rm_layout (fst (snd (create_repository X J R fresh now name config (m, s)))) = rm_layout m"
  by (auto simp: create_repository_def rm_layout_def Let_def split: prod.splits sum.splits option.splits)

lemma server_step_create:
  assumes E: "env_good E" and b: "server_step E G a b"
  shows "server_step E G a (snd (on_manager (create_repository (sv_crates E) (sv_ijson E) (sv_rjson E) fresh now name config) b))"
proof (rule server_step_trans [OF b])
  let ?f = "create_repository (sv_crates E) (sv_ijson E) (sv_rjson E) fresh now name config"
  obtain r m s where f: "?f (ss_manager b, ss_fs b) = (r, (m, s))" by (metis prod_cases3)
  show "server_step E G b (snd (on_manager ?f b))"
    by (rule server_step_side [OF E server_step_good [OF b]])
       (use f side_step_create [of E "ss_manager b" "ss_fs b" "sv_ijson E" "sv_rjson E" fresh now name config]
         create_layout [of "sv_crates E" "sv_ijson E" "sv_rjson E" fresh now name config "ss_manager b" "ss_fs b"]
         in \<open>simp_all add: on_manager_def\<close>)
qed

lemma delete_repository_effect:
  assumes "delete_repository X R now rid (m, s) = (r, (m', s'))"
  shows "rm_layout m' = rm_layout m"
    and "lookup s' = lookup s \<or> (\<forall>q. lookup s' q = (if in_repo X (rm_layout m) rid q then None else lookup s q))"
proof -
  let ?root = "repo_root X (rm_layout m) rid"
  obtain c s1 where 1: "(if path_exists s (meta_path X (rm_layout m) rid)
      then and_then (read_meta R (meta_path X (rm_layout m) rid) s)
        (\<lambda>repo s. if repo_is_immutable repo now then (Inl (RmImmutable rid), s) else (Inr (), s))
      else (Inr (), s)) = (c, s1)" by fastforce
  then have s1: "lookup s1 = lookup s"
    using read_meta_lookup by (fastforce simp: and_then_def split: if_splits prod.splits sum.splits)
  obtain c2 s2 where 2: "fs_remove_dir_all ?root s1 = (c2, s2)" by fastforce
  have "lookup s2 = lookup s1 \<or> (\<forall>q. lookup s2 q = (if prefix ?root q then None else lookup s1 q))"
    using 2 fs_remove_dir_all_Ok [of ?root s1 s2] fs_remove_dir_all_Err [of ?root s1 _ s2] by (cases c2) auto
  then show "rm_layout m' = rm_layout m"
    "lookup s' = lookup s \<or> (\<forall>q. lookup s' q = (if in_repo X (rm_layout m) rid q then None else lookup s q))"
    using assms 1 2 s1 unfolding delete_repository_def Let_def
    by (auto simp: rm_layout_def simp del: if_split split: if_splits sum.splits)
qed

lemma server_step_remove:
  assumes E: "env_good E" and b: "server_step E G a b" and G: "\<And>h. (rid, h) \<in> G"
  shows "server_step E G a (snd (on_manager (delete_repository (sv_crates E) (sv_rjson E) now rid) (close_repo rid b)))"
proof (rule server_step_trans [OF b])
  let ?X = "sv_crates E"
  obtain r m s where f: "delete_repository ?X (sv_rjson E) now rid (ss_manager b, ss_fs b) = (r, (m, s))" by (metis prod_cases3)
  note eff = delete_repository_effect [OF f]
  define c where "c = snd (on_manager (delete_repository ?X (sv_rjson E) now rid) (close_repo rid b))"
  have c: "ss_layout c = ss_layout b" "ss_fs c = s" "map_of (ss_open c) = (map_of (ss_open b))(rid := None)"
    using f eff(1) by (auto simp: c_def on_manager_def close_repo_def map_of_delete fun_eq_iff)
  have g: "server_good E b" using b by (rule server_step_good)
  have inj: "inj (uuid_to_string ?X)" "inj (hex_encode ?X)" using E by (simp_all add: env_good_def crates_goodD)
  have "file_at s p \<in> {None, file_at (ss_fs b) p}" for p using eff(2) by (auto simp: file_at_def)
  then have "disk_good ?X (sv_ijson E) (ss_layout b) q s" for q
    using g by (auto simp: server_good_def disk_good_def) (metis option.distinct(1) insertE singletonD)
  then have good: "server_good E c" using g c by (auto simp: server_good_def split: if_splits)
  have "file_at s (bucket_path ?X (ss_layout b) q h) = file_at (ss_fs b) (bucket_path ?X (ss_layout b) q h)" if "q \<noteq> rid" for q h
    using eff(2) other_places(2) [OF inj(1) that] by (auto simp: file_at_def)
  then have "stored E c q h d" if "q \<noteq> rid" "stored E b q h d" for q h d
    using stored_frame [OF E g that(2)] that(1) c by simp
  moreover have "second_kept E b c" using c by (auto simp: second_kept_def split: if_splits)
  ultimately show "server_step E G b (snd (on_manager (delete_repository ?X (sv_rjson E) now rid) (close_repo rid b)))"
    using good c G unfolding c_def [symmetric] server_step_def by (metis fun_upd_other)
qed

lemma server_step_close:
  assumes "server_step E G a b" and "\<And>h. (rid, h) \<in> G"
  shows "server_step E G a (close_repo rid b)"
proof (rule server_step_trans [OF assms(1)])
  show "server_step E G b (close_repo rid b)"
    using server_step_good [OF assms(1)] assms(2)
    by (auto simp: server_step_def server_good_def stored_def close_repo_def map_of_delete second_kept_def split: if_splits)
qed

subsection \<open>Every call\<close>

text \<open>What a call gives up: the chunks of the repository it closes or deletes, the chunk it deletes.\<close>

fun given_up :: "server_env \<Rightarrow> rpc \<Rightarrow> (uuid \<times> chunk_hash) set" where
  "given_up E (RepositoryClose r) = {(rid, h). uuid_parse (sv_crates E) r = Some rid}"
| "given_up E (RepositoryDelete r) = {(rid, h). uuid_parse (sv_crates E) r = Some rid}"
| "given_up E (ChunkDelete r k) = {(rid, h). uuid_parse (sv_crates E) r = Some rid \<and> pb_parse_hash E k = Some h}"
| "given_up E _ = {}"

lemma server_step_bind:
  "server_step E G a (snd r) \<Longrightarrow> (\<And>x b. server_step E G a b \<Longrightarrow> server_step E G a (snd (k x b))) \<Longrightarrow>
   server_step E G a (snd (and_then r k))"
  by (rule and_then_inv)

lemma server_step_the_repo_then:
  assumes "server_step E G a b" and "\<And>rid. uuid_parse (sv_crates E) r = Some rid \<Longrightarrow> server_step E G a (snd (k rid b))"
  shows "server_step E G a (snd (and_then (the_repo E r b) k))"
  using assms by (auto simp: the_repo_def ok_or_def split: option.splits)

lemma server_step_ok_or_then:
  assumes "server_step E G a b" and "\<And>x. v = Some x \<Longrightarrow> server_step E G a (snd (k x b))"
  shows "server_step E G a (snd (and_then (ok_or e v b) k))"
  using assms by (auto simp: ok_or_def split: option.splits)

lemma server_step_version_then:
  assumes "server_step E G a b" and "\<And>x. server_step E G a (snd (k x b))"
  shows "server_step E G a (snd (and_then (the_version E v b) k))"
  using assms by (auto simp: the_version_def ok_or_def and_then_def split: option.splits sum.splits)

lemma server_step_opened_then:
  assumes "env_good E" and "server_step E G a b"
    and "\<And>op c. server_step E G a c \<Longrightarrow> map_of (ss_open c) rid = Some op \<Longrightarrow> server_step E G a (snd (k op c))"
  shows "server_step E G a (snd (and_then (opened E rid b) k))"
  by (rule and_then_inv [where P = "server_step E G a"]) (use server_step_opened assms opened_in in auto)

lemma server_step_stat: "env_good E \<Longrightarrow> server_step E G a b \<Longrightarrow> server_step E G a (snd (stat_now E C rid b))"
  by (simp add: stat_now_def server_step_reads fs_reads_stat)

lemma server_step_map_err: "server_step E G a (snd r) \<Longrightarrow> server_step E G a (snd (map_err f r))"
  by simp

lemma server_step_read_store:
  "env_good E \<Longrightarrow> server_step E G a b \<Longrightarrow> map_of (ss_open b) rid = Some op \<Longrightarrow> store_reads f \<Longrightarrow> server_step E G a (snd (on_store rid op f b))"
  by (rule server_step_store [where K = "{}"]) (auto intro: store_step_reads)

lemma server_step_read_snapshots:
  "env_good E \<Longrightarrow> server_step E G a b \<Longrightarrow> server_step E G a (snd (read_snapshots E rs rid vs b))"
proof (induction vs arbitrary: b)
  case (Cons v vs)
  let ?d = "on_disk_of (read_snapshot (sv_crates E) (sv_sjson E) (ss_layout b) rid (v_snapshot_id v)) b"
  have "server_step E G a (snd ?d)" by (rule server_step_reads) (simp_all add: Cons.prems fs_reads_read_snapshot)
  then have "server_step E G a (snd (read_snapshots E rs rid vs (snd ?d)))" using Cons by blast
  then show ?case by (simp add: prod.case_eq_if)
qed simp

lemmas server_step_chain = server_step_the_repo_then server_step_ok_or_then server_step_version_then server_step_opened_then
  server_step_bind [OF server_step_stat] server_step_bind [OF server_step_map_err [OF server_step_reads]]
  server_step_bind [OF server_step_read_store] server_step_bind [OF server_step_map_err [OF server_step_read_store]]

lemma server_step_reading:
  assumes "env_good E" and "server_good E st" and "open_to_all call" and "\<forall>r. call \<noteq> RepositoryClose r"
  shows "server_step E G st (snd (serve E C md call st))"
proof (cases "gate E C md st call")
  case (Inl e)
  then show ?thesis by (simp add: serve_gated server_step_refl assms)
next
  case (Inr cv)
  then have ok: "require_auth (sv_auth E) (cv_now C ''auth'' 0) (ss_auth st) md = Inr cv"
    using assms(3) by (simp add: gate_def Let_def)
  note body = rpc_defs ok and_then_simps Let_def serve.simps
  note steps = server_step_chain server_step_refl assms(1,2) reading
  show ?thesis
  proof (cases call)
    case (SnapshotGet r x)
    show ?thesis unfolding SnapshotGet body
      by (intro steps; simp add: prod.case_eq_if server_step_reads reading assms)
  next
    case (SnapshotList r n)
    show ?thesis unfolding SnapshotList body
      by (intro steps; simp add: prod.case_eq_if server_step_read_snapshots assms)
  next
    case (ChunkExists r h)
    show ?thesis unfolding ChunkExists body by (intro steps; simp add: prod.case_eq_if)
  qed (use assms in simp_all, simp_all only: body, (intro steps; simp)+)
qed

text \<open>The calls that write.\<close>

lemma read_or_default_reads: "store_reads (read_or_default X hs)"
proof (induction hs)
  case (Cons h hs)
  show ?case
    unfolding store_reads_def
  proof (intro allI)
    fix i s
    obtain r i1 s1 where r: "read_chunk X h (i, s) = (r, (i1, s1))" by (metis prod_cases3)
    obtain q i2 s2 where q: "read_or_default X hs (i1, s1) = (q, (i2, s2))" by (metis prod_cases3)
    show "fst (snd (read_or_default X (h # hs) (i, s))) = i \<and> lookup (snd (snd (read_or_default X (h # hs) (i, s)))) = lookup s"
      using read_chunk_frame [OF r] Cons.IH q unfolding store_reads_def by (simp add: r) (metis fst_conv snd_conv)
  qed
qed (simp add: store_reads_def)

lemma on_store_same:
  assumes "store_reads f" and "map_of (ss_open b) rid = Some op"
  shows "map_of (ss_open (snd (on_store rid op f b))) rid = Some op"
proof -
  obtain r i s where f: "f (op_store_index op, ss_fs b) = (r, (i, s))" by (metis prod_cases3)
  then have "i = op_store_index op" using assms(1) unfolding store_reads_def by (metis fst_conv snd_conv)
  then show ?thesis by (simp add: on_store_def f map_of_update)
qed

lemma server_step_read_then:
  assumes "env_good E" and "server_step E G a b" and "map_of (ss_open b) rid = Some op" and "store_reads f"
    and "\<And>x c. server_step E G a c \<Longrightarrow> map_of (ss_open c) rid = Some op \<Longrightarrow> server_step E G a (snd (k x c))"
  shows "server_step E G a (snd (and_then (on_store rid op f b) k))"
  by (rule and_then_inv [where P = "server_step E G a"])
     (use server_step_read_store [OF assms(1-4)] on_store_same [OF assms(4,3)] assms(5) in auto)

lemma server_step_answer:
  "env_good E \<Longrightarrow> server_step E G a b \<Longrightarrow> server_step E G a (snd (commit_answer E r rid result b))"
  by (auto simp: commit_answer_def fs_reads_read_snapshot split: commit_result.splits sum.splits
      intro!: server_step_bind server_step_reads)

lemma server_step_put:
  assumes "env_good E" and "server_step E G a b" and "map_of (ss_open b) rid = Some op"
  shows "server_step E G a (snd (on_store rid op (put_and_count E (ss_layout b) rid now h d) b))"
  by (rule server_step_store [OF assms, where K = "{}"]) (simp_all add: store_step_put assms)

lemma server_step_batch:
  "env_good E \<Longrightarrow> server_step E G a b \<Longrightarrow> server_step E G a (snd (batch_loop E C k reqs infos good bad b))"
proof (induction reqs arbitrary: k infos good bad b)
  case (Cons q reqs)
  show ?case
  proof (cases q)
    case (Inr req)
    show ?thesis
      unfolding Inr batch_loop.simps
    proof (intro server_step_the_repo_then server_step_ok_or_then Cons.prems)
      fix rid chunk hash
      show "server_step E G a (snd (if blake3_hash (sv_crates E) (pcd_data chunk) \<noteq> hash
          then batch_loop E C (Suc k) reqs infos good (bad + 1) b
          else and_then (opened E rid b) (\<lambda>op st.
            case on_store rid op (put_and_count E (ss_layout st) rid (cv_now C ''chunk'' k) hash (pcd_data chunk)) st of
              (Inr count, st) \<Rightarrow> batch_loop E C (Suc k) reqs (infos @ [make_chunk_info (pcd_chunk_hash chunk) (pcd_size chunk)
                 (pcd_size chunk) count (cv_now C ''info'' k)]) (good + 1) bad st
            | (Inl _, st) \<Rightarrow> batch_loop E C (Suc k) reqs infos good (bad + 1) st)))"
      proof (cases "blake3_hash (sv_crates E) (pcd_data chunk) \<noteq> hash")
        case False
        have "server_step E G a (snd (case on_store rid op (put_and_count E (ss_layout c) rid (cv_now C ''chunk'' k) hash (pcd_data chunk)) c of
              (Inr count, st) \<Rightarrow> batch_loop E C (Suc k) reqs (infos @ [make_chunk_info (pcd_chunk_hash chunk) (pcd_size chunk)
                 (pcd_size chunk) count (cv_now C ''info'' k)]) (good + 1) bad st
            | (Inl _, st) \<Rightarrow> batch_loop E C (Suc k) reqs infos good (bad + 1) st))"
          if c: "server_step E G a c" "map_of (ss_open c) rid = Some op" for c op
          using server_step_put [OF Cons.prems(1) c, of "cv_now C ''chunk'' k" hash "pcd_data chunk"] Cons.IH [OF Cons.prems(1)]
          by (auto split: prod.splits sum.splits)
        then show ?thesis using False by (simp add: server_step_opened_then Cons.prems)
      qed (simp add: Cons)
    qed
  qed (simp add: Cons.prems)
qed simp

text \<open>Every call is a step that gives up at most what it closes or deletes.\<close>

lemma server_step_if: "(c \<Longrightarrow> server_step E G a (snd x)) \<Longrightarrow> (\<not> c \<Longrightarrow> server_step E G a (snd y)) \<Longrightarrow> server_step E G a (snd (if c then x else y))"
  by simp

lemma server_step_delete_chunk:
  assumes "env_good E" and "server_step E G a b" and "map_of (ss_open b) rid = Some op" and "(rid, h) \<in> G"
  shows "server_step E G a (snd (on_store rid op (ops_delete_chunk (sv_crates E) (sv_ijson E) h) b))"
  by (rule server_step_store [OF assms(1-3), where K = "{h}"]) (simp_all add: store_step_delete assms)

lemmas server_step_writes = server_step_if server_step_chain server_step_read_then
  server_step_bind [OF server_step_map_err [OF server_step_create]] server_step_bind [OF server_step_map_err [OF server_step_remove]]
  server_step_bind [OF server_step_map_err [OF server_step_put]] server_step_bind [OF server_step_map_err [OF server_step_commit]]
  server_step_bind [OF server_step_map_err [OF server_step_delete_chunk]] server_step_answer server_step_close server_step_batch
  store_reads_total [OF read_or_default_reads]

lemma gate_writing:
  "gate E C md st call = Inr cv \<Longrightarrow> \<not> open_to_all call \<Longrightarrow>
   (case call of RepositoryCreate _ \<Rightarrow> require_admin | RepositoryDelete _ \<Rightarrow> require_admin | _ \<Rightarrow> require_write)
     (sv_auth E) (cv_now C ''auth'' 0) (ss_auth st) md = Inr cv"
  by (cases call) (simp_all add: gate_def Let_def require_admin_def require_write_def)

lemma serve_step:
  assumes "env_good E" and "server_good E st"
  shows "server_step E (given_up E call) st (snd (serve E C md call st))"
proof (cases "open_to_all call \<and> (\<forall>r. call \<noteq> RepositoryClose r)")
  case True
  then show ?thesis using server_step_reading assms by blast
next
  case writing: False
  note refl = server_step_refl [OF assms(2)]
  show ?thesis
  proof (cases "gate E C md st call")
    case (Inl e)
    then show ?thesis by (simp add: serve_gated refl)
  next
    case (Inr cv)
    note ok = gate_writing [OF Inr] and body = rpc_defs and_then_simps Let_def serve.simps
    note steps = server_step_writes refl assms(1) reading
    show ?thesis
    proof (cases call)
      case (RepositoryClose x)
      with Inr have "require_auth (sv_auth E) (cv_now C ''auth'' 0) (ss_auth st) md = Inr cv" by (simp add: gate_def Let_def)
      then show ?thesis by (simp only: RepositoryClose body) (intro steps; simp add: server_step_close [OF refl])
    next
      case (SnapshotCommit x)
      with ok have ok': "require_write (sv_auth E) (cv_now C ''auth'' 0) (ss_auth st) md = Inr cv" by simp
      show ?thesis unfolding SnapshotCommit body ok'
        by (cases "scr_parent_version_id x = []"; simp only: if_True if_False and_then_simps) (intro steps; simp)+
    qed (use writing ok in simp_all, simp_all only: body, (intro steps; simp)+)
  qed
qed

end
