(* ===== verification/Badou_Session.thy ===== *)
theory Badou_Session
  imports Badou_Server_Steps
begin

text \<open>
  Sessions of the service: any sequence of calls, by any callers, under any faults.  An open
  repository stays good, a chunk that was put is answered by a later get until it is given
  up, and the repository verification answers from the index as it was when the repository
  was opened.
\<close>

fun session :: "server_env \<Rightarrow> (call_env \<times> metadata \<times> rpc) list \<Rightarrow> server_state \<Rightarrow> server_state" where
  "session E [] st = st"
| "session E ((C, md, call) # calls) st = session E calls (snd (serve E C md call st))"

definition gives_up :: "server_env \<Rightarrow> (call_env \<times> metadata \<times> rpc) list \<Rightarrow> (uuid \<times> chunk_hash) set" where
  "gives_up E calls = (\<Union>(C, md, call) \<in> set calls. given_up E call)"

lemma server_step_mono: "server_step E G a b \<Longrightarrow> G \<subseteq> H \<Longrightarrow> server_step E H a b"
  unfolding server_step_def by blast

lemma session_step:
  "env_good E \<Longrightarrow> server_good E st \<Longrightarrow> server_step E (gives_up E calls) st (session E calls st)"
proof (induction calls arbitrary: st)
  case (Cons c calls)
  obtain C md call where c: "c = (C, md, call)" by (metis prod_cases3)
  let ?G = "gives_up E (c # calls)"
  have one: "server_step E ?G st (snd (serve E C md call st))"
    by (rule server_step_mono [OF serve_step]) (auto simp: Cons.prems gives_up_def c)
  have "server_step E (gives_up E calls) (snd (serve E C md call st)) (session E calls (snd (serve E C md call st)))"
    using Cons.IH [OF Cons.prems(1) server_step_good [OF one]] .
  then have "server_step E ?G (snd (serve E C md call st)) (session E calls (snd (serve E C md call st)))"
    by (rule server_step_mono) (auto simp: gives_up_def)
  then show ?case using one c server_step_trans by simp
qed (simp add: server_step_refl)

subsection \<open>Putting and getting\<close>

lemma put_stored:
  assumes "env_good E" and "server_good E st" and "map_of (ss_open st) rid = Some op"
    and "uuid_parse (sv_crates E) r = Some rid" and "pb_parse_hash E k = Some h"
    and "\<not> chunk_exists (sv_crates E) (op_store_index op) h"
    and "serve E C md (ChunkPut \<lparr>cpr_repo_id = r, cpr_chunk = Some \<lparr>pcd_chunk_hash = k, pcd_data = d, pcd_size = n\<rparr>\<rparr>) st = (Inr resp, st1)"
  shows "stored E st1 rid h d" and "blake3_hash (sv_crates E) d = h"
proof -
  have o: "opened E rid st = (Inr op, st)" using assms(3) by (simp add: opened_def open_repo_handle_def)
  from assms(7) show hash: "blake3_hash (sv_crates E) d = h"
    by (auto simp: rpc_chunk_put_def the_repo_def ok_or_def assms(4,5) result_iffs split: if_splits)
  obtain loc ist where w: "write_chunk (sv_crates E) (sv_ijson E) (ss_layout st) rid (cv_now C ''chunk'' 0) h d (op_store_index op, ss_fs st) = (Inr loc, ist)"
    and st1: "st1 = st\<lparr>ss_open := AList.update rid (op\<lparr>op_store_index := fst ist\<rparr>) (ss_open st), ss_fs := snd ist\<rparr>"
    using assms(7) hash
    by (auto simp: rpc_chunk_put_def the_repo_def ok_or_def assms(4,5) result_iffs o on_store_def put_and_count_def put_chunk_def
        split: prod.splits)
  have "store_inv (sv_crates E) (ss_layout st) rid (op_store_index op, ss_fs st)"
    using index_good_store_inv assms(1-3) by (simp add: env_good_def crates_goodD server_good_def)
  then have "chunk_content (sv_crates E) ist h = Some d"
    using cs.put_new [of "sv_crates E" "ss_layout st" rid "(op_store_index op, ss_fs st)" h "sv_ijson E" "cv_now C ''chunk'' 0" d loc ist] assms(6) w by simp
  then show "stored E st1 rid h d" by (auto simp: stored_def st1 map_of_update)
qed

lemma get_stored:
  assumes "stored E st rid h d" and "blake3_hash (sv_crates E) d = h" and "faults (ss_fs st) = []"
    and "uuid_parse (sv_crates E) r = Some rid" and "pb_parse_hash E k = Some h"
    and "require_auth (sv_auth E) (cv_now C ''auth'' 0) (ss_auth st) md = Inr cv"
  shows "fst (serve E C md (ChunkGet r k) st) = Inr (RespChunk \<lparr>pcd_chunk_hash = k, pcd_data = d, pcd_size = of_nat (length d)\<rparr>)"
proof -
  obtain op where op: "map_of (ss_open st) rid = Some op" "chunk_content (sv_crates E) (op_store_index op, ss_fs st) h = Some d"
    using assms(1) by (auto simp: stored_def)
  have "read_chunk (sv_crates E) h (op_store_index op, ss_fs st) = (Inr d, (op_store_index op, ss_fs st))"
    using read_chunk_total [OF _ op(2)] assms(2,3) by (simp add: quiet_def)
  then show ?thesis
    by (simp add: rpc_chunk_get_def the_repo_def ok_or_def assms(4-6) opened_def open_repo_handle_def op(1) on_store_def get_chunk_def)
qed

text \<open>(C13) What was put can be got.  Once a chunk the open repository did not have is put with a
  positive answer, then after any further calls by anybody, succeeding or failing at any step
  (other uploads, commits, deletions, opening and closing other repositories), as long as this
  repository is neither closed nor deleted and no call asks to delete this very chunk, an
  authenticated get on a disk that works answers exactly the bytes.\<close>

theorem put_then_get:
  assumes "env_good E" and "server_good E st" and "map_of (ss_open st) rid = Some op"
    and "uuid_parse (sv_crates E) r = Some rid" and "pb_parse_hash E k = Some h"
    and "\<not> chunk_exists (sv_crates E) (op_store_index op) h"
    and "serve E C md (ChunkPut \<lparr>cpr_repo_id = r, cpr_chunk = Some \<lparr>pcd_chunk_hash = k, pcd_data = d, pcd_size = n\<rparr>\<rparr>) st = (Inr resp, st1)"
    and "(rid, h) \<notin> gives_up E calls" and "session E calls st1 = st2" and "faults (ss_fs st2) = []"
    and "require_auth (sv_auth E) (cv_now C' ''auth'' 0) (ss_auth st2) md' = Inr cv"
  shows "fst (serve E C' md' (ChunkGet r k) st2) = Inr (RespChunk \<lparr>pcd_chunk_hash = k, pcd_data = d, pcd_size = of_nat (length d)\<rparr>)"
proof -
  note put = put_stored [OF assms(1-7)]
  have "server_good E st1" using server_step_good [OF serve_step [OF assms(1,2)]] assms(7) by (metis snd_conv)
  then have "stored E st2 rid h d" using session_step [OF assms(1)] put(1) assms(8,9) unfolding server_step_def by metis
  then show ?thesis using get_stored put(2) assms(4,5,10,11) by blast
qed

subsection \<open>Sessions from the start\<close>

lemma server_new_good:
  "(\<And>rid. disk_good (sv_crates E) (sv_ijson E) \<lparr>data_root = root\<rparr> rid s) \<Longrightarrow> server_good E (server_new root cfg s)"
  by (simp add: server_good_def server_new_def rm_layout_def repository_manager_new_def)

text \<open>(C14) Repositories do not mix.  Assume that on the disk the server starts with every index file that can
  be decoded names, for the chunks of its repository, the files of that repository (\<open>disk_good\<close>; an empty
  disk does).  Then whatever calls are made and whatever fails, both indexes the server keeps in memory for
  an open repository, the one of its chunk store and the one its verification reads, name for every chunk
  the file of that chunk in this repository, and every index file on disk that can be decoded still does so
  too, so that no later call reads or removes a file of another repository through an index.\<close>

theorem sessions_keep_repositories_apart:
  assumes "env_good E" and "\<And>rid. disk_good (sv_crates E) (sv_ijson E) \<lparr>data_root = root\<rparr> rid s"
    and "session E calls (server_new root cfg s) = st"
  shows "(\<forall>rid op i k e. map_of (ss_open st) rid = Some op \<longrightarrow> i = op_store_index op \<or> i = op_index op \<longrightarrow>
       index_lookup i k = Some e \<longrightarrow>
       (\<exists>h. k = hex_encode (sv_crates E) h \<and> ie_path e = bucket_path (sv_crates E) \<lparr>data_root = root\<rparr> rid h)) \<and>
    (\<forall>rid. disk_good (sv_crates E) (sv_ijson E) \<lparr>data_root = root\<rparr> rid (ss_fs st))"
proof -
  have step: "server_step E (gives_up E calls) (server_new root cfg s) st"
    using session_step [OF assms(1) server_new_good [OF assms(2)]] assms(3) by blast
  moreover have new: "ss_layout (server_new root cfg s) = \<lparr>data_root = root\<rparr>" "ss_open (server_new root cfg s) = []"
    by (simp_all add: server_new_def rm_layout_def repository_manager_new_def)
  ultimately have good: "server_good E st" and l: "ss_layout st = \<lparr>data_root = root\<rparr>" by (simp_all add: server_step_def)
  have "index_good (sv_crates E) \<lparr>data_root = root\<rparr> rid (op_index op)" if "map_of (ss_open st) rid = Some op" for rid op
    using step that l new(2) by (auto simp: server_step_def second_kept_def)
  then show ?thesis using good unfolding server_good_def l by (auto simp: index_good_def entries_good_def index_lookup_def)
qed

subsection \<open>Verification of a repository\<close>

lemma verify_repository_passes: "r \<in> set (verify_repository now i) \<Longrightarrow> vp_status r = VsPass"
  by (auto simp: verify_repository_def gc_candidates_def)

text \<open>(C15) The repository verification checks nothing that can go wrong.  Every report it answers is a
  pass, whatever the disk holds, and while a repository stays open the answer stays the same,
  whatever chunks are put, deleted or committed in between.\<close>

theorem verify_repository_checks_nothing:
  assumes "env_good E" and "server_good E st" and "map_of (ss_open st) rid = Some op"
    and "uuid_parse (sv_crates E) r = Some rid" and "(rid, h) \<notin> gives_up E calls" and "session E calls st = st'"
    and "require_auth (sv_auth E) (cv_now C ''auth'' 0) (ss_auth st) md = Inr cv"
    and "require_auth (sv_auth E) (cv_now C ''auth'' 0) (ss_auth st') md = Inr cv'"
  shows "\<exists>reports. fst (serve E C md (VerifyRepository r) st) = Inr (RespReports reports) \<and>
    fst (serve E C md (VerifyRepository r) st') = Inr (RespReports reports) \<and> (\<forall>x \<in> set reports. pvr_passed x)"
proof -
  obtain op' where "map_of (ss_open st') rid = Some op'" "op_index op' = op_index op"
    using session_step [OF assms(1,2), of calls] assms(3,5,6) unfolding server_step_def by metis
  then show ?thesis
    using assms(3,4,7,8) verify_repository_passes
    by (auto simp: rpc_verify_repository_def the_repo_def ok_or_def opened_def open_repo_handle_def verify_report_to_pb_def Let_def)
qed

subsection \<open>Witnesses\<close>

text \<open>An operator works on the open repository \<open>[9]\<close>; the index codec can read one index back.\<close>

abbreviation chunk_bytes :: bytes where
  "chunk_bytes \<equiv> replicate 32 7"

definition one_index_json :: "persisted_index \<Rightarrow> index_json" where
  "one_index_json x = \<lparr>ij_to_vec = (\<lambda>y. Some (if y = x then [1] else [2])), ij_from_slice = (\<lambda>b. if b = [1] then Some x else None)\<rparr>"

definition session_env :: server_env where
  "session_env = (sample_server ''operator'')\<lparr>sv_ijson := one_index_json
     \<lparr>pi_chunk_index = [(hex_encode sample_crates chunk_bytes, new_entry sample_crates root_layout [9] 0 chunk_bytes chunk_bytes)],
      pi_version_chunks = [], pi_manifest_hashes = [], pi_consistent = True\<rparr>\<rparr>"

definition session_index :: badou_index where
  "session_index = in_memory\<lparr>bi_persist_path := Some (index_path sample_crates root_layout [9])\<rparr>"

definition session_op :: open_repo where
  "session_op = \<lparr>op_store_index = session_index, op_index = session_index,
     op_journal = \<lparr>j_path = journal_path sample_crates root_layout [9], j_handle = journal_path sample_crates root_layout [9],
       j_rotation_size = 100, j_current_size = 0\<rparr>\<rparr>"

definition session_disk :: fsys where
  "session_disk = \<lparr>nodes = [(index_dir sample_crates root_layout [9], Dir)], faults = []\<rparr>"

definition session_state :: server_state where
  "session_state = (server_new [] (from_secret []) session_disk)\<lparr>ss_open := [([9], session_op)]\<rparr>"

definition put_call :: rpc where
  "put_call = ChunkPut \<lparr>cpr_repo_id = uuid_to_string sample_crates [9],
     cpr_chunk = Some \<lparr>pcd_chunk_hash = hex_encode sample_crates chunk_bytes, pcd_data = chunk_bytes, pcd_size = 32\<rparr>\<rparr>"

lemma session_env_simps [simp]:
  "sv_crates session_env = sample_crates" "sv_auth session_env = sample_auth ''operator''"
  by (simp_all add: session_env_def sample_server_def)

lemma session_env_good: "env_good session_env"
proof -
  have "take n [1 :: 8 word] \<in> {[], [1]}" for n by (cases n) simp_all
  moreover have "take n [2 :: 8 word] \<noteq> [1]" for n by (cases n) simp_all
  ultimately show ?thesis
    by (auto simp: env_good_def crates_good_def session_env_def one_index_json_def sample_server_def)
qed

lemma session_layout [simp]: "ss_layout session_state = root_layout"
  by (simp add: session_state_def server_new_def rm_layout_def repository_manager_new_def)

lemma session_state_fields [simp]:
  "ss_fs session_state = session_disk" "map_of (ss_open session_state) = [[9] \<mapsto> session_op]" "ss_auth session_state = from_secret []"
  by (simp_all add: session_state_def server_new_def)

lemma session_disk_good: "disk_good X J l rid session_disk"
  by (simp add: disk_good_def session_disk_def file_at_def lookup_def)

lemma session_state_good: "server_good session_env session_state"
  by (simp add: server_good_def session_disk_good session_op_def session_index_def in_memory_def index_good_def entries_good_def
      journal_good_def journal_path_def)

lemma sample_ids:
  "uuid_parse sample_crates (uuid_to_string sample_crates r) = Some r"
  "pb_parse_hash session_env (hex_encode sample_crates chunk_bytes) = Some chunk_bytes"
  by (simp_all add: pb_parse_hash_def)

lemma operator_may: "require_write (sample_auth ''operator'') 0 cfg sample_md = Inr (\<lparr>jw_sub = ''u'', jw_role = ''operator'', jw_exp = 100, jw_iat = 0\<rparr>, 1)"
  by (simp add: require_write_def sample_gates from_role_str_def)

lemma session_write:
  "\<exists>loc ist. write_chunk sample_crates (sv_ijson session_env) root_layout [9] 0 chunk_bytes chunk_bytes (session_index, session_disk) = (Inr loc, ist) \<and> quiet ist"
proof -
  have "store_inv sample_crates root_layout [9] (session_index, session_disk)"
    by (rule index_good_store_inv) (simp_all add: index_good_def entries_good_def session_index_def in_memory_def)
  moreover have "path_free session_disk (bucket_path sample_crates root_layout [9] chunk_bytes)"
    by (auto simp: path_free_def session_disk_def is_dir_def is_file_def lookup_def place_defs)
  moreover have "index_ready (sv_ijson session_env) (session_index, session_disk)"
    by (auto simp: index_ready_def session_env_def one_index_json_def session_index_def session_disk_def is_dir_def lookup_def
        index_path_def index_dir_def butlast_append)
  moreover have "\<forall>p. bi_persist_path session_index = Some p \<longrightarrow> \<not> prefix p (bucket_path sample_crates root_layout [9] chunk_bytes)"
    by (auto simp: session_index_def place_defs)
  ultimately show ?thesis
    using write_chunk_new_total [of sample_crates root_layout "[9]" session_index session_disk chunk_bytes "sv_ijson session_env" 0 chunk_bytes]
    by (auto simp: quiet_def session_disk_def chunk_exists_def index_lookup_def session_index_def in_memory_def)
qed

lemma session_put:
  "\<exists>resp st1. serve session_env sample_call sample_md put_call session_state = (Inr resp, st1) \<and> faults (ss_fs st1) = [] \<and>
     ss_auth st1 = from_secret []"
proof -
  obtain loc ist where "write_chunk sample_crates (sv_ijson session_env) root_layout [9] 0 chunk_bytes chunk_bytes (session_index, session_disk) = (Inr loc, ist)"
    "quiet ist" using session_write by blast
  then show ?thesis
    by (cases ist) (simp add: put_call_def rpc_chunk_put_def sample_call_def operator_may the_repo_def ok_or_def sample_ids
      opened_def open_repo_handle_def on_store_def put_and_count_def put_chunk_def session_op_def quiet_def)
qed

text \<open>The calls in between: another repository is closed, the repositories are listed.\<close>

abbreviation other_calls :: "(call_env \<times> metadata \<times> rpc) list" where
  "other_calls \<equiv> [(sample_call, sample_md, RepositoryClose (uuid_to_string sample_crates [8]))]"

lemma other_calls_session:
  "session session_env other_calls st = close_repo [8] st" "([9], h) \<notin> gives_up session_env other_calls"
  by (simp_all add: rpc_repository_close_def sample_call_def sample_gates the_repo_def ok_or_def sample_ids gives_up_def)

theorem put_then_get_witness:
  "\<exists>resp st1. serve session_env sample_call sample_md put_call session_state = (Inr resp, st1) \<and>
     fst (serve session_env sample_call sample_md (ChunkGet (uuid_to_string sample_crates [9]) (hex_encode sample_crates chunk_bytes))
       (session session_env other_calls st1)) =
     Inr (RespChunk \<lparr>pcd_chunk_hash = hex_encode sample_crates chunk_bytes, pcd_data = chunk_bytes, pcd_size = 32\<rparr>)"
proof -
  obtain resp st1 where p: "serve session_env sample_call sample_md put_call session_state = (Inr resp, st1)"
    and st1: "faults (ss_fs st1) = []" "ss_auth st1 = from_secret []" using session_put by blast
  have "\<not> chunk_exists sample_crates (op_store_index session_op) chunk_bytes"
    by (simp add: chunk_exists_def index_lookup_def session_op_def session_index_def in_memory_def)
  then have "fst (serve session_env sample_call sample_md (ChunkGet (uuid_to_string sample_crates [9]) (hex_encode sample_crates chunk_bytes))
       (close_repo [8] st1)) =
     Inr (RespChunk \<lparr>pcd_chunk_hash = hex_encode sample_crates chunk_bytes, pcd_data = chunk_bytes, pcd_size = of_nat (length chunk_bytes)\<rparr>)"
    by (intro put_then_get [OF session_env_good session_state_good _ _ _ _ p [unfolded put_call_def] other_calls_session(2,1), of session_op])
       (simp_all add: sample_ids st1 close_repo_def sample_call_def sample_gates)
  then show ?thesis using p unfolding other_calls_session(1) by auto
qed

text \<open>A repository that exists on disk is opened, a chunk is put, and it is closed and opened again: the second
  time both indexes come from the index file, which holds the chunk.\<close>

definition repo_disk :: fsys where
  "repo_disk = \<lparr>nodes = [(repo_root sample_crates root_layout [9], Dir), (index_dir sample_crates root_layout [9], Dir),
     (journal_dir sample_crates root_layout [9], Dir), (meta_dir sample_crates root_layout [9], Dir),
     (meta_path sample_crates root_layout [9], File [1])], faults = []\<rparr>"

definition reopen_calls :: "(call_env \<times> metadata \<times> rpc) list" where
  "reopen_calls = map (\<lambda>call. (sample_call, sample_md, call))
     [RepositoryOpen (uuid_to_string sample_crates [9]), put_call, RepositoryClose (uuid_to_string sample_crates [9]),
      RepositoryOpen (uuid_to_string sample_crates [9])]"

lemmas reopen_simps = rpc_repository_open_def sample_call_def sample_gates the_repo_def ok_or_def sample_ids server_new_def
  opened_def open_repo_handle_def on_disk_of_def open_repository_def repository_manager_new_def rm_layout_def repo_disk_def
  sample_fs_simps place_defs repo_root_def read_meta_def session_env_def sample_server_def index_open_def journal_open_def
  open_with_rotation_def open_append_def stat_now_def stat_repository_def Let_def indexed_chunks_def

lemma reopened:
  "\<exists>op e. map_of (ss_open (session session_env reopen_calls (server_new [] (from_secret []) repo_disk))) [9] = Some op \<and>
     index_lookup (op_index op) (hex_encode sample_crates chunk_bytes) = Some e \<and>
     index_lookup (op_store_index op) (hex_encode sample_crates chunk_bytes) = Some e"
  by (simp add: reopen_calls_def reopen_simps put_call_def rpc_chunk_put_def rpc_repository_close_def close_repo_def operator_may
      pb_parse_hash_def on_store_def put_and_count_def put_chunk_def write_chunk_def index_lookup_def register_def persist_def
      to_persisted_def one_index_json_def new_entry_def)

theorem sessions_keep_repositories_apart_witness:
  "\<exists>op e. map_of (ss_open (session session_env reopen_calls (server_new [] (from_secret []) repo_disk))) [9] = Some op \<and>
     index_lookup (op_index op) (hex_encode sample_crates chunk_bytes) = Some e \<and>
     index_lookup (op_store_index op) (hex_encode sample_crates chunk_bytes) = Some e \<and>
     ie_path e = bucket_path sample_crates root_layout [9] chunk_bytes"
proof -
  let ?st = "session session_env reopen_calls (server_new [] (from_secret []) repo_disk)"
  obtain op e where op: "map_of (ss_open ?st) [9] = Some op" "index_lookup (op_index op) (hex_encode sample_crates chunk_bytes) = Some e"
      "index_lookup (op_store_index op) (hex_encode sample_crates chunk_bytes) = Some e" using reopened by blast
  have "disk_good (sv_crates session_env) (sv_ijson session_env) root_layout rid repo_disk" for rid
    by (simp add: disk_good_def repo_disk_def file_at_def lookup_def place_defs repo_root_def)
  from sessions_keep_repositories_apart [OF session_env_good this refl, of reopen_calls "from_secret []"] op(1,2)
  obtain h where "hex_encode sample_crates chunk_bytes = hex_encode sample_crates h" "ie_path e = bucket_path sample_crates root_layout [9] h"
    unfolding session_env_simps by blast
  then have "ie_path e = bucket_path sample_crates root_layout [9] chunk_bytes"
    using injD [OF sample_crates_simps(1), of chunk_bytes h] by metis
  with op show ?thesis by (intro exI [of _ op] exI [of _ e] conjI)
qed

theorem verify_repository_checks_nothing_witness:
  "\<exists>reports. fst (serve session_env sample_call sample_md (VerifyRepository (uuid_to_string sample_crates [9]))
     (session session_env other_calls session_state)) = Inr (RespReports reports) \<and> (\<forall>x \<in> set reports. pvr_passed x)"
proof -
  let ?r = "uuid_to_string sample_crates [9]"
  have "\<exists>reports. fst (serve session_env sample_call sample_md (VerifyRepository ?r) session_state) = Inr (RespReports reports) \<and>
      fst (serve session_env sample_call sample_md (VerifyRepository ?r) (session session_env other_calls session_state)) =
        Inr (RespReports reports) \<and> (\<forall>x \<in> set reports. pvr_passed x)"
    by (rule verify_repository_checks_nothing [OF session_env_good session_state_good _ _ other_calls_session(2) refl, of session_op])
       (simp_all add: sample_ids other_calls_session(1) close_repo_def sample_call_def sample_gates)
  then show ?thesis by blast
qed

end
