(* ===== verification/Agent_Chunker.thy ===== *)
theory Agent_Chunker
  imports Prelude
begin

unbundle bit_operations_syntax

text \<open>
  Splitting a file into chunks (\<open>hbx-chunker\<close>) and the chunking profiles of
  \<open>hbx-core/domain/chunking.rs\<close>.

  A reader is the sequence of pieces it has to give, possibly with an I/O error among
  them; one \<open>read\<close> call answers at most the length of its buffer and at most the rest of
  the current piece, so that every pattern of short reads is covered.  The stream a
  chunker answers is the list of chunks its background task sends to a consumer that
  takes them all.  The loop of the content-defined chunker is a
  \<open>partial_function\<close>: \<open>None\<close> is a task that never ends.

  \<open>compute_mask\<close> rounds a \<open>log2\<close> computed in \<open>f64\<close>; here the rounding is exact, which
  differs at most for sizes above \<open>2\<^sup>2\<^sup>3\<close> next to a half-way point.
\<close>

subsection \<open>Strategies and profiles\<close>

datatype chunk_strategy = Fixed u64 | Cdc u64 u64 u64

record raw_chunk_data =
  rc_offset :: u64
  rc_data :: bytes

datatype chunk_error = ChReadError string | ChInvalidSize u64 | ChIo

datatype chunking_profile = Small | Standard | Large | Adaptive

abbreviation "KB \<equiv> (1024 :: u64)"
abbreviation "MB \<equiv> (1048576 :: u64)"
abbreviation "GB \<equiv> (1073741824 :: u64)"

fun profile_to_string :: "chunking_profile \<Rightarrow> string" where
  "profile_to_string Small = ''Small''"
| "profile_to_string Standard = ''Standard''"
| "profile_to_string Large = ''Large''"
| "profile_to_string Adaptive = ''Adaptive''"

definition profile_from_str :: "string \<Rightarrow> chunking_profile option" where
  "profile_from_str s =
     (if s = ''Small'' \<or> s = ''small'' then Some Small
      else if s = ''Standard'' \<or> s = ''standard'' then Some Standard
      else if s = ''Large'' \<or> s = ''large'' then Some Large
      else if s = ''Adaptive'' \<or> s = ''adaptive'' then Some Adaptive
      else None)"

fun to_chunk_strategy :: "chunking_profile \<Rightarrow> u64 \<Rightarrow> chunk_strategy" where
  "to_chunk_strategy Small file_size = Fixed (256 * KB)"
| "to_chunk_strategy Standard file_size = Fixed (512 * KB)"
| "to_chunk_strategy Large file_size = Fixed (1 * MB)"
| "to_chunk_strategy Adaptive file_size =
     (if file_size < 16 * MB then Fixed (256 * KB)
      else if file_size < 256 * MB then Fixed (512 * KB)
      else if file_size < 4 * GB then Fixed (1 * MB)
      else Cdc (4 * MB) (8 * MB) (64 * MB))"

subsection \<open>Readers\<close>

datatype piece = Seg bytes | ReadErr

type_synonym reader = "piece list"

fun read :: "nat \<Rightarrow> reader \<Rightarrow> bytes option \<times> reader" where
  "read n [] = (Some [], [])"
| "read n (ReadErr # r) = (None, r)"
| "read n (Seg d # r) =
     (if n = 0 then (Some [], Seg d # r)
      else if d = [] then read n r
      else (Some (take n d), if n < length d then Seg (drop n d) # r else r))"

text \<open>What a reader gives before its first error.\<close>

fun readable :: "reader \<Rightarrow> bytes" where
  "readable [] = []"
| "readable (ReadErr # r) = []"
| "readable (Seg d # r) = d @ readable r"

definition healthy :: "reader \<Rightarrow> bool" where
  "healthy r \<longleftrightarrow> ReadErr \<notin> set r"

fun reader_size :: "reader \<Rightarrow> nat" where
  "reader_size [] = 0"
| "reader_size (ReadErr # r) = Suc (reader_size r)"
| "reader_size (Seg d # r) = Suc (length d + reader_size r)"

lemma read_data:
  "read n r = (Some d, r') \<Longrightarrow> d \<noteq> [] \<Longrightarrow>
   readable r = d @ readable r' \<and> (healthy r \<longrightarrow> healthy r') \<and> length d \<le> n \<and> reader_size r' < reader_size r"
proof (induction n r rule: read.induct)
  case (3 n d0 r)
  then show ?case
    by (cases "n = 0"; cases "d0 = []") (auto simp: healthy_def split: if_splits simp flip: append.assoc)
qed (auto simp: healthy_def)

lemma read_eof: "read n r = (Some [], r') \<Longrightarrow> 0 < n \<Longrightarrow> readable r = []"
  by (induction n r rule: read.induct) (auto split: if_splits)

lemma read_error: "read n r = (None, r') \<Longrightarrow> readable r = [] \<and> \<not> healthy r"
  by (induction n r rule: read.induct) (auto simp: healthy_def split: if_splits)

lemmas read_facts = read_data read_eof read_error

subsection \<open>The fixed-size chunker\<close>

function fixed_loop :: "nat \<Rightarrow> u64 \<Rightarrow> reader \<Rightarrow> raw_chunk_data list" where
  "fixed_loop n off r = (case read n r of
     (Some d, r') \<Rightarrow>
       if d = [] then []
       else \<lparr>rc_offset = off, rc_data = d\<rparr> # fixed_loop n (off + of_nat (length d)) r'
   | (None, _) \<Rightarrow> [])"
  by pat_completeness auto
termination
  by (relation "measure (\<lambda>(n, off, r). reader_size r)") (auto dest!: read_data [OF sym])

definition fixed_chunk :: "reader \<Rightarrow> chunk_strategy \<Rightarrow> chunk_error + raw_chunk_data list" where
  "fixed_chunk r strategy =
     (let chunk_size = (case strategy of Fixed n \<Rightarrow> n | Cdc _ avg _ \<Rightarrow> avg)
      in if chunk_size = 0 then Inl (ChInvalidSize chunk_size) else Inr (fixed_loop (unat chunk_size) 0 r))"

subsection \<open>The content-defined chunker\<close>

record fast_cdc_chunker =
  fc_min_size :: nat
  fc_avg_size :: nat
  fc_max_size :: nat

definition default_for_modern :: fast_cdc_chunker where
  "default_for_modern = \<lparr>fc_min_size = 4 * 1024 * 1024, fc_avg_size = 8 * 1024 * 1024, fc_max_size = 64 * 1024 * 1024\<rparr>"

fun log2_floor :: "nat \<Rightarrow> nat" where
  "log2_floor n = (if n < 2 then 0 else Suc (log2_floor (n div 2)))"

declare log2_floor.simps [simp del]

definition log2_round :: "nat \<Rightarrow> nat" where
  "log2_round n = (let k = log2_floor n in if n * n \<ge> 2 ^ (2 * k + 1) then k + 1 else k)"

definition compute_mask :: "nat \<Rightarrow> u64" where
  "compute_mask avg_size = (let bits = log2_round avg_size in if bits \<ge> 64 then 0 else drop_bit bits (NOT 0))"

fun scan_boundary :: "u64 \<Rightarrow> u64 \<Rightarrow> nat \<Rightarrow> bytes \<Rightarrow> nat option" where
  "scan_boundary msk hash i [] = None"
| "scan_boundary msk hash i (b # bs) =
     (let hash' = push_bit 1 hash + ucast b
      in if (hash' AND msk) = 0 then Some (i + 1) else scan_boundary msk hash' (i + 1) bs)"

definition find_cdc_boundary :: "bytes \<Rightarrow> nat \<Rightarrow> nat \<Rightarrow> nat \<Rightarrow> nat" where
  "find_cdc_boundary data min_size avg_size max_size =
     (if length data \<le> min_size then length data
      else let msk = compute_mask avg_size; stop = min (length data) max_size
           in case scan_boundary msk 0 min_size (drop min_size (take stop data)) of
                Some i \<Rightarrow> i | None \<Rightarrow> stop)"

partial_function (option) cdc_drain ::
  "fast_cdc_chunker \<Rightarrow> u64 \<Rightarrow> bytes \<Rightarrow> (raw_chunk_data list \<times> u64 \<times> bytes) option" where
  "cdc_drain c off buf =
     (if length buf \<ge> fc_min_size c then
        (let boundary = find_cdc_boundary buf (fc_min_size c) (fc_avg_size c) (fc_max_size c) in
         if boundary < length buf then
           Option.bind (cdc_drain c (off + of_nat boundary) (drop boundary buf))
             (\<lambda>(cs, off', buf'). Some (\<lparr>rc_offset = off, rc_data = take boundary buf\<rparr> # cs, off', buf'))
         else Some ([], off, buf))
      else Some ([], off, buf))"

partial_function (option) cdc_loop ::
  "fast_cdc_chunker \<Rightarrow> u64 \<Rightarrow> bytes \<Rightarrow> reader \<Rightarrow> raw_chunk_data list option" where
  "cdc_loop c off buf r = (case read (fc_avg_size c) r of
     (Some d, r') \<Rightarrow>
       if d = [] then Some (if buf \<noteq> [] then [\<lparr>rc_offset = off, rc_data = buf\<rparr>] else [])
       else Option.bind (cdc_drain c off (buf @ d))
              (\<lambda>(cs, off', buf'). Option.bind (cdc_loop c off' buf' r') (\<lambda>cs'. Some (cs @ cs')))
   | (None, _) \<Rightarrow> Some [])"

definition cdc_chunk :: "fast_cdc_chunker \<Rightarrow> reader \<Rightarrow> chunk_strategy \<Rightarrow> raw_chunk_data list option" where
  "cdc_chunk c r strategy = cdc_loop c 0 [] r"

subsection \<open>Chunks of a byte sequence\<close>

text \<open>Chunks in a row: each starts where the one before it ends.\<close>

fun chunks_from :: "u64 \<Rightarrow> bytes list \<Rightarrow> raw_chunk_data list" where
  "chunks_from off [] = []"
| "chunks_from off (d # ds) = \<lparr>rc_offset = off, rc_data = d\<rparr> # chunks_from (off + of_nat (length d)) ds"

lemma chunks_from_data [simp]: "map rc_data (chunks_from off ds) = ds"
  by (induction ds arbitrary: off) auto

lemma chunks_from_append [simp]:
  "chunks_from off (ds @ es) = chunks_from off ds @ chunks_from (off + of_nat (length (concat ds))) es"
  by (induction ds arbitrary: off) (auto simp: add.assoc)

lemma chunks_from_length [simp]: "length (chunks_from off ds) = length ds"
  by (induction ds arbitrary: off) auto

lemma chunks_from_ball: "(\<forall>x \<in> set (chunks_from off ds). P (rc_data x)) \<longleftrightarrow> (\<forall>d \<in> set ds. P d)"
  by (induction ds arbitrary: off) auto

lemma chunks_from_butlast: "butlast (chunks_from off ds) = chunks_from off (butlast ds)"
proof (induction ds arbitrary: off)
  case (Cons d ds)
  then show ?case by (cases ds) auto
qed simp

lemma fixed_loop_chunks:
  "0 < n \<Longrightarrow> \<exists>ds. fixed_loop n off r = chunks_from off ds \<and> concat ds = readable r \<and>
     (\<forall>d \<in> set ds. 0 < length d \<and> length d \<le> n)"
proof (induction n off r rule: fixed_loop.induct)
  case (1 n off r)
  obtain x r' where rd: "read n r = (x, r')" by fastforce
  show ?case
  proof (cases "\<exists>d. x = Some d \<and> d \<noteq> []")
    case True
    then obtain d where d: "x = Some d" "d \<noteq> []" by auto
    note f = read_data [OF rd [unfolded d(1)] d(2)]
    obtain ds where ds: "fixed_loop n (off + of_nat (length d)) r' = chunks_from (off + of_nat (length d)) ds"
        "concat ds = readable r'" "\<forall>d \<in> set ds. 0 < length d \<and> length d \<le> n"
      using 1(1) [OF rd [symmetric] d 1(2)] by blast
    then show ?thesis using rd d f by (intro exI [of _ "d # ds"]) auto
  next
    case False
    then have "fixed_loop n off r = [] \<and> readable r = []"
      using rd read_eof [of n r r'] read_error [of n r r'] 1(2) by (cases x) auto
    then show ?thesis by (intro exI [of _ "[]"]) auto
  qed
qed

lemma scan_boundary_bounds: "scan_boundary m h i bs = Some k \<Longrightarrow> i < k \<and> k \<le> i + length bs"
  by (induction m h i bs rule: scan_boundary.induct) (force simp: Let_def split: if_splits)+

lemma find_cdc_boundary_bounds:
  assumes "find_cdc_boundary data mn av mx < length data"
  shows "min (mn + 1) mx \<le> find_cdc_boundary data mn av mx" "find_cdc_boundary data mn av mx \<le> mx"
proof -
  have l: "mn < length data" using assms by (auto simp: find_cdc_boundary_def split: if_splits)
  let ?e = "min (length data) mx"
  show "min (mn + 1) mx \<le> find_cdc_boundary data mn av mx" "find_cdc_boundary data mn av mx \<le> mx"
    using l assms scan_boundary_bounds [of "compute_mask av" 0 mn "drop mn (take ?e data)"]
    by (auto simp: find_cdc_boundary_def Let_def min_def split: option.splits if_splits)
qed

lemma cdc_boundary_rest:
  "find_cdc_boundary data mn av mx \<ge> length data \<Longrightarrow> length data \<le> max mn mx"
  using scan_boundary_bounds [of "compute_mask av" 0 mn "drop mn (take (min (length data) mx) data)"]
  by (auto simp: find_cdc_boundary_def Let_def split: option.splits if_splits)

lemma cdc_drain_total:
  "0 < fc_max_size c \<Longrightarrow> \<exists>ds buf'. cdc_drain c off buf = Some (chunks_from off ds, off + of_nat (length (concat ds)), buf') \<and>
     buf = concat ds @ buf' \<and> length buf' \<le> max (fc_min_size c) (fc_max_size c) \<and>
     (\<forall>d \<in> set ds. min (fc_min_size c + 1) (fc_max_size c) \<le> length d \<and> length d \<le> fc_max_size c)"
proof (induction buf arbitrary: off rule: length_induct)
  case (1 buf)
  let ?b = "find_cdc_boundary buf (fc_min_size c) (fc_avg_size c) (fc_max_size c)"
  show ?case
  proof (cases "fc_min_size c \<le> length buf \<and> ?b < length buf")
    case True
    then have b: "min (fc_min_size c + 1) (fc_max_size c) \<le> ?b" "?b \<le> fc_max_size c" "0 < ?b"
      using find_cdc_boundary_bounds [of buf "fc_min_size c" "fc_avg_size c" "fc_max_size c"] 1(2) by auto
    then have "length (drop ?b buf) < length buf" using True by auto
    from 1(1) [rule_format, OF this 1(2), of "off + of_nat ?b"] obtain ds buf' where
      ih: "cdc_drain c (off + of_nat ?b) (drop ?b buf) =
             Some (chunks_from (off + of_nat ?b) ds, off + of_nat ?b + of_nat (length (concat ds)), buf')"
          "drop ?b buf = concat ds @ buf'" "length buf' \<le> max (fc_min_size c) (fc_max_size c)"
          "\<forall>d \<in> set ds. min (fc_min_size c + 1) (fc_max_size c) \<le> length d \<and> length d \<le> fc_max_size c"
      by blast
    have "cdc_drain c off buf = Some (chunks_from off (take ?b buf # ds), off + of_nat (length (concat (take ?b buf # ds))), buf')"
      using True ih(1) by (subst cdc_drain.simps) (simp add: Let_def add.assoc)
    moreover have "buf = concat (take ?b buf # ds) @ buf'" using ih(2) by (metis append_take_drop_id append_assoc concat.simps(2))
    ultimately show ?thesis using ih(3,4) b True by (intro exI [of _ "take ?b buf # ds"] exI [of _ buf']) auto
  next
    case False
    then have "cdc_drain c off buf = Some ([], off, buf)" by (subst cdc_drain.simps) (auto simp: Let_def)
    moreover have "length buf \<le> max (fc_min_size c) (fc_max_size c)"
      using False cdc_boundary_rest [of buf "fc_min_size c" "fc_avg_size c" "fc_max_size c"] by fastforce
    ultimately show ?thesis by (intro exI [of _ "[]"] exI [of _ buf]) auto
  qed
qed

lemma cdc_loop_total:
  "0 < fc_max_size c \<Longrightarrow> 0 < fc_avg_size c \<Longrightarrow> length buf \<le> max (fc_min_size c) (fc_max_size c) \<Longrightarrow>
   \<exists>ds es. cdc_loop c off buf r = Some (chunks_from off (ds @ es)) \<and> prefix (concat (ds @ es)) (buf @ readable r) \<and>
     (healthy r \<longrightarrow> concat (ds @ es) = buf @ readable r) \<and>
     (\<forall>d \<in> set ds. min (fc_min_size c + 1) (fc_max_size c) \<le> length d \<and> length d \<le> fc_max_size c) \<and>
     length es \<le> 1 \<and> (\<forall>d \<in> set es. 0 < length d \<and> length d \<le> max (fc_min_size c) (fc_max_size c))"
proof (induction "reader_size r" arbitrary: off buf r rule: less_induct)
  case less
  obtain x r' where rd: "read (fc_avg_size c) r = (x, r')" by fastforce
  show ?case
  proof (cases x)
    case None
    then show ?thesis using rd read_error [of "fc_avg_size c" r r']
      by (subst cdc_loop.simps) (intro exI [of _ "[]"], auto)
  next
    case (Some d)
    show ?thesis
    proof (cases "d = []")
      case True
      have "readable r = []" using rd Some True read_eof less.prems(2) by blast
      then show ?thesis using rd Some True less.prems(3)
        by (subst cdc_loop.simps) (intro exI [of _ "[]"] exI [of _ "if buf = [] then [] else [buf]"], auto)
    next
      case False
      note f = read_data [OF rd [unfolded Some] False]
      obtain ds buf' where dr: "cdc_drain c off (buf @ d) = Some (chunks_from off ds, off + of_nat (length (concat ds)), buf')"
          "buf @ d = concat ds @ buf'" "length buf' \<le> max (fc_min_size c) (fc_max_size c)"
          "\<forall>d \<in> set ds. min (fc_min_size c + 1) (fc_max_size c) \<le> length d \<and> length d \<le> fc_max_size c"
        using cdc_drain_total [OF less.prems(1)] by blast
      obtain ds' es where ih: "cdc_loop c (off + of_nat (length (concat ds))) buf' r' = Some (chunks_from (off + of_nat (length (concat ds))) (ds' @ es))"
          "prefix (concat (ds' @ es)) (buf' @ readable r')" "healthy r' \<longrightarrow> concat (ds' @ es) = buf' @ readable r'"
          "\<forall>d \<in> set ds'. min (fc_min_size c + 1) (fc_max_size c) \<le> length d \<and> length d \<le> fc_max_size c"
          "length es \<le> 1" "\<forall>d \<in> set es. 0 < length d \<and> length d \<le> max (fc_min_size c) (fc_max_size c)"
        using less.hyps [OF _ less.prems(1,2) dr(3)] f by blast
      have e: "buf @ readable r = concat ds @ buf' @ readable r'" using f dr(2) by (metis append_assoc)
      have "cdc_loop c off buf r = Some (chunks_from off ((ds @ ds') @ es))"
        using rd Some False dr(1) ih(1) by (subst cdc_loop.simps) simp
      moreover have "prefix (concat ((ds @ ds') @ es)) (buf @ readable r)" using ih(2) by (simp add: e)
      moreover have "healthy r \<longrightarrow> concat ((ds @ ds') @ es) = buf @ readable r" using ih(3) f dr(2) by (simp add: e)
      moreover have "\<forall>d \<in> set (ds @ ds'). min (fc_min_size c + 1) (fc_max_size c) \<le> length d \<and> length d \<le> fc_max_size c"
        using ih(4) dr(4) unfolding set_append by blast
      ultimately show ?thesis using ih(5,6) by blast
    qed
  qed
qed

subsection \<open>Properties\<close>

text \<open>(C7) The content-defined chunker always ends (the size limit is not zero), and its chunks lie
  end to end from offset zero: on a reader without errors their bytes are the file, otherwise a
  prefix of what could be read.  Every chunk but possibly the last is longer than
  \<open>min_size\<close> (or exactly \<open>max_size\<close>) and none is longer than \<open>max_size\<close>, for
  \<open>min_size \<le> max_size\<close>.\<close>

theorem cdc_chunks_bounded_and_complete:
  assumes "0 < fc_avg_size c" and "fc_min_size c \<le> fc_max_size c" and "0 < fc_max_size c"
  shows "\<exists>cs. cdc_chunk c r strategy = Some cs \<and> cs = chunks_from 0 (map rc_data cs) \<and>
     prefix (concat (map rc_data cs)) (readable r) \<and>
     (healthy r \<longrightarrow> concat (map rc_data cs) = readable r) \<and>
     (\<forall>x \<in> set cs. 0 < length (rc_data x) \<and> length (rc_data x) \<le> fc_max_size c) \<and>
     (\<forall>x \<in> set (butlast cs). min (fc_min_size c + 1) (fc_max_size c) \<le> length (rc_data x))"
proof -
  obtain ds es where l: "cdc_loop c 0 [] r = Some (chunks_from 0 (ds @ es))" "prefix (concat (ds @ es)) (readable r)"
      "healthy r \<longrightarrow> concat (ds @ es) = readable r"
      "\<forall>d \<in> set ds. min (fc_min_size c + 1) (fc_max_size c) \<le> length d \<and> length d \<le> fc_max_size c"
      "length es \<le> 1" "\<forall>d \<in> set es. 0 < length d \<and> length d \<le> max (fc_min_size c) (fc_max_size c)"
    using cdc_loop_total [OF assms(3,1), of "[]" 0 r] by auto
  let ?cs = "chunks_from 0 (ds @ es)"
  have data: "map rc_data ?cs = ds @ es" by (rule chunks_from_data)
  have "\<forall>d \<in> set (ds @ es). 0 < length d \<and> length d \<le> fc_max_size c" using l(4,6) assms by fastforce
  then have "\<forall>x \<in> set ?cs. 0 < length (rc_data x) \<and> length (rc_data x) \<le> fc_max_size c"
    by (subst chunks_from_ball)
  moreover have "set (butlast (ds @ es)) \<subseteq> set ds"
    using l(5) by (cases es) (auto simp: butlast_append dest: in_set_butlastD)
  then have "\<forall>x \<in> set (butlast ?cs). min (fc_min_size c + 1) (fc_max_size c) \<le> length (rc_data x)"
    using l(4) unfolding chunks_from_butlast by (subst chunks_from_ball) blast
  ultimately show ?thesis using l(1,2,3) data unfolding cdc_chunk_def by metis
qed

text \<open>The stream of the fixed-size chunker, whatever the pattern of short reads, and that an I/O
  error only ends it: the consumer cannot tell the truncated file from a complete one.\<close>

lemma fixed_loop_error: "0 < n \<Longrightarrow> fixed_loop n off (r @ ReadErr # rest) = fixed_loop n off r"
proof (induction n off r rule: fixed_loop.induct)
  case (1 n off r)
  have app: "read n (r @ ReadErr # rest) = (case read n r of (Some d, r') \<Rightarrow>
      if d = [] then (None, rest) else (Some d, r' @ ReadErr # rest) | (None, r') \<Rightarrow> (None, r' @ ReadErr # rest))"
    using 1(2) by (induction n r rule: read.induct) auto
  obtain x r' where rd: "read n r = (x, r')" by fastforce
  show ?case
  proof (cases "\<exists>d. x = Some d \<and> d \<noteq> []")
    case True
    then obtain d where d: "x = Some d" "d \<noteq> []" by auto
    then show ?thesis using app rd 1(1) [OF rd [symmetric] d 1(2)] by (subst (1 2) fixed_loop.simps) simp
  next
    case False
    then show ?thesis using app rd by (subst (1 2) fixed_loop.simps) (auto split: option.splits)
  qed
qed

text \<open>The fixed-size chunker refuses a zero size; otherwise its chunks lie end to end from
  offset zero, have between one byte and the chunk size, and together are what the reader gives
  before its first error.  An I/O error is not reported: the stream is the one of the file cut off
  there.\<close>

theorem fixed_chunks_reassemble:
  "case fixed_chunk r strategy of
     Inl e \<Rightarrow> strategy = Fixed 0 \<or> (\<exists>a b. strategy = Cdc a 0 b)
   | Inr cs \<Rightarrow> cs = chunks_from 0 (map rc_data cs) \<and> concat (map rc_data cs) = readable r \<and>
       (\<forall>x \<in> set cs. 0 < length (rc_data x) \<and>
          length (rc_data x) \<le> (case strategy of Fixed n \<Rightarrow> unat n | Cdc a n b \<Rightarrow> unat n)) \<and>
       fixed_chunk (r @ ReadErr # rest) strategy = Inr cs"
proof -
  let ?n = "case strategy of Fixed n \<Rightarrow> n | Cdc a n b \<Rightarrow> n"
  show ?thesis
  proof (cases "?n = 0")
    case True
    then show ?thesis by (cases strategy) (auto simp: fixed_chunk_def)
  next
    case False
    then have n: "0 < unat ?n" by (simp add: unat_gt_0)
    obtain ds where ds: "fixed_loop (unat ?n) 0 r = chunks_from 0 ds" "concat ds = readable r"
        "\<forall>d \<in> set ds. 0 < length d \<and> length d \<le> unat ?n"
      using fixed_loop_chunks [OF n, of 0 r] by blast
    have all: "\<forall>x \<in> set (chunks_from 0 ds). 0 < length (rc_data x) \<and> length (rc_data x) \<le> unat ?n"
      using ds(3) by (subst chunks_from_ball)
    have un: "unat ?n = (case strategy of Fixed n \<Rightarrow> unat n | Cdc a n b \<Rightarrow> unat n)" by (cases strategy) auto
    show ?thesis
      using False ds(1,2) all fixed_loop_error [OF n, of 0 r rest]
      unfolding fixed_chunk_def Let_def un by (simp del: fixed_loop.simps)
  qed
qed

text \<open>Eight bytes that arrive in two reads, cut at sizes between 2 and 6.\<close>

theorem cdc_chunks_bounded_and_complete_witness:
  "\<exists>cs. cdc_chunk \<lparr>fc_min_size = 2, fc_avg_size = 4, fc_max_size = 6\<rparr> [Seg [1, 2, 3], Seg [4, 5, 6, 7, 8]] (Fixed 4) = Some cs \<and>
     concat (map rc_data cs) = [1, 2, 3, 4, 5, 6, 7, 8] \<and>
     (\<forall>x \<in> set cs. 0 < length (rc_data x) \<and> length (rc_data x) \<le> 6) \<and>
     (\<forall>x \<in> set (butlast cs). 3 \<le> length (rc_data x))"
  using cdc_chunks_bounded_and_complete [of "\<lparr>fc_min_size = 2, fc_avg_size = 4, fc_max_size = 6\<rparr>" "[Seg [1, 2, 3], Seg [4, 5, 6, 7, 8]]" "Fixed 4"]
  by (simp add: healthy_def) blast

text \<open>Four bytes that arrive in two reads, in chunks of two: the short read makes a short chunk.\<close>

theorem fixed_chunks_reassemble_witness:
  "\<exists>cs. fixed_chunk [Seg [1, 2, 3], Seg [4]] (Fixed 2) = Inr cs \<and> map rc_data cs = [[1, 2], [3], [4]] \<and>
     concat (map rc_data cs) = [1, 2, 3, 4] \<and> fixed_chunk [Seg [1, 2, 3], Seg [4], ReadErr] (Fixed 2) = Inr cs"
  using fixed_chunks_reassemble [of "Fixed 2" "[Seg [1, 2, 3], Seg [4]]" "[]"] by (simp add: fixed_chunk_def)

end
