(* ===== verification/Agent_Core.thy ===== *)
theory Agent_Core
  imports FileSystem Agent_Chunker
begin

text \<open>
  The data and the interfaces of the backup agent (\<open>hbx-core\<close>): chunks, file entries,
  manifests, locks (\<open>domain/*.rs\<close>) and the traits of \<open>pipeline/traits.rs\<close>.  A trait
  object is a record of functions over the state of its implementation, so that the
  engine is defined once for every repository; the laws a client may rely on are the
  locale \<open>chunk_repository\<close>, which the local repository and the retrying wrapper
  interpret.
\<close>

subsection \<open>Domain\<close>

record ag_chunk_location =
  al_bucket :: string
  al_path :: string

record chunk_reference =
  cr_hash :: chunk_hash
  cr_version_id :: uuid
  cr_file_path :: string
  cr_offset :: u64

record encrypted_chunk =
  ec_ciphertext :: bytes
  ec_nonce :: bytes
  ec_auth_tag :: bytes

record file_attributes =
  fa_is_directory :: bool
  fa_is_hidden :: bool
  fa_is_system :: bool
  fa_is_read_only :: bool
  fa_windows_acl :: "bytes option"

definition file_attributes_default :: file_attributes where
  "file_attributes_default = \<lparr>fa_is_directory = False, fa_is_hidden = False, fa_is_system = False,
     fa_is_read_only = False, fa_windows_acl = None\<rparr>"

record ag_file_entry =
  af_path :: string
  af_size :: u64
  af_modified_at :: timestamp
  af_attributes :: file_attributes
  af_chunks :: "chunk_hash list"
  af_file_hash :: bytes

datatype backup_type = Full | Incremental

record manifest_hashes =
  mh_manifest_hash :: bytes
  mh_file_index_hash :: bytes
  mh_chunk_index_hash :: bytes
  mh_repo_hash :: bytes

record ag_manifest =
  am_version_id :: uuid
  am_timestamp :: timestamp
  am_parent_version_id :: "uuid option"
  am_version_number :: u64
  am_backup_type :: backup_type
  am_files :: "ag_file_entry list"
  am_chunk_refs :: "chunk_reference list"
  am_hashes :: manifest_hashes
  am_chunk_locations :: "(string, ag_chunk_location) hmap"

record version_summary =
  vs_version_id :: uuid
  vs_version_number :: u64
  vs_timestamp :: timestamp
  vs_backup_type :: backup_type
  vs_total_size :: u64
  vs_stored_size :: u64

datatype lock_operation = LkBackup | LkRestore | LkVerify | LkCompact | LkMigrate

fun lock_operation_debug :: "lock_operation \<Rightarrow> string" where
  "lock_operation_debug LkBackup = ''Backup''"
| "lock_operation_debug LkRestore = ''Restore''"
| "lock_operation_debug LkVerify = ''Verify''"
| "lock_operation_debug LkCompact = ''Compact''"
| "lock_operation_debug LkMigrate = ''Migrate''"

text \<open>Durations (\<open>ttl\<close>, \<open>timeout\<close>) are whole seconds.\<close>

record repo_lock =
  lk_lock_id :: uuid
  lk_holder :: string
  lk_acquired_at :: timestamp
  lk_ttl :: u64

datatype repo_error = ReAuthFailed | ReFull | ReLockTimeout | ReNotFound string
| ReIo io_error | ReSerialize | ReFailed string

subsection \<open>The repository interface\<close>

record 'r backup_repository =
  br_write_chunk :: "chunk_hash \<Rightarrow> encrypted_chunk \<Rightarrow> 'r \<Rightarrow> (repo_error + ag_chunk_location) \<times> 'r"
  br_read_chunk :: "ag_chunk_location \<Rightarrow> 'r \<Rightarrow> (repo_error + encrypted_chunk) \<times> 'r"
  br_chunk_exists :: "chunk_hash \<Rightarrow> 'r \<Rightarrow> (repo_error + bool) \<times> 'r"
  br_find_chunk :: "chunk_hash \<Rightarrow> 'r \<Rightarrow> (repo_error + ag_chunk_location) \<times> 'r"
  br_delete_chunk :: "ag_chunk_location \<Rightarrow> 'r \<Rightarrow> (repo_error + unit) \<times> 'r"
  br_write_manifest :: "uuid \<Rightarrow> ag_manifest \<Rightarrow> 'r \<Rightarrow> (repo_error + unit) \<times> 'r"
  br_read_manifest :: "uuid \<Rightarrow> 'r \<Rightarrow> (repo_error + ag_manifest) \<times> 'r"
  br_list_versions :: "'r \<Rightarrow> (repo_error + version_summary list) \<times> 'r"
  br_acquire_lock :: "lock_operation \<Rightarrow> u64 \<Rightarrow> 'r \<Rightarrow> (repo_error + repo_lock) \<times> 'r"

text \<open>
  What a client relies on.  \<open>stored r l\<close> is the chunk a repository in state \<open>r\<close> holds at
  location \<open>l\<close>, \<open>known r h\<close> whether it knows the hash, \<open>loc h\<close> where a chunk of that hash
  lives, \<open>saved r v\<close> the manifest of a version and \<open>ok\<close> a state in which calls succeed.
  Chunks that can be written are those \<open>wf\<close> accepts (a nonce and a tag of the fixed
  lengths), manifests those \<open>wfm\<close> accepts (that can be serialized).
\<close>

locale chunk_repository =
  fixes R :: "'r backup_repository"
    and stored :: "'r \<Rightarrow> ag_chunk_location \<Rightarrow> encrypted_chunk option"
    and known :: "'r \<Rightarrow> chunk_hash \<Rightarrow> bool"
    and loc :: "chunk_hash \<Rightarrow> ag_chunk_location"
    and saved :: "'r \<Rightarrow> uuid \<Rightarrow> ag_manifest option"
    and ok :: "'r \<Rightarrow> bool"
    and wf :: "encrypted_chunk \<Rightarrow> bool"
    and wfm :: "ag_manifest \<Rightarrow> bool"
  assumes loc_inj: "ok r \<Longrightarrow> loc h = loc k \<Longrightarrow> h = k"
    and write_chunk: "ok r \<Longrightarrow> wf e \<Longrightarrow> \<exists>r'. br_write_chunk R h e r = (Inr (loc h), r') \<and> ok r' \<and>
      stored r' = (stored r)(loc h \<mapsto> e) \<and> (\<forall>k. known r' k \<longleftrightarrow> known r k \<or> k = h) \<and> saved r' = saved r"
    and read_chunk: "ok r \<Longrightarrow> stored r l = Some e \<Longrightarrow> br_read_chunk R l r = (Inr e, r)"
    and chunk_exists: "ok r \<Longrightarrow> br_chunk_exists R h r = (Inr (known r h), r)"
    and find_chunk: "ok r \<Longrightarrow> known r h \<Longrightarrow> br_find_chunk R h r = (Inr (loc h), r)"
    and write_manifest: "ok r \<Longrightarrow> wfm m \<Longrightarrow> \<exists>r'. br_write_manifest R v m r = (Inr (), r') \<and> ok r' \<and>
      stored r' = stored r \<and> known r' = known r \<and> saved r' = (saved r)(v \<mapsto> m)"
    and write_manifest_wf: "br_write_manifest R v m r = (Inr (), r') \<Longrightarrow> wfm m"
    and read_manifest: "ok r \<Longrightarrow> saved r v = Some m \<Longrightarrow> br_read_manifest R v r = (Inr m, r)"

end
