(* ===== verification/Agent_Repo.thy ===== *)
theory Agent_Repo
  imports Agent_Core
begin

text \<open>
  The local repository (\<open>hbx-repo/src/backend.rs\<close>, \<open>format.rs\<close>), the lock files
  (\<open>lock.rs\<close>) and the retrying wrapper (\<open>retry.rs\<close>).  \<open>serde_json\<close> is the argument
  \<open>repo_json\<close>; fresh identifiers and the clock are arguments.
\<close>

record lock_file =
  lf_lock_id :: uuid
  lf_holder :: string
  lf_acquired_at :: timestamp
  lf_ttl_secs :: u64
  lf_operation :: string

record repository_meta =
  rp_format_version :: u32
  rp_repository_id :: uuid
  rp_created_at :: timestamp
  rp_backend_type :: string

record repo_json =
  oj_manifest_to_vec :: "ag_manifest \<Rightarrow> bytes option"
  oj_manifest_from_slice :: "bytes \<Rightarrow> ag_manifest option"
  oj_lock_to_vec :: "lock_file \<Rightarrow> bytes option"
  oj_lock_from_slice :: "bytes \<Rightarrow> lock_file option"
  oj_repo_lock_to_vec :: "repo_lock \<Rightarrow> bytes option"
  oj_meta_to_vec :: "repository_meta \<Rightarrow> bytes option"
  oj_config_to_vec :: "string \<times> u32 \<Rightarrow> bytes option"
  oj_volumes_to_vec :: "bytes option"

subsection \<open>The format\<close>

definition bucket_name :: "crates \<Rightarrow> chunk_hash \<Rightarrow> string" where
  "bucket_name X h = hex_encode X (take 1 h)"

definition ag_chunk_filename :: "crates \<Rightarrow> chunk_hash \<Rightarrow> string" where
  "ag_chunk_filename X h = hex_encode X h @ ''.chunk''"

definition manifest_filename :: "crates \<Rightarrow> uuid \<Rightarrow> string" where
  "manifest_filename X v = uuid_to_string X v @ ''.manifest''"

definition encode_encrypted_chunk :: "encrypted_chunk \<Rightarrow> bytes" where
  "encode_encrypted_chunk e = ec_nonce e @ ec_auth_tag e @ ec_ciphertext e"

definition decode_encrypted_chunk :: "bytes \<Rightarrow> io_error + encrypted_chunk" where
  "decode_encrypted_chunk data =
     (if length data < 12 + 16 then Inl IoInvalidData
      else Inr \<lparr>ec_ciphertext = drop 28 data, ec_nonce = take 12 data, ec_auth_tag = take 16 (drop 12 data)\<rparr>)"

fun create_dirs :: "path list \<Rightarrow> fsys \<Rightarrow> (io_error + unit) \<times> fsys" where
  "create_dirs [] s = (Inr (), s)"
| "create_dirs (p # ps) s = and_then (fs_create_dir_all p s) (\<lambda>_. create_dirs ps)"

definition repository_dirs :: "path \<Rightarrow> path list" where
  "repository_dirs root = map (\<lambda>d. root @ d)
     [[''config''], [''manifests''], [''manifests'', ''.staging''], [''index''], [''index'', ''.staging''],
      [''chunks''], [''volumes''], [''locks''], [''.hbx'']]"

text \<open>\<open>serde_json\<close> failing is \<open>io::Error::from\<close> of the serialization error (\<open>InvalidData\<close>).\<close>

definition write_json :: "path \<Rightarrow> bytes option \<Rightarrow> fsys \<Rightarrow> (io_error + unit) \<times> fsys" where
  "write_json p data s = (case data of None \<Rightarrow> (Inl IoInvalidData, s) | Some b \<Rightarrow> fs_write p b s)"

definition repository_init ::
  "crates \<Rightarrow> repo_json \<Rightarrow> timestamp \<Rightarrow> path \<Rightarrow> uuid \<Rightarrow> string \<Rightarrow> fsys \<Rightarrow> (io_error + unit) \<times> fsys" where
  "repository_init X J now root rid backend s =
     and_then (fs_create_dir_all root s) (\<lambda>_ s.
     and_then (create_dirs (repository_dirs root) s) (\<lambda>_ s.
     and_then (create_dirs (map (\<lambda>i. root @ [''chunks'', hex_encode X [of_nat i]]) [0..<256]) s) (\<lambda>_ s.
     and_then (write_json (root @ [''repository.json''])
       (oj_meta_to_vec J \<lparr>rp_format_version = 1, rp_repository_id = rid, rp_created_at = now, rp_backend_type = backend\<rparr>) s) (\<lambda>_ s.
     and_then (write_json (root @ [''config'', ''repo_config.json'']) (oj_config_to_vec J (''hash_prefix_2'', 256)) s) (\<lambda>_ s.
     and_then (fs_write (root @ [''.hbx'', ''format_version'']) [49] s) (\<lambda>_ s.
     write_json (root @ [''volumes'', ''volume_registry.json'']) (oj_volumes_to_vec J) s))))))"

subsection \<open>The local repository\<close>

definition local_open :: "path \<Rightarrow> fsys \<Rightarrow> repo_error + path" where
  "local_open root s =
     (if \<not> path_exists s (root @ [''repository.json'']) then Inl (ReNotFound ''repository.json not found'') else Inr root)"

definition local_init ::
  "crates \<Rightarrow> repo_json \<Rightarrow> timestamp \<Rightarrow> path \<Rightarrow> uuid \<Rightarrow> fsys \<Rightarrow> (repo_error + path) \<times> fsys" where
  "local_init X J now root rid s =
     and_then (map_err ReIo (repository_init X J now root rid ''Local'' s)) (\<lambda>_ s. (Inr root, s))"

definition local_chunk_path :: "crates \<Rightarrow> path \<Rightarrow> chunk_hash \<Rightarrow> path" where
  "local_chunk_path X root h = root @ [''chunks'', bucket_name X h, ag_chunk_filename X h]"

definition local_manifest_path :: "crates \<Rightarrow> path \<Rightarrow> uuid \<Rightarrow> path" where
  "local_manifest_path X root v = root @ [''manifests'', manifest_filename X v]"

definition local_staging_path :: "crates \<Rightarrow> path \<Rightarrow> uuid \<Rightarrow> path" where
  "local_staging_path X root v = root @ [''manifests'', ''.staging'', manifest_filename X v]"

definition local_lock_path :: "crates \<Rightarrow> path \<Rightarrow> uuid \<Rightarrow> path" where
  "local_lock_path X root l = root @ [''locks'', uuid_to_string X l @ ''.lock'']"

definition location_of :: "crates \<Rightarrow> chunk_hash \<Rightarrow> ag_chunk_location" where
  "location_of X h = \<lparr>al_bucket = bucket_name X h, al_path = ag_chunk_filename X h\<rparr>"

definition location_path :: "path \<Rightarrow> ag_chunk_location \<Rightarrow> path" where
  "location_path root l = root @ [''chunks'', al_bucket l, al_path l]"

definition local_write_chunk ::
  "crates \<Rightarrow> path \<Rightarrow> chunk_hash \<Rightarrow> encrypted_chunk \<Rightarrow> fsys \<Rightarrow> (repo_error + ag_chunk_location) \<times> fsys" where
  "local_write_chunk X root h e s =
     (let p = local_chunk_path X root h in
      and_then (map_err ReIo (fs_create_dir_all (butlast p) s)) (\<lambda>_ s.
      and_then (map_err ReIo (fs_write p (encode_encrypted_chunk e) s)) (\<lambda>_ s.
      (Inr (location_of X h), s))))"

definition local_read_chunk :: "path \<Rightarrow> ag_chunk_location \<Rightarrow> fsys \<Rightarrow> (repo_error + encrypted_chunk) \<times> fsys" where
  "local_read_chunk root l s =
     and_then (map_err ReIo (fs_read (location_path root l) s)) (\<lambda>data s.
       map_err ReIo (decode_encrypted_chunk data, s))"

definition local_chunk_exists :: "crates \<Rightarrow> path \<Rightarrow> chunk_hash \<Rightarrow> fsys \<Rightarrow> (repo_error + bool) \<times> fsys" where
  "local_chunk_exists X root h s = (Inr (path_exists s (local_chunk_path X root h)), s)"

definition local_find_chunk :: "crates \<Rightarrow> path \<Rightarrow> chunk_hash \<Rightarrow> fsys \<Rightarrow> (repo_error + ag_chunk_location) \<times> fsys" where
  "local_find_chunk X root h s =
     (if \<not> path_exists s (local_chunk_path X root h) then (Inl (ReFailed ''chunk not found''), s)
      else (Inr (location_of X h), s))"

definition local_delete_chunk :: "path \<Rightarrow> ag_chunk_location \<Rightarrow> fsys \<Rightarrow> (repo_error + unit) \<times> fsys" where
  "local_delete_chunk root l s =
     (if path_exists s (location_path root l) then map_err ReIo (fs_remove_file (location_path root l) s)
      else (Inr (), s))"

definition local_write_manifest ::
  "crates \<Rightarrow> repo_json \<Rightarrow> path \<Rightarrow> uuid \<Rightarrow> ag_manifest \<Rightarrow> fsys \<Rightarrow> (repo_error + unit) \<times> fsys" where
  "local_write_manifest X J root v m s = (case oj_manifest_to_vec J m of
     None \<Rightarrow> (Inl ReSerialize, s)
   | Some data \<Rightarrow>
       and_then (map_err ReIo (fs_write (local_staging_path X root v) data s)) (\<lambda>_ s.
       map_err ReIo (fs_rename (local_staging_path X root v) (local_manifest_path X root v) s)))"

definition local_read_manifest ::
  "crates \<Rightarrow> repo_json \<Rightarrow> path \<Rightarrow> uuid \<Rightarrow> fsys \<Rightarrow> (repo_error + ag_manifest) \<times> fsys" where
  "local_read_manifest X J root v s =
     and_then (map_err ReIo (fs_read (local_manifest_path X root v) s)) (\<lambda>data s.
       case oj_manifest_from_slice J data of None \<Rightarrow> (Inl ReSerialize, s) | Some m \<Rightarrow> (Inr m, s))"

fun read_summaries ::
  "crates \<Rightarrow> repo_json \<Rightarrow> path \<Rightarrow> string list \<Rightarrow> fsys \<Rightarrow> (repo_error + version_summary list) \<times> fsys" where
  "read_summaries X J dir [] s = (Inr [], s)"
| "read_summaries X J dir (name # names) s =
     (if \<not> is_file s (dir @ [name]) \<or> \<not> suffix ''.manifest'' name then read_summaries X J dir names s
      else case uuid_parse X (take (length name - length ''.manifest'') name) of
        None \<Rightarrow> read_summaries X J dir names s
      | Some u \<Rightarrow>
          and_then (map_err ReIo (fs_read (dir @ [name]) s)) (\<lambda>data s.
          and_then (read_summaries X J dir names s) (\<lambda>rest s.
          (Inr (case oj_manifest_from_slice J data of
             None \<Rightarrow> rest
           | Some m \<Rightarrow> \<lparr>vs_version_id = u, vs_version_number = am_version_number m, vs_timestamp = am_timestamp m,
               vs_backup_type = am_backup_type m, vs_total_size = 0, vs_stored_size = 0\<rparr> # rest), s))))"

definition local_list_versions ::
  "crates \<Rightarrow> repo_json \<Rightarrow> path \<Rightarrow> fsys \<Rightarrow> (repo_error + version_summary list) \<times> fsys" where
  "local_list_versions X J root s =
     (if \<not> path_exists s (root @ [''manifests'']) then (Inr [], s)
      else and_then (map_err ReIo (fs_read_dir (root @ [''manifests'']) s))
             (\<lambda>names. read_summaries X J (root @ [''manifests'']) names))"

definition local_acquire_lock ::
  "crates \<Rightarrow> repo_json \<Rightarrow> uuid \<Rightarrow> timestamp \<Rightarrow> path \<Rightarrow> lock_operation \<Rightarrow> u64 \<Rightarrow> fsys \<Rightarrow> (repo_error + repo_lock) \<times> fsys" where
  "local_acquire_lock X J fresh now root op timeout s =
     (let lock = \<lparr>lk_lock_id = fresh, lk_holder = lock_operation_debug op, lk_acquired_at = now, lk_ttl = 300\<rparr>
      in case oj_repo_lock_to_vec J lock of
           None \<Rightarrow> (Inl ReSerialize, s)
         | Some data \<Rightarrow>
             and_then (map_err ReIo (fs_write (local_lock_path X root fresh) data s)) (\<lambda>_ s. (Inr lock, s)))"

definition local_delete_object :: "path \<Rightarrow> path \<Rightarrow> fsys \<Rightarrow> (repo_error + unit) \<times> fsys" where
  "local_delete_object root key s =
     (if path_exists s (root @ key) then map_err ReIo (fs_remove_file (root @ key) s) else (Inr (), s))"

definition local_repository ::
  "crates \<Rightarrow> repo_json \<Rightarrow> uuid \<Rightarrow> timestamp \<Rightarrow> path \<Rightarrow> fsys backup_repository" where
  "local_repository X J fresh now root = \<lparr>
     br_write_chunk = local_write_chunk X root, br_read_chunk = local_read_chunk root,
     br_chunk_exists = local_chunk_exists X root, br_find_chunk = local_find_chunk X root,
     br_delete_chunk = local_delete_chunk root, br_write_manifest = local_write_manifest X J root,
     br_read_manifest = local_read_manifest X J root, br_list_versions = local_list_versions X J root,
     br_acquire_lock = local_acquire_lock X J fresh now root\<rparr>"

subsection \<open>Retries\<close>

record retry_config =
  rt_max_retries :: u32
  rt_initial_backoff_ms :: u64
  rt_max_backoff_ms :: u64

definition retry_config_new :: retry_config where
  "retry_config_new = \<lparr>rt_max_retries = 5, rt_initial_backoff_ms = 1000, rt_max_backoff_ms = 30000\<rparr>"

definition backoff :: "retry_config \<Rightarrow> nat \<Rightarrow> u64" where
  "backoff c attempt = min (rt_initial_backoff_ms c * 2 ^ attempt) (rt_max_backoff_ms c)"

fun is_retryable :: "repo_error \<Rightarrow> bool" where
  "is_retryable (ReIo e) = True"
| "is_retryable (ReFailed m) = True"
| "is_retryable _ = False"

text \<open>\<open>left\<close> is \<open>max_retries - attempt\<close>.\<close>

fun retry_loop :: "nat \<Rightarrow> ('r \<Rightarrow> (repo_error + 'a) \<times> 'r) \<Rightarrow> 'r \<Rightarrow> (repo_error + 'a) \<times> 'r" where
  "retry_loop left f r = (case f r of
     (Inr x, r') \<Rightarrow> (Inr x, r')
   | (Inl e, r') \<Rightarrow>
       if \<not> is_retryable e then (Inl e, r')
       else case left of 0 \<Rightarrow> (Inl e, r') | Suc n \<Rightarrow> retry_loop n f r')"

declare retry_loop.simps [simp del]

definition retry :: "retry_config \<Rightarrow> ('r \<Rightarrow> (repo_error + 'a) \<times> 'r) \<Rightarrow> 'r \<Rightarrow> (repo_error + 'a) \<times> 'r" where
  "retry c f = retry_loop (unat (rt_max_retries c)) f"

definition retry_repository :: "retry_config \<Rightarrow> 'r backup_repository \<Rightarrow> 'r backup_repository" where
  "retry_repository c R = \<lparr>
     br_write_chunk = (\<lambda>h e. retry c (br_write_chunk R h e)), br_read_chunk = (\<lambda>l. retry c (br_read_chunk R l)),
     br_chunk_exists = (\<lambda>h. retry c (br_chunk_exists R h)), br_find_chunk = (\<lambda>h. retry c (br_find_chunk R h)),
     br_delete_chunk = (\<lambda>l. retry c (br_delete_chunk R l)),
     br_write_manifest = (\<lambda>v m. retry c (br_write_manifest R v m)),
     br_read_manifest = (\<lambda>v. retry c (br_read_manifest R v)), br_list_versions = retry c (br_list_versions R),
     br_acquire_lock = (\<lambda>op t. retry c (br_acquire_lock R op t))\<rparr>"

subsection \<open>Lock files\<close>

definition lock_file_new :: "uuid \<Rightarrow> timestamp \<Rightarrow> lock_operation \<Rightarrow> u64 \<Rightarrow> lock_file" where
  "lock_file_new fresh now op ttl = \<lparr>lf_lock_id = fresh, lf_holder = lock_operation_debug op, lf_acquired_at = now,
     lf_ttl_secs = ttl, lf_operation = lock_operation_debug op\<rparr>"

definition lock_is_expired :: "timestamp \<Rightarrow> lock_file \<Rightarrow> bool" where
  "lock_is_expired now l \<longleftrightarrow> num_seconds (now - lf_acquired_at l) > sint (lf_ttl_secs l)"

definition to_repo_lock :: "lock_file \<Rightarrow> repo_lock" where
  "to_repo_lock l = \<lparr>lk_lock_id = lf_lock_id l, lk_holder = lf_holder l, lk_acquired_at = lf_acquired_at l, lk_ttl = lf_ttl_secs l\<rparr>"

definition has_extension :: "string \<Rightarrow> string \<Rightarrow> bool" where
  "has_extension ext name \<longleftrightarrow> file_stem name @ ''.'' @ ext = name"

definition lock_path :: "crates \<Rightarrow> path \<Rightarrow> uuid \<Rightarrow> path" where
  "lock_path X dir l = dir @ [uuid_to_string X l @ ''.lock'']"

fun cleanup_locks :: "repo_json \<Rightarrow> timestamp \<Rightarrow> path \<Rightarrow> string list \<Rightarrow> fsys \<Rightarrow> (repo_error + nat) \<times> fsys" where
  "cleanup_locks J now dir [] s = (Inr 0, s)"
| "cleanup_locks J now dir (name # names) s =
     (if \<not> is_file s (dir @ [name]) \<or> \<not> has_extension ''lock'' name then cleanup_locks J now dir names s
      else and_then (map_err ReIo (fs_read (dir @ [name]) s)) (\<lambda>data s.
        case oj_lock_from_slice J data of
          Some l \<Rightarrow>
            if lock_is_expired now l then
              and_then (map_err ReIo (fs_remove_file (dir @ [name]) s)) (\<lambda>_ s.
              and_then (cleanup_locks J now dir names s) (\<lambda>n s. (Inr (Suc n), s)))
            else cleanup_locks J now dir names s
        | None \<Rightarrow> cleanup_locks J now dir names s))"

definition cleanup_expired :: "repo_json \<Rightarrow> timestamp \<Rightarrow> path \<Rightarrow> fsys \<Rightarrow> (repo_error + nat) \<times> fsys" where
  "cleanup_expired J now dir s =
     (if \<not> path_exists s dir then (Inr 0, s)
      else and_then (map_err ReIo (fs_read_dir dir s)) (\<lambda>names. cleanup_locks J now dir names))"

definition lock_acquire ::
  "crates \<Rightarrow> repo_json \<Rightarrow> uuid \<Rightarrow> timestamp \<Rightarrow> path \<Rightarrow> lock_operation \<Rightarrow> u64 \<Rightarrow> fsys \<Rightarrow> (repo_error + repo_lock) \<times> fsys" where
  "lock_acquire X J fresh now dir op timeout s =
     and_then (map_err ReIo (fs_create_dir_all dir s)) (\<lambda>_ s.
     and_then (cleanup_expired J now dir s) (\<lambda>_ s.
     let l = lock_file_new fresh now op timeout
     in case oj_lock_to_vec J l of
          None \<Rightarrow> (Inl ReSerialize, s)
        | Some data \<Rightarrow>
            and_then (map_err ReIo (fs_write (lock_path X dir fresh) data s)) (\<lambda>_ s. (Inr (to_repo_lock l), s))))"

definition lock_release :: "crates \<Rightarrow> path \<Rightarrow> uuid \<Rightarrow> fsys \<Rightarrow> (repo_error + unit) \<times> fsys" where
  "lock_release X dir l s =
     (if path_exists s (lock_path X dir l) then map_err ReIo (fs_remove_file (lock_path X dir l) s) else (Inr (), s))"

fun active_locks :: "repo_json \<Rightarrow> timestamp \<Rightarrow> path \<Rightarrow> string list \<Rightarrow> fsys \<Rightarrow> (repo_error + lock_file list) \<times> fsys" where
  "active_locks J now dir [] s = (Inr [], s)"
| "active_locks J now dir (name # names) s =
     (if \<not> is_file s (dir @ [name]) \<or> \<not> has_extension ''lock'' name then active_locks J now dir names s
      else and_then (map_err ReIo (fs_read (dir @ [name]) s)) (\<lambda>data s.
        case oj_lock_from_slice J data of
          Some l \<Rightarrow>
            if lock_is_expired now l then active_locks J now dir names s
            else and_then (active_locks J now dir names s) (\<lambda>ls s. (Inr (l # ls), s))
        | None \<Rightarrow> active_locks J now dir names s))"

definition list_active_locks :: "repo_json \<Rightarrow> timestamp \<Rightarrow> path \<Rightarrow> fsys \<Rightarrow> (repo_error + lock_file list) \<times> fsys" where
  "list_active_locks J now dir s =
     (if \<not> path_exists s dir then (Inr [], s)
      else and_then (map_err ReIo (fs_read_dir dir s)) (\<lambda>names. active_locks J now dir names))"

fun some_lock :: "repo_json \<Rightarrow> timestamp \<Rightarrow> path \<Rightarrow> string list \<Rightarrow> fsys \<Rightarrow> (repo_error + bool) \<times> fsys" where
  "some_lock J now dir [] s = (Inr False, s)"
| "some_lock J now dir (name # names) s =
     (if \<not> is_file s (dir @ [name]) \<or> \<not> has_extension ''lock'' name then some_lock J now dir names s
      else and_then (map_err ReIo (fs_read (dir @ [name]) s)) (\<lambda>data s.
        case oj_lock_from_slice J data of
          Some l \<Rightarrow> if \<not> lock_is_expired now l then (Inr True, s) else some_lock J now dir names s
        | None \<Rightarrow> some_lock J now dir names s))"

definition is_locked :: "repo_json \<Rightarrow> timestamp \<Rightarrow> path \<Rightarrow> fsys \<Rightarrow> (repo_error + bool) \<times> fsys" where
  "is_locked J now dir s =
     (if \<not> path_exists s dir then (Inr False, s)
      else and_then (map_err ReIo (fs_read_dir dir s)) (\<lambda>names. some_lock J now dir names))"

subsection \<open>The local repository keeps the contract\<close>

text \<open>A disk on which the repository works: no faults, the directories of the format in place.
  The other conjuncts are what the third-party crates promise: \<open>hex\<close> and \<open>Uuid\<close> print
  injectively, reading JSON inverts writing it.\<close>

definition local_ok :: "crates \<Rightarrow> repo_json \<Rightarrow> path \<Rightarrow> fsys \<Rightarrow> bool" where
  "local_ok X J root s \<longleftrightarrow> faults s = [] \<and> inj (hex_encode X) \<and> inj (uuid_to_string X) \<and>
     (\<forall>m b. oj_manifest_to_vec J m = Some b \<longrightarrow> oj_manifest_from_slice J b = Some m) \<and>
     (\<forall>b q. prefix q (root @ [''chunks'', b]) \<longrightarrow> \<not> is_file s q) \<and>
     (\<forall>b f. \<not> is_dir s (root @ [''chunks'', b, f])) \<and>
     is_dir s (root @ [''manifests'']) \<and> is_dir s (root @ [''manifests'', ''.staging'']) \<and>
     (\<forall>v. \<not> is_dir s (local_manifest_path X root v) \<and> \<not> is_dir s (local_staging_path X root v))"

definition local_stored :: "path \<Rightarrow> fsys \<Rightarrow> ag_chunk_location \<Rightarrow> encrypted_chunk option" where
  "local_stored root s l = (case lookup s (location_path root l) of
     Some (File d) \<Rightarrow> (case decode_encrypted_chunk d of Inr e \<Rightarrow> Some e | Inl _ \<Rightarrow> None) | _ \<Rightarrow> None)"

definition local_known :: "crates \<Rightarrow> path \<Rightarrow> fsys \<Rightarrow> chunk_hash \<Rightarrow> bool" where
  "local_known X root s h \<longleftrightarrow> path_exists s (local_chunk_path X root h)"

definition local_saved :: "crates \<Rightarrow> repo_json \<Rightarrow> path \<Rightarrow> fsys \<Rightarrow> uuid \<Rightarrow> ag_manifest option" where
  "local_saved X J root s v = (case lookup s (local_manifest_path X root v) of
     Some (File d) \<Rightarrow> oj_manifest_from_slice J d | _ \<Rightarrow> None)"

definition chunk_wf :: "encrypted_chunk \<Rightarrow> bool" where
  "chunk_wf e \<longleftrightarrow> length (ec_nonce e) = 12 \<and> length (ec_auth_tag e) = 16"

lemma decode_encode_chunk: "chunk_wf e \<Longrightarrow> decode_encrypted_chunk (encode_encrypted_chunk e) = Inr e"
  by (simp add: chunk_wf_def decode_encrypted_chunk_def encode_encrypted_chunk_def)

lemma location_path_of: "location_path root (location_of X h) = local_chunk_path X root h"
  by (simp add: location_path_def location_of_def local_chunk_path_def)

lemma location_path_inj: "location_path root l = location_path root k \<longleftrightarrow> l = k"
  by (cases l; cases k) (simp add: location_path_def)

lemma location_of_inj: "inj (hex_encode X) \<Longrightarrow> location_of X h = location_of X k \<Longrightarrow> h = k"
  by (auto simp: location_of_def ag_chunk_filename_def dest: injD)

lemma local_chunk_path_inj: "inj (hex_encode X) \<Longrightarrow> local_chunk_path X root h = local_chunk_path X root k \<longleftrightarrow> h = k"
  by (auto simp: local_chunk_path_def ag_chunk_filename_def dest: injD)

lemma path_exists_snoc: "p \<noteq> [] \<Longrightarrow> path_exists s p \<longleftrightarrow> lookup s p \<noteq> None"
  by (simp add: path_exists_def)

lemma local_ok_change:
  assumes ok: "local_ok X J root s" and f: "faults t = []"
    and isf: "\<And>q. is_file t q \<Longrightarrow> is_file s q \<or> (\<forall>b. \<not> prefix q (root @ [''chunks'', b]))"
    and dir1: "\<And>q. is_dir t q \<Longrightarrow> is_dir s q \<or> (\<exists>b. prefix q (root @ [''chunks'', b]))"
    and dir2: "\<And>q. is_dir s q \<Longrightarrow> is_dir t q"
  shows "local_ok X J root t"
proof -
  have "\<not> is_dir t (root @ [''chunks'', b, f])" for b f
    using ok dir1 [of "root @ [''chunks'', b, f]"] by (auto simp: local_ok_def)
  moreover have "\<not> is_dir t (local_manifest_path X root v)" "\<not> is_dir t (local_staging_path X root v)" for v
    using ok dir1 [of "local_manifest_path X root v"] dir1 [of "local_staging_path X root v"]
    by (auto simp: local_ok_def local_manifest_path_def local_staging_path_def)
  ultimately show ?thesis using ok f isf dir2 unfolding local_ok_def by blast
qed

lemma local_write_chunk_ok:
  assumes "local_ok X J root s" and "chunk_wf e"
  shows "\<exists>t. local_write_chunk X root h e s = (Inr (location_of X h), t) \<and> local_ok X J root t \<and>
     local_stored root t = (local_stored root s)(location_of X h \<mapsto> e) \<and>
     (\<forall>k. local_known X root t k \<longleftrightarrow> local_known X root s k \<or> k = h) \<and> local_saved X J root t = local_saved X J root s"
proof -
  let ?p = "local_chunk_path X root h" and ?d = "encode_encrypted_chunk e"
  have bl: "butlast ?p = root @ [''chunks'', bucket_name X h]" by (simp add: local_chunk_path_def butlast_append)
  obtain u where u: "fs_create_dir_all (butlast ?p) s = (Inr (), u)" "is_dir u (butlast ?p)" "faults u = []"
    using create_dir_all_total [of s "butlast ?p"] assms(1) bl by (auto simp: local_ok_def)
  note keep = create_dir_all_lookup [OF u(1)]
  have np: "lookup u q = lookup s q" if "\<not> prefix q (butlast ?p)" for q using keep [of q] that by auto
  have "\<not> is_dir u ?p" using assms(1) np [of ?p] bl
    by (auto simp: local_ok_def is_dir_def local_chunk_path_def dest: prefix_length_le)
  then have w: "fs_write ?p ?d u = (Inr (), set_node ?p (File ?d) u)" using u fs_write_total by blast
  let ?t = "set_node ?p (File ?d) u"
  have res: "local_write_chunk X root h e s = (Inr (location_of X h), ?t)"
    using u(1) w by (simp add: local_write_chunk_def Let_def)
  have isf: "is_file ?t q \<Longrightarrow> q = ?p \<or> is_file s q" for q
    using keep [of q] by (cases "lookup s q") (auto simp: is_file_def split: if_splits)
  have dir1: "is_dir ?t q \<Longrightarrow> is_dir s q \<or> prefix q (butlast ?p)" for q
    using keep [of q] by (auto simp: is_dir_def split: if_splits)
  have dir2: "is_dir s q \<Longrightarrow> is_dir ?t q" for q
    using keep [of q] \<open>\<not> is_dir u ?p\<close> by (auto simp: is_dir_def)
  have nop: "\<not> prefix ?p (root @ [''chunks'', b])" for b by (simp add: local_chunk_path_def)
  have "faults ?t = []" using u(3) by simp
  with assms(1) have "local_ok X J root ?t"
    using isf dir1 nop dir2 unfolding bl by (elim local_ok_change) blast+
  moreover have "local_stored root ?t l = ((local_stored root s)(location_of X h \<mapsto> e)) l" for l
  proof -
    have "\<not> prefix (location_path root l) (butlast ?p)" unfolding bl by (simp add: location_path_def)
    moreover have "location_path root l = ?p \<longleftrightarrow> l = location_of X h"
      using location_path_inj [of root l "location_of X h"] by (simp add: location_path_of)
    ultimately show ?thesis using np assms(2) by (simp add: local_stored_def decode_encode_chunk)
  qed
  moreover have "local_known X root ?t k \<longleftrightarrow> local_known X root s k \<or> k = h" for k
    using np [of "local_chunk_path X root k"] local_chunk_path_inj [of X root k h] assms(1)
    unfolding bl by (auto simp: local_known_def path_exists_def local_chunk_path_def local_ok_def)
  moreover have "local_saved X J root ?t v = local_saved X J root s v" for v
    using np [of "local_manifest_path X root v"] unfolding bl
    by (auto simp: local_saved_def local_manifest_path_def local_chunk_path_def)
  ultimately show ?thesis using res by (intro exI [of _ ?t]) (auto simp: fun_eq_iff)
qed

lemma manifest_paths:
  "local_manifest_path X root v \<noteq> local_staging_path X root v'"
  "inj (uuid_to_string X) \<Longrightarrow> local_manifest_path X root v = local_manifest_path X root v' \<longleftrightarrow> v = v'"
  by (auto simp: local_manifest_path_def local_staging_path_def manifest_filename_def dest: injD)

lemma local_write_manifest_ok:
  assumes ok: "local_ok X J root s" and "oj_manifest_to_vec J m \<noteq> None"
  shows "\<exists>t. local_write_manifest X J root v m s = (Inr (), t) \<and> local_ok X J root t \<and>
     local_stored root t = local_stored root s \<and> local_known X root t = local_known X root s \<and>
     local_saved X J root t = (local_saved X J root s)(v \<mapsto> m)"
proof -
  obtain d where d: "oj_manifest_to_vec J m = Some d" using assms(2) by auto
  let ?g = "local_staging_path X root v" and ?p = "local_manifest_path X root v"
  let ?u = "set_node ?g (File d) s" and ?t = "set_node ?p (File d) (del_node ?g (set_node ?g (File d) s))"
  have dirs: "is_dir s (butlast ?g)" "is_dir s (butlast ?p)" "\<not> is_dir s ?g" "\<not> is_dir s ?p" "faults s = []"
    using ok by (auto simp: local_ok_def local_staging_path_def local_manifest_path_def butlast_append)
  have ne: "butlast ?p \<noteq> ?g" by (simp add: local_staging_path_def local_manifest_path_def butlast_append)
  have "fs_write ?g d s = (Inr (), ?u)" using dirs fs_write_total by blast
  moreover have "fs_rename ?g ?p ?u = (Inr (), ?t)"
    using dirs ne manifest_paths(1) [of X root v v] by (simp add: fs_rename_def is_dir_def)
  ultimately have res: "local_write_manifest X J root v m s = (Inr (), ?t)"
    using d by (simp add: local_write_manifest_def)
  have lk: "lookup ?t q = (if q = ?p then Some (File d) else if q = ?g then None else lookup s q)" for q by simp
  have chunk: "\<not> prefix ?p (root @ [''chunks'', b])" "root @ [''chunks'', b, c] \<noteq> ?p" "root @ [''chunks'', b, c] \<noteq> ?g" for b c
    by (auto simp: local_staging_path_def local_manifest_path_def)
  have "faults ?t = []" using dirs(5) by simp
  with ok have "local_ok X J root ?t"
    by (rule local_ok_change) (use dirs chunk in \<open>auto simp: is_file_def is_dir_def split: if_splits\<close>)
  moreover have "local_stored root ?t = local_stored root s" "local_known X root ?t = local_known X root s"
    using chunk by (auto simp: local_stored_def local_known_def location_path_def local_chunk_path_def path_exists_def fun_eq_iff)
  moreover have "local_saved X J root ?t = (local_saved X J root s)(v \<mapsto> m)"
    using ok d manifest_paths by (auto simp: local_saved_def local_ok_def fun_eq_iff)
  ultimately show ?thesis using res by blast
qed

interpretation local: chunk_repository "local_repository X J fresh now root" "local_stored root" "local_known X root"
  "location_of X" "local_saved X J root" "local_ok X J root" chunk_wf "\<lambda>m. oj_manifest_to_vec J m \<noteq> None"
  for X J fresh now root
proof unfold_locales
  fix r l e assume "local_ok X J root r" "local_stored root r l = Some e"
  then show "br_read_chunk (local_repository X J fresh now root) l r = (Inr e, r)"
    by (auto simp: local_repository_def local_read_chunk_def local_stored_def fs_read_def local_ok_def
        split: option.splits node.splits sum.splits)
next
  fix r v m assume "local_ok X J root r" "local_saved X J root r v = Some m"
  then show "br_read_manifest (local_repository X J fresh now root) v r = (Inr m, r)"
    by (auto simp: local_repository_def local_read_manifest_def local_saved_def fs_read_def local_ok_def
        split: option.splits node.splits)
next
  fix v m r r' assume "br_write_manifest (local_repository X J fresh now root) v m r = (Inr (), r')"
  then show "oj_manifest_to_vec J m \<noteq> None"
    by (auto simp: local_repository_def local_write_manifest_def split: option.splits)
next
  fix r h k assume "local_ok X J root r" "location_of X h = location_of X k"
  then show "h = k" using location_of_inj by (auto simp: local_ok_def)
next
  fix r h assume "local_known X root r h"
  then show "br_find_chunk (local_repository X J fresh now root) h r = (Inr (location_of X h), r)"
    by (simp add: local_repository_def local_find_chunk_def local_known_def)
qed (use local_write_chunk_ok local_write_manifest_ok in
      \<open>simp_all add: local_repository_def local_chunk_exists_def local_known_def [symmetric]\<close>)

subsection \<open>Retrying\<close>

lemma retry_loop_Ok_call: "retry_loop n f r = (Inr x, r') \<Longrightarrow> \<exists>q. f q = (Inr x, r')"
  by (induction n f r rule: retry_loop.induct)
     (subst (asm) retry_loop.simps, auto split: prod.splits sum.splits if_splits nat.splits)

lemma retry_Ok: "f r = (Inr x, r') \<Longrightarrow> retry c f r = (Inr x, r')"
  by (simp add: retry_def retry_loop.simps)

context chunk_repository begin

lemma retrying: "chunk_repository (retry_repository c R) stored known loc saved ok wf wfm"
proof unfold_locales
  fix r e h assume "ok r" "wf e"
  then obtain r' where r': "br_write_chunk R h e r = (Inr (loc h), r')" "ok r'" "stored r' = (stored r)(loc h \<mapsto> e)"
      "\<forall>k. known r' k \<longleftrightarrow> known r k \<or> k = h" "saved r' = saved r"
    using write_chunk by blast
  then show "\<exists>r'. br_write_chunk (retry_repository c R) h e r = (Inr (loc h), r') \<and> ok r' \<and>
      stored r' = (stored r)(loc h \<mapsto> e) \<and> (\<forall>k. known r' k \<longleftrightarrow> known r k \<or> k = h) \<and> saved r' = saved r"
    by (intro exI [of _ r']) (simp add: retry_repository_def retry_Ok)
next
  fix v m r r' assume "br_write_manifest (retry_repository c R) v m r = (Inr (), r')"
  then show "wfm m" using retry_loop_Ok_call write_manifest_wf by (fastforce simp: retry_repository_def retry_def)
next
  fix r m v assume "ok r" "wfm m"
  then obtain r' where "br_write_manifest R v m r = (Inr (), r')" "ok r'" "stored r' = stored r" "known r' = known r"
      "saved r' = (saved r)(v \<mapsto> m)"
    using write_manifest by blast
  then show "\<exists>r'. br_write_manifest (retry_repository c R) v m r = (Inr (), r') \<and> ok r' \<and>
      stored r' = stored r \<and> known r' = known r \<and> saved r' = (saved r)(v \<mapsto> m)"
    by (intro exI [of _ r']) (simp add: retry_repository_def retry_Ok)
qed (simp_all add: retry_repository_def retry_Ok read_chunk chunk_exists find_chunk read_manifest loc_inj)

end

interpretation retried: chunk_repository "retry_repository c (local_repository X J fresh now root)" "local_stored root"
  "local_known X root" "location_of X" "local_saved X J root" "local_ok X J root" chunk_wf "\<lambda>m. oj_manifest_to_vec J m \<noteq> None"
  for c X J fresh now root
  by (rule local.retrying)

subsection \<open>Locks\<close>

text \<open>Without faults a clean-up succeeds and removes expired locks only.\<close>

lemma cleanup_locks_quiet:
  "faults s = [] \<Longrightarrow> \<exists>n t. cleanup_locks J now dir names s = (Inr n, t) \<and> faults t = [] \<and>
     (\<forall>q. lookup t q = lookup s q \<or> (\<exists>d l. lookup s q = Some (File d) \<and> oj_lock_from_slice J d = Some l \<and>
        lock_is_expired now l \<and> lookup t q = None))"
proof (induction names arbitrary: s)
  case (Cons name names)
  show ?case
  proof (cases "\<not> is_file s (dir @ [name]) \<or> \<not> has_extension ''lock'' name")
    case True
    then show ?thesis using Cons by simp
  next
    case False
    then obtain d where d: "lookup s (dir @ [name]) = Some (File d)"
      by (auto simp: is_file_def split: option.splits node.splits)
    have rd: "fs_read (dir @ [name]) s = (Inr d, s)" using d Cons.prems by (simp add: fs_read_def)
    show ?thesis
    proof (cases "\<exists>l. oj_lock_from_slice J d = Some l \<and> lock_is_expired now l")
      case True
      then obtain l where l: "oj_lock_from_slice J d = Some l" "lock_is_expired now l" by blast
      let ?u = "del_node (dir @ [name]) s"
      have rm: "fs_remove_file (dir @ [name]) s = (Inr (), ?u)" using d Cons.prems by (simp add: fs_remove_file_def)
      obtain n t where t: "cleanup_locks J now dir names ?u = (Inr n, t)" "faults t = []"
          "\<forall>q. lookup t q = lookup ?u q \<or> (\<exists>d l. lookup ?u q = Some (File d) \<and> oj_lock_from_slice J d = Some l \<and>
             lock_is_expired now l \<and> lookup t q = None)"
        using Cons.IH [of ?u] Cons.prems by auto
      have "lookup t q = lookup s q \<or> (\<exists>d l. lookup s q = Some (File d) \<and> oj_lock_from_slice J d = Some l \<and>
             lock_is_expired now l \<and> lookup t q = None)" for q
        using t(3) [rule_format, of q] d l by (auto split: if_splits)
      then show ?thesis using False rd l rm t(1,2) by auto
    next
      case nexp: False
      then have "cleanup_locks J now dir (name # names) s = cleanup_locks J now dir names s"
        using False rd by (auto split: option.splits)
      then show ?thesis using Cons by simp
    qed
  qed
qed simp

lemma cleanup_expired_quiet:
  assumes "faults s = []" and "is_dir s dir"
  shows "\<exists>n t. cleanup_expired J now dir s = (Inr n, t) \<and> faults t = [] \<and>
     (\<forall>q. lookup t q = lookup s q \<or> (\<exists>d l. lookup s q = Some (File d) \<and> oj_lock_from_slice J d = Some l \<and>
        lock_is_expired now l \<and> lookup t q = None))"
proof -
  have "path_exists s dir" using assms(2) by (auto simp: path_exists_def is_dir_def)
  then show ?thesis
    using cleanup_locks_quiet [OF assms(1), of J now dir] assms by (simp add: cleanup_expired_def fs_read_dir_def)
qed

text \<open>The repository lock does not exclude anybody: on a working disk \<open>acquire\<close> succeeds although
  another lock is still active, and leaves both lock files behind.\<close>

theorem lock_acquire_never_excludes:
  assumes "faults s = []" and "\<forall>q. prefix q dir \<longrightarrow> \<not> is_file s q" and "\<not> is_dir s (lock_path X dir fresh)"
    and "oj_lock_to_vec J (lock_file_new fresh now op ttl) = Some b"
    and "lookup s (dir @ [name]) = Some (File d)" and "oj_lock_from_slice J d = Some l" and "\<not> lock_is_expired now l"
    and "dir @ [name] \<noteq> lock_path X dir fresh"
  shows "\<exists>t. lock_acquire X J fresh now dir op ttl s = (Inr (to_repo_lock (lock_file_new fresh now op ttl)), t) \<and>
     lookup t (dir @ [name]) = Some (File d) \<and> lookup t (lock_path X dir fresh) = Some (File b)"
proof -
  obtain u where u: "fs_create_dir_all dir s = (Inr (), u)" "is_dir u dir" "faults u = []"
    using create_dir_all_total [OF assms(1,2)] by blast
  have ulk: "lookup u (dir @ [name]) = Some (File d)" using create_dir_all_keeps_file [OF u(1) assms(5)] .
  have lp: "lock_path X dir fresh = dir @ [uuid_to_string X fresh @ ''.lock'']" by (simp add: lock_path_def)
  then have und: "\<not> is_dir u (lock_path X dir fresh)"
    using create_dir_all_lookup [OF u(1), of "lock_path X dir fresh"] assms(3) by (auto simp: is_dir_def dest: prefix_length_le)
  obtain n v where v: "cleanup_expired J now dir u = (Inr n, v)" "faults v = []"
     "\<forall>q. lookup v q = lookup u q \<or> (\<exists>d l. lookup u q = Some (File d) \<and> oj_lock_from_slice J d = Some l \<and>
        lock_is_expired now l \<and> lookup v q = None)"
    using cleanup_expired_quiet [OF u(3,2)] by blast
  have vlk: "lookup v (dir @ [name]) = Some (File d)" using v(3) [rule_format, of "dir @ [name]"] ulk assms(6,7) by auto
  have "is_dir v dir" using v(3) [rule_format, of dir] u(2) by (auto simp: is_dir_def)
  moreover have "\<not> is_dir v (lock_path X dir fresh)"
    using v(3) [rule_format, of "lock_path X dir fresh"] und by (auto simp: is_dir_def lp)
  ultimately have "fs_write (lock_path X dir fresh) b v = (Inr (), set_node (lock_path X dir fresh) (File b) v)"
    using fs_write_total [OF v(2)] by (simp add: lp)
  then have "lock_acquire X J fresh now dir op ttl s =
      (Inr (to_repo_lock (lock_file_new fresh now op ttl)), set_node (lock_path X dir fresh) (File b) v)"
    using u(1) v(1) assms(4) by (simp add: lock_acquire_def Let_def)
  then show ?thesis using vlk assms(8) by auto
qed

end
