(* ===== verification/Agent_Badou.thy ===== *)
theory Agent_Badou
  imports Badou_Session Agent_Repo
begin

text \<open>
  The agent's repository on the storage server (\<open>hbx-badou-provider\<close>): the operations of the
  repository trait as calls of the gRPC service.  The service is the model \<open>serve\<close> itself, so
  agent and bucket are verified as one program.

  The network between them is a plan: the \<open>n\<close>-th step (a connection or a call) goes through, does
  not reach the server, or reaches it and loses the answer.  Fresh identifiers and clocks of the
  \<open>n\<close>-th step are arguments too, as are serde, zstd and the tests whether an endpoint can be parsed and a
  token fits in a header.
  The state is the server and the number of steps made.
\<close>

subsection \<open>Client\<close>

datatype net = NetOk | RequestLost | ResponseLost

datatype client_error =
  BcTransport
| BcStatus status
| BcUnavailable
| BcHbop hbop_error_code
| BcInvalidEndpoint string

record provider_crates =
  pc_env :: server_env
  pc_net :: "nat \<Rightarrow> net"
  pc_call :: "nat \<Rightarrow> call_env"
  pc_endpoint_ok :: "string \<Rightarrow> bool"
  pc_header_ok :: "string \<Rightarrow> bool"
  pc_enc_to_vec :: "encrypted_chunk \<Rightarrow> bytes option"
  pc_enc_from_slice :: "bytes \<Rightarrow> encrypted_chunk option"
  pc_json :: repo_json
  pc_zstd_encode :: "bytes \<Rightarrow> bytes option"
  pc_zstd_decode :: "bytes \<Rightarrow> bytes option"
  pc_now :: "nat \<Rightarrow> timestamp"
  pc_fresh :: "string \<Rightarrow> nat \<Rightarrow> uuid"
  pc_uuid_nil :: uuid

abbreviation pc_crates :: "provider_crates \<Rightarrow> crates" where
  "pc_crates N \<equiv> sv_crates (pc_env N)"

record badou_provider =
  bd_endpoint :: string
  bd_repo_id :: string
  bd_jwt_token :: string
  bd_lock_holder :: string

record provider_st =
  ps_server :: server_state
  ps_step :: nat

definition provider_new :: "provider_crates \<Rightarrow> uuid \<Rightarrow> string \<Rightarrow> string \<Rightarrow> string \<Rightarrow> badou_provider" where
  "provider_new N fresh endpoint repo_id token =
     \<lparr>bd_endpoint = endpoint, bd_repo_id = repo_id, bd_jwt_token = token, bd_lock_holder = ''hbx-'' @ uuid_to_string (pc_crates N) fresh\<rparr>"

text \<open>\<open>BadouClientWithAuth::connect\<close>: the endpoint, the channel, then the headers.\<close>

definition client_connect :: "provider_crates \<Rightarrow> badou_provider \<Rightarrow> provider_st \<Rightarrow> (client_error + metadata) \<times> provider_st" where
  "client_connect N P st =
     (if \<not> pc_endpoint_ok N (bd_endpoint P) then (Inl (BcInvalidEndpoint ''endpoint''), st) else
      let t = ps_step st; st = st\<lparr>ps_step := Suc t\<rparr> in
      if pc_net N t \<noteq> NetOk then (Inl BcTransport, st)
      else if \<not> pc_header_ok N (''Bearer '' @ bd_jwt_token P) then (Inl (BcInvalidEndpoint ''header''), st)
      else (Inr \<lparr>md_authorization = Some (Some (''Bearer '' @ bd_jwt_token P)), md_version = Some (Some ''1'')\<rparr>, st))"

definition client_call ::
  "provider_crates \<Rightarrow> metadata \<Rightarrow> rpc \<Rightarrow> provider_st \<Rightarrow> (client_error + rpc_response) \<times> provider_st" where
  "client_call N md call st =
     (let t = ps_step st; st = st\<lparr>ps_step := Suc t\<rparr> in
      case pc_net N t of
        RequestLost \<Rightarrow> (Inl BcUnavailable, st)
      | ResponseLost \<Rightarrow> (Inl BcUnavailable, st\<lparr>ps_server := snd (serve (pc_env N) (pc_call N t) md call (ps_server st))\<rparr>)
      | NetOk \<Rightarrow> (case serve (pc_env N) (pc_call N t) md call (ps_server st) of (r, sv) \<Rightarrow>
          (case r of Inl s \<Rightarrow> Inl (BcStatus s) | Inr x \<Rightarrow> Inr x, st\<lparr>ps_server := sv\<rparr>)))"

fun map_client_error :: "client_error \<Rightarrow> repo_error" where
  "map_client_error BcTransport = ReFailed ''HBOP transport error''"
| "map_client_error (BcStatus s) = (case st_code s of
     GUnauthenticated \<Rightarrow> ReAuthFailed
   | GResourceExhausted \<Rightarrow> ReFull
   | GNotFound \<Rightarrow> ReNotFound (st_label s)
   | _ \<Rightarrow> ReFailed (st_label s))"
| "map_client_error BcUnavailable = ReFailed ''unavailable''"
| "map_client_error (BcHbop code) = (case code of
     HAuthFailed \<Rightarrow> ReAuthFailed
   | HDiskFull \<Rightarrow> ReFull
   | HChunkNotFound \<Rightarrow> ReNotFound ''chunk''
   | HRepoNotFound \<Rightarrow> ReNotFound ''repository''
   | _ \<Rightarrow> ReFailed ''hbop'')"
| "map_client_error (BcInvalidEndpoint msg) = ReFailed msg"

text \<open>\<open>run_async\<close> waits for the future on a thread of its own and maps the error.\<close>

definition run_async :: "(client_error + 'a) \<times> provider_st \<Rightarrow> (repo_error + 'a) \<times> provider_st" where
  "run_async = map_err map_client_error"

subsection \<open>Names\<close>

definition provider_manifest_hash :: "crates \<Rightarrow> uuid \<Rightarrow> string" where
  "provider_manifest_hash X vid = hex_encode X (blake3_hash X (str_bytes (''manifest:'' @ uuid_to_string X vid)))"

definition chunk_hash_hex :: "crates \<Rightarrow> chunk_hash \<Rightarrow> string" where
  "chunk_hash_hex X h = hex_encode X h"

definition make_location :: "string \<Rightarrow> ag_chunk_location" where
  "make_location hash_hex = \<lparr>al_bucket = (if 2 \<le> length hash_hex then take 2 hash_hex else ''00''), al_path = hash_hex @ ''.chunk''\<rparr>"

text \<open>\<open>str::trim_end_matches\<close> removes every trailing occurrence of a non-empty pattern.\<close>

function trim_end_matches :: "string \<Rightarrow> string \<Rightarrow> string" where
  "trim_end_matches pat s = (if pat \<noteq> [] \<and> suffix pat s then trim_end_matches pat (take (length s - length pat) s) else s)"
  by pat_completeness auto
termination by (relation "measure (\<lambda>(_, s). length s)") (auto simp: suffix_def)

declare trim_end_matches.simps [simp del]

subsection \<open>The repository trait\<close>

definition create_repo :: "provider_crates \<Rightarrow> badou_provider \<Rightarrow> provider_st \<Rightarrow> (repo_error + string) \<times> provider_st" where
  "create_repo N P st = run_async (
     and_then (client_connect N P st)
     (\<lambda>md st. and_then (client_call N md (RepositoryCreate (Some \<lparr>pc_name = bd_repo_id P, pc_immutable = None,
          pc_immutable_until = None, pc_options = []\<rparr>)) st)
     (\<lambda>resp st. case resp of RespRepo info \<Rightarrow> (Inr (pri_repo_id info), st)
        | _ \<Rightarrow> (Inl (BcInvalidEndpoint ''no repo in create response''), st))))"

text \<open>The call of \<open>chunk_put\<close> with the digest of the data as its hash.\<close>

definition put_data :: "provider_crates \<Rightarrow> badou_provider \<Rightarrow> metadata \<Rightarrow> bytes \<Rightarrow> provider_st \<Rightarrow> (client_error + rpc_response) \<times> provider_st" where
  "put_data N P md data = client_call N md (ChunkPut \<lparr>cpr_repo_id = bd_repo_id P, cpr_chunk = Some
     \<lparr>pcd_chunk_hash = hex_encode (pc_crates N) (blake3_hash (pc_crates N) data), pcd_data = data, pcd_size = of_nat (length data)\<rparr>\<rparr>)"

definition provider_write_chunk ::
  "provider_crates \<Rightarrow> badou_provider \<Rightarrow> chunk_hash \<Rightarrow> encrypted_chunk \<Rightarrow> provider_st \<Rightarrow> (repo_error + ag_chunk_location) \<times> provider_st" where
  "provider_write_chunk N P hash encrypted st = (case pc_enc_to_vec N encrypted of
     None \<Rightarrow> (Inl ReSerialize, st)
   | Some data \<Rightarrow> run_async (
       and_then (client_connect N P st)
       (\<lambda>md st. and_then (put_data N P md data st)
       (\<lambda>_ st. (Inr (make_location (hex_encode (pc_crates N) (blake3_hash (pc_crates N) data))), st)))))"

definition get_data :: "provider_crates \<Rightarrow> badou_provider \<Rightarrow> metadata \<Rightarrow> string \<Rightarrow> provider_st \<Rightarrow> (client_error + bytes) \<times> provider_st" where
  "get_data N P md hash_hex st = and_then (client_call N md (ChunkGet (bd_repo_id P) hash_hex) st)
     (\<lambda>resp st. case resp of RespChunk c \<Rightarrow> (Inr (pcd_data c), st)
        | _ \<Rightarrow> (Inl (BcInvalidEndpoint ''chunk data missing in response''), st))"

definition provider_read_chunk ::
  "provider_crates \<Rightarrow> badou_provider \<Rightarrow> ag_chunk_location \<Rightarrow> provider_st \<Rightarrow> (repo_error + encrypted_chunk) \<times> provider_st" where
  "provider_read_chunk N P location st = run_async (
     and_then (client_connect N P st)
     (\<lambda>md st. and_then (get_data N P md (trim_end_matches ''.chunk'' (al_path location)) st)
     (\<lambda>data st. case pc_enc_from_slice N data of None \<Rightarrow> (Inl (BcInvalidEndpoint ''serde''), st) | Some e \<Rightarrow> (Inr e, st))))"

definition provider_chunk_exists ::
  "provider_crates \<Rightarrow> badou_provider \<Rightarrow> chunk_hash \<Rightarrow> provider_st \<Rightarrow> (repo_error + bool) \<times> provider_st" where
  "provider_chunk_exists N P hash st = run_async (
     and_then (client_connect N P st)
     (\<lambda>md st. and_then (client_call N md (ChunkExists (bd_repo_id P) (chunk_hash_hex (pc_crates N) hash)) st)
     (\<lambda>resp st. case resp of RespExists found _ \<Rightarrow> (Inr found, st) | _ \<Rightarrow> (Inl (BcInvalidEndpoint ''response''), st))))"

text \<open>The trait's default: not implemented by the provider.\<close>

definition provider_find_chunk :: "chunk_hash \<Rightarrow> provider_st \<Rightarrow> (repo_error + ag_chunk_location) \<times> provider_st" where
  "provider_find_chunk hash st = (Inl (ReFailed ''find_chunk not implemented''), st)"

definition provider_delete_chunk ::
  "provider_crates \<Rightarrow> badou_provider \<Rightarrow> ag_chunk_location \<Rightarrow> provider_st \<Rightarrow> (repo_error + unit) \<times> provider_st" where
  "provider_delete_chunk N P location st = run_async (
     and_then (client_connect N P st)
     (\<lambda>md st. and_then (client_call N md (ChunkDelete (bd_repo_id P) (trim_end_matches ''.chunk'' (al_path location))) st)
     (\<lambda>_ st. (Inr (), st))))"

definition manifest_request :: "provider_crates \<Rightarrow> badou_provider \<Rightarrow> uuid \<Rightarrow> string \<Rightarrow> nat \<Rightarrow> snapshot_commit_request" where
  "manifest_request N P vid data_hash_hex t =
     (let X = pc_crates N; timestamp = Some (chrono_to_ts (pc_now N t)); sid = uuid_to_string X (pc_fresh N ''snapshot'' t) in
      \<lparr>scr_repo_id = bd_repo_id P, scr_parent_version_id = [],
       scr_meta = Some \<lparr>psm_snapshot_id = sid, psm_version_id = uuid_to_string X vid, psm_repo_id = bd_repo_id P,
         psm_status = SCreated, psm_source_machine = ''hbx-agent'', psm_backup_policy = [], psm_file_tree_root = data_hash_hex,
         psm_encryption_info = [], psm_compression_info = [], psm_total_size = 0, psm_stored_size = 0, psm_file_count = 0,
         psm_chunk_count = 0, psm_created_at = timestamp\<rparr>,
       scr_manifest = Some \<lparr>pm_manifest_id = uuid_to_string X (pc_fresh N ''manifest'' t), pm_snapshot_id = sid,
         pm_file_tree = [], pm_chunk_refs = [], pm_created_at = timestamp\<rparr>,
       scr_chunk_hashes = []\<rparr>)"

definition provider_write_manifest ::
  "provider_crates \<Rightarrow> badou_provider \<Rightarrow> uuid \<Rightarrow> ag_manifest \<Rightarrow> provider_st \<Rightarrow> (repo_error + unit) \<times> provider_st" where
  "provider_write_manifest N P vid m st = (case oj_manifest_to_vec (pc_json N) m of
     None \<Rightarrow> (Inl ReSerialize, st)
   | Some json \<Rightarrow> (case pc_zstd_encode N json of
       None \<Rightarrow> (Inl (ReFailed ''zstd''), st)
     | Some compressed \<Rightarrow>
         let data_hash_hex = hex_encode (pc_crates N) (blake3_hash (pc_crates N) compressed); t = ps_step st in
         run_async (
           and_then (client_connect N P st)
           (\<lambda>md st. and_then (put_data N P md compressed st)
           (\<lambda>_ st. and_then (client_call N md (SnapshotCommit (manifest_request N P vid data_hash_hex t)) st)
           (\<lambda>_ st. (Inr (), st)))))))"

definition list_snapshots ::
  "provider_crates \<Rightarrow> badou_provider \<Rightarrow> metadata \<Rightarrow> provider_st \<Rightarrow> (client_error + pb_snapshot_meta list) \<times> provider_st" where
  "list_snapshots N P md st = and_then (client_call N md (SnapshotList (bd_repo_id P) None) st)
     (\<lambda>resp st. case resp of RespSnapshots metas \<Rightarrow> (Inr metas, st) | _ \<Rightarrow> (Inl (BcInvalidEndpoint ''response''), st))"

definition provider_read_manifest ::
  "provider_crates \<Rightarrow> badou_provider \<Rightarrow> uuid \<Rightarrow> provider_st \<Rightarrow> (repo_error + ag_manifest) \<times> provider_st" where
  "provider_read_manifest N P vid st = run_async (
     and_then (client_connect N P st)
     (\<lambda>md st. and_then (list_snapshots N P md st)
     (\<lambda>metas st. case find (\<lambda>s. psm_version_id s = uuid_to_string (pc_crates N) vid) metas of
        None \<Rightarrow> (Inl (BcInvalidEndpoint ''snapshot not found''), st)
      | Some snapshot \<Rightarrow> and_then (get_data N P md (psm_file_tree_root snapshot) st)
          (\<lambda>data st. case pc_zstd_decode N data of
             None \<Rightarrow> (Inl (BcInvalidEndpoint ''zstd''), st)
           | Some json \<Rightarrow> (case oj_manifest_from_slice (pc_json N) json of
               None \<Rightarrow> (Inl (BcInvalidEndpoint ''serde''), st) | Some m \<Rightarrow> (Inr m, st))))))"

definition provider_list_versions ::
  "provider_crates \<Rightarrow> badou_provider \<Rightarrow> provider_st \<Rightarrow> (repo_error + version_summary list) \<times> provider_st" where
  "provider_list_versions N P st = run_async (
     and_then (client_connect N P st)
     (\<lambda>md st. and_then (list_snapshots N P md st)
     (\<lambda>metas st. (Inr (map (\<lambda>s. \<lparr>vs_version_id = (case uuid_parse (pc_crates N) (psm_version_id s) of Some u \<Rightarrow> u | None \<Rightarrow> pc_uuid_nil N),
          vs_version_number = 0, vs_timestamp = pc_now N (ps_step st), vs_backup_type = Full,
          vs_total_size = psm_total_size s, vs_stored_size = psm_stored_size s\<rparr>) metas), st))))"

definition provider_acquire_lock ::
  "provider_crates \<Rightarrow> badou_provider \<Rightarrow> lock_operation \<Rightarrow> u64 \<Rightarrow> provider_st \<Rightarrow> (repo_error + repo_lock) \<times> provider_st" where
  "provider_acquire_lock N P operation timeout st =
     (Inr \<lparr>lk_lock_id = pc_fresh N ''lock'' (ps_step st), lk_holder = bd_lock_holder P, lk_acquired_at = pc_now N (ps_step st),
        lk_ttl = timeout\<rparr>, st)"

definition badou_repository :: "provider_crates \<Rightarrow> badou_provider \<Rightarrow> provider_st backup_repository" where
  "badou_repository N P = \<lparr>br_write_chunk = provider_write_chunk N P, br_read_chunk = provider_read_chunk N P,
     br_chunk_exists = provider_chunk_exists N P, br_find_chunk = provider_find_chunk,
     br_delete_chunk = provider_delete_chunk N P, br_write_manifest = provider_write_manifest N P,
     br_read_manifest = provider_read_manifest N P, br_list_versions = provider_list_versions N P,
     br_acquire_lock = provider_acquire_lock N P\<rparr>"

definition provider_connect :: "provider_crates \<Rightarrow> badou_provider \<Rightarrow> provider_st \<Rightarrow> (repo_error + unit) \<times> provider_st" where
  "provider_connect N P st = run_async (and_then (client_connect N P st) (\<lambda>_ st. (Inr (), st)))"

datatype connection_test = CtPassed | CtFailed | CtNotSupported

definition test_connection :: "provider_crates \<Rightarrow> badou_provider \<Rightarrow> provider_st \<Rightarrow> (repo_error + connection_test) \<times> provider_st" where
  "test_connection N P st = (case provider_connect N P st of
     (Inr _, st) \<Rightarrow> (Inr CtPassed, st)
   | (Inl ReAuthFailed, st) \<Rightarrow> (Inr CtFailed, st)
   | (Inl e, st) \<Rightarrow> (Inl e, st))"

end
