(* ===== verification/Agent_Dedup.thy ===== *)
theory Agent_Dedup
  imports Agent_Core
begin

text \<open>
  The in-memory deduplication index of the agent (\<open>hbx-dedup\<close>) and the comparison of a
  file's chunks with those of its previous version (\<open>hbx-engine/src/chunk_diff.rs\<close>).
  The index interprets the counting contract \<open>refcount\<close> with 64-bit counters.
\<close>

subsection \<open>The index\<close>

datatype hash_algorithm = Blake3 | Sha256

definition ag_compute_hash :: "crates \<Rightarrow> (bytes \<Rightarrow> bytes) \<Rightarrow> bytes \<Rightarrow> hash_algorithm \<Rightarrow> chunk_hash" where
  "ag_compute_hash X sha256 data alg = (case alg of Blake3 \<Rightarrow> blake3_hash X data | Sha256 \<Rightarrow> sha256 data)"

record dedup_entry =
  de_location :: ag_chunk_location
  de_reference_count :: u64

record dedup_index =
  di_index :: "(chunk_hash, dedup_entry) hmap"
  di_default_algorithm :: hash_algorithm

record dedup_lookup_result =
  dl_hash :: chunk_hash
  dl_exists :: bool
  dl_reference_count :: u64
  dl_location :: "ag_chunk_location option"

definition dedup_new :: dedup_index where
  "dedup_new = \<lparr>di_index = [], di_default_algorithm = Blake3\<rparr>"

definition with_algorithm :: "hash_algorithm \<Rightarrow> dedup_index" where
  "with_algorithm alg = \<lparr>di_index = [], di_default_algorithm = alg\<rparr>"

definition lookup_one :: "dedup_index \<Rightarrow> chunk_hash \<Rightarrow> dedup_lookup_result" where
  "lookup_one i h = (case map_of (di_index i) h of
     Some e \<Rightarrow> \<lparr>dl_hash = h, dl_exists = True, dl_reference_count = de_reference_count e, dl_location = Some (de_location e)\<rparr>
   | None \<Rightarrow> \<lparr>dl_hash = h, dl_exists = False, dl_reference_count = 0, dl_location = None\<rparr>)"

definition batch_lookup :: "chunk_hash list \<Rightarrow> dedup_index \<Rightarrow> dedup_lookup_result list" where
  "batch_lookup hs i = map (lookup_one i) hs"

definition register_new :: "chunk_hash \<Rightarrow> ag_chunk_location \<Rightarrow> dedup_index \<Rightarrow> dedup_index" where
  "register_new h l i = i\<lparr>di_index := AList.update h \<lparr>de_location = l, de_reference_count = 0\<rparr> (di_index i)\<rparr>"

definition add_reference :: "chunk_hash \<Rightarrow> dedup_index \<Rightarrow> dedup_index" where
  "add_reference h i = (case map_of (di_index i) h of
     Some e \<Rightarrow> i\<lparr>di_index := AList.update h (e\<lparr>de_reference_count := de_reference_count e + 1\<rparr>) (di_index i)\<rparr>
   | None \<Rightarrow> i)"

definition add_references :: "chunk_reference list \<Rightarrow> dedup_index \<Rightarrow> dedup_index" where
  "add_references refs i = fold (add_reference \<circ> cr_hash) refs i"

definition drop_reference :: "chunk_hash \<Rightarrow> dedup_index \<Rightarrow> bool \<times> dedup_index" where
  "drop_reference h i = (case map_of (di_index i) h of
     Some e \<Rightarrow>
       let e' = (if de_reference_count e > 0 then e\<lparr>de_reference_count := de_reference_count e - 1\<rparr> else e)
       in (de_reference_count e' = 0, i\<lparr>di_index := AList.update h e' (di_index i)\<rparr>)
   | None \<Rightarrow> (False, i))"

fun dedup_remove_references :: "chunk_reference list \<Rightarrow> dedup_index \<Rightarrow> chunk_hash list \<times> dedup_index" where
  "dedup_remove_references [] i = ([], i)"
| "dedup_remove_references (r # rs) i =
     (let (orphan, i1) = drop_reference (cr_hash r) i; (orphans, i2) = dedup_remove_references rs i1
      in ((if orphan then [cr_hash r] else []) @ orphans, i2))"

subsection \<open>Chunk differences\<close>

record chunk_diff =
  cd_new_chunks :: "raw_chunk_data list"
  cd_reused_chunks :: "raw_chunk_data list"
  cd_reused_chunk_refs :: "chunk_hash list"

fun diff_loop :: "crates \<Rightarrow> chunk_hash list \<Rightarrow> bool \<Rightarrow> nat \<Rightarrow> raw_chunk_data list \<Rightarrow> chunk_diff \<Rightarrow> chunk_diff" where
  "diff_loop X base broken k [] d = d"
| "diff_loop X base broken k (c # cs) d =
     (let hash = blake3_hash X (rc_data c) in
      if \<not> broken \<and> k < length base then
        (if hash = base ! k
         then diff_loop X base broken (k + 1) cs
                (d\<lparr>cd_reused_chunks := cd_reused_chunks d @ [c], cd_reused_chunk_refs := cd_reused_chunk_refs d @ [hash]\<rparr>)
         else diff_loop X base True (k + 1) cs (d\<lparr>cd_new_chunks := cd_new_chunks d @ [c]\<rparr>))
      else diff_loop X base broken (k + 1) cs (d\<lparr>cd_new_chunks := cd_new_chunks d @ [c]\<rparr>))"

definition chunk_diff_compute ::
  "crates \<Rightarrow> (reader \<Rightarrow> chunk_strategy \<Rightarrow> chunk_error + raw_chunk_data list) \<Rightarrow> reader \<Rightarrow> chunk_hash list \<Rightarrow>
   chunk_strategy \<Rightarrow> chunk_error + chunk_diff" where
  "chunk_diff_compute X chunk r base strategy = (case chunk r strategy of
     Inl e \<Rightarrow> Inl e
   | Inr cs \<Rightarrow> Inr (diff_loop X base False 0 cs \<lparr>cd_new_chunks = [], cd_reused_chunks = [], cd_reused_chunk_refs = []\<rparr>))"

definition all_chunks :: "chunk_diff \<Rightarrow> raw_chunk_data list" where
  "all_chunks d = cd_new_chunks d @ cd_reused_chunks d"

text \<open>The reused chunks are the longest prefix that agrees with the baseline.\<close>

fun common :: "crates \<Rightarrow> chunk_hash list \<Rightarrow> raw_chunk_data list \<Rightarrow> nat" where
  "common X (b # bs) (c # cs) = (if blake3_hash X (rc_data c) = b then Suc (common X bs cs) else 0)"
| "common X _ _ = 0"

lemma diff_loop_broken: "broken \<or> length base \<le> k \<Longrightarrow> diff_loop X base broken k cs d = d\<lparr>cd_new_chunks := cd_new_chunks d @ cs\<rparr>"
  by (induction cs arbitrary: k d) (auto simp: Let_def)

lemma diff_loop_common:
  "k \<le> length base \<Longrightarrow> diff_loop X base False k cs d =
     (let n = common X (drop k base) cs in
      d\<lparr>cd_new_chunks := cd_new_chunks d @ drop n cs, cd_reused_chunks := cd_reused_chunks d @ take n cs,
        cd_reused_chunk_refs := cd_reused_chunk_refs d @ map (blake3_hash X \<circ> rc_data) (take n cs)\<rparr>)"
proof (induction cs arbitrary: k d)
  case (Cons c cs)
  show ?case
  proof (cases "k < length base")
    case True
    then have "drop k base = base ! k # drop (Suc k) base" by (rule Cons_nth_drop_Suc [symmetric])
    then show ?thesis using True Cons.IH [of "Suc k"] by (simp add: Let_def diff_loop_broken)
  qed (simp add: diff_loop_broken)
qed (simp add: Let_def)

lemma chunk_diff_compute_eq:
  "chunk r strategy = Inr cs \<Longrightarrow> chunk_diff_compute X chunk r base strategy =
     Inr \<lparr>cd_new_chunks = drop (common X base cs) cs, cd_reused_chunks = take (common X base cs) cs,
          cd_reused_chunk_refs = map (blake3_hash X \<circ> rc_data) (take (common X base cs) cs)\<rparr>"
  by (simp add: chunk_diff_compute_def diff_loop_common Let_def)

subsection \<open>Counting\<close>

definition dedup_cnt :: "dedup_index \<Rightarrow> chunk_hash \<Rightarrow> nat option" where
  "dedup_cnt i h = map_option (\<lambda>e. unat (de_reference_count e)) (map_of (di_index i) h)"

lemma unat_succ_mod64: "unat (x + 1 :: u64) = (unat x + 1) mod 2 ^ 64"
  by (simp add: unat_word_ariths)

lemma unat_pred64: "(x :: u64) > 0 \<Longrightarrow> unat (x - 1) = unat x - 1"
  by (simp add: unat_minus_one word_greater_zero_iff)

interpretation dedup: refcount dedup_cnt add_reference "\<lambda>h i. snd (drop_reference h i)" 64
proof unfold_locales
  fix h i k
  show "dedup_cnt (add_reference h i) k =
      (if k = h then map_option (\<lambda>n. (n + 1) mod 2 ^ 64) (dedup_cnt i h) else dedup_cnt i k)"
    by (cases "map_of (di_index i) h") (auto simp: dedup_cnt_def add_reference_def map_of_update unat_succ_mod64)
  show "dedup_cnt (snd (drop_reference h i)) k =
      (if k = h then map_option (\<lambda>n. n - 1) (dedup_cnt i h) else dedup_cnt i k)"
    by (cases "map_of (di_index i) h")
       (auto simp: dedup_cnt_def drop_reference_def map_of_update Let_def unat_pred64 word_greater_zero_iff)
qed

lemma remove_references_fold:
  "snd (dedup_remove_references rs i) = fold (\<lambda>h i. snd (drop_reference h i)) (map cr_hash rs) i"
  by (induction rs arbitrary: i) (simp_all add: Let_def split_beta)

lemma drop_reference_orphan: "fst (drop_reference h i) \<longleftrightarrow> dedup_cnt (snd (drop_reference h i)) h = Some 0"
  by (auto simp: drop_reference_def dedup_cnt_def map_of_update Let_def unat_eq_zero split: option.splits)

lemma orphans_iff:
  "h \<in> set (fst (dedup_remove_references rs i)) \<longleftrightarrow>
     h \<in> set (map cr_hash rs) \<and> dedup_cnt (snd (dedup_remove_references rs i)) h = Some 0"
proof (induction rs arbitrary: i)
  case (Cons r rs)
  let ?i1 = "snd (drop_reference (cr_hash r) i)"
  have fst: "fst (dedup_remove_references (r # rs) i) =
      (if fst (drop_reference (cr_hash r) i) then [cr_hash r] else []) @ fst (dedup_remove_references rs ?i1)"
    and snd: "snd (dedup_remove_references (r # rs) i) = snd (dedup_remove_references rs ?i1)"
    by (simp_all add: Let_def split: prod.splits)
  have cnt: "dedup_cnt (snd (dedup_remove_references rs ?i1)) h = map_option (\<lambda>n. n - count_list (map cr_hash rs) h) (dedup_cnt ?i1 h)"
    unfolding remove_references_fold by (rule dedup.cnt_decs)
  show ?case
  proof (cases "h = cr_hash r")
    case True
    then show ?thesis
      using Cons.IH [of ?i1] cnt drop_reference_orphan [of h i] unfolding fst snd
      by (cases "h \<in> set (map cr_hash rs)") (auto simp: count_list_0_iff)
  next
    case False
    then show ?thesis using Cons.IH [of ?i1] unfolding fst snd by auto
  qed
qed simp

text \<open>(C11) Registering references raises the counter of each registered chunk by the number of its
  occurrences (64-bit counters, no overflow); releasing references lowers each registered chunk's counter by the number of its
  occurrences, never below zero; a hash is reported as orphaned exactly when it occurs among the
  references and its counter ends at zero; and releasing what was just added restores every
  counter.\<close>

theorem dedup_counts_references:
  assumes "\<forall>h n. dedup_cnt i h = Some n \<longrightarrow> n + count_list (map cr_hash refs) h < 2 ^ 64"
  shows "dedup_cnt (add_references refs i) h = map_option (\<lambda>n. n + count_list (map cr_hash refs) h) (dedup_cnt i h) \<and>
     dedup_cnt (snd (dedup_remove_references refs i)) h = map_option (\<lambda>n. n - count_list (map cr_hash refs) h) (dedup_cnt i h) \<and>
     (h \<in> set (fst (dedup_remove_references refs i)) \<longleftrightarrow>
        h \<in> set (map cr_hash refs) \<and> dedup_cnt (snd (dedup_remove_references refs i)) h = Some 0) \<and>
     dedup_cnt (snd (dedup_remove_references refs (add_references refs i))) h = dedup_cnt i h"
proof -
  have add: "add_references refs i = fold add_reference (map cr_hash refs) i" by (simp add: add_references_def fold_map)
  have "dedup_cnt (add_references refs i) h = map_option (\<lambda>n. n + count_list (map cr_hash refs) h) (dedup_cnt i h)"
    unfolding add using dedup.cnt_incs_None dedup.cnt_incs assms by (cases "dedup_cnt i h") auto
  moreover have "dedup_cnt (snd (dedup_remove_references refs (add_references refs i))) h = dedup_cnt i h"
  proof (cases "dedup_cnt i h")
    case None
    then show ?thesis unfolding remove_references_fold add dedup.cnt_decs using dedup.cnt_incs_None by simp
  next
    case (Some n)
    then show ?thesis unfolding remove_references_fold add using assms dedup.decs_undo_incs by metis
  qed
  moreover have "dedup_cnt (snd (dedup_remove_references refs i)) h =
      map_option (\<lambda>n. n - count_list (map cr_hash refs) h) (dedup_cnt i h)"
    unfolding remove_references_fold by (rule dedup.cnt_decs)
  ultimately show ?thesis using orphans_iff by blast
qed

theorem dedup_counts_references_witness:
  "let l = \<lparr>al_bucket = ''ab'', al_path = ''ab.chunk''\<rparr>; i = register_new [171] l dedup_new;
       refs = [\<lparr>cr_hash = [171], cr_version_id = [1], cr_file_path = ''f'', cr_offset = 0\<rparr>]
   in dedup_cnt i [171] = Some 0 \<and> dedup_cnt (add_references refs i) [171] = Some 1 \<and> fst (dedup_remove_references refs (add_references refs i)) = [[171]] \<and>
      dedup_cnt (snd (dedup_remove_references refs (add_references refs i))) [171] = Some 0"
proof -
  define l :: ag_chunk_location where "l = \<lparr>al_bucket = ''ab'', al_path = ''ab.chunk''\<rparr>"
  define i where "i = register_new [171] l dedup_new"
  define refs where "refs = [\<lparr>cr_hash = [171 :: u8], cr_version_id = [1], cr_file_path = ''f'', cr_offset = 0\<rparr>]"
  have c: "dedup_cnt i h = (if h = [171] then Some 0 else None)" for h
    by (simp add: i_def register_new_def dedup_new_def dedup_cnt_def)
  have "\<forall>h n. dedup_cnt i h = Some n \<longrightarrow> n + count_list (map cr_hash refs) h < 2 ^ 64" by (simp add: c refs_def)
  moreover have "count_list (map cr_hash refs) [171] = 1" by (simp add: refs_def)
  ultimately have one: "dedup_cnt (add_references refs i) [171] = Some 1"
      "dedup_cnt (snd (dedup_remove_references refs (add_references refs i))) [171] = Some 0"
    using dedup_counts_references [of i refs "[171]"] c by simp_all
  moreover have "fst (dedup_remove_references refs (add_references refs i)) = [[171]]"
    by (simp add: i_def refs_def register_new_def dedup_new_def add_references_def add_reference_def drop_reference_def Let_def)
  ultimately show ?thesis unfolding Let_def using c by (simp flip: l_def i_def refs_def)
qed

end
