(* ===== verification/Agent_Engine.thy ===== *)
theory Agent_Engine
  imports Agent_Repo Agent_Dedup
begin

text \<open>
  The backup engine (\<open>hbx-engine/src/engine.rs\<close>, \<open>concurrent.rs\<close>, \<open>memory.rs\<close>): full,
  incremental, resumable and concurrent backups.

  \<open>backup_engine\<close> holds the trait objects of \<open>BackupEngine\<close> and the environment: the
  scanner, the files of the source as readers (\<open>None\<close> when \<open>open\<close> fails), the chunker,
  the compressor and the encryption provider, the repository, the journal, and as
  arguments \<open>sha2\<close>, \<open>serde_json\<close> of a manifest, the clock and the supply of fresh
  identifiers.  \<open>engine_st\<close> is what a run changes.  One run holds at most one memory
  guard at a time, so \<open>MemoryBudget::acquire\<close> returns at once or, when the request
  exceeds the limit, never; that second outcome is the error \<open>EnBlocked\<close>.  Progress
  fractions, durations and the deduplication ratio (all \<open>f64\<close>) are left out.
\<close>

subsection \<open>Data\<close>

datatype filter_rule = Glob string | Regex string | PathPrefix string

record backup_source =
  bs_paths :: "path list"
  bs_include_rules :: "filter_rule list"
  bs_exclude_rules :: "filter_rule list"

datatype job_status = JobActive | JobPaused | JobDisabled

record backup_destination =
  bd_repository_id :: uuid
  bd_logical_path :: string

datatype compression_algorithm = Zstd | Lz4 | NoCompression

record compression_profile =
  cp_algorithm :: compression_algorithm
  cp_level :: u32

record backup_job =
  bj_job_id :: uuid
  bj_name :: string
  bj_source :: backup_source
  bj_destination :: backup_destination
  bj_schedule :: uuid
  bj_retention_policy :: uuid
  bj_encryption_profile :: uuid
  bj_compression_profile :: compression_profile
  bj_chunking_profile :: chunking_profile
  bj_status :: job_status
  bj_created_at :: timestamp

record file_snapshot_entry =
  fn_path :: string
  fn_size :: u64
  fn_mtime :: timestamp
  fn_file_hash :: bytes

record backup_snapshot =
  bn_version_id :: uuid
  bn_timestamp :: timestamp
  bn_files :: "file_snapshot_entry list"

record backup_result =
  bt_version_id :: "uuid option"
  bt_data_processed :: u64
  bt_data_stored :: u64
  bt_chunk_count :: u64
  bt_file_count :: u64
  bt_skipped_files :: "string list"

record backup_error =
  be_code :: string
  be_message :: string
  be_file_path :: "string option"

datatype execution_state = ExPending | ExScanning | ExChunking | ExEncrypting | ExUploading | ExCommitting
| ExVerifying | ExSuccess | ExFailed | ExPaused

datatype ag_journal_entry =
  TaskStarted uuid uuid u64
| FileProcessed uuid string "chunk_hash list"
| ChunkWritten uuid chunk_hash ag_chunk_location
| JCheckpoint uuid nat
| TaskCompleted uuid uuid backup_result
| TaskFailed uuid backup_error

datatype scan_error = SnSourceInaccessible string | SnPermissionDenied string | SnIo io_error

datatype compress_error = CmFailed string | CmDecompressFailed string

datatype encrypt_error = CyKeyUnavailable | CyAuthFailed | CyFailed string

datatype engine_error = EnScan scan_error | EnChunk chunk_error | EnCompress compress_error
| EnEncrypt encrypt_error | EnRepo repo_error | EnSerialize | EnFailed string | EnBlocked

record 'j journal_trait =
  jt_append :: "ag_journal_entry \<Rightarrow> 'j \<Rightarrow> 'j"
  jt_read_recent :: "nat \<Rightarrow> 'j \<Rightarrow> ag_journal_entry list option"

record ('r, 'j) backup_engine =
  en_crates :: crates
  en_sha256 :: "bytes \<Rightarrow> bytes"
  en_manifest_to_vec :: "ag_manifest \<Rightarrow> bytes option"
  en_now :: timestamp
  en_uuid :: "nat \<Rightarrow> uuid"
  en_scan :: "backup_source \<Rightarrow> backup_snapshot option \<Rightarrow> scan_error + ag_file_entry list"
  en_estimate :: "backup_source \<Rightarrow> u64"
  en_open :: "string \<Rightarrow> reader option"
  en_chunk :: "reader \<Rightarrow> chunk_strategy \<Rightarrow> chunk_error + raw_chunk_data list"
  en_compress :: "bytes \<Rightarrow> compress_error + bytes"
  en_encrypt :: "bytes \<Rightarrow> uuid \<Rightarrow> encrypt_error + encrypted_chunk"
  en_repo :: "'r backup_repository"
  en_journal :: "'j journal_trait option"
  en_memory_limit :: u64

record ('r, 'j) engine_st =
  es_dedup :: dedup_index
  es_repo :: 'r
  es_journal :: 'j
  es_state :: execution_state
  es_completed :: bool
  es_next :: nat

text \<open>The local variables of a run.\<close>

record run_acc =
  ra_files :: "ag_file_entry list"
  ra_refs :: "chunk_reference list"
  ra_locations :: "(string, ag_chunk_location) hmap"
  ra_processed :: u64
  ra_stored :: u64
  ra_chunk_count :: u64
  ra_file_count :: u64
  ra_skipped :: "string list"
  ra_staging :: "(chunk_hash \<times> ag_chunk_location) list"

definition run_acc_new :: run_acc where
  "run_acc_new = \<lparr>ra_files = [], ra_refs = [], ra_locations = [], ra_processed = 0, ra_stored = 0,
     ra_chunk_count = 0, ra_file_count = 0, ra_skipped = [], ra_staging = []\<rparr>"

subsection \<open>Small steps\<close>

definition set_state :: "execution_state \<Rightarrow> ('r, 'j) engine_st \<Rightarrow> ('r, 'j) engine_st" where
  "set_state x st = (let st1 = st\<lparr>es_state := x\<rparr> in
     if x = ExSuccess \<or> x = ExFailed then st1\<lparr>es_completed := True\<rparr> else st1)"

definition on_repo ::
  "('r \<Rightarrow> (repo_error + 'a) \<times> 'r) \<Rightarrow> ('r, 'j) engine_st \<Rightarrow> (engine_error + 'a) \<times> ('r, 'j) engine_st" where
  "on_repo f st = (case f (es_repo st) of (x, r) \<Rightarrow> map_err EnRepo (x, st\<lparr>es_repo := r\<rparr>))"

definition lift_err :: "('e \<Rightarrow> engine_error) \<Rightarrow> 'e + 'a \<Rightarrow> ('r, 'j) engine_st \<Rightarrow> (engine_error + 'a) \<times> ('r, 'j) engine_st" where
  "lift_err f x st = map_err f (x, st)"

definition journal_append_to ::
  "('r, 'j) backup_engine \<Rightarrow> ag_journal_entry \<Rightarrow> ('r, 'j) engine_st \<Rightarrow> ('r, 'j) engine_st" where
  "journal_append_to E e st = (case en_journal E of
     Some j \<Rightarrow> st\<lparr>es_journal := jt_append j e (es_journal st)\<rparr> | None \<Rightarrow> st)"

definition fresh_uuid :: "('r, 'j) backup_engine \<Rightarrow> ('r, 'j) engine_st \<Rightarrow> uuid \<times> ('r, 'j) engine_st" where
  "fresh_uuid E st = (en_uuid E (es_next st), st\<lparr>es_next := Suc (es_next st)\<rparr>)"

definition memory_acquire ::
  "('r, 'j) backup_engine \<Rightarrow> u64 \<Rightarrow> ('r, 'j) engine_st \<Rightarrow> (engine_error + unit) \<times> ('r, 'j) engine_st" where
  "memory_acquire E n st = (if n \<le> en_memory_limit E then (Inr (), st) else (Inl EnBlocked, st))"

definition insert_location :: "('r, 'j) backup_engine \<Rightarrow> chunk_hash \<Rightarrow> ag_chunk_location \<Rightarrow> run_acc \<Rightarrow> run_acc" where
  "insert_location E h l a = a\<lparr>ra_locations := AList.update (hex_encode (en_crates E) h) l (ra_locations a)\<rparr>"

fun rollback :: "'r backup_repository \<Rightarrow> (chunk_hash \<times> ag_chunk_location) list \<Rightarrow> 'r \<Rightarrow> (nat \<times> nat) \<times> 'r" where
  "rollback R [] r = ((0, 0), r)"
| "rollback R ((h, l) # ws) r = (case br_delete_chunk R l r of (x, r1) \<Rightarrow>
     (case rollback R ws r1 of ((d, f), r2) \<Rightarrow>
       (case x of Inr _ \<Rightarrow> ((Suc d, f), r2) | Inl _ \<Rightarrow> ((d, Suc f), r2))))"

fun is_storage_full :: "repo_error \<Rightarrow> bool" where
  "is_storage_full ReFull = True"
| "is_storage_full _ = False"

subsection \<open>One chunk\<close>

text \<open>\<open>conc\<close> is the variant of \<open>run_backup_concurrent\<close>, which records what it writes and rolls
  back when the storage is full.\<close>

definition upload ::
  "('r, 'j) backup_engine \<Rightarrow> bool \<Rightarrow> chunk_hash \<Rightarrow> encrypted_chunk \<Rightarrow> run_acc \<Rightarrow> ('r, 'j) engine_st \<Rightarrow>
   (engine_error + ag_chunk_location) \<times> ('r, 'j) engine_st" where
  "upload E conc h e a st =
     (if conc then
        (case br_write_chunk (en_repo E) h e (es_repo st) of
           (Inr l, r) \<Rightarrow> (Inr l, st\<lparr>es_repo := r\<rparr>)
         | (Inl x, r) \<Rightarrow>
             let r1 = (if is_storage_full x then snd (rollback (en_repo E) (ra_staging a) r) else r)
             in (Inl (EnRepo x), set_state ExFailed (st\<lparr>es_repo := r1\<rparr>)))
      else on_repo (br_write_chunk (en_repo E) h e) st)"

definition store_new ::
  "('r, 'j) backup_engine \<Rightarrow> bool \<Rightarrow> chunk_hash \<Rightarrow> bytes \<Rightarrow> run_acc \<Rightarrow> ('r, 'j) engine_st \<Rightarrow>
   (engine_error + run_acc) \<times> ('r, 'j) engine_st" where
  "store_new E conc h data a st =
     and_then (lift_err EnCompress (en_compress E data) (set_state ExEncrypting st)) (\<lambda>compressed st.
     case fresh_uuid E st of (chunk_id, st) \<Rightarrow>
     and_then (lift_err EnEncrypt (en_encrypt E compressed chunk_id) st) (\<lambda>encrypted st.
     let n = of_nat (length (ec_ciphertext encrypted)) in
     and_then (memory_acquire E n (set_state ExUploading st)) (\<lambda>_ st.
     and_then (upload E conc h encrypted a st) (\<lambda>location st.
     (Inr (insert_location E h location
        (a\<lparr>ra_stored := ra_stored a + n,
           ra_staging := (if conc then ra_staging a @ [(h, location)] else ra_staging a)\<rparr>)),
      st\<lparr>es_dedup := register_new h location (es_dedup st)\<rparr>)))))"

definition store_chunk ::
  "('r, 'j) backup_engine \<Rightarrow> bool \<Rightarrow> bytes \<Rightarrow> run_acc \<Rightarrow> ('r, 'j) engine_st \<Rightarrow>
   (engine_error + run_acc) \<times> ('r, 'j) engine_st" where
  "store_chunk E conc data a st =
     (let h = blake3_hash (en_crates E) data; found = hd (batch_lookup [h] (es_dedup st)) in
      if \<not> dl_exists found then
        and_then (on_repo (br_chunk_exists (en_repo E) h) st) (\<lambda>there st.
        if there then
          and_then (on_repo (br_find_chunk (en_repo E) h) st) (\<lambda>location st.
          (Inr (insert_location E h location a), st\<lparr>es_dedup := register_new h location (es_dedup st)\<rparr>))
        else store_new E conc h data a st)
      else (case dl_location found of
              Some l \<Rightarrow> (Inr (insert_location E h l a), st)
            | None \<Rightarrow> (Inr a, st)))"

text \<open>The chunks of one file: each is stored, counted and referenced.\<close>

fun backup_chunks ::
  "('r, 'j) backup_engine \<Rightarrow> bool \<Rightarrow> uuid \<Rightarrow> string \<Rightarrow> raw_chunk_data list \<Rightarrow> run_acc \<Rightarrow> ('r, 'j) engine_st \<Rightarrow>
   (engine_error + run_acc) \<times> ('r, 'j) engine_st" where
  "backup_chunks E conc v p [] a st = (Inr a, st)"
| "backup_chunks E conc v p (c # cs) a st =
     and_then (store_chunk E conc (rc_data c) a st) (\<lambda>a st.
     backup_chunks E conc v p cs
       (a\<lparr>ra_chunk_count := ra_chunk_count a + 1,
          ra_refs := ra_refs a @ [\<lparr>cr_hash = blake3_hash (en_crates E) (rc_data c), cr_version_id = v,
                                   cr_file_path = p, cr_offset = rc_offset c\<rparr>]\<rparr>) st)"

subsection \<open>One file\<close>

text \<open>The entry a run records for a file whose chunks, in the recorded order, are \<open>hs\<close> and
  whose hasher was fed \<open>data\<close>.\<close>

definition completed_entry ::
  "('r, 'j) backup_engine \<Rightarrow> ag_file_entry \<Rightarrow> chunk_hash list \<Rightarrow> bytes \<Rightarrow> ag_file_entry" where
  "completed_entry E f hs data = f\<lparr>af_chunks := hs, af_file_hash := en_sha256 E data\<rparr>"

definition add_file :: "ag_file_entry \<Rightarrow> nat \<Rightarrow> run_acc \<Rightarrow> run_acc" where
  "add_file f n a = a\<lparr>ra_files := ra_files a @ [f], ra_processed := ra_processed a + of_nat n\<rparr>"

abbreviation chunk_hashes :: "('r, 'j) backup_engine \<Rightarrow> raw_chunk_data list \<Rightarrow> chunk_hash list" where
  "chunk_hashes E cs \<equiv> map (blake3_hash (en_crates E) \<circ> rc_data) cs"

text \<open>\<open>track\<close>: whether the caller sets the tracker to \<open>Chunking\<close> for each file (the incremental run does not).\<close>

definition chunk_and_store ::
  "('r, 'j) backup_engine \<Rightarrow> bool \<Rightarrow> bool \<Rightarrow> backup_job \<Rightarrow> uuid \<Rightarrow> ag_file_entry \<Rightarrow> reader \<Rightarrow> run_acc \<Rightarrow> ('r, 'j) engine_st \<Rightarrow>
   (engine_error + run_acc) \<times> ('r, 'j) engine_st" where
  "chunk_and_store E conc track job v f r a st =
     and_then (lift_err EnChunk (en_chunk E r (to_chunk_strategy (bj_chunking_profile job) (af_size f))) st) (\<lambda>cs st.
     and_then (backup_chunks E conc v (af_path f) cs a (if track then set_state ExChunking st else st)) (\<lambda>a st.
     let data = concat (map rc_data cs) in
     (Inr (add_file (completed_entry E f (chunk_hashes E cs) data) (length data) a), st)))"

definition log_file ::
  "('r, 'j) backup_engine \<Rightarrow> backup_job \<Rightarrow> run_acc \<Rightarrow> ('r, 'j) engine_st \<Rightarrow> ('r, 'j) engine_st" where
  "log_file E job a st = (let f = last (ra_files a) in
     journal_append_to E (FileProcessed (bj_job_id job) (af_path f) (af_chunks f)) st)"

fun backup_files ::
  "('r, 'j) backup_engine \<Rightarrow> bool \<Rightarrow> backup_job \<Rightarrow> uuid \<Rightarrow> ag_file_entry list \<Rightarrow> run_acc \<Rightarrow> ('r, 'j) engine_st \<Rightarrow>
   (engine_error + run_acc) \<times> ('r, 'j) engine_st" where
  "backup_files E conc job v [] a st = (Inr a, st)"
| "backup_files E conc job v (f # fs) a st = (case en_open E (af_path f) of
     None \<Rightarrow> backup_files E conc job v fs (a\<lparr>ra_skipped := ra_skipped a @ [af_path f]\<rparr>) st
   | Some r \<Rightarrow>
       and_then (chunk_and_store E conc True job v f r a st) (\<lambda>a st.
       backup_files E conc job v fs (a\<lparr>ra_file_count := ra_file_count a + 1\<rparr>) (log_file E job a st)))"

subsection \<open>Committing\<close>

definition build_manifest ::
  "('r, 'j) backup_engine \<Rightarrow> uuid \<Rightarrow> uuid option \<Rightarrow> u64 \<Rightarrow> backup_type \<Rightarrow> ag_file_entry list \<Rightarrow> chunk_reference list \<Rightarrow>
   (string, ag_chunk_location) hmap \<Rightarrow> engine_error + ag_manifest" where
  "build_manifest E v parent number btype files refs locs =
     (let file_index_hash = en_sha256 E (concat (map af_file_hash files));
          chunk_index_hash = en_sha256 E (concat (map cr_hash refs));
          placeholder = \<lparr>mh_manifest_hash = replicate 32 0, mh_file_index_hash = file_index_hash,
             mh_chunk_index_hash = chunk_index_hash, mh_repo_hash = replicate 32 0\<rparr>;
          temp = \<lparr>am_version_id = v, am_timestamp = en_now E, am_parent_version_id = parent, am_version_number = number,
             am_backup_type = btype, am_files = files, am_chunk_refs = refs, am_hashes = placeholder, am_chunk_locations = locs\<rparr>
      in case en_manifest_to_vec E temp of
           None \<Rightarrow> Inl EnSerialize
         | Some b \<Rightarrow>
             let manifest_hash = en_sha256 E b;
                 repo_hash = en_sha256 E (manifest_hash @ file_index_hash @ chunk_index_hash)
             in Inr (temp\<lparr>am_hashes := \<lparr>mh_manifest_hash = manifest_hash, mh_file_index_hash = file_index_hash,
                   mh_chunk_index_hash = chunk_index_hash, mh_repo_hash = repo_hash\<rparr>\<rparr>))"

definition commit_version ::
  "('r, 'j) backup_engine \<Rightarrow> uuid \<Rightarrow> uuid option \<Rightarrow> u64 \<Rightarrow> backup_type \<Rightarrow> ag_file_entry list \<Rightarrow> chunk_reference list \<Rightarrow>
   (string, ag_chunk_location) hmap \<Rightarrow> ('r, 'j) engine_st \<Rightarrow> (engine_error + ag_manifest) \<times> ('r, 'j) engine_st" where
  "commit_version E v parent number btype files refs locs st =
     (let st1 = set_state ExCommitting st; st2 = st1\<lparr>es_dedup := add_references refs (es_dedup st1)\<rparr> in
      and_then (lift_err id (build_manifest E v parent number btype files refs locs) st2) (\<lambda>m st.
      and_then (on_repo (br_write_manifest (en_repo E) v m) st) (\<lambda>_ st. (Inr m, st))))"

definition result_of :: "uuid \<Rightarrow> run_acc \<Rightarrow> backup_result" where
  "result_of v a = \<lparr>bt_version_id = Some v, bt_data_processed = ra_processed a, bt_data_stored = ra_stored a,
     bt_chunk_count = ra_chunk_count a, bt_file_count = ra_file_count a, bt_skipped_files = ra_skipped a\<rparr>"

definition finish_full ::
  "('r, 'j) backup_engine \<Rightarrow> backup_job \<Rightarrow> uuid \<Rightarrow> run_acc \<Rightarrow> ('r, 'j) engine_st \<Rightarrow>
   (engine_error + backup_result) \<times> ('r, 'j) engine_st" where
  "finish_full E job v a st =
     and_then (commit_version E v None 1 Full (ra_files a) (ra_refs a) (ra_locations a) st) (\<lambda>_ st.
     (Inr (result_of v a),
      set_state ExSuccess (journal_append_to E (TaskCompleted (bj_job_id job) v (result_of v a)) st)))"

definition start_run ::
  "('r, 'j) backup_engine \<Rightarrow> backup_job \<Rightarrow> uuid \<Rightarrow> ('r, 'j) engine_st \<Rightarrow> uuid \<times> ('r, 'j) engine_st" where
  "start_run E job execution_id st = (case fresh_uuid E st of (v, st) \<Rightarrow>
     (v, set_state ExScanning
           (journal_append_to E (TaskStarted (bj_job_id job) execution_id (of_int (num_seconds (en_now E)))) st)))"

subsection \<open>The backups\<close>

definition run_backup ::
  "('r, 'j) backup_engine \<Rightarrow> backup_job \<Rightarrow> uuid \<Rightarrow> ('r, 'j) engine_st \<Rightarrow>
   (engine_error + backup_result) \<times> ('r, 'j) engine_st" where
  "run_backup E job execution_id st = (case start_run E job execution_id st of (v, st) \<Rightarrow>
     and_then (lift_err EnScan (en_scan E (bj_source job) None) st) (\<lambda>fs st.
     and_then (backup_files E False job v fs run_acc_new (set_state ExChunking st)) (\<lambda>a st.
     finish_full E job v a st)))"

definition run_backup_concurrent ::
  "('r, 'j) backup_engine \<Rightarrow> backup_job \<Rightarrow> uuid \<Rightarrow> ('r, 'j) engine_st \<Rightarrow>
   (engine_error + backup_result) \<times> ('r, 'j) engine_st" where
  "run_backup_concurrent E job execution_id st =
     (case br_acquire_lock (en_repo E) LkBackup 1800 (es_repo st) of
        (Inl e, r) \<Rightarrow> (Inl (EnFailed ''failed to acquire backup lock''), st\<lparr>es_repo := r\<rparr>)
      | (Inr _, r) \<Rightarrow> (case start_run E job execution_id (st\<lparr>es_repo := r\<rparr>) of (v, st) \<Rightarrow>
          and_then (lift_err EnScan (en_scan E (bj_source job) None) st) (\<lambda>fs st.
          and_then (backup_files E True job v fs run_acc_new (set_state ExChunking st)) (\<lambda>a st.
          finish_full E job v a st))))"

definition processed_files :: "('r, 'j) backup_engine \<Rightarrow> uuid \<Rightarrow> ('r, 'j) engine_st \<Rightarrow> string list" where
  "processed_files E job_id st = (case en_journal E of
     None \<Rightarrow> []
   | Some j \<Rightarrow> (case jt_read_recent j 10000 (es_journal st) of
       None \<Rightarrow> []
     | Some es \<Rightarrow> List.map_filter (\<lambda>e. case e of FileProcessed i p _ \<Rightarrow> if i = job_id then Some p else None | _ \<Rightarrow> None) es))"

fun resume_files ::
  "('r, 'j) backup_engine \<Rightarrow> backup_job \<Rightarrow> uuid \<Rightarrow> string list \<Rightarrow> u64 \<Rightarrow> u64 \<Rightarrow> ag_file_entry list \<Rightarrow> run_acc \<Rightarrow> ('r, 'j) engine_st \<Rightarrow>
   (engine_error + run_acc) \<times> ('r, 'j) engine_st" where
  "resume_files E job v don planned resumed [] a st = (Inr a, st)"
| "resume_files E job v don planned resumed (f # fs) a st =
     (if af_path f \<in> set don then resume_files E job v don planned (resumed + 1) fs a st
      else (case en_open E (af_path f) of
        None \<Rightarrow> resume_files E job v don planned resumed fs (a\<lparr>ra_skipped := ra_skipped a @ [af_path f]\<rparr>) st
      | Some r \<Rightarrow>
          and_then (chunk_and_store E False True job v f r a st) (\<lambda>a st.
          let a1 = a\<lparr>ra_file_count := ra_file_count a + 1\<rparr> in
          resume_files E job v don planned resumed fs a1
            (journal_append_to E (JCheckpoint (bj_job_id job) (unat (planned - ra_file_count a1 - resumed)))
              (log_file E job a1 st)))))"

definition run_backup_resumable ::
  "('r, 'j) backup_engine \<Rightarrow> backup_job \<Rightarrow> uuid \<Rightarrow> ('r, 'j) engine_st \<Rightarrow>
   (engine_error + backup_result) \<times> ('r, 'j) engine_st" where
  "run_backup_resumable E job execution_id st =
     (let don = processed_files E (bj_job_id job) st; planned = max 1 (en_estimate E (bj_source job)) in
      case start_run E job execution_id st of (v, st) \<Rightarrow>
      and_then (lift_err EnScan (en_scan E (bj_source job) None) st) (\<lambda>fs st.
      and_then (resume_files E job v don planned 0 fs run_acc_new (set_state ExChunking st)) (\<lambda>a st.
      finish_full E job v a st)))"

subsection \<open>The incremental backup\<close>

definition snapshot_of :: "uuid \<Rightarrow> ag_manifest \<Rightarrow> backup_snapshot" where
  "snapshot_of v m = \<lparr>bn_version_id = v, bn_timestamp = am_timestamp m,
     bn_files = map (\<lambda>f. \<lparr>fn_path = af_path f, fn_size = af_size f, fn_mtime = af_modified_at f,
       fn_file_hash = af_file_hash f\<rparr>) (am_files m)\<rparr>"

definition or_insert :: "string \<Rightarrow> ag_chunk_location \<Rightarrow> (string, ag_chunk_location) hmap \<Rightarrow> (string, ag_chunk_location) hmap" where
  "or_insert k l m = (if map_of m k = None then AList.update k l m else m)"

definition baseline_chunks :: "ag_manifest \<Rightarrow> string \<Rightarrow> chunk_hash list option" where
  "baseline_chunks m p = map_of (rev (map (\<lambda>f. (af_path f, af_chunks f)) (am_files m))) p"

fun reuse_chunks ::
  "('r, 'j) backup_engine \<Rightarrow> ag_manifest \<Rightarrow> uuid \<Rightarrow> string \<Rightarrow> (chunk_hash \<times> u64) list \<Rightarrow> run_acc \<Rightarrow> run_acc" where
  "reuse_chunks E prev v p [] a = a"
| "reuse_chunks E prev v p ((h, off) # hs) a =
     (let k = hex_encode (en_crates E) h;
          locs = (case map_of (am_chunk_locations prev) k of Some l \<Rightarrow> or_insert k l (ra_locations a) | None \<Rightarrow> ra_locations a)
      in reuse_chunks E prev v p hs
           (a\<lparr>ra_chunk_count := ra_chunk_count a + 1, ra_locations := locs,
              ra_refs := ra_refs a @ [\<lparr>cr_hash = h, cr_version_id = v, cr_file_path = p, cr_offset = off\<rparr>]\<rparr>))"

definition diff_and_store ::
  "('r, 'j) backup_engine \<Rightarrow> backup_job \<Rightarrow> ag_manifest \<Rightarrow> uuid \<Rightarrow> ag_file_entry \<Rightarrow> reader \<Rightarrow> chunk_hash list \<Rightarrow> run_acc \<Rightarrow>
   ('r, 'j) engine_st \<Rightarrow> (engine_error + run_acc) \<times> ('r, 'j) engine_st" where
  "diff_and_store E job prev v f r base a st =
     and_then (lift_err EnChunk (chunk_diff_compute (en_crates E) (en_chunk E) r base
        (to_chunk_strategy (bj_chunking_profile job) (af_size f))) st) (\<lambda>d st.
     let data = concat (map rc_data (all_chunks d)) in
     and_then (backup_chunks E False v (af_path f) (cd_new_chunks d) a st) (\<lambda>a st.
     let a1 = reuse_chunks E prev v (af_path f) (zip (cd_reused_chunk_refs d) (map rc_offset (cd_reused_chunks d))) a
     in (Inr (add_file (completed_entry E f (chunk_hashes E (cd_new_chunks d) @ cd_reused_chunk_refs d) data) (length data) a1), st)))"

fun incremental_files ::
  "('r, 'j) backup_engine \<Rightarrow> backup_job \<Rightarrow> ag_manifest \<Rightarrow> uuid \<Rightarrow> ag_file_entry list \<Rightarrow> run_acc \<Rightarrow> ('r, 'j) engine_st \<Rightarrow>
   (engine_error + run_acc) \<times> ('r, 'j) engine_st" where
  "incremental_files E job prev v [] a st = (Inr a, st)"
| "incremental_files E job prev v (f # fs) a st = (case en_open E (af_path f) of
     None \<Rightarrow> incremental_files E job prev v fs (a\<lparr>ra_skipped := ra_skipped a @ [af_path f]\<rparr>) st
   | Some r \<Rightarrow>
       and_then (case baseline_chunks prev (af_path f) of
            Some base \<Rightarrow> diff_and_store E job prev v f r base a st
          | None \<Rightarrow> chunk_and_store E False False job v f r a st)
         (incremental_files E job prev v fs))"

text \<open>The files and references carried over from the previous version.\<close>

definition unchanged_files :: "ag_manifest \<Rightarrow> string list \<Rightarrow> ag_file_entry list" where
  "unchanged_files prev changed = filter (\<lambda>f. af_path f \<notin> set changed) (am_files prev)"

definition unchanged_refs :: "ag_manifest \<Rightarrow> uuid \<Rightarrow> ag_file_entry list \<Rightarrow> chunk_reference list" where
  "unchanged_refs prev v fs = concat (map (\<lambda>f. map (\<lambda>r. r\<lparr>cr_version_id := v\<rparr>)
     (filter (\<lambda>r. cr_file_path r = af_path f) (am_chunk_refs prev))) fs)"

definition run_incremental_backup ::
  "('r, 'j) backup_engine \<Rightarrow> backup_job \<Rightarrow> uuid \<Rightarrow> ('r, 'j) engine_st \<Rightarrow>
   (engine_error + backup_result) \<times> ('r, 'j) engine_st" where
  "run_incremental_backup E job base st = (case fresh_uuid E st of (v, st) \<Rightarrow>
     and_then (on_repo (br_read_manifest (en_repo E) base) (set_state ExScanning st)) (\<lambda>prev st.
     and_then (lift_err EnScan (en_scan E (bj_source job) (Some (snapshot_of base prev))) st) (\<lambda>fs st.
     and_then (incremental_files E job prev v fs run_acc_new (set_state ExChunking st)) (\<lambda>a st.
     let unchanged = unchanged_files prev (map af_path fs);
         refs = unchanged_refs prev v unchanged @ ra_refs a;
         locs = fold (\<lambda>(k, l). or_insert k l) (am_chunk_locations prev) (ra_locations a)
     in and_then (commit_version E v (Some base) (am_version_number prev + 1) Incremental (unchanged @ ra_files a) refs locs st) (\<lambda>_ st.
        (Inr ((result_of v a)\<lparr>bt_file_count := of_nat (length (ra_files a)) + of_nat (length unchanged)\<rparr>),
         set_state ExSuccess st))))))"

fun cleanup_orphan_chunks :: "'r backup_repository \<Rightarrow> ag_chunk_location list \<Rightarrow> 'r \<Rightarrow> nat \<times> 'r" where
  "cleanup_orphan_chunks R [] r = (0, r)"
| "cleanup_orphan_chunks R (l # ls) r = (case br_delete_chunk R l r of (x, r1) \<Rightarrow>
     (case cleanup_orphan_chunks R ls r1 of (n, r2) \<Rightarrow> ((case x of Inr _ \<Rightarrow> Suc n | Inl _ \<Rightarrow> n), r2)))"

end
