(* ===== verification/Agent_Restore.thy ===== *)
theory Agent_Restore
  imports Agent_Engine
begin

text \<open>
  Restoring (\<open>hbx-restore/src/lib.rs\<close>): choosing files of a version, reading and
  decoding their chunks, writing them below the target directory and checking their
  hashes.  The target is a file system of its own.  \<open>PathBuf\<close>s of file lists are
  strings; the progress fraction is left out.
\<close>

datatype file_selection = All | FileList "string list" | SelGlob string | Search string
| SelPrefix string | DateRange timestamp timestamp

datatype restore_mode = Overwrite | Skip | Rename | NewLocation

datatype restore_state = RsPending | RsResolving | RsPlanning | RsDownloading | RsDecrypting | RsReassembling
| RsVerifying | RsSuccess | RsPartialFailed | RsFailed

datatype restore_status = StPending | StRunning | StSuccess | StPartialFailed | StFailed

fun tracker_status :: "restore_state \<Rightarrow> restore_status" where
  "tracker_status RsPending = StPending"
| "tracker_status RsSuccess = StSuccess"
| "tracker_status RsPartialFailed = StPartialFailed"
| "tracker_status RsFailed = StFailed"
| "tracker_status _ = StRunning"

record restore_job =
  rj_restore_id :: uuid
  rj_source_version_id :: uuid
  rj_file_selection :: file_selection
  rj_restore_mode :: restore_mode
  rj_target_location :: path
  rj_status :: restore_status
  rj_started_at :: "timestamp option"
  rj_completed_at :: "timestamp option"
  rj_failed_files :: "string list"

record restore_result =
  rr_version_id :: uuid
  rr_files_restored :: u64
  rr_files_failed :: u64
  rr_bytes_restored :: u64
  rr_all_verified :: bool
  rr_failed_files :: "string list"

datatype restore_error = RtRepo repo_error | RtCompress compress_error | RtEncrypt encrypt_error | RtIo io_error
| RtFailed string

record 'r restore_engine =
  rg_crates :: crates
  rg_sha256 :: "bytes \<Rightarrow> bytes"
  rg_decompress :: "bytes \<Rightarrow> compress_error + bytes"
  rg_decrypt :: "encrypted_chunk \<Rightarrow> encrypt_error + bytes"
  rg_repo :: "'r backup_repository"

record 'r restore_st =
  rs_repo :: 'r
  rs_disk :: fsys
  rs_state :: restore_state

subsection \<open>Choosing files\<close>

primrec glob_helper :: "string \<Rightarrow> string \<Rightarrow> bool" where
  "glob_helper [] txt \<longleftrightarrow> txt = []"
| "glob_helper (c # pat) txt =
     (if c = CHR ''*'' then pat = [] \<or> list_ex (\<lambda>k. glob_helper pat (drop k txt)) [0..<Suc (length txt)]
      else (case txt of [] \<Rightarrow> False | x # rest \<Rightarrow> (c = CHR ''?'' \<or> c = x) \<and> glob_helper pat rest))"

definition plan_files :: "ag_manifest \<Rightarrow> file_selection \<Rightarrow> ag_file_entry list" where
  "plan_files m sel = (case sel of
     All \<Rightarrow> am_files m
   | FileList ps \<Rightarrow> filter (\<lambda>f. af_path f \<in> set ps) (am_files m)
   | SelGlob pat \<Rightarrow> filter (\<lambda>f. glob_helper pat (af_path f)) (am_files m)
   | Search q \<Rightarrow> filter (\<lambda>f. sublist q (af_path f)) (am_files m)
   | SelPrefix q \<Rightarrow> filter (\<lambda>f. prefix q (af_path f)) (am_files m)
   | DateRange a b \<Rightarrow> filter (\<lambda>f. a \<le> af_modified_at f \<and> af_modified_at f \<le> b) (am_files m))"

subsection \<open>Where a file goes\<close>

text \<open>\<open>Path::file_name\<close> of a \<open>/\<close>-separated path (\<open>unwrap_or_default\<close>: empty when there is none).\<close>

definition file_name :: "string \<Rightarrow> string" where
  "file_name p = (case filter (\<lambda>c. c \<noteq> '''' \<and> c \<noteq> ''.'') (split_on (CHR ''/'') p) of
     [] \<Rightarrow> '''' | c # cs \<Rightarrow> if last (c # cs) = ''..'' then '''' else last (c # cs))"

definition compute_target_path :: "path \<Rightarrow> string \<Rightarrow> restore_mode \<Rightarrow> path" where
  "compute_target_path base source mode =
     (let name = (case mode of Rename \<Rightarrow> file_name source @ ''.restored'' | _ \<Rightarrow> file_name source)
      in if name = '''' then base else base @ [name])"

definition chunk_location_from_hash :: "crates \<Rightarrow> chunk_hash \<Rightarrow> ag_chunk_location" where
  "chunk_location_from_hash X h = \<lparr>al_bucket = hex_encode X (take 1 h), al_path = hex_encode X h @ ''.chunk''\<rparr>"

subsection \<open>Reading a file back\<close>

definition on_source ::
  "('r \<Rightarrow> (repo_error + 'a) \<times> 'r) \<Rightarrow> 'r restore_st \<Rightarrow> (restore_error + 'a) \<times> 'r restore_st" where
  "on_source f st = (case f (rs_repo st) of (x, r) \<Rightarrow> map_err RtRepo (x, st\<lparr>rs_repo := r\<rparr>))"

definition on_target ::
  "(fsys \<Rightarrow> (io_error + 'a) \<times> fsys) \<Rightarrow> 'r restore_st \<Rightarrow> (restore_error + 'a) \<times> 'r restore_st" where
  "on_target f st = (case f (rs_disk st) of (x, s) \<Rightarrow> map_err RtIo (x, st\<lparr>rs_disk := s\<rparr>))"

definition restore_set :: "restore_state \<Rightarrow> 'r restore_st \<Rightarrow> 'r restore_st" where
  "restore_set x st = st\<lparr>rs_state := x\<rparr>"

definition locate_chunk ::
  "'r restore_engine \<Rightarrow> ag_manifest \<Rightarrow> chunk_hash \<Rightarrow> 'r restore_st \<Rightarrow> ag_chunk_location \<times> 'r restore_st" where
  "locate_chunk G m h st = (case map_of (am_chunk_locations m) (hex_encode (rg_crates G) h) of
     Some l \<Rightarrow> (l, st)
   | None \<Rightarrow> (case br_find_chunk (rg_repo G) h (rs_repo st) of
       (Inr l, r) \<Rightarrow> (l, st\<lparr>rs_repo := r\<rparr>)
     | (Inl _, r) \<Rightarrow> (chunk_location_from_hash (rg_crates G) h, st\<lparr>rs_repo := r\<rparr>)))"

fun read_chunks ::
  "'r restore_engine \<Rightarrow> ag_manifest \<Rightarrow> chunk_hash list \<Rightarrow> 'r restore_st \<Rightarrow> (restore_error + bytes) \<times> 'r restore_st" where
  "read_chunks G m [] st = (Inr [], st)"
| "read_chunks G m (h # hs) st = (case locate_chunk G m h st of (l, st) \<Rightarrow>
     and_then (on_source (br_read_chunk (rg_repo G) l) st) (\<lambda>encrypted st.
     and_then (map_err RtEncrypt (rg_decrypt G encrypted, st)) (\<lambda>compressed st.
     and_then (map_err RtCompress (rg_decompress G compressed, st)) (\<lambda>plain st.
     and_then (read_chunks G m hs st) (\<lambda>rest st. (Inr (plain @ rest), st))))))"

definition restore_data ::
  "'r restore_engine \<Rightarrow> ag_manifest \<Rightarrow> path \<Rightarrow> ag_file_entry \<Rightarrow> restore_result \<Rightarrow> 'r restore_st \<Rightarrow>
   (restore_error + restore_result) \<times> 'r restore_st" where
  "restore_data G m target f a st =
     and_then (read_chunks G m (af_chunks f) (restore_set RsDecrypting st)) (\<lambda>data st.
     and_then (on_target (fs_write target data) (restore_set RsReassembling st)) (\<lambda>_ st.
     let st1 = restore_set RsVerifying st; a1 = a\<lparr>rr_bytes_restored := rr_bytes_restored a + of_nat (length data)\<rparr> in
     if rg_sha256 G data \<noteq> af_file_hash f
     then (Inr (a1\<lparr>rr_all_verified := False, rr_files_failed := rr_files_failed a1 + 1,
                   rr_failed_files := rr_failed_files a1 @ [af_path f]\<rparr>), st1)
     else (Inr (a1\<lparr>rr_files_restored := rr_files_restored a1 + 1\<rparr>), st1)))"

definition restore_one ::
  "'r restore_engine \<Rightarrow> restore_job \<Rightarrow> ag_manifest \<Rightarrow> ag_file_entry \<Rightarrow> restore_result \<Rightarrow> 'r restore_st \<Rightarrow>
   (restore_error + restore_result) \<times> 'r restore_st" where
  "restore_one G job m f a st =
     (let target = compute_target_path (rj_target_location job) (af_path f) (rj_restore_mode job);
          st1 = restore_set RsDownloading st in
      and_then (if target = [] then (Inr (), st1) else on_target (fs_create_dir_all (butlast target)) st1) (\<lambda>_ st.
      if rj_restore_mode job = Skip \<and> path_exists (rs_disk st) target
      then (Inr (a\<lparr>rr_files_restored := rr_files_restored a + 1\<rparr>), st)
      else restore_data G m target f a st))"

fun restore_all ::
  "'r restore_engine \<Rightarrow> restore_job \<Rightarrow> ag_manifest \<Rightarrow> ag_file_entry list \<Rightarrow> restore_result \<Rightarrow> 'r restore_st \<Rightarrow>
   (restore_error + restore_result) \<times> 'r restore_st" where
  "restore_all G job m [] a st = (Inr a, st)"
| "restore_all G job m (f # fs) a st = and_then (restore_one G job m f a st) (\<lambda>a st. restore_all G job m fs a st)"

definition final_state :: "restore_result \<Rightarrow> restore_state" where
  "final_state a =
     (if rr_files_failed a > 0 \<and> rr_files_restored a > 0 then RsPartialFailed
      else if rr_files_failed a > 0 then RsFailed else RsSuccess)"

definition run_restore ::
  "'r restore_engine \<Rightarrow> restore_job \<Rightarrow> 'r restore_st \<Rightarrow> (restore_error + restore_result) \<times> 'r restore_st" where
  "run_restore G job st =
     and_then (on_source (br_read_manifest (rg_repo G) (rj_source_version_id job)) (restore_set RsResolving st)) (\<lambda>m st.
     and_then (restore_all G job m (plan_files m (rj_file_selection job))
        \<lparr>rr_version_id = rj_source_version_id job, rr_files_restored = 0, rr_files_failed = 0, rr_bytes_restored = 0,
         rr_all_verified = True, rr_failed_files = []\<rparr> (restore_set RsPlanning st)) (\<lambda>a st.
     (Inr a, restore_set (final_state a) st)))"

end
