(* ===== verification/Agent_Tasks.thy ===== *)
theory Agent_Tasks
  imports Agent_Badou Agent_Restore
begin

text \<open>
  The tasks the agent runs for the control plane (\<open>hbx-agent/src/task_executor.rs\<close>): backup,
  restore and verify over the provider of the storage server.  The source tree as \<open>walkdir\<close> and
  \<open>std::fs\<close> report it, the token of the environment, fresh identifiers and the clock are
  arguments; the target of a restore is a file system.  The report goes to the control plane:
  \<open>execute\<close> answers it.
\<close>

subsection \<open>Data\<close>

record task_spec =
  tp_task_id :: string
  tp_job_id :: string
  tp_repo_id :: string
  tp_task_type :: string
  tp_source_path :: string
  tp_target_path :: string
  tp_badou_grpc_endpoint :: string

text \<open>One entry of the walk: whether it is a file, its length and its bytes, if they can be had.\<close>

record walked =
  wd_path :: string
  wd_is_file :: bool
  wd_len :: "u64 option"
  wd_data :: "bytes option"

record task_env =
  tk_net :: provider_crates
  tk_jwt :: string
  tk_exists :: "string \<Rightarrow> bool"
  tk_walk :: "string \<Rightarrow> walked option list"
  tk_now :: timestamp
  tk_fresh :: "string \<Rightarrow> uuid"
  tk_target :: "string \<Rightarrow> path"

record task_st =
  tt_provider :: provider_st
  tt_disk :: fsys

datatype task_error =
  TeSourceMissing string | TeWalkDir | TeReadFile string | TeTargetDir io_error | TeNoVersion | TeVersionId string
| TeUnknownType string

record task_outcome =
  to_bytes_processed :: u64
  to_bytes_stored :: u64
  to_file_count :: u32
  to_chunk_count :: u32
  to_version_id :: string

text \<open>The report, without its times, trace identifier and ratio.\<close>

record task_result =
  tr_task_id :: string
  tr_agent_id :: string
  tr_job_id :: string
  tr_status :: string
  tr_bytes_processed :: u64
  tr_bytes_stored :: u64
  tr_file_count :: u32
  tr_chunk_count :: u32
  tr_version_id :: "string option"
  tr_error :: "task_error option"

abbreviation tk_crates :: "task_env \<Rightarrow> crates" where
  "tk_crates T \<equiv> pc_crates (tk_net T)"

definition badou_endpoint :: "task_spec \<Rightarrow> string" where
  "badou_endpoint spec = (if tp_badou_grpc_endpoint spec = [] then ''http://127.0.0.1:9090'' else tp_badou_grpc_endpoint spec)"

subsection \<open>Backup\<close>

text \<open>\<open>slice::chunks\<close>.\<close>

function slice_chunks :: "nat \<Rightarrow> 'a list \<Rightarrow> 'a list list" where
  "slice_chunks n xs = (if n = 0 \<or> xs = [] then [] else take n xs # slice_chunks n (drop n xs))"
  by pat_completeness auto
termination by (relation "measure (\<lambda>(_, xs). length xs)") auto

declare slice_chunks.simps [simp del]

definition task_chunk_size :: nat where
  "task_chunk_size = 256 * 1024"

definition plain_chunk :: "bytes \<Rightarrow> encrypted_chunk" where
  "plain_chunk d = \<lparr>ec_ciphertext = d, ec_nonce = replicate 12 0, ec_auth_tag = replicate 16 0\<rparr>"

text \<open>The hash in the answered location, if it can be decoded.\<close>

definition stored_hash :: "crates \<Rightarrow> ag_chunk_location \<Rightarrow> chunk_hash \<Rightarrow> chunk_hash" where
  "stored_hash X loc h = (case hex_decode X (trim_end_matches ''.chunk'' (al_path loc)) of
     Some b \<Rightarrow> if length b = 32 then b else h | None \<Rightarrow> h)"

record upload_acc =
  ua_hashes :: "chunk_hash list"
  ua_refs :: "chunk_reference list"
  ua_count :: u32
  ua_offset :: u64

fun upload_chunks ::
  "task_env \<Rightarrow> badou_provider option \<Rightarrow> uuid \<Rightarrow> string \<Rightarrow> bytes list \<Rightarrow> upload_acc \<Rightarrow> provider_st \<Rightarrow> upload_acc \<times> provider_st" where
  "upload_chunks T prov vid path [] a st = (a, st)"
| "upload_chunks T prov vid path (d # ds) a st =
     (let h = blake3_hash (tk_crates T) d;
          next = ua_offset a + of_nat (length d) in
      case prov of
        None \<Rightarrow> upload_chunks T prov vid path ds (a\<lparr>ua_hashes := ua_hashes a @ [h], ua_offset := next\<rparr>) st
      | Some P \<Rightarrow> (case provider_write_chunk (tk_net T) P h (plain_chunk d) st of
          (Inr loc, st) \<Rightarrow> let k = stored_hash (tk_crates T) loc h in
             upload_chunks T prov vid path ds (a\<lparr>ua_hashes := ua_hashes a @ [k], ua_count := ua_count a + 1,
               ua_refs := ua_refs a @ [\<lparr>cr_hash = k, cr_version_id = vid, cr_file_path = path, cr_offset = ua_offset a\<rparr>],
               ua_offset := next\<rparr>) st
        | (Inl _, st) \<Rightarrow> upload_chunks T prov vid path ds (a\<lparr>ua_hashes := ua_hashes a @ [h], ua_offset := next\<rparr>) st))"

record backup_acc =
  ba_file_count :: u32
  ba_bytes :: u64
  ba_chunk_count :: u32
  ba_refs :: "chunk_reference list"
  ba_entries :: "ag_file_entry list"

fun walk_files ::
  "task_env \<Rightarrow> badou_provider option \<Rightarrow> uuid \<Rightarrow> walked option list \<Rightarrow> backup_acc \<Rightarrow> provider_st \<Rightarrow>
   (task_error + backup_acc) \<times> provider_st" where
  "walk_files T prov vid [] a st = (Inr a, st)"
| "walk_files T prov vid (None # es) a st = (Inl TeWalkDir, st)"
| "walk_files T prov vid (Some e # es) a st =
     (if \<not> wd_is_file e then walk_files T prov vid es a st
      else let len = (case wd_len e of Some n \<Rightarrow> n | None \<Rightarrow> 0) in
        case wd_data e of
          None \<Rightarrow> (Inl (TeReadFile (wd_path e)), st)
        | Some data \<Rightarrow>
            (case upload_chunks T prov vid (wd_path e) (slice_chunks task_chunk_size data)
                \<lparr>ua_hashes = [], ua_refs = ba_refs a, ua_count = ba_chunk_count a, ua_offset = 0\<rparr> st of (u, st) \<Rightarrow>
             walk_files T prov vid es (a\<lparr>ba_file_count := ba_file_count a + 1, ba_bytes := ba_bytes a + len,
               ba_chunk_count := ua_count u, ba_refs := ua_refs u,
               ba_entries := ba_entries a @ [\<lparr>af_path = wd_path e, af_size = len, af_modified_at = tk_now T,
                  af_attributes = file_attributes_default, af_chunks = ua_hashes u,
                  af_file_hash = blake3_hash (tk_crates T) data\<rparr>]\<rparr>) st))"

definition task_manifest :: "task_env \<Rightarrow> uuid \<Rightarrow> backup_acc \<Rightarrow> ag_manifest" where
  "task_manifest T vid a = \<lparr>am_version_id = vid, am_timestamp = tk_now T, am_parent_version_id = None, am_version_number = 1,
     am_backup_type = Full, am_files = ba_entries a, am_chunk_refs = ba_refs a,
     am_hashes = \<lparr>mh_manifest_hash = replicate 32 0, mh_file_index_hash = replicate 32 0,
       mh_chunk_index_hash = replicate 32 0, mh_repo_hash = replicate 32 0\<rparr>,
     am_chunk_locations = []\<rparr>"

text \<open>The provider of a backup: a repository is created, or else the one of the task is used.\<close>

definition backup_provider :: "task_env \<Rightarrow> task_spec \<Rightarrow> provider_st \<Rightarrow> badou_provider option \<times> provider_st" where
  "backup_provider T spec st =
     (if tk_jwt T = [] then (None, st)
      else case create_repo (tk_net T) (provider_new (tk_net T) (tk_fresh T ''init'') (badou_endpoint spec) (tp_repo_id spec) (tk_jwt T)) st of
        (Inr repo_id, st) \<Rightarrow> (Some (provider_new (tk_net T) (tk_fresh T ''holder'') (badou_endpoint spec) repo_id (tk_jwt T)), st)
      | (Inl _, st) \<Rightarrow> (Some (provider_new (tk_net T) (tk_fresh T ''holder'') (badou_endpoint spec) (tp_repo_id spec) (tk_jwt T)), st))"

definition execute_backup :: "task_env \<Rightarrow> task_spec \<Rightarrow> provider_st \<Rightarrow> (task_error + task_outcome) \<times> provider_st" where
  "execute_backup T spec st =
     (if \<not> tk_exists T (tp_source_path spec) then (Inl (TeSourceMissing (tp_source_path spec)), st)
      else let vid = tk_fresh T ''version'' in
        case backup_provider T spec st of (prov, st) \<Rightarrow>
        and_then (walk_files T prov vid (tk_walk T (tp_source_path spec))
           \<lparr>ba_file_count = 0, ba_bytes = 0, ba_chunk_count = 0, ba_refs = [], ba_entries = []\<rparr> st)
        (\<lambda>a st. let st = (case prov of None \<Rightarrow> st
             | Some P \<Rightarrow> snd (provider_write_manifest (tk_net T) P vid (task_manifest T vid a) st)) in
           (Inr \<lparr>to_bytes_processed = ba_bytes a, to_bytes_stored = ba_bytes a, to_file_count = ba_file_count a,
              to_chunk_count = ba_chunk_count a, to_version_id = uuid_to_string (tk_crates T) vid\<rparr>, st)))"

subsection \<open>Restore\<close>

text \<open>Chunks that cannot be read are skipped.\<close>

fun collect_chunks :: "task_env \<Rightarrow> badou_provider \<Rightarrow> chunk_hash list \<Rightarrow> provider_st \<Rightarrow> bytes \<times> provider_st" where
  "collect_chunks T P [] st = ([], st)"
| "collect_chunks T P (h # hs) st =
     (case provider_read_chunk (tk_net T) P (make_location (hex_encode (tk_crates T) h)) st of (r, st) \<Rightarrow>
      case collect_chunks T P hs st of (rest, st) \<Rightarrow>
        ((case r of Inr e \<Rightarrow> ec_ciphertext e | Inl _ \<Rightarrow> []) @ rest, st))"

definition restored_name :: "string \<Rightarrow> string" where
  "restored_name p = (if file_name p = [] then ''restored_file'' else file_name p)"

fun restore_files ::
  "task_env \<Rightarrow> badou_provider \<Rightarrow> path \<Rightarrow> ag_file_entry list \<Rightarrow> u32 \<times> u64 \<Rightarrow> task_st \<Rightarrow> (u32 \<times> u64) \<times> task_st" where
  "restore_files T P target [] acc st = (acc, st)"
| "restore_files T P target (f # fs) acc st =
     (let file_path = target @ [restored_name (af_path f)];
          disk = snd (fs_create_dir_all target (tt_disk st)) in
      case collect_chunks T P (af_chunks f) (tt_provider st) of (data, ps) \<Rightarrow>
      case fs_write file_path data disk of (r, disk) \<Rightarrow>
        restore_files T P target fs
          (case r of Inr _ \<Rightarrow> (fst acc + 1, snd acc + of_nat (length data)) | Inl _ \<Rightarrow> acc)
          \<lparr>tt_provider = ps, tt_disk = disk\<rparr>)"

definition execute_restore :: "task_env \<Rightarrow> task_spec \<Rightarrow> task_st \<Rightarrow> (task_error + task_outcome) \<times> task_st" where
  "execute_restore T spec st =
     (let target = tk_target T (tp_target_path spec) in
      case fs_create_dir_all target (tt_disk st) of (r, disk) \<Rightarrow>
      let st = st\<lparr>tt_disk := disk\<rparr> in
      case r of Inl e \<Rightarrow> (Inl (TeTargetDir e), st)
      | Inr _ \<Rightarrow>
        if tp_source_path spec = [] then (Inl TeNoVersion, st)
        else (case uuid_parse (tk_crates T) (tp_source_path spec) of
          None \<Rightarrow> (Inl (TeVersionId (tp_source_path spec)), st)
        | Some vid \<Rightarrow>
            let P = provider_new (tk_net T) (tk_fresh T ''holder'') (badou_endpoint spec) (tp_repo_id spec) (tk_jwt T) in
            case (if tk_jwt T = [] then ((0, 0), st)
                  else case provider_read_manifest (tk_net T) P vid (tt_provider st) of
                    (Inr m, ps) \<Rightarrow> restore_files T P target (am_files m) (0, 0) (st\<lparr>tt_provider := ps\<rparr>)
                  | (Inl _, ps) \<Rightarrow> ((0, 0), st\<lparr>tt_provider := ps\<rparr>)) of
              ((files, bytes), st) \<Rightarrow>
                (Inr \<lparr>to_bytes_processed = bytes, to_bytes_stored = bytes, to_file_count = files, to_chunk_count = files,
                   to_version_id = tp_source_path spec\<rparr>, st)))"

definition execute_verify :: "task_env \<Rightarrow> task_spec \<Rightarrow> task_error + task_outcome" where
  "execute_verify T spec = Inr \<lparr>to_bytes_processed = 0, to_bytes_stored = 0, to_file_count = 0, to_chunk_count = 0,
     to_version_id = uuid_to_string (tk_crates T) (tk_fresh T ''verify'')\<rparr>"

subsection \<open>The executor\<close>

definition task_report :: "string \<Rightarrow> task_spec \<Rightarrow> task_error + task_outcome \<Rightarrow> task_result" where
  "task_report agent spec r = (case r of
     Inr x \<Rightarrow> \<lparr>tr_task_id = tp_task_id spec, tr_agent_id = agent, tr_job_id = tp_job_id spec, tr_status = ''completed'',
       tr_bytes_processed = to_bytes_processed x, tr_bytes_stored = to_bytes_stored x, tr_file_count = to_file_count x,
       tr_chunk_count = to_chunk_count x, tr_version_id = Some (to_version_id x), tr_error = None\<rparr>
   | Inl e \<Rightarrow> \<lparr>tr_task_id = tp_task_id spec, tr_agent_id = agent, tr_job_id = tp_job_id spec, tr_status = ''failed'',
       tr_bytes_processed = 0, tr_bytes_stored = 0, tr_file_count = 0, tr_chunk_count = 0, tr_version_id = None,
       tr_error = Some e\<rparr>)"

definition execute :: "task_env \<Rightarrow> string \<Rightarrow> task_spec \<Rightarrow> task_st \<Rightarrow> task_result \<times> task_st" where
  "execute T agent spec st =
     (let (r, st) =
        (if tp_task_type spec = ''backup'' then
           (case execute_backup T spec (tt_provider st) of (r, ps) \<Rightarrow> (r, st\<lparr>tt_provider := ps\<rparr>))
         else if tp_task_type spec = ''restore'' then execute_restore T spec st
         else if tp_task_type spec = ''verify'' then (execute_verify T spec, st)
         else (Inl (TeUnknownType (tp_task_type spec)), st))
      in (task_report agent spec r, st))"

end
