(* ===== verification/Agent_Badou_Facts.thy ===== *)
theory Agent_Badou_Facts
  imports Agent_Tasks
begin

text \<open>
  Agent and bucket together: what the agent writes through the provider it reads back from the
  server, which versions the provider loses sight of, and what the tasks report.
\<close>

subsection \<open>A step over the network\<close>

text \<open>The headers the provider sends.\<close>

definition provider_md :: "badou_provider \<Rightarrow> metadata" where
  "provider_md P = \<lparr>md_authorization = Some (Some (''Bearer '' @ bd_jwt_token P)), md_version = Some (Some ''1'')\<rparr>"

text \<open>The network and the server let the next \<open>n\<close> steps of the provider through.\<close>

definition online :: "provider_crates \<Rightarrow> badou_provider \<Rightarrow> nat \<Rightarrow> provider_st \<Rightarrow> bool" where
  "online N P n st \<longleftrightarrow> pc_endpoint_ok N (bd_endpoint P) \<and> pc_header_ok N (''Bearer '' @ bd_jwt_token P) \<and>
     (\<forall>t. ps_step st \<le> t \<and> t < ps_step st + n \<longrightarrow> pc_net N t = NetOk \<and>
       (\<exists>cv. require_auth (sv_auth (pc_env N)) (cv_now (pc_call N t) ''auth'' 0) (ss_auth (ps_server st)) (provider_md P) = Inr cv))"

lemma online_at:
  assumes "online N P n st" and "k < n"
  obtains cv where "pc_net N (ps_step st + k) = NetOk"
    and "require_auth (sv_auth (pc_env N)) (cv_now (pc_call N (ps_step st + k)) ''auth'' 0) (ss_auth (ps_server st)) (provider_md P) = Inr cv"
  using assms unfolding online_def by (metis le_add1 nat_add_left_cancel_less)

lemma client_connect_Ok:
  "client_connect N P st = (Inr md, st') \<Longrightarrow> md = provider_md P \<and> st' = st\<lparr>ps_step := Suc (ps_step st)\<rparr>"
  by (auto simp: client_connect_def provider_md_def Let_def split: if_splits)

lemma client_connect_online:
  "online N P (Suc n) st \<Longrightarrow> client_connect N P st = (Inr (provider_md P), st\<lparr>ps_step := Suc (ps_step st)\<rparr>)"
  by (simp add: client_connect_def online_def provider_md_def Let_def)

lemma client_call_Ok:
  "client_call N md call st = (Inr x, st') \<longleftrightarrow>
     (\<exists>sv. serve (pc_env N) (pc_call N (ps_step st)) md call (ps_server st) = (Inr x, sv) \<and>
        st' = st\<lparr>ps_step := Suc (ps_step st), ps_server := sv\<rparr> \<and> pc_net N (ps_step st) = NetOk)"
  by (auto simp: client_call_def Let_def split: net.splits prod.splits sum.splits)

lemma run_async_Ok [simp]: "run_async r = (Inr x, st) \<longleftrightarrow> r = (Inr x, st)"
  by (cases r) (auto simp: run_async_def map_err_Ok_iff)

lemma trim_chunk:
  assumes "CHR ''.'' \<notin> set s"
  shows "trim_end_matches ''.chunk'' (s @ ''.chunk'') = s"
proof -
  have "\<not> suffix ''.chunk'' s" using assms by (auto simp: suffix_def)
  then have "trim_end_matches ''.chunk'' s = s" by (subst trim_end_matches.simps) simp
  moreover have "trim_end_matches ''.chunk'' (s @ ''.chunk'') = trim_end_matches ''.chunk'' s"
    by (subst trim_end_matches.simps) (simp add: suffix_def)
  ultimately show ?thesis by simp
qed

subsection \<open>Chunks\<close>

text \<open>What a chunk needs of the encodings: its digest can be named, and the name has no dot.\<close>

definition nameable :: "provider_crates \<Rightarrow> bytes \<Rightarrow> bool" where
  "nameable N data \<longleftrightarrow> (let h = blake3_hash (pc_crates N) data; k = hex_encode (pc_crates N) h in
     pb_parse_hash (pc_env N) k = Some h \<and> CHR ''.'' \<notin> set k)"

lemma update_same: "map_of m k = Some v \<Longrightarrow> AList.update k v m = m"
  by (induction m) (auto split: if_splits)

text \<open>Reading a stored chunk leaves the server as it is.\<close>

lemma get_stored_call:
  assumes "stored E st rid h d" and "blake3_hash (sv_crates E) d = h" and "faults (ss_fs st) = []"
    and "uuid_parse (sv_crates E) r = Some rid" and "pb_parse_hash E k = Some h"
    and "require_auth (sv_auth E) (cv_now C ''auth'' 0) (ss_auth st) md = Inr cv"
  shows "serve E C md (ChunkGet r k) st = (Inr (RespChunk \<lparr>pcd_chunk_hash = k, pcd_data = d, pcd_size = of_nat (length d)\<rparr>), st)"
proof -
  obtain op where op: "map_of (ss_open st) rid = Some op" "chunk_content (sv_crates E) (op_store_index op, ss_fs st) h = Some d"
    using assms(1) by (auto simp: stored_def)
  have "read_chunk (sv_crates E) h (op_store_index op, ss_fs st) = (Inr d, (op_store_index op, ss_fs st))"
    using read_chunk_total [OF _ op(2)] assms(2,3) by (simp add: quiet_def)
  then show ?thesis
    by (simp add: rpc_chunk_get_def the_repo_def ok_or_def assms(4-6) opened_def open_repo_handle_def op(1) on_store_def get_chunk_def update_same)
qed

lemma get_data_stored:
  assumes "stored (pc_env N) (ps_server st) rid (blake3_hash (pc_crates N) data) data" and "faults (ss_fs (ps_server st)) = []"
    and "uuid_parse (pc_crates N) (bd_repo_id P) = Some rid" and "nameable N data"
    and "pc_net N (ps_step st) = NetOk"
    and "require_auth (sv_auth (pc_env N)) (cv_now (pc_call N (ps_step st)) ''auth'' 0) (ss_auth (ps_server st)) md = Inr cv"
  shows "get_data N P md (hex_encode (pc_crates N) (blake3_hash (pc_crates N) data)) st = (Inr data, st\<lparr>ps_step := Suc (ps_step st)\<rparr>)"
proof -
  let ?k = "hex_encode (pc_crates N) (blake3_hash (pc_crates N) data)"
  have "serve (pc_env N) (pc_call N (ps_step st)) md (ChunkGet (bd_repo_id P) ?k) (ps_server st) =
      (Inr (RespChunk \<lparr>pcd_chunk_hash = ?k, pcd_data = data, pcd_size = of_nat (length data)\<rparr>), ps_server st)"
    by (rule get_stored_call [OF assms(1) refl assms(2,3) _ assms(6)]) (use assms(4) in \<open>simp add: nameable_def Let_def\<close>)
  then show ?thesis using assms(5) by (simp add: get_data_def client_call_def Let_def del: serve.simps)
qed

lemma read_stored_chunk:
  assumes "stored (pc_env N) (ps_server st) rid (blake3_hash (pc_crates N) data) data" and "faults (ss_fs (ps_server st)) = []"
    and "uuid_parse (pc_crates N) (bd_repo_id P) = Some rid" and "nameable N data" and "online N P 2 st" and "pc_enc_from_slice N data = Some e"
  shows "provider_read_chunk N P (make_location (hex_encode (pc_crates N) (blake3_hash (pc_crates N) data))) st = (Inr e, st\<lparr>ps_step := ps_step st + 2\<rparr>)"
proof -
  have conn: "client_connect N P st = (Inr (provider_md P), st\<lparr>ps_step := Suc (ps_step st)\<rparr>)"
    by (rule client_connect_online [where n = 1]) (use assms(5) in \<open>simp add: numeral_2_eq_2\<close>)
  obtain cv where "require_auth (sv_auth (pc_env N)) (cv_now (pc_call N (Suc (ps_step st))) ''auth'' 0) (ss_auth (ps_server st)) (provider_md P) = Inr cv"
    "pc_net N (Suc (ps_step st)) = NetOk" by (rule online_at [OF assms(5), of 1]) auto
  then have "get_data N P (provider_md P) (hex_encode (pc_crates N) (blake3_hash (pc_crates N) data)) (st\<lparr>ps_step := Suc (ps_step st)\<rparr>) =
      (Inr data, st\<lparr>ps_step := ps_step st + 2\<rparr>)"
    by (subst get_data_stored [where rid = rid and cv = cv]) (use assms in simp_all)
  moreover have "trim_end_matches ''.chunk'' (al_path (make_location (hex_encode (pc_crates N) (blake3_hash (pc_crates N) data)))) =
      hex_encode (pc_crates N) (blake3_hash (pc_crates N) data)"
    using assms(4) by (simp add: make_location_def nameable_def Let_def trim_chunk)
  ultimately show ?thesis using assms(6) conn by (simp add: provider_read_chunk_def run_async_def)
qed

lemma put_data_stored:
  assumes "env_good (pc_env N)" and "server_good (pc_env N) (ps_server st)" and "map_of (ss_open (ps_server st)) rid = Some op"
    and "uuid_parse (pc_crates N) (bd_repo_id P) = Some rid" and "nameable N data"
    and "\<not> chunk_exists (pc_crates N) (op_store_index op) (blake3_hash (pc_crates N) data) \<or>
         stored (pc_env N) (ps_server st) rid (blake3_hash (pc_crates N) data) data"
    and "put_data N P md data st = (Inr resp, st1)"
  shows "stored (pc_env N) (ps_server st1) rid (blake3_hash (pc_crates N) data) data" and "server_good (pc_env N) (ps_server st1)"
proof -
  let ?h = "blake3_hash (pc_crates N) data"
  let ?call = "ChunkPut \<lparr>cpr_repo_id = bd_repo_id P, cpr_chunk = Some \<lparr>pcd_chunk_hash = hex_encode (pc_crates N) ?h, pcd_data = data, pcd_size = of_nat (length data)\<rparr>\<rparr>"
  obtain sv where s: "serve (pc_env N) (pc_call N (ps_step st)) md ?call (ps_server st) = (Inr resp, sv)" and sv: "ps_server st1 = sv"
    using assms(7) by (auto simp: put_data_def client_call_Ok)
  have k: "pb_parse_hash (pc_env N) (hex_encode (pc_crates N) ?h) = Some ?h" using assms(5) by (simp add: nameable_def Let_def)
  have step: "server_step (pc_env N) {} (ps_server st) sv" using serve_step [OF assms(1,2), of ?call "pc_call N (ps_step st)" md] s by (simp del: serve.simps)
  then show "server_good (pc_env N) (ps_server st1)" using sv server_step_good by blast
  from assms(6) show "stored (pc_env N) (ps_server st1) rid ?h data"
  proof
    assume "\<not> chunk_exists (pc_crates N) (op_store_index op) ?h"
    then show ?thesis using put_stored(1) [OF assms(1-4) k _ s] sv by simp
  next
    assume "stored (pc_env N) (ps_server st) rid ?h data"
    then show ?thesis using step sv by (simp add: server_step_def)
  qed
qed

text \<open>A chunk written through the provider is read back from the answered location, after any
  calls of other clients that do not give it up.\<close>

theorem provider_chunk_roundtrip:
  assumes "env_good (pc_env N)" and "server_good (pc_env N) (ps_server st)" and "map_of (ss_open (ps_server st)) rid = Some op"
    and "uuid_parse (pc_crates N) (bd_repo_id P) = Some rid"
    and "pc_enc_to_vec N e = Some data" and "pc_enc_from_slice N data = Some e" and "nameable N data"
    and "\<not> chunk_exists (pc_crates N) (op_store_index op) (blake3_hash (pc_crates N) data) \<or>
         stored (pc_env N) (ps_server st) rid (blake3_hash (pc_crates N) data) data"
    and "provider_write_chunk N P h e st = (Inr loc, st1)"
    and "(rid, blake3_hash (pc_crates N) data) \<notin> gives_up (pc_env N) calls"
    and "ps_server st2 = session (pc_env N) calls (ps_server st1)" and "faults (ss_fs (ps_server st2)) = []" and "online N P 2 st2"
  shows "fst (provider_read_chunk N P loc st2) = Inr e"
proof -
  let ?E = "pc_env N" and ?h = "blake3_hash (pc_crates N) data"
  obtain resp where p: "put_data N P (provider_md P) data (st\<lparr>ps_step := Suc (ps_step st)\<rparr>) = (Inr resp, st1)"
    and loc: "loc = make_location (hex_encode (pc_crates N) ?h)"
    using assms(9,5) by (auto simp: provider_write_chunk_def and_then_Ok_iff dest!: client_connect_Ok)
  have s1: "stored ?E (ps_server st1) rid ?h data" "server_good ?E (ps_server st1)"
    by (rule put_data_stored [OF assms(1) _ _ assms(4,7) _ p]; use assms(2,3,8) in simp)+
  then have s2: "stored ?E (ps_server st2) rid ?h data"
    using session_step [OF assms(1) s1(2), of calls] assms(10,11) by (simp add: server_step_def)
  show ?thesis unfolding loc by (simp add: read_stored_chunk [OF s2 assms(12,4,7,13,6)])
qed

subsection \<open>What a commit leaves in the registry\<close>

definition registers :: "commit_env \<Rightarrow> version_ops \<Rightarrow> commit_st \<Rightarrow> bool" where
  "registers E vo st \<longleftrightarrow> repo_ids (cs_vo st) (ce_repo E) = repo_ids vo (ce_repo E) @ [ce_vid E] \<and>
     (\<exists>v. map_of (vo_versions (cs_vo st)) (ce_vid E) = Some v \<and> v_snapshot_id v = ce_sid E) \<and>
     (\<forall>u. u \<noteq> ce_vid E \<longrightarrow> map_of (vo_versions (cs_vo st)) u = map_of (vo_versions vo) u)"

lemma registers_create:
  "create_version (ce_vid E) (ce_sid E) now (ce_repo E) parent (cs_vo st) = (Inr v, vo) \<Longrightarrow> registers E (cs_vo st) (st\<lparr>cs_vo := vo\<rparr>)"
  by (auto simp: registers_def create_version_def Let_def repo_ids_def map_of_update version_new_def split: option.splits if_splits)

lemma registers_transition: "registers E vo st \<Longrightarrow> registers E vo (snd (on_vo (vo_transition (ce_vid E) target) st))"
  by (auto simp: registers_def on_vo_def vo_transition_def repo_ids_def map_of_update split: option.splits prod.splits)

lemma registers_same: "cs_vo st' = cs_vo st \<Longrightarrow> registers E vo st \<Longrightarrow> registers E vo st'"
  by (simp add: registers_def)

lemma registers_then:
  "registers E vo (snd r) \<Longrightarrow> (\<And>x b. registers E vo b \<Longrightarrow> registers E vo (snd (k x b))) \<Longrightarrow> registers E vo (snd (and_then r k))"
  by (rule and_then_inv)

lemma registers_map_err: "registers E vo (snd r) \<Longrightarrow> registers E vo (snd (map_err f r))"
  by simp

lemma registers_disk: "registers E vo st \<Longrightarrow> registers E vo (snd (on_disk f st))"
  and registers_ix: "registers E vo st \<Longrightarrow> registers E vo (snd (on_ix g st))"
  and registers_note: "registers E vo st \<Longrightarrow> registers E vo (snd (journal_note E op text done st))"
  by (auto intro: registers_same)

lemmas registers_intros = registers_then registers_map_err registers_disk registers_ix registers_note registers_transition

lemma registers_write_chunks: "registers E vo st \<Longrightarrow> registers E vo (snd (write_chunks E k cs st))"
proof (induction cs arbitrary: k st)
  case (Cons c cs)
  obtain h d where "c = (h, d)" by fastforce
  then show ?case using Cons by (simp, intro registers_intros) (simp_all add: Cons)
qed simp

lemma registers_verify: "registers E vo st \<Longrightarrow> registers E vo (snd (verify_chunks E cs st))"
proof (induction cs arbitrary: st)
  case (Cons c cs)
  obtain h d where "c = (h, d)" by fastforce
  then show ?case using Cons by (simp, intro registers_intros) (simp_all add: Cons)
qed simp

lemma registers_finish: "registers E vo st \<Longrightarrow> registers E vo (snd (commit_finish E sd m sn st))"
  unfolding commit_finish_def Let_def
  by (cases "sj_to_vec (ce_sjson E) (snapshot_to_commit E m sn)"; simp only: option.case) (intro registers_intros; simp)+

lemma registers_staged: "registers E vo st \<Longrightarrow> registers E vo (snd (commit_staged E sd m sn chunks st))"
  unfolding commit_staged_def fail_commit_def start_writing_def
  by (cases "mj_to_vec (ce_mjson E) m"; simp only: option.case)
     (intro registers_intros registers_write_chunks registers_verify; simp add: registers_finish registers_intros)+

lemma commit_registers:
  assumes "commit_backup E parent m sn chunks st = (Inr r, st')"
  shows "registers E (cs_vo st) st'"
proof -
  obtain v vo st1 where c: "create_version (ce_vid E) (ce_sid E) (ce_clock E ''version'' 0) (ce_repo E) parent (cs_vo st) = (Inr v, vo)"
    and rest: "and_then (journal_note E CommitStep ''start'' False (st\<lparr>cs_vo := vo\<rparr>)) (\<lambda>_ st.
       case on_disk (create_staging (ce_crates E) (ce_layout E) (ce_repo E) (ce_vid E)) st of
        (Inl e, st) \<Rightarrow> (Inr (CommitFailure (ce_vid E) (StagingCreationFailed e)), st)
      | (Inr staging, st) \<Rightarrow> commit_staged E staging m sn chunks st) = (Inr r, st')"
    using assms by (auto simp: commit_backup_def and_then_Ok_iff map_err_Ok_iff on_vo_Ok)
  have "registers E (cs_vo st) (snd (and_then (journal_note E CommitStep ''start'' False (st\<lparr>cs_vo := vo\<rparr>)) (\<lambda>_ st.
       case on_disk (create_staging (ce_crates E) (ce_layout E) (ce_repo E) (ce_vid E)) st of
        (Inl e, st) \<Rightarrow> (Inr (CommitFailure (ce_vid E) (StagingCreationFailed e)), st)
      | (Inr staging, st) \<Rightarrow> commit_staged E staging m sn chunks st)))"
  proof (intro registers_then registers_note registers_create [OF c])
    fix b assume "registers E (cs_vo st) b"
    then have "registers E (cs_vo st) (snd (on_disk (create_staging (ce_crates E) (ce_layout E) (ce_repo E) (ce_vid E)) b))"
      by (rule registers_disk)
    then show "registers E (cs_vo st) (snd (case on_disk (create_staging (ce_crates E) (ce_layout E) (ce_repo E) (ce_vid E)) b of
        (Inl e, st) \<Rightarrow> (Inr (CommitFailure (ce_vid E) (StagingCreationFailed e)), st)
      | (Inr staging, st) \<Rightarrow> commit_staged E staging m sn chunks st))"
      by (auto simp: registers_staged split: prod.splits sum.splits)
  qed
  then show ?thesis using rest by simp
qed

lemma map_filter_agree: "(\<And>x. x \<in> set xs \<Longrightarrow> f x = g x) \<Longrightarrow> List.map_filter f xs = List.map_filter g xs"
  by (induction xs) (auto simp: map_filter_simps split: option.splits)

text \<open>The listing after a commit: the old versions, then the new one.\<close>

lemma registers_listing:
  assumes "registers E vo st" and "ce_vid E \<notin> set (repo_ids vo (ce_repo E))"
  shows "\<exists>v. list_versions (cs_vo st) (ce_repo E) = list_versions vo (ce_repo E) @ [v] \<and> v_snapshot_id v = ce_sid E"
proof -
  obtain v where v: "map_of (vo_versions (cs_vo st)) (ce_vid E) = Some v" "v_snapshot_id v = ce_sid E"
    and u: "\<And>u. u \<noteq> ce_vid E \<Longrightarrow> map_of (vo_versions (cs_vo st)) u = map_of (vo_versions vo) u"
    and ids: "repo_ids (cs_vo st) (ce_repo E) = repo_ids vo (ce_repo E) @ [ce_vid E]"
    using assms(1) by (auto simp: registers_def)
  have "List.map_filter (map_of (vo_versions (cs_vo st))) (repo_ids vo (ce_repo E)) =
      List.map_filter (map_of (vo_versions vo)) (repo_ids vo (ce_repo E))"
    using u assms(2) by (intro map_filter_agree) metis
  then show ?thesis using v by (simp add: list_versions_def ids map_filter_def)
qed

subsection \<open>The manifest\<close>

lemma journal_good_apart:
  assumes "journal_good (ce_crates E) (ce_layout E) (ce_repo E) j"
  shows "journal_apart E j"
proof -
  have "\<not> data_zone (ce_crates E) (ce_layout E) (ce_repo E) p" if "prefix (journal_dir (ce_crates E) (ce_layout E) (ce_repo E)) p" for p
    using that by (auto simp: data_zone_def meta_zone_def place_defs prefix_def)
  then show ?thesis using journal_good_files [OF assms] by (auto simp: journal_apart_def)
qed

text \<open>What a commit call with an open repository does.\<close>

lemma commit_call:
  assumes "map_of (ss_open sv) rid = Some op" and "uuid_parse (sv_crates E) (scr_repo_id req) = Some rid"
    and "scr_parent_version_id req = []" and "scr_meta req = Some meta" and "scr_manifest req = Some pm" and "scr_chunk_hashes req = []"
    and "serve E C md (SnapshotCommit req) sv = (Inr resp, sv')"
  shows "\<exists>v i c. commit_backup (commit_env_of E C (ss_layout sv) rid) None (request_manifest E C pm) (request_snapshot E C meta (request_manifest E C pm)) []
       \<lparr>cs_vo = ss_versions sv, cs_ix = op_store_index op, cs_jr = op_journal op, cs_fs = ss_fs sv\<rparr> = (Inr (CommitSuccess v i), c) \<and>
     ss_versions sv' = cs_vo c \<and> lookup (ss_fs sv') = lookup (cs_fs c)"
proof -
  let ?f = "commit_backup (commit_env_of E C (ss_layout sv) rid) None (request_manifest E C pm) (request_snapshot E C meta (request_manifest E C pm)) []"
  let ?c0 = "\<lparr>cs_vo = ss_versions sv, cs_ix = op_store_index op, cs_jr = op_journal op, cs_fs = ss_fs sv\<rparr>"
  have o: "opened E rid sv = (Inr op, sv)" using assms(1) by (simp add: opened_def open_repo_handle_def)
  let ?sv = "sv\<lparr>ss_open := AList.update rid op (ss_open sv)\<rparr>"
  obtain result sv1 where c: "on_commit rid op ?f ?sv = (Inr result, sv1)"
    and a: "commit_answer E (scr_repo_id req) rid result sv1 = (Inr resp, sv')"
    using assms(7) by (auto simp: rpc_snapshot_commit_def the_repo_def ok_or_def assms(2-6) o result_iffs Let_def on_store_def total_def)
  obtain c where cb: "?f ?c0 = (Inr result, c)" and sv1: "ss_versions sv1 = cs_vo c" "ss_fs sv1 = cs_fs c"
    using c by (auto simp: on_commit_def split: prod.splits)
  show ?thesis
  proof (cases result)
    case (CommitSuccess v i)
    obtain g sn where "on_disk_of (read_snapshot (sv_crates E) (sv_sjson E) (ss_layout sv1) rid i) sv1 = (Inr sn, sv')"
      using a CommitSuccess by (auto simp: commit_answer_def result_iffs split: sum.splits)
    then have "ss_versions sv' = ss_versions sv1" "lookup (ss_fs sv') = lookup (ss_fs sv1)"
      using fs_reads_read_snapshot [of "sv_crates E" "sv_sjson E" "ss_layout sv1" rid i]
      by (auto simp: on_disk_of_def fs_reads_def split: prod.splits) (metis snd_conv)+
    then show ?thesis using cb sv1 CommitSuccess by auto
  qed (use a in \<open>simp add: commit_answer_def\<close>)
qed

text \<open>The snapshots a healthy disk lists.\<close>

definition listed :: "server_env \<Rightarrow> string \<Rightarrow> uuid \<Rightarrow> server_state \<Rightarrow> version \<Rightarrow> pb_snapshot_meta option" where
  "listed E r rid sv v = (case fst (read_snapshot (sv_crates E) (sv_sjson E) (ss_layout sv) rid (v_snapshot_id v) (ss_fs sv)) of
     Inr sn \<Rightarrow> Some (snapshot_to_pb_meta E sn r) | Inl _ \<Rightarrow> None)"

lemma read_snapshot_quiet: "faults s = [] \<Longrightarrow> snd (read_snapshot X N l rid sid s) = s"
  by (auto simp: read_snapshot_def fs_read_def and_then_def map_err_def split: option.splits node.splits sum.splits)

lemma read_snapshots_quiet:
  assumes "faults (ss_fs sv) = []"
  shows "read_snapshots E r rid vs sv = (List.map_filter (listed E r rid sv) vs, sv)"
proof (induction vs)
  case (Cons v vs)
  have "on_disk_of (read_snapshot (sv_crates E) (sv_sjson E) (ss_layout sv) rid (v_snapshot_id v)) sv =
      (fst (read_snapshot (sv_crates E) (sv_sjson E) (ss_layout sv) rid (v_snapshot_id v) (ss_fs sv)), sv)"
    using read_snapshot_quiet [OF assms] by (simp add: on_disk_of_def split: prod.splits) (metis server_state.surjective server_state.update_convs(5) snd_conv old.unit.exhaust)
  then show ?case using Cons by (simp add: listed_def map_filter_simps split: sum.splits)
qed (simp add: map_filter_simps)

lemma list_call:
  assumes "map_of (ss_open sv) rid = Some op" and "uuid_parse (sv_crates E) r = Some rid" and "faults (ss_fs sv) = []"
    and "require_auth (sv_auth E) (cv_now C ''auth'' 0) (ss_auth sv) md = Inr cv"
  shows "serve E C md (SnapshotList r None) sv =
    (Inr (RespSnapshots (List.map_filter (listed E r rid sv) (take 100 (list_versions (ss_versions sv) rid)))), sv)"
  using assms by (simp add: rpc_snapshot_list_def the_repo_def ok_or_def opened_def open_repo_handle_def read_snapshots_quiet)

lemma put_versions: "ss_versions (snd (serve E C md (ChunkPut req) sv)) = ss_versions sv"
proof -
  let ?P = "\<lambda>s. ss_versions s = ss_versions sv"
  have o: "?P (snd (opened E rid b))" if "?P b" for b rid
    using reads_only_opened [OF reads_only_refl, of b E rid] that by (simp add: reads_only_def)
  have s: "?P (snd (on_store rid op f b))" if "?P b" for b rid op f
    using that by (simp add: on_store_def split: prod.splits)
  show ?thesis unfolding serve.simps rpc_chunk_put_def
    by (intro and_then_inv [where P = ?P]) (auto simp: the_repo_def ok_or_def o s split: option.splits intro!: and_then_inv [where P = ?P])
qed

text \<open>A snapshot meta that names the version \<open>vid\<close>.\<close>

abbreviation names :: "provider_crates \<Rightarrow> uuid \<Rightarrow> pb_snapshot_meta \<Rightarrow> bool" where
  "names N vid s \<equiv> psm_version_id s = uuid_to_string (pc_crates N) vid"

lemma find_last: "(\<And>x. x \<in> set xs \<Longrightarrow> \<not> Q x) \<Longrightarrow> Q y \<Longrightarrow> find Q (xs @ [y]) = Some y"
  by (induction xs) auto

lemma set_map_filter: "x \<in> set (List.map_filter f xs) \<longleftrightarrow> (\<exists>v \<in> set xs. f v = Some x)"
  by (induction xs) (auto simp: map_filter_simps split: option.splits)

lemma map_filter_append: "List.map_filter f (xs @ ys) = List.map_filter f xs @ List.map_filter f ys"
  by (induction xs) (auto simp: map_filter_simps split: option.splits)

text \<open>The two calls of \<open>write_manifest\<close>.\<close>

lemma write_manifest_Ok:
  assumes "provider_write_manifest N P vid m st = (Inr (), st1)"
    and "oj_manifest_to_vec (pc_json N) m = Some json" and "pc_zstd_encode N json = Some z"
  obtains resp resp' st2 sv where "put_data N P (provider_md P) z (st\<lparr>ps_step := Suc (ps_step st)\<rparr>) = (Inr resp, st2)"
    and "serve (pc_env N) (pc_call N (ps_step st2)) (provider_md P)
       (SnapshotCommit (manifest_request N P vid (hex_encode (pc_crates N) (blake3_hash (pc_crates N) z)) (ps_step st))) (ps_server st2) = (Inr resp', sv)"
    and "st1 = st2\<lparr>ps_step := Suc (ps_step st2), ps_server := sv\<rparr>" and "ps_step st2 = ps_step st + 2"
proof -
  obtain resp resp' st2 where p: "put_data N P (provider_md P) z (st\<lparr>ps_step := Suc (ps_step st)\<rparr>) = (Inr resp, st2)"
    and c: "client_call N (provider_md P)
       (SnapshotCommit (manifest_request N P vid (hex_encode (pc_crates N) (blake3_hash (pc_crates N) z)) (ps_step st))) st2 = (Inr resp', st1)"
    using assms by (auto simp: provider_write_manifest_def Let_def and_then_Ok_iff dest!: client_connect_Ok)
  moreover have "ps_step st2 = ps_step st + 2" using p by (auto simp: put_data_def client_call_Ok)
  ultimately show thesis using that by (auto simp: client_call_Ok)
qed

lemma listed_after_commit:
  assumes "map_of (ss_open sv) rid = Some op" and "server_good (pc_env N) sv"
    and "uuid_parse (pc_crates N) (bd_repo_id P) = Some rid" and "uuid_parse (pc_crates N) (uuid_to_string (pc_crates N) vid) = Some vid"
    and "\<forall>x b. sj_to_vec (sv_sjson (pc_env N)) x = Some b \<longrightarrow> sj_from_slice (sv_sjson (pc_env N)) b = Some x"
    and "serve (pc_env N) C md (SnapshotCommit (manifest_request N P vid k t)) sv = (Inr resp, sv')"
    and "cv_fresh C ''version'' \<notin> set (repo_ids (ss_versions sv) rid)" and "faults (ss_fs sv') = []" and "ss_layout sv' = ss_layout sv"
  shows "\<exists>v x. list_versions (ss_versions sv') rid = list_versions (ss_versions sv) rid @ [v] \<and>
    listed (pc_env N) r rid sv' v = Some x \<and> names N vid x \<and> psm_file_tree_root x = k"
proof -
  let ?E = "commit_env_of (pc_env N) C (ss_layout sv) rid"
  let ?req = "manifest_request N P vid k t"
  obtain meta pm where mp: "scr_meta ?req = Some meta" "scr_manifest ?req = Some pm"
    and meta: "psm_version_id meta = uuid_to_string (pc_crates N) vid" "psm_file_tree_root meta = k"
    by (simp add: manifest_request_def Let_def)
  let ?m = "request_manifest (pc_env N) C pm" and ?c0 = "\<lparr>cs_vo = ss_versions sv, cs_ix = op_store_index op, cs_jr = op_journal op, cs_fs = ss_fs sv\<rparr>"
  obtain v i c where c: "commit_backup ?E None ?m (request_snapshot (pc_env N) C meta ?m) [] ?c0 = (Inr (CommitSuccess v i), c)"
    and sv': "ss_versions sv' = cs_vo c" "lookup (ss_fs sv') = lookup (cs_fs c)"
    using commit_call [OF assms(1) _ _ mp _ assms(6)] assms(3) by (auto simp: manifest_request_def Let_def)
  have "journal_apart ?E (op_journal op)"
    by (rule journal_good_apart) (use assms(1,2) in \<open>simp add: server_good_def commit_env_of_def\<close>)
  then obtain json where json: "sj_to_vec (sv_sjson (pc_env N)) (sealed_snapshot ?E ?m (request_snapshot (pc_env N) C meta ?m)) = Some json"
    "lookup (ss_fs sv') (snapshot_path (pc_crates N) (ss_layout sv) rid (ce_sid ?E)) = Some (File json)"
    using commit_snapshot_file [OF c] sv'(2) by (auto simp: commit_env_of_def)
  obtain w where w: "list_versions (ss_versions sv') rid = list_versions (ss_versions sv) rid @ [w]" "v_snapshot_id w = ce_sid ?E"
    using registers_listing [OF commit_registers [OF c]] sv'(1) assms(7) by (auto simp: commit_env_of_def)
  have "fst (read_snapshot (pc_crates N) (sv_sjson (pc_env N)) (ss_layout sv') rid (v_snapshot_id w) (ss_fs sv')) =
      Inr (sealed_snapshot ?E ?m (request_snapshot (pc_env N) C meta ?m))"
    using json assms(5,8,9) w(2) by (auto simp: read_snapshot_def path_exists_def fs_read_def)
  then have "listed (pc_env N) r rid sv' w =
      Some (snapshot_to_pb_meta (pc_env N) (sealed_snapshot ?E ?m (request_snapshot (pc_env N) C meta ?m)) r)"
    by (simp add: listed_def)
  moreover have "names N vid (snapshot_to_pb_meta (pc_env N) (sealed_snapshot ?E ?m (request_snapshot (pc_env N) C meta ?m)) r)"
    "psm_file_tree_root (snapshot_to_pb_meta (pc_env N) (sealed_snapshot ?E ?m (request_snapshot (pc_env N) C meta ?m)) r) = k"
    using meta assms(4) by (simp_all add: snapshot_to_pb_meta_def sealed_snapshot_def snapshot_to_commit_def request_snapshot_def uuid_or_def)
  ultimately show ?thesis using w(1) by blast
qed

text \<open>Reading a manifest on a healthy disk: list, find, get.\<close>

lemma read_manifest_online:
  assumes "map_of (ss_open (ps_server st)) rid = Some op" and "uuid_parse (pc_crates N) (bd_repo_id P) = Some rid"
    and "faults (ss_fs (ps_server st)) = []" and "online N P 3 st"
  shows "provider_read_manifest N P vid st = run_async (
     case find (names N vid) (List.map_filter (listed (pc_env N) (bd_repo_id P) rid (ps_server st)) (take 100 (list_versions (ss_versions (ps_server st)) rid))) of
        None \<Rightarrow> (Inl (BcInvalidEndpoint ''snapshot not found''), st\<lparr>ps_step := ps_step st + 2\<rparr>)
      | Some snapshot \<Rightarrow> and_then (get_data N P (provider_md P) (psm_file_tree_root snapshot) (st\<lparr>ps_step := ps_step st + 2\<rparr>))
          (\<lambda>data st. case pc_zstd_decode N data of
             None \<Rightarrow> (Inl (BcInvalidEndpoint ''zstd''), st)
           | Some json \<Rightarrow> (case oj_manifest_from_slice (pc_json N) json of
               None \<Rightarrow> (Inl (BcInvalidEndpoint ''serde''), st) | Some m \<Rightarrow> (Inr m, st))))"
proof -
  have conn: "client_connect N P st = (Inr (provider_md P), st\<lparr>ps_step := Suc (ps_step st)\<rparr>)"
    by (rule client_connect_online [where n = 2]) (use assms(4) in \<open>simp add: numeral_3_eq_3 numeral_2_eq_2\<close>)
  obtain cv where cv: "pc_net N (Suc (ps_step st)) = NetOk"
    "require_auth (sv_auth (pc_env N)) (cv_now (pc_call N (Suc (ps_step st))) ''auth'' 0) (ss_auth (ps_server st)) (provider_md P) = Inr cv"
    by (rule online_at [OF assms(4), of 1]) auto
  have "list_snapshots N P (provider_md P) (st\<lparr>ps_step := Suc (ps_step st)\<rparr>) =
      (Inr (List.map_filter (listed (pc_env N) (bd_repo_id P) rid (ps_server st)) (take 100 (list_versions (ss_versions (ps_server st)) rid))),
       st\<lparr>ps_step := ps_step st + 2\<rparr>)"
    using list_call [OF assms(1,2,3) cv(2)] cv(1) by (simp add: list_snapshots_def client_call_def Let_def del: serve.simps)
  then show ?thesis by (simp add: provider_read_manifest_def conn del: add_2_eq_Suc' )
qed

text \<open>After a successful \<open>write_manifest\<close>: the registry lists the new version last, its snapshot names
  the version and the chunk, and the chunk is stored.\<close>

lemma write_manifest_effect:
  assumes "env_good (pc_env N)" and "server_good (pc_env N) (ps_server st)" and "map_of (ss_open (ps_server st)) rid = Some op"
    and "uuid_parse (pc_crates N) (bd_repo_id P) = Some rid" and "uuid_parse (pc_crates N) (uuid_to_string (pc_crates N) vid) = Some vid"
    and "\<forall>x b. sj_to_vec (sv_sjson (pc_env N)) x = Some b \<longrightarrow> sj_from_slice (sv_sjson (pc_env N)) b = Some x"
    and "oj_manifest_to_vec (pc_json N) m = Some json" and "pc_zstd_encode N json = Some z" and "nameable N z"
    and "\<not> chunk_exists (pc_crates N) (op_store_index op) (blake3_hash (pc_crates N) z) \<or>
         stored (pc_env N) (ps_server st) rid (blake3_hash (pc_crates N) z) z"
    and "provider_write_manifest N P vid m st = (Inr (), st1)"
    and "cv_fresh (pc_call N (ps_step st + 2)) ''version'' \<notin> set (repo_ids (ss_versions (ps_server st)) rid)"
    and "faults (ss_fs (ps_server st1)) = []"
  shows "stored (pc_env N) (ps_server st1) rid (blake3_hash (pc_crates N) z) z" and "server_good (pc_env N) (ps_server st1)"
    and "\<exists>w x. list_versions (ss_versions (ps_server st1)) rid = list_versions (ss_versions (ps_server st)) rid @ [w] \<and>
      listed (pc_env N) (bd_repo_id P) rid (ps_server st1) w = Some x \<and> names N vid x \<and>
      psm_file_tree_root x = hex_encode (pc_crates N) (blake3_hash (pc_crates N) z)"
proof -
  let ?E = "pc_env N" and ?h = "blake3_hash (pc_crates N) z"
  let ?call = "SnapshotCommit (manifest_request N P vid (hex_encode (pc_crates N) ?h) (ps_step st))"
  obtain resp resp' st2 sv where p: "put_data N P (provider_md P) z (st\<lparr>ps_step := Suc (ps_step st)\<rparr>) = (Inr resp, st2)"
    and c: "serve ?E (pc_call N (ps_step st2)) (provider_md P) ?call (ps_server st2) = (Inr resp', sv)"
    and st1: "st1 = st2\<lparr>ps_step := Suc (ps_step st2), ps_server := sv\<rparr>" and t: "ps_step st2 = ps_step st + 2"
    by (rule write_manifest_Ok [OF assms(11,7,8)])
  have s2: "stored ?E (ps_server st2) rid ?h z" "server_good ?E (ps_server st2)"
    by (rule put_data_stored [OF assms(1) _ _ assms(4,9) _ p]; use assms(2,3,10) in simp)+
  have vo: "ss_versions (ps_server st2) = ss_versions (ps_server st)"
    using p put_versions [of ?E] by (auto simp: put_data_def client_call_Ok simp del: serve.simps) (metis snd_conv)
  obtain op2 where op2: "map_of (ss_open (ps_server st2)) rid = Some op2" using s2(1) by (auto simp: stored_def)
  have step: "server_step ?E {} (ps_server st2) sv"
    using serve_step [OF assms(1) s2(2), of ?call "pc_call N (ps_step st2)" "provider_md P"] c by (simp del: serve.simps)
  then show "stored ?E (ps_server st1) rid ?h z" "server_good ?E (ps_server st1)" using s2(1) st1 by (simp_all add: server_step_def)
  have l: "ss_layout sv = ss_layout (ps_server st2)" using step by (simp add: server_step_def)
  show "\<exists>w x. list_versions (ss_versions (ps_server st1)) rid = list_versions (ss_versions (ps_server st)) rid @ [w] \<and>
      listed ?E (bd_repo_id P) rid (ps_server st1) w = Some x \<and> names N vid x \<and> psm_file_tree_root x = hex_encode (pc_crates N) ?h"
    using listed_after_commit [OF op2 s2(2) assms(4,5,6) c _ _ l, of "bd_repo_id P"] assms(12,13) vo t st1 by auto
qed

lemma manifest_read_back:
  assumes "env_good (pc_env N)" and "server_good (pc_env N) (ps_server st)" and "map_of (ss_open (ps_server st)) rid = Some op"
    and "uuid_parse (pc_crates N) (bd_repo_id P) = Some rid" and "uuid_parse (pc_crates N) (uuid_to_string (pc_crates N) vid) = Some vid"
    and "\<forall>x b. sj_to_vec (sv_sjson (pc_env N)) x = Some b \<longrightarrow> sj_from_slice (sv_sjson (pc_env N)) b = Some x"
    and "oj_manifest_to_vec (pc_json N) m = Some json" and "oj_manifest_from_slice (pc_json N) json = Some m"
    and "pc_zstd_encode N json = Some z" and "pc_zstd_decode N z = Some json" and "nameable N z"
    and "\<not> chunk_exists (pc_crates N) (op_store_index op) (blake3_hash (pc_crates N) z) \<or>
         stored (pc_env N) (ps_server st) rid (blake3_hash (pc_crates N) z) z"
    and "provider_write_manifest N P vid m st = (Inr (), st1)"
    and "length (list_versions (ss_versions (ps_server st)) rid) < 100"
    and "cv_fresh (pc_call N (ps_step st + 2)) ''version'' \<notin> set (repo_ids (ss_versions (ps_server st)) rid)"
    and "\<forall>v \<in> set (list_versions (ss_versions (ps_server st)) rid). \<forall>x.
         listed (pc_env N) (bd_repo_id P) rid (ps_server st1) v = Some x \<longrightarrow> \<not> names N vid x"
    and "faults (ss_fs (ps_server st1)) = []" and "online N Q 3 st1" and "bd_repo_id Q = bd_repo_id P"
  shows "provider_read_manifest N Q vid st1 = (Inr m, st1\<lparr>ps_step := ps_step st1 + 3\<rparr>)"
proof -
  let ?E = "pc_env N" and ?h = "blake3_hash (pc_crates N) z" and ?sv = "ps_server st1"
  note eff = write_manifest_effect [OF assms(1-7,9,11,12,13,15,17)]
  have rid: "uuid_parse (pc_crates N) (bd_repo_id Q) = Some rid" using assms(4,19) by simp
  obtain w x where w: "list_versions (ss_versions ?sv) rid = list_versions (ss_versions (ps_server st)) rid @ [w]"
    "listed ?E (bd_repo_id P) rid ?sv w = Some x" "names N vid x" "psm_file_tree_root x = hex_encode (pc_crates N) ?h"
    using eff(3) by blast
  obtain op1 where op1: "map_of (ss_open ?sv) rid = Some op1" using eff(1) by (auto simp: stored_def)
  have take: "take 100 (list_versions (ss_versions ?sv) rid) = list_versions (ss_versions (ps_server st)) rid @ [w]"
    using w(1) assms(14) by simp
  have "find (names N vid) (List.map_filter (listed ?E (bd_repo_id Q) rid ?sv) (take 100 (list_versions (ss_versions ?sv) rid))) = Some x"
    unfolding take map_filter_append assms(19) using assms(16) w(2,3)
    by (simp add: map_filter_simps) (rule find_last, auto simp: set_map_filter)
  moreover obtain cv where "pc_net N (ps_step st1 + 2) = NetOk"
    "require_auth (sv_auth ?E) (cv_now (pc_call N (ps_step st1 + 2)) ''auth'' 0) (ss_auth ?sv) (provider_md Q) = Inr cv"
    by (rule online_at [OF assms(18), of 2]) auto
  then have "get_data N Q (provider_md Q) (hex_encode (pc_crates N) ?h) (st1\<lparr>ps_step := ps_step st1 + 2\<rparr>) = (Inr z, st1\<lparr>ps_step := ps_step st1 + 3\<rparr>)"
    by (subst get_data_stored [where rid = rid and cv = cv]) (use eff(1) rid assms(11,17) in simp_all)
  ultimately show ?thesis
    using read_manifest_online [OF op1 rid assms(17,18), of vid] w(4) assms(8,10) by (simp add: run_async_def)
qed

text \<open>A manifest comes back.  When the provider's \<open>write_manifest\<close> of a version answers success,
  the repository having fewer than a hundred versions and no other listed snapshot carrying
  this version's identifier, \<open>read_manifest\<close> of the version (network, token and disk working)
  answers the manifest: it went as a compressed chunk and a two-phase commit through the
  service, and is found again through the listing and the chunk.\<close>

theorem provider_manifest_roundtrip:
  assumes "env_good (pc_env N)" and "server_good (pc_env N) (ps_server st)" and "map_of (ss_open (ps_server st)) rid = Some op"
    and "uuid_parse (pc_crates N) (bd_repo_id P) = Some rid" and "uuid_parse (pc_crates N) (uuid_to_string (pc_crates N) vid) = Some vid"
    and "\<forall>x b. sj_to_vec (sv_sjson (pc_env N)) x = Some b \<longrightarrow> sj_from_slice (sv_sjson (pc_env N)) b = Some x"
    and "oj_manifest_to_vec (pc_json N) m = Some json" and "oj_manifest_from_slice (pc_json N) json = Some m"
    and "pc_zstd_encode N json = Some z" and "pc_zstd_decode N z = Some json" and "nameable N z"
    and "\<not> chunk_exists (pc_crates N) (op_store_index op) (blake3_hash (pc_crates N) z) \<or>
         stored (pc_env N) (ps_server st) rid (blake3_hash (pc_crates N) z) z"
    and "provider_write_manifest N P vid m st = (Inr (), st1)"
    and "length (list_versions (ss_versions (ps_server st)) rid) < 100"
    and "cv_fresh (pc_call N (ps_step st + 2)) ''version'' \<notin> set (repo_ids (ss_versions (ps_server st)) rid)"
    and "\<forall>v \<in> set (list_versions (ss_versions (ps_server st)) rid). \<forall>x.
         listed (pc_env N) (bd_repo_id P) rid (ps_server st1) v = Some x \<longrightarrow> \<not> names N vid x"
    and "faults (ss_fs (ps_server st1)) = []" and "online N P 3 st1"
  shows "fst (provider_read_manifest N P vid st1) = Inr m"
  using manifest_read_back [OF assms refl] by simp

text \<open>(C16) The hundred-and-first version is lost.  The listing the provider searches shows the
  first hundred versions of a repository, oldest first.  Once a repository has a hundred
  versions, \<open>write_manifest\<close> goes on answering success and the server has the version and its
  snapshot, but \<open>read_manifest\<close> of the version just written fails although network, token and
  disk work (no snapshot among the first hundred carrying its identifier).\<close>

theorem manifest_beyond_hundredth_unreadable:
  assumes "env_good (pc_env N)" and "server_good (pc_env N) (ps_server st)" and "map_of (ss_open (ps_server st)) rid = Some op"
    and "uuid_parse (pc_crates N) (bd_repo_id P) = Some rid" and "uuid_parse (pc_crates N) (uuid_to_string (pc_crates N) vid) = Some vid"
    and "\<forall>x b. sj_to_vec (sv_sjson (pc_env N)) x = Some b \<longrightarrow> sj_from_slice (sv_sjson (pc_env N)) b = Some x"
    and "oj_manifest_to_vec (pc_json N) m = Some json" and "pc_zstd_encode N json = Some z" and "nameable N z"
    and "\<not> chunk_exists (pc_crates N) (op_store_index op) (blake3_hash (pc_crates N) z) \<or>
         stored (pc_env N) (ps_server st) rid (blake3_hash (pc_crates N) z) z"
    and "provider_write_manifest N P vid m st = (Inr (), st1)"
    and "100 \<le> length (list_versions (ss_versions (ps_server st)) rid)"
    and "cv_fresh (pc_call N (ps_step st + 2)) ''version'' \<notin> set (repo_ids (ss_versions (ps_server st)) rid)"
    and "\<forall>v \<in> set (take 100 (list_versions (ss_versions (ps_server st)) rid)). \<forall>x.
         listed (pc_env N) (bd_repo_id P) rid (ps_server st1) v = Some x \<longrightarrow> \<not> names N vid x"
    and "faults (ss_fs (ps_server st1)) = []" and "online N P 3 st1"
  shows "fst (provider_read_manifest N P vid st1) = Inl (ReFailed ''snapshot not found'') \<and>
    (\<exists>v \<in> set (list_versions (ss_versions (ps_server st1)) rid). \<exists>x. listed (pc_env N) (bd_repo_id P) rid (ps_server st1) v = Some x \<and> names N vid x)"
proof -
  let ?E = "pc_env N" and ?sv = "ps_server st1"
  note eff = write_manifest_effect [OF assms(1-11,13,15)]
  obtain w x where w: "list_versions (ss_versions ?sv) rid = list_versions (ss_versions (ps_server st)) rid @ [w]"
    "listed ?E (bd_repo_id P) rid ?sv w = Some x" "names N vid x" using eff(3) by blast
  obtain op1 where op1: "map_of (ss_open ?sv) rid = Some op1" using eff(1) by (auto simp: stored_def)
  have "take 100 (list_versions (ss_versions ?sv) rid) = take 100 (list_versions (ss_versions (ps_server st)) rid)"
    using w(1) assms(12) by simp
  then have "find (names N vid) (List.map_filter (listed ?E (bd_repo_id P) rid ?sv) (take 100 (list_versions (ss_versions ?sv) rid))) = None"
    using assms(14) by (auto simp: find_None_iff set_map_filter)
  then have "fst (provider_read_manifest N P vid st1) = Inl (ReFailed ''snapshot not found'')"
    using read_manifest_online [OF op1 assms(4,15,16), of vid] by (simp add: run_async_def)
  then show ?thesis using w by auto
qed

subsection \<open>Restart\<close>

lemma opened_versions: "ss_versions (snd (opened E rid b)) = ss_versions b"
  using reads_only_opened [OF reads_only_refl, of b E rid] by (simp add: reads_only_def)

lemma list_call_unregistered:
  assumes "ss_versions sv = version_ops_new"
  shows "fst (serve E C md (SnapshotList r n) sv) = Inr resp \<Longrightarrow> resp = RespSnapshots []"
proof -
  have "list_versions (ss_versions sv) rid = []" for rid
    using assms by (simp add: list_versions_def version_ops_new_def repo_ids_def map_filter_simps)
  then show "fst (serve E C md (SnapshotList r n) sv) = Inr resp \<Longrightarrow> resp = RespSnapshots []"
    by (auto simp: rpc_snapshot_list_def Let_def and_then_def the_repo_def ok_or_def split: prod.splits sum.splits option.splits)
qed

lemma list_snapshots_unregistered:
  "ss_versions (ps_server st) = version_ops_new \<Longrightarrow> list_snapshots N P md st = (Inr metas, st') \<Longrightarrow> metas = []"
proof -
  assume vo: "ss_versions (ps_server st) = version_ops_new" and l: "list_snapshots N P md st = (Inr metas, st')"
  obtain resp sv where c: "serve (pc_env N) (pc_call N (ps_step st)) md (SnapshotList (bd_repo_id P) None) (ps_server st) = (Inr resp, sv)"
    and r: "(case resp of RespSnapshots metas \<Rightarrow> (Inr metas, st\<lparr>ps_step := Suc (ps_step st), ps_server := sv\<rparr>)
        | _ \<Rightarrow> (Inl (BcInvalidEndpoint ''response''), st\<lparr>ps_step := Suc (ps_step st), ps_server := sv\<rparr>)) = (Inr metas, st')"
    using l unfolding list_snapshots_def and_then_Ok_iff client_call_Ok by auto
  have "resp = RespSnapshots []"
    using list_call_unregistered [OF vo, of "pc_env N" "pc_call N (ps_step st)" md "bd_repo_id P" None resp] c by (simp del: serve.simps)
  then show "metas = []" using r by simp
qed

text \<open>(C17) A restart forgets every version.  The version registry lives in memory only: on a server
  started on any disk, whatever backups it holds, the provider finds no manifest and lists no
  version, and no version can be opened for recovery.\<close>

theorem restart_forgets_versions:
  assumes "ps_server st = server_new root cfg s"
  shows "fst (provider_read_manifest N P vid st) \<noteq> Inr m \<and>
    (\<forall>vs. fst (provider_list_versions N P st) = Inr vs \<longrightarrow> vs = []) \<and>
    fst (serve (pc_env N) C md (RecoveryOpen r v p) (ps_server st)) \<noteq> Inr resp"
proof -
  have vo: "ss_versions (ps_server st) = version_ops_new" using assms by (simp add: server_new_def)
  have c: "ss_versions (ps_server st') = version_ops_new" if "client_connect N P st = (Inr md', st')" for md' st'
    using client_connect_Ok [OF that] vo by simp
  have "vs = []" if l: "fst (provider_list_versions N P st) = Inr vs" for vs
  proof -
    obtain st' where "provider_list_versions N P st = (Inr vs, st')"
      using l by (cases "provider_list_versions N P st") simp
    then show ?thesis by (auto simp: provider_list_versions_def and_then_Ok_iff dest: list_snapshots_unregistered [OF c])
  qed
  moreover have "fst (provider_read_manifest N P vid st) \<noteq> Inr m"
  proof
    assume "fst (provider_read_manifest N P vid st) = Inr m"
    then obtain st' where "provider_read_manifest N P vid st = (Inr m, st')"
      by (cases "provider_read_manifest N P vid st") simp
    then show False
      by (auto simp: provider_read_manifest_def and_then_Ok_iff dest!: list_snapshots_unregistered [OF c])
  qed
  moreover have "fst (serve (pc_env N) C md (RecoveryOpen r v p) (ps_server st)) \<noteq> Inr resp"
  proof -
    have "fst (the_version (pc_env N) v b) \<noteq> Inr x" if "ss_versions b = version_ops_new" for b x
      using that by (auto simp: the_version_def ok_or_def get_version_def version_ops_new_def split: option.splits)
    then show ?thesis using vo
      by (auto simp: rpc_recovery_open_def and_then_def the_repo_def ok_or_def split: prod.splits sum.splits option.splits)
         (metis fst_conv)+
  qed
  ultimately show ?thesis by blast
qed

end
