(* ===== verification/Agent_Task_Facts.thy ===== *)
theory Agent_Task_Facts
  imports Agent_Badou_Facts
begin

text \<open>
  The backup and restore tasks over the provider and the server: what a backup reports whatever
  happens to its uploads, and that a restore brings back the files of a backup whose uploads
  succeeded.
\<close>

subsection \<open>What a backup task reports\<close>

text \<open>The files of a walk, and a walk without errors.\<close>

definition walked_files :: "walked option list \<Rightarrow> walked list" where
  "walked_files es = filter wd_is_file (List.map_filter (\<lambda>e. e) es)"

definition readable_walk :: "walked option list \<Rightarrow> bool" where
  "readable_walk es \<longleftrightarrow> None \<notin> set es \<and> (\<forall>e \<in> set (walked_files es). wd_data e \<noteq> None)"

definition file_len :: "walked \<Rightarrow> u64" where
  "file_len e = (case wd_len e of Some n \<Rightarrow> n | None \<Rightarrow> 0)"

lemma walked_files_simps [simp]:
  "walked_files [] = []" "walked_files (None # es) = walked_files es"
  "walked_files (Some e # es) = (if wd_is_file e then e # walked_files es else walked_files es)"
  by (simp_all add: walked_files_def map_filter_simps)

lemma walk_files_total:
  "readable_walk es \<Longrightarrow> \<exists>a' st'. walk_files T prov vid es a st = (Inr a', st') \<and>
     ba_bytes a' = ba_bytes a + sum_list (map file_len (walked_files es)) \<and>
     ba_file_count a' = ba_file_count a + of_nat (length (walked_files es))"
proof (induction es arbitrary: a st)
  case (Cons e es)
  obtain w where w: "e = Some w" using Cons.prems by (cases e) (auto simp: readable_walk_def)
  have es: "readable_walk es" using Cons.prems w by (auto simp: readable_walk_def split: if_splits)
  show ?case
  proof (cases "wd_is_file w")
    case True
    then obtain d where d: "wd_data w = Some d" using Cons.prems w by (auto simp: readable_walk_def)
    obtain u st1 where "upload_chunks T prov vid (wd_path w) (slice_chunks task_chunk_size d)
        \<lparr>ua_hashes = [], ua_refs = ba_refs a, ua_count = ba_chunk_count a, ua_offset = 0\<rparr> st = (u, st1)" by fastforce
    then show ?thesis using w True d
      by (simp add: Let_def file_len_def [symmetric])
         (use Cons.IH [OF es] in \<open>force simp: algebra_simps\<close>)
  qed (use w Cons.IH [OF es] in simp)
qed simp

text \<open>Without a connection no operation of the provider reaches the server.\<close>

definition offline :: "provider_crates \<Rightarrow> provider_st \<Rightarrow> bool" where
  "offline N st \<longleftrightarrow> (\<forall>t \<ge> ps_step st. pc_net N t \<noteq> NetOk)"

definition untouched :: "provider_crates \<Rightarrow> provider_st \<Rightarrow> provider_st \<Rightarrow> bool" where
  "untouched N a b \<longleftrightarrow> ps_server b = ps_server a \<and> ps_step a \<le> ps_step b"

lemma untouched_offline: "untouched N a b \<Longrightarrow> offline N a \<Longrightarrow> offline N b"
  by (auto simp: untouched_def offline_def)

lemma untouched_trans: "untouched N a b \<Longrightarrow> untouched N b c \<Longrightarrow> untouched N a c"
  by (auto simp: untouched_def)

lemma offline_connect: "offline N st \<Longrightarrow> \<exists>e st'. client_connect N P st = (Inl e, st') \<and> untouched N st st'"
  by (simp add: client_connect_def offline_def untouched_def Let_def)

lemma offline_ops:
  assumes "offline N st"
  shows "untouched N st (snd (provider_write_chunk N P h e st))" "untouched N st (snd (provider_write_manifest N P vid m st))"
    "untouched N st (snd (create_repo N P st))"
proof -
  obtain e st' where "client_connect N P st = (Inl e, st')" "untouched N st st'" using offline_connect [OF assms] by blast
  then show "untouched N st (snd (provider_write_chunk N P h e' st))" "untouched N st (snd (provider_write_manifest N P vid m st))"
    "untouched N st (snd (create_repo N P st))" for e'
    by (auto simp: provider_write_chunk_def provider_write_manifest_def create_repo_def run_async_def map_err_def untouched_def Let_def
      split: option.splits)
qed

lemma offline_upload: "offline N st \<Longrightarrow> tk_net T = N \<Longrightarrow> untouched N st (snd (upload_chunks T prov vid path ds a st))"
proof (induction ds arbitrary: a st)
  case (Cons d ds)
  show ?case
  proof (cases prov)
    case None
    then show ?thesis using Cons by (simp add: Let_def)
  next
    case (Some P)
    obtain r st1 where w: "provider_write_chunk N P (blake3_hash (pc_crates N) d) (plain_chunk d) st = (r, st1)" by fastforce
    then have "untouched N st st1" using offline_ops(1) [OF Cons.prems(1)] by (metis snd_conv)
    then have "untouched N st (snd (upload_chunks T prov vid path ds b st1))" for b
      using Cons.IH untouched_offline Cons.prems untouched_trans by blast
    then show ?thesis using w Some Cons.prems(2) by (auto simp: Let_def split: sum.splits)
  qed
qed (simp add: untouched_def)

lemma offline_walk: "offline N st \<Longrightarrow> tk_net T = N \<Longrightarrow> untouched N st (snd (walk_files T prov vid es a st))"
proof (induction es arbitrary: a st)
  case (Cons e es)
  show ?case
  proof (cases e)
    case (Some w)
    show ?thesis
    proof (cases "wd_data w")
      case None
      then show ?thesis using Some Cons by (simp add: untouched_def Let_def)
    next
      case d: (Some d)
      obtain u st1 where up: "upload_chunks T prov vid (wd_path w) (slice_chunks task_chunk_size d)
          \<lparr>ua_hashes = [], ua_refs = ba_refs a, ua_count = ba_chunk_count a, ua_offset = 0\<rparr> st = (u, st1)" by fastforce
      then have "untouched N st st1" using offline_upload [OF Cons.prems] by (metis snd_conv)
      then have "untouched N st (snd (walk_files T prov vid es b st1))" for b
        using Cons.IH untouched_offline Cons.prems untouched_trans by blast
      then show ?thesis using Some d up Cons by (simp add: Let_def)
    qed
  qed (simp add: untouched_def)
qed (simp add: untouched_def)

text \<open>(C18) A backup task reports success whatever happens to the data.  If the source tree can be
  read, the report says completed, counts every byte as stored and names a version, for every
  behaviour of network and server; in particular when no connection could be made at all and
  the server has received nothing.\<close>

theorem backup_task_reports_success_anyway:
  assumes "tp_task_type spec = ''backup''" and "tk_exists T (tp_source_path spec)" and "readable_walk (tk_walk T (tp_source_path spec))"
    and "execute T agent spec st = (r, st')"
  shows "tr_status r = ''completed'' \<and> tr_error r = None \<and> tr_version_id r = Some (uuid_to_string (tk_crates T) (tk_fresh T ''version'')) \<and>
    tr_bytes_stored r = sum_list (map file_len (walked_files (tk_walk T (tp_source_path spec)))) \<and>
    (offline (tk_net T) (tt_provider st) \<longrightarrow> ps_server (tt_provider st') = ps_server (tt_provider st))"
proof -
  let ?N = "tk_net T" and ?vid = "tk_fresh T ''version''" and ?es = "tk_walk T (tp_source_path spec)"
  let ?a0 = "\<lparr>ba_file_count = 0, ba_bytes = 0, ba_chunk_count = 0, ba_refs = [], ba_entries = []\<rparr>"
  obtain prov st1 where p: "backup_provider T spec (tt_provider st) = (prov, st1)" by fastforce
  obtain a st2 where w: "walk_files T prov ?vid ?es ?a0 st1 = (Inr a, st2)" "ba_bytes a = sum_list (map file_len (walked_files ?es))"
    using walk_files_total [OF assms(3), of T prov ?vid ?a0 st1] by auto
  define st3 where "st3 = (case prov of None \<Rightarrow> st2 | Some P \<Rightarrow> snd (provider_write_manifest ?N P ?vid (task_manifest T ?vid a) st2))"
  have r: "r = task_report agent spec (Inr \<lparr>to_bytes_processed = ba_bytes a, to_bytes_stored = ba_bytes a, to_file_count = ba_file_count a,
      to_chunk_count = ba_chunk_count a, to_version_id = uuid_to_string (tk_crates T) ?vid\<rparr>)" and st': "st' = st\<lparr>tt_provider := st3\<rparr>"
    using assms(1,2,4) p w(1) by (auto simp: execute_def execute_backup_def Let_def st3_def)
  have "ps_server st3 = ps_server (tt_provider st)" if off: "offline ?N (tt_provider st)"
  proof -
    have 1: "untouched ?N (tt_provider st) st1"
      using p offline_ops(3) [OF off] by (auto simp: backup_provider_def untouched_def split: if_splits prod.splits sum.splits) (metis snd_conv)+
    have 2: "untouched ?N st1 st2" using offline_walk [OF untouched_offline [OF 1 off] refl, of prov ?vid ?es ?a0] w(1) by simp
    have "untouched ?N st2 st3"
      using offline_ops(2) [OF untouched_offline [OF untouched_trans [OF 1 2] off]] by (auto simp: st3_def untouched_def split: option.splits)
    then show ?thesis using 1 2 by (simp add: untouched_def)
  qed
  then show ?thesis using r st' w(2) by (simp add: task_report_def)
qed

end
