(* ===== verification/Agent_Badou_Examples.thy ===== *)
theory Agent_Badou_Examples
  imports Agent_Task_Facts
begin

text \<open>
  A worked instance of agent and server: an operator's agent writes a manifest of a repository
  that is open on the server, with an empty registry and with a registry of a hundred versions.
  It shows that the hypotheses of the theorems about agent and server hold together.
\<close>

subsection \<open>The server\<close>

definition pv_env0 :: server_env where
  "pv_env0 = session_env\<lparr>sv_ijson := \<lparr>ij_to_vec = (\<lambda>_. Some [2]), ij_from_slice = (\<lambda>_. None)\<rparr>\<rparr>"

definition pv_call :: call_env where
  "pv_call = \<lparr>cv_now = (\<lambda>_ _. 0), cv_fresh = (\<lambda>_. [1]), cv_stamp = (\<lambda>_. ''0'')\<rparr>"

definition pv_op :: open_repo where
  "pv_op = session_op\<lparr>op_journal := \<lparr>j_path = journal_path sample_crates root_layout [9],
     j_handle = journal_path sample_crates root_layout [9], j_rotation_size = 100000, j_current_size = 0\<rparr>\<rparr>"

definition pv_disk :: fsys where
  "pv_disk = \<lparr>nodes = [(index_dir sample_crates root_layout [9], Dir), (journal_dir sample_crates root_layout [9], Dir),
     (journal_path sample_crates root_layout [9], File [])], faults = []\<rparr>"

definition pv_server :: "version_ops \<Rightarrow> server_state" where
  "pv_server vo = (server_new [] (from_secret []) pv_disk)\<lparr>ss_open := [([9], pv_op)], ss_versions := vo\<rparr>"

subsection \<open>The agent\<close>

definition pv_agent :: badou_provider where
  "pv_agent = \<lparr>bd_endpoint = ''http://s'', bd_repo_id = uuid_to_string sample_crates [9], bd_jwt_token = ''a.b.c'', bd_lock_holder = []\<rparr>"

definition pv_manifest :: ag_manifest where
  "pv_manifest = \<lparr>am_version_id = [3], am_timestamp = 0, am_parent_version_id = None, am_version_number = 1,
     am_backup_type = Full, am_files = [], am_chunk_refs = [],
     am_hashes = \<lparr>mh_manifest_hash = [], mh_file_index_hash = [], mh_chunk_index_hash = [], mh_repo_hash = []\<rparr>,
     am_chunk_locations = []\<rparr>"

definition pv_json :: repo_json where
  "pv_json = \<lparr>oj_manifest_to_vec = (\<lambda>_. Some chunk_bytes), oj_manifest_from_slice = (\<lambda>_. Some pv_manifest),
     oj_lock_to_vec = (\<lambda>_. None), oj_lock_from_slice = (\<lambda>_. None), oj_repo_lock_to_vec = (\<lambda>_. None),
     oj_meta_to_vec = (\<lambda>_. None), oj_config_to_vec = (\<lambda>_. None), oj_volumes_to_vec = None\<rparr>"

definition pv_net0 :: "server_env \<Rightarrow> provider_crates" where
  "pv_net0 E = \<lparr>pc_env = E, pc_net = (\<lambda>_. NetOk), pc_call = (\<lambda>_. pv_call), pc_endpoint_ok = (\<lambda>_. True), pc_header_ok = (\<lambda>_. True),
     pc_enc_to_vec = (\<lambda>e. Some (ec_ciphertext e)), pc_enc_from_slice = (\<lambda>b. Some (plain_chunk b)), pc_json = pv_json,
     pc_zstd_encode = Some, pc_zstd_decode = Some, pc_now = (\<lambda>_. 0), pc_fresh = (\<lambda>_ _. [4]), pc_uuid_nil = []\<rparr>"

text \<open>The snapshot the commit writes, and a codec for it.\<close>

definition pv_request :: snapshot_commit_request where
  "pv_request = manifest_request (pv_net0 pv_env0) pv_agent [3] (hex_encode sample_crates chunk_bytes) 0"

definition pv_rm :: manifest where
  "pv_rm = request_manifest pv_env0 pv_call (the (scr_manifest pv_request))"

definition pv_written :: snapshot where
  "pv_written = snapshot_to_commit (commit_env_of pv_env0 pv_call root_layout [9]) pv_rm
     (request_snapshot pv_env0 pv_call (the (scr_meta pv_request)) pv_rm)"

definition pv_env :: server_env where
  "pv_env = pv_env0\<lparr>sv_sjson :=
     \<lparr>sj_to_vec = (\<lambda>x. if x = pv_written then Some [1] else if x = pv_written\<lparr>sn_status := SSealed\<rparr> then Some [2] else None),
      sj_from_slice = (\<lambda>b. if b = [1] then Some pv_written
        else if b = [2] then Some (pv_written\<lparr>sn_status := SSealed\<rparr>) else None)\<rparr>\<rparr>"

definition pv_net :: provider_crates where
  "pv_net = pv_net0 pv_env"

definition pv_start :: "version_ops \<Rightarrow> provider_st" where
  "pv_start vo = \<lparr>ps_server = pv_server vo, ps_step = 0\<rparr>"

subsection \<open>Its properties\<close>

lemma pv_env_fields [simp]:
  "sv_crates pv_env = sample_crates" "sv_auth pv_env = sample_auth ''operator''" "sv_crates pv_env0 = sample_crates"
  "sv_ijson pv_env = \<lparr>ij_to_vec = (\<lambda>_. Some [2]), ij_from_slice = (\<lambda>_. None)\<rparr>" "sv_jc pv_env = sample_jc"
  "mj_to_vec (sv_mjson pv_env) m = Some [123, 34, 109, 97]"
  by (simp_all add: pv_env_def pv_env0_def session_env_def sample_server_def)

lemma pv_net_fields [simp]:
  "pc_env pv_net = pv_env" "pc_net pv_net t = NetOk" "pc_call pv_net t = pv_call" "pc_endpoint_ok pv_net e'" "pc_header_ok pv_net h" "pc_json pv_net = pv_json"
  "pc_zstd_encode pv_net = Some" "pc_zstd_decode pv_net = Some" "pc_enc_to_vec pv_net e = Some (ec_ciphertext e)"
  "pc_enc_from_slice pv_net b = Some (plain_chunk b)"
  by (simp_all add: pv_net_def pv_net0_def)

lemma pv_env_good: "env_good pv_env"
  by (simp add: env_good_def crates_good_def)

lemma pv_server_fields [simp]:
  "ss_fs (pv_server vo) = pv_disk" "map_of (ss_open (pv_server vo)) = [[9] \<mapsto> pv_op]" "ss_auth (pv_server vo) = from_secret []"
  "ss_layout (pv_server vo) = root_layout" "ss_versions (pv_server vo) = vo"
  by (simp_all add: pv_server_def server_new_def rm_layout_def repository_manager_new_def)

lemma pv_start_fields [simp]: "ps_server (pv_start vo) = pv_server vo" "ps_step (pv_start vo) = 0"
  by (simp_all add: pv_start_def)

lemma pv_server_good: "server_good pv_env (pv_server vo)"
  by (simp add: server_good_def disk_good_def pv_op_def session_op_def session_index_def in_memory_def index_good_def entries_good_def
      journal_good_def journal_path_def)

lemma pv_md: "provider_md pv_agent = sample_md"
  by (simp add: provider_md_def pv_agent_def sample_md_def)

lemma pv_request_fields:
  "manifest_request pv_net pv_agent [3] (hex_encode sample_crates chunk_bytes) 0 = pv_request"
  by (simp add: pv_request_def manifest_request_def pv_net_def pv_net0_def Let_def)

lemma pv_snapshot:
  "snapshot_to_commit (commit_env_of pv_env pv_call root_layout [9]) (request_manifest pv_env pv_call (the (scr_manifest pv_request)))
     (request_snapshot pv_env pv_call (the (scr_meta pv_request)) (request_manifest pv_env pv_call (the (scr_manifest pv_request)))) = pv_written"
  by (simp add: pv_written_def pv_rm_def snapshot_to_commit_def commit_env_of_def request_manifest_def request_snapshot_def
     pv_env_def uuid_or_def hash_or_zero_def pb_parse_hash_def)

lemma pv_codec:
  "sj_to_vec (sv_sjson pv_env) pv_written = Some [1]" "sj_to_vec (sv_sjson pv_env) (pv_written\<lparr>sn_status := SSealed\<rparr>) = Some [2]"
  "sj_from_slice (sv_sjson pv_env) [2] = Some (pv_written\<lparr>sn_status := SSealed\<rparr>)"
  "\<forall>x b. sj_to_vec (sv_sjson pv_env) x = Some b \<longrightarrow> sj_from_slice (sv_sjson pv_env) b = Some x"
proof -
  have "sn_status pv_written \<noteq> SSealed" by (simp add: pv_written_def snapshot_to_commit_def)
  then show "sj_to_vec (sv_sjson pv_env) (pv_written\<lparr>sn_status := SSealed\<rparr>) = Some [2]"
    by (simp add: pv_env_def) (metis snapshot.select_convs(10) snapshot.surjective snapshot.update_convs(10))
qed (auto simp: pv_env_def split: if_splits)

text \<open>The disk after the upload, and the effect of both calls.\<close>

definition pv_disk1 :: fsys where
  "pv_disk1 = snd (snd (write_chunk sample_crates (sv_ijson pv_env) root_layout [9] 0 chunk_bytes chunk_bytes (session_index, pv_disk)))"

definition pv_index1 :: badou_index where
  "pv_index1 = fst (snd (write_chunk sample_crates (sv_ijson pv_env) root_layout [9] 0 chunk_bytes chunk_bytes (session_index, pv_disk)))"

lemma pv_disk1: "pv_disk1 = \<lparr>nodes = nodes pv_disk @ [([''repositories''], Dir), (repo_root sample_crates root_layout [9], Dir),
     (chunks_dir sample_crates root_layout [9], Dir), (butlast (bucket_path sample_crates root_layout [9] chunk_bytes), Dir),
     (bucket_path sample_crates root_layout [9] chunk_bytes, File chunk_bytes), (index_path sample_crates root_layout [9], File [2])], faults = []\<rparr>"
  by (simp add: pv_disk1_def session_index_def in_memory_def sample_fs_simps sample_commit_simps pv_disk_def index_dir_def index_path_def
      journal_dir_def journal_path_def split del: if_split)

lemma pv_write:
  "\<exists>loc. write_chunk sample_crates (sv_ijson pv_env) root_layout [9] 0 chunk_bytes chunk_bytes (session_index, pv_disk) =
     (Inr loc, (pv_index1, pv_disk1))"
proof -
  have "\<exists>loc. fst (write_chunk sample_crates (sv_ijson pv_env) root_layout [9] 0 chunk_bytes chunk_bytes (session_index, pv_disk)) = Inr loc"
    by (simp add: session_index_def in_memory_def sample_fs_simps sample_commit_simps pv_disk_def index_dir_def index_path_def
      journal_dir_def journal_path_def split del: if_split)
  then show ?thesis unfolding pv_disk1_def pv_index1_def by (metis prod.collapse)
qed

lemma put_call_answered:
  assumes "write_chunk sample_crates (sv_ijson pv_env) root_layout [9] 0 chunk_bytes chunk_bytes (op_store_index op, ss_fs sv) = (Inr loc, (i, s))"
    and "ss_open sv = [([9], op)]" and "ss_auth sv = from_secret []" and "ss_layout sv = root_layout"
  shows "\<exists>resp. serve pv_env pv_call sample_md put_call sv = (Inr resp, sv\<lparr>ss_open := [([9], op\<lparr>op_store_index := i\<rparr>)], ss_fs := s\<rparr>)"
  using assms by (simp add: put_call_def rpc_chunk_put_def pv_call_def operator_may the_repo_def ok_or_def
      pb_parse_hash_def opened_def open_repo_handle_def on_store_def put_and_count_def put_chunk_def Let_def)

lemma pv_put_call:
  "\<exists>resp. serve pv_env pv_call sample_md put_call (pv_server vo) = (Inr resp,
     (pv_server vo)\<lparr>ss_open := [([9], pv_op\<lparr>op_store_index := pv_index1\<rparr>)], ss_fs := pv_disk1\<rparr>)"
proof -
  obtain loc where "write_chunk sample_crates (sv_ijson pv_env) root_layout [9] 0 chunk_bytes chunk_bytes (session_index, pv_disk) =
     (Inr loc, (pv_index1, pv_disk1))" using pv_write by blast
  moreover have "ss_open (pv_server vo) = [([9], pv_op)]" "op_store_index pv_op = session_index"
    by (simp_all add: pv_server_def pv_op_def session_op_def)
  ultimately show ?thesis by (intro put_call_answered) simp_all
qed

lemma put_data_call:
  assumes "pc_env N = pv_env" and "pc_net N (ps_step st) = NetOk" and "pc_call N (ps_step st) = pv_call"
    and "bd_repo_id P = uuid_to_string sample_crates [9]" and "serve pv_env pv_call sample_md put_call (ps_server st) = (Inr resp, sv)"
  shows "put_data N P sample_md chunk_bytes st = (Inr resp, \<lparr>ps_server = sv, ps_step = Suc (ps_step st)\<rparr>)"
  using assms by (simp add: put_data_def client_call_def put_call_def Let_def del: serve.simps)

lemma pv_put:
  "\<exists>resp. put_data pv_net pv_agent sample_md chunk_bytes ((pv_start vo)\<lparr>ps_step := Suc 0\<rparr>) = (Inr resp,
     \<lparr>ps_server = (pv_server vo)\<lparr>ss_open := [([9], pv_op\<lparr>op_store_index := pv_index1\<rparr>)], ss_fs := pv_disk1\<rparr>, ps_step = 2\<rparr>)"
proof -
  obtain resp where "serve pv_env pv_call sample_md put_call (pv_server vo) = (Inr resp,
     (pv_server vo)\<lparr>ss_open := [([9], pv_op\<lparr>op_store_index := pv_index1\<rparr>)], ss_fs := pv_disk1\<rparr>)" using pv_put_call by blast
  then show ?thesis using put_data_call [of pv_net "(pv_start vo)\<lparr>ps_step := Suc 0\<rparr>" pv_agent] by (simp add: pv_agent_def del: serve.simps)
qed

abbreviation pv_committed :: commit_env where
  "pv_committed \<equiv> commit_env_of pv_env pv_call root_layout [9]"

lemma pv_committed_fields:
  "ce_crates pv_committed = sample_crates" "ce_ijson pv_committed = sv_ijson pv_env" "ce_jc pv_committed = sample_jc"
  "ce_layout pv_committed = root_layout" "ce_repo pv_committed = [9]" "ce_vid pv_committed = [1]" "ce_sid pv_committed = [1]"
  "ce_clock pv_committed t k = 0" "ce_stamp pv_committed t = ''0''" "ce_mjson pv_committed = sv_mjson pv_env" "ce_sjson pv_committed = sv_sjson pv_env"
  by (simp_all add: commit_env_of_def pv_call_def)

lemma pv_written_id: "sn_snapshot_id pv_written = [1]" "verified (sn_verify_info pv_written)"
  by (simp_all add: pv_written_def snapshot_to_commit_def commit_env_of_def pv_call_def)

text \<open>The registry through the five transitions of a commit.\<close>

lemma transition_ok:
  "map_of (vo_versions vo) vid = Some v \<Longrightarrow> can_transition_to (v_status v) t \<Longrightarrow>
   \<exists>v' vo'. vo_transition vid t vo = (Inr v', vo') \<and> map_of (vo_versions vo') vid = Some v' \<and> v_status v' = t"
  by (simp add: vo_transition_def map_of_update)

lemma pv_registry:
  obtains vo1 vo2 vo3 vo4 vo5 v1 v2 v3 v4 v5 where "create_version [1] [1] 0 [9] None vo = (Inr v1, vo1)"
    and "vo_transition [1] VWriting vo1 = (Inr v2, vo2)" and "vo_transition [1] VVerifying vo2 = (Inr v3, vo3)"
    and "vo_transition [1] VCommitting vo3 = (Inr v4, vo4)" and "vo_transition [1] VSealed vo4 = (Inr v5, vo5)"
    and "map_of (vo_versions vo5) [1] \<noteq> None"
proof -
  obtain v1 vo1 where 1: "create_version [1] [1] 0 [9] None vo = (Inr v1, vo1)" "map_of (vo_versions vo1) [1] = Some v1" "v_status v1 = VCreated"
    by (simp add: create_version_def Let_def version_new_def map_of_update)
  obtain v2 vo2 where 2: "vo_transition [1] VWriting vo1 = (Inr v2, vo2)" "map_of (vo_versions vo2) [1] = Some v2" "v_status v2 = VWriting"
    using transition_ok [OF 1(2), of VWriting] 1(3) by (auto simp: can_transition_to_def)
  obtain v3 vo3 where 3: "vo_transition [1] VVerifying vo2 = (Inr v3, vo3)" "map_of (vo_versions vo3) [1] = Some v3" "v_status v3 = VVerifying"
    using transition_ok [OF 2(2), of VVerifying] 2(3) by (auto simp: can_transition_to_def)
  obtain v4 vo4 where 4: "vo_transition [1] VCommitting vo3 = (Inr v4, vo4)" "map_of (vo_versions vo4) [1] = Some v4" "v_status v4 = VCommitting"
    using transition_ok [OF 3(2), of VCommitting] 3(3) by (auto simp: can_transition_to_def)
  obtain v5 vo5 where "vo_transition [1] VSealed vo4 = (Inr v5, vo5)" "map_of (vo_versions vo5) [1] = Some v5"
    using transition_ok [OF 4(2), of VSealed] 4(3) by (auto simp: can_transition_to_def)
  then show thesis using that 1(1) 2(1) 3(1) 4(1) by blast
qed

text \<open>The file system steps of a commit, evaluated.\<close>

lemmas pv_steps = sample_fs_simps pv_committed_fields pv_codec pv_written_id pv_op_def pv_disk1 pv_disk_def index_dir_def index_path_def
  journal_dir_def journal_path_def butlast_append start_writing_def on_vo_def on_jr_def on_disk_def journal_note_def entry_new_def
  entry_committed_def str_bytes_def journal_append_def repo_root_def manifests_dir_def snapshots_dir_def chunks_dir_def bucket_path_def
  snapshot_staging_path_def manifest_staging_path_def snapshot_path_def with_extension_def file_stem_def create_staging_def
  write_to_staging_def ends_with_def suffix_def atomic_commit_def commit_dir_def cleanup_staging_def write_snapshot_def Let_def

lemma other_name: "uuid_to_string sample_crates [60] \<noteq> uuid_to_string sample_crates [1]"
  "uuid_to_string sample_crates [1] \<noteq> uuid_to_string sample_crates [60]"
  by (simp_all add: sample_crates_def byte_char_def char_of_def)

lemma pv_commit:
  assumes "snapshot_to_commit pv_committed m sn = pv_written" and "mf_manifest_id m = [1]"
  shows "\<exists>c. commit_backup pv_committed None m sn [] \<lparr>cs_vo = vo, cs_ix = i, cs_jr = op_journal pv_op, cs_fs = pv_disk1\<rparr>
     = (Inr (CommitSuccess [1] [1]), c) \<and> faults (cs_fs c) = [] \<and> map_of (vo_versions (cs_vo c)) [1] \<noteq> None \<and>
       lookup (cs_fs c) (snapshot_path sample_crates root_layout [9] [60]) = None"
proof (rule pv_registry [of vo])
  fix vo1 vo2 vo3 vo4 vo5 v1 v2 v3 v4 v5
  assume vo: "create_version [1] [1] 0 [9] None vo = (Inr v1, vo1)"
    "vo_transition [1] VWriting vo1 = (Inr v2, vo2)" "vo_transition [1] VVerifying vo2 = (Inr v3, vo3)"
    "vo_transition [1] VCommitting vo3 = (Inr v4, vo4)" "vo_transition [1] VSealed vo4 = (Inr v5, vo5)"
    "map_of (vo_versions vo5) [1] \<noteq> None"
  show ?thesis
    using vo(6)
    apply (simp add: commit_backup_def commit_staged_def pv_steps assms vo(1-5) split del: if_split)
    apply (simp add: commit_finish_def pv_steps assms vo(1-5) del: atomic_commit_def write_snapshot_def split del: if_split)
    apply (simp add: pv_steps assms vo(1-5) del: write_snapshot_def split del: if_split)
    apply (simp add: pv_steps assms vo(1-5) other_name split del: if_split)
    done
qed

text \<open>The commit as the service runs it.\<close>

lemma pv_request_parts:
  "scr_repo_id pv_request = uuid_to_string sample_crates [9]" "scr_parent_version_id pv_request = []" "scr_chunk_hashes pv_request = []"
  "scr_meta pv_request = Some (the (scr_meta pv_request))" "scr_manifest pv_request = Some (the (scr_manifest pv_request))"
  by (simp_all add: pv_request_def manifest_request_def pv_agent_def Let_def)

lemma pv_commit_call:
  "\<exists>resp sv. serve pv_env pv_call sample_md (SnapshotCommit pv_request)
     ((pv_server vo)\<lparr>ss_open := [([9], pv_op\<lparr>op_store_index := i\<rparr>)], ss_fs := pv_disk1\<rparr>) = (Inr resp, sv) \<and>
     faults (ss_fs sv) = [] \<and> ss_auth sv = from_secret [] \<and> ss_layout sv = root_layout \<and>
     lookup (ss_fs sv) (snapshot_path sample_crates root_layout [9] [60]) = None"
proof -
  obtain meta pm where mp: "scr_meta pv_request = Some meta" "scr_manifest pv_request = Some pm" using pv_request_parts(4,5) by blast
  define m where "m = request_manifest pv_env pv_call pm"
  define sn where "sn = request_snapshot pv_env pv_call meta m"
  have w: "snapshot_to_commit pv_committed m sn = pv_written" using pv_snapshot by (simp add: m_def sn_def mp)
  obtain c v where c: "commit_backup pv_committed None m sn [] \<lparr>cs_vo = vo, cs_ix = i, cs_jr = op_journal pv_op, cs_fs = pv_disk1\<rparr>
     = (Inr (CommitSuccess [1] [1]), c)" "faults (cs_fs c) = []" "map_of (vo_versions (cs_vo c)) [1] = Some v"
      "lookup (cs_fs c) (snapshot_path sample_crates root_layout [9] [60]) = None"
    using pv_commit [OF w, of vo i] by (auto simp: m_def request_manifest_def manifest_new_def pv_call_def)
  have "journal_apart pv_committed (op_journal pv_op)"
    by (rule journal_good_apart) (simp add: journal_good_def pv_op_def pv_committed_fields journal_path_def)
  then have ap: "journal_apart pv_committed (cs_jr \<lparr>cs_vo = vo, cs_ix = i, cs_jr = op_journal pv_op, cs_fs = pv_disk1\<rparr>)" by simp
  obtain json where "sj_to_vec (sv_sjson pv_env) (sealed_snapshot pv_committed m sn) = Some json"
    "lookup (cs_fs c) (snapshot_path sample_crates root_layout [9] [1]) = Some (File json)"
    using commit_snapshot_file [OF c(1) ap] unfolding pv_committed_fields by blast
  then have rd: "read_snapshot sample_crates (sv_sjson pv_env) root_layout [9] [1] (cs_fs c) = (Inr (pv_written\<lparr>sn_status := SSealed\<rparr>), cs_fs c)"
    using c(2) by (auto simp: sealed_snapshot_def w pv_codec read_snapshot_def path_exists_def fs_read_def)
  have now: "cv_now pv_call t k = 0" for t k by (simp add: pv_call_def)
  show ?thesis
    by (simp add: c rd now rpc_snapshot_commit_def mp m_def [symmetric] sn_def [symmetric] operator_may the_repo_def ok_or_def pv_request_parts(1-3)
      opened_def open_repo_handle_def on_store_def total_def on_commit_def commit_answer_def get_version_def on_disk_of_def Let_def)
qed

lemma pv_write_manifest:
  "\<exists>st1. provider_write_manifest pv_net pv_agent [3] pv_manifest (pv_start vo) = (Inr (), st1) \<and>
     faults (ss_fs (ps_server st1)) = [] \<and> online pv_net pv_agent 3 st1 \<and> ss_layout (ps_server st1) = root_layout \<and>
     lookup (ss_fs (ps_server st1)) (snapshot_path sample_crates root_layout [9] [60]) = None"
proof -
  let ?sv = "(pv_server vo)\<lparr>ss_open := [([9], pv_op\<lparr>op_store_index := pv_index1\<rparr>)], ss_fs := pv_disk1\<rparr>"
  obtain resp where put: "put_data pv_net pv_agent sample_md chunk_bytes ((pv_start vo)\<lparr>ps_step := Suc 0\<rparr>) =
      (Inr resp, \<lparr>ps_server = ?sv, ps_step = 2\<rparr>)" using pv_put by blast
  obtain resp' sv where com: "serve pv_env pv_call sample_md (SnapshotCommit pv_request) ?sv = (Inr resp', sv)"
    "faults (ss_fs sv) = []" "ss_auth sv = from_secret []" "ss_layout sv = root_layout"
    "lookup (ss_fs sv) (snapshot_path sample_crates root_layout [9] [60]) = None" using pv_commit_call by blast
  have conn: "client_connect pv_net pv_agent (pv_start vo) = (Inr sample_md, (pv_start vo)\<lparr>ps_step := Suc 0\<rparr>)"
    by (simp add: client_connect_def pv_agent_def sample_md_def Let_def)
  have "provider_write_manifest pv_net pv_agent [3] pv_manifest (pv_start vo) = (Inr (), \<lparr>ps_server = sv, ps_step = 3\<rparr>)"
    by (simp add: provider_write_manifest_def conn put pv_json_def pv_request_fields client_call_def com(1) Let_def del: serve.simps)
  moreover have "online pv_net pv_agent 3 \<lparr>ps_server = sv, ps_step = 3\<rparr>"
    using com(3) by (simp add: online_def pv_md pv_call_def sample_gates)
  ultimately show ?thesis using com(2,4,5) by auto
qed

lemma pv_hypotheses:
  "env_good (pc_env pv_net)" "server_good (pc_env pv_net) (ps_server (pv_start vo))"
  "map_of (ss_open (ps_server (pv_start vo))) [9] = Some pv_op"
  "uuid_parse (pc_crates pv_net) (bd_repo_id pv_agent) = Some [9]"
  "uuid_parse (pc_crates pv_net) (uuid_to_string (pc_crates pv_net) [3]) = Some [3]"
  "oj_manifest_to_vec (pc_json pv_net) pv_manifest = Some chunk_bytes" "oj_manifest_from_slice (pc_json pv_net) chunk_bytes = Some pv_manifest"
  "pc_zstd_encode pv_net chunk_bytes = Some chunk_bytes" "pc_zstd_decode pv_net chunk_bytes = Some chunk_bytes"
  "nameable pv_net chunk_bytes"
  "\<not> chunk_exists (pc_crates pv_net) (op_store_index pv_op) (blake3_hash (pc_crates pv_net) chunk_bytes) \<or>
     stored (pc_env pv_net) (ps_server (pv_start vo)) [9] (blake3_hash (pc_crates pv_net) chunk_bytes) chunk_bytes"
  by (simp_all add: pv_env_good pv_server_good pv_agent_def pv_json_def nameable_def pb_parse_hash_def sample_crates_def byte_char_def char_of_def bit_0 Let_def
    chunk_exists_def index_lookup_def pv_op_def session_op_def session_index_def in_memory_def)

theorem provider_manifest_roundtrip_witness:
  "\<exists>st1. provider_write_manifest pv_net pv_agent [3] pv_manifest (pv_start version_ops_new) = (Inr (), st1) \<and>
     fst (provider_read_manifest pv_net pv_agent [3] st1) = Inr pv_manifest"
proof -
  obtain st1 where w: "provider_write_manifest pv_net pv_agent [3] pv_manifest (pv_start version_ops_new) = (Inr (), st1)"
    "faults (ss_fs (ps_server st1)) = []" "online pv_net pv_agent 3 st1" using pv_write_manifest by blast
  have "list_versions version_ops_new [9] = []" "repo_ids version_ops_new [9] = []"
    by (simp_all add: list_versions_def version_ops_new_def repo_ids_def map_filter_simps)
  then have "fst (provider_read_manifest pv_net pv_agent [3] st1) = Inr pv_manifest"
    by (intro provider_manifest_roundtrip [OF pv_hypotheses(1-5) _ pv_hypotheses(6-11) w(1) _ _ _ w(2,3)]) (simp_all add: pv_codec)
  then show ?thesis using w(1) by blast
qed

text \<open>A registry with a hundred versions, none of them with a snapshot that can be read.\<close>

definition hundred :: version_ops where
  "hundred = \<lparr>vo_versions = [([50], version_new [50] [9] [60] None 100 0)], vo_repo_versions = [([9], replicate 100 [50])],
     vo_sequences = [([9], 100)]\<rparr>"

lemma hundred_facts:
  "list_versions hundred [9] = replicate 100 (version_new [50] [9] [60] None 100 0)" "repo_ids hundred [9] = replicate 100 [50]"
proof -
  have "List.map_filter f (replicate n x) = replicate n y" if "f x = Some y" for f :: "uuid \<Rightarrow> version option" and x y n
    using that by (induction n) (simp_all add: map_filter_simps)
  then show "list_versions hundred [9] = replicate 100 (version_new [50] [9] [60] None 100 0)"
    by (simp add: list_versions_def hundred_def repo_ids_def)
  show "repo_ids hundred [9] = replicate 100 [50]" by (simp add: hundred_def repo_ids_def)
qed

theorem manifest_beyond_hundredth_unreadable_witness:
  "\<exists>st1. provider_write_manifest pv_net pv_agent [3] pv_manifest (pv_start hundred) = (Inr (), st1) \<and>
     fst (provider_read_manifest pv_net pv_agent [3] st1) = Inl (ReFailed ''snapshot not found'')"
proof -
  obtain st1 where w: "provider_write_manifest pv_net pv_agent [3] pv_manifest (pv_start hundred) = (Inr (), st1)"
    "faults (ss_fs (ps_server st1)) = []" "online pv_net pv_agent 3 st1" "ss_layout (ps_server st1) = root_layout"
    "lookup (ss_fs (ps_server st1)) (snapshot_path sample_crates root_layout [9] [60]) = None" using pv_write_manifest by blast
  have "listed pv_env r [9] (ps_server st1) (version_new [50] [9] [60] None 100 0) = None" for r
    using w(4,5) by (simp add: listed_def version_new_def read_snapshot_def path_exists_def snapshot_path_def)
  then have "fst (provider_read_manifest pv_net pv_agent [3] st1) = Inl (ReFailed ''snapshot not found'')"
    using manifest_beyond_hundredth_unreadable [OF pv_hypotheses(1-5) _ pv_hypotheses(6,8,10,11) w(1) _ _ _ w(2,3)] pv_codec(4)
    by (simp add: hundred_facts pv_call_def)
  then show ?thesis using w(1) by blast
qed

theorem restart_forgets_versions_witness:
  "\<exists>st. ss_fs (ps_server st) = pv_disk1 \<and> fst (provider_read_manifest pv_net pv_agent [3] st) \<noteq> Inr pv_manifest"
proof -
  let ?st = "\<lparr>ps_server = server_new [] (from_secret []) pv_disk1, ps_step = 0\<rparr>"
  have "ps_server ?st = server_new [] (from_secret []) pv_disk1" by simp
  from restart_forgets_versions [OF this, of pv_net pv_agent "[3]" pv_manifest sample_call sample_md]
  have "fst (provider_read_manifest pv_net pv_agent [3] ?st) \<noteq> Inr pv_manifest" by blast
  moreover have "ss_fs (ps_server ?st) = pv_disk1" by (simp add: server_new_def)
  ultimately show ?thesis by blast
qed

text \<open>One readable file, no network.\<close>

definition off_tasks :: task_env where
  "off_tasks = \<lparr>tk_net = pv_net\<lparr>pc_net := (\<lambda>_. RequestLost)\<rparr>, tk_jwt = ''a.b.c'', tk_exists = (\<lambda>p. p = ''src''),
     tk_walk = (\<lambda>_. [Some \<lparr>wd_path = ''src'', wd_is_file = False, wd_len = None, wd_data = None\<rparr>,
       Some \<lparr>wd_path = ''src/f'', wd_is_file = True, wd_len = Some 3, wd_data = Some [1, 2, 3]\<rparr>]),
     tk_now = 0, tk_fresh = (\<lambda>_. [3]), tk_target = (\<lambda>p. [p])\<rparr>"

definition backup_spec :: task_spec where
  "backup_spec = \<lparr>tp_task_id = ''t'', tp_job_id = ''j'', tp_repo_id = ''r'', tp_task_type = ''backup'', tp_source_path = ''src'',
     tp_target_path = [], tp_badou_grpc_endpoint = []\<rparr>"

theorem backup_task_reports_success_anyway_witness:
  "\<exists>r st'. execute off_tasks ''a'' backup_spec \<lparr>tt_provider = pv_start version_ops_new, tt_disk = pv_disk\<rparr> = (r, st') \<and>
     tr_status r = ''completed'' \<and> tr_bytes_stored r = 3 \<and> ps_server (tt_provider st') = pv_server version_ops_new"
proof -
  obtain r st' where e: "execute off_tasks ''a'' backup_spec \<lparr>tt_provider = pv_start version_ops_new, tt_disk = pv_disk\<rparr> = (r, st')" by fastforce
  have "offline (tk_net off_tasks) (pv_start version_ops_new)" by (simp add: offline_def off_tasks_def)
  then have "tr_status r = ''completed'' \<and> tr_bytes_stored r = 3 \<and> ps_server (tt_provider st') = pv_server version_ops_new"
    using backup_task_reports_success_anyway [OF _ _ _ e]
    by (simp add: backup_spec_def off_tasks_def readable_walk_def file_len_def)
  then show ?thesis using e by blast
qed

end
