(* ===== verification/Agent_Roundtrip.thy ===== *)
theory Agent_Roundtrip
  imports Agent_Restore
begin

text \<open>
  Backing up and restoring, put together.  The client lemmas are proved once in the
  context of the interface \<open>chunk_repository\<close> and used through its interpretations on the
  local repository.
\<close>

subsection \<open>What a repository and an index must satisfy\<close>

text \<open>A stored chunk that decodes to the bytes \<open>d\<close>, and a repository in which every known hash is that of a
  stored chunk whose bytes lie in \<open>D\<close>.  \<open>D\<close> is the data in play: what the repository already stores and
  the chunks of the files to back up.\<close>

definition opens :: "'r restore_engine \<Rightarrow> encrypted_chunk \<Rightarrow> bytes \<Rightarrow> bool" where
  "opens G e d \<longleftrightarrow> (\<exists>c. rg_decrypt G e = Inr c \<and> rg_decompress G c = Inr d)"

definition repo_sound ::
  "bytes set \<Rightarrow> 'r restore_engine \<Rightarrow> ('r \<Rightarrow> ag_chunk_location \<Rightarrow> encrypted_chunk option) \<Rightarrow> ('r \<Rightarrow> chunk_hash \<Rightarrow> bool) \<Rightarrow>
   (chunk_hash \<Rightarrow> ag_chunk_location) \<Rightarrow> 'r \<Rightarrow> bool" where
  "repo_sound D G stored known loc r \<longleftrightarrow>
     (\<forall>h. known r h \<longrightarrow> (\<exists>e. \<exists>d \<in> D. stored r (loc h) = Some e \<and> opens G e d \<and> blake3_hash (rg_crates G) d = h))"

definition dedup_sound :: "('r \<Rightarrow> chunk_hash \<Rightarrow> bool) \<Rightarrow> (chunk_hash \<Rightarrow> ag_chunk_location) \<Rightarrow> 'r \<Rightarrow> dedup_index \<Rightarrow> bool" where
  "dedup_sound known loc r i \<longleftrightarrow> (\<forall>h en. map_of (di_index i) h = Some en \<longrightarrow> known r h \<and> de_location en = loc h)"

definition locs_sound :: "crates \<Rightarrow> (chunk_hash \<Rightarrow> ag_chunk_location) \<Rightarrow> (string, ag_chunk_location) hmap \<Rightarrow> bool" where
  "locs_sound X loc locs \<longleftrightarrow> (\<forall>h l. map_of locs (hex_encode X h) = Some l \<longrightarrow> l = loc h)"

text \<open>What the compressor, the cipher and the hashes promise on the data \<open>D\<close>: decoding inverts encoding,
  a sealed chunk of \<open>D\<close> fits the memory budget of the engine, no two elements of \<open>D\<close> have the same
  \<open>blake3\<close> hash, and \<open>hex\<close> loses nothing.\<close>

definition pipeline_ok :: "bytes set \<Rightarrow> ('r, 'j) backup_engine \<Rightarrow> 'r restore_engine \<Rightarrow> (encrypted_chunk \<Rightarrow> bool) \<Rightarrow> bool" where
  "pipeline_ok D E G wfc \<longleftrightarrow> rg_repo G = en_repo E \<and> rg_crates G = en_crates E \<and> rg_sha256 G = en_sha256 E \<and>
     inj (hex_encode (en_crates E)) \<and> inj_on (blake3_hash (en_crates E)) D \<and>
     (\<forall>d \<in> D. \<exists>c. en_compress E d = Inr c \<and> rg_decompress G c = Inr d \<and>
        (\<forall>k. \<exists>e. en_encrypt E c k = Inr e \<and> rg_decrypt G e = Inr c \<and> wfc e \<and>
           of_nat (length (ec_ciphertext e)) \<le> en_memory_limit E))"

text \<open>A later repository still has what an earlier one had.\<close>

definition extends ::
  "('r \<Rightarrow> ag_chunk_location \<Rightarrow> encrypted_chunk option) \<Rightarrow> ('r \<Rightarrow> chunk_hash \<Rightarrow> bool) \<Rightarrow> (chunk_hash \<Rightarrow> ag_chunk_location) \<Rightarrow>
   ('r \<Rightarrow> uuid \<Rightarrow> ag_manifest option) \<Rightarrow> 'r \<Rightarrow> 'r \<Rightarrow> bool" where
  "extends stored known loc saved r r' \<longleftrightarrow>
     (\<forall>k. known r k \<longrightarrow> known r' k \<and> stored r' (loc k) = stored r (loc k)) \<and> saved r' = saved r"

lemma extends_refl: "extends stored known loc saved r r"
  by (simp add: extends_def)

lemma extends_trans: "extends stored known loc saved r q \<Longrightarrow> extends stored known loc saved q t \<Longrightarrow> extends stored known loc saved r t"
  by (auto simp: extends_def)

lemma extends_known: "extends stored known loc saved r q \<Longrightarrow> known r h \<Longrightarrow> known q h"
  by (simp add: extends_def)

lemma dedup_sound_extends:
  "dedup_sound known loc r i \<Longrightarrow> extends stored known loc saved r r' \<Longrightarrow> dedup_sound known loc r' i"
  by (auto simp: dedup_sound_def extends_def)

lemma dedup_sound_register:
  "dedup_sound known loc r i \<Longrightarrow> known r h \<Longrightarrow> dedup_sound known loc r (register_new h (loc h) i)"
  by (auto simp: dedup_sound_def register_new_def map_of_update split: if_splits)

lemma dedup_sound_add_references: "dedup_sound known loc r i \<Longrightarrow> dedup_sound known loc r (add_references refs i)"
proof -
  have one: "dedup_sound known loc r (add_reference h i)" if "dedup_sound known loc r i" for h i
    using that by (auto simp: dedup_sound_def add_reference_def map_of_update split: option.splits if_splits)
  show "dedup_sound known loc r i \<Longrightarrow> dedup_sound known loc r (add_references refs i)"
    unfolding add_references_def by (induction refs arbitrary: i) (auto simp: one)
qed

lemma locs_sound_insert:
  "inj (hex_encode X) \<Longrightarrow> locs_sound X loc locs \<Longrightarrow> locs_sound X loc (AList.update (hex_encode X h) (loc h) locs)"
  by (auto simp: locs_sound_def map_of_update dest: injD split: if_splits)

lemma set_state_simps [simp]:
  "es_repo (set_state x st) = es_repo st" "es_dedup (set_state x st) = es_dedup st"
  "es_journal (set_state x st) = es_journal st" "es_next (set_state x st) = es_next st"
  by (simp_all add: set_state_def Let_def)

lemma journal_append_to_simps [simp]:
  "es_repo (journal_append_to E e st) = es_repo st" "es_dedup (journal_append_to E e st) = es_dedup st"
  by (simp_all add: journal_append_to_def split: option.splits)

subsection \<open>One chunk\<close>

context chunk_repository begin

abbreviation ext where "ext \<equiv> extends stored known loc saved"
abbreviation good where "good D G st \<equiv> ok (es_repo st) \<and> repo_sound D G stored known loc (es_repo st) \<and>
  dedup_sound known loc (es_repo st) (es_dedup st)"

lemma store_new_ok:
  assumes p: "pipeline_ok D E G wf" and R: "en_repo E = R" and g: "good D G st"
    and n: "\<not> known (es_repo st) (blake3_hash (en_crates E) data)" and dD: "data \<in> D"
  shows "\<exists>a' st'. store_new E conc (blake3_hash (en_crates E) data) data a st = (Inr a', st') \<and> good D G st' \<and>
     known (es_repo st') (blake3_hash (en_crates E) data) \<and> ext (es_repo st) (es_repo st') \<and> ra_files a' = ra_files a \<and>
     ra_locations a' = AList.update (hex_encode (en_crates E) (blake3_hash (en_crates E) data))
        (loc (blake3_hash (en_crates E) data)) (ra_locations a)"
proof -
  let ?h = "blake3_hash (en_crates E) data" and ?r = "es_repo st"
  obtain c where c: "en_compress E data = Inr c" "rg_decompress G c = Inr data"
      "\<forall>k. \<exists>e. en_encrypt E c k = Inr e \<and> rg_decrypt G e = Inr c \<and> wf e \<and>
         of_nat (length (ec_ciphertext e)) \<le> en_memory_limit E"
    using p dD unfolding pipeline_ok_def by blast
  obtain e where e: "en_encrypt E c (en_uuid E (es_next st)) = Inr e" "rg_decrypt G e = Inr c" "wf e"
      "of_nat (length (ec_ciphertext e)) \<le> en_memory_limit E" using c(3) by blast
  obtain r' where r': "br_write_chunk R ?h e ?r = (Inr (loc ?h), r')" "ok r'" "stored r' = (stored ?r)(loc ?h \<mapsto> e)"
      "\<forall>k. known r' k \<longleftrightarrow> known ?r k \<or> k = ?h" "saved r' = saved ?r"
    using write_chunk g e(3) by blast
  have ex: "ext ?r r'" using r' n loc_inj g by (auto simp: extends_def)
  have "opens G e data" using c e by (auto simp: opens_def)
  then have snd: "repo_sound D G stored known loc r'"
    using g r'(3,4) dD loc_inj [of ?r] conjunct1 [OF conjunct2 [OF p [unfolded pipeline_ok_def]]]
    by (auto simp: repo_sound_def)
  have ded: "dedup_sound known loc r' (register_new ?h (loc ?h) (es_dedup st))"
    using dedup_sound_register [of known loc r' "es_dedup st" ?h] dedup_sound_extends [OF _ ex] g r'(4) by blast
  show ?thesis
    using c(1) e(1,4) r'(1,2,4) ex snd ded R
    by (auto simp: store_new_def lift_err_def fresh_uuid_def Let_def memory_acquire_def upload_def on_repo_def insert_location_def)
qed

lemma store_chunk_ok:
  assumes p: "pipeline_ok D E G wf" and R: "en_repo E = R" and g: "good D G st" and dD: "data \<in> D"
  shows "\<exists>a' st'. store_chunk E conc data a st = (Inr a', st') \<and> good D G st' \<and>
     known (es_repo st') (blake3_hash (en_crates E) data) \<and> ext (es_repo st) (es_repo st') \<and> ra_files a' = ra_files a \<and>
     ra_locations a' = AList.update (hex_encode (en_crates E) (blake3_hash (en_crates E) data))
        (loc (blake3_hash (en_crates E) data)) (ra_locations a)"
proof -
  let ?h = "blake3_hash (en_crates E) data" and ?r = "es_repo st"
  have ce: "br_chunk_exists R ?h ?r = (Inr (known ?r ?h), ?r)" using chunk_exists g by blast
  consider (index) en where "map_of (di_index (es_dedup st)) ?h = Some en"
    | (known) "map_of (di_index (es_dedup st)) ?h = None" "known ?r ?h"
    | (new) "map_of (di_index (es_dedup st)) ?h = None" "\<not> known ?r ?h" by (cases "map_of (di_index (es_dedup st)) ?h") auto
  then show ?thesis
  proof cases
    case index
    then have "known ?r ?h" "de_location en = loc ?h" using g by (auto simp: dedup_sound_def)
    then show ?thesis using index g extends_refl by (auto simp: store_chunk_def batch_lookup_def lookup_one_def Let_def insert_location_def)
  next
    case known
    have "dedup_sound known loc ?r (register_new ?h (loc ?h) (es_dedup st))"
      using dedup_sound_register [of known loc ?r "es_dedup st" ?h] known g by blast
    then show ?thesis using known g ce R find_chunk [of ?r ?h] extends_refl
      by (auto simp: store_chunk_def batch_lookup_def lookup_one_def Let_def insert_location_def on_repo_def)
  next
    case new
    then show ?thesis using store_new_ok [OF p R g new(2) dD, of conc a] ce R
      by (simp add: store_chunk_def batch_lookup_def lookup_one_def Let_def on_repo_def)
  qed
qed

lemma backup_chunks_ok:
  assumes p: "pipeline_ok D E G wf" and R: "en_repo E = R"
  shows "good D G st \<Longrightarrow> locs_sound (en_crates E) loc (ra_locations a) \<Longrightarrow> rc_data ` set cs \<subseteq> D \<Longrightarrow>
     \<exists>a' st'. backup_chunks E conc v f cs a st = (Inr a', st') \<and> good D G st' \<and> ext (es_repo st) (es_repo st') \<and>
       (\<forall>h \<in> set (chunk_hashes E cs). known (es_repo st') h) \<and> ra_files a' = ra_files a \<and>
       locs_sound (en_crates E) loc (ra_locations a')"
proof (induction cs arbitrary: a st)
  case Nil
  then show ?case using extends_refl by auto
next
  case (Cons c cs)
  let ?h = "blake3_hash (en_crates E) (rc_data c)"
  have cD: "rc_data c \<in> D" "rc_data ` set cs \<subseteq> D" using Cons.prems(3) by auto
  obtain a1 st1 where s1: "store_chunk E conc (rc_data c) a st = (Inr a1, st1)" "good D G st1" "known (es_repo st1) ?h"
      "ext (es_repo st) (es_repo st1)" "ra_files a1 = ra_files a"
      "ra_locations a1 = AList.update (hex_encode (en_crates E) ?h) (loc ?h) (ra_locations a)"
    using store_chunk_ok [OF p R Cons.prems(1) cD(1)] by blast
  let ?a2 = "a1\<lparr>ra_chunk_count := ra_chunk_count a1 + 1,
     ra_refs := ra_refs a1 @ [\<lparr>cr_hash = ?h, cr_version_id = v, cr_file_path = f, cr_offset = rc_offset c\<rparr>]\<rparr>"
  have "inj (hex_encode (en_crates E))" using p by (simp add: pipeline_ok_def)
  then have "locs_sound (en_crates E) loc (ra_locations ?a2)" using locs_sound_insert Cons.prems(2) s1(6) by simp
  then obtain a' st' where s2: "backup_chunks E conc v f cs ?a2 st1 = (Inr a', st')" "good D G st'"
      "ext (es_repo st1) (es_repo st')" "\<forall>h \<in> set (chunk_hashes E cs). known (es_repo st') h" "ra_files a' = ra_files ?a2"
      "locs_sound (en_crates E) loc (ra_locations a')"
    using Cons.IH [OF s1(2) _ cD(2)] by blast
  then show ?case using s1 extends_trans extends_known by (intro exI [of _ a'] exI [of _ st']) fastforce
qed

subsection \<open>Files\<close>

text \<open>An entry of a version whose chunks are in the repository and whose bytes are \<open>data\<close>.\<close>

abbreviation entry_ok where
  "entry_ok D E r f data \<equiv> (\<exists>ds. set ds \<subseteq> D \<and> af_chunks f = map (blake3_hash (en_crates E)) ds \<and> concat ds = data) \<and>
     af_file_hash f = en_sha256 E data \<and> (\<forall>h \<in> set (af_chunks f). known r h)"

lemma chunk_and_store_ok:
  assumes p: "pipeline_ok D E G wf" and R: "en_repo E = R" and g: "good D G st"
    and l: "locs_sound (en_crates E) loc (ra_locations a)" and c: "en_chunk E r (to_chunk_strategy (bj_chunking_profile job) (af_size f)) = Inr cs"
    and cD: "rc_data ` set cs \<subseteq> D"
  shows "\<exists>a' st' f'. chunk_and_store E conc track job v f r a st = (Inr a', st') \<and> good D G st' \<and> ext (es_repo st) (es_repo st') \<and>
     locs_sound (en_crates E) loc (ra_locations a') \<and> ra_files a' = ra_files a @ [f'] \<and> af_path f' = af_path f \<and>
     entry_ok D E (es_repo st') f' (concat (map rc_data cs))"
proof -
  let ?st = "if track then set_state ExChunking st else st"
  have "good D G ?st" "es_repo ?st = es_repo st" using g by simp_all
  from backup_chunks_ok [OF p R this(1) l cD, of conc v "af_path f"] this(2) obtain a1 st1 where
    s1: "backup_chunks E conc v (af_path f) cs a ?st = (Inr a1, st1)" "good D G st1"
      "ext (es_repo st) (es_repo st1)" "\<forall>h \<in> set (chunk_hashes E cs). known (es_repo st1) h" "ra_files a1 = ra_files a"
      "locs_sound (en_crates E) loc (ra_locations a1)" by auto
  let ?f = "completed_entry E f (chunk_hashes E cs) (concat (map rc_data cs))"
  have "\<exists>ds. set ds \<subseteq> D \<and> af_chunks ?f = map (blake3_hash (en_crates E)) ds \<and> concat ds = concat (map rc_data cs)"
    by (rule exI [of _ "map rc_data cs"]) (use cD in \<open>simp add: completed_entry_def\<close>)
  then have "entry_ok D E (es_repo st1) ?f (concat (map rc_data cs))" using s1(4) by (simp add: completed_entry_def)
  then show ?thesis using s1 c
    by (intro exI [of _ "add_file ?f (length (concat (map rc_data cs))) a1"] exI [of _ st1] exI [of _ ?f])
       (simp add: chunk_and_store_def lift_err_def Let_def add_file_def completed_entry_def)
qed

lemma entry_ok_ext: "ext r r' \<Longrightarrow> entry_ok D E r f d \<Longrightarrow> entry_ok D E r' f d"
  using extends_known by fast

end

text \<open>The bytes of a source file, and a source whose files can all be read.\<close>

definition source_bytes :: "('r, 'j) backup_engine \<Rightarrow> ag_file_entry \<Rightarrow> bytes" where
  "source_bytes E f = readable (the (en_open E (af_path f)))"

text \<open>The chunks a source file is split into, and the data of the chunks of a list of files.\<close>

definition source_chunks :: "('r, 'j) backup_engine \<Rightarrow> backup_job \<Rightarrow> ag_file_entry \<Rightarrow> raw_chunk_data list" where
  "source_chunks E job f = projr (en_chunk E (the (en_open E (af_path f)))
     (to_chunk_strategy (bj_chunking_profile job) (af_size f)))"

definition chunk_data :: "('r, 'j) backup_engine \<Rightarrow> backup_job \<Rightarrow> ag_file_entry list \<Rightarrow> bytes set" where
  "chunk_data E job fs = (\<Union>f \<in> set fs. rc_data ` set (source_chunks E job f))"

definition source_readable :: "('r, 'j) backup_engine \<Rightarrow> ag_file_entry list \<Rightarrow> bool" where
  "source_readable E fs \<longleftrightarrow> en_chunk E = fixed_chunk \<and> (\<forall>f \<in> set fs. \<exists>r. en_open E (af_path f) = Some r \<and> healthy r)"

lemma fixed_chunk_profile:
  "\<exists>cs. fixed_chunk r (to_chunk_strategy p n) = Inr cs \<and> concat (map rc_data cs) = readable r"
proof -
  let ?s = "to_chunk_strategy p n"
  have "?s \<noteq> Fixed 0 \<and> (\<forall>a b. ?s \<noteq> Cdc a 0 b)" by (cases p) auto
  then obtain cs where cs: "fixed_chunk r ?s = Inr cs" by (cases ?s) (auto simp: fixed_chunk_def Let_def)
  then obtain k where "cs = fixed_loop k 0 r" "0 < k" by (auto simp: fixed_chunk_def Let_def unat_gt_0 split: if_splits)
  then show ?thesis using cs fixed_loop_chunks [of k 0 r] by (metis chunks_from_data)
qed

context chunk_repository begin

lemma backup_files_ok:
  assumes p: "pipeline_ok D E G wf" and R: "en_repo E = R"
  shows "good D G st \<Longrightarrow> locs_sound (en_crates E) loc (ra_locations a) \<Longrightarrow> source_readable E fs \<Longrightarrow> chunk_data E job fs \<subseteq> D \<Longrightarrow>
     \<exists>a' st' fs'. backup_files E conc job v fs a st = (Inr a', st') \<and> good D G st' \<and> ext (es_repo st) (es_repo st') \<and>
       locs_sound (en_crates E) loc (ra_locations a') \<and> ra_files a' = ra_files a @ fs' \<and>
       list_all2 (\<lambda>f f'. af_path f' = af_path f \<and> entry_ok D E (es_repo st') f' (source_bytes E f)) fs fs'"
proof (induction fs arbitrary: a st)
  case Nil
  then show ?case using extends_refl by auto
next
  case (Cons f fs)
  from Cons.prems(3) obtain r where r: "en_open E (af_path f) = Some r" "source_readable E fs" "en_chunk E = fixed_chunk"
    by (auto simp: source_readable_def)
  obtain cs where cs: "en_chunk E r (to_chunk_strategy (bj_chunking_profile job) (af_size f)) = Inr cs"
      "concat (map rc_data cs) = source_bytes E f" "source_chunks E job f = cs"
    using fixed_chunk_profile [of r "bj_chunking_profile job" "af_size f"] r by (auto simp: source_bytes_def source_chunks_def)
  have cD: "rc_data ` set cs \<subseteq> D" "chunk_data E job fs \<subseteq> D" using Cons.prems(4) cs(3) by (auto simp: chunk_data_def)
  obtain a1 st1 f' where s1: "chunk_and_store E conc True job v f r a st = (Inr a1, st1)" "good D G st1" "ext (es_repo st) (es_repo st1)"
      "locs_sound (en_crates E) loc (ra_locations a1)" "ra_files a1 = ra_files a @ [f']" "af_path f' = af_path f"
      "entry_ok D E (es_repo st1) f' (source_bytes E f)"
    using chunk_and_store_ok [OF p R Cons.prems(1,2) cs(1) cD(1)] cs(2) by (metis (no_types, lifting))
  let ?a2 = "a1\<lparr>ra_file_count := ra_file_count a1 + 1\<rparr>" and ?st2 = "log_file E job a1 st1"
  have st2: "es_repo ?st2 = es_repo st1" "es_dedup ?st2 = es_dedup st1" by (simp_all add: log_file_def Let_def)
  have "good D G ?st2" "locs_sound (en_crates E) loc (ra_locations ?a2)" using s1 st2 by simp_all
  from Cons.IH [OF this r(2) cD(2)] obtain a' st' fs' where
    s2: "backup_files E conc job v fs ?a2 ?st2 = (Inr a', st')" "good D G st'" "ext (es_repo st1) (es_repo st')"
      "locs_sound (en_crates E) loc (ra_locations a')" "ra_files a' = ra_files ?a2 @ fs'"
      "list_all2 (\<lambda>f f'. af_path f' = af_path f \<and> entry_ok D E (es_repo st') f' (source_bytes E f)) fs fs'"
    using st2 by auto
  have "entry_ok D E (es_repo st') f' (source_bytes E f)" using entry_ok_ext [OF s2(3) s1(7)] .
  then show ?case using s1 s2 r(1) extends_trans [OF s1(3) s2(3)]
    by (intro exI [of _ a'] exI [of _ st'] exI [of _ "f' # fs'"]) simp
qed

subsection \<open>The commit\<close>

lemma commit_version_ok:
  assumes R: "en_repo E = R" and o: "ok (es_repo st)"
    and c: "commit_version E v parent number btype files refs locs st = (Inr m, st')"
  shows "ok (es_repo st')" "saved (es_repo st') v = Some m" "stored (es_repo st') = stored (es_repo st)"
    "known (es_repo st') = known (es_repo st)" "am_files m = files" "am_chunk_locations m = locs"
    "es_dedup st' = add_references refs (es_dedup st)" "build_manifest E v parent number btype files refs locs = Inr m"
proof -
  let ?st = "(set_state ExCommitting st)\<lparr>es_dedup := add_references refs (es_dedup (set_state ExCommitting st))\<rparr>"
  obtain r where b: "build_manifest E v parent number btype files refs locs = Inr m"
     and w: "br_write_manifest R v m (es_repo st) = (Inr (), r)" and st': "st' = ?st\<lparr>es_repo := r\<rparr>"
    using c R by (auto simp: commit_version_def Let_def and_then_Ok_iff lift_err_def map_err_Ok_iff on_repo_def split: prod.splits)
  obtain r' where "br_write_manifest R v m (es_repo st) = (Inr (), r')" "ok r'" "stored r' = stored (es_repo st)"
      "known r' = known (es_repo st)" "saved r' = (saved (es_repo st))(v \<mapsto> m)"
    using write_manifest [OF o write_manifest_wf [OF w]] by blast
  moreover have "am_files m = files" "am_chunk_locations m = locs"
    using b by (auto simp: build_manifest_def Let_def split: option.splits)
  ultimately show "ok (es_repo st')" "saved (es_repo st') v = Some m" "stored (es_repo st') = stored (es_repo st)"
    "known (es_repo st') = known (es_repo st)" "am_files m = files" "am_chunk_locations m = locs"
    "es_dedup st' = add_references refs (es_dedup st)" "build_manifest E v parent number btype files refs locs = Inr m"
    using w st' b by auto
qed

text \<open>What a successful full backup leaves behind.\<close>

lemma full_run_ok:
  assumes p: "pipeline_ok D E G wf" and R: "en_repo E = R" and g: "good D G st0" and src: "source_readable E fs" "chunk_data E job fs \<subseteq> D"
    and sc: "en_scan E (bj_source job) None = Inr fs"
    and run: "(case start_run E job x st0 of (v, st) \<Rightarrow>
       and_then (lift_err EnScan (en_scan E (bj_source job) None) st) (\<lambda>fs st.
       and_then (backup_files E conc job v fs run_acc_new (set_state ExChunking st)) (\<lambda>a st. finish_full E job v a st))) = (Inr res, st')"
  shows "\<exists>v m. bt_version_id res = Some v \<and> saved (es_repo st') v = Some m \<and> good D G st' \<and> es_state st' = ExSuccess \<and>
     locs_sound (en_crates E) loc (am_chunk_locations m) \<and>
     list_all2 (\<lambda>f f'. af_path f' = af_path f \<and> entry_ok D E (es_repo st') f' (source_bytes E f)) fs (am_files m) \<and>
     (\<exists>st a st1. backup_files E conc job v fs run_acc_new st = (Inr a, st1) \<and>
        build_manifest E v None 1 Full (ra_files a) (ra_refs a) (ra_locations a) = Inr m)"
proof -
  obtain v st where s: "start_run E job x st0 = (v, st)" by fastforce
  have st: "es_repo st = es_repo st0" "es_dedup st = es_dedup st0" using s by (auto simp: start_run_def fresh_uuid_def)
  have "good D G (set_state ExChunking st)" "locs_sound (en_crates E) loc (ra_locations run_acc_new)"
    using g st by (simp_all add: locs_sound_def run_acc_new_def)
  from backup_files_ok [OF p R this src, of conc v] obtain a st1 fs' where
    b: "backup_files E conc job v fs run_acc_new (set_state ExChunking st) = (Inr a, st1)" "good D G st1"
      "locs_sound (en_crates E) loc (ra_locations a)" "ra_files a = fs'"
      "list_all2 (\<lambda>f f'. af_path f' = af_path f \<and> entry_ok D E (es_repo st1) f' (source_bytes E f)) fs fs'"
    by (auto simp: run_acc_new_def)
  have "finish_full E job v a st1 = (Inr res, st')" using run s sc b(1) by (simp add: lift_err_def)
  then obtain m st2 where c: "commit_version E v None 1 Full (ra_files a) (ra_refs a) (ra_locations a) st1 = (Inr m, st2)"
      "res = result_of v a" "st' = set_state ExSuccess (journal_append_to E (TaskCompleted (bj_job_id job) v (result_of v a)) st2)"
    by (auto simp: finish_full_def and_then_Ok_iff)
  note k = commit_version_ok [OF R conjunct1 [OF b(2)] c(1)]
  have "dedup_sound known loc (es_repo st1) (add_references (ra_refs a) (es_dedup st1))"
    by (rule dedup_sound_add_references) (use b(2) in blast)
  then have "good D G st'" using b(2) k c(3) by (simp add: repo_sound_def dedup_sound_def)
  moreover have "list_all2 (\<lambda>f f'. af_path f' = af_path f \<and> entry_ok D E (es_repo st') f' (source_bytes E f)) fs (am_files m)"
    using b(4,5) k(4,5) c(3) by simp
  moreover have "\<exists>st a st1. backup_files E conc job v fs run_acc_new st = (Inr a, st1) \<and>
      build_manifest E v None 1 Full (ra_files a) (ra_refs a) (ra_locations a) = Inr m" using b(1) k(8) by blast
  ultimately show ?thesis using k c b(3) by (intro exI [of _ v] exI [of _ m]) (simp add: result_of_def set_state_def)
qed

subsection \<open>Reading back\<close>

lemma read_chunks_ok:
  assumes p: "pipeline_ok D E G wf" and R: "en_repo E = R"
    and g: "ok (rs_repo st)" "repo_sound D G stored known loc (rs_repo st)" and l: "locs_sound (en_crates E) loc (am_chunk_locations m)"
  shows "\<forall>h \<in> set hs. known (rs_repo st) h \<Longrightarrow>
     \<exists>ds. set ds \<subseteq> D \<and> read_chunks G m hs st = (Inr (concat ds), st) \<and> map (blake3_hash (en_crates E)) ds = hs"
proof (induction hs)
  case (Cons h hs)
  then obtain ds where ds: "read_chunks G m hs st = (Inr (concat ds), st)" "map (blake3_hash (en_crates E)) ds = hs" "set ds \<subseteq> D" by auto
  have G: "rg_repo G = R" "rg_crates G = en_crates E" using p R by (simp_all add: pipeline_ok_def)
  have kn: "known (rs_repo st) h" using Cons.prems by simp
  have up: "st\<lparr>rs_repo := rs_repo st\<rparr> = st" by (cases st) simp
  have lo: "locate_chunk G m h st = (loc h, st)"
    using l G find_chunk [OF g(1) kn] up by (auto simp: locate_chunk_def locs_sound_def split: option.splits)
  obtain e d c where e: "stored (rs_repo st) (loc h) = Some e" "rg_decrypt G e = Inr c" "rg_decompress G c = Inr d"
      "blake3_hash (en_crates E) d = h" "d \<in> D"
    using g(2) kn G(2) by (auto simp: repo_sound_def opens_def)
  have "br_read_chunk R (loc h) (rs_repo st) = (Inr e, rs_repo st)" using read_chunk g(1) e(1) by blast
  then show ?case using ds e lo G up by (intro exI [of _ "d # ds"]) (simp add: on_source_def)
qed (intro exI [of _ "[]"], simp)

lemma read_entry_ok:
  assumes p: "pipeline_ok D E G wf" and R: "en_repo E = R"
    and g: "ok (rs_repo st)" "repo_sound D G stored known loc (rs_repo st)" and l: "locs_sound (en_crates E) loc (am_chunk_locations m)"
    and f: "entry_ok D E (rs_repo st) f data"
  shows "read_chunks G m (af_chunks f) st = (Inr data, st)"
proof -
  obtain ds where ds: "af_chunks f = map (blake3_hash (en_crates E)) ds" "concat ds = data" "set ds \<subseteq> D" using f by blast
  obtain es where es: "read_chunks G m (af_chunks f) st = (Inr (concat es), st)" "map (blake3_hash (en_crates E)) es = af_chunks f" "set es \<subseteq> D"
    using read_chunks_ok [OF p R g l, of "af_chunks f"] f by blast
  have "inj_on (blake3_hash (en_crates E)) (set es \<union> set ds)"
    using p ds(3) es(3) by (auto simp: pipeline_ok_def intro: inj_on_subset)
  then have "es = ds" using ds(1) es(2) by (simp add: inj_on_map_eq_map)
  then show ?thesis using es(1) ds(2) by simp
qed

end

subsection \<open>Writing the target\<close>

text \<open>A target directory that can be written: no faults, nothing in the way.\<close>

definition target_ready :: "path \<Rightarrow> fsys \<Rightarrow> bool" where
  "target_ready base s \<longleftrightarrow> faults s = [] \<and> (\<forall>q. prefix q base \<longrightarrow> \<not> is_file s q) \<and> (\<forall>n. \<not> is_dir s (base @ [n]))"

lemma write_target:
  assumes "target_ready base s"
  shows "\<exists>u t. fs_create_dir_all base s = (Inr (), u) \<and> fs_write (base @ [n]) d u = (Inr (), t) \<and> target_ready base t \<and>
     (\<forall>k. lookup t (base @ [k]) = (if k = n then Some (File d) else lookup s (base @ [k])))"
proof -
  obtain u where u: "fs_create_dir_all base s = (Inr (), u)" "is_dir u base" "faults u = []"
    using create_dir_all_total [of s base] assms by (auto simp: target_ready_def)
  note keep = create_dir_all_lookup [OF u(1)]
  have k: "lookup u (base @ [m]) = lookup s (base @ [m])" for m using keep [of "base @ [m]"] by auto
  then have nd: "\<not> is_dir u (base @ [m])" for m using assms by (simp add: target_ready_def is_dir_def)
  let ?t = "set_node (base @ [n]) (File d) u"
  have w: "fs_write (base @ [n]) d u = (Inr (), ?t)" using fs_write_total [OF u(3)] u(2) nd by simp
  have "\<not> is_file ?t q" if "prefix q base" for q
    using keep [of q] that assms by (cases "lookup s q") (auto simp: target_ready_def is_file_def)
  then have "target_ready base ?t" using nd u(3) by (auto simp: target_ready_def is_dir_def)
  then show ?thesis using u(1) w k by auto
qed

text \<open>What a directory holds at a name after the files \<open>ps\<close> were written into it one after the other.\<close>

definition written :: "(ag_file_entry \<times> bytes) list \<Rightarrow> (string \<Rightarrow> node option) \<Rightarrow> string \<Rightarrow> node option" where
  "written ps old n = (case map_of (rev (map (\<lambda>(f, d). (file_name (af_path f), File d)) ps)) n of
     Some x \<Rightarrow> Some x | None \<Rightarrow> old n)"

lemma written_Nil [simp]: "written [] old = old"
  by (simp add: written_def fun_eq_iff)

lemma written_Cons: "written ((f, d) # ps) old = written ps (old(file_name (af_path f) \<mapsto> File d))"
  by (auto simp: written_def fun_eq_iff map_add_def split: option.splits)

lemma written_distinct:
  assumes "distinct (map (\<lambda>(f, d). file_name (af_path f)) ps)" and "(f, d) \<in> set ps"
  shows "written ps old (file_name (af_path f)) = Some (File d)"
proof -
  let ?xs = "rev (map (\<lambda>(f, d). (file_name (af_path f), File d)) ps)"
  have "map fst ?xs = rev (map (\<lambda>(f, d). file_name (af_path f)) ps)" by (simp add: rev_map comp_def split_beta)
  then have "distinct (map fst ?xs)" using assms(1) by simp
  moreover have "(file_name (af_path f), File d) \<in> set ?xs" using assms(2) by force
  ultimately have "map_of ?xs (file_name (af_path f)) = Some (File d)" by (rule map_of_is_SomeI)
  then show ?thesis by (simp add: written_def)
qed

context chunk_repository begin

lemma restore_one_ok:
  assumes p: "pipeline_ok D E G wf" and R: "en_repo E = R"
    and g: "ok (rs_repo st)" "repo_sound D G stored known loc (rs_repo st)" and l: "locs_sound (en_crates E) loc (am_chunk_locations m)"
    and f: "entry_ok D E (rs_repo st) f data" "file_name (af_path f) \<noteq> []"
    and j: "rj_restore_mode job = Overwrite" "rj_target_location job = base" and t: "target_ready base (rs_disk st)"
  shows "\<exists>st'. restore_one G job m f a st = (Inr (a\<lparr>rr_bytes_restored := rr_bytes_restored a + of_nat (length data),
       rr_files_restored := rr_files_restored a + 1\<rparr>), st') \<and> rs_repo st' = rs_repo st \<and> target_ready base (rs_disk st') \<and>
     (\<forall>n. lookup (rs_disk st') (base @ [n]) = (if n = file_name (af_path f) then Some (File data) else lookup (rs_disk st) (base @ [n])))"
proof -
  let ?n = "file_name (af_path f)"
  obtain u t where ut: "fs_create_dir_all base (rs_disk st) = (Inr (), u)" "fs_write (base @ [?n]) data u = (Inr (), t)"
      "target_ready base t" "\<forall>k. lookup t (base @ [k]) = (if k = ?n then Some (File data) else lookup (rs_disk st) (base @ [k]))"
    using write_target [OF t] by blast
  have tp: "compute_target_path base (af_path f) Overwrite = base @ [?n]" using f(2) by (simp add: compute_target_path_def)
  let ?st1 = "restore_set RsDecrypting ((restore_set RsDownloading st)\<lparr>rs_disk := u\<rparr>)"
  have rc: "read_chunks G m (af_chunks f) ?st1 = (Inr data, ?st1)"
    by (rule read_entry_ok [OF p R _ _ l]) (use g f(1) in \<open>simp_all add: restore_set_def\<close>)
  have "rg_sha256 G data = af_file_hash f" using f(1) p by (simp add: pipeline_ok_def)
  then have "restore_one G job m f a st = (Inr (a\<lparr>rr_bytes_restored := rr_bytes_restored a + of_nat (length data),
       rr_files_restored := rr_files_restored a + 1\<rparr>), restore_set RsVerifying (?st1\<lparr>rs_state := RsReassembling, rs_disk := t\<rparr>))"
    using j ut tp rc by (simp add: restore_one_def restore_data_def on_target_def Let_def restore_set_def)
  then show ?thesis using ut(3,4) by (simp add: restore_set_def)
qed

lemma restore_all_ok:
  assumes p: "pipeline_ok D E G wf" and R: "en_repo E = R" and l: "locs_sound (en_crates E) loc (am_chunk_locations m)"
    and j: "rj_restore_mode job = Overwrite" "rj_target_location job = base"
  shows "ok (rs_repo st) \<Longrightarrow> repo_sound D G stored known loc (rs_repo st) \<Longrightarrow> target_ready base (rs_disk st) \<Longrightarrow>
    \<forall>(f, d) \<in> set ps. entry_ok D E (rs_repo st) f d \<and> file_name (af_path f) \<noteq> [] \<Longrightarrow>
    \<exists>a' st'. restore_all G job m (map fst ps) a st = (Inr a', st') \<and> rs_repo st' = rs_repo st \<and>
      rr_files_restored a' = rr_files_restored a + of_nat (length ps) \<and> rr_files_failed a' = rr_files_failed a \<and>
      rr_all_verified a' = rr_all_verified a \<and> rr_failed_files a' = rr_failed_files a \<and>
      (\<forall>n. lookup (rs_disk st') (base @ [n]) = written ps (\<lambda>n. lookup (rs_disk st) (base @ [n])) n)"
proof (induction ps arbitrary: a st)
  case (Cons x ps)
  obtain f d where x: "x = (f, d)" by fastforce
  then have f: "entry_ok D E (rs_repo st) f d" "file_name (af_path f) \<noteq> []" using Cons.prems(4) by auto
  obtain a1 st1 where s1: "restore_one G job m f a st = (Inr a1, st1)" "rs_repo st1 = rs_repo st" "target_ready base (rs_disk st1)"
      "a1 = a\<lparr>rr_bytes_restored := rr_bytes_restored a + of_nat (length d), rr_files_restored := rr_files_restored a + 1\<rparr>"
      "\<forall>n. lookup (rs_disk st1) (base @ [n]) = (if n = file_name (af_path f) then Some (File d) else lookup (rs_disk st) (base @ [n]))"
    using restore_one_ok [OF p R Cons.prems(1,2) l f j Cons.prems(3)] by metis
  have "ok (rs_repo st1)" "repo_sound D G stored known loc (rs_repo st1)"
      "\<forall>(f, d) \<in> set ps. entry_ok D E (rs_repo st1) f d \<and> file_name (af_path f) \<noteq> []"
    using Cons.prems s1(2) by auto
  from Cons.IH [OF this(1,2) s1(3) this(3), of a1] obtain a' st' where
    s2: "restore_all G job m (map fst ps) a1 st1 = (Inr a', st')" "rs_repo st' = rs_repo st1"
      "rr_files_restored a' = rr_files_restored a1 + of_nat (length ps)" "rr_files_failed a' = rr_files_failed a1"
      "rr_all_verified a' = rr_all_verified a1" "rr_failed_files a' = rr_failed_files a1"
      "\<forall>n. lookup (rs_disk st') (base @ [n]) = written ps (\<lambda>n. lookup (rs_disk st1) (base @ [n])) n" by blast
  have "(\<lambda>n. lookup (rs_disk st1) (base @ [n])) = (\<lambda>n. lookup (rs_disk st) (base @ [n]))(file_name (af_path f) \<mapsto> File d)"
    using s1(5) by (simp add: fun_eq_iff)
  then show ?case using s1 s2 x by (intro exI [of _ a'] exI [of _ st']) (simp add: written_Cons)
qed simp

end

subsection \<open>A full backup restores\<close>

definition restore_start :: "fsys \<Rightarrow> 'r \<Rightarrow> 'r restore_st" where
  "restore_start t r = \<lparr>rs_repo = r, rs_disk = t, rs_state = RsPending\<rparr>"

definition restore_everything :: "uuid \<Rightarrow> path \<Rightarrow> restore_job" where
  "restore_everything v base = \<lparr>rj_restore_id = [], rj_source_version_id = v, rj_file_selection = All, rj_restore_mode = Overwrite, rj_target_location = base,
     rj_status = StPending, rj_started_at = None, rj_completed_at = None, rj_failed_files = []\<rparr>"

lemma written_paths:
  "list_all2 (\<lambda>x f'. af_path f' = af_path (fst x)) ps fs' \<Longrightarrow> written (zip fs' (map snd ps)) old = written ps old"
proof (induction arbitrary: old rule: list_all2_induct)
  case (Cons x ps f' fs')
  then show ?case by (cases x) (simp add: written_Cons fun_upd_def)
qed simp

context chunk_repository begin

theorem saved_version_restores:
  assumes p: "pipeline_ok D E G wf" and R: "en_repo E = R" and g: "ok r" "repo_sound D G stored known loc r"
    and m: "saved r v = Some m" and l: "locs_sound (en_crates E) loc (am_chunk_locations m)"
    and e: "list_all2 (\<lambda>x f'. af_path f' = af_path (fst x) \<and> entry_ok D E r f' (snd x)) ps (am_files m)"
    and t: "target_ready base t" and n: "\<forall>x \<in> set ps. file_name (af_path (fst x)) \<noteq> []" and len: "length ps < 2 ^ 64"
  shows "\<exists>rr rst. run_restore G (restore_everything v base) (restore_start t r) = (Inr rr, rst) \<and>
     rr_all_verified rr \<and> rr_files_failed rr = 0 \<and> unat (rr_files_restored rr) = length ps \<and> rs_state rst = RsSuccess \<and>
     (\<forall>x. lookup (rs_disk rst) (base @ [x]) = written ps (\<lambda>x. lookup t (base @ [x])) x)"
proof -
  let ?job = "restore_everything v base" and ?ps = "zip (am_files m) (map snd ps)"
  have len2: "length (am_files m) = length ps" using e by (simp add: list_all2_lengthD)
  have fst: "map fst ?ps = am_files m" using len2 by simp
  have ents: "\<forall>(f, d) \<in> set ?ps. entry_ok D E r f d \<and> file_name (af_path f) \<noteq> []"
    using e n by (fastforce simp: list_all2_conv_all_nth set_zip)
  have G: "rg_repo G = R" using p R by (simp add: pipeline_ok_def)
  let ?a = "\<lparr>rr_version_id = v, rr_files_restored = 0, rr_files_failed = 0, rr_bytes_restored = 0, rr_all_verified = True, rr_failed_files = []\<rparr>"
  let ?st = "restore_set RsPlanning ((restore_set RsResolving (restore_start t r))\<lparr>rs_repo := r\<rparr>)"
  have st: "rs_repo ?st = r" "rs_disk ?st = t" by (simp_all add: restore_set_def restore_start_def)
  have job: "rj_restore_mode ?job = Overwrite" "rj_target_location ?job = base" by (simp_all add: restore_everything_def)
  obtain a' st' where ra: "restore_all G ?job m (map fst ?ps) ?a ?st = (Inr a', st')"
      "rr_files_restored a' = of_nat (length ?ps)" "rr_files_failed a' = 0" "rr_all_verified a'"
      "\<forall>x. lookup (rs_disk st') (base @ [x]) = written ?ps (\<lambda>x. lookup t (base @ [x])) x"
    using restore_all_ok [OF p R l job, of ?st ?ps ?a] g t ents unfolding st by auto
  have "run_restore G ?job (restore_start t r) = (Inr a', restore_set (final_state a') st')"
    using ra(1) G read_manifest [OF g(1) m] unfolding fst
    by (simp add: run_restore_def on_source_def restore_everything_def plan_files_def restore_set_def restore_start_def)
  moreover have "unat (rr_files_restored a') = length ps"
    using ra(2) len len2 by (simp add: unsigned_of_nat take_bit_nat_eq_self)
  moreover have "list_all2 (\<lambda>x f'. af_path f' = af_path (fst x)) ps (am_files m)" using e by (rule list_all2_mono) simp
  then have "written ?ps old = written ps old" for old by (rule written_paths)
  ultimately show ?thesis
    using ra(3,4,5) by (intro exI [of _ a'] exI [of _ "restore_set (final_state a') st'"]) (simp add: restore_set_def final_state_def)
qed

end

text \<open>A healthy local repository in which every known chunk decodes to data of \<open>D\<close>, and a deduplication
  index that agrees with it.\<close>

definition backup_ready :: "bytes set \<Rightarrow> crates \<Rightarrow> repo_json \<Rightarrow> path \<Rightarrow> fsys restore_engine \<Rightarrow> (fsys, 'j) engine_st \<Rightarrow> bool" where
  "backup_ready D X J root G st \<longleftrightarrow> local_ok X J root (es_repo st) \<and>
     repo_sound D G (local_stored root) (local_known X root) (location_of X) (es_repo st) \<and>
     dedup_sound (local_known X root) (location_of X) (es_repo st) (es_dedup st)"

lemma full_backup_restores:
  assumes "en_repo E = local_repository X J fresh now root" and "pipeline_ok D E G chunk_wf"
    and "backup_ready D X J root G st" and "en_scan E (bj_source job) None = Inr fs" and "source_readable E fs"
    and "chunk_data E job fs \<subseteq> D"
    and "run_backup E job x st = (Inr res, st')"
    and "target_ready base t" and "\<forall>f \<in> set fs. file_name (af_path f) \<noteq> []" and "length fs < 2 ^ 64"
  shows "\<exists>v rr rst. bt_version_id res = Some v \<and>
     run_restore G (restore_everything v base) (restore_start t (es_repo st')) = (Inr rr, rst) \<and>
     rr_all_verified rr \<and> rr_files_failed rr = 0 \<and> unat (rr_files_restored rr) = length fs \<and> rs_state rst = RsSuccess \<and>
     (\<forall>n. lookup (rs_disk rst) (base @ [n]) = written (map (\<lambda>f. (f, source_bytes E f)) fs) (\<lambda>n. lookup t (base @ [n])) n)"
proof -
  have g: "local_ok X J root (es_repo st) \<and> repo_sound D G (local_stored root) (local_known X root) (location_of X) (es_repo st) \<and>
     dedup_sound (local_known X root) (location_of X) (es_repo st) (es_dedup st)"
    using assms(3) by (simp add: backup_ready_def)
  note full = local.full_run_ok [OF assms(2,1) g assms(5,6,4) assms(7) [unfolded run_backup_def]]
  then obtain v m where v: "bt_version_id res = Some v" "local_saved X J root (es_repo st') v = Some m"
      "local_ok X J root (es_repo st')" "repo_sound D G (local_stored root) (local_known X root) (location_of X) (es_repo st')"
      "locs_sound (en_crates E) (location_of X) (am_chunk_locations m)"
      "list_all2 (\<lambda>f f'. af_path f' = af_path f \<and> local.entry_ok X root D E (es_repo st') f' (source_bytes E f)) fs (am_files m)"
    by blast
  let ?ps = "map (\<lambda>f. (f, source_bytes E f)) fs"
  have e: "list_all2 (\<lambda>x f'. af_path f' = af_path (fst x) \<and> local.entry_ok X root D E (es_repo st') f' (snd x)) ?ps (am_files m)"
    using v(6) by (simp add: list_all2_map1)
  have "\<forall>x \<in> set ?ps. file_name (af_path (fst x)) \<noteq> []" "length ?ps < 2 ^ 64" using assms(9,10) by simp_all
  from local.saved_version_restores [OF assms(2,1) v(3,4,2,5) e assms(8) this] v(1) show ?thesis by auto
qed

subsection \<open>Properties\<close>

text \<open>(C2) End to end: after a successful full backup to a local repository, restoring the version
  succeeds with every file verified, and each file of the source is restored with exactly its bytes,
  when no two files share a base name.  It is assumed of the data in play, the set \<open>D\<close> of the chunks of the
  source and of those the repository holds already, that their \<open>blake3\<close> hashes do not collide, that decryption
  and decompression invert encryption and compression, and that a sealed chunk fits the memory budget; that
  the source files can be read and are split by the fixed-size chunker, that the repository is healthy and
  that the target directory is writable.\<close>

theorem backup_then_restore:
  assumes "en_repo E = local_repository X J fresh now root" and "pipeline_ok D E G chunk_wf"
    and "backup_ready D X J root G st" and "en_scan E (bj_source job) None = Inr fs" and "source_readable E fs"
    and "chunk_data E job fs \<subseteq> D"
    and "run_backup E job x st = (Inr res, st')"
    and "target_ready base t" and "\<forall>f \<in> set fs. file_name (af_path f) \<noteq> []" and "length fs < 2 ^ 64"
    and "distinct (map (file_name \<circ> af_path) fs)"
  shows "\<exists>v rr rst. bt_version_id res = Some v \<and>
     run_restore G (restore_everything v base) (restore_start t (es_repo st')) = (Inr rr, rst) \<and>
     rr_all_verified rr \<and> rr_files_failed rr = 0 \<and> unat (rr_files_restored rr) = length fs \<and> rs_state rst = RsSuccess \<and>
     (\<forall>f \<in> set fs. lookup (rs_disk rst) (base @ [file_name (af_path f)]) = Some (File (source_bytes E f)))"
proof -
  have "written (map (\<lambda>f. (f, source_bytes E f)) fs) old (file_name (af_path f)) = Some (File (source_bytes E f))"
    if "f \<in> set fs" for f old
    by (rule written_distinct) (use assms(11) that in \<open>simp_all add: comp_def\<close>)
  then show ?thesis using full_backup_restores [OF assms(1-10)] by fastforce
qed

text \<open>Restoring flattens the directory tree: of two files of a version with the same base name only
  the later one survives, although both are counted as restored and the restore reports success.\<close>

theorem restore_loses_files_of_same_name:
  assumes "en_repo E = local_repository X J fresh now root" and "pipeline_ok D E G chunk_wf"
    and "backup_ready D X J root G st" and "en_scan E (bj_source job) None = Inr (fs @ [f] @ gs @ [g])"
    and "source_readable E (fs @ [f] @ gs @ [g])" and "chunk_data E job (fs @ [f] @ gs @ [g]) \<subseteq> D" and "run_backup E job x st = (Inr res, st')"
    and "target_ready base t" and "\<forall>f \<in> set (fs @ [f] @ gs @ [g]). file_name (af_path f) \<noteq> []"
    and "length (fs @ [f] @ gs @ [g]) < 2 ^ 64"
    and "file_name (af_path f) = file_name (af_path g)" and "source_bytes E f \<noteq> source_bytes E g"
  shows "\<exists>v rr rst. bt_version_id res = Some v \<and>
     run_restore G (restore_everything v base) (restore_start t (es_repo st')) = (Inr rr, rst) \<and>
     rr_all_verified rr \<and> unat (rr_files_restored rr) = length fs + length gs + 2 \<and> rs_state rst = RsSuccess \<and>
     lookup (rs_disk rst) (base @ [file_name (af_path f)]) \<noteq> Some (File (source_bytes E f))"
proof -
  have "written (map (\<lambda>f. (f, source_bytes E f)) (fs @ [f] @ gs @ [g])) old (file_name (af_path f)) = Some (File (source_bytes E g))" for old
    using assms(11) by (simp add: written_def)
  then show ?thesis using full_backup_restores [OF assms(1-10)] assms(12) by fastforce
qed

end
