(* ===== verification/Agent_Task_Roundtrip.thy ===== *)
theory Agent_Task_Roundtrip
  imports Agent_Task_Facts Agent_Roundtrip
begin

text \<open>
  A backup task followed by a restore task, over the provider, the network and the server: when
  every upload and the manifest were answered, the restored files are the source files.
\<close>

subsection \<open>Splitting and joining\<close>

lemma concat_slice_chunks: "0 < n \<Longrightarrow> concat (slice_chunks n xs) = xs"
  by (induction n xs rule: slice_chunks.induct) (subst slice_chunks.simps, simp)

subsection \<open>Uploads\<close>

text \<open>The payloads \<open>V\<close> a backup may send: the repository has none of them under its digest unless it
  stores exactly these bytes there.\<close>

definition clean :: "provider_crates \<Rightarrow> bytes set \<Rightarrow> uuid \<Rightarrow> server_state \<Rightarrow> bool" where
  "clean N V rid sv \<longleftrightarrow> server_good (pc_env N) sv \<and> (\<exists>op. map_of (ss_open sv) rid = Some op \<and>
     (\<forall>v \<in> V. chunk_exists (pc_crates N) (op_store_index op) (blake3_hash (pc_crates N) v) \<longrightarrow>
        stored (pc_env N) sv rid (blake3_hash (pc_crates N) v) v))"

lemma put_chunk_exists:
  assumes "env_good E" and "server_good E st" and "map_of (ss_open st) rid = Some op" and "uuid_parse (sv_crates E) r = Some rid"
    and "pb_parse_hash E k = Some h"
    and "serve E C md (ChunkPut \<lparr>cpr_repo_id = r, cpr_chunk = Some \<lparr>pcd_chunk_hash = k, pcd_data = d, pcd_size = n\<rparr>\<rparr>) st = (Inr resp, st1)"
  obtains op1 where "map_of (ss_open st1) rid = Some op1"
    and "\<And>g. chunk_exists (sv_crates E) (op_store_index op1) g \<longleftrightarrow> g = h \<or> chunk_exists (sv_crates E) (op_store_index op) g"
proof -
  have o: "opened E rid st = (Inr op, st)" using assms(3) by (simp add: opened_def open_repo_handle_def)
  have hash: "blake3_hash (sv_crates E) d = h"
    using assms(6) by (auto simp: rpc_chunk_put_def the_repo_def ok_or_def assms(4,5) result_iffs split: if_splits)
  obtain loc ist where w: "write_chunk (sv_crates E) (sv_ijson E) (ss_layout st) rid (cv_now C ''chunk'' 0) h d (op_store_index op, ss_fs st) = (Inr loc, ist)"
    and st1: "st1 = st\<lparr>ss_open := AList.update rid (op\<lparr>op_store_index := fst ist\<rparr>) (ss_open st), ss_fs := snd ist\<rparr>"
    using assms(6) hash
    by (auto simp: rpc_chunk_put_def the_repo_def ok_or_def assms(4,5) result_iffs o on_store_def put_and_count_def put_chunk_def
        split: prod.splits)
  have "store_inv (sv_crates E) (ss_layout st) rid (op_store_index op, ss_fs st)"
    using index_good_store_inv assms(1-3) by (simp add: env_good_def crates_goodD server_good_def)
  from cs.put_knows [OF this w] have "chunk_exists (sv_crates E) (fst ist) g \<longleftrightarrow> g = h \<or> chunk_exists (sv_crates E) (op_store_index op) g" for g
    by (auto simp: fun_eq_iff split: if_splits)
  then show thesis using that [of "op\<lparr>op_store_index := fst ist\<rparr>"] by (simp add: st1 map_of_update)
qed

lemma put_clean:
  assumes "env_good (pc_env N)" and "inj_on (blake3_hash (pc_crates N)) V" and "uuid_parse (pc_crates N) (bd_repo_id P) = Some rid"
    and "clean N V rid (ps_server st)" and "v \<in> V" and "nameable N v" and "put_data N P md v st = (Inr resp, st1)"
  shows "clean N V rid (ps_server st1)" and "stored (pc_env N) (ps_server st1) rid (blake3_hash (pc_crates N) v) v"
    and "server_step (pc_env N) {} (ps_server st) (ps_server st1)" and "ps_step st1 = Suc (ps_step st)"
proof -
  let ?h = "blake3_hash (pc_crates N)"
  let ?call = "ChunkPut \<lparr>cpr_repo_id = bd_repo_id P, cpr_chunk = Some \<lparr>pcd_chunk_hash = hex_encode (pc_crates N) (?h v), pcd_data = v, pcd_size = of_nat (length v)\<rparr>\<rparr>"
  obtain op where op: "map_of (ss_open (ps_server st)) rid = Some op" and good: "server_good (pc_env N) (ps_server st)"
    and c: "\<And>w. w \<in> V \<Longrightarrow> chunk_exists (pc_crates N) (op_store_index op) (?h w) \<Longrightarrow> stored (pc_env N) (ps_server st) rid (?h w) w"
    using assms(4) by (auto simp: clean_def)
  obtain sv where s: "serve (pc_env N) (pc_call N (ps_step st)) md ?call (ps_server st) = (Inr resp, sv)" and sv: "ps_server st1 = sv"
    and "ps_step st1 = Suc (ps_step st)" using assms(7) by (auto simp: put_data_def client_call_Ok)
  then show "ps_step st1 = Suc (ps_step st)" by simp
  have k: "pb_parse_hash (pc_env N) (hex_encode (pc_crates N) (?h v)) = Some (?h v)" using assms(6) by (simp add: nameable_def Let_def)
  show step: "server_step (pc_env N) {} (ps_server st) (ps_server st1)"
    using serve_step [OF assms(1) good, of ?call "pc_call N (ps_step st)" md] s sv by (simp del: serve.simps)
  show st: "stored (pc_env N) (ps_server st1) rid (?h v) v"
    by (rule put_data_stored(1) [OF assms(1) good op assms(3,6) _ assms(7)]) (use c assms(5) in blast)
  obtain op1 where op1: "map_of (ss_open sv) rid = Some op1"
    "\<And>g. chunk_exists (pc_crates N) (op_store_index op1) g \<longleftrightarrow> g = ?h v \<or> chunk_exists (pc_crates N) (op_store_index op) g"
    by (rule put_chunk_exists [OF assms(1) good op assms(3) k s]) blast
  have "stored (pc_env N) (ps_server st1) rid (?h w) w" if w: "w \<in> V" "chunk_exists (pc_crates N) (op_store_index op1) (?h w)" for w
  proof (cases "?h w = ?h v")
    case True
    then show ?thesis using inj_onD [OF assms(2) True w(1) assms(5)] st by simp
  next
    case False
    then show ?thesis using c [OF w(1)] w(2) op1(2) step by (simp add: server_step_def)
  qed
  then show "clean N V rid (ps_server st1)" using op1(1) server_step_good [OF step] sv by (auto simp: clean_def)
qed

text \<open>The payload of a piece of a file, and what the codecs do with it.\<close>

definition payload :: "provider_crates \<Rightarrow> bytes \<Rightarrow> bytes" where
  "payload N d = the (pc_enc_to_vec N (plain_chunk d))"

abbreviation payload_hash :: "provider_crates \<Rightarrow> bytes \<Rightarrow> chunk_hash" where
  "payload_hash N d \<equiv> blake3_hash (pc_crates N) (payload N d)"

definition piece_ok :: "provider_crates \<Rightarrow> bytes set \<Rightarrow> bytes \<Rightarrow> bool" where
  "piece_ok N V d \<longleftrightarrow> pc_enc_to_vec N (plain_chunk d) = Some (payload N d) \<and> pc_enc_from_slice N (payload N d) = Some (plain_chunk d) \<and>
     payload N d \<in> V \<and> nameable N (payload N d) \<and>
     hex_decode (pc_crates N) (hex_encode (pc_crates N) (payload_hash N d)) = Some (payload_hash N d) \<and> length (payload_hash N d) = 32"

definition piece_stored :: "provider_crates \<Rightarrow> uuid \<Rightarrow> server_state \<Rightarrow> bytes \<Rightarrow> bool" where
  "piece_stored N rid sv d \<longleftrightarrow> stored (pc_env N) sv rid (payload_hash N d) (payload N d)"

lemma piece_stored_step: "server_step (pc_env N) {} a b \<Longrightarrow> piece_stored N rid a d \<Longrightarrow> piece_stored N rid b d"
  by (simp add: piece_stored_def server_step_def)

lemma write_piece:
  assumes "env_good (pc_env N)" and "inj_on (blake3_hash (pc_crates N)) V" and "uuid_parse (pc_crates N) (bd_repo_id P) = Some rid"
    and "clean N V rid (ps_server st)" and "piece_ok N V d" and "provider_write_chunk N P h (plain_chunk d) st = (Inr loc, st1)"
  shows "clean N V rid (ps_server st1)" and "piece_stored N rid (ps_server st1) d"
    and "server_step (pc_env N) {} (ps_server st) (ps_server st1)" and "stored_hash (pc_crates N) loc h = payload_hash N d"
proof -
  obtain resp where p: "put_data N P (provider_md P) (payload N d) (st\<lparr>ps_step := Suc (ps_step st)\<rparr>) = (Inr resp, st1)"
    and loc: "loc = make_location (hex_encode (pc_crates N) (payload_hash N d))"
    using assms(5,6) by (auto simp: provider_write_chunk_def piece_ok_def and_then_Ok_iff dest!: client_connect_Ok)
  have v: "payload N d \<in> V" "nameable N (payload N d)" using assms(5) by (simp_all add: piece_ok_def)
  have "clean N V rid (ps_server (st\<lparr>ps_step := Suc (ps_step st)\<rparr>))" using assms(4) by simp
  note put = put_clean [OF assms(1-3) this v p]
  show "clean N V rid (ps_server st1)" "piece_stored N rid (ps_server st1) d" "server_step (pc_env N) {} (ps_server st) (ps_server st1)"
    using put(1-3) by (simp_all add: piece_stored_def)
  have "trim_end_matches ''.chunk'' (al_path loc) = hex_encode (pc_crates N) (payload_hash N d)"
    using v(2) by (simp add: loc make_location_def nameable_def Let_def trim_chunk)
  then show "stored_hash (pc_crates N) loc h = payload_hash N d" using assms(5) by (simp add: stored_hash_def piece_ok_def)
qed

lemma upload_refs_bound:
  "upload_chunks T prov vid path ds a st = (a', st') \<Longrightarrow> length (ua_refs a') \<le> length (ua_refs a) + length ds"
proof (induction ds arbitrary: a st)
  case (Cons d ds)
  show ?case
  proof (cases prov)
    case None
    then show ?thesis using Cons.IH [of _ st] Cons.prems by (fastforce simp: Let_def)
  next
    case (Some P)
    obtain r st1 where w: "provider_write_chunk (tk_net T) P (blake3_hash (tk_crates T) d) (plain_chunk d) st = (r, st1)" by fastforce
    then show ?thesis using Some Cons.IH [of _ st1] Cons.prems by (cases r) (fastforce simp: Let_def)+
  qed
qed simp

text \<open>When every piece was answered, the recorded hashes are those of the payloads and all are stored.\<close>

lemma upload_all:
  assumes "env_good (pc_env N)" and "inj_on (blake3_hash (pc_crates N)) V" and "uuid_parse (pc_crates N) (bd_repo_id P) = Some rid"
    and "tk_net T = N"
  shows "upload_chunks T (Some P) vid path ds a st = (a', st') \<Longrightarrow> length (ua_refs a') = length (ua_refs a) + length ds \<Longrightarrow>
    clean N V rid (ps_server st) \<Longrightarrow> \<forall>d \<in> set ds. piece_ok N V d \<Longrightarrow>
    ua_hashes a' = ua_hashes a @ map (payload_hash N) ds \<and> clean N V rid (ps_server st') \<and>
    server_step (pc_env N) {} (ps_server st) (ps_server st') \<and> (\<forall>d \<in> set ds. piece_stored N rid (ps_server st') d)"
proof (induction ds arbitrary: a st)
  case (Cons d ds)
  obtain r st1 where w: "provider_write_chunk N P (blake3_hash (pc_crates N) d) (plain_chunk d) st = (r, st1)" by fastforce
  show ?case
  proof (cases r)
    case (Inl e)
    let ?b = "a\<lparr>ua_hashes := ua_hashes a @ [blake3_hash (pc_crates N) d], ua_offset := ua_offset a + of_nat (length d)\<rparr>"
    have "upload_chunks T (Some P) vid path ds ?b st1 = (a', st')" using Cons.prems(1) w Inl assms(4) by (simp add: Let_def)
    from upload_refs_bound [OF this] show ?thesis using Cons.prems(2) by simp
  next
    case (Inr loc)
    have d: "piece_ok N V d" using Cons.prems(4) by simp
    note wr = write_piece [OF assms(1-3) Cons.prems(3) d w [unfolded Inr]]
    define b where "b = a\<lparr>ua_hashes := ua_hashes a @ [payload_hash N d], ua_count := ua_count a + 1,
       ua_refs := ua_refs a @ [\<lparr>cr_hash = payload_hash N d, cr_version_id = vid, cr_file_path = path, cr_offset = ua_offset a\<rparr>],
       ua_offset := ua_offset a + of_nat (length d)\<rparr>"
    have u: "upload_chunks T (Some P) vid path ds b st1 = (a', st')"
      using Cons.prems(1) w Inr wr(4) assms(4) by (simp add: Let_def b_def)
    have IH: "ua_hashes a' = ua_hashes b @ map (payload_hash N) ds \<and> clean N V rid (ps_server st') \<and>
        server_step (pc_env N) {} (ps_server st1) (ps_server st') \<and> (\<forall>d \<in> set ds. piece_stored N rid (ps_server st') d)"
      by (rule Cons.IH [OF u _ wr(1)]) (use Cons.prems(2,4) in \<open>simp_all add: b_def\<close>)
    then have "piece_stored N rid (ps_server st') d" using wr(2) piece_stored_step by blast
    moreover have "server_step (pc_env N) {} (ps_server st) (ps_server st')" using IH wr(3) server_step_trans by blast
    ultimately show ?thesis using IH by (simp add: b_def)
  qed
qed (simp add: clean_def server_step_refl)

subsection \<open>The walk\<close>

definition file_data :: "walked \<Rightarrow> bytes" where
  "file_data e = (case wd_data e of Some d \<Rightarrow> d | None \<Rightarrow> [])"

definition pieces :: "walked \<Rightarrow> bytes list" where
  "pieces e = slice_chunks task_chunk_size (file_data e)"

lemma concat_pieces: "concat (pieces e) = file_data e"
  by (simp add: pieces_def concat_slice_chunks task_chunk_size_def)

definition backed_up :: "task_env \<Rightarrow> walked \<Rightarrow> ag_file_entry" where
  "backed_up T e = \<lparr>af_path = wd_path e, af_size = file_len e, af_modified_at = tk_now T, af_attributes = file_attributes_default,
     af_chunks = map (payload_hash (tk_net T)) (pieces e), af_file_hash = blake3_hash (tk_crates T) (file_data e)\<rparr>"

lemma backed_up_path [simp]: "af_path (backed_up T e) = wd_path e"
  by (simp add: backed_up_def)

abbreviation piece_count :: "walked list \<Rightarrow> nat" where
  "piece_count ws \<equiv> sum_list (map (\<lambda>e. length (pieces e)) ws)"

text \<open>One file of the walk.\<close>

lemma walk_file:
  assumes "wd_is_file w" and "wd_data w = Some d"
    and "upload_chunks T prov vid (wd_path w) (pieces w) \<lparr>ua_hashes = [], ua_refs = ba_refs a, ua_count = ba_chunk_count a, ua_offset = 0\<rparr> st = (u, st1)"
  shows "walk_files T prov vid (Some w # es) a st = walk_files T prov vid es
    (a\<lparr>ba_file_count := ba_file_count a + 1, ba_bytes := ba_bytes a + file_len w, ba_chunk_count := ua_count u, ba_refs := ua_refs u,
       ba_entries := ba_entries a @ [\<lparr>af_path = wd_path w, af_size = file_len w, af_modified_at = tk_now T,
         af_attributes = file_attributes_default, af_chunks = ua_hashes u, af_file_hash = blake3_hash (tk_crates T) (file_data w)\<rparr>]\<rparr>) st1"
  using assms by (simp add: Let_def file_len_def pieces_def file_data_def)

lemma walk_cases:
  assumes "walk_files T prov vid (e # es) a st = (Inr a', st')"
  obtains (skip) w where "e = Some w" and "\<not> wd_is_file w" and "walk_files T prov vid es a st = (Inr a', st')"
  | (leaf) w d u st1 where "e = Some w" and "wd_is_file w" and "wd_data w = Some d"
      and "upload_chunks T prov vid (wd_path w) (pieces w) \<lparr>ua_hashes = [], ua_refs = ba_refs a, ua_count = ba_chunk_count a, ua_offset = 0\<rparr> st = (u, st1)"
proof (cases e)
  case (Some w)
  show thesis
  proof (cases "wd_is_file w")
    case True
    then obtain d where "wd_data w = Some d" using assms Some by (cases "wd_data w") (simp_all add: Let_def)
    then show thesis using True Some leaf by (metis prod.exhaust)
  qed (use Some assms skip in simp)
qed (use assms in simp)

lemma walk_refs_bound:
  "walk_files T prov vid es a st = (Inr a', st') \<Longrightarrow> length (ba_refs a') \<le> length (ba_refs a) + piece_count (walked_files es)"
proof (induction es arbitrary: a st)
  case (Cons e es)
  from Cons.prems show ?case
  proof (cases rule: walk_cases)
    case (skip w)
    then show ?thesis using Cons.IH by simp
  next
    case (leaf w d u st1)
    from Cons.IH [OF Cons.prems [unfolded leaf(1) walk_file [OF leaf(2-4)]]] upload_refs_bound [OF leaf(4)]
    show ?thesis using leaf(1,2) by simp
  qed
qed simp

lemma walk_all:
  assumes "env_good (pc_env N)" and "inj_on (blake3_hash (pc_crates N)) V" and "uuid_parse (pc_crates N) (bd_repo_id P) = Some rid"
    and "tk_net T = N"
  shows "walk_files T (Some P) vid es a st = (Inr a', st') \<Longrightarrow> length (ba_refs a') = length (ba_refs a) + piece_count (walked_files es) \<Longrightarrow>
    clean N V rid (ps_server st) \<Longrightarrow> \<forall>e \<in> set (walked_files es). \<forall>d \<in> set (pieces e). piece_ok N V d \<Longrightarrow>
    ba_entries a' = ba_entries a @ map (backed_up T) (walked_files es) \<and> clean N V rid (ps_server st') \<and>
    server_step (pc_env N) {} (ps_server st) (ps_server st') \<and>
    (\<forall>e \<in> set (walked_files es). \<forall>d \<in> set (pieces e). piece_stored N rid (ps_server st') d)"
proof (induction es arbitrary: a st)
  case (Cons e es)
  from Cons.prems(1) show ?case
  proof (cases rule: walk_cases)
    case (skip w)
    then show ?thesis using Cons.IH [OF skip(3)] Cons.prems(2-4) by simp
  next
    case (leaf w d u st1)
    note w = Cons.prems(1) [unfolded leaf(1) walk_file [OF leaf(2-4)]]
    have n: "length (ua_refs u) = length (ba_refs a) + length (pieces w)"
      using walk_refs_bound [OF w] upload_refs_bound [OF leaf(4)] Cons.prems(2) leaf(1,2) by simp
    have up: "ua_hashes u = map (payload_hash N) (pieces w) \<and> clean N V rid (ps_server st1) \<and>
        server_step (pc_env N) {} (ps_server st) (ps_server st1) \<and> (\<forall>d \<in> set (pieces w). piece_stored N rid (ps_server st1) d)"
      using upload_all [OF assms leaf(4) _ Cons.prems(3)] n Cons.prems(4) leaf(1,2) by simp
    have IH: "ba_entries a' = ba_entries a @ [backed_up T w] @ map (backed_up T) (walked_files es) \<and> clean N V rid (ps_server st') \<and>
        server_step (pc_env N) {} (ps_server st1) (ps_server st') \<and>
        (\<forall>e \<in> set (walked_files es). \<forall>d \<in> set (pieces e). piece_stored N rid (ps_server st') d)"
      using Cons.IH [OF w] up n Cons.prems(2,4) leaf(1,2) by (simp add: backed_up_def assms(4))
    moreover have "server_step (pc_env N) {} (ps_server st) (ps_server st')" using IH up server_step_trans by blast
    moreover have "\<forall>d \<in> set (pieces w). piece_stored N rid (ps_server st') d" using IH up piece_stored_step by blast
    ultimately show ?thesis using leaf(1,2) by simp
  qed
qed (simp add: clean_def server_step_refl)

subsection \<open>The restore\<close>

lemma online_drop: "online N P (k + n) st \<Longrightarrow> online N P n (st\<lparr>ps_step := ps_step st + k\<rparr>)"
  by (auto simp: online_def)

lemma online_take: "online N P n st \<Longrightarrow> k \<le> n \<Longrightarrow> online N P k st"
  by (auto simp: online_def)

lemma collect_all:
  assumes "uuid_parse (pc_crates N) (bd_repo_id P) = Some rid" and "tk_net T = N"
  shows "\<forall>d \<in> set ds. piece_ok N V d \<and> piece_stored N rid (ps_server st) d \<Longrightarrow> faults (ss_fs (ps_server st)) = [] \<Longrightarrow>
    online N P (2 * length ds) st \<Longrightarrow>
    collect_chunks T P (map (payload_hash N) ds) st = (concat ds, st\<lparr>ps_step := ps_step st + 2 * length ds\<rparr>)"
proof (induction ds arbitrary: st)
  case (Cons d ds)
  let ?st = "st\<lparr>ps_step := ps_step st + 2\<rparr>"
  have d: "piece_ok N V d" "piece_stored N rid (ps_server st) d" using Cons.prems(1) by simp_all
  have rd: "provider_read_chunk N P (make_location (hex_encode (pc_crates N) (payload_hash N d))) st = (Inr (plain_chunk d), ?st)"
    by (rule read_stored_chunk [OF d(2) [unfolded piece_stored_def] Cons.prems(2) assms(1)])
       (use d(1) online_take [OF Cons.prems(3)] in \<open>simp_all add: piece_ok_def\<close>)
  have "online N P (2 * length ds) ?st" by (rule online_drop) (use Cons.prems(3) in simp)
  from Cons.IH [OF _ _ this] Cons.prems(1,2)
  have "collect_chunks T P (map (payload_hash N) ds) ?st = (concat ds, ?st\<lparr>ps_step := ps_step ?st + 2 * length ds\<rparr>)" by simp
  then show ?case using rd assms(2) by (simp add: plain_chunk_def)
qed simp

lemma restored_name_file: "file_name p \<noteq> [] \<Longrightarrow> restored_name p = file_name p"
  by (simp add: restored_name_def)

text \<open>Files whose pieces are all stored are written to the target one after the other.\<close>

lemma restore_all_files:
  assumes "uuid_parse (pc_crates N) (bd_repo_id P) = Some rid" and "tk_net T = N"
  shows "\<forall>e \<in> set ws. file_name (wd_path e) \<noteq> [] \<and> (\<forall>d \<in> set (pieces e). piece_ok N V d \<and> piece_stored N rid (ps_server (tt_provider st)) d) \<Longrightarrow>
    faults (ss_fs (ps_server (tt_provider st))) = [] \<Longrightarrow> online N P (2 * piece_count ws) (tt_provider st) \<Longrightarrow> target_ready target (tt_disk st) \<Longrightarrow>
    \<exists>disk bytes. restore_files T P target (map (backed_up T) ws) acc st =
      ((fst acc + of_nat (length ws), bytes), \<lparr>tt_provider = (tt_provider st)\<lparr>ps_step := ps_step (tt_provider st) + 2 * piece_count ws\<rparr>, tt_disk = disk\<rparr>) \<and>
      (\<forall>n. lookup disk (target @ [n]) = written (map (\<lambda>e. (backed_up T e, file_data e)) ws) (\<lambda>n. lookup (tt_disk st) (target @ [n])) n)"
proof (induction ws arbitrary: acc st)
  case (Cons w ws)
  let ?ps = "(tt_provider st)\<lparr>ps_step := ps_step (tt_provider st) + 2 * length (pieces w)\<rparr>" and ?n = "file_name (wd_path w)"
  obtain u t where ut: "fs_create_dir_all target (tt_disk st) = (Inr (), u)" "fs_write (target @ [?n]) (file_data w) u = (Inr (), t)"
      "target_ready target t" "\<forall>k. lookup t (target @ [k]) = (if k = ?n then Some (File (file_data w)) else lookup (tt_disk st) (target @ [k]))"
    using write_target [OF Cons.prems(4)] by blast
  have "collect_chunks T P (map (payload_hash N) (pieces w)) (tt_provider st) = (concat (pieces w), ?ps)"
    by (rule collect_all [OF assms, where V = V]) (use Cons.prems(1,2) online_take [OF Cons.prems(3)] in simp_all)
  then have step: "restore_files T P target (map (backed_up T) (w # ws)) acc st =
      restore_files T P target (map (backed_up T) ws) (fst acc + 1, snd acc + of_nat (length (file_data w))) \<lparr>tt_provider = ?ps, tt_disk = t\<rparr>"
    using ut(1,2) Cons.prems(1) assms(2) by (simp add: Let_def backed_up_def restored_name_file concat_pieces)
  have "online N P (2 * piece_count ws) ?ps" by (rule online_drop) (use Cons.prems(3) in simp)
  from Cons.IH [of "\<lparr>tt_provider = ?ps, tt_disk = t\<rparr>" "(fst acc + 1, snd acc + of_nat (length (file_data w)))"] this Cons.prems(1,2) ut(3)
  obtain disk bytes where IH: "restore_files T P target (map (backed_up T) ws) (fst acc + 1, snd acc + of_nat (length (file_data w))) \<lparr>tt_provider = ?ps, tt_disk = t\<rparr> =
      ((fst acc + 1 + of_nat (length ws), bytes), \<lparr>tt_provider = ?ps\<lparr>ps_step := ps_step ?ps + 2 * piece_count ws\<rparr>, tt_disk = disk\<rparr>)"
    "\<forall>n. lookup disk (target @ [n]) = written (map (\<lambda>e. (backed_up T e, file_data e)) ws) (\<lambda>n. lookup t (target @ [n])) n"
    by auto
  have "(\<lambda>n. lookup t (target @ [n])) = (\<lambda>n. lookup (tt_disk st) (target @ [n]))(?n \<mapsto> File (file_data w))" using ut(4) by (simp add: fun_eq_iff)
  then show ?case unfolding step IH(1) using IH(2)
    by (intro exI [of _ disk] exI [of _ bytes]) (simp add: written_Cons algebra_simps)
next
  case Nil
  show ?case by (intro exI [of _ "tt_disk st"] exI [of _ "snd acc"]) simp
qed

lemma create_target:
  assumes "target_ready base s"
  shows "\<exists>u. fs_create_dir_all base s = (Inr (), u) \<and> target_ready base u"
proof -
  obtain u where u: "fs_create_dir_all base s = (Inr (), u)" "faults u = []"
    using create_dir_all_total [of s base] assms by (auto simp: target_ready_def)
  note keep = create_dir_all_lookup [OF u(1)]
  have "\<not> is_file u q" if "prefix q base" for q
    using keep [of q] that assms by (cases "lookup s q") (auto simp: target_ready_def is_file_def)
  moreover have "\<not> is_dir u (base @ [n])" for n using keep [of "base @ [n]"] assms by (auto simp: target_ready_def is_dir_def)
  ultimately show ?thesis using u by (auto simp: target_ready_def)
qed

text \<open>What a manifest needs of the codecs: it survives serialization and compression as the payload \<open>z\<close>,
  and so do the snapshots of the server.\<close>

definition manifest_ok :: "provider_crates \<Rightarrow> bytes set \<Rightarrow> ag_manifest \<Rightarrow> bool" where
  "manifest_ok N V m \<longleftrightarrow> (\<exists>json z. oj_manifest_to_vec (pc_json N) m = Some json \<and> oj_manifest_from_slice (pc_json N) json = Some m \<and>
     pc_zstd_encode N json = Some z \<and> pc_zstd_decode N z = Some json \<and> nameable N z \<and> z \<in> V)"

definition snapshots_ok :: "provider_crates \<Rightarrow> bool" where
  "snapshots_ok N \<longleftrightarrow> (\<forall>x b. sj_to_vec (sv_sjson (pc_env N)) x = Some b \<longrightarrow> sj_from_slice (sv_sjson (pc_env N)) b = Some x)"

text \<open>There is room for the version in the listing, its registry identifier is new, and no other snapshot of
  the repository names it.\<close>

definition room_for :: "provider_crates \<Rightarrow> badou_provider \<Rightarrow> uuid \<Rightarrow> uuid \<Rightarrow> provider_st \<Rightarrow> provider_st \<Rightarrow> bool" where
  "room_for N P rid vid st st1 \<longleftrightarrow> length (list_versions (ss_versions (ps_server st)) rid) < 100 \<and>
     cv_fresh (pc_call N (ps_step st + 2)) ''version'' \<notin> set (repo_ids (ss_versions (ps_server st)) rid) \<and>
     (\<forall>v \<in> set (list_versions (ss_versions (ps_server st)) rid). \<forall>x.
        listed (pc_env N) (bd_repo_id P) rid (ps_server st1) v = Some x \<longrightarrow> \<not> names N vid x)"

lemma stored_after_manifest:
  assumes "env_good (pc_env N)" and "inj_on (blake3_hash (pc_crates N)) V" and "uuid_parse (pc_crates N) (bd_repo_id P) = Some rid"
    and "clean N V rid (ps_server st)" and "manifest_ok N V m" and "provider_write_manifest N P vid m st = (Inr (), st1)"
  shows "server_step (pc_env N) {} (ps_server st) (ps_server st1)"
proof -
  obtain json z where z: "oj_manifest_to_vec (pc_json N) m = Some json" "pc_zstd_encode N json = Some z" "nameable N z" "z \<in> V"
    using assms(5) by (auto simp: manifest_ok_def)
  obtain resp resp' st2 sv where p: "put_data N P (provider_md P) z (st\<lparr>ps_step := Suc (ps_step st)\<rparr>) = (Inr resp, st2)"
    and c: "serve (pc_env N) (pc_call N (ps_step st2)) (provider_md P)
       (SnapshotCommit (manifest_request N P vid (hex_encode (pc_crates N) (blake3_hash (pc_crates N) z)) (ps_step st))) (ps_server st2) = (Inr resp', sv)"
    and st1: "st1 = st2\<lparr>ps_step := Suc (ps_step st2), ps_server := sv\<rparr>"
    by (rule write_manifest_Ok [OF assms(6) z(1,2)])
  have put: "server_step (pc_env N) {} (ps_server st) (ps_server st2)"
    using put_clean(3) [OF assms(1-3) _ z(4,3) p] assms(4) by simp
  have "server_step (pc_env N) {} (ps_server st2) sv"
    using serve_step [OF assms(1) server_step_good [OF put], of "SnapshotCommit _" "pc_call N (ps_step st2)" "provider_md P"] c
    by (metis given_up.simps snd_conv)
  then show ?thesis using put st1 server_step_trans by simp
qed

text \<open>A manifest whose pieces are all stored is restored file by file.\<close>

lemma restore_stored_version:
  assumes "uuid_parse (pc_crates N) (tp_repo_id spec) = Some rid" and "tk_net T = N" and "tk_jwt T \<noteq> []"
    and "Q = provider_new N (tk_fresh T ''holder'') (badou_endpoint spec) (tp_repo_id spec) (tk_jwt T)"
    and "tp_source_path spec \<noteq> []" and "uuid_parse (pc_crates N) (tp_source_path spec) = Some vid"
    and "provider_read_manifest N Q vid st = (Inr m, st\<lparr>ps_step := ps_step st + 3\<rparr>)" and "am_files m = map (backed_up T) ws"
    and "\<forall>e \<in> set ws. file_name (wd_path e) \<noteq> [] \<and> (\<forall>d \<in> set (pieces e). piece_ok N V d \<and> piece_stored N rid (ps_server st) d)"
    and "faults (ss_fs (ps_server st)) = []" and "online N Q (3 + 2 * piece_count ws) st"
    and "target = tk_target T (tp_target_path spec)" and "target_ready target disk"
    and "distinct (map (\<lambda>e. file_name (wd_path e)) ws)"
  shows "\<exists>out st'. execute_restore T spec \<lparr>tt_provider = st, tt_disk = disk\<rparr> = (Inr out, st') \<and> to_file_count out = of_nat (length ws) \<and>
    (\<forall>e \<in> set ws. lookup (tt_disk st') (target @ [file_name (wd_path e)]) = Some (File (file_data e)))"
proof -
  obtain u where u: "fs_create_dir_all target disk = (Inr (), u)" "target_ready target u" using create_target [OF assms(13)] by blast
  let ?st = "\<lparr>tt_provider = st\<lparr>ps_step := ps_step st + 3\<rparr>, tt_disk = u\<rparr>"
  have Q: "uuid_parse (pc_crates N) (bd_repo_id Q) = Some rid" using assms(1,4) by (simp add: provider_new_def)
  have "online N Q (2 * piece_count ws) (tt_provider ?st)" using online_drop [OF assms(11)] by simp
  then obtain disk' bytes where r: "restore_files T Q target (map (backed_up T) ws) (0, 0) ?st =
      ((of_nat (length ws), bytes), \<lparr>tt_provider = (tt_provider ?st)\<lparr>ps_step := ps_step (tt_provider ?st) + 2 * piece_count ws\<rparr>, tt_disk = disk'\<rparr>)"
    "\<forall>n. lookup disk' (target @ [n]) = written (map (\<lambda>e. (backed_up T e, file_data e)) ws) (\<lambda>n. lookup u (target @ [n])) n"
    using restore_all_files [OF Q assms(2), of ws V ?st target "(0, 0)"] assms(9,10) u(2) by auto
  have "lookup disk' (target @ [file_name (wd_path e)]) = Some (File (file_data e))" if "e \<in> set ws" for e
  proof -
    have "written (map (\<lambda>e. (backed_up T e, file_data e)) ws) old (file_name (af_path (backed_up T e))) = Some (File (file_data e))" for old
      by (rule written_distinct) (use assms(14) that in \<open>auto simp: comp_def\<close>)
    then show ?thesis using r(2) by simp
  qed
  moreover have "\<exists>out. execute_restore T spec \<lparr>tt_provider = st, tt_disk = disk\<rparr> =
      (Inr out, \<lparr>tt_provider = (tt_provider ?st)\<lparr>ps_step := ps_step (tt_provider ?st) + 2 * piece_count ws\<rparr>, tt_disk = disk'\<rparr>) \<and>
      to_file_count out = of_nat (length ws)"
    using u(1) r(1) assms(2,3,5-8) by (simp add: execute_restore_def Let_def assms(4) [symmetric] assms(12) [symmetric])
  ultimately show ?thesis by (metis task_st.select_convs(2))
qed

text \<open>(C3) What a backup task stored, a restore task brings back.  Consider a backup task, whichever repository its
  provider uses, that got an answer for every chunk and for its manifest.  Then a restore task for the
  reported version in that repository writes every file of the walk with exactly its bytes into the target
  directory under its file name, and reports their number.  The bytes pass through the provider, the
  network, authentication, the chunk store, the two-phase commit and the version registry.  The side
  conditions are:
  the repository is open on the server when the backup starts (creating a repository does not open it), and
  it stores none of the payloads \<open>V\<close> under a digest with other bytes, purged or empty ones included (\<open>clean\<close>);
  the payloads do not collide under the digest and their encodings can be decoded (\<open>piece_ok\<close>, \<open>manifest_ok\<close>);
  the version is within the first hundred of the listing and no other snapshot names it (\<open>room_for\<close>);
  no two files share a base name, because restore keeps only the file name of a path;
  at restore the server can be reached with the token (\<open>online\<close>), its disk does not fail and the target
  directory can be written.\<close>

theorem backup_task_then_restore_task:
  assumes "env_good (pc_env N)" and "tk_net T = N" and "snapshots_ok N"
    and "tk_exists T (tp_source_path b)" and "backup_provider T b st0 = (Some P, st)"
    and "uuid_parse (pc_crates N) (bd_repo_id P) = Some rid" and "inj_on (blake3_hash (pc_crates N)) V" and "clean N V rid (ps_server st)"
    and "walk_files T (Some P) (tk_fresh T ''version'') (tk_walk T (tp_source_path b))
       \<lparr>ba_file_count = 0, ba_bytes = 0, ba_chunk_count = 0, ba_refs = [], ba_entries = []\<rparr> st = (Inr a, st1)"
    and "ws = walked_files (tk_walk T (tp_source_path b))" and "length (ba_refs a) = piece_count ws"
    and "\<forall>e \<in> set ws. file_name (wd_path e) \<noteq> [] \<and> (\<forall>d \<in> set (pieces e). piece_ok N V d)"
    and "distinct (map (\<lambda>e. file_name (wd_path e)) ws)"
    and "vid = tk_fresh T ''version''" and "uuid_parse (pc_crates N) (uuid_to_string (pc_crates N) vid) = Some vid"
    and "manifest_ok N V (task_manifest T vid a)"
    and "provider_write_manifest N P vid (task_manifest T vid a) st1 = (Inr (), st2)" and "room_for N P rid vid st1 st2"
    and "tk_jwt T \<noteq> []" and "tp_repo_id r = bd_repo_id P" and "tp_source_path r = uuid_to_string (pc_crates N) vid" and "tp_source_path r \<noteq> []"
    and "faults (ss_fs (ps_server st2)) = []"
    and "online N (provider_new N (tk_fresh T ''holder'') (badou_endpoint r) (tp_repo_id r) (tk_jwt T)) (3 + 2 * piece_count ws) st2"
    and "target = tk_target T (tp_target_path r)" and "target_ready target disk"
  shows "snd (execute_backup T b st0) = st2 \<and>
    (\<exists>out st'. execute_restore T r \<lparr>tt_provider = st2, tt_disk = disk\<rparr> = (Inr out, st') \<and> to_file_count out = of_nat (length ws) \<and>
      (\<forall>e \<in> set ws. lookup (tt_disk st') (target @ [file_name (wd_path e)]) = Some (File (file_data e))))"
proof -
  let ?m = "task_manifest T vid a" and ?Q = "provider_new N (tk_fresh T ''holder'') (badou_endpoint r) (tp_repo_id r) (tk_jwt T)"
  have walk: "ba_entries a = map (backed_up T) ws \<and> clean N V rid (ps_server st1) \<and>
      (\<forall>e \<in> set ws. \<forall>d \<in> set (pieces e). piece_stored N rid (ps_server st1) d)"
    using walk_all [OF assms(1,7,6,2) assms(9) _ assms(8)] assms(10,11,12) by simp
  have stored: "\<forall>e \<in> set ws. \<forall>d \<in> set (pieces e). piece_stored N rid (ps_server st2) d"
    using stored_after_manifest [OF assms(1,7,6) _ assms(16,17)] walk piece_stored_step by blast
  obtain json z where z: "oj_manifest_to_vec (pc_json N) ?m = Some json" "oj_manifest_from_slice (pc_json N) json = Some ?m"
      "pc_zstd_encode N json = Some z" "pc_zstd_decode N z = Some json" "nameable N z" "z \<in> V"
    using assms(16) by (auto simp: manifest_ok_def)
  obtain op where op: "map_of (ss_open (ps_server st1)) rid = Some op" "server_good (pc_env N) (ps_server st1)"
    "\<not> chunk_exists (pc_crates N) (op_store_index op) (blake3_hash (pc_crates N) z) \<or> stored (pc_env N) (ps_server st1) rid (blake3_hash (pc_crates N) z) z"
    using walk z(6) by (auto simp: clean_def)
  note room = assms(18) [unfolded room_for_def]
  have "provider_read_manifest N ?Q vid st2 = (Inr ?m, st2\<lparr>ps_step := ps_step st2 + 3\<rparr>)"
    by (rule manifest_read_back [OF assms(1) op(2,1) assms(6,15) _ z(1-5) op(3) assms(17) _ _ _ assms(23)])
       (use room assms(3,20) online_take [OF assms(24), of 3] in \<open>simp_all add: snapshots_ok_def provider_new_def\<close>)
  then have "\<exists>out st'. execute_restore T r \<lparr>tt_provider = st2, tt_disk = disk\<rparr> = (Inr out, st') \<and> to_file_count out = of_nat (length ws) \<and>
      (\<forall>e \<in> set ws. lookup (tt_disk st') (target @ [file_name (wd_path e)]) = Some (File (file_data e)))"
    by (intro restore_stored_version [OF _ assms(2,19) refl assms(22) _ _ _ _ assms(23,24,25,26,13), where V = V and vid = vid and m = ?m and rid = rid])
       (use assms(6,12,15,20,21) stored walk in \<open>simp_all add: task_manifest_def\<close>)
  moreover have "snd (execute_backup T b st0) = st2"
    using assms(2,4,5,9,14,17) by (simp add: execute_backup_def Let_def)
  ultimately show ?thesis by simp
qed

end
