(* ===== verification/Agent_Task_Examples.thy ===== *)
theory Agent_Task_Examples
  imports Agent_Badou_Examples Agent_Task_Roundtrip
begin

text \<open>
  A worked backup and restore: one file of 32 bytes goes through the provider, the network and the
  server and comes back.
\<close>

subsection \<open>The tasks\<close>

definition tn_file :: walked where
  "tn_file = \<lparr>wd_path = ''src/f'', wd_is_file = True, wd_len = Some 32, wd_data = Some chunk_bytes\<rparr>"

definition tn_refs :: "chunk_reference list" where
  "tn_refs = [\<lparr>cr_hash = chunk_bytes, cr_version_id = [3], cr_file_path = ''src/f'', cr_offset = 0\<rparr>]"

definition tn_entry :: ag_file_entry where
  "tn_entry = \<lparr>af_path = ''src/f'', af_size = 32, af_modified_at = 0, af_attributes = file_attributes_default,
     af_chunks = [chunk_bytes], af_file_hash = chunk_bytes\<rparr>"

definition tn_acc :: backup_acc where
  "tn_acc = \<lparr>ba_file_count = 1, ba_bytes = 32, ba_chunk_count = 1, ba_refs = tn_refs, ba_entries = [tn_entry]\<rparr>"

definition tn_manifest :: ag_manifest where
  "tn_manifest = \<lparr>am_version_id = [3], am_timestamp = 0, am_parent_version_id = None, am_version_number = 1,
     am_backup_type = Full, am_files = [tn_entry], am_chunk_refs = tn_refs,
     am_hashes = \<lparr>mh_manifest_hash = replicate 32 0, mh_file_index_hash = replicate 32 0,
       mh_chunk_index_hash = replicate 32 0, mh_repo_hash = replicate 32 0\<rparr>,
     am_chunk_locations = []\<rparr>"

definition tn_net :: provider_crates where
  "tn_net = pv_net\<lparr>pc_json := pv_json\<lparr>oj_manifest_from_slice := (\<lambda>_. Some tn_manifest)\<rparr>\<rparr>"

definition tn_tasks :: task_env where
  "tn_tasks = \<lparr>tk_net = tn_net, tk_jwt = ''a.b.c'', tk_exists = (\<lambda>p. p = ''src''),
     tk_walk = (\<lambda>_. [Some \<lparr>wd_path = ''src'', wd_is_file = False, wd_len = None, wd_data = None\<rparr>, Some tn_file]),
     tk_now = 0, tk_fresh = (\<lambda>_. [3]), tk_target = (\<lambda>p. [p])\<rparr>"

definition tn_spec :: "string \<Rightarrow> string \<Rightarrow> task_spec" where
  "tn_spec kind source = \<lparr>tp_task_id = ''t'', tp_job_id = ''j'', tp_repo_id = uuid_to_string sample_crates [9], tp_task_type = kind,
     tp_source_path = source, tp_target_path = ''out'', tp_badou_grpc_endpoint = []\<rparr>"

abbreviation tn_backup :: task_spec where
  "tn_backup \<equiv> tn_spec ''backup'' ''src''"

abbreviation tn_restore :: task_spec where
  "tn_restore \<equiv> tn_spec ''restore'' (uuid_to_string sample_crates [3])"

definition tn_provider :: badou_provider where
  "tn_provider = provider_new tn_net [3] (badou_endpoint tn_backup) (uuid_to_string sample_crates [9]) ''a.b.c''"

lemma tn_fields [simp]:
  "tk_net tn_tasks = tn_net" "tk_jwt tn_tasks = ''a.b.c''" "tk_exists tn_tasks p \<longleftrightarrow> p = ''src''" "tk_fresh tn_tasks s = [3]" "tk_now tn_tasks = 0"
  "tk_walk tn_tasks p = [Some \<lparr>wd_path = ''src'', wd_is_file = False, wd_len = None, wd_data = None\<rparr>, Some tn_file]"
  "tk_target tn_tasks p = [p]"
  "pc_env tn_net = pv_env" "pc_net tn_net t = NetOk" "pc_call tn_net t = pv_call" "pc_endpoint_ok tn_net e" "pc_header_ok tn_net h"
  "pc_enc_to_vec tn_net x = Some (ec_ciphertext x)" "pc_enc_from_slice tn_net b = Some (plain_chunk b)"
  "pc_zstd_encode tn_net = Some" "pc_zstd_decode tn_net = Some" "oj_manifest_to_vec (pc_json tn_net) m = Some chunk_bytes"
  "oj_manifest_from_slice (pc_json tn_net) b = Some tn_manifest"
  by (simp_all add: tn_tasks_def tn_net_def pv_json_def)

lemma tn_spec_fields [simp]:
  "tp_repo_id (tn_spec k s) = uuid_to_string sample_crates [9]" "tp_source_path (tn_spec k s) = s" "tp_target_path (tn_spec k s) = ''out''"
  "badou_endpoint (tn_spec k s) = ''http://127.0.0.1:9090''" "bd_repo_id tn_provider = uuid_to_string sample_crates [9]"
  by (simp_all add: tn_spec_def badou_endpoint_def tn_provider_def provider_new_def)

lemma tn_md: "bd_jwt_token P = ''a.b.c'' \<Longrightarrow> provider_md P = sample_md"
  by (simp add: provider_md_def sample_md_def)

lemma tn_token [simp]: "bd_jwt_token tn_provider = ''a.b.c''" "bd_jwt_token (provider_new N f e r t) = t"
  by (simp_all add: tn_provider_def provider_new_def)

lemma tn_connect:
  "bd_jwt_token P = ''a.b.c'' \<Longrightarrow> client_connect tn_net P st = (Inr sample_md, st\<lparr>ps_step := Suc (ps_step st)\<rparr>)"
  by (simp add: client_connect_def sample_md_def Let_def)

lemma tn_online: "ss_auth (ps_server st) = from_secret [] \<Longrightarrow> bd_jwt_token P = ''a.b.c'' \<Longrightarrow> online tn_net P n st"
  by (simp add: online_def tn_md pv_call_def sample_gates)

subsection \<open>The file and its piece\<close>

lemma tn_pieces [simp]: "pieces tn_file = [chunk_bytes]" "file_data tn_file = chunk_bytes" "file_len tn_file = 32"
  "wd_path tn_file = ''src/f''" "wd_is_file tn_file" "wd_data tn_file = Some chunk_bytes"
  by (simp_all add: pieces_def file_data_def tn_file_def file_len_def slice_chunks.simps task_chunk_size_def)

lemma tn_payload [simp]: "payload tn_net d = d"
  by (simp add: payload_def plain_chunk_def)

lemma tn_nameable: "nameable tn_net chunk_bytes"
  using pv_hypotheses(10) by (simp add: nameable_def)

lemma tn_piece_ok: "piece_ok tn_net {chunk_bytes} chunk_bytes"
  using tn_nameable by (simp add: piece_ok_def plain_chunk_def)

lemma tn_clean: "clean tn_net {chunk_bytes} [9] (pv_server vo)"
  by (simp add: clean_def pv_server_good chunk_exists_def index_lookup_def pv_op_def session_op_def session_index_def in_memory_def)

lemma tn_backed_up: "backed_up tn_tasks tn_file = tn_entry"
  by (simp add: backed_up_def tn_entry_def)

subsection \<open>The run\<close>

text \<open>An operator may not create repositories: the repository of the task is used.\<close>

lemma tn_backup_provider:
  "backup_provider tn_tasks tn_backup (pv_start vo) = (Some tn_provider, (pv_start vo)\<lparr>ps_step := 2\<rparr>)"
proof -
  have "from_role_str ''operator'' = Some Operator" by (simp add: from_role_str_def)
  then have "serve pv_env pv_call sample_md (RepositoryCreate c) (pv_server vo) = (Inl (to_status HPermissionDenied), pv_server vo)" for c
    by (simp add: rpc_repository_create_def require_admin_def sample_gates pv_call_def)
  then have "client_call tn_net sample_md (RepositoryCreate c) ((pv_start vo)\<lparr>ps_step := Suc 0\<rparr>) =
      (Inl (BcStatus (to_status HPermissionDenied)), (pv_start vo)\<lparr>ps_step := 2\<rparr>)" for c
    by (simp add: client_call_def pv_start_def Let_def del: serve.simps)
  then show ?thesis
    by (simp add: backup_provider_def create_repo_def tn_connect run_async_def tn_provider_def)
qed

lemma pv_index1: "pv_index1 = session_index\<lparr>bi_chunk_index := [(hex_encode sample_crates chunk_bytes,
    new_entry sample_crates root_layout [9] 0 chunk_bytes chunk_bytes)]\<rparr>"
  by (simp add: pv_index1_def session_index_def in_memory_def sample_fs_simps sample_commit_simps pv_disk_def index_dir_def index_path_def
      journal_dir_def journal_path_def new_entry_def split del: if_split)

text \<open>Putting the same bytes again only counts a reference.\<close>

lemma pv_write_again:
  "\<exists>loc i. write_chunk sample_crates (sv_ijson pv_env) root_layout [9] 0 chunk_bytes chunk_bytes (pv_index1, pv_disk1) = (Inr loc, (i, pv_disk1))"
  by (simp add: pv_index1 pv_disk1 session_index_def in_memory_def write_chunk_def index_lookup_def increment_ref_count_def persist_def Let_def
      sample_fs_simps pv_disk_def index_dir_def index_path_def journal_dir_def journal_path_def repo_root_def chunks_dir_def bucket_path_def
      butlast_append split del: if_split)

abbreviation tn_server :: "badou_index \<Rightarrow> server_state" where
  "tn_server i \<equiv> (pv_server version_ops_new)\<lparr>ss_open := [([9], pv_op\<lparr>op_store_index := i\<rparr>)], ss_fs := pv_disk1\<rparr>"

lemma tn_write_chunk:
  "\<exists>loc. provider_write_chunk tn_net tn_provider h (plain_chunk chunk_bytes) ((pv_start version_ops_new)\<lparr>ps_step := 2\<rparr>) =
     (Inr loc, \<lparr>ps_server = tn_server pv_index1, ps_step = 4\<rparr>) \<and> stored_hash sample_crates loc h = chunk_bytes"
proof -
  obtain resp where "serve pv_env pv_call sample_md put_call (pv_server version_ops_new) = (Inr resp, tn_server pv_index1)"
    using pv_put_call by blast
  then have "put_data tn_net tn_provider sample_md chunk_bytes ((pv_start version_ops_new)\<lparr>ps_step := 3\<rparr>) =
      (Inr resp, \<lparr>ps_server = tn_server pv_index1, ps_step = 4\<rparr>)"
    using put_data_call [of tn_net "(pv_start version_ops_new)\<lparr>ps_step := 3\<rparr>" tn_provider] by (simp del: serve.simps)
  then obtain loc where w: "provider_write_chunk tn_net tn_provider h (plain_chunk chunk_bytes) ((pv_start version_ops_new)\<lparr>ps_step := 2\<rparr>) =
     (Inr loc, \<lparr>ps_server = tn_server pv_index1, ps_step = 4\<rparr>)"
    by (simp add: provider_write_chunk_def tn_connect run_async_def plain_chunk_def)
  have "stored_hash (pc_crates tn_net) loc h = payload_hash tn_net chunk_bytes"
    by (rule write_piece(4) [OF _ _ _ _ tn_piece_ok w, of "[9]"]) (simp_all add: pv_env_good tn_clean)
  then show ?thesis using w by simp
qed

lemma tn_walk:
  "walk_files tn_tasks (Some tn_provider) [3] (tk_walk tn_tasks ''src'') \<lparr>ba_file_count = 0, ba_bytes = 0, ba_chunk_count = 0, ba_refs = [], ba_entries = []\<rparr>
     ((pv_start version_ops_new)\<lparr>ps_step := 2\<rparr>) = (Inr tn_acc, \<lparr>ps_server = tn_server pv_index1, ps_step = 4\<rparr>)"
proof -
  obtain loc where w: "provider_write_chunk tn_net tn_provider chunk_bytes (plain_chunk chunk_bytes) ((pv_start version_ops_new)\<lparr>ps_step := 2\<rparr>) =
     (Inr loc, \<lparr>ps_server = tn_server pv_index1, ps_step = 4\<rparr>)" "stored_hash sample_crates loc chunk_bytes = chunk_bytes"
    using tn_write_chunk by blast
  have up: "upload_chunks tn_tasks (Some tn_provider) [3] (wd_path tn_file) (pieces tn_file)
      \<lparr>ua_hashes = [], ua_refs = [], ua_count = 0, ua_offset = 0\<rparr> ((pv_start version_ops_new)\<lparr>ps_step := 2\<rparr>) =
      (\<lparr>ua_hashes = [chunk_bytes], ua_refs = tn_refs, ua_count = 1, ua_offset = 32\<rparr>, \<lparr>ps_server = tn_server pv_index1, ps_step = 4\<rparr>)"
    using w by (simp add: Let_def tn_refs_def)
  let ?a0 = "\<lparr>ba_file_count = 0, ba_bytes = 0, ba_chunk_count = 0, ba_refs = [], ba_entries = []\<rparr>"
  have "walk_files tn_tasks (Some tn_provider) [3] [Some tn_file] ?a0 ((pv_start version_ops_new)\<lparr>ps_step := 2\<rparr>) =
      (Inr tn_acc, \<lparr>ps_server = tn_server pv_index1, ps_step = 4\<rparr>)"
    by (subst walk_file [where a = ?a0, simplified backup_acc.simps, OF _ _ up]) (simp_all add: tn_acc_def tn_entry_def)
  then show ?thesis by (simp del: walk_files.simps(3)) (simp add: walk_files.simps(3) [of _ _ _ "\<lparr>wd_path = ''src'', wd_is_file = False, wd_len = None, wd_data = None\<rparr>"] del: walk_files.simps(3))
qed

lemma tn_manifest: "task_manifest tn_tasks [3] tn_acc = tn_manifest"
  by (simp add: task_manifest_def tn_manifest_def tn_acc_def)

lemma tn_request: "manifest_request tn_net tn_provider [3] (hex_encode sample_crates chunk_bytes) t = pv_request"
  by (simp add: pv_request_def manifest_request_def tn_net_def pv_net_def pv_net0_def pv_agent_def tn_provider_def provider_new_def Let_def)

lemma tn_write_manifest:
  "\<exists>st2. provider_write_manifest tn_net tn_provider [3] tn_manifest \<lparr>ps_server = tn_server pv_index1, ps_step = 4\<rparr> = (Inr (), st2) \<and>
     faults (ss_fs (ps_server st2)) = [] \<and> ss_auth (ps_server st2) = from_secret []"
proof -
  obtain loc i where w: "write_chunk sample_crates (sv_ijson pv_env) root_layout [9] 0 chunk_bytes chunk_bytes (pv_index1, pv_disk1) = (Inr loc, (i, pv_disk1))"
    using pv_write_again by blast
  have "\<exists>resp. serve pv_env pv_call sample_md put_call (tn_server pv_index1) = (Inr resp, (tn_server pv_index1)
      \<lparr>ss_open := [([9], (pv_op\<lparr>op_store_index := pv_index1\<rparr>)\<lparr>op_store_index := i\<rparr>)], ss_fs := pv_disk1\<rparr>)"
    by (rule put_call_answered) (use w in simp_all)
  then obtain resp where p: "serve pv_env pv_call sample_md put_call (tn_server pv_index1) = (Inr resp, tn_server i)" by auto
  obtain resp' sv where c: "serve pv_env pv_call sample_md (SnapshotCommit pv_request) (tn_server i) = (Inr resp', sv)"
    "faults (ss_fs sv) = []" "ss_auth sv = from_secret []" using pv_commit_call [of i version_ops_new] by blast
  have put: "put_data tn_net tn_provider sample_md chunk_bytes \<lparr>ps_server = tn_server pv_index1, ps_step = 5\<rparr> = (Inr resp, \<lparr>ps_server = tn_server i, ps_step = 6\<rparr>)"
    using put_data_call [of tn_net "\<lparr>ps_server = tn_server pv_index1, ps_step = 5\<rparr>" tn_provider resp "tn_server i"] p by (simp del: serve.simps)
  have "provider_write_manifest tn_net tn_provider [3] tn_manifest \<lparr>ps_server = tn_server pv_index1, ps_step = 4\<rparr> = (Inr (), \<lparr>ps_server = sv, ps_step = 7\<rparr>)"
    by (simp add: provider_write_manifest_def tn_connect put tn_request client_call_def c(1) Let_def del: serve.simps)
  then show ?thesis using c(2,3) by auto
qed

theorem backup_task_then_restore_task_witness:
  "\<exists>out st'. execute_restore tn_tasks tn_restore
      \<lparr>tt_provider = snd (execute_backup tn_tasks tn_backup (pv_start version_ops_new)), tt_disk = \<lparr>nodes = [], faults = []\<rparr>\<rparr> = (Inr out, st') \<and>
     to_file_count out = 1 \<and> lookup (tt_disk st') [''out'', ''f''] = Some (File chunk_bytes)"
proof -
  let ?st = "(pv_start version_ops_new)\<lparr>ps_step := 2\<rparr>" and ?st1 = "\<lparr>ps_server = tn_server pv_index1, ps_step = 4\<rparr>"
  obtain st2 where m: "provider_write_manifest tn_net tn_provider [3] (task_manifest tn_tasks [3] tn_acc) ?st1 = (Inr (), st2)"
    "faults (ss_fs (ps_server st2)) = []" "ss_auth (ps_server st2) = from_secret []" using tn_write_manifest unfolding tn_manifest by blast
  have walk: "walk_files tn_tasks (Some tn_provider) (tk_fresh tn_tasks ''version'') (tk_walk tn_tasks (tp_source_path tn_backup))
      \<lparr>ba_file_count = 0, ba_bytes = 0, ba_chunk_count = 0, ba_refs = [], ba_entries = []\<rparr> ?st = (Inr tn_acc, ?st1)"
    using tn_walk by (simp del: walk_files.simps)
  have ok: "manifest_ok tn_net {chunk_bytes} (task_manifest tn_tasks [3] tn_acc)"
    using tn_nameable by (simp add: manifest_ok_def tn_manifest)
  have room: "room_for tn_net tn_provider [9] [3] ?st1 st2"
    by (simp add: room_for_def list_versions_def version_ops_new_def repo_ids_def map_filter_simps)
  have name: "file_name ''src/f'' = ''f''" by (simp add: file_name_def)
  have "snd (execute_backup tn_tasks tn_backup (pv_start version_ops_new)) = st2 \<and>
    (\<exists>out st'. execute_restore tn_tasks tn_restore \<lparr>tt_provider = st2, tt_disk = \<lparr>nodes = [], faults = []\<rparr>\<rparr> = (Inr out, st') \<and>
      to_file_count out = of_nat (length [tn_file]) \<and>
      (\<forall>e \<in> set [tn_file]. lookup (tt_disk st') ([''out''] @ [file_name (wd_path e)]) = Some (File (file_data e))))"
    by (rule backup_task_then_restore_task [where N = tn_net and V = "{chunk_bytes}" and rid = "[9]" and vid = "[3]",
          OF _ _ _ _ tn_backup_provider _ _ _ walk _ _ _ _ _ _ ok m(1) room])
       (use m(2,3) tn_piece_ok in \<open>simp_all add: pv_env_good snapshots_ok_def pv_codec tn_clean tn_acc_def tn_refs_def name tn_online
          target_ready_def is_file_def is_dir_def lookup_def sample_crates_def byte_char_inverse\<close>)
  then show ?thesis by (auto simp: name)
qed

end
