(* ===== verification/Agent_Schedule.thy ===== *)
theory Agent_Schedule
  imports Prelude
begin

text \<open>
  When a job runs next (\<open>hbx-scheduler/src/scheduler.rs\<close>, \<open>hbx-core/src/domain/schedule.rs\<close>):
  the interval, daily, weekly, monthly and cron schedules.

  Times are nanoseconds since the epoch, so the time of day is arithmetic; how day
  numbers relate to dates and weekdays is \<open>chrono\<close>'s business and an argument
  (\<open>calendar\<close>).  Dates beyond \<open>chrono\<close>'s range, where the additions panic, are not
  modelled.
\<close>

subsection \<open>Calendar\<close>

record calendar =
  cal_ymd :: "int \<Rightarrow> int \<times> nat \<times> nat"
  cal_from_ymd_opt :: "int \<Rightarrow> nat \<Rightarrow> nat \<Rightarrow> int option"
  cal_days_from_monday :: "int \<Rightarrow> nat"

abbreviation "second \<equiv> (1000000000 :: int)"
abbreviation "minute_len \<equiv> 60 * second"
abbreviation "day_len \<equiv> 86400 * second"

definition day_number :: "timestamp \<Rightarrow> int" where
  "day_number t = t div day_len"

definition hour :: "timestamp \<Rightarrow> nat" where
  "hour t = nat (t mod day_len div (3600 * second))"

definition minute :: "timestamp \<Rightarrow> nat" where
  "minute t = nat (t mod (3600 * second) div minute_len)"

text \<open>A date and a time of day in seconds.\<close>

definition and_time :: "int \<Rightarrow> int \<Rightarrow> timestamp" where
  "and_time day secs = day * day_len + secs * second"

subsection \<open>Parsing\<close>

definition parse_time_of_day :: "string \<Rightarrow> int option" where
  "parse_time_of_day s = (case split_on (CHR '':'') s of
     [h, m] \<Rightarrow>
       (case parse_uint (2 ^ 32 - 1) h of None \<Rightarrow> None | Some hh \<Rightarrow>
       (case parse_uint (2 ^ 32 - 1) m of None \<Rightarrow> None | Some mm \<Rightarrow>
          if hh < 24 \<and> mm < 60 then Some (3600 * int hh + 60 * int mm) else None))
   | _ \<Rightarrow> None)"

record cron_expr =
  cn_minutes :: "nat list"
  cn_hours :: "nat list"
  cn_days_of_month :: "nat list"
  cn_months :: "nat list"
  cn_days_of_week :: "nat list"

definition in_range :: "nat \<Rightarrow> nat \<Rightarrow> nat list \<Rightarrow> nat list" where
  "in_range lo hi vs = filter (\<lambda>v. lo \<le> v \<and> v \<le> hi) vs"

fun parse_parts :: "nat \<Rightarrow> nat \<Rightarrow> string list \<Rightarrow> nat list option" where
  "parse_parts lo hi [] = Some []"
| "parse_parts lo hi (part # parts) =
     (let vs = (if CHR ''-'' \<in> set part then
          (case parse_uint 255 (takeWhile (\<lambda>c. c \<noteq> CHR ''-'') part) of None \<Rightarrow> None | Some start \<Rightarrow>
          (case parse_uint 255 (tl (dropWhile (\<lambda>c. c \<noteq> CHR ''-'') part)) of None \<Rightarrow> None | Some stop \<Rightarrow>
             Some (in_range lo hi [start..<Suc stop])))
        else map_option (\<lambda>v. in_range lo hi [v]) (parse_uint 255 part))
      in case vs of None \<Rightarrow> None | Some xs \<Rightarrow> map_option ((@) xs) (parse_parts lo hi parts))"

definition parse_field :: "string \<Rightarrow> nat \<Rightarrow> nat \<Rightarrow> nat list option" where
  "parse_field field lo hi =
     (if field = ''*'' then Some [lo..<Suc hi]
      else if take 2 field = ''*/'' then
        (case parse_uint 255 (drop 2 field) of None \<Rightarrow> None | Some step \<Rightarrow>
           if step = 0 then None else Some (filter (\<lambda>v. (v - lo) mod step = 0) [lo..<Suc hi]))
      else case parse_parts lo hi (split_on (CHR '','') field) of
        None \<Rightarrow> None
      | Some result \<Rightarrow> if result = [] then None else Some (remdups_adj (sort result)))"

definition is_whitespace :: "char \<Rightarrow> bool" where
  "is_whitespace c \<longleftrightarrow> c \<in> {CHR '' '', CHR 0x09, CHR 0x0A, CHR 0x0B, CHR 0x0C, CHR 0x0D}"

definition split_whitespace :: "string \<Rightarrow> string list" where
  "split_whitespace s = filter (\<lambda>w. w \<noteq> []) (split_on (CHR '' '') (map (\<lambda>c. if is_whitespace c then CHR '' '' else c) s))"

definition cron_parse :: "string \<Rightarrow> cron_expr option" where
  "cron_parse expr = (case split_whitespace expr of
     [f0, f1, f2, f3, f4] \<Rightarrow>
       (case parse_field f0 0 59 of None \<Rightarrow> None | Some a \<Rightarrow>
       (case parse_field f1 0 23 of None \<Rightarrow> None | Some b \<Rightarrow>
       (case parse_field f2 1 31 of None \<Rightarrow> None | Some c \<Rightarrow>
       (case parse_field f3 1 12 of None \<Rightarrow> None | Some d \<Rightarrow>
       (case parse_field f4 0 6 of None \<Rightarrow> None | Some e \<Rightarrow>
          Some \<lparr>cn_minutes = a, cn_hours = b, cn_days_of_month = c, cn_months = d, cn_days_of_week = e\<rparr>)))))
   | _ \<Rightarrow> None)"

subsection \<open>Cron\<close>

definition cron_matches :: "calendar \<Rightarrow> cron_expr \<Rightarrow> timestamp \<Rightarrow> bool" where
  "cron_matches K c t = (case cal_ymd K (day_number t) of (y, m, d) \<Rightarrow>
     minute t \<in> set (cn_minutes c) \<and> hour t \<in> set (cn_hours c) \<and> d \<in> set (cn_days_of_month c) \<and> m \<in> set (cn_months c) \<and>
     (cal_days_from_monday K (day_number t) + 1) mod 7 \<in> set (cn_days_of_week c))"

function cron_search :: "calendar \<Rightarrow> cron_expr \<Rightarrow> timestamp \<Rightarrow> timestamp \<Rightarrow> timestamp option" where
  "cron_search K c limit candidate =
     (if candidate < limit then
        if cron_matches K c candidate
        then Some (and_time (day_number candidate) (3600 * int (hour candidate) + 60 * int (minute candidate)))
        else cron_search K c limit (candidate + minute_len)
      else None)"
  by pat_completeness auto
termination
  by (relation "measure (\<lambda>(K, c, limit, candidate). nat (limit - candidate))") auto

declare cron_search.simps [simp del]

definition cron_next_after :: "calendar \<Rightarrow> cron_expr \<Rightarrow> timestamp \<Rightarrow> timestamp option" where
  "cron_next_after K c after = cron_search K c (after + 366 * day_len) (after + minute_len)"

subsection \<open>Schedules\<close>

datatype schedule_mode = Manual | Interval | Daily | Weekly | Monthly | Cron

record schedule =
  sc_schedule_id :: uuid
  sc_mode :: schedule_mode
  sc_cron_expression :: "string option"
  sc_interval :: "u64 option"
  sc_time_of_day :: "string option"
  sc_day_of_week :: "nat option"
  sc_day_of_month :: "nat option"
  sc_next_run_at :: "timestamp option"

definition create_schedule :: "uuid \<Rightarrow> schedule_mode \<Rightarrow> schedule" where
  "create_schedule i m = \<lparr>sc_schedule_id = i, sc_mode = m, sc_cron_expression = None, sc_interval = None, sc_time_of_day = None,
     sc_day_of_week = None, sc_day_of_month = None, sc_next_run_at = None\<rparr>"

definition next_interval :: "schedule \<Rightarrow> timestamp \<Rightarrow> timestamp option" where
  "next_interval s now = map_option (\<lambda>secs. now + uint secs * second) (sc_interval s)"

definition schedule_time :: "schedule \<Rightarrow> int option" where
  "schedule_time s = Option.bind (sc_time_of_day s) parse_time_of_day"

definition next_daily :: "schedule \<Rightarrow> timestamp \<Rightarrow> timestamp option" where
  "next_daily s now = (case schedule_time s of None \<Rightarrow> None | Some time \<Rightarrow>
     let target = and_time (day_number now) time in
     Some (if target > now then target else target + day_len))"

definition next_weekly :: "calendar \<Rightarrow> schedule \<Rightarrow> timestamp \<Rightarrow> timestamp option" where
  "next_weekly K s now = (case sc_day_of_week s of None \<Rightarrow> None | Some dow \<Rightarrow>
     (case schedule_time s of None \<Rightarrow> None | Some time \<Rightarrow>
        if dow > 6 then None
        else let weekday = (if dow = 0 then 6 else dow - 1); today = day_number now;
                 days_until = (int weekday - int (cal_days_from_monday K today) + 7) mod 7;
                 target = and_time (today + days_until) time
             in Some (if target > now then target else target + 7 * day_len)))"

definition next_monthly :: "calendar \<Rightarrow> schedule \<Rightarrow> timestamp \<Rightarrow> timestamp option" where
  "next_monthly K s now = (case sc_day_of_month s of None \<Rightarrow> None | Some target_dom \<Rightarrow>
     (case schedule_time s of None \<Rightarrow> None | Some time \<Rightarrow>
     (case cal_ymd K (day_number now) of (year, month, _) \<Rightarrow>
     (case cal_from_ymd_opt K year month target_dom of None \<Rightarrow> None | Some this_month \<Rightarrow>
        let target = and_time this_month time in
        if target > now then Some target
        else let next_month = (if month = 12 then 1 else month + 1); next_year = (if month = 12 then year + 1 else year) in
          map_option (\<lambda>day. and_time day time) (cal_from_ymd_opt K next_year next_month target_dom)))))"

definition next_cron :: "calendar \<Rightarrow> schedule \<Rightarrow> timestamp \<Rightarrow> timestamp option" where
  "next_cron K s now = (case sc_cron_expression s of None \<Rightarrow> None | Some expr \<Rightarrow>
     (case cron_parse expr of None \<Rightarrow> None | Some c \<Rightarrow> cron_next_after K c now))"

fun compute_next_run :: "calendar \<Rightarrow> schedule \<Rightarrow> timestamp \<Rightarrow> timestamp option" where
  "compute_next_run K s now = (case sc_mode s of
     Manual \<Rightarrow> None
   | Interval \<Rightarrow> next_interval s now
   | Daily \<Rightarrow> next_daily s now
   | Weekly \<Rightarrow> next_weekly K s now
   | Monthly \<Rightarrow> next_monthly K s now
   | Cron \<Rightarrow> next_cron K s now)"

definition should_run_now :: "schedule \<Rightarrow> timestamp \<Rightarrow> bool" where
  "should_run_now s now = (case sc_next_run_at s of Some next \<Rightarrow> now \<ge> next | None \<Rightarrow> False)"

definition handle_missed :: "schedule \<Rightarrow> timestamp \<Rightarrow> timestamp option" where
  "handle_missed s now = (case sc_next_run_at s of Some next \<Rightarrow> if next < now then Some next else None | None \<Rightarrow> None)"

definition update_after_run :: "calendar \<Rightarrow> schedule \<Rightarrow> timestamp \<Rightarrow> schedule" where
  "update_after_run K s now = s\<lparr>sc_next_run_at := compute_next_run K s now\<rparr>"

subsection \<open>Minutes\<close>

definition minute_of :: "timestamp \<Rightarrow> timestamp" where
  "minute_of t = t - t mod minute_len"

lemma nested_div:
  fixes t :: int assumes "0 < c" and "0 \<le> b"
  shows "t mod (b * c) div c = t div c mod b"
proof -
  have "t mod (b * c) = t mod c + (t div c mod b) * c"
    using zmod_zmult2_eq [OF assms(2), of t c] by (simp add: mult.commute)
  then show ?thesis using assms(1) by simp
qed

lemma time_parts:
  "day_number t = t div minute_len div 1440" "int (hour t) = t div minute_len mod 1440 div 60" "int (minute t) = t div minute_len mod 60"
proof -
  have e: "day_len = 1440 * minute_len" "3600 * second = 60 * minute_len" by simp_all
  have d: "t div (b * minute_len) = t div minute_len div b" if "0 < b" for b :: int
    using that by (subst mult.commute) (rule zdiv_zmult2_eq, simp)
  show "day_number t = t div minute_len div 1440" unfolding day_number_def e(1) by (rule d) simp
  show "int (minute t) = t div minute_len mod 60" unfolding minute_def e(2) by (subst nested_div) simp_all
  have "t mod day_len div (3600 * second) = t div (3600 * second) mod 24" using nested_div [where c = "3600 * second" and b = 24 and t = t] by simp
  also have "\<dots> = t div minute_len div 60 mod 24" unfolding e(2) by (subst d) simp_all
  also have "\<dots> = t div minute_len mod 1440 div 60" using nested_div [where c = 60 and b = 24 and t = "t div minute_len"] by simp
  finally show "int (hour t) = t div minute_len mod 1440 div 60" by (simp add: hour_def)
qed

lemma minute_of_index: "minute_of t = t div minute_len * minute_len"
  by (simp add: minute_of_def minus_mod_eq_div_mult)

lemma minute_of_bounds: "minute_of t \<le> t" "t < minute_of t + minute_len"
  by (simp_all add: minute_of_def)

lemma minute_of_step: "minute_of (t + k * minute_len) = minute_of t + k * minute_len"
  by (simp add: minute_of_index distrib_right)

lemma same_minute:
  assumes "t div minute_len = u div minute_len"
  shows "cron_matches K c t \<longleftrightarrow> cron_matches K c u"
proof -
  have "hour t = hour u" "minute t = minute u" "day_number t = day_number u"
    using time_parts [of t] time_parts [of u] unfolding assms by linarith+
  then show ?thesis by (simp add: cron_matches_def)
qed

lemma truncated: "and_time (day_number t) (3600 * int (hour t) + 60 * int (minute t)) = minute_of t"
proof -
  let ?m = "t div minute_len"
  have "?m mod 1440 mod 60 = ?m mod 60" by (rule mod_mod_cancel) simp
  then have "?m = ?m div 1440 * 1440 + ?m mod 1440 div 60 * 60 + ?m mod 60" 
    using div_mult_mod_eq [of ?m 1440] div_mult_mod_eq [of "?m mod 1440" 60] by linarith
  moreover have "and_time (day_number t) (3600 * int (hour t) + 60 * int (minute t)) =
      (?m div 1440 * 1440 + ?m mod 1440 div 60 * 60 + ?m mod 60) * minute_len"
    unfolding and_time_def time_parts by (simp add: algebra_simps)
  ultimately show ?thesis by (simp add: minute_of_index)
qed

subsection \<open>Cron finds the next matching minute\<close>

lemma cron_search_spec:
  "case cron_search K c limit t of
     Some r \<Rightarrow> \<exists>k \<ge> 0. r = minute_of t + k * minute_len \<and> t + k * minute_len < limit \<and> cron_matches K c r \<and>
       (\<forall>j. 0 \<le> j \<and> j < k \<longrightarrow> \<not> cron_matches K c (minute_of t + j * minute_len))
   | None \<Rightarrow> \<forall>j. 0 \<le> j \<and> t + j * minute_len < limit \<longrightarrow> \<not> cron_matches K c (minute_of t + j * minute_len)"
proof (induction K c limit t rule: cron_search.induct)
  case (1 K c limit t)
  have here: "cron_matches K c (minute_of t) \<longleftrightarrow> cron_matches K c t"
    by (rule same_minute) (simp add: minute_of_index)
  show ?case
  proof (cases "t < limit \<and> \<not> cron_matches K c t")
    case False
    then show ?thesis
      by (subst cron_search.simps) (auto simp: truncated here intro!: exI [of _ 0])
  next
    case True
    have up: "minute_of (t + minute_len) + j * minute_len = minute_of t + (j + 1) * minute_len" for j
      using minute_of_step [of t 1] by (simp add: algebra_simps)
    have miss: "\<not> cron_matches K c (minute_of t + j * minute_len)"
      if "0 \<le> j" "j \<noteq> 0 \<Longrightarrow> \<not> cron_matches K c (minute_of (t + minute_len) + (j - 1) * minute_len)" for j
    proof (cases "j = 0")
      case False
      have "minute_of (t + minute_len) + (j - 1) * minute_len = minute_of t + j * minute_len" using up [of "j - 1"] by (simp only: diff_add_cancel)
      then show ?thesis using that(2) [OF False] by (simp only: not_False_eq_True)
    qed (use True here in simp)
    have "cron_search K c limit t = cron_search K c limit (t + minute_len)" using True by (subst cron_search.simps) simp
    note IH = 1 [OF conjunct1 [OF True] conjunct2 [OF True]] and eq = this
    show ?thesis
    proof (cases "cron_search K c limit (t + minute_len)")
      case None
      then have none: "\<not> cron_matches K c (minute_of (t + minute_len) + i * minute_len)" if "0 \<le> i" "t + minute_len + i * minute_len < limit" for i
        using IH that by simp
      have "\<not> cron_matches K c (minute_of t + j * minute_len)" if "0 \<le> j" "t + j * minute_len < limit" for j
        by (rule miss) (use that in simp, rule none, use that in auto)
      then show ?thesis using eq None by simp
    next
      case (Some r)
      then obtain k where k: "0 \<le> k" "r = minute_of (t + minute_len) + k * minute_len" "t + minute_len + k * minute_len < limit"
          "cron_matches K c r" "\<forall>j. 0 \<le> j \<and> j < k \<longrightarrow> \<not> cron_matches K c (minute_of (t + minute_len) + j * minute_len)"
        using IH by auto
      have "\<not> cron_matches K c (minute_of t + j * minute_len)" if "0 \<le> j" "j < k + 1" for j
        by (rule miss) (use that in simp, rule k(5) [rule_format], use that in auto)
      then show ?thesis using eq Some k(1-4) up [of k] by (auto simp: algebra_simps intro!: exI [of _ "k + 1"])
    qed
  qed
qed

lemma cron_next_spec:
  "case cron_next_after K c after of
     Some r \<Rightarrow> r mod minute_len = 0 \<and> after < r \<and> r \<le> after + 366 * day_len - minute_len \<and> cron_matches K c r \<and>
       (\<forall>t. t mod minute_len = 0 \<and> after < t \<and> t < r \<longrightarrow> \<not> cron_matches K c t)
   | None \<Rightarrow> \<forall>t. t mod minute_len = 0 \<and> after < t \<and> t \<le> after + 366 * day_len - minute_len \<longrightarrow> \<not> cron_matches K c t"
proof -
  let ?s = "after + minute_len" and ?l = "after + 366 * day_len"
  have s: "minute_of ?s = minute_of after + minute_len" using minute_of_step [of after 1] by simp
  have b: "minute_of after \<le> after" "after < minute_of after + minute_len" by (rule minute_of_bounds)+
  have index: "\<exists>j \<ge> 0. t = minute_of ?s + j * minute_len" if "t mod minute_len = 0" "after < t" for t
  proof -
    have m: "t = t div minute_len * minute_len" using that(1) by (metis div_mult_mod_eq add.right_neutral)
    have a: "minute_of after = after div minute_len * minute_len" by (rule minute_of_index)
    have "after div minute_len < t div minute_len" using that(2) m b a by linarith
    then show ?thesis using m a s by (intro exI [of _ "t div minute_len - after div minute_len - 1"]) (simp add: algebra_simps)
  qed
  note spec = cron_search_spec [where K = K and c = c and limit = ?l and t = ?s]
  show ?thesis
  proof (cases "cron_next_after K c after")
    case None
    then have none: "\<not> cron_matches K c (minute_of ?s + i * minute_len)" if "0 \<le> i" "?s + i * minute_len < ?l" for i
      using spec that unfolding cron_next_after_def by auto
    have "\<not> cron_matches K c t" if "t mod minute_len = 0" "after < t" "t \<le> ?l - minute_len" for t
    proof -
      from index [OF that(1,2)] obtain j where j: "0 \<le> j" "t = minute_of ?s + j * minute_len" by blast
      then have "?s + j * minute_len < ?l" using that(3) s b by linarith
      then show ?thesis using none [OF j(1)] j(2) by blast
    qed
    then show ?thesis using None by simp
  next
    case (Some r)
    obtain k where k: "0 \<le> k" "r = minute_of ?s + k * minute_len" "?s + k * minute_len < ?l" "cron_matches K c r"
        "\<forall>j. 0 \<le> j \<and> j < k \<longrightarrow> \<not> cron_matches K c (minute_of ?s + j * minute_len)"
      using spec Some by (auto simp: cron_next_after_def)
    have "r = (?s div minute_len + k) * minute_len" using k(2) minute_of_index [of ?s] by (simp only: distrib_right)
    then have "r mod minute_len = 0" by (simp only: mod_mult_self2_is_0)
    moreover have "after < r" using k(1,2) s b by linarith
    moreover have "r \<le> ?l - minute_len"
    proof -
      have "k + 1 < 527040" using k(3) by linarith
      then show ?thesis using k(2) minute_of_bounds(1) [of ?s] by linarith
    qed
    moreover have "\<not> cron_matches K c t" if "t mod minute_len = 0" "after < t" "t < r" for t
      using index [OF that(1,2)] that(3) k(2,5) by auto
    ultimately show ?thesis using Some k(4) by simp
  qed
qed

text \<open>(C33) The cron search examines the full minutes after \<open>after\<close> up to one minute before \<open>after\<close> plus 366 days.
  It answers the earliest of them that matches the expression, and no answer exactly when none of them
  matches.\<close>

theorem cron_next_is_first_match:
  "case cron_next_after K c after of
     Some r \<Rightarrow> r mod minute_len = 0 \<and> after < r \<and> r \<le> after + 366 * day_len - minute_len \<and> cron_matches K c r \<and>
       (\<forall>t. t mod minute_len = 0 \<and> after < t \<and> t < r \<longrightarrow> \<not> cron_matches K c t)
   | None \<Rightarrow> \<forall>t. t mod minute_len = 0 \<and> after < t \<and> t \<le> after + 366 * day_len - minute_len \<longrightarrow> \<not> cron_matches K c t"
  by (rule cron_next_spec)

text \<open>The last minute is not examined.  Asked at a time that is not a full minute, the search answers nothing
  although the minute 366 days after the current one, which lies within the 366 days, may match: \<open>0 3 28 2 *\<close>
  asked on 28 February 2024 at 03:00:30 misses 28 February 2025 at 03:00.\<close>

theorem cron_misses_last_minute:
  assumes "after mod minute_len \<noteq> 0" and "t = minute_of after + 366 * day_len" and "cron_matches K c t"
    and "\<forall>u. u mod minute_len = 0 \<and> after < u \<and> u < t \<longrightarrow> \<not> cron_matches K c u"
  shows "cron_next_after K c after = None \<and> t mod minute_len = 0 \<and> after < t \<and> t < after + 366 * day_len"
proof -
  have b: "minute_of after \<le> after" "after < minute_of after + minute_len" by (rule minute_of_bounds)+
  have "t = (after div minute_len + 527040) * minute_len" using assms(2) minute_of_index [of after] by simp
  then have m: "t mod minute_len = 0" by (simp only: mod_mult_self2_is_0)
  have "minute_of after < after" using assms(1) minute_of_def [of after] pos_mod_sign [of minute_len after] by linarith
  then have t: "after < t" "t < after + 366 * day_len" using assms(2) b by linarith+
  have "cron_next_after K c after = None"
  proof (rule ccontr)
    assume "cron_next_after K c after \<noteq> None"
    then obtain r where r: "cron_next_after K c after = Some r" by blast
    have "r mod minute_len = 0" "after < r" "r \<le> after + 366 * day_len - minute_len" "cron_matches K c r"
      using cron_next_spec [where K = K and c = c and after = after, unfolded r option.case] by blast+
    moreover have "r < t" using calculation(3) b(2) assms(2) by linarith
    ultimately show False using assms(4) by metis
  qed
  then show ?thesis using m t by blast
qed

subsection \<open>The next run lies in the future\<close>

text \<open>What the code relies on of \<open>chrono\<close>: a date made from year, month and day has that year, month
  and day, and a later month has later days.\<close>

definition calendar_ok :: "calendar \<Rightarrow> bool" where
  "calendar_ok K \<longleftrightarrow> (\<forall>y m d n. cal_from_ymd_opt K y m d = Some n \<longrightarrow> cal_ymd K n = (y, m, d)) \<and>
     (\<forall>a b y m d y' m' d'. cal_ymd K a = (y, m, d) \<and> cal_ymd K b = (y', m', d') \<and> (y < y' \<or> y = y' \<and> m < m') \<longrightarrow> a < b)"

lemma parse_time_bounds: "parse_time_of_day x = Some time \<Longrightarrow> 0 \<le> time \<and> time < 86400"
  by (auto simp: parse_time_of_day_def split: list.split_asm option.split_asm if_split_asm)

lemma schedule_time_bounds: "schedule_time s = Some time \<Longrightarrow> 0 \<le> time \<and> time < 86400"
  using parse_time_bounds by (auto simp: schedule_time_def bind_eq_Some_conv)

lemma calendar_mono:
  "calendar_ok K \<Longrightarrow> cal_ymd K a = (y, m, d) \<Longrightarrow> cal_ymd K b = (y', m', d') \<Longrightarrow> y < y' \<or> y = y' \<and> m < m' \<Longrightarrow> a < b"
  unfolding calendar_ok_def by blast

lemma in_day: "day_number t * day_len \<le> t" "t < (day_number t + 1) * day_len"
  using div_mult_mod_eq [of t day_len] pos_mod_bound [of day_len t] pos_mod_sign [of day_len t]
  by (simp_all only: day_number_def distrib_right) simp_all

lemma later_day: "day_number now < day \<Longrightarrow> 0 \<le> secs \<Longrightarrow> now < and_time day secs"
  using in_day(2) [of now] by (simp add: and_time_def)

lemma next_daily_future: "next_daily s now = Some t \<Longrightarrow> now < t"
  using in_day(2) [of now] schedule_time_bounds [of s]
  by (auto simp: next_daily_def and_time_def Let_def split: option.splits if_splits)

lemma next_weekly_future:
  assumes "next_weekly K s now = Some t"
  shows "now < t"
proof -
  obtain dow time where d: "sc_day_of_week s = Some dow" "schedule_time s = Some time" "\<not> dow > 6"
    using assms by (auto simp: next_weekly_def split: option.splits if_splits)
  define k where "k = (int (if dow = 0 then 6 else dow - 1) - int (cal_days_from_monday K (day_number now)) + 7) mod 7"
  let ?target = "and_time (day_number now + k) time"
  have "t = (if ?target > now then ?target else ?target + 7 * day_len)"
    using assms d unfolding next_weekly_def Let_def k_def by simp
  moreover have "0 \<le> k" by (simp add: k_def)
  ultimately show ?thesis using in_day(2) [of now] schedule_time_bounds [OF d(2)] by (auto simp: and_time_def)
qed

lemma next_monthly_future:
  assumes "calendar_ok K" and "next_monthly K s now = Some t"
  shows "now < t"
proof (rule ccontr)
  assume late: "\<not> now < t"
  obtain y m d where ymd: "cal_ymd K (day_number now) = (y, m, d)" by (cases "cal_ymd K (day_number now)") auto
  obtain time day dm where n: "schedule_time s = Some time" "t = and_time day time"
      "cal_from_ymd_opt K (if m = 12 then y + 1 else y) (if m = 12 then 1 else m + 1) dm = Some day"
    using assms(2) late ymd by (auto simp: next_monthly_def Let_def split: option.splits if_splits)
  have "cal_ymd K day = (if m = 12 then y + 1 else y, if m = 12 then 1 else m + 1, dm)" using assms(1) n(3) by (auto simp: calendar_ok_def)
  then have "day_number now < day" by (rule calendar_mono [OF assms(1) ymd]) auto
  then show False using later_day schedule_time_bounds [OF n(1)] n(2) late by blast
qed

text \<open>Whatever the kind of schedule, a next run that is computed lies strictly after the current time, so
  a run is never repeated for the same due time; the only exception is an interval of zero seconds.\<close>

theorem next_run_is_in_future:
  assumes "calendar_ok K" and "compute_next_run K s now = Some t" and "sc_mode s = Interval \<Longrightarrow> sc_interval s \<noteq> Some 0"
  shows "now < t \<and> \<not> should_run_now (update_after_run K s now) now \<and> should_run_now (update_after_run K s now) t"
proof -
  have "now < t"
  proof (cases "sc_mode s")
    case Interval
    then obtain secs where "sc_interval s = Some secs" "secs \<noteq> 0" "t = now + uint secs * second" using assms(2,3) by (auto simp: next_interval_def)
    moreover have "0 < uint secs" using \<open>secs \<noteq> 0\<close> by (metis uint_0_iff uint_ge_0 order_le_less)
    ultimately show ?thesis by simp
  next
    case Cron
    then obtain c where "cron_next_after K c now = Some t" using assms(2) by (auto simp: next_cron_def split: option.splits)
    then obtain k where "0 \<le> k" "t = minute_of (now + minute_len) + k * minute_len"
      using cron_search_spec [where K = K and c = c and limit = "now + 366 * day_len" and t = "now + minute_len"] by (auto simp: cron_next_after_def)
    then show ?thesis using minute_of_bounds(2) [of "now + minute_len"] by linarith
  qed (use assms next_daily_future next_weekly_future next_monthly_future in auto)
  then show ?thesis using assms(2) by (simp add: update_after_run_def should_run_now_def)
qed

text \<open>A monthly schedule stops for good: when the day of the month does not exist in the current month, or has passed
  and does not exist in the next one, updating the schedule after a run clears the next run, and no
  later time ever makes it due.\<close>

theorem monthly_schedule_stops:
  assumes "sc_mode s = Monthly" and "sc_day_of_month s = Some dm" and "cal_ymd K (day_number now) = (y, m, d)"
    and "cal_from_ymd_opt K y m dm = None \<or>
      cal_from_ymd_opt K (if m = 12 then y + 1 else y) (if m = 12 then 1 else m + 1) dm = None \<and>
      (\<forall>day time. cal_from_ymd_opt K y m dm = Some day \<and> schedule_time s = Some time \<longrightarrow> and_time day time \<le> now)"
  shows "sc_next_run_at (update_after_run K s now) = None \<and>
    (\<forall>later. \<not> should_run_now (update_after_run K s now) later \<and> handle_missed (update_after_run K s now) later = None)"
proof -
  have "next_monthly K s now = None" using assms(2-4) by (auto simp: next_monthly_def Let_def split: option.splits)
  then show ?thesis using assms(1) by (simp add: update_after_run_def should_run_now_def handle_missed_def)
qed

subsection \<open>An example\<close>

text \<open>A calendar without leap years whose day 0 is the first of January of year 0, a Monday.\<close>

definition month_starts :: "nat list" where
  "month_starts = [0, 31, 59, 90, 120, 151, 181, 212, 243, 273, 304, 334, 365]"

definition month_of :: "nat \<Rightarrow> nat" where
  "month_of r = length (takeWhile (\<lambda>c. c \<le> r) month_starts)"

definition plain_calendar :: calendar where
  "plain_calendar = \<lparr>
     cal_ymd = (\<lambda>n. let r = nat (n mod 365); m = month_of r in (n div 365, m, r - month_starts ! (m - 1) + 1)),
     cal_from_ymd_opt = (\<lambda>y m d. if 1 \<le> m \<and> m \<le> 12 \<and> 1 \<le> d \<and> month_starts ! (m - 1) + d \<le> month_starts ! m
        then Some (365 * y + int (month_starts ! (m - 1) + d - 1)) else None),
     cal_days_from_monday = (\<lambda>n. nat (n mod 7))\<rparr>"

lemma month_of_mono: "r \<le> r' \<Longrightarrow> month_of r \<le> month_of r'"
proof -
  assume "r \<le> r'"
  then have "length (takeWhile (\<lambda>c. c \<le> r) xs) \<le> length (takeWhile (\<lambda>c. c \<le> r') xs)" for xs :: "nat list" by (induction xs) auto
  then show ?thesis by (simp add: month_of_def)
qed

lemma plain_calendar_months:
  "\<forall>m \<in> set [1..<13]. \<forall>d \<in> set [1..<32]. month_starts ! (m - 1) + d \<le> month_starts ! m \<longrightarrow>
     month_starts ! (m - 1) + d - 1 < 365 \<and> month_of (month_starts ! (m - 1) + d - 1) = m"
  by code_simp

lemma month_starts_less: "\<forall>m \<in> set [1..<13]. month_starts ! m \<le> month_starts ! (m - 1) + 31"
  by code_simp

lemma plain_calendar_ok: "calendar_ok plain_calendar"
  unfolding calendar_ok_def
proof (intro conjI allI impI)
  fix y m d n assume a: "cal_from_ymd_opt plain_calendar y m d = Some n"
  then have m: "m \<in> set [1..<13]" "1 \<le> d" "month_starts ! (m - 1) + d \<le> month_starts ! m"
      "n = 365 * y + int (month_starts ! (m - 1) + d - 1)"
    by (auto simp: plain_calendar_def split: if_splits)
  let ?r = "month_starts ! (m - 1) + d - 1"
  have "d \<in> set [1..<32]" using m month_starts_less by fastforce
  then have r: "?r < 365" "month_of ?r = m" using plain_calendar_months m by blast+
  have "n div 365 = y" "nat (n mod 365) = ?r" using m(4) r(1) by auto
  moreover have "?r - month_starts ! (m - 1) + 1 = d" using m(2) by simp
  ultimately show "cal_ymd plain_calendar n = (y, m, d)" unfolding plain_calendar_def by (simp only: calendar.simps Let_def r(2))
next
  fix a b y m d y' m' d'
  assume *: "cal_ymd plain_calendar a = (y, m, d) \<and> cal_ymd plain_calendar b = (y', m', d') \<and> (y < y' \<or> y = y' \<and> m < m')"
  then have e: "y = a div 365" "y' = b div 365" "m = month_of (nat (a mod 365))" "m' = month_of (nat (b mod 365))"
    by (auto simp: plain_calendar_def Let_def)
  show "a < b"
  proof (rule ccontr)
    assume "\<not> a < b"
    then have "b div 365 \<le> a div 365" by (simp add: zdiv_mono1)
    then have "a div 365 = b div 365" "m < m'" using * e by auto
    moreover have "b mod 365 \<le> a mod 365" using \<open>\<not> a < b\<close> calculation(1) div_mult_mod_eq [of a 365] div_mult_mod_eq [of b 365] by linarith
    then have "m' \<le> m" using e month_of_mono nat_mono by simp
    ultimately show False by simp
  qed
qed

abbreviation at :: "int \<Rightarrow> int \<Rightarrow> int \<Rightarrow> timestamp" where
  "at day h m \<equiv> and_time day (3600 * h + 60 * m)"

definition on_the_31st :: schedule where
  "on_the_31st = (create_schedule [1] Monthly)\<lparr>sc_day_of_month := Some 31, sc_time_of_day := Some ''03:30''\<rparr>"

lemma on_the_31st_time: "schedule_time on_the_31st = Some (3600 * 3 + 60 * 30)"
  by (simp add: on_the_31st_def create_schedule_def schedule_time_def parse_time_of_day_def parse_uint_def)

text \<open>On 15 January the next run is on the 31st; on the 31st, after the run, there is none.\<close>

theorem next_run_is_in_future_witness:
  "compute_next_run plain_calendar on_the_31st (at 14 12 0) = Some (at 30 3 30) \<and> at 14 12 0 < at 30 3 30 \<and>
   should_run_now (update_after_run plain_calendar on_the_31st (at 14 12 0)) (at 30 3 30)"
proof -
  have d: "sc_day_of_month on_the_31st = Some 31" "cal_ymd plain_calendar (day_number (at 14 12 0)) = (0, Suc 0, 15)"
      "cal_from_ymd_opt plain_calendar 0 (Suc 0) 31 = Some 30" "at 14 12 0 < at 30 3 30" by code_simp+
  then have "next_monthly plain_calendar on_the_31st (at 14 12 0) = Some (at 30 3 30)"
    unfolding next_monthly_def on_the_31st_time by (simp add: Let_def)
  moreover have m: "sc_mode on_the_31st = Monthly" by code_simp
  ultimately have "compute_next_run plain_calendar on_the_31st (at 14 12 0) = Some (at 30 3 30)" by simp
  moreover have "sc_mode on_the_31st \<noteq> Interval" using m by simp
  ultimately show ?thesis using next_run_is_in_future [OF plain_calendar_ok, of on_the_31st "at 14 12 0" "at 30 3 30"] by blast
qed

theorem monthly_schedule_stops_witness:
  "sc_next_run_at (update_after_run plain_calendar on_the_31st (at 30 3 30)) = None \<and>
   (\<forall>later. \<not> should_run_now (update_after_run plain_calendar on_the_31st (at 30 3 30)) later)"
proof -
  have "sc_mode on_the_31st = Monthly" "sc_day_of_month on_the_31st = Some 31"
      "cal_ymd plain_calendar (day_number (at 30 3 30)) = (0, Suc 0, 31)"
      "cal_from_ymd_opt plain_calendar 0 (Suc (Suc 0)) 31 = None" "cal_from_ymd_opt plain_calendar 0 (Suc 0) 31 = Some 30" by code_simp+
  then show ?thesis using on_the_31st_time monthly_schedule_stops [of on_the_31st 31 plain_calendar "at 30 3 30" 0 "Suc 0" 31] by simp
qed

text \<open>Every fifteen minutes of the night hours, asked at seven seconds past 23:50.\<close>

theorem cron_next_is_first_match_witness:
  "\<exists>c. cron_parse ''*/15 0-5 * * *'' = Some c \<and> cron_next_after plain_calendar c (at 14 23 50 + 7 * second) = Some (at 15 0 0) \<and>
     cron_matches plain_calendar c (at 15 0 0) \<and> \<not> cron_matches plain_calendar c (at 14 23 55)"
proof -
  define c where "c = the (cron_parse ''*/15 0-5 * * *'')"
  have c: "cron_parse ''*/15 0-5 * * *'' = Some c" unfolding c_def by code_simp
  have n: "cron_next_after plain_calendar c (at 14 23 50 + 7 * second) = Some (at 15 0 0)" unfolding c_def by code_simp
  have "(at 14 23 55) mod minute_len = 0" "at 14 23 50 + 7 * second < at 14 23 55" "at 14 23 55 < at 15 0 0" by code_simp+
  then show ?thesis using cron_next_is_first_match [where K = plain_calendar and c = c and after = "at 14 23 50 + 7 * second", unfolded n option.case] c n by auto
qed

subsection \<open>What the cron parser yields\<close>

definition field_ok :: "nat \<Rightarrow> nat \<Rightarrow> nat list \<Rightarrow> bool" where
  "field_ok lo hi vs \<longleftrightarrow> vs \<noteq> [] \<and> sorted_wrt (<) vs \<and> (\<forall>v \<in> set vs. lo \<le> v \<and> v \<le> hi)"

lemma parse_parts_range: "parse_parts lo hi parts = Some vs \<Longrightarrow> v \<in> set vs \<Longrightarrow> lo \<le> v \<and> v \<le> hi"
  by (induction lo hi parts arbitrary: vs rule: parse_parts.induct)
    (auto simp: Let_def in_range_def split: if_splits option.splits)

lemma sorted_dedup: "sorted xs \<Longrightarrow> sorted_wrt (<) (remdups_adj xs)"
  by (induction xs rule: remdups_adj.induct) (auto simp: order_less_le)

lemma parse_field_ok:
  assumes "parse_field f lo hi = Some vs" and "lo \<le> hi"
  shows "field_ok lo hi vs"
proof -
  have up: "sorted_wrt (<) (filter P [lo..<Suc hi])" for P using sorted_wrt_filter [OF sorted_wrt_upt] .
  consider "vs = [lo..<Suc hi]" | step where "vs = filter (\<lambda>v. (v - lo) mod step = 0) [lo..<Suc hi]"
    | result where "parse_parts lo hi (split_on (CHR '','') f) = Some result" "result \<noteq> []" "vs = remdups_adj (sort result)"
    using assms(1) by (auto simp: parse_field_def simp del: upt_Suc filter.simps split: if_splits option.splits)
  then show ?thesis
  proof cases
    case 1
    then show ?thesis using up [of "\<lambda>_. True"] assms(2) by (auto simp: field_ok_def)
  next
    case 2
    have "lo \<in> set vs" unfolding 2 set_filter using assms(2) by (simp del: upt_Suc)
    then have "vs \<noteq> []" by auto
    then show ?thesis using up unfolding 2 field_ok_def by (simp del: upt_Suc filter.simps)
  next
    case 3
    then have "sort result \<noteq> []" by (metis set_empty set_sort)
    then show ?thesis using 3(3) parse_parts_range [OF 3(1)] sorted_dedup [of "sort result"] by (auto simp: field_ok_def)
  qed
qed

text \<open>(C35) A cron expression that parses has five fields, each a non-empty, strictly increasing list of values within the
  range of its field.\<close>

theorem cron_fields_well_formed:
  assumes "cron_parse s = Some c"
  shows "length (split_whitespace s) = 5 \<and> field_ok 0 59 (cn_minutes c) \<and> field_ok 0 23 (cn_hours c) \<and>
    field_ok 1 31 (cn_days_of_month c) \<and> field_ok 1 12 (cn_months c) \<and> field_ok 0 6 (cn_days_of_week c)"
  using assms by (auto simp: cron_parse_def intro!: parse_field_ok split: list.splits option.splits)

theorem cron_fields_well_formed_witness:
  "\<exists>c. cron_parse ''5,3-4,3 */12 31 2 *'' = Some c \<and> cn_minutes c = [3, 4, 5] \<and> field_ok 0 59 (cn_minutes c)"
proof -
  have "map_option cn_minutes (cron_parse ''5,3-4,3 */12 31 2 *'') = Some [3, 4, 5]" by code_simp
  then obtain c where "cron_parse ''5,3-4,3 */12 31 2 *'' = Some c" "cn_minutes c = [3, 4, 5]" by auto
  then show ?thesis using cron_fields_well_formed [of "''5,3-4,3 */12 31 2 *''" c] by blast
qed

end
