(* ===== verification/Agent_Retention.thy ===== *)
theory Agent_Retention
  imports Agent_Repo Agent_Schedule "HOL-Library.Multiset"
begin

text \<open>
  Retention (\<open>hbx-retention\<close>): which versions a policy keeps (\<open>executor.rs\<close>) and the
  cleanup that reclaims the chunks of the others (\<open>cleanup.rs\<close>).

  Sets of identifiers that are only tested are HOL sets; the set of orphaned chunks,
  which is iterated, is a distinct list in an arbitrary order.  The clock is an
  argument, dates come from the \<open>calendar\<close> of \<open>Agent_Schedule\<close>.

  \<open>prunable_repository\<close> extends the repository interface by what the cleanup relies on;
  the local repository interprets it.
\<close>

subsection \<open>Policies\<close>

datatype retention_mode = KeepAll | KeepLastN | TimeBased | Gfs | Smart

record gfs_config =
  gf_daily :: u32
  gf_weekly :: u32
  gf_monthly :: u32

record smart_rules =
  sr_min_versions :: u32
  sr_max_age_days :: u32
  sr_prefer_first_and_last_of_day :: bool

record retention_policy =
  rp_policy_id :: uuid
  rp_mode :: retention_mode
  rp_keep_last_n :: "u32 option"
  rp_time_based_retention :: "int option"
  rp_gfs_config :: "gfs_config option"
  rp_smart_rules :: "smart_rules option"

record retention_decision =
  rd_keep :: "uuid list"
  rd_delete :: "uuid list"

datatype retention_error = InvalidPolicy string

subsection \<open>Choosing versions\<close>

text \<open>\<open>entry(key).or_insert(v)\<close> for one version after the other.\<close>

fun first_of_each :: "(version_summary \<Rightarrow> 'k) \<Rightarrow> version_summary list \<Rightarrow> ('k, uuid) hmap \<Rightarrow> ('k, uuid) hmap" where
  "first_of_each key [] m = m"
| "first_of_each key (v # vs) m = first_of_each key vs
     (if map_of m (key v) = None then AList.update (key v) (vs_version_id v) m else m)"

definition select :: "(version_summary \<Rightarrow> 'k) \<Rightarrow> ('k \<Rightarrow> bool) \<Rightarrow> version_summary list \<Rightarrow> uuid set" where
  "select key recent vs = set (map snd (filter (\<lambda>(k, _). recent k) (first_of_each key vs [])))"

definition week_number :: "timestamp \<Rightarrow> int" where
  "week_number t = (let d = day_number t in if d \<ge> 0 then d div 7 else - ((- d) div 7))"

definition year_month :: "calendar \<Rightarrow> timestamp \<Rightarrow> int \<times> nat" where
  "year_month K t = (case cal_ymd K (day_number t) of (y, m, _) \<Rightarrow> (y, m))"

definition months :: "int \<times> nat \<Rightarrow> int" where
  "months ym = fst ym * 12 + (int (snd ym) - 1)"

definition select_daily :: "version_summary list \<Rightarrow> nat \<Rightarrow> timestamp \<Rightarrow> uuid set" where
  "select_daily vs keep_days now =
     (if keep_days = 0 then {}
      else select (day_number \<circ> vs_timestamp) (\<lambda>day. day > day_number now - int keep_days) vs)"

definition select_weekly :: "version_summary list \<Rightarrow> nat \<Rightarrow> timestamp \<Rightarrow> uuid set" where
  "select_weekly vs keep_weeks now =
     (if keep_weeks = 0 then {}
      else select (week_number \<circ> vs_timestamp) (\<lambda>week. week > week_number now - int keep_weeks) vs)"

definition select_monthly :: "calendar \<Rightarrow> version_summary list \<Rightarrow> nat \<Rightarrow> timestamp \<Rightarrow> uuid set" where
  "select_monthly K vs keep_months now =
     (if keep_months = 0 then {}
      else select (year_month K \<circ> vs_timestamp) (\<lambda>ym. months ym > months (year_month K now) - int keep_months) vs)"

definition compute_keep_all :: "version_summary list \<Rightarrow> uuid set" where
  "compute_keep_all vs = set (map vs_version_id vs)"

definition compute_keep_last_n :: "version_summary list \<Rightarrow> retention_policy \<Rightarrow> retention_error + uuid set" where
  "compute_keep_last_n vs p = (case rp_keep_last_n p of
     None \<Rightarrow> Inl (InvalidPolicy ''keep_last_n not set'')
   | Some n \<Rightarrow> Inr (set (map vs_version_id (take (unat n) vs))))"

definition compute_time_based :: "timestamp \<Rightarrow> version_summary list \<Rightarrow> retention_policy \<Rightarrow> retention_error + uuid set" where
  "compute_time_based now vs p = (case rp_time_based_retention p of
     None \<Rightarrow> Inl (InvalidPolicy ''time_based_retention not set'')
   | Some d \<Rightarrow> Inr (set (map vs_version_id (filter (\<lambda>v. vs_timestamp v \<ge> now - d) vs))))"

definition compute_gfs :: "calendar \<Rightarrow> timestamp \<Rightarrow> version_summary list \<Rightarrow> retention_policy \<Rightarrow> retention_error + uuid set" where
  "compute_gfs K now vs p = (case rp_gfs_config p of
     None \<Rightarrow> Inl (InvalidPolicy ''gfs_config not set'')
   | Some g \<Rightarrow> Inr (select_daily vs (unat (gf_daily g)) now \<union> select_weekly vs (unat (gf_weekly g)) now \<union>
       select_monthly K vs (unat (gf_monthly g)) now))"

definition of_day :: "version_summary list \<Rightarrow> int \<Rightarrow> version_summary list" where
  "of_day vs day = filter (\<lambda>v. day_number (vs_timestamp v) = day) vs"

definition compute_smart :: "timestamp \<Rightarrow> version_summary list \<Rightarrow> retention_policy \<Rightarrow> retention_error + uuid set" where
  "compute_smart now vs p = (case rp_smart_rules p of
     None \<Rightarrow> Inl (InvalidPolicy ''smart_rules not set'')
   | Some r \<Rightarrow>
       let newest = map vs_version_id (take (unat (sr_min_versions r)) vs);
           young = map vs_version_id (filter (\<lambda>v. vs_timestamp v \<ge> now - int (unat (sr_max_age_days r)) * day_len) vs);
           days = remdups (map (day_number \<circ> vs_timestamp) vs);
           ends = (if sr_prefer_first_and_last_of_day r
             then concat (map (\<lambda>day. [vs_version_id (last (of_day vs day)), vs_version_id (hd (of_day vs day))]) days) else [])
       in Inr (set newest \<union> set young \<union> set ends))"

definition keep_ids :: "calendar \<Rightarrow> timestamp \<Rightarrow> version_summary list \<Rightarrow> retention_policy \<Rightarrow> retention_error + uuid set" where
  "keep_ids K now vs p = (case rp_mode p of
     KeepAll \<Rightarrow> Inr (compute_keep_all vs)
   | KeepLastN \<Rightarrow> compute_keep_last_n vs p
   | TimeBased \<Rightarrow> compute_time_based now vs p
   | Gfs \<Rightarrow> compute_gfs K now vs p
   | Smart \<Rightarrow> compute_smart now vs p)"

definition retention_compute :: "calendar \<Rightarrow> timestamp \<Rightarrow> version_summary list \<Rightarrow> retention_policy \<Rightarrow> retention_error + retention_decision" where
  "retention_compute K now versions p =
     (let sorted = sort_key (\<lambda>v. - vs_timestamp v) versions in
      case keep_ids K now sorted p of
        Inl e \<Rightarrow> Inl e
      | Inr keep \<Rightarrow> Inr \<lparr>rd_keep = map vs_version_id (filter (\<lambda>v. vs_version_id v \<in> keep) sorted),
          rd_delete = map vs_version_id (filter (\<lambda>v. vs_version_id v \<notin> keep) sorted)\<rparr>)"

subsection \<open>Cleanup\<close>

datatype cleanup_phase = NotStarted | Phase1DeletingVersions | Phase2ReclaimingChunks | Completed

record cleanup_progress =
  cg_cleanup_id :: uuid
  cg_phase :: cleanup_phase
  cg_versions_deleted :: u32
  cg_chunks_reclaimed :: u32
  cg_started_at :: timestamp
  cg_updated_at :: timestamp

definition cleanup_progress_new :: "uuid \<Rightarrow> timestamp \<Rightarrow> cleanup_progress" where
  "cleanup_progress_new fresh now = \<lparr>cg_cleanup_id = fresh, cg_phase = NotStarted, cg_versions_deleted = 0,
     cg_chunks_reclaimed = 0, cg_started_at = now, cg_updated_at = now\<rparr>"

definition set_phase :: "timestamp \<Rightarrow> cleanup_phase \<Rightarrow> cleanup_progress \<Rightarrow> cleanup_progress" where
  "set_phase now ph g = g\<lparr>cg_phase := ph, cg_updated_at := now\<rparr>"

record cleanup_result =
  ct_deleted_versions :: "uuid list"
  ct_reclaimed_chunks :: "chunk_hash list"
  ct_skipped_in_use :: "uuid list"

text \<open>The chunks the readable manifests among \<open>vids\<close> refer to.\<close>

fun chunks_of :: "'r backup_repository \<Rightarrow> uuid list \<Rightarrow> chunk_hash list \<Rightarrow> 'r \<Rightarrow> chunk_hash list \<times> 'r" where
  "chunks_of R [] acc r = (acc, r)"
| "chunks_of R (v # vs) acc r = (case br_read_manifest R v r of
     (Inr m, r) \<Rightarrow> chunks_of R vs (fold List.insert (map cr_hash (am_chunk_refs m)) acc) r
   | (Inl _, r) \<Rightarrow> chunks_of R vs acc r)"

fun reclaim :: "'r backup_repository \<Rightarrow> chunk_hash list \<Rightarrow> 'r \<Rightarrow> chunk_hash list \<times> 'r" where
  "reclaim R [] r = ([], r)"
| "reclaim R (h # hs) r = (case br_find_chunk R h r of
     (Inl _, r) \<Rightarrow> reclaim R hs r
   | (Inr l, r) \<Rightarrow> (case br_delete_chunk R l r of
       (Inl _, r) \<Rightarrow> reclaim R hs r
     | (Inr _, r) \<Rightarrow> (case reclaim R hs r of (done, r) \<Rightarrow> (h # done, r))))"

definition execute_with_progress ::
  "'r backup_repository \<Rightarrow> timestamp \<Rightarrow> uuid set \<Rightarrow> retention_decision \<Rightarrow> cleanup_progress \<Rightarrow> 'r \<Rightarrow>
   (repo_error + cleanup_result) \<times> cleanup_progress \<times> 'r" where
  "execute_with_progress R now in_use d g r =
     (case br_acquire_lock R LkCompact 300 r of
        (Inl e, r) \<Rightarrow> (Inl (ReFailed ''lock error''), g, r)
      | (Inr _, r) \<Rightarrow>
          let skipped = filter (\<lambda>v. v \<in> in_use) (rd_delete d); to_delete = filter (\<lambda>v. v \<notin> in_use) (rd_delete d);
              g = set_phase now Phase1DeletingVersions g in
          case chunks_of R to_delete [] r of (chunks_in_deleted, r) \<Rightarrow>
          case chunks_of R (rd_keep d) [] r of (remaining_chunks, r) \<Rightarrow>
          let orphaned = filter (\<lambda>h. h \<notin> set remaining_chunks) chunks_in_deleted;
              g = set_phase now Phase2ReclaimingChunks (g\<lparr>cg_versions_deleted := of_nat (length to_delete)\<rparr>) in
          case reclaim R orphaned r of (reclaimed, r) \<Rightarrow>
          (Inr \<lparr>ct_deleted_versions = to_delete, ct_reclaimed_chunks = reclaimed, ct_skipped_in_use = skipped\<rparr>,
           set_phase now Completed (g\<lparr>cg_chunks_reclaimed := of_nat (length reclaimed)\<rparr>), r))"

definition cleanup_execute ::
  "'r backup_repository \<Rightarrow> uuid \<Rightarrow> timestamp \<Rightarrow> uuid set \<Rightarrow> retention_decision \<Rightarrow> 'r \<Rightarrow> (repo_error + cleanup_result) \<times> 'r" where
  "cleanup_execute R fresh now in_use d r =
     (case execute_with_progress R now in_use d (cleanup_progress_new fresh now) r of (res, g, r) \<Rightarrow> (res, r))"

subsection \<open>What the policies keep\<close>

lemma first_of_each_lookup:
  "map_of (first_of_each key vs m) k = (case map_of m k of Some x \<Rightarrow> Some x
     | None \<Rightarrow> map_option vs_version_id (find (\<lambda>v. key v = k) vs))"
  by (induction key vs m rule: first_of_each.induct) (auto simp: hmap_simps split: option.splits)

lemma first_of_each_distinct: "distinct (keys m) \<Longrightarrow> distinct (keys (first_of_each key vs m))"
  by (induction key vs m rule: first_of_each.induct) auto

lemma select_iff:
  "i \<in> select key recent vs \<longleftrightarrow> (\<exists>v. recent (key v) \<and> find (\<lambda>u. key u = key v) vs = Some v \<and> i = vs_version_id v)"
proof -
  let ?m = "first_of_each key vs []"
  have "distinct (keys ?m)" by (rule first_of_each_distinct) simp
  then have "(k, x) \<in> set ?m \<longleftrightarrow> map_option vs_version_id (find (\<lambda>v. key v = k) vs) = Some x" for k x
    using map_of_eq_Some_iff [of ?m k x] first_of_each_lookup [of key vs "[]" k] by simp
  then have "i \<in> select key recent vs \<longleftrightarrow> (\<exists>k v. recent k \<and> find (\<lambda>v. key v = k) vs = Some v \<and> i = vs_version_id v)"
    unfolding select_def by (auto simp: image_iff split: prod.splits)
  moreover have "find (\<lambda>v. key v = k) vs = Some v \<Longrightarrow> key v = k" for k v by (auto simp: find_Some_iff)
  ultimately show ?thesis by metis
qed

definition newest_first :: "version_summary list \<Rightarrow> version_summary list" where
  "newest_first vs = sort_key (\<lambda>v. - vs_timestamp v) vs"

lemma newest_first_simps [simp]: "set (newest_first vs) = set vs" "length (newest_first vs) = length vs"
  by (simp_all add: newest_first_def)

lemma newest_first_sorted: "sorted_wrt (\<lambda>u v. vs_timestamp v \<le> vs_timestamp u) (newest_first vs)"
proof -
  have "sorted (map (\<lambda>v. - vs_timestamp v) (newest_first vs))" by (simp add: newest_first_def)
  then show ?thesis by (simp add: sorted_wrt_map)
qed

text \<open>The newest version of each period the policy still covers, and nothing else.\<close>

definition newest_of_period :: "(version_summary \<Rightarrow> 'k) \<Rightarrow> version_summary list \<Rightarrow> version_summary \<Rightarrow> bool" where
  "newest_of_period key vs v \<longleftrightarrow> (\<forall>u \<in> set vs. key u = key v \<longrightarrow> vs_timestamp u \<le> vs_timestamp v)"

lemma find_newest:
  assumes "find P (newest_first vs) = Some v"
  shows "v \<in> set vs" "P v" "\<forall>u \<in> set vs. P u \<longrightarrow> vs_timestamp u \<le> vs_timestamp v"
proof -
  obtain i where i: "i < length vs" "P (newest_first vs ! i)" "v = newest_first vs ! i" "\<forall>j < i. \<not> P (newest_first vs ! j)"
    using assms by (auto simp: find_Some_iff)
  show "v \<in> set vs" "P v" using i nth_mem [of i "newest_first vs"] by simp_all
  show "\<forall>u \<in> set vs. P u \<longrightarrow> vs_timestamp u \<le> vs_timestamp v"
  proof (intro ballI impI)
    fix u assume "u \<in> set vs" "P u"
    then obtain j where j: "j < length vs" "u = newest_first vs ! j" by (metis in_set_conv_nth newest_first_simps)
    then have "i \<le> j" using i(4) \<open>P u\<close> by (meson not_le)
    then show "vs_timestamp u \<le> vs_timestamp v"
      using sorted_wrt_nth_less [OF newest_first_sorted [of vs], of i j] i(1,3) j by (cases "i = j") auto
  qed
qed

lemma select_newest: "i \<in> select key recent (newest_first vs) \<Longrightarrow>
    \<exists>v \<in> set vs. i = vs_version_id v \<and> recent (key v) \<and> newest_of_period key vs v"
  unfolding select_iff newest_of_period_def using find_newest [of _ vs] by (metis (mono_tags, lifting))

lemma select_covers: "v \<in> set vs \<Longrightarrow> recent (key v) \<Longrightarrow>
    \<exists>u \<in> set vs. vs_version_id u \<in> select key recent (newest_first vs) \<and> key u = key v \<and> vs_timestamp v \<le> vs_timestamp u"
proof -
  assume v: "v \<in> set vs" "recent (key v)"
  then obtain u where u: "find (\<lambda>u. key u = key v) (newest_first vs) = Some u"
    by (metis (mono_tags, lifting) find_None_iff newest_first_simps(1) not_Some_eq)
  have "vs_version_id u \<in> select key recent (newest_first vs)"
    unfolding select_iff using u find_newest(2) [OF u] v(2) by (intro exI [of _ u]) simp
  then show ?thesis using find_newest [OF u] v by blast
qed

lemma mset_split: "mset (map f (filter P xs)) + mset (map f (filter (\<lambda>x. \<not> P x) xs)) = mset (map f xs)"
  by (induction xs) auto

lemma retention_partition:
  assumes "retention_compute K now versions p = Inr d"
  shows "mset (rd_keep d) + mset (rd_delete d) = mset (map vs_version_id versions)"
proof -
  obtain keep where "rd_keep d = map vs_version_id (filter (\<lambda>v. vs_version_id v \<in> keep) (newest_first versions))"
      "rd_delete d = map vs_version_id (filter (\<lambda>v. \<not> vs_version_id v \<in> keep) (newest_first versions))"
    using assms by (auto simp: retention_compute_def Let_def newest_first_def split: sum.splits)
  then have "mset (rd_keep d) + mset (rd_delete d) = mset (map vs_version_id (newest_first versions))" by (simp only: mset_split)
  then show ?thesis by (simp add: newest_first_def)
qed

lemma retention_keep:
  assumes "retention_compute K now versions p = Inr d"
  shows "\<exists>keep. keep_ids K now (newest_first versions) p = Inr keep \<and> set (rd_keep d) = vs_version_id ` set versions \<inter> keep"
  using assms by (auto simp: retention_compute_def Let_def newest_first_def [symmetric] split: sum.splits)

lemma filter_take_ids: "distinct (map f xs) \<Longrightarrow> filter (\<lambda>v. f v \<in> f ` set (take n xs)) xs = take n xs"
proof (induction xs arbitrary: n)
  case (Cons x xs)
  show ?case
  proof (cases n)
    case (Suc k)
    have "filter (\<lambda>v. f v \<in> f ` set (take n (x # xs))) xs = filter (\<lambda>v. f v \<in> f ` set (take k xs)) xs"
      using Cons.prems Suc by (intro filter_cong refl) (auto, metis image_eqI)
    then show ?thesis using Cons Suc by simp
  qed simp
qed simp

lemma retention_lists:
  assumes "retention_compute K now versions p = Inr d" and "keep_ids K now (newest_first versions) p = Inr keep"
  shows "rd_keep d = map vs_version_id (filter (\<lambda>v. vs_version_id v \<in> keep) (newest_first versions))"
    "rd_delete d = map vs_version_id (filter (\<lambda>v. vs_version_id v \<notin> keep) (newest_first versions))"
  using assms by (auto simp: retention_compute_def Let_def newest_first_def [symmetric])

lemma keep_last_correct:
  assumes c: "retention_compute K now versions p = Inr d" and dist: "distinct (map vs_version_id versions)" and m: "rp_mode p = KeepLastN"
  shows "length (rd_keep d) = min (unat (the (rp_keep_last_n p))) (length versions)"
    "u \<in> set versions \<Longrightarrow> v \<in> set versions \<Longrightarrow> vs_version_id u \<in> set (rd_keep d) \<Longrightarrow> vs_version_id v \<in> set (rd_delete d) \<Longrightarrow>
       vs_timestamp v \<le> vs_timestamp u"
proof -
  let ?s = "newest_first versions"
  obtain n where n: "rp_keep_last_n p = Some n" using retention_keep [OF c] m
    by (auto simp: keep_ids_def compute_keep_last_n_def split: option.splits)
  have ds: "distinct (map vs_version_id ?s)"
    using dist mset_eq_imp_distinct_iff [of "map vs_version_id ?s" "map vs_version_id versions"] by (simp add: newest_first_def)
  have k: "keep_ids K now ?s p = Inr (vs_version_id ` set (take (unat n) ?s))" using m n by (simp add: keep_ids_def compute_keep_last_n_def)
  have keep: "rd_keep d = map vs_version_id (take (unat n) ?s)"
    unfolding retention_lists(1) [OF c k] filter_take_ids [OF ds] ..
  then show "length (rd_keep d) = min (unat (the (rp_keep_last_n p))) (length versions)" using n by simp
  assume uv: "u \<in> set versions" "v \<in> set versions" "vs_version_id u \<in> set (rd_keep d)" "vs_version_id v \<in> set (rd_delete d)"
  have inj: "inj_on vs_version_id (set versions)" using dist by (simp add: distinct_map)
  have "set (take (unat n) ?s) \<subseteq> set versions" using set_take_subset [of "unat n" ?s] by simp
  then have "u \<in> set (take (unat n) ?s)" using uv(1,3) keep inj by (auto dest: inj_onD)
  then obtain i where i: "i < unat n" "i < length versions" "u = ?s ! i" by (auto simp: in_set_conv_nth)
  have "y \<notin> A" if "y \<in> set (map vs_version_id (filter (\<lambda>v. vs_version_id v \<notin> A) ?s))" for y A using that by auto
  from this [OF uv(4) [unfolded retention_lists(2) [OF c k]]] have "vs_version_id v \<notin> vs_version_id ` set (take (unat n) ?s)" .
  then have "v \<notin> set (take (unat n) ?s)" by blast
  moreover obtain j where j: "j < length versions" "v = ?s ! j" using uv(2) by (metis in_set_conv_nth newest_first_simps)
  ultimately have "unat n \<le> j" by (metis in_set_conv_nth length_take min_less_iff_conj newest_first_simps(2) not_le nth_take)
  then show "vs_timestamp v \<le> vs_timestamp u" using sorted_wrt_nth_less [OF newest_first_sorted [of versions], of i j] i j by simp
qed

lemma selected_kept:
  assumes "distinct (map vs_version_id versions)" and "v \<in> set versions" and "vs_version_id v \<in> select key recent (newest_first versions)"
  shows "recent (key v) \<and> newest_of_period key versions v"
proof -
  obtain u where u: "u \<in> set versions" "vs_version_id v = vs_version_id u" "recent (key u)" "newest_of_period key versions u"
    using select_newest [OF assms(3)] by blast
  then have "u = v" using assms(1,2) by (metis distinct_map inj_onD)
  then show ?thesis using u by simp
qed

text \<open>A generation policy: every covered period keeps a newest version of it.\<close>

definition covered :: "(version_summary \<Rightarrow> 'k) \<Rightarrow> ('k \<Rightarrow> bool) \<Rightarrow> version_summary list \<Rightarrow> uuid list \<Rightarrow> bool" where
  "covered key recent versions kept \<longleftrightarrow> (\<forall>v \<in> set versions. recent (key v) \<longrightarrow>
     (\<exists>u \<in> set versions. vs_version_id u \<in> set kept \<and> key u = key v \<and> vs_timestamp v \<le> vs_timestamp u))"

lemma select_covered:
  assumes "\<And>v. v \<in> set versions \<Longrightarrow> vs_version_id v \<in> select key recent (newest_first versions) \<Longrightarrow> vs_version_id v \<in> set kept"
  shows "covered key recent versions kept"
  unfolding covered_def
proof (intro ballI impI)
  fix v assume "v \<in> set versions" "recent (key v)"
  from select_covers [OF this(1), of recent key, OF this(2)] obtain u where
    u: "u \<in> set versions" "vs_version_id u \<in> select key recent (newest_first versions)" "key u = key v" "vs_timestamp v \<le> vs_timestamp u" by blast
  from assms [OF u(1,2)] u(1,3,4) show "\<exists>u \<in> set versions. vs_version_id u \<in> set kept \<and> key u = key v \<and> vs_timestamp v \<le> vs_timestamp u" by auto
qed

definition recent_day :: "timestamp \<Rightarrow> u32 \<Rightarrow> int \<Rightarrow> bool" where
  "recent_day now n day \<longleftrightarrow> n \<noteq> 0 \<and> day_number now - int (unat n) < day"

definition recent_week :: "timestamp \<Rightarrow> u32 \<Rightarrow> int \<Rightarrow> bool" where
  "recent_week now n week \<longleftrightarrow> n \<noteq> 0 \<and> week_number now - int (unat n) < week"

definition recent_month :: "calendar \<Rightarrow> timestamp \<Rightarrow> u32 \<Rightarrow> int \<times> nat \<Rightarrow> bool" where
  "recent_month K now n ym \<longleftrightarrow> n \<noteq> 0 \<and> months (year_month K now) - int (unat n) < months ym"

lemma selections:
  "select_daily vs (unat n) now = select (day_number \<circ> vs_timestamp) (recent_day now n) vs"
  "select_weekly vs (unat n) now = select (week_number \<circ> vs_timestamp) (recent_week now n) vs"
  "select_monthly K vs (unat n) now = select (year_month K \<circ> vs_timestamp) (recent_month K now n) vs"
  by (auto simp: select_daily_def select_weekly_def select_monthly_def recent_day_def recent_week_def recent_month_def select_iff unat_eq_0)

definition gfs_decision :: "calendar \<Rightarrow> timestamp \<Rightarrow> gfs_config \<Rightarrow> version_summary list \<Rightarrow> uuid list \<Rightarrow> bool" where
  "gfs_decision K now g versions kept \<longleftrightarrow>
     (let day = day_number \<circ> vs_timestamp; week = week_number \<circ> vs_timestamp; month = year_month K \<circ> vs_timestamp;
          rd = recent_day now (gf_daily g); rw = recent_week now (gf_weekly g); rm = recent_month K now (gf_monthly g)
      in covered day rd versions kept \<and> covered week rw versions kept \<and> covered month rm versions kept \<and>
         (\<forall>v \<in> set versions. vs_version_id v \<in> set kept \<longrightarrow> rd (day v) \<and> newest_of_period day versions v \<or>
            rw (week v) \<and> newest_of_period week versions v \<or> rm (month v) \<and> newest_of_period month versions v))"

lemma gfs_correct:
  assumes c: "retention_compute K now versions p = Inr d" and dist: "distinct (map vs_version_id versions)" and m: "rp_mode p = Gfs"
  shows "gfs_decision K now (the (rp_gfs_config p)) versions (rd_keep d)"
proof -
  obtain g where g: "rp_gfs_config p = Some g" using retention_keep [OF c] m by (auto simp: keep_ids_def compute_gfs_def split: option.splits)
  let ?s = "newest_first versions"
  let ?d = "select (day_number \<circ> vs_timestamp) (recent_day now (gf_daily g)) ?s"
  let ?w = "select (week_number \<circ> vs_timestamp) (recent_week now (gf_weekly g)) ?s"
  let ?m = "select (year_month K \<circ> vs_timestamp) (recent_month K now (gf_monthly g)) ?s"
  have kept: "vs_version_id v \<in> set (rd_keep d) \<longleftrightarrow> vs_version_id v \<in> ?d \<union> ?w \<union> ?m" if "v \<in> set versions" for v
    using retention_keep [OF c] m g that by (auto simp: keep_ids_def compute_gfs_def selections)
  show ?thesis unfolding gfs_decision_def Let_def g option.sel
  proof (intro conjI ballI impI)
    fix v assume v: "v \<in> set versions" "vs_version_id v \<in> set (rd_keep d)"
    from kept [OF v(1)] v(2) have "vs_version_id v \<in> ?d \<or> vs_version_id v \<in> ?w \<or> vs_version_id v \<in> ?m" by blast
    then show "recent_day now (gf_daily g) ((day_number \<circ> vs_timestamp) v) \<and> newest_of_period (day_number \<circ> vs_timestamp) versions v \<or>
       recent_week now (gf_weekly g) ((week_number \<circ> vs_timestamp) v) \<and> newest_of_period (week_number \<circ> vs_timestamp) versions v \<or>
       recent_month K now (gf_monthly g) ((year_month K \<circ> vs_timestamp) v) \<and> newest_of_period (year_month K \<circ> vs_timestamp) versions v"
      by (elim disjE) (drule selected_kept [OF dist v(1)], blast)+
  qed (rule select_covered, use kept in blast)+
qed

text \<open>(C30) The retention decision: every version is either kept or deleted.  Keeping the last \<open>n\<close> keeps the \<open>n\<close> newest,
  a time-based policy exactly the versions younger than its limit.  A generation policy keeps, for each day,
  week and month it covers that has a version, a newest version of that period, and keeps nothing else.
  A smart policy keeps at least every version younger than its age limit.\<close>

theorem retention_decision_correct:
  assumes "retention_compute K now versions p = Inr d" and "distinct (map vs_version_id versions)"
  shows "mset (rd_keep d) + mset (rd_delete d) = mset (map vs_version_id versions) \<and>
    (case rp_mode p of
       KeepAll \<Rightarrow> rd_delete d = []
     | KeepLastN \<Rightarrow> length (rd_keep d) = min (unat (the (rp_keep_last_n p))) (length versions) \<and>
         (\<forall>u \<in> set versions. \<forall>v \<in> set versions. vs_version_id u \<in> set (rd_keep d) \<and> vs_version_id v \<in> set (rd_delete d) \<longrightarrow>
            vs_timestamp v \<le> vs_timestamp u)
     | TimeBased \<Rightarrow> (\<forall>v \<in> set versions. vs_version_id v \<in> set (rd_keep d) \<longleftrightarrow> now - the (rp_time_based_retention p) \<le> vs_timestamp v)
     | Gfs \<Rightarrow> gfs_decision K now (the (rp_gfs_config p)) versions (rd_keep d)
     | Smart \<Rightarrow> (\<forall>v \<in> set versions. now - int (unat (sr_max_age_days (the (rp_smart_rules p)))) * day_len \<le> vs_timestamp v \<longrightarrow>
         vs_version_id v \<in> set (rd_keep d)))"
proof (rule conjI [OF retention_partition [OF assms(1)]], cases "rp_mode p", goal_cases)
  case 1
  then show ?case using assms(1) by (auto simp: retention_compute_def Let_def keep_ids_def compute_keep_all_def filter_empty_conv)
next
  case 2
  then show ?case using keep_last_correct [OF assms 2] by simp
next
  case 3
  then show ?case using retention_keep [OF assms(1)] assms(2)
    by (auto simp: keep_ids_def compute_time_based_def distinct_map dest: inj_onD split: option.splits)
next
  case 4
  then show ?case using gfs_correct [OF assms 4] by simp
next
  case 5
  then show ?case using retention_keep [OF assms(1)]
    by (auto simp: keep_ids_def compute_smart_def Let_def split: option.splits)
qed

subsection \<open>What cleanup reclaims\<close>

locale prunable_repository = chunk_repository +
  assumes delete_chunk: "ok r \<Longrightarrow> known r h \<Longrightarrow> \<exists>r'. br_delete_chunk R (loc h) r = (Inr (), r') \<and> ok r' \<and>
      stored r' = (stored r)(loc h := None) \<and> (\<forall>k. known r' k \<longleftrightarrow> known r k \<and> k \<noteq> h) \<and> saved r' = saved r"
    and find_unknown: "ok r \<Longrightarrow> \<not> known r h \<Longrightarrow> \<exists>e. br_find_chunk R h r = (Inl e, r)"
    and read_missing: "ok r \<Longrightarrow> saved r v = None \<Longrightarrow> \<exists>e. br_read_manifest R v r = (Inl e, r)"
    and lock_only: "ok r \<Longrightarrow> br_acquire_lock R op t r = (x, r') \<Longrightarrow> ok r' \<and> stored r' = stored r \<and> known r' = known r \<and> saved r' = saved r"
begin

text \<open>The chunks the saved manifests of some versions refer to.\<close>

definition referenced :: "'a \<Rightarrow> uuid list \<Rightarrow> chunk_hash set" where
  "referenced r vs = {h. \<exists>v \<in> set vs. \<exists>m. saved r v = Some m \<and> h \<in> cr_hash ` set (am_chunk_refs m)}"

lemma set_fold_insert: "set (fold List.insert xs acc) = set xs \<union> set acc"
  by (induction xs arbitrary: acc) auto

lemma chunks_of_ok: "ok r \<Longrightarrow> \<exists>hs. chunks_of R vs acc r = (hs, r) \<and> set hs = set acc \<union> referenced r vs"
proof (induction vs arbitrary: acc)
  case (Cons v vs)
  show ?case
  proof (cases "saved r v")
    case None
    then obtain e where "br_read_manifest R v r = (Inl e, r)" using read_missing Cons.prems by blast
    then show ?thesis using Cons None by (auto simp: referenced_def)
  next
    case (Some m)
    then have "br_read_manifest R v r = (Inr m, r)" using read_manifest Cons.prems by blast
    with Cons.IH [OF Cons.prems, of "fold List.insert (map cr_hash (am_chunk_refs m)) acc"] Some show ?thesis
      by (auto simp: referenced_def set_fold_insert)
  qed
qed (simp add: referenced_def)

lemma reclaim_ok:
  "ok r \<Longrightarrow> \<exists>done r'. reclaim R hs r = (done, r') \<and> ok r' \<and> saved r' = saved r \<and> set done = {h \<in> set hs. known r h} \<and>
     (\<forall>k. known r' k \<longleftrightarrow> known r k \<and> k \<notin> set hs) \<and>
     stored r' = (\<lambda>l. if \<exists>h \<in> set hs. known r h \<and> l = loc h then None else stored r l)"
proof (induction hs arbitrary: r)
  case Nil
  then show ?case by auto
next
  case (Cons h hs)
  show ?case
  proof (cases "known r h")
    case False
    then obtain e where f: "br_find_chunk R h r = (Inl e, r)" using find_unknown Cons.prems by blast
    obtain don r' where d: "reclaim R hs r = (don, r')" "ok r'" "saved r' = saved r" "set don = {h \<in> set hs. known r h}"
        "\<forall>k. known r' k \<longleftrightarrow> known r k \<and> k \<notin> set hs" "stored r' = (\<lambda>l. if \<exists>h \<in> set hs. known r h \<and> l = loc h then None else stored r l)"
      using Cons.IH [OF Cons.prems] by blast
    have "reclaim R (h # hs) r = (don, r')" using f d(1) by simp
    moreover have "set don = {k \<in> set (h # hs). known r k}" using d(4) False by auto
    moreover have "\<forall>k. known r' k \<longleftrightarrow> known r k \<and> k \<notin> set (h # hs)" using d(5) False by auto
    moreover have "stored r' = (\<lambda>l. if \<exists>k \<in> set (h # hs). known r k \<and> l = loc k then None else stored r l)" unfolding d(6) using False by (intro ext if_cong refl) auto
    ultimately show ?thesis using d(2,3) by blast
  next
    case True
    obtain r1 where r1: "br_delete_chunk R (loc h) r = (Inr (), r1)" "ok r1" "stored r1 = (stored r)(loc h := None)"
        "\<forall>k. known r1 k \<longleftrightarrow> known r k \<and> k \<noteq> h" "saved r1 = saved r" using delete_chunk [OF Cons.prems True] by blast
    obtain don r' where d: "reclaim R hs r1 = (don, r')" "ok r'" "saved r' = saved r1" "set don = {h \<in> set hs. known r1 h}"
        "\<forall>k. known r' k \<longleftrightarrow> known r1 k \<and> k \<notin> set hs" "stored r' = (\<lambda>l. if \<exists>h \<in> set hs. known r1 h \<and> l = loc h then None else stored r1 l)"
      using Cons.IH [OF r1(2)] by blast
    have "br_find_chunk R h r = (Inr (loc h), r)" using find_chunk [OF Cons.prems True] .
    then have "reclaim R (h # hs) r = (h # don, r')" using r1(1) d(1) by simp
    moreover have "stored r' = (\<lambda>l. if \<exists>k \<in> set (h # hs). known r k \<and> l = loc k then None else stored r l)"
      using d(6) r1(3,4) True by (auto simp: fun_eq_iff)
    moreover have "set (h # don) = {k \<in> set (h # hs). known r k}" using d(4) r1(4) True by auto
    moreover have "\<forall>k. known r' k \<longleftrightarrow> known r k \<and> k \<notin> set (h # hs)" using d(5) r1(4) by auto
    moreover have "saved r' = saved r" using d(3) r1(5) by simp
    ultimately show ?thesis using d(2) by (intro exI conjI)
  qed
qed

lemma execute_ok:
  assumes "ok r" and "cleanup_execute R fresh now in_use d r = (Inr res, r')"
  defines "gone \<equiv> {h \<in> referenced r (filter (\<lambda>v. v \<notin> in_use) (rd_delete d)) - referenced r (rd_keep d). known r h}"
  shows "ok r'" "saved r' = saved r" "set (ct_reclaimed_chunks res) = gone" "\<forall>k. known r' k \<longleftrightarrow> known r k \<and> k \<notin> gone"
    "stored r' = (\<lambda>l. if \<exists>h \<in> gone. l = loc h then None else stored r l)"
    "ct_skipped_in_use res = filter (\<lambda>v. v \<in> in_use) (rd_delete d)" "ct_deleted_versions res = filter (\<lambda>v. v \<notin> in_use) (rd_delete d)"
proof -
  obtain l r1 where l: "br_acquire_lock R LkCompact 300 r = (Inr l, r1)"
    using assms(2) by (auto simp: cleanup_execute_def execute_with_progress_def split: prod.splits sum.splits)
  have r1: "ok r1" "stored r1 = stored r" "known r1 = known r" "saved r1 = saved r" using lock_only [OF assms(1) l] by auto
  have ref: "referenced r1 = referenced r" using r1(4) by (auto simp: referenced_def fun_eq_iff)
  obtain D where D: "chunks_of R (filter (\<lambda>v. v \<notin> in_use) (rd_delete d)) [] r1 = (D, r1)"
      "set D = referenced r (filter (\<lambda>v. v \<notin> in_use) (rd_delete d))" using chunks_of_ok [OF r1(1), of _ "[]"] ref by auto
  obtain K where K: "chunks_of R (rd_keep d) [] r1 = (K, r1)" "set K = referenced r (rd_keep d)"
    using chunks_of_ok [OF r1(1), of "rd_keep d" "[]"] ref by auto
  let ?o = "filter (\<lambda>h. h \<notin> set K) D"
  obtain don r2 where o: "reclaim R ?o r1 = (don, r2)" "ok r2" "saved r2 = saved r1" "set don = {h \<in> set ?o. known r1 h}"
      "\<forall>k. known r2 k \<longleftrightarrow> known r1 k \<and> k \<notin> set ?o" "stored r2 = (\<lambda>l. if \<exists>h \<in> set ?o. known r1 h \<and> l = loc h then None else stored r1 l)"
    using reclaim_ok [OF r1(1), of ?o] by blast
  have e: "res = \<lparr>ct_deleted_versions = filter (\<lambda>v. v \<notin> in_use) (rd_delete d), ct_reclaimed_chunks = don,
      ct_skipped_in_use = filter (\<lambda>v. v \<in> in_use) (rd_delete d)\<rparr>" "r' = r2"
    using assms(2) l D(1) K(1) o(1) by (auto simp: cleanup_execute_def execute_with_progress_def Let_def)
  have g: "gone = {h \<in> set ?o. known r1 h}" using D(2) K(2) r1(3) by (auto simp: gone_def)
  show "ok r'" "saved r' = saved r" "set (ct_reclaimed_chunks res) = gone"
    "ct_skipped_in_use res = filter (\<lambda>v. v \<in> in_use) (rd_delete d)" "ct_deleted_versions res = filter (\<lambda>v. v \<notin> in_use) (rd_delete d)"
    using o e g r1 by auto
  show "\<forall>k. known r' k \<longleftrightarrow> known r k \<and> k \<notin> gone" using o(5) e(2) g r1(3) by auto
  show "stored r' = (\<lambda>l. if \<exists>h \<in> gone. l = loc h then None else stored r l)" using o(6) e(2) g r1(2) by (auto simp: fun_eq_iff)
qed

end

lemma local_delete_chunk_ok:
  assumes ok: "local_ok X J root s" and "local_known X root s h"
  shows "\<exists>t. local_delete_chunk root (location_of X h) s = (Inr (), t) \<and> local_ok X J root t \<and>
     local_stored root t = (local_stored root s)(location_of X h := None) \<and>
     (\<forall>k. local_known X root t k \<longleftrightarrow> local_known X root s k \<and> k \<noteq> h) \<and> local_saved X J root t = local_saved X J root s"
proof -
  let ?p = "local_chunk_path X root h" and ?t = "del_node (local_chunk_path X root h) s"
  have "\<not> is_dir s ?p" "faults s = []" using ok by (auto simp: local_ok_def local_chunk_path_def)
  moreover have ex: "path_exists s ?p" using assms(2) by (simp add: local_known_def)
  moreover have "?p \<noteq> []" by (simp add: local_chunk_path_def)
  ultimately obtain d where "lookup s ?p = Some (File d)" "faults s = []" by (cases "lookup s ?p"; cases "the (lookup s ?p)") (auto simp: is_dir_def path_exists_def)
  then have "fs_remove_file ?p s = (Inr (), ?t)" by (simp add: fs_remove_file_def)
  then have res: "local_delete_chunk root (location_of X h) s = (Inr (), ?t)"
    using ex by (simp add: local_delete_chunk_def location_path_of)
  have "local_ok X J root ?t"
    by (rule local_ok_change [OF ok]) (use ok \<open>\<not> is_dir s ?p\<close> in \<open>auto simp: local_ok_def is_file_def is_dir_def split: if_splits\<close>)
  moreover have "location_path root l = ?p \<longleftrightarrow> l = location_of X h" for l
    using location_path_inj [of root l "location_of X h"] by (simp add: location_path_of)
  then have "local_stored root ?t = (local_stored root s)(location_of X h := None)" by (auto simp: local_stored_def fun_eq_iff)
  moreover have "local_known X root ?t k \<longleftrightarrow> local_known X root s k \<and> k \<noteq> h" for k
    using local_chunk_path_inj [of X root k h] ok by (auto simp: local_known_def path_exists_def local_chunk_path_def local_ok_def)
  moreover have "local_saved X J root ?t = local_saved X J root s"
    by (auto simp: local_saved_def local_manifest_path_def local_chunk_path_def fun_eq_iff)
  ultimately show ?thesis using res by blast
qed

lemma local_acquire_lock_ok:
  assumes ok: "local_ok X J root s" and "local_acquire_lock X J fresh now root op t s = (x, u)"
  shows "local_ok X J root u \<and> local_stored root u = local_stored root s \<and> local_known X root u = local_known X root s \<and>
     local_saved X J root u = local_saved X J root s"
proof -
  let ?p = "local_lock_path X root fresh"
  have f: "faults s = []" using ok by (simp add: local_ok_def)
  consider "u = s" | d where "u = set_node ?p (File d) s" "\<not> is_dir s ?p"
    using assms(2) f by (auto simp: local_acquire_lock_def Let_def fs_write_def is_dir_def split: option.splits if_splits)
  then show ?thesis
  proof cases
    case 2
    have "local_ok X J root u"
      by (rule local_ok_change [OF ok]) (use 2 f in \<open>auto simp: local_lock_path_def is_file_def is_dir_def split: if_splits\<close>)
    then show ?thesis using 2 by (auto simp: local_stored_def local_known_def local_saved_def location_path_def local_chunk_path_def
        local_manifest_path_def local_lock_path_def path_exists_def fun_eq_iff)
  qed (use ok in simp)
qed

interpretation pruned: prunable_repository "local_repository X J fresh now root" "local_stored root" "local_known X root"
  "location_of X" "local_saved X J root" "local_ok X J root" chunk_wf "\<lambda>m. oj_manifest_to_vec J m \<noteq> None"
  for X J fresh now root
proof unfold_locales
  fix r v assume "local_ok X J root r" "local_saved X J root r v = None"
  then show "\<exists>e. br_read_manifest (local_repository X J fresh now root) v r = (Inl e, r)"
    by (auto simp: local_repository_def local_read_manifest_def local_saved_def fs_read_def local_ok_def is_dir_def
        split: option.splits node.splits)
qed (use local_delete_chunk_ok local_acquire_lock_ok in
      \<open>auto simp: local_repository_def local_find_chunk_def local_known_def\<close>)

text \<open>The chunks the saved manifests of some versions refer to.\<close>

definition local_referenced :: "crates \<Rightarrow> repo_json \<Rightarrow> path \<Rightarrow> fsys \<Rightarrow> uuid list \<Rightarrow> chunk_hash set" where
  "local_referenced X J root s vs =
     {h. \<exists>v \<in> set vs. \<exists>m. local_saved X J root s v = Some m \<and> h \<in> cr_hash ` set (am_chunk_refs m)}"

lemma local_cleanup_ok:
  assumes "local_ok X J root s"
    and "cleanup_execute (local_repository X J l now root) fresh now in_use d s = (Inr res, t)"
  shows "local_ok X J root t" "local_saved X J root t = local_saved X J root s"
    "ct_skipped_in_use res = filter (\<lambda>v. v \<in> in_use) (rd_delete d)"
    "set (ct_reclaimed_chunks res) = {h \<in> local_referenced X J root s (filter (\<lambda>v. v \<notin> in_use) (rd_delete d)) -
       local_referenced X J root s (rd_keep d). local_known X root s h}" (is "_ = ?gone")
    "local_known X root t h \<longleftrightarrow> local_known X root s h \<and> h \<notin> set (ct_reclaimed_chunks res)"
    "local_stored root t p = (if p \<in> location_of X ` set (ct_reclaimed_chunks res) then None else local_stored root s p)"
proof -
  note e = pruned.execute_ok [OF assms, unfolded pruned.referenced_def, folded local_referenced_def]
  show "local_ok X J root t" "local_saved X J root t = local_saved X J root s"
    "ct_skipped_in_use res = filter (\<lambda>v. v \<in> in_use) (rd_delete d)" by (rule e)+
  show g: "set (ct_reclaimed_chunks res) = ?gone" using e(3) .
  show "local_known X root t h \<longleftrightarrow> local_known X root s h \<and> h \<notin> set (ct_reclaimed_chunks res)" unfolding g using e(4) by blast
  show "local_stored root t p = (if p \<in> location_of X ` set (ct_reclaimed_chunks res) then None else local_stored root s p)"
    unfolding g e(5) by (auto simp: image_iff)
qed

text \<open>(C27) Cleanup of a local repository reclaims exactly the stored chunks that the manifest of some version to delete refers to and
  the manifest of no version to keep refers to: those are gone, every other chunk keeps its content, and so every
  chunk of a kept version stays readable.  The manifests are untouched, those of the deleted versions too.\<close>

theorem cleanup_reclaims_exactly_unreferenced:
  assumes "local_ok X J root s"
    and "cleanup_execute (local_repository X J l now root) fresh now in_use d s = (Inr res, t)"
  shows "set (ct_reclaimed_chunks res) = {h \<in> local_referenced X J root s (filter (\<lambda>v. v \<notin> in_use) (rd_delete d)) -
      local_referenced X J root s (rd_keep d). local_known X root s h} \<and>
    (\<forall>h. if h \<in> set (ct_reclaimed_chunks res) then \<not> local_known X root t h \<and> local_stored root t (location_of X h) = None
       else (local_known X root t h \<longleftrightarrow> local_known X root s h) \<and>
         local_stored root t (location_of X h) = local_stored root s (location_of X h)) \<and>
    (\<forall>h \<in> local_referenced X J root s (rd_keep d). local_stored root t (location_of X h) = local_stored root s (location_of X h)) \<and>
    local_saved X J root t = local_saved X J root s"
proof -
  note c = local_cleanup_ok [OF assms]
  have inj: "location_of X h \<in> location_of X ` A \<longleftrightarrow> h \<in> A" for h A
  proof -
    have "inj (location_of X)" using assms(1) by (auto simp: inj_def local_ok_def location_of_def ag_chunk_filename_def)
    then show ?thesis by (rule inj_image_mem_iff)
  qed
  have k: "h \<notin> set (ct_reclaimed_chunks res)" if "h \<in> local_referenced X J root s (rd_keep d)" for h
    using that unfolding c(4) by blast
  show ?thesis by (intro conjI allI ballI c(4) c(2)) (simp_all add: c(5,6) inj k)
qed

text \<open>(C28) Cleanup does not protect a version that is in use: it is reported as skipped and its manifest stays, but a chunk it
  shares with a version that is deleted, and with no version to keep, is reclaimed, so the version in use cannot be
  read any more.\<close>

theorem cleanup_breaks_version_in_use:
  assumes "local_ok X J root s"
    and "cleanup_execute (local_repository X J l now root) fresh now in_use d s = (Inr res, t)"
    and "v \<in> set (rd_delete d)" and "v \<in> in_use" and "local_saved X J root s v = Some m"
    and "h \<in> cr_hash ` set (am_chunk_refs m)" and "local_known X root s h"
    and "h \<in> local_referenced X J root s (filter (\<lambda>u. u \<notin> in_use) (rd_delete d))" and "h \<notin> local_referenced X J root s (rd_keep d)"
  shows "v \<in> set (ct_skipped_in_use res) \<and> local_saved X J root t v = Some m \<and> \<not> local_known X root t h \<and>
    (\<exists>e. local_read_chunk root (location_of X h) t = (Inl e, t))"
proof -
  note c = local_cleanup_ok [OF assms(1,2)]
  have "h \<in> set (ct_reclaimed_chunks res)" unfolding c(4) using assms by blast
  then have n: "\<not> local_known X root t h" using c(5) by blast
  then have "lookup t (local_chunk_path X root h) = None" by (simp add: local_known_def path_exists_def local_chunk_path_def)
  moreover have "faults t = []" using c(1) by (simp add: local_ok_def)
  ultimately have "\<exists>e. local_read_chunk root (location_of X h) t = (Inl e, t)"
    by (auto simp: local_read_chunk_def location_path_of fs_read_def)
  then show ?thesis using assms c(2,3) n by simp
qed

end
