(* ===== verification/Agent_Verify.thy ===== *)
theory Agent_Verify
  imports Agent_Roundtrip Agent_Retention
begin

text \<open>
  Verification on the agent (\<open>hbx-verify\<close>): the integrity verifier over a repository (\<open>lib.rs\<close>), the
  consistency check and repair (\<open>consistency.rs\<close>) and the layered comparison of restored
  files (\<open>multilayer.rs\<close>).

  The sample of a \<open>Random\<close> verification is an argument of the verifier; \<open>sample_chunks\<close> draws it from the numbers
  \<open>rand\<close> picks and from the size the \<open>f64\<close> ratio asks for, both arguments.  Iterating a hash set goes through its
  elements once in an arbitrary order.  Messages in \<open>detail\<close> are left out.
\<close>

datatype ag_verify_mode = VmQuick | VmRandom | VmFull | VmDeep

datatype verify_item_type = ItFile | ItChunk | ItManifest | ItRepo

record verify_failure =
  vf_item_type :: verify_item_type
  vf_identifier :: string
  vf_expected_hash :: bytes
  vf_actual_hash :: bytes

record ag_verify_report =
  vt_version_id :: uuid
  vt_mode :: ag_verify_mode
  vt_started_at :: timestamp
  vt_completed_at :: timestamp
  vt_total_checked :: u64
  vt_passed :: u64
  vt_failed :: u64
  vt_failures :: "verify_failure list"

datatype ag_verify_error = VeFailed string | VeRepo repo_error | VeEncrypt encrypt_error | VeCompress compress_error

record integrity_verifier =
  iv_crates :: crates
  iv_sha256 :: "bytes \<Rightarrow> bytes"
  iv_manifest_to_vec :: "ag_manifest \<Rightarrow> bytes option"
  iv_decompress :: "bytes \<Rightarrow> compress_error + bytes"
  iv_decrypt :: "encrypted_chunk \<Rightarrow> encrypt_error + bytes"
  iv_sample :: "chunk_hash list \<Rightarrow> chunk_hash list"

record tally =
  ty_total :: u64
  ty_passed :: u64
  ty_failures :: "verify_failure list"

subsection \<open>The integrity verifier\<close>

definition temp_manifest :: "ag_manifest \<Rightarrow> ag_manifest" where
  "temp_manifest m = m\<lparr>am_hashes := (am_hashes m)\<lparr>mh_manifest_hash := replicate 32 0, mh_repo_hash := replicate 32 0\<rparr>\<rparr>"

definition ag_verify_manifest_hash :: "integrity_verifier \<Rightarrow> ag_manifest \<Rightarrow> ag_verify_error + bool" where
  "ag_verify_manifest_hash V m = (case iv_manifest_to_vec V (temp_manifest m) of
     None \<Rightarrow> Inl (VeFailed ''serialize'')
   | Some b \<Rightarrow> Inr (iv_sha256 V b = mh_manifest_hash (am_hashes m)))"

definition verify_repo_hash :: "integrity_verifier \<Rightarrow> ag_manifest \<Rightarrow> bool" where
  "verify_repo_hash V m =
     (iv_sha256 V (mh_manifest_hash (am_hashes m) @ mh_file_index_hash (am_hashes m) @ mh_chunk_index_hash (am_hashes m)) =
      mh_repo_hash (am_hashes m))"

definition verify_location :: "crates \<Rightarrow> chunk_hash \<Rightarrow> ag_chunk_location" where
  "verify_location X h = \<lparr>al_bucket = hex_encode X (take 1 h), al_path = hex_encode X h @ ''.chunk''\<rparr>"

definition read_plain :: "integrity_verifier \<Rightarrow> 'r backup_repository \<Rightarrow> chunk_hash \<Rightarrow> 'r \<Rightarrow> (ag_verify_error + bytes) \<times> 'r" where
  "read_plain V R h r =
     and_then (map_err VeRepo (br_read_chunk R (verify_location (iv_crates V) h) r)) (\<lambda>encrypted r.
     and_then (map_err VeEncrypt (iv_decrypt V encrypted, r)) (\<lambda>compressed r.
     map_err VeCompress (iv_decompress V compressed, r)))"

definition ag_verify_chunk :: "integrity_verifier \<Rightarrow> 'r backup_repository \<Rightarrow> chunk_hash \<Rightarrow> 'r \<Rightarrow> (ag_verify_error + bool) \<times> 'r" where
  "ag_verify_chunk V R h r = and_then (read_plain V R h r) (\<lambda>plain r. (Inr (blake3_hash (iv_crates V) plain = h), r))"

fun read_file :: "integrity_verifier \<Rightarrow> 'r backup_repository \<Rightarrow> chunk_hash list \<Rightarrow> 'r \<Rightarrow> (ag_verify_error + bytes) \<times> 'r" where
  "read_file V R [] r = (Inr [], r)"
| "read_file V R (h # hs) r = and_then (read_plain V R h r) (\<lambda>plain r.
     and_then (read_file V R hs r) (\<lambda>rest r. (Inr (plain @ rest), r)))"

definition verify_file_hash :: "integrity_verifier \<Rightarrow> 'r backup_repository \<Rightarrow> ag_file_entry \<Rightarrow> 'r \<Rightarrow> (ag_verify_error + bool) \<times> 'r" where
  "verify_file_hash V R f r = and_then (read_file V R (af_chunks f) r) (\<lambda>data r. (Inr (iv_sha256 V data = af_file_hash f), r))"

definition count_item :: "verify_item_type \<Rightarrow> string \<Rightarrow> bytes \<Rightarrow> bool \<Rightarrow> tally \<Rightarrow> tally" where
  "count_item ty i h passed t =
     (if passed then t\<lparr>ty_total := ty_total t + 1, ty_passed := ty_passed t + 1\<rparr>
      else t\<lparr>ty_total := ty_total t + 1, ty_failures := ty_failures t @
        [\<lparr>vf_item_type = ty, vf_identifier = i, vf_expected_hash = h, vf_actual_hash = replicate 32 0\<rparr>]\<rparr>)"

fun count_chunks :: "integrity_verifier \<Rightarrow> 'r backup_repository \<Rightarrow> chunk_hash list \<Rightarrow> tally \<Rightarrow> 'r \<Rightarrow> tally \<times> 'r" where
  "count_chunks V R [] t r = (t, r)"
| "count_chunks V R (h # hs) t r = (case ag_verify_chunk V R h r of (x, r) \<Rightarrow>
     count_chunks V R hs (count_item ItChunk (hex_encode (iv_crates V) h) h (x = Inr True) t) r)"

fun count_files :: "integrity_verifier \<Rightarrow> 'r backup_repository \<Rightarrow> ag_file_entry list \<Rightarrow> tally \<Rightarrow> 'r \<Rightarrow> tally \<times> 'r" where
  "count_files V R [] t r = (t, r)"
| "count_files V R (f # fs) t r = (case verify_file_hash V R f r of (x, r) \<Rightarrow>
     count_files V R fs (count_item ItFile (af_path f) (af_file_hash f) (x = Inr True) t) r)"

definition integrity_verify ::
  "integrity_verifier \<Rightarrow> timestamp \<Rightarrow> timestamp \<Rightarrow> uuid \<Rightarrow> ag_verify_mode \<Rightarrow> 'r backup_repository \<Rightarrow> 'r \<Rightarrow>
   (ag_verify_error + ag_verify_report) \<times> 'r" where
  "integrity_verify V t0 t1 v mode R r =
     and_then (map_err VeRepo (br_read_manifest R v r)) (\<lambda>m r.
     and_then (ag_verify_manifest_hash V m, r) (\<lambda>manifest_ok r.
     let id = uuid_to_string (iv_crates V) v;
         t = count_item ItManifest id (mh_manifest_hash (am_hashes m)) manifest_ok \<lparr>ty_total = 0, ty_passed = 0, ty_failures = []\<rparr>;
         t = count_item ItRepo id (mh_repo_hash (am_hashes m)) (verify_repo_hash V m) t;
         hashes = remdups (map cr_hash (am_chunk_refs m)) in
     case (case mode of
         VmQuick \<Rightarrow> (t, r)
       | VmRandom \<Rightarrow> count_chunks V R (iv_sample V hashes) t r
       | VmFull \<Rightarrow> count_chunks V R hashes t r
       | VmDeep \<Rightarrow> (case count_chunks V R hashes t r of (t, r) \<Rightarrow> count_files V R (am_files m) t r)) of (t, r) \<Rightarrow>
     (Inr \<lparr>vt_version_id = v, vt_mode = mode, vt_started_at = t0, vt_completed_at = t1, vt_total_checked = ty_total t,
        vt_passed = ty_passed t, vt_failed = ty_total t - ty_passed t, vt_failures = ty_failures t\<rparr>, r)))"

fun shuffle :: "(nat \<Rightarrow> nat) \<Rightarrow> nat \<Rightarrow> nat list \<Rightarrow> nat list" where
  "shuffle pick 0 xs = xs"
| "shuffle pick (Suc i) xs = shuffle pick i (let j = pick (Suc i) in xs[j := xs ! Suc i, Suc i := xs ! j])"

definition sample_chunks :: "(nat \<Rightarrow> nat) \<Rightarrow> nat \<Rightarrow> chunk_hash list \<Rightarrow> chunk_hash list" where
  "sample_chunks pick asked hashes =
     (if hashes = [] then []
      else let target = min (max asked 1) (length hashes); indices = shuffle pick (length hashes - 1) [0..<length hashes]
        in map (\<lambda>i. hashes ! i) (take target indices))"

lemma shuffle_mset: "\<forall>i. pick i \<le> i \<Longrightarrow> n < length xs \<Longrightarrow> mset (shuffle pick n xs) = mset xs"
proof (induction n arbitrary: xs)
  case (Suc i)
  have "pick (Suc i) \<le> Suc i" using Suc.prems(1) by blast
  then have "mset (xs[pick (Suc i) := xs ! Suc i, Suc i := xs ! pick (Suc i)]) = mset xs" using Suc.prems(2) by (intro mset_swap) auto
  then show ?case using Suc.IH [OF Suc.prems(1), of "xs[pick (Suc i) := xs ! Suc i, Suc i := xs ! pick (Suc i)]"] Suc.prems(2) by (simp add: Let_def)
qed simp

text \<open>A sample has the size asked for, at least one and at most all, and repeats no position.\<close>

lemma sample_chunks_ok:
  assumes "\<forall>i. pick i \<le> i" and "distinct hashes"
  shows "length (sample_chunks pick asked hashes) = (if hashes = [] then 0 else min (max asked 1) (length hashes))"
    "distinct (sample_chunks pick asked hashes)" "set (sample_chunks pick asked hashes) \<subseteq> set hashes"
proof -
  let ?ix = "shuffle pick (length hashes - 1) [0..<length hashes]"
  have m: "hashes \<noteq> [] \<Longrightarrow> mset ?ix = mset [0..<length hashes]" using shuffle_mset [OF assms(1), of "length hashes - 1" "[0..<length hashes]"] by simp
  then have s: "hashes \<noteq> [] \<Longrightarrow> set ?ix = {0..<length hashes} \<and> distinct ?ix \<and> length ?ix = length hashes"
    by (metis distinct_upt length_upt mset_eq_imp_distinct_iff set_mset_mset set_upt size_mset minus_nat.diff_0)
  then have t: "hashes \<noteq> [] \<Longrightarrow> set (take k ?ix) \<subseteq> {0..<length hashes} \<and> distinct (take k ?ix)" for k using set_take_subset [of k ?ix] by auto
  show "length (sample_chunks pick asked hashes) = (if hashes = [] then 0 else min (max asked 1) (length hashes))"
    using s by (simp add: sample_chunks_def Let_def)
  show "set (sample_chunks pick asked hashes) \<subseteq> set hashes"
  proof (cases "hashes = []")
    case False
    have "(\<lambda>i. hashes ! i) ` {0..<length hashes} \<subseteq> set hashes" by auto
    then have "(\<lambda>i. hashes ! i) ` set (take k ?ix) \<subseteq> set hashes" for k using t [OF False, of k] by blast
    then show ?thesis using False by (simp only: sample_chunks_def Let_def if_False set_map)
  qed (simp add: sample_chunks_def)
  have "inj_on (\<lambda>i. hashes ! i) {0..<length hashes}" using assms(2) by (simp add: inj_on_def nth_eq_iff_index_eq)
  then show "distinct (sample_chunks pick asked hashes)"
    using t [of "min (max asked 1) (length hashes)"] by (auto simp: sample_chunks_def Let_def distinct_map intro: inj_on_subset)
qed

subsection \<open>The consistency checker\<close>

record consistency_report =
  cy_checked_versions :: "uuid list"
  cy_healthy_versions :: "uuid list"
  cy_incomplete_versions :: "uuid list"
  cy_orphan_chunks :: "chunk_hash list"
  cy_missing_chunks :: "(uuid \<times> chunk_hash) list"

definition is_consistent :: "consistency_report \<Rightarrow> bool" where
  "is_consistent c \<longleftrightarrow> cy_incomplete_versions c = [] \<and> cy_orphan_chunks c = [] \<and> cy_missing_chunks c = []"

definition total_issues :: "consistency_report \<Rightarrow> nat" where
  "total_issues c = length (cy_incomplete_versions c) + length (cy_orphan_chunks c) + length (cy_missing_chunks c)"

record repair_result =
  rx_orphan_chunks_deleted :: u32
  rx_orphan_delete_failures :: u32
  rx_versions_quarantined :: u32

text \<open>The hashes of one manifest that do not exist; a failing \<open>chunk_exists\<close> ends the check.\<close>

fun missing_of :: "'r backup_repository \<Rightarrow> chunk_hash list \<Rightarrow> 'r \<Rightarrow> (repo_error + chunk_hash list) \<times> 'r" where
  "missing_of R [] r = (Inr [], r)"
| "missing_of R (h # hs) r = and_then (br_chunk_exists R h r) (\<lambda>there r.
     and_then (missing_of R hs r) (\<lambda>ms r. (Inr (if there then ms else h # ms), r)))"

fun check_versions ::
  "'r backup_repository \<Rightarrow> version_summary list \<Rightarrow> consistency_report \<Rightarrow> chunk_hash set \<Rightarrow> 'r \<Rightarrow>
   (repo_error + consistency_report \<times> chunk_hash set) \<times> 'r" where
  "check_versions R [] c refd r = (Inr (c, refd), r)"
| "check_versions R (s # ss) c refd r =
     (let v = vs_version_id s; c = c\<lparr>cy_checked_versions := cy_checked_versions c @ [v]\<rparr> in
      case br_read_manifest R v r of
        (Inl _, r) \<Rightarrow> check_versions R ss (c\<lparr>cy_incomplete_versions := cy_incomplete_versions c @ [v]\<rparr>) refd r
      | (Inr m, r) \<Rightarrow>
          and_then (missing_of R (map cr_hash (am_chunk_refs m)) r) (\<lambda>ms r.
          check_versions R ss
            (if ms \<noteq> [] then c\<lparr>cy_missing_chunks := cy_missing_chunks c @ map (Pair v) ms,
                               cy_incomplete_versions := cy_incomplete_versions c @ [v]\<rparr>
             else c\<lparr>cy_healthy_versions := cy_healthy_versions c @ [v]\<rparr>)
            (refd \<union> cr_hash ` set (am_chunk_refs m)) r))"

fun orphans_of :: "'r backup_repository \<Rightarrow> chunk_hash set \<Rightarrow> chunk_hash list \<Rightarrow> 'r \<Rightarrow> chunk_hash list \<times> 'r" where
  "orphans_of R refd [] r = ([], r)"
| "orphans_of R refd (h # hs) r =
     (if h \<in> refd then orphans_of R refd hs r
      else case br_chunk_exists R h r of (x, r) \<Rightarrow> (case orphans_of R refd hs r of (os, r) \<Rightarrow>
        ((if x = Inr True then h # os else os), r)))"

definition consistency_check :: "'r backup_repository \<Rightarrow> chunk_hash list \<Rightarrow> 'r \<Rightarrow> (repo_error + consistency_report) \<times> 'r" where
  "consistency_check R candidates r =
     and_then (br_list_versions R r) (\<lambda>versions r.
     and_then (check_versions R versions \<lparr>cy_checked_versions = [], cy_healthy_versions = [], cy_incomplete_versions = [],
         cy_orphan_chunks = [], cy_missing_chunks = []\<rparr> {} r) (\<lambda>(c, refd) r.
     case orphans_of R refd candidates r of (os, r) \<Rightarrow> (Inr (c\<lparr>cy_orphan_chunks := os\<rparr>), r)))"

fun delete_orphans :: "'r backup_repository \<Rightarrow> chunk_hash list \<Rightarrow> u32 \<times> u32 \<Rightarrow> 'r \<Rightarrow> (u32 \<times> u32) \<times> 'r" where
  "delete_orphans R [] n r = (n, r)"
| "delete_orphans R (h # hs) (deleted, failures) r = (case br_find_chunk R h r of
     (Inl _, r) \<Rightarrow> delete_orphans R hs (deleted, failures + 1) r
   | (Inr l, r) \<Rightarrow> (case br_delete_chunk R l r of
       (Inr _, r) \<Rightarrow> delete_orphans R hs (deleted + 1, failures) r
     | (Inl _, r) \<Rightarrow> delete_orphans R hs (deleted, failures + 1) r))"

definition consistency_repair :: "'r backup_repository \<Rightarrow> consistency_report \<Rightarrow> 'r \<Rightarrow> (repo_error + repair_result) \<times> 'r" where
  "consistency_repair R c r = (case delete_orphans R (cy_orphan_chunks c) (0, 0) r of ((d, f), r) \<Rightarrow>
     (Inr \<lparr>rx_orphan_chunks_deleted = d, rx_orphan_delete_failures = f,
        rx_versions_quarantined = of_nat (length (cy_incomplete_versions c))\<rparr>, r))"

definition check_and_repair :: "'r backup_repository \<Rightarrow> chunk_hash list \<Rightarrow> 'r \<Rightarrow> (repo_error + consistency_report \<times> repair_result) \<times> 'r" where
  "check_and_repair R candidates r =
     and_then (consistency_check R candidates r) (\<lambda>c r.
     and_then (consistency_repair R c r) (\<lambda>x r. (Inr (c, x), r)))"

subsection \<open>Layers\<close>

datatype layer_status = LyPass | LyFail | LySkipped

datatype verification_layer = L1SHA256 | L2BLAKE3 | L3Metadata | L4DirStructure | L5FileCount

record file_metadata =
  md_path :: string
  md_size :: u64
  md_mtime_secs :: "64 word"
  md_permissions :: u32

record file_verification_result =
  fv_path :: string
  fv_sha256_status :: layer_status
  fv_blake3_status :: layer_status
  fv_metadata_status :: layer_status
  fv_failed_layer :: "verification_layer option"

definition is_pass :: "file_verification_result \<Rightarrow> bool" where
  "is_pass f \<longleftrightarrow> fv_failed_layer f = None"

record multi_layer_report =
  ml_files :: "file_verification_result list"
  ml_dir_structure_status :: layer_status
  ml_file_count_status :: layer_status
  ml_expected_file_count :: nat
  ml_actual_file_count :: nat
  ml_all_passed :: bool
  ml_failed_count :: nat
  ml_failed_layers :: "verification_layer list"

definition passed_count :: "multi_layer_report \<Rightarrow> nat" where
  "passed_count l = length (filter is_pass (ml_files l))"

type_synonym digests = "(string, bytes) hmap"

definition same_digest :: "digests \<Rightarrow> digests \<Rightarrow> string \<Rightarrow> string \<Rightarrow> bool" where
  "same_digest expected actual p q = (case (map_of expected p, map_of actual q) of
     (Some eh, Some ah) \<Rightarrow> eh = ah | _ \<Rightarrow> False)"

definition ml_verify_file ::
  "file_metadata \<Rightarrow> file_metadata option \<Rightarrow> digests \<Rightarrow> digests \<Rightarrow> digests \<Rightarrow> digests \<Rightarrow> file_verification_result" where
  "ml_verify_file e actual es as eb ab =
     (let result = (\<lambda>s b m l. \<lparr>fv_path = md_path e, fv_sha256_status = s, fv_blake3_status = b, fv_metadata_status = m, fv_failed_layer = l\<rparr>) in
      case actual of
        None \<Rightarrow> result LyFail LySkipped LySkipped (Some L1SHA256)
      | Some a \<Rightarrow>
          if \<not> same_digest es as (md_path e) (md_path a) then result LyFail LySkipped LySkipped (Some L1SHA256)
          else if \<not> same_digest eb ab (md_path e) (md_path a) then result LyPass LyFail LySkipped (Some L2BLAKE3)
          else if md_size e \<noteq> md_size a then result LyPass LyPass LyFail (Some L3Metadata)
          else if md_mtime_secs e \<noteq> md_mtime_secs a then result LyPass LyPass LyFail (Some L3Metadata)
          else if md_permissions e \<noteq> md_permissions a then result LyPass LyPass LyFail (Some L3Metadata)
          else result LyPass LyPass LyPass None)"

definition verify_dir_structure :: "string list \<Rightarrow> string list \<Rightarrow> layer_status" where
  "verify_dir_structure es as = (if set es = set as then LyPass else LyFail)"

definition verify_directories :: "path list \<Rightarrow> path list \<Rightarrow> layer_status" where
  "verify_directories es as = (if set es = set as then LyPass else LyFail)"

definition verify_file_count :: "nat \<Rightarrow> nat \<Rightarrow> layer_status" where
  "verify_file_count e a = (if e = a then LyPass else LyFail)"

definition push_layer :: "verification_layer \<Rightarrow> verification_layer list \<Rightarrow> verification_layer list" where
  "push_layer l ls = (if l \<in> set ls then ls else ls @ [l])"

definition multi_layer_verify ::
  "file_metadata list \<Rightarrow> file_metadata list \<Rightarrow> digests \<Rightarrow> digests \<Rightarrow> digests \<Rightarrow> digests \<Rightarrow> multi_layer_report" where
  "multi_layer_verify expected actual es as eb ab =
     (let by_path = map_of (rev (map (\<lambda>f. (md_path f, f)) actual));
          results = map (\<lambda>e. ml_verify_file e (by_path (md_path e)) es as eb ab) expected;
          layers = fold (\<lambda>f ls. case fv_failed_layer f of Some l \<Rightarrow> push_layer l ls | None \<Rightarrow> ls) results [];
          dirs = verify_dir_structure (map md_path expected) (map md_path actual);
          layers = (if dirs = LyFail then push_layer L4DirStructure layers else layers);
          count = verify_file_count (length expected) (length actual);
          layers = (if count = LyFail then push_layer L5FileCount layers else layers);
          failed = length (filter (\<lambda>f. \<not> is_pass f) results)
      in \<lparr>ml_files = results, ml_dir_structure_status = dirs, ml_file_count_status = count,
          ml_expected_file_count = length expected, ml_actual_file_count = length actual,
          ml_all_passed = (failed = 0 \<and> dirs = LyPass \<and> count = LyPass), ml_failed_count = failed, ml_failed_layers = layers\<rparr>)"

subsection \<open>What verification relies on\<close>

text \<open>The bytes stored for a hash as the verifier decodes them, and what it accepts.\<close>

definition plain_of :: "integrity_verifier \<Rightarrow> (ag_chunk_location \<Rightarrow> encrypted_chunk option) \<Rightarrow> chunk_hash \<Rightarrow> bytes option" where
  "plain_of V st h = (case st (verify_location (iv_crates V) h) of None \<Rightarrow> None | Some e \<Rightarrow>
     (case iv_decrypt V e of Inl _ \<Rightarrow> None | Inr c \<Rightarrow> (case iv_decompress V c of Inl _ \<Rightarrow> None | Inr d \<Rightarrow> Some d)))"

definition intact :: "integrity_verifier \<Rightarrow> (ag_chunk_location \<Rightarrow> encrypted_chunk option) \<Rightarrow> chunk_hash \<Rightarrow> bool" where
  "intact V st h \<longleftrightarrow> (case plain_of V st h of None \<Rightarrow> False | Some d \<Rightarrow> blake3_hash (iv_crates V) d = h)"

fun bytes_of :: "integrity_verifier \<Rightarrow> (ag_chunk_location \<Rightarrow> encrypted_chunk option) \<Rightarrow> chunk_hash list \<Rightarrow> bytes option" where
  "bytes_of V st [] = Some []"
| "bytes_of V st (h # hs) = (case plain_of V st h of None \<Rightarrow> None | Some d \<Rightarrow> map_option ((@) d) (bytes_of V st hs))"

definition file_intact :: "integrity_verifier \<Rightarrow> (ag_chunk_location \<Rightarrow> encrypted_chunk option) \<Rightarrow> ag_file_entry \<Rightarrow> bool" where
  "file_intact V st f \<longleftrightarrow> (case bytes_of V st (af_chunks f) of None \<Rightarrow> False | Some d \<Rightarrow> iv_sha256 V d = af_file_hash f)"

text \<open>Queries answer from the stored state and leave it alone.\<close>

locale verifiable_repository = prunable_repository +
  assumes read_chunk_only: "ok r \<Longrightarrow> br_read_chunk R l r = (x, r') \<Longrightarrow> r' = r \<and> (\<forall>e. x = Inr e \<longrightarrow> stored r l = Some e)"
    and list_only: "ok r \<Longrightarrow> br_list_versions R r = (y, r') \<Longrightarrow> r' = r"
begin

lemma read_plain_ok: "ok r \<Longrightarrow> \<exists>x. read_plain V R h r = (x, r) \<and> plain_of V (stored r) h = (case x of Inr d \<Rightarrow> Some d | Inl _ \<Rightarrow> None)"
proof -
  assume a: "ok r"
  obtain x r' where b: "br_read_chunk R (verify_location (iv_crates V) h) r = (x, r')" by (rule prod.exhaust)
  have r: "r' = r" using read_chunk_only [OF a b] by simp
  show ?thesis
  proof (cases x)
    case (Inl e)
    then have "stored r (verify_location (iv_crates V) h) = None" using read_chunk [OF a, of "verify_location (iv_crates V) h"] b
      by (cases "stored r (verify_location (iv_crates V) h)") auto
    then show ?thesis using b r Inl by (simp add: read_plain_def plain_of_def map_err_def)
  next
    case (Inr e)
    then have "stored r (verify_location (iv_crates V) h) = Some e" using read_chunk_only [OF a b] by simp
    then show ?thesis using b r Inr by (auto simp: read_plain_def plain_of_def map_err_def split: sum.splits)
  qed
qed

lemma verify_chunk_ok: "ok r \<Longrightarrow> \<exists>x. ag_verify_chunk V R h r = (x, r) \<and> (x = Inr True \<longleftrightarrow> intact V (stored r) h)"
proof -
  assume "ok r"
  then obtain x where "read_plain V R h r = (x, r)" "plain_of V (stored r) h = (case x of Inr d \<Rightarrow> Some d | Inl _ \<Rightarrow> None)"
    using read_plain_ok by blast
  then show ?thesis by (cases x) (simp_all add: ag_verify_chunk_def intact_def)
qed

lemma read_file_ok: "ok r \<Longrightarrow> \<exists>x. read_file V R hs r = (x, r) \<and> bytes_of V (stored r) hs = (case x of Inr d \<Rightarrow> Some d | Inl _ \<Rightarrow> None)"
proof (induction hs)
  case (Cons h hs)
  obtain x where x: "read_plain V R h r = (x, r)" "plain_of V (stored r) h = (case x of Inr d \<Rightarrow> Some d | Inl _ \<Rightarrow> None)"
    using read_plain_ok [OF Cons.prems] by blast
  obtain y where y: "read_file V R hs r = (y, r)" "bytes_of V (stored r) hs = (case y of Inr d \<Rightarrow> Some d | Inl _ \<Rightarrow> None)" using Cons by blast
  show ?case using x y by (cases x; cases y) simp_all
qed simp

lemma verify_file_ok: "ok r \<Longrightarrow> \<exists>x. verify_file_hash V R f r = (x, r) \<and> (x = Inr True \<longleftrightarrow> file_intact V (stored r) f)"
proof -
  assume "ok r"
  then obtain x where "read_file V R (af_chunks f) r = (x, r)" "bytes_of V (stored r) (af_chunks f) = (case x of Inr d \<Rightarrow> Some d | Inl _ \<Rightarrow> None)"
    using read_file_ok by blast
  then show ?thesis by (cases x) (simp_all add: verify_file_hash_def file_intact_def)
qed

lemma count_chunks_ok:
  "ok r \<Longrightarrow> count_chunks V R hs t r = (foldl (\<lambda>t h. count_item ItChunk (hex_encode (iv_crates V) h) h (intact V (stored r) h) t) t hs, r)"
proof (induction hs arbitrary: t)
  case (Cons h hs)
  then show ?case using verify_chunk_ok [OF Cons.prems, of V h] by auto
qed simp

lemma count_files_ok:
  "ok r \<Longrightarrow> count_files V R fs t r = (foldl (\<lambda>t f. count_item ItFile (af_path f) (af_file_hash f) (file_intact V (stored r) f) t) t fs, r)"
proof (induction fs arbitrary: t)
  case (Cons f fs)
  then show ?case using verify_file_ok [OF Cons.prems, of V f] by auto
qed simp

end

text \<open>A run of counted items: what passed is counted, what did not is listed.\<close>

definition tally_ok :: "tally \<Rightarrow> bool" where
  "tally_ok t \<longleftrightarrow> ty_total t = ty_passed t + of_nat (length (ty_failures t))"

lemma tally_ok_count: "tally_ok t \<Longrightarrow> tally_ok (count_item ty i h b t)"
  by (simp add: tally_ok_def count_item_def)

lemma count_item_failures: "ty_failures (count_item ty i h b t) = [] \<longleftrightarrow> ty_failures t = [] \<and> b"
  by (simp add: count_item_def)

lemma fold_items:
  "tally_ok t \<Longrightarrow> tally_ok (foldl (\<lambda>t x. count_item ty (i x) (h x) (b x) t) t xs) \<and>
   (ty_failures (foldl (\<lambda>t x. count_item ty (i x) (h x) (b x) t) t xs) = [] \<longleftrightarrow> ty_failures t = [] \<and> (\<forall>x \<in> set xs. b x)) \<and>
   ty_total (foldl (\<lambda>t x. count_item ty (i x) (h x) (b x) t) t xs) = ty_total t + of_nat (length xs)"
proof (induction xs arbitrary: t)
  case (Cons x xs)
  from Cons.IH [OF tally_ok_count [OF Cons.prems]] show ?case
    by (simp add: count_item_failures) (auto simp: count_item_def add.assoc)
qed simp

context verifiable_repository begin

lemma integrity_verify_ok:
  assumes "ok r" and "saved r v = Some m" and "ag_verify_manifest_hash V m = Inr manifest_ok" and "mode \<noteq> VmRandom"
  shows "\<exists>rep. integrity_verify V t0 t1 v mode R r = (Inr rep, r) \<and> vt_mode rep = mode \<and>
    vt_failed rep = of_nat (length (vt_failures rep)) \<and>
    vt_total_checked rep = 2 + (if mode = VmQuick then 0 else of_nat (card (cr_hash ` set (am_chunk_refs m)))) +
      (if mode = VmDeep then of_nat (length (am_files m)) else 0) \<and>
    (vt_failures rep = [] \<longleftrightarrow> manifest_ok \<and> verify_repo_hash V m \<and>
       (mode \<noteq> VmQuick \<longrightarrow> (\<forall>h \<in> cr_hash ` set (am_chunk_refs m). intact V (stored r) h)) \<and>
       (mode = VmDeep \<longrightarrow> (\<forall>f \<in> set (am_files m). file_intact V (stored r) f)))"
proof -
  let ?id = "uuid_to_string (iv_crates V) v" and ?hs = "remdups (map cr_hash (am_chunk_refs m))"
  let ?t0 = "count_item ItRepo ?id (mh_repo_hash (am_hashes m)) (verify_repo_hash V m)
     (count_item ItManifest ?id (mh_manifest_hash (am_hashes m)) manifest_ok \<lparr>ty_total = 0, ty_passed = 0, ty_failures = []\<rparr>)"
  have t0: "tally_ok ?t0" "ty_failures ?t0 = [] \<longleftrightarrow> manifest_ok \<and> verify_repo_hash V m" "ty_total ?t0 = 2"
    by (auto simp: tally_ok_count tally_ok_def count_item_failures count_item_def)
  define t1 where "t1 = (if mode = VmQuick then ?t0 else
     foldl (\<lambda>t h. count_item ItChunk (hex_encode (iv_crates V) h) h (intact V (stored r) h) t) ?t0 ?hs)"
  have len: "length ?hs = card (cr_hash ` set (am_chunk_refs m))" by (metis length_remdups_card_conv set_map)
  have t1: "tally_ok t1" "ty_failures t1 = [] \<longleftrightarrow> manifest_ok \<and> verify_repo_hash V m \<and> (mode \<noteq> VmQuick \<longrightarrow> (\<forall>h \<in> cr_hash ` set (am_chunk_refs m). intact V (stored r) h))"
      "ty_total t1 = 2 + (if mode = VmQuick then 0 else of_nat (card (cr_hash ` set (am_chunk_refs m))))"
    using fold_items [OF t0(1), of ItChunk "hex_encode (iv_crates V)" "\<lambda>h. h" "intact V (stored r)" ?hs] t0 unfolding t1_def len by auto
  define t2 where "t2 = (if mode = VmDeep then foldl (\<lambda>t f. count_item ItFile (af_path f) (af_file_hash f) (file_intact V (stored r) f) t) t1 (am_files m) else t1)"
  have t2: "tally_ok t2" "ty_failures t2 = [] \<longleftrightarrow> ty_failures t1 = [] \<and> (mode = VmDeep \<longrightarrow> (\<forall>f \<in> set (am_files m). file_intact V (stored r) f))"
      "ty_total t2 = ty_total t1 + (if mode = VmDeep then of_nat (length (am_files m)) else 0)"
    using fold_items [OF t1(1), of ItFile af_path af_file_hash "file_intact V (stored r)" "am_files m"] t1(1) unfolding t2_def by auto
  have "integrity_verify V t0 t1' v mode R r = (Inr \<lparr>vt_version_id = v, vt_mode = mode, vt_started_at = t0, vt_completed_at = t1',
      vt_total_checked = ty_total t2, vt_passed = ty_passed t2, vt_failed = ty_total t2 - ty_passed t2, vt_failures = ty_failures t2\<rparr>, r)" for t0 t1'
    using read_manifest [OF assms(1,2)] assms(3,4) count_chunks_ok [OF assms(1)] count_files_ok [OF assms(1)]
    by (cases mode) (simp_all add: integrity_verify_def Let_def t1_def t2_def)
  then show ?thesis using t1 t2 by (auto simp: tally_ok_def)
qed

end

lemma read_summaries_only: "faults s = [] \<Longrightarrow> read_summaries X J dir names s = (x, t) \<Longrightarrow> t = s"
  by (induction X J dir names s arbitrary: x t rule: read_summaries.induct)
    (fastforce simp: and_then_def map_err_def fs_read_def split: if_splits option.splits node.splits sum.splits prod.splits)+

lemma local_read_only:
  assumes "local_ok X J root s"
  shows "local_read_chunk root l s = (x, t) \<Longrightarrow> t = s \<and> (\<forall>e. x = Inr e \<longrightarrow> local_stored root s l = Some e)"
    "local_list_versions X J root s = (y, t) \<Longrightarrow> t = s"
proof -
  have f: "faults s = []" using assms by (simp add: local_ok_def)
  show "local_read_chunk root l s = (x, t) \<Longrightarrow> t = s \<and> (\<forall>e. x = Inr e \<longrightarrow> local_stored root s l = Some e)"
    using f by (auto simp: local_read_chunk_def local_stored_def and_then_def map_err_def fs_read_def split: option.splits node.splits sum.splits)
  show "local_list_versions X J root s = (y, t) \<Longrightarrow> t = s"
    using f read_summaries_only [OF f] by (auto simp: local_list_versions_def and_then_def map_err_def fs_read_dir_def split: if_splits)
qed

interpretation checked: verifiable_repository "local_repository X J fresh now root" "local_stored root" "local_known X root"
  "location_of X" "local_saved X J root" "local_ok X J root" chunk_wf "\<lambda>m. oj_manifest_to_vec J m \<noteq> None"
  for X J fresh now root
  by unfold_locales (use local_read_only in \<open>auto simp: local_repository_def\<close>)

text \<open>(C21) The verifier is exact.  Verifying a saved version of a local repository changes nothing and succeeds.  It
  reports no failure if and only if the hash of the manifest and of the repository match and, in the full and deep modes, every chunk
  the manifest refers to is stored, decodes and has its hash, and in the deep mode the chunks of every file, in
  order, hash to the hash of the file.  The failures are counted.\<close>

theorem integrity_verify_exact:
  assumes "local_ok X J root s" and "local_saved X J root s v = Some m"
    and "ag_verify_manifest_hash V m = Inr manifest_ok" and "mode \<noteq> VmRandom"
  shows "\<exists>rep. integrity_verify V t0 t1 v mode (local_repository X J fresh now root) s = (Inr rep, s) \<and>
    vt_failed rep = of_nat (length (vt_failures rep)) \<and>
    vt_total_checked rep = 2 + (if mode = VmQuick then 0 else of_nat (card (cr_hash ` set (am_chunk_refs m)))) +
      (if mode = VmDeep then of_nat (length (am_files m)) else 0) \<and>
    (vt_failures rep = [] \<longleftrightarrow> manifest_ok \<and> verify_repo_hash V m \<and>
       (mode \<noteq> VmQuick \<longrightarrow> (\<forall>h \<in> cr_hash ` set (am_chunk_refs m). intact V (local_stored root s) h)) \<and>
       (mode = VmDeep \<longrightarrow> (\<forall>f \<in> set (am_files m). file_intact V (local_stored root s) f)))"
  using checked.integrity_verify_ok [OF assms, of t0 t1 fresh now] by blast

subsection \<open>Consistency check and repair\<close>

context verifiable_repository begin

definition healthy :: "'a \<Rightarrow> uuid \<Rightarrow> bool" where
  "healthy r v \<longleftrightarrow> (\<exists>m. saved r v = Some m \<and> (\<forall>h \<in> cr_hash ` set (am_chunk_refs m). known r h))"

lemma missing_of_ok: "ok r \<Longrightarrow> missing_of R hs r = (Inr (filter (\<lambda>h. \<not> known r h) hs), r)"
  by (induction hs) (simp_all add: chunk_exists)

lemma referenced_Cons: "referenced r (v # vs) = referenced r [v] \<union> referenced r vs"
  by (auto simp: referenced_def)

lemma check_versions_ok:
  "ok r \<Longrightarrow> \<exists>c'. check_versions R ss c refd r = (Inr (c', refd \<union> referenced r (map vs_version_id ss)), r) \<and>
     cy_checked_versions c' = cy_checked_versions c @ map vs_version_id ss \<and>
     cy_healthy_versions c' = cy_healthy_versions c @ filter (healthy r) (map vs_version_id ss) \<and>
     cy_incomplete_versions c' = cy_incomplete_versions c @ filter (\<lambda>v. \<not> healthy r v) (map vs_version_id ss) \<and>
     (\<forall>x \<in> set (cy_missing_chunks c'). x \<in> set (cy_missing_chunks c) \<or> fst x \<in> vs_version_id ` set ss \<and> \<not> healthy r (fst x))"
proof (induction ss arbitrary: c refd)
  case (Cons s ss)
  let ?v = "vs_version_id s" and ?c = "c\<lparr>cy_checked_versions := cy_checked_versions c @ [vs_version_id s]\<rparr>"
  show ?case
  proof (cases "saved r ?v")
    case None
    then obtain e where e: "br_read_manifest R ?v r = (Inl e, r)" using read_missing Cons.prems by blast
    have n: "\<not> healthy r ?v" "referenced r [?v] = {}" using None by (auto simp: healthy_def referenced_def)
    let ?c1 = "?c\<lparr>cy_incomplete_versions := cy_incomplete_versions ?c @ [?v]\<rparr>"
    have step: "check_versions R (s # ss) c refd r = check_versions R ss ?c1 refd r" using e by (simp add: Let_def)
    have un: "refd \<union> referenced r (map vs_version_id ss) = refd \<union> referenced r (map vs_version_id (s # ss))"
      unfolding list.map(2) referenced_Cons [of r ?v "map vs_version_id ss"] n(2) by simp
    from Cons.IH [OF Cons.prems, of ?c1 refd] show ?thesis unfolding step un using n(1) by auto
  next
    case (Some m)
    let ?hs = "map cr_hash (am_chunk_refs m)" and ?refd = "refd \<union> cr_hash ` set (am_chunk_refs m)"
    have rd: "br_read_manifest R ?v r = (Inr m, r)" using read_manifest Cons.prems Some by blast
    have ref: "referenced r [?v] = cr_hash ` set (am_chunk_refs m)" using Some by (auto simp: referenced_def)
    have hl: "healthy r ?v \<longleftrightarrow> filter (\<lambda>h. \<not> known r h) ?hs = []" using Some by (auto simp: healthy_def filter_empty_conv)
    let ?ms = "filter (\<lambda>h. \<not> known r h) ?hs"
    let ?c1 = "if ?ms \<noteq> [] then ?c\<lparr>cy_missing_chunks := cy_missing_chunks ?c @ map (Pair ?v) ?ms, cy_incomplete_versions := cy_incomplete_versions ?c @ [?v]\<rparr>
       else ?c\<lparr>cy_healthy_versions := cy_healthy_versions ?c @ [?v]\<rparr>"
    have step: "check_versions R (s # ss) c refd r = check_versions R ss ?c1 ?refd r"
      using rd missing_of_ok [OF Cons.prems, of ?hs] by (simp add: Let_def)
    have un: "?refd \<union> referenced r (map vs_version_id ss) = refd \<union> referenced r (map vs_version_id (s # ss))"
      unfolding list.map(2) referenced_Cons [of r ?v "map vs_version_id ss"] ref by (simp add: Un_assoc)
    define c1 where "c1 = ?c1"
    have f: "cy_checked_versions c1 = cy_checked_versions c @ [?v]"
        "cy_healthy_versions c1 = cy_healthy_versions c @ (if healthy r ?v then [?v] else [])"
        "cy_incomplete_versions c1 = cy_incomplete_versions c @ (if healthy r ?v then [] else [?v])"
        "\<forall>x \<in> set (cy_missing_chunks c1). x \<in> set (cy_missing_chunks c) \<or> fst x = ?v \<and> \<not> healthy r ?v"
      using hl unfolding c1_def by auto
    from Cons.IH [OF Cons.prems, of c1 ?refd] obtain c' where
      c': "check_versions R ss c1 ?refd r = (Inr (c', ?refd \<union> referenced r (map vs_version_id ss)), r)"
        "cy_checked_versions c' = cy_checked_versions c1 @ map vs_version_id ss"
        "cy_healthy_versions c' = cy_healthy_versions c1 @ filter (healthy r) (map vs_version_id ss)"
        "cy_incomplete_versions c' = cy_incomplete_versions c1 @ filter (\<lambda>v. \<not> healthy r v) (map vs_version_id ss)"
        "\<forall>x \<in> set (cy_missing_chunks c'). x \<in> set (cy_missing_chunks c1) \<or> fst x \<in> vs_version_id ` set ss \<and> \<not> healthy r (fst x)" by blast
    have "\<forall>x \<in> set (cy_missing_chunks c'). x \<in> set (cy_missing_chunks c) \<or> fst x \<in> vs_version_id ` set (s # ss) \<and> \<not> healthy r (fst x)"
      using c'(5) f(4) by fastforce
    then show ?thesis unfolding step un [symmetric] c1_def [symmetric] using c'(1-4) f(1-3) by (intro exI [of _ c']) simp
  qed
qed (simp add: referenced_def)

lemma orphans_of_ok: "ok r \<Longrightarrow> orphans_of R refd hs r = (filter (\<lambda>h. h \<notin> refd \<and> known r h) hs, r)"
  by (induction hs) (simp_all add: chunk_exists)

lemma delete_orphans_ok:
  "ok r \<Longrightarrow> distinct hs \<Longrightarrow> \<forall>h \<in> set hs. known r h \<Longrightarrow>
   \<exists>r'. delete_orphans R hs (d, f) r = ((d + of_nat (length hs), f), r') \<and> ok r' \<and> saved r' = saved r \<and>
     (\<forall>k. known r' k \<longleftrightarrow> known r k \<and> k \<notin> set hs) \<and> (\<forall>k. k \<notin> set hs \<longrightarrow> stored r' (loc k) = stored r (loc k))"
proof (induction hs arbitrary: d r)
  case (Cons h hs)
  obtain r1 where r1: "br_delete_chunk R (loc h) r = (Inr (), r1)" "ok r1" "stored r1 = (stored r)(loc h := None)"
      "\<forall>k. known r1 k \<longleftrightarrow> known r k \<and> k \<noteq> h" "saved r1 = saved r" using delete_chunk [OF Cons.prems(1), of h] Cons.prems(3) by auto
  have f: "br_find_chunk R h r = (Inr (loc h), r)" using find_chunk [OF Cons.prems(1), of h] Cons.prems(3) by simp
  have k: "distinct hs" "\<forall>x \<in> set hs. known r1 x" using Cons.prems r1(4) by auto
  obtain r' where r': "delete_orphans R hs (d + 1, f) r1 = ((d + 1 + of_nat (length hs), f), r')" "ok r'" "saved r' = saved r1"
      "\<forall>k. known r' k \<longleftrightarrow> known r1 k \<and> k \<notin> set hs" "\<forall>k. k \<notin> set hs \<longrightarrow> stored r' (loc k) = stored r1 (loc k)"
    using Cons.IH [OF r1(2) k] by blast
  have "loc k = loc h \<Longrightarrow> k = h" for k using loc_inj [OF Cons.prems(1)] .
  then show ?case using f r1 r' by (intro exI [of _ r']) (auto simp: add.assoc)
qed auto

lemma check_and_repair_ok:
  assumes "ok r" and "br_list_versions R r = (Inr ss, r)" and "distinct candidates"
  defines "vs \<equiv> map vs_version_id ss"
  shows "\<exists>c x r'. check_and_repair R candidates r = (Inr (c, x), r') \<and> ok r' \<and> cy_checked_versions c = vs \<and>
     cy_healthy_versions c = filter (healthy r) vs \<and> cy_incomplete_versions c = filter (\<lambda>v. \<not> healthy r v) vs \<and>
     cy_orphan_chunks c = filter (\<lambda>h. h \<notin> referenced r vs \<and> known r h) candidates \<and>
     (\<forall>x \<in> set (cy_missing_chunks c). fst x \<in> set (cy_incomplete_versions c)) \<and>
     rx_orphan_chunks_deleted x = of_nat (length (cy_orphan_chunks c)) \<and> rx_orphan_delete_failures x = 0 \<and> saved r' = saved r \<and>
     (\<forall>k. known r' k \<longleftrightarrow> known r k \<and> k \<notin> set (cy_orphan_chunks c)) \<and>
     (\<forall>k. k \<notin> set (cy_orphan_chunks c) \<longrightarrow> stored r' (loc k) = stored r (loc k))"
proof -
  let ?c0 = "\<lparr>cy_checked_versions = [], cy_healthy_versions = [], cy_incomplete_versions = [], cy_orphan_chunks = [], cy_missing_chunks = []\<rparr>"
  obtain c1 where c1: "check_versions R ss ?c0 {} r = (Inr (c1, referenced r vs), r)" "cy_checked_versions c1 = vs"
      "cy_healthy_versions c1 = filter (healthy r) vs" "cy_incomplete_versions c1 = filter (\<lambda>v. \<not> healthy r v) vs"
      "\<forall>x \<in> set (cy_missing_chunks c1). fst x \<in> set vs \<and> \<not> healthy r (fst x)"
    using check_versions_ok [OF assms(1), of ss ?c0 "{}"] by (auto simp: vs_def)
  let ?os = "filter (\<lambda>h. h \<notin> referenced r vs \<and> known r h) candidates"
  have c: "consistency_check R candidates r = (Inr (c1\<lparr>cy_orphan_chunks := ?os\<rparr>), r)"
    using assms(2) c1(1) orphans_of_ok [OF assms(1)] by (simp add: consistency_check_def)
  have os: "distinct ?os" "\<forall>h \<in> set ?os. known r h" using assms(3) by auto
  from delete_orphans_ok [OF assms(1) os, of 0 0] obtain r' where
    d: "delete_orphans R ?os (0, 0) r = ((of_nat (length ?os), 0), r')" "ok r'" "saved r' = saved r"
      "\<forall>k. known r' k \<longleftrightarrow> known r k \<and> k \<notin> set ?os" "\<forall>k. k \<notin> set ?os \<longrightarrow> stored r' (loc k) = stored r (loc k)" by auto
  show ?thesis using c d c1(2-5)
    by (intro exI [of _ "c1\<lparr>cy_orphan_chunks := ?os\<rparr>"] exI [of _ "\<lparr>rx_orphan_chunks_deleted = of_nat (length ?os), rx_orphan_delete_failures = 0,
        rx_versions_quarantined = of_nat (length (cy_incomplete_versions c1))\<rparr>"] exI [of _ r'])
      (simp add: check_and_repair_def consistency_repair_def)
qed

end

definition local_healthy :: "crates \<Rightarrow> repo_json \<Rightarrow> path \<Rightarrow> fsys \<Rightarrow> uuid \<Rightarrow> bool" where
  "local_healthy X J root s v \<longleftrightarrow> (case local_saved X J root s v of None \<Rightarrow> False
     | Some m \<Rightarrow> \<forall>h \<in> cr_hash ` set (am_chunk_refs m). local_known X root s h)"

lemma healthy_local: "checked.healthy X root J = local_healthy X J root"
  by (auto simp: fun_eq_iff checked.healthy_def local_healthy_def split: option.splits)

text \<open>(C29) Checking and repairing a local repository always succeeds: a version is healthy if and only if its manifest can be read
  and every chunk it refers to exists, and the chunks removed are exactly the stored candidates that no readable manifest
  of a listed version refers to.  Every other chunk keeps its content, all manifests stay, and nothing of a healthy version is lost.\<close>

theorem repair_removes_only_orphans:
  assumes "local_ok X J root s" and "local_list_versions X J root s = (Inr ss, s)" and "distinct candidates"
    and "vs = map vs_version_id ss"
  shows "\<exists>c x t. check_and_repair (local_repository X J l now root) candidates s = (Inr (c, x), t) \<and>
    cy_checked_versions c = vs \<and> cy_healthy_versions c = filter (local_healthy X J root s) vs \<and>
    cy_incomplete_versions c = filter (\<lambda>v. \<not> local_healthy X J root s v) vs \<and>
    cy_orphan_chunks c = filter (\<lambda>h. h \<notin> local_referenced X J root s vs \<and> local_known X root s h) candidates \<and>
    rx_orphan_chunks_deleted x = of_nat (length (cy_orphan_chunks c)) \<and> rx_orphan_delete_failures x = 0 \<and>
    local_saved X J root t = local_saved X J root s \<and>
    (\<forall>h. local_known X root t h \<longleftrightarrow> local_known X root s h \<and> h \<notin> set (cy_orphan_chunks c)) \<and>
    (\<forall>h. h \<notin> set (cy_orphan_chunks c) \<longrightarrow> local_stored root t (location_of X h) = local_stored root s (location_of X h)) \<and>
    (\<forall>v \<in> set (cy_healthy_versions c). local_healthy X J root t v)"
proof -
  have ls: "br_list_versions (local_repository X J l now root) s = (Inr ss, s)" using assms(2) by (simp add: local_repository_def)
  from checked.check_and_repair_ok [OF assms(1) ls assms(3), unfolded healthy_local pruned.referenced_def, folded local_referenced_def assms(4)]
  obtain c x t where c: "check_and_repair (local_repository X J l now root) candidates s = (Inr (c, x), t)" "cy_checked_versions c = vs"
      "cy_healthy_versions c = filter (local_healthy X J root s) vs" "cy_incomplete_versions c = filter (\<lambda>v. \<not> local_healthy X J root s v) vs"
      "cy_orphan_chunks c = filter (\<lambda>h. h \<notin> local_referenced X J root s vs \<and> local_known X root s h) candidates"
      "rx_orphan_chunks_deleted x = of_nat (length (cy_orphan_chunks c))" "rx_orphan_delete_failures x = 0"
      "local_saved X J root t = local_saved X J root s"
      "\<forall>h. local_known X root t h \<longleftrightarrow> local_known X root s h \<and> h \<notin> set (cy_orphan_chunks c)"
      "\<forall>h. h \<notin> set (cy_orphan_chunks c) \<longrightarrow> local_stored root t (location_of X h) = local_stored root s (location_of X h)"
    by blast
  have "local_healthy X J root t v" if v: "v \<in> set (cy_healthy_versions c)" for v
  proof -
    obtain m where m: "v \<in> set vs" "local_saved X J root s v = Some m" "\<forall>h \<in> cr_hash ` set (am_chunk_refs m). local_known X root s h"
      using v unfolding c(3) by (auto simp: local_healthy_def split: option.splits)
    have "h \<in> local_referenced X J root s vs" if "h \<in> cr_hash ` set (am_chunk_refs m)" for h
      unfolding local_referenced_def using m(1,2) that by blast
    then have "\<forall>h \<in> cr_hash ` set (am_chunk_refs m). local_known X root t h" using m(3) c(5,9) by auto
    then show ?thesis using m(2) c(8) by (simp add: local_healthy_def)
  qed
  then show ?thesis using c by (intro exI [of _ c] exI [of _ x] exI [of _ t] conjI ballI)
qed

subsection \<open>Layers\<close>

lemma push_layer_nonempty [simp]: "push_layer l ls \<noteq> []"
  by (auto simp: push_layer_def)

lemma fold_layers: "fold (\<lambda>f ls. case fv_failed_layer f of Some l \<Rightarrow> push_layer l ls | None \<Rightarrow> ls) fs ls = [] \<longleftrightarrow>
   ls = [] \<and> (\<forall>f \<in> set fs. is_pass f)"
  by (induction fs arbitrary: ls) (auto simp: is_pass_def split: option.splits)

lemma verify_file_pass:
  "is_pass (ml_verify_file e a es as eb ab) \<longleftrightarrow> (case a of None \<Rightarrow> False | Some a \<Rightarrow>
     same_digest es as (md_path e) (md_path a) \<and> same_digest eb ab (md_path e) (md_path a) \<and>
     md_size e = md_size a \<and> md_mtime_secs e = md_mtime_secs a \<and> md_permissions e = md_permissions a)"
  by (auto simp: ml_verify_file_def is_pass_def Let_def split: option.splits)

text \<open>The layered verification passes if and only if the two sides have the same number of files and the same paths and
  every expected file has a counterpart of the same path with equal SHA-256 and BLAKE3 digests, size, modification time and
  permissions; then, and only then, no layer is listed as failed.\<close>

theorem multi_layer_verify_exact:
  assumes "distinct (map md_path actual)" and "rep = multi_layer_verify expected actual es as eb ab"
  shows "(ml_all_passed rep \<longleftrightarrow> length expected = length actual \<and> md_path ` set expected = md_path ` set actual \<and>
      (\<forall>e \<in> set expected. \<exists>a \<in> set actual. md_path a = md_path e \<and> same_digest es as (md_path e) (md_path e) \<and>
         same_digest eb ab (md_path e) (md_path e) \<and> md_size e = md_size a \<and> md_mtime_secs e = md_mtime_secs a \<and>
         md_permissions e = md_permissions a)) \<and>
    (ml_failed_layers rep = [] \<longleftrightarrow> ml_all_passed rep) \<and> passed_count rep + ml_failed_count rep = length expected"
proof -
  let ?by = "map_of (rev (map (\<lambda>f. (md_path f, f)) actual))"
  let ?rs = "map (\<lambda>e. ml_verify_file e (?by (md_path e)) es as eb ab) expected"
  have "distinct (map fst (rev (map (\<lambda>f. (md_path f, f)) actual)))" using assms(1) by (simp add: rev_map [symmetric] comp_def)
  then have bp: "?by p = Some a \<longleftrightarrow> a \<in> set actual \<and> md_path a = p" for p a by (auto simp: map_of_eq_Some_iff)
  have pass: "(\<forall>f \<in> set ?rs. is_pass f) \<longleftrightarrow> (\<forall>e \<in> set expected. \<exists>a \<in> set actual. md_path a = md_path e \<and> same_digest es as (md_path e) (md_path e) \<and>
         same_digest eb ab (md_path e) (md_path e) \<and> md_size e = md_size a \<and> md_mtime_secs e = md_mtime_secs a \<and> md_permissions e = md_permissions a)"
  proof -
    have "is_pass (ml_verify_file e (?by (md_path e)) es as eb ab) \<longleftrightarrow> (\<exists>a. ?by (md_path e) = Some a \<and> same_digest es as (md_path e) (md_path a) \<and>
       same_digest eb ab (md_path e) (md_path a) \<and> md_size e = md_size a \<and> md_mtime_secs e = md_mtime_secs a \<and> md_permissions e = md_permissions a)" for e
      unfolding verify_file_pass by (simp split: option.splits)
    then show ?thesis unfolding set_map ball_simps(9) bp by (auto simp: Bex_def) metis+
  qed
  have m: "ml_all_passed rep \<longleftrightarrow> (\<forall>f \<in> set ?rs. is_pass f) \<and> md_path ` set expected = md_path ` set actual \<and> length expected = length actual"
    unfolding assms(2) multi_layer_verify_def Let_def
    by (simp add: verify_dir_structure_def verify_file_count_def filter_empty_conv)
  have l: "ml_failed_layers rep = [] \<longleftrightarrow> (\<forall>f \<in> set ?rs. is_pass f) \<and> md_path ` set expected = md_path ` set actual \<and> length expected = length actual"
    unfolding assms(2) multi_layer_verify_def Let_def
    using fold_layers [of ?rs "[]"] by (simp add: verify_dir_structure_def verify_file_count_def)
  have "passed_count rep + ml_failed_count rep = length ?rs"
    unfolding assms(2) multi_layer_verify_def Let_def passed_count_def multi_layer_report.simps by (rule sum_length_filter_compl)
  then show ?thesis unfolding pass [symmetric] using m l by auto
qed

end
