(* ===== verification/Agent_Incremental.thy ===== *)
theory Agent_Incremental
  imports Agent_Roundtrip
begin

text \<open>
  What an incremental and a resumed backup make restorable.  An incremental backup of a changed
  file records the chunks behind the part it shares with the previous version first and the
  shared ones after them; restore follows the recorded order.
\<close>

subsection \<open>Incremental backups\<close>

lemma common_le: "common X base cs \<le> length cs" "common X base cs \<le> length base"
  by (induction X base cs rule: common.induct) auto

lemma common_take: "map (blake3_hash X \<circ> rc_data) (take (common X base cs) cs) = take (common X base cs) base"
  by (induction X base cs rule: common.induct) auto

text \<open>The bytes an incremental backup records for a source file.\<close>

definition incremental_bytes :: "('r, 'j) backup_engine \<Rightarrow> backup_job \<Rightarrow> ag_manifest \<Rightarrow> ag_file_entry \<Rightarrow> bytes" where
  "incremental_bytes E job prev f = (case baseline_chunks prev (af_path f) of
     None \<Rightarrow> source_bytes E f
   | Some base \<Rightarrow>
       let cs = source_chunks E job f; n = common (en_crates E) base cs
       in concat (map rc_data (drop n cs)) @ concat (map rc_data (take n cs)))"

lemma or_insert_sound:
  "inj (hex_encode X) \<Longrightarrow> locs_sound X loc m \<Longrightarrow> (\<forall>h. k = hex_encode X h \<longrightarrow> l = loc h) \<Longrightarrow> locs_sound X loc (or_insert k l m)"
  by (auto simp: locs_sound_def or_insert_def map_of_update split: if_splits)

lemma reuse_chunks_files [simp]: "ra_files (reuse_chunks E prev v p hs a) = ra_files a"
  by (induction E prev v p hs a rule: reuse_chunks.induct) (auto simp: Let_def)

lemma reuse_chunks_locs:
  "inj (hex_encode (en_crates E)) \<Longrightarrow> locs_sound (en_crates E) loc (am_chunk_locations prev) \<Longrightarrow>
   locs_sound (en_crates E) loc (ra_locations a) \<Longrightarrow> locs_sound (en_crates E) loc (ra_locations (reuse_chunks E prev v p hs a))"
proof (induction E prev v p hs a rule: reuse_chunks.induct)
  case (2 E prev v p h off hs a)
  let ?k = "hex_encode (en_crates E) h"
  let ?l = "case map_of (am_chunk_locations prev) ?k of Some l \<Rightarrow> or_insert ?k l (ra_locations a) | None \<Rightarrow> ra_locations a"
  have "locs_sound (en_crates E) loc ?l"
  proof (cases "map_of (am_chunk_locations prev) ?k")
    case (Some l)
    then have "l = loc h" using 2(3) by (simp add: locs_sound_def)
    then have "\<forall>h'. ?k = hex_encode (en_crates E) h' \<longrightarrow> l = loc h'" using 2(2) by (auto dest: injD)
    from or_insert_sound [OF 2(2,4) this] show ?thesis using Some by simp
  qed (use 2(4) in simp)
  then show ?case using 2 by (simp add: Let_def)
qed simp

lemma fold_or_insert_sound:
  "inj (hex_encode X) \<Longrightarrow> locs_sound X loc m \<Longrightarrow> (\<forall>h l. (hex_encode X h, l) \<in> set xs \<longrightarrow> l = loc h) \<Longrightarrow>
   locs_sound X loc (fold (\<lambda>(k, l). or_insert k l) xs m)"
proof (induction xs arbitrary: m)
  case (Cons x xs)
  obtain k l where x: "x = (k, l)" by fastforce
  then have "locs_sound X loc (or_insert k l m)" using or_insert_sound [OF Cons.prems(1,2)] Cons.prems(3) by auto
  then show ?case using Cons.IH Cons.prems x by simp
qed simp

context chunk_repository begin

lemma diff_and_store_ok:
  assumes p: "pipeline_ok D E G wf" and R: "en_repo E = R" and g: "good D G st"
    and l: "locs_sound (en_crates E) loc (ra_locations a)" "locs_sound (en_crates E) loc (am_chunk_locations prev)"
    and c: "en_chunk E r (to_chunk_strategy (bj_chunking_profile job) (af_size f)) = Inr cs" and cD: "rc_data ` set cs \<subseteq> D"
    and base: "\<forall>h \<in> set base. known (es_repo st) h" and n: "n = common (en_crates E) base cs"
  shows "\<exists>a' st' f'. diff_and_store E job prev v f r base a st = (Inr a', st') \<and> good D G st' \<and> ext (es_repo st) (es_repo st') \<and>
     locs_sound (en_crates E) loc (ra_locations a') \<and> ra_files a' = ra_files a @ [f'] \<and> af_path f' = af_path f \<and>
     entry_ok D E (es_repo st') f' (concat (map rc_data (drop n cs)) @ concat (map rc_data (take n cs)))"
proof -
  obtain a1 st1 where s1: "backup_chunks E False v (af_path f) (drop n cs) a st = (Inr a1, st1)" "good D G st1"
      "ext (es_repo st) (es_repo st1)" "\<forall>h \<in> set (chunk_hashes E (drop n cs)). known (es_repo st1) h" "ra_files a1 = ra_files a"
      "locs_sound (en_crates E) loc (ra_locations a1)"
    using backup_chunks_ok [OF p R g l(1), of "drop n cs"] cD set_drop_subset [of n cs] by blast
  let ?data = "concat (map rc_data (drop n cs)) @ concat (map rc_data (take n cs))"
  let ?f = "completed_entry E f (chunk_hashes E (drop n cs) @ chunk_hashes E (take n cs)) ?data"
  let ?a = "reuse_chunks E prev v (af_path f) (zip (chunk_hashes E (take n cs)) (map rc_offset (take n cs))) a1"
  have hex: "inj (hex_encode (en_crates E))" using p by (simp add: pipeline_ok_def)
  have "set (map rc_data (drop n cs @ take n cs)) \<subseteq> D" using cD by (auto dest: in_set_dropD in_set_takeD)
  then have "\<exists>ds. set ds \<subseteq> D \<and> af_chunks ?f = map (blake3_hash (en_crates E)) ds \<and> concat ds = ?data"
    by (intro exI [of _ "map rc_data (drop n cs @ take n cs)"]) (simp add: completed_entry_def)
  moreover have "chunk_hashes E (take n cs) = take n base" unfolding n by (rule common_take)
  then have "\<forall>h \<in> set (chunk_hashes E (take n cs)). known (es_repo st1) h"
    using base s1(3) by (metis extends_known in_set_takeD)
  ultimately have "entry_ok D E (es_repo st1) ?f ?data" using s1(4) by (auto simp: completed_entry_def)
  moreover have "diff_and_store E job prev v f r base a st = (Inr (add_file ?f (length ?data) ?a), st1)"
    using s1(1) chunk_diff_compute_eq [of "en_chunk E" r _ cs "en_crates E" base, OF c] n
    by (simp add: diff_and_store_def lift_err_def Let_def all_chunks_def)
  ultimately show ?thesis using s1 reuse_chunks_locs [OF hex l(2) s1(6)]
    by (intro exI [of _ "add_file ?f (length ?data) ?a"] exI [of _ st1] exI [of _ ?f]) (simp add: add_file_def completed_entry_def)
qed

lemma incremental_files_ok:
  assumes p: "pipeline_ok D E G wf" and R: "en_repo E = R" and lp: "locs_sound (en_crates E) loc (am_chunk_locations prev)"
  shows "good D G st \<Longrightarrow> locs_sound (en_crates E) loc (ra_locations a) \<Longrightarrow> source_readable E fs \<Longrightarrow> chunk_data E job fs \<subseteq> D \<Longrightarrow>
     \<forall>f \<in> set (am_files prev). \<forall>h \<in> set (af_chunks f). known (es_repo st) h \<Longrightarrow>
     \<exists>a' st' fs'. incremental_files E job prev v fs a st = (Inr a', st') \<and> good D G st' \<and> ext (es_repo st) (es_repo st') \<and>
       locs_sound (en_crates E) loc (ra_locations a') \<and> ra_files a' = ra_files a @ fs' \<and>
       list_all2 (\<lambda>f f'. af_path f' = af_path f \<and> entry_ok D E (es_repo st') f' (incremental_bytes E job prev f)) fs fs'"
proof (induction fs arbitrary: a st)
  case Nil
  then show ?case using extends_refl by auto
next
  case (Cons f fs)
  from Cons.prems(3) obtain r where r: "en_open E (af_path f) = Some r" "source_readable E fs" "en_chunk E = fixed_chunk"
    by (auto simp: source_readable_def)
  obtain cs where cs: "en_chunk E r (to_chunk_strategy (bj_chunking_profile job) (af_size f)) = Inr cs"
      "concat (map rc_data cs) = source_bytes E f" "source_chunks E job f = cs"
    using fixed_chunk_profile [of r "bj_chunking_profile job" "af_size f"] r by (auto simp: source_bytes_def source_chunks_def)
  have cD: "rc_data ` set cs \<subseteq> D" "chunk_data E job fs \<subseteq> D" using Cons.prems(4) cs(3) by (auto simp: chunk_data_def)
  let ?step = "case baseline_chunks prev (af_path f) of
      Some base \<Rightarrow> diff_and_store E job prev v f r base a st | None \<Rightarrow> chunk_and_store E False False job v f r a st"
  obtain a1 st1 f' where s1: "?step = (Inr a1, st1)" "good D G st1" "ext (es_repo st) (es_repo st1)"
      "locs_sound (en_crates E) loc (ra_locations a1)" "ra_files a1 = ra_files a @ [f']" "af_path f' = af_path f"
      "entry_ok D E (es_repo st1) f' (incremental_bytes E job prev f)"
  proof (cases "baseline_chunks prev (af_path f)")
    case None
    then show ?thesis using that chunk_and_store_ok [OF p R Cons.prems(1,2) cs(1) cD(1), of False False v] cs(2)
      unfolding incremental_bytes_def by (simp, blast)
  next
    case (Some base)
    then have "\<exists>f0 \<in> set (am_files prev). af_chunks f0 = base"
      by (auto simp: baseline_chunks_def dest!: map_of_SomeD)
    then have "\<forall>h \<in> set base. known (es_repo st) h" using Cons.prems(5) by blast
    then show ?thesis using that Some diff_and_store_ok [OF p R Cons.prems(1,2) lp cs(1) cD(1) _ refl, of base v] cs(3)
      unfolding incremental_bytes_def Let_def by (simp, blast)
  qed
  have "\<forall>f \<in> set (am_files prev). \<forall>h \<in> set (af_chunks f). known (es_repo st1) h"
    using Cons.prems(5) extends_known [OF s1(3)] by blast
  from Cons.IH [OF s1(2,4) r(2) cD(2) this] obtain a' st' fs' where
    s2: "incremental_files E job prev v fs a1 st1 = (Inr a', st')" "good D G st'" "ext (es_repo st1) (es_repo st')"
      "locs_sound (en_crates E) loc (ra_locations a')" "ra_files a' = ra_files a1 @ fs'"
      "list_all2 (\<lambda>f f'. af_path f' = af_path f \<and> entry_ok D E (es_repo st') f' (incremental_bytes E job prev f)) fs fs'"
    by blast
  have "entry_ok D E (es_repo st') f' (incremental_bytes E job prev f)" using entry_ok_ext [OF s2(3) s1(7)] .
  then show ?case using s1 s2 r(1) extends_trans [OF s1(3) s2(3)]
    by (intro exI [of _ a'] exI [of _ st'] exI [of _ "f' # fs'"]) simp
qed

end

context chunk_repository begin

lemma incremental_run_ok:
  assumes p: "pipeline_ok D E G wf" and R: "en_repo E = R" and g: "good D G st0" and src: "source_readable E fs" "chunk_data E job fs \<subseteq> D"
    and m: "saved (es_repo st0) b = Some prev" and lp: "locs_sound (en_crates E) loc (am_chunk_locations prev)"
    and d: "distinct (keys (am_chunk_locations prev))"
    and old: "\<forall>f \<in> set (am_files prev). entry_ok D E (es_repo st0) f (old f)"
    and sc: "en_scan E (bj_source job) (Some (snapshot_of b prev)) = Inr fs"
    and run: "run_incremental_backup E job b st0 = (Inr res, st')"
  shows "\<exists>v m. bt_version_id res = Some v \<and> saved (es_repo st') v = Some m \<and> good D G st' \<and>
     locs_sound (en_crates E) loc (am_chunk_locations m) \<and>
     list_all2 (\<lambda>x f'. af_path f' = af_path (fst x) \<and> entry_ok D E (es_repo st') f' (snd x))
       (map (\<lambda>f. (f, old f)) (unchanged_files prev (map af_path fs)) @ map (\<lambda>f. (f, incremental_bytes E job prev f)) fs) (am_files m)"
proof -
  obtain v st where s: "fresh_uuid E st0 = (v, st)" by fastforce
  have st: "es_repo st = es_repo st0" "es_dedup st = es_dedup st0" using s by (auto simp: fresh_uuid_def)
  have rm: "br_read_manifest R b (es_repo st0) = (Inr prev, es_repo st0)" using read_manifest g m by blast
  have up: "st\<lparr>es_repo := es_repo st0\<rparr> = st" using st by (cases st) simp
  let ?st = "set_state ExChunking ((set_state ExScanning st)\<lparr>es_repo := es_repo st0\<rparr>)"
  have "good D G ?st" "locs_sound (en_crates E) loc (ra_locations run_acc_new)"
      "\<forall>f \<in> set (am_files prev). \<forall>h \<in> set (af_chunks f). known (es_repo ?st) h"
    using g st old by (simp_all add: locs_sound_def run_acc_new_def)
  from incremental_files_ok [OF p R lp this(1,2) src this(3), of v] obtain a st1 fs' where
    b: "incremental_files E job prev v fs run_acc_new ?st = (Inr a, st1)" "good D G st1" "ext (es_repo st0) (es_repo st1)"
      "locs_sound (en_crates E) loc (ra_locations a)" "ra_files a = fs'"
      "list_all2 (\<lambda>f f'. af_path f' = af_path f \<and> entry_ok D E (es_repo st1) f' (incremental_bytes E job prev f)) fs fs'"
    using st by (auto simp: run_acc_new_def)
  let ?un = "unchanged_files prev (map af_path fs)"
  let ?locs = "fold (\<lambda>(k, l). or_insert k l) (am_chunk_locations prev) (ra_locations a)"
  have hex: "inj (hex_encode (en_crates E))" using p by (simp add: pipeline_ok_def)
  obtain m' st2 refs where c: "commit_version E v (Some b) (am_version_number prev + 1) Incremental (?un @ ra_files a) refs ?locs st1 = (Inr m', st2)"
      "bt_version_id res = Some v" "st' = set_state ExSuccess st2"
    using run s rm R sc b(1) st by (auto simp: run_incremental_backup_def on_repo_def lift_err_def Let_def and_then_Ok_iff result_of_def)
  note k = commit_version_ok [OF R conjunct1 [OF b(2)] c(1)]
  have "dedup_sound known loc (es_repo st1) (add_references refs (es_dedup st1))"
    by (rule dedup_sound_add_references) (use b(2) in blast)
  then have "good D G st'" using b(2) k c(3) by (simp add: repo_sound_def dedup_sound_def)
  moreover have "locs_sound (en_crates E) loc (am_chunk_locations m')"
    unfolding k(6) by (rule fold_or_insert_sound [OF hex b(4)]) (use lp d in \<open>auto simp: locs_sound_def\<close>)
  moreover have olds: "\<forall>f \<in> set (am_files prev). entry_ok D E (es_repo st1) f (old f)"
    using old entry_ok_ext [OF b(3)] by blast
  have "list_all2 (\<lambda>x f'. af_path f' = af_path (fst x) \<and> entry_ok D E (es_repo st1) f' (snd x)) (map (\<lambda>f. (f, old f)) ?un) ?un"
    unfolding list_all2_map1
    by (rule list.rel_refl_strong) (use olds in \<open>auto simp: unchanged_files_def\<close>)
  then have "list_all2 (\<lambda>x f'. af_path f' = af_path (fst x) \<and> entry_ok D E (es_repo st') f' (snd x))
       (map (\<lambda>f. (f, old f)) ?un @ map (\<lambda>f. (f, incremental_bytes E job prev f)) fs) (am_files m')"
    using b(5,6) k(4,5) c(3) by (auto simp: list_all2_map1 intro!: list_all2_appendI)
  ultimately show ?thesis using k(2) c(2,3) by auto
qed

end

text \<open>An entry of a version all of whose chunks are known, with the bytes they stand for.\<close>

definition version_entry :: "bytes set \<Rightarrow> ('r, 'j) backup_engine \<Rightarrow> (chunk_hash \<Rightarrow> bool) \<Rightarrow> ag_file_entry \<Rightarrow> bytes \<Rightarrow> bool" where
  "version_entry D E known f data \<longleftrightarrow> (\<exists>ds. set ds \<subseteq> D \<and> af_chunks f = map (blake3_hash (en_crates E)) ds \<and> concat ds = data) \<and>
     af_file_hash f = en_sha256 E data \<and> (\<forall>h \<in> set (af_chunks f). known h)"

subsection \<open>Properties\<close>

text \<open>(C39) After a successful incremental backup the new version restores with every file reported as
  verified, but a changed file comes back as \<open>incremental_bytes\<close>: the bytes of the chunks behind the
  part it shares with the previous version, followed by the shared part.  So a file that was only
  appended to is restored with its tail in front.  Files the scan did not report keep their bytes.  As for
  a full backup it is assumed, of the data \<open>D\<close> of the chunks of the changed files and of those the
  repository holds, that their hashes do not collide, that decoding inverts encoding and that a sealed chunk
  fits the memory budget; and that no two files of the new version share a base name.\<close>

theorem incremental_restore_rotates_changed_files:
  assumes "en_repo E = local_repository X J fresh now root" and "pipeline_ok D E G chunk_wf"
    and "backup_ready D X J root G st" and "local_saved X J root (es_repo st) b = Some prev"
    and "locs_sound (en_crates E) (location_of X) (am_chunk_locations prev)" and "distinct (keys (am_chunk_locations prev))"
    and "\<forall>f \<in> set (am_files prev). version_entry D E (local_known X root (es_repo st)) f (old f)"
    and "en_scan E (bj_source job) (Some (snapshot_of b prev)) = Inr fs" and "source_readable E fs"
    and "chunk_data E job fs \<subseteq> D"
    and "run_incremental_backup E job b st = (Inr res, st')"
    and "target_ready base t" and "\<forall>f \<in> set (am_files prev @ fs). file_name (af_path f) \<noteq> []"
    and "length (am_files prev) + length fs < 2 ^ 64"
    and "distinct (map (file_name \<circ> af_path) (unchanged_files prev (map af_path fs) @ fs))"
  shows "\<exists>v rr rst. bt_version_id res = Some v \<and>
     run_restore G (restore_everything v base) (restore_start t (es_repo st')) = (Inr rr, rst) \<and>
     rr_all_verified rr \<and> rr_files_failed rr = 0 \<and> rs_state rst = RsSuccess \<and>
     (\<forall>f \<in> set fs. lookup (rs_disk rst) (base @ [file_name (af_path f)]) = Some (File (incremental_bytes E job prev f))) \<and>
     (\<forall>f \<in> set (unchanged_files prev (map af_path fs)). lookup (rs_disk rst) (base @ [file_name (af_path f)]) = Some (File (old f)))"
proof -
  let ?un = "unchanged_files prev (map af_path fs)"
  let ?ps = "map (\<lambda>f. (f, old f)) ?un @ map (\<lambda>f. (f, incremental_bytes E job prev f)) fs"
  have g: "local_ok X J root (es_repo st) \<and> repo_sound D G (local_stored root) (local_known X root) (location_of X) (es_repo st) \<and>
     dedup_sound (local_known X root) (location_of X) (es_repo st) (es_dedup st)"
    using assms(3) by (simp add: backup_ready_def)
  from local.incremental_run_ok [OF assms(2,1) g assms(9,10,4-6) assms(7) [unfolded version_entry_def] assms(8,11)]
  obtain v m where v: "bt_version_id res = Some v" "local_saved X J root (es_repo st') v = Some m"
      "local_ok X J root (es_repo st')" "repo_sound D G (local_stored root) (local_known X root) (location_of X) (es_repo st')"
      "locs_sound (en_crates E) (location_of X) (am_chunk_locations m)"
      "list_all2 (\<lambda>x f'. af_path f' = af_path (fst x) \<and> local.entry_ok X root D E (es_repo st') f' (snd x)) ?ps (am_files m)"
    by blast
  have names: "\<forall>x \<in> set ?ps. file_name (af_path (fst x)) \<noteq> []" using assms(13) by (auto simp: unchanged_files_def)
  have "length ?un \<le> length (am_files prev)" by (simp add: unchanged_files_def)
  then have len: "length ?ps < 2 ^ 64" using assms(14) by simp
  have dist: "distinct (map (\<lambda>(f, d). file_name (af_path f)) ?ps)" using assms(15) by (simp add: comp_def)
  have wr: "written ?ps o' (file_name (af_path f)) = Some (File d)" if "(f, d) \<in> set ?ps" for f d o'
    by (rule written_distinct [OF dist that])
  from local.saved_version_restores [OF assms(2,1) v(3,4,2,5,6) assms(12) names len] obtain rr rst where
    rr: "run_restore G (restore_everything v base) (restore_start t (es_repo st')) = (Inr rr, rst)" "rr_all_verified rr"
      "rr_files_failed rr = 0" "rs_state rst = RsSuccess"
      "\<forall>x. lookup (rs_disk rst) (base @ [x]) = written ?ps (\<lambda>x. lookup t (base @ [x])) x" by blast
  show ?thesis using v(1) rr wr by (intro exI [of _ v] exI [of _ rr] exI [of _ rst]) auto
qed

subsection \<open>Resumed and repeated backups\<close>

lemma store_new_files: "store_new E conc h d a st = (Inr a', st') \<Longrightarrow> ra_files a' = ra_files a"
  by (auto simp: store_new_def and_then_Ok_iff Let_def insert_location_def fresh_uuid_def)

lemma store_chunk_files: "store_chunk E conc d a st = (Inr a', st') \<Longrightarrow> ra_files a' = ra_files a"
  by (auto simp: store_chunk_def Let_def and_then_Ok_iff insert_location_def dest: store_new_files
      split: if_splits option.splits)

lemma backup_chunks_files: "backup_chunks E conc v p cs a st = (Inr a', st') \<Longrightarrow> ra_files a' = ra_files a"
proof (induction cs arbitrary: a st)
  case (Cons c cs)
  then obtain a1 st1 where s: "store_chunk E conc (rc_data c) a st = (Inr a1, st1)" by (auto simp: and_then_Ok_iff)
  with Cons.prems Cons.IH store_chunk_files [OF s] show ?case by fastforce
qed simp

lemma chunk_and_store_files:
  "chunk_and_store E conc track job v f r a st = (Inr a', st') \<Longrightarrow> \<exists>f'. ra_files a' = ra_files a @ [f'] \<and> af_path f' = af_path f"
  by (auto simp: chunk_and_store_def and_then_Ok_iff Let_def add_file_def completed_entry_def dest!: backup_chunks_files)

lemma resume_files_skip:
  "resume_files E job v don planned k fs a st = (Inr a', st') \<Longrightarrow>
   f \<in> set (ra_files a') \<Longrightarrow> f \<in> set (ra_files a) \<or> af_path f \<notin> set don"
proof (induction fs arbitrary: k a st)
  case (Cons g fs)
  show ?case
  proof (cases "af_path g \<in> set don \<or> en_open E (af_path g) = None")
    case True
    then show ?thesis using Cons.prems Cons.IH by (fastforce split: if_splits)
  next
    case False
    then obtain r where r: "en_open E (af_path g) = Some r" by auto
    obtain a1 st1 where s: "chunk_and_store E False True job v g r a st = (Inr a1, st1)"
      using Cons.prems(1) False r by (auto simp: and_then_Ok_iff)
    obtain g' where "ra_files a1 = ra_files a @ [g']" "af_path g' = af_path g" using chunk_and_store_files [OF s] by blast
    moreover have "f \<in> set (ra_files a1) \<or> af_path f \<notin> set don"
      using Cons.prems False r s Cons.IH by (fastforce simp: Let_def)
    ultimately show ?thesis using False by auto
  qed
qed simp

text \<open>(C40) A resumed backup loses what the interrupted one had done: the manifest it commits contains no file
  the journal already lists as processed, and nothing else refers to those files.\<close>

theorem resumed_backup_omits_processed_files:
  assumes "run_backup_resumable E job x st = (Inr res, st')"
  shows "\<exists>v m r. bt_version_id res = Some v \<and> br_write_manifest (en_repo E) v m r = (Inr (), es_repo st') \<and>
     am_parent_version_id m = None \<and> (\<forall>f \<in> set (am_files m). af_path f \<notin> set (processed_files E (bj_job_id job) st))"
proof -
  let ?don = "processed_files E (bj_job_id job) st"
  obtain v st1 where s: "start_run E job x st = (v, st1)" by fastforce
  obtain fs a st2 where r: "resume_files E job v ?don (max 1 (en_estimate E (bj_source job))) 0 fs run_acc_new (set_state ExChunking st1) = (Inr a, st2)"
      and f: "finish_full E job v a st2 = (Inr res, st')"
    using assms s by (auto simp: run_backup_resumable_def Let_def and_then_Ok_iff lift_err_def map_err_Ok_iff)
  obtain m st3 where c: "commit_version E v None 1 Full (ra_files a) (ra_refs a) (ra_locations a) st2 = (Inr m, st3)"
      "res = result_of v a" "es_repo st' = es_repo st3"
    using f by (auto simp: finish_full_def and_then_Ok_iff)
  have b: "build_manifest E v None 1 Full (ra_files a) (ra_refs a) (ra_locations a) = Inr m"
      "\<exists>r. br_write_manifest (en_repo E) v m r = (Inr (), es_repo st3)"
    using c(1) by (auto simp: commit_version_def Let_def and_then_Ok_iff lift_err_def map_err_Ok_iff on_repo_def split: prod.splits)
  have "am_files m = ra_files a" "am_parent_version_id m = None" using b(1) by (auto simp: build_manifest_def Let_def split: option.splits)
  moreover have "\<forall>f \<in> set (ra_files a). af_path f \<notin> set ?don"
    using resume_files_skip [OF r] by (auto simp: run_acc_new_def)
  ultimately show ?thesis using b(2) c(2,3) by (auto simp: result_of_def)
qed

text \<open>A chunk write that is cut off poisons the repository: the truncated file stays at its final place,
  counts as an existing chunk, later backups reference it without uploading anything and report
  success, and reading it fails.\<close>

theorem torn_chunk_is_reused:
  assumes "local_ok X J root (s\<lparr>faults := []\<rparr>)" and "faults s = [NoFault, Torn n]" and "n < 28" and "chunk_wf e"
    and "en_repo E = local_repository X J fresh now root" and "h = blake3_hash (en_crates E) data"
    and "map_of (di_index (es_dedup st)) h = None"
  shows "\<exists>s'. local_write_chunk X root h e s = (Inl (ReIo IoFault), s') \<and>
     (\<exists>a' st'. store_chunk E conc data a (st\<lparr>es_repo := s'\<rparr>) = (Inr a', st') \<and> es_repo st' = s' \<and>
        map_of (ra_locations a') (hex_encode (en_crates E) h) = Some (location_of X h)) \<and>
     local_read_chunk root (location_of X h) s' = (Inl (ReIo IoInvalidData), s')"
proof -
  let ?s0 = "s\<lparr>faults := []\<rparr>" and ?p = "local_chunk_path X root h" and ?d = "take n (encode_encrypted_chunk e)"
  have bl: "butlast ?p = root @ [''chunks'', bucket_name X h]" by (simp add: local_chunk_path_def butlast_append)
  have "\<forall>q. prefix q (butlast ?p) \<longrightarrow> \<not> is_file s q"
    using assms(1) unfolding bl by (auto simp: local_ok_def is_file_def)
  then obtain t where t: "mk_dirs (tl (prefixes (butlast ?p))) (s\<lparr>faults := [Torn n]\<rparr>) = (Inr (), t)"
      "\<forall>q \<in> set (tl (prefixes (butlast ?p))). is_dir t q"
    using mk_dirs_total [of "tl (prefixes (butlast ?p))" "s\<lparr>faults := [Torn n]\<rparr>"] in_tl_prefixes by (auto simp: is_file_def)
  have ft: "faults t = [Torn n]" using mk_dirs_faults [OF t(1)] by simp
  have "butlast ?p \<in> set (tl (prefixes (butlast ?p)))" unfolding bl by (cases root) auto
  then have dir: "is_dir t (butlast ?p)" using t(2) by blast
  have cd: "fs_create_dir_all (butlast ?p) s = (Inr (), t)" using t(1) assms(2) by (simp add: fs_create_dir_all_def next_fault_def)
  have "\<not> is_dir t ?p"
    using create_dir_all_lookup [OF cd, of ?p] assms(1) unfolding bl
    by (auto simp: local_ok_def is_dir_def local_chunk_path_def)
  then have w: "fs_write ?p (encode_encrypted_chunk e) t = (Inl IoFault, set_node ?p (File ?d) (t\<lparr>faults := []\<rparr>))"
    using dir ft by (simp add: fs_write_def next_fault_def is_dir_def)
  let ?s' = "set_node ?p (File ?d) (t\<lparr>faults := []\<rparr>)"
  have wr: "local_write_chunk X root h e s = (Inl (ReIo IoFault), ?s')"
    using cd w by (simp add: local_write_chunk_def Let_def)
  have ex: "path_exists ?s' ?p" by (simp add: path_exists_def)
  have "local_read_chunk root (location_of X h) ?s' = (Inl (ReIo IoInvalidData), ?s')"
    using assms(3) by (simp add: local_read_chunk_def location_path_of fs_read_def decode_encrypted_chunk_def)
  moreover have "\<exists>a' st'. store_chunk E conc data a (st\<lparr>es_repo := ?s'\<rparr>) = (Inr a', st') \<and> es_repo st' = ?s' \<and>
        map_of (ra_locations a') (hex_encode (en_crates E) h) = Some (location_of X h)"
    using assms(5-7) ex by (auto simp: store_chunk_def batch_lookup_def lookup_one_def Let_def on_repo_def insert_location_def
        local_repository_def local_chunk_exists_def local_find_chunk_def map_of_update)
  ultimately show ?thesis using wr by blast
qed

end
