(* ===== verification/Agent_Examples.thy ===== *)
theory Agent_Examples
  imports Agent_Incremental
begin

text \<open>
  Concrete runs of the agent: a repository in an in-memory file system with the sample crates,
  identity compression and a cipher that only frames its input.  They show that the hypotheses
  of the agent's theorems hold together and what the theorems say there.
\<close>

subsection \<open>The environment\<close>

definition ex_entry :: "string \<Rightarrow> ag_file_entry" where
  "ex_entry p = \<lparr>af_path = p, af_size = 2, af_modified_at = 0, af_attributes = file_attributes_default, af_chunks = [], af_file_hash = []\<rparr>"

definition ex_manifest :: "uuid \<Rightarrow> uuid option \<Rightarrow> u64 \<Rightarrow> backup_type \<Rightarrow> (string \<times> bytes list \<times> u64 list) list \<Rightarrow> (string, ag_chunk_location) hmap \<Rightarrow> ag_manifest" where
  "ex_manifest v parent n bt files locs =
     (let fs = map (\<lambda>(p, ds, os). (ex_entry p)\<lparr>af_chunks := ds, af_file_hash := concat ds\<rparr>) files;
          rs = concat (map (\<lambda>(p, ds, os). map (\<lambda>(d, o'). \<lparr>cr_hash = d, cr_version_id = v, cr_file_path = p, cr_offset = o'\<rparr>) (zip ds os)) files);
          fh = concat (map af_file_hash fs); ch = concat (map cr_hash rs) in
      \<lparr>am_version_id = v, am_timestamp = 0, am_parent_version_id = parent, am_version_number = n, am_backup_type = bt,
       am_files = fs, am_chunk_refs = rs,
       am_hashes = \<lparr>mh_manifest_hash = [9], mh_file_index_hash = fh, mh_chunk_index_hash = ch, mh_repo_hash = [9] @ fh @ ch\<rparr>,
       am_chunk_locations = locs\<rparr>)"

definition ex_json :: "ag_manifest list \<Rightarrow> repo_json" where
  "ex_json ms = \<lparr>oj_manifest_to_vec = (\<lambda>m. if m \<in> set ms then Some [of_nat (length (takeWhile (\<lambda>x. x \<noteq> m) ms))] else None),
     oj_manifest_from_slice = (\<lambda>b. case b of [k] \<Rightarrow> if unat k < length ms then Some (ms ! unat k) else None | _ \<Rightarrow> None),
     oj_lock_to_vec = (\<lambda>l. Some [1]), oj_lock_from_slice = (\<lambda>b. Some (lock_file_new [5] 0 LkBackup 1800)),
     oj_repo_lock_to_vec = (\<lambda>l. Some [2]), oj_meta_to_vec = (\<lambda>m. Some [3]), oj_config_to_vec = (\<lambda>c. Some [4]), oj_volumes_to_vec = Some [5]\<rparr>"

lemma takeWhile_in: "m \<in> set ms \<Longrightarrow> length (takeWhile (\<lambda>x. x \<noteq> m) ms) < length ms"
  by (induction ms) auto

lemma ex_json_inverse:
  assumes "length ms < 256" and "oj_manifest_to_vec (ex_json ms) m = Some b"
  shows "oj_manifest_from_slice (ex_json ms) b = Some m"
proof -
  let ?k = "length (takeWhile (\<lambda>x. x \<noteq> m) ms)"
  have m: "m \<in> set ms" "b = [of_nat ?k]" using assms(2) by (auto simp: ex_json_def split: if_splits)
  have k: "?k < length ms" using takeWhile_in m(1) .
  have "unat (of_nat ?k :: u8) = ?k" using k assms(1) by (simp add: unsigned_of_nat take_bit_nat_eq_self)
  moreover have "ms ! ?k = m" using nth_length_takeWhile [OF k] by simp
  ultimately show ?thesis using m(2) k by (simp add: ex_json_def)
qed

definition ex_disk :: fsys where
  "ex_disk = \<lparr>nodes = [([''manifests''], Dir), ([''manifests'', ''.staging''], Dir)], faults = []\<rparr>"

definition ex_engine :: "repo_json \<Rightarrow> (string \<times> reader) list \<Rightarrow> (fsys, unit) backup_engine" where
  "ex_engine J files = \<lparr>en_crates = sample_crates, en_sha256 = (\<lambda>d. d), en_manifest_to_vec = (\<lambda>m. Some [9]), en_now = 0,
     en_uuid = (\<lambda>n. [of_nat n]), en_scan = (\<lambda>src snap. Inr (map (ex_entry \<circ> fst) files)), en_estimate = (\<lambda>src. 1),
     en_open = map_of files, en_chunk = fixed_chunk, en_compress = Inr,
     en_encrypt = (\<lambda>d k. Inr \<lparr>ec_ciphertext = d, ec_nonce = replicate 12 0, ec_auth_tag = replicate 16 0\<rparr>),
     en_repo = local_repository sample_crates J [8] 0 [], en_journal = None, en_memory_limit = 268435456\<rparr>"

definition ex_restore :: "repo_json \<Rightarrow> fsys restore_engine" where
  "ex_restore J = \<lparr>rg_crates = sample_crates, rg_sha256 = (\<lambda>d. d), rg_decompress = Inr, rg_decrypt = Inr \<circ> ec_ciphertext,
     rg_repo = local_repository sample_crates J [8] 0 []\<rparr>"

definition ex_job :: backup_job where
  "ex_job = \<lparr>bj_job_id = [4], bj_name = ''home'', bj_source = \<lparr>bs_paths = [], bs_include_rules = [], bs_exclude_rules = []\<rparr>,
     bj_destination = \<lparr>bd_repository_id = [1], bd_logical_path = []\<rparr>, bj_schedule = [2], bj_retention_policy = [3],
     bj_encryption_profile = [5], bj_compression_profile = \<lparr>cp_algorithm = Zstd, cp_level = 3\<rparr>,
     bj_chunking_profile = Small, bj_status = JobActive, bj_created_at = 0\<rparr>"

definition ex_start :: "fsys \<Rightarrow> nat \<Rightarrow> (fsys, unit) engine_st" where
  "ex_start s k = \<lparr>es_dedup = dedup_new, es_repo = s, es_journal = (), es_state = ExPending, es_completed = False, es_next = k\<rparr>"

text \<open>The data in play: chunks of at most 256 MB, the memory budget of the engine.\<close>

definition ex_data :: "bytes set" where
  "ex_data = {d. length d \<le> 268435456}"

lemma ex_pipeline: "pipeline_ok ex_data (ex_engine J files) (ex_restore J) chunk_wf"
proof -
  have "(of_nat n :: u64) \<le> 268435456" if "n \<le> 268435456" for n
    using that by (simp add: word_le_nat_alt unsigned_of_nat take_bit_nat_eq_self)
  moreover have "inj_on (blake3_hash sample_crates) ex_data" by (simp add: inj_on_def)
  ultimately show ?thesis by (simp add: pipeline_ok_def ex_engine_def ex_restore_def chunk_wf_def ex_data_def)
qed

lemma manifest_not_staging: "x @ ''.manifest'' \<noteq> ''.staging''"
  by (rule notI) (drule arg_cong [where f = length], simp)

lemma ex_disk_ok: "length ms < 256 \<Longrightarrow> local_ok sample_crates (ex_json ms) [] ex_disk"
  by (auto simp: local_ok_def ex_disk_def is_file_def is_dir_def lookup_def local_manifest_path_def local_staging_path_def
      manifest_filename_def manifest_not_staging ex_json_inverse split: if_splits option.splits)

lemma ex_ready: "length ms < 256 \<Longrightarrow> backup_ready ex_data sample_crates (ex_json ms) [] (ex_restore (ex_json ms)) (ex_start ex_disk k)"
  using ex_disk_ok by (auto simp: backup_ready_def ex_start_def repo_sound_def dedup_sound_def dedup_new_def local_known_def
      path_exists_def local_chunk_path_def ex_disk_def lookup_def)

lemma ex_target: "target_ready [''out''] \<lparr>nodes = [], faults = []\<rparr>"
  by (simp add: target_ready_def is_file_def is_dir_def lookup_def)

text \<open>How manifests are serialized does not matter before the commit.\<close>

lemma ex_engine_fields [simp]:
  "en_crates (ex_engine J files) = sample_crates" "en_sha256 (ex_engine J files) = (\<lambda>d. d)"
  "en_chunk (ex_engine J files) = fixed_chunk" "en_open (ex_engine J files) = map_of files" "en_journal (ex_engine J files) = None"
  "en_repo (ex_engine J files) = local_repository sample_crates J [8] 0 []"
  "en_scan (ex_engine J files) src snap = Inr (map (ex_entry \<circ> fst) files)" "af_path (ex_entry p) = p"
  by (simp_all add: ex_engine_def ex_entry_def)

lemma ex_engine_more [simp]:
  "en_uuid (ex_engine J files) = (\<lambda>n. [of_nat n])" "en_compress (ex_engine J files) = Inr"
  "en_encrypt (ex_engine J files) d k = Inr \<lparr>ec_ciphertext = d, ec_nonce = replicate 12 0, ec_auth_tag = replicate 16 0\<rparr>"
  "en_memory_limit (ex_engine J files) = 268435456" "en_now (ex_engine J files) = 0" "en_manifest_to_vec (ex_engine J files) m = Some [9]"
  by (simp_all add: ex_engine_def)

lemma chunk_ops_json [simp]:
  "br_write_chunk (local_repository X J fresh now root) = local_write_chunk X root"
  "br_chunk_exists (local_repository X J fresh now root) = local_chunk_exists X root"
  "br_find_chunk (local_repository X J fresh now root) = local_find_chunk X root"
  "br_delete_chunk (local_repository X J fresh now root) = local_delete_chunk root"
  by (simp_all add: local_repository_def)

lemma insert_location_json: "insert_location (ex_engine J files) = insert_location (ex_engine J' files)"
  by (intro ext) (simp add: insert_location_def)

lemma rollback_json:
  "rollback (local_repository X J fresh now root) ws r = rollback (local_repository X J' fresh now root) ws r"
  by (induction "local_repository X J fresh now root" ws r rule: rollback.induct) (simp_all split: prod.splits sum.splits)

lemmas ex_fields = ex_engine_fields ex_engine_more chunk_ops_json

lemma upload_json: "upload (ex_engine J files) = upload (ex_engine J' files)"
  by (intro ext) (unfold upload_def ex_fields rollback_json [of _ J _ _ _ _ _ J'], rule refl)

lemma store_chunk_json: "store_chunk (ex_engine J files) = store_chunk (ex_engine J' files)"
  by (intro ext) (unfold store_chunk_def store_new_def fresh_uuid_def memory_acquire_def ex_fields
      upload_json [of J files J'] insert_location_json [of J files J'], rule refl)

lemma backup_chunks_json: "backup_chunks (ex_engine J files) conc v p cs = backup_chunks (ex_engine J' files) conc v p cs"
  by (induction cs) (intro ext, simp add: store_chunk_json [of J files J'])+

lemma completed_entry_json: "completed_entry (ex_engine J files) = completed_entry (ex_engine J' files)"
  by (intro ext) (simp add: completed_entry_def)

lemma chunk_and_store_json: "chunk_and_store (ex_engine J files) = chunk_and_store (ex_engine J' files)"
  by (intro ext) (unfold chunk_and_store_def backup_chunks_json [of J files _ _ _ _ J'] completed_entry_json [of J files J'] ex_fields, rule refl)

lemma log_file_json: "log_file (ex_engine J files) = log_file (ex_engine J' files)"
  by (intro ext) (simp add: log_file_def journal_append_to_def)

lemma backup_files_json: "backup_files (ex_engine J files) conc job v fs = backup_files (ex_engine J' files) conc job v fs"
proof (induction fs)
  case (Cons f fs)
  show ?case
    by (intro ext) (unfold backup_files.simps Cons chunk_and_store_json [of J files J'] log_file_json [of J files J'] ex_fields, rule refl)
qed (intro ext, simp)

lemma reuse_chunks_json: "reuse_chunks (ex_engine J files) prev v p hs a = reuse_chunks (ex_engine J' files) prev v p hs a"
  by (induction "ex_engine J files" prev v p hs a rule: reuse_chunks.induct) (simp_all add: Let_def)

lemma diff_and_store_json: "diff_and_store (ex_engine J files) = diff_and_store (ex_engine J' files)"
  by (intro ext) (unfold diff_and_store_def backup_chunks_json [of J files _ _ _ _ J'] reuse_chunks_json [of J files _ _ _ _ _ J']
      completed_entry_json [of J files J'] ex_fields, rule refl)

lemma incremental_files_json: "incremental_files (ex_engine J files) job prev v fs = incremental_files (ex_engine J' files) job prev v fs"
proof (induction fs)
  case (Cons f fs)
  show ?case
    by (intro ext) (unfold incremental_files.simps Cons chunk_and_store_json [of J files J'] diff_and_store_json [of J files J'] ex_fields, rule refl)
qed (intro ext, simp)

subsection \<open>Full backups\<close>

text \<open>The manifest a run would write, computed with a serializer that is never asked.\<close>

definition ex_m :: "(string \<times> reader) list \<Rightarrow> ag_manifest" where
  "ex_m files = (let E = ex_engine (ex_json []) files; (v, st) = start_run E ex_job [6] (ex_start ex_disk 0);
      a = projr (fst (backup_files E False ex_job v (map (ex_entry \<circ> fst) files) run_acc_new (set_state ExChunking st)))
    in projr (build_manifest E v None 1 Full (ra_files a) (ra_refs a) (ra_locations a)))"

lemma start_run_json: "start_run (ex_engine J files) = start_run (ex_engine J' files)"
  by (intro ext) (simp add: start_run_def fresh_uuid_def journal_append_to_def)

lemma build_manifest_json: "build_manifest (ex_engine J files) = build_manifest (ex_engine J' files)"
  by (intro ext) (simp add: build_manifest_def)

lemma build_manifest_Inr: "\<exists>m. build_manifest (ex_engine J files) v parent n bt fs refs locs = Inr m"
  by (simp add: build_manifest_def Let_def)

lemma commit_Inr:
  assumes "local_ok sample_crates J [] (es_repo st)" and "build_manifest (ex_engine J files) v parent n bt fs refs locs = Inr m"
    and "oj_manifest_to_vec J m \<noteq> None"
  shows "\<exists>st'. commit_version (ex_engine J files) v parent n bt fs refs locs st = (Inr m, st')"
  using local.write_manifest [of sample_crates J "[]" "es_repo st" m "[8]" 0 v] assms
  by (auto simp: commit_version_def Let_def lift_err_def on_repo_def)

lemma ex_full_run:
  assumes J: "J = ex_json [ex_m files]" and src: "source_readable (ex_engine J files) (map (ex_entry \<circ> fst) files)"
      "chunk_data (ex_engine J files) ex_job (map (ex_entry \<circ> fst) files) \<subseteq> ex_data"
  shows "\<exists>res st'. run_backup (ex_engine J files) ex_job [6] (ex_start ex_disk 0) = (Inr res, st')"
proof -
  let ?E = "ex_engine J files" and ?fs = "map (ex_entry \<circ> fst) files"
  obtain v st where s: "start_run ?E ex_job [6] (ex_start ex_disk 0) = (v, st)" by fastforce
  have "es_repo st = ex_disk" "es_dedup st = dedup_new" using s by (auto simp: start_run_def fresh_uuid_def journal_append_to_def ex_start_def set_state_def Let_def)
  then have g: "local_ok sample_crates J [] (es_repo (set_state ExChunking st)) \<and>
      repo_sound ex_data (ex_restore J) (local_stored []) (local_known sample_crates []) (location_of sample_crates) (es_repo (set_state ExChunking st)) \<and>
      dedup_sound (local_known sample_crates []) (location_of sample_crates) (es_repo (set_state ExChunking st)) (es_dedup (set_state ExChunking st))"
    using ex_ready [of "[ex_m files]" 0] J by (simp add: backup_ready_def ex_start_def)
  have R: "en_repo ?E = local_repository sample_crates J [8] 0 []" by simp
  have "locs_sound (en_crates ?E) (location_of sample_crates) (ra_locations run_acc_new)" by (simp add: locs_sound_def run_acc_new_def)
  from local.backup_files_ok [OF ex_pipeline R g this src, of False v] obtain a st1 where
    b: "backup_files ?E False ex_job v ?fs run_acc_new (set_state ExChunking st) = (Inr a, st1)" "local_ok sample_crates J [] (es_repo st1)"
    by blast
  obtain m where m: "build_manifest ?E v None 1 Full (ra_files a) (ra_refs a) (ra_locations a) = Inr m"
    using build_manifest_Inr by blast
  have "ex_m files = m"
    using s b(1) m unfolding ex_m_def Let_def start_run_json [of "ex_json []" files J] backup_files_json [of "ex_json []" files _ _ _ _ J]
      build_manifest_json [of "ex_json []" files J] by simp
  then have "oj_manifest_to_vec J m \<noteq> None" using J by (simp add: ex_json_def)
  from commit_Inr [OF b(2) m this] obtain st2 where "commit_version ?E v None 1 Full (ra_files a) (ra_refs a) (ra_locations a) st1 = (Inr m, st2)" by blast
  then show ?thesis using s b(1) by (simp add: run_backup_def lift_err_def finish_full_def)
qed

definition ex_files :: "(string \<times> reader) list" where
  "ex_files = [(''a/x'', [Seg [1, 2], Seg [3]]), (''a/y'', [Seg [4]])]"

lemma ex_file_name [simp]: "file_name ''a/x'' = ''x''" "file_name ''a/y'' = ''y''" "file_name ''b/x'' = ''x''"
  by (simp_all add: file_name_def)

lemma ex_source:
  "source_readable (ex_engine J ex_files) (map (ex_entry \<circ> fst) ex_files)"
  "chunk_data (ex_engine J ex_files) ex_job (map (ex_entry \<circ> fst) ex_files) \<subseteq> ex_data"
  by (auto simp: source_readable_def ex_files_def healthy_def chunk_data_def source_chunks_def fixed_chunk_def ex_job_def ex_data_def)

text \<open>Two files, one of them read in two pieces, come back byte for byte.\<close>

theorem backup_then_restore_witness:
  "let J = ex_json [ex_m ex_files]; r = run_backup (ex_engine J ex_files) ex_job [6] (ex_start ex_disk 0) in
   \<exists>v rst rr. bt_version_id (projr (fst r)) = Some v \<and>
     run_restore (ex_restore J) (restore_everything v [''out'']) (restore_start \<lparr>nodes = [], faults = []\<rparr> (es_repo (snd r))) = (Inr rr, rst) \<and>
     lookup (rs_disk rst) [''out'', ''x''] = Some (File [1, 2, 3]) \<and> lookup (rs_disk rst) [''out'', ''y''] = Some (File [4])"
proof -
  define J where "J = ex_json [ex_m ex_files]"
  let ?fs = "map (ex_entry \<circ> fst) ex_files"
  have src: "source_readable (ex_engine J ex_files) ?fs" "chunk_data (ex_engine J ex_files) ex_job ?fs \<subseteq> ex_data"
    by (rule ex_source)+
  obtain res st' where run: "run_backup (ex_engine J ex_files) ex_job [6] (ex_start ex_disk 0) = (Inr res, st')"
    using ex_full_run [OF J_def src] by blast
  have "backup_ready ex_data sample_crates J [] (ex_restore J) (ex_start ex_disk 0)" unfolding J_def by (rule ex_ready) simp
  from backup_then_restore [OF _ ex_pipeline this _ src run ex_target]
  show ?thesis unfolding Let_def J_def [symmetric] run
    by (fastforce simp: ex_files_def source_bytes_def)
qed

text \<open>Two files called \<open>x\<close> in different directories: one is lost.\<close>

theorem restore_loses_files_of_same_name_witness:
  "let fs = [(''a/x'', [Seg [1]]), (''b/x'', [Seg [2]])]; J = ex_json [ex_m fs];
       r = run_backup (ex_engine J fs) ex_job [6] (ex_start ex_disk 0) in
   \<exists>v rst rr. bt_version_id (projr (fst r)) = Some v \<and>
     run_restore (ex_restore J) (restore_everything v [''out'']) (restore_start \<lparr>nodes = [], faults = []\<rparr> (es_repo (snd r))) = (Inr rr, rst) \<and>
     unat (rr_files_restored rr) = 2 \<and> rs_state rst = RsSuccess \<and> lookup (rs_disk rst) [''out'', ''x''] \<noteq> Some (File [1])"
proof -
  define fs where "fs = [(''a/x'', [Seg [1 :: u8]]), (''b/x'', [Seg [2]])]"
  define J where "J = ex_json [ex_m fs]"
  have src: "source_readable (ex_engine J fs) (map (ex_entry \<circ> fst) fs)"
      "chunk_data (ex_engine J fs) ex_job (map (ex_entry \<circ> fst) fs) \<subseteq> ex_data"
    by (auto simp: source_readable_def fs_def healthy_def chunk_data_def source_chunks_def fixed_chunk_def ex_job_def ex_data_def)
  obtain res st' where run: "run_backup (ex_engine J fs) ex_job [6] (ex_start ex_disk 0) = (Inr res, st')"
    using ex_full_run [OF J_def src] by blast
  have rdy: "backup_ready ex_data sample_crates J [] (ex_restore J) (ex_start ex_disk 0)" unfolding J_def by (rule ex_ready) simp
  have "source_readable (ex_engine J fs) ([] @ [ex_entry ''a/x''] @ [] @ [ex_entry ''b/x''])"
      "chunk_data (ex_engine J fs) ex_job ([] @ [ex_entry ''a/x''] @ [] @ [ex_entry ''b/x'']) \<subseteq> ex_data"
    using src by (simp_all add: fs_def)
  from restore_loses_files_of_same_name [OF _ ex_pipeline rdy _ this run ex_target]
  show ?thesis unfolding Let_def fs_def [symmetric] J_def [symmetric] run
    by (fastforce simp: fs_def source_bytes_def)
qed

subsection \<open>An incremental backup\<close>

definition ex_prev :: ag_manifest where
  "ex_prev = ex_manifest [7] None 1 Full [(''a/x'', [[1]], [0])] [(hex_encode sample_crates [1], location_of sample_crates [1])]"

definition ex_sealed :: "bytes \<Rightarrow> encrypted_chunk" where
  "ex_sealed d = \<lparr>ec_ciphertext = d, ec_nonce = replicate 12 0, ec_auth_tag = replicate 16 0\<rparr>"

definition ex_disk2 :: "repo_json \<Rightarrow> fsys" where
  "ex_disk2 J = snd (local_write_manifest sample_crates J [] [7] ex_prev
     (snd (local_write_chunk sample_crates [] [1] (ex_sealed [1]) ex_disk)))"

lemma ex_disk2_facts:
  assumes "J = ex_json [ex_prev, m]"
  shows "local_ok sample_crates J [] (ex_disk2 J)" "local_saved sample_crates J [] (ex_disk2 J) [7] = Some ex_prev"
    "local_known sample_crates [] (ex_disk2 J) h \<longleftrightarrow> h = [1]"
    "local_stored [] (ex_disk2 J) (location_of sample_crates [1]) = Some (ex_sealed [1])"
proof -
  have ok: "local_ok sample_crates J [] ex_disk" unfolding assms by (rule ex_disk_ok) simp
  have nk: "\<not> local_known sample_crates [] ex_disk k" for k
    by (simp add: local_known_def path_exists_def local_chunk_path_def ex_disk_def lookup_def)
  obtain s1 where s1: "local_write_chunk sample_crates [] [1] (ex_sealed [1]) ex_disk = (Inr (location_of sample_crates [1]), s1)"
      "local_ok sample_crates J [] s1" "local_stored [] s1 (location_of sample_crates [1]) = Some (ex_sealed [1])"
      "\<forall>k. local_known sample_crates [] s1 k \<longleftrightarrow> local_known sample_crates [] ex_disk k \<or> k = [1]"
    using local_write_chunk_ok [OF ok, of "ex_sealed [1]" "[1]"] by (auto simp: chunk_wf_def ex_sealed_def)
  have vec: "oj_manifest_to_vec J ex_prev \<noteq> None" by (simp add: assms ex_json_def)
  obtain s2 where s2: "local_write_manifest sample_crates J [] [7] ex_prev s1 = (Inr (), s2)" "local_ok sample_crates J [] s2"
      "local_stored [] s2 = local_stored [] s1" "local_known sample_crates [] s2 = local_known sample_crates [] s1"
      "local_saved sample_crates J [] s2 [7] = Some ex_prev"
    using local_write_manifest_ok [OF s1(2) vec, of "[7]"] by auto
  have "ex_disk2 J = s2" using s1(1) s2(1) by (simp add: ex_disk2_def)
  then show "local_ok sample_crates J [] (ex_disk2 J)" "local_saved sample_crates J [] (ex_disk2 J) [7] = Some ex_prev"
    "local_known sample_crates [] (ex_disk2 J) h \<longleftrightarrow> h = [1]"
    "local_stored [] (ex_disk2 J) (location_of sample_crates [1]) = Some (ex_sealed [1])"
    using s1 s2 nk by simp_all
qed

lemma ex_disk2_ready:
  assumes "J = ex_json [ex_prev, m]"
  shows "backup_ready ex_data sample_crates J [] (ex_restore J) (ex_start (ex_disk2 J) 1)"
  using ex_disk2_facts [OF assms]
  by (auto simp: backup_ready_def ex_start_def repo_sound_def dedup_sound_def dedup_new_def opens_def ex_restore_def ex_sealed_def ex_data_def)

definition ex_changed :: "(string \<times> reader) list" where
  "ex_changed = [(''a/x'', [Seg [1], Seg [2]])]"

lemma ex_changed_source:
  "source_readable (ex_engine J ex_changed) (map (ex_entry \<circ> fst) ex_changed)"
  "chunk_data (ex_engine J ex_changed) ex_job (map (ex_entry \<circ> fst) ex_changed) \<subseteq> ex_data"
  by (auto simp: source_readable_def ex_changed_def healthy_def chunk_data_def source_chunks_def fixed_chunk_def ex_job_def ex_data_def)

text \<open>The state in which the changed files are processed does not depend on the serializer except
  for the disk, which is fixed here.\<close>

definition ex_m2 :: ag_manifest where
  "ex_m2 = (let E = ex_engine (ex_json []) ex_changed; fs = map (ex_entry \<circ> fst) ex_changed;
      s = snd (local_write_manifest sample_crates (ex_json [ex_prev]) [] [7] ex_prev
            (snd (local_write_chunk sample_crates [] [1] (ex_sealed [1]) ex_disk)));
      a = projr (fst (incremental_files E ex_job ex_prev [1] fs run_acc_new
            (set_state ExChunking (set_state ExScanning (ex_start s 2)))));
      un = unchanged_files ex_prev (map af_path fs)
    in projr (build_manifest E [1] (Some [7]) (am_version_number ex_prev + 1) Incremental (un @ ra_files a)
         (unchanged_refs ex_prev [1] un @ ra_refs a)
         (fold (\<lambda>(k, l). or_insert k l) (am_chunk_locations ex_prev) (ra_locations a))))"

lemma ex_incremental_run:
  assumes J: "J = ex_json [ex_prev, ex_m2]"
  shows "\<exists>res st'. run_incremental_backup (ex_engine J ex_changed) ex_job [7] (ex_start (ex_disk2 J) 1) = (Inr res, st')"
proof -
  let ?E = "ex_engine J ex_changed" and ?fs = "map (ex_entry \<circ> fst) ex_changed"
  have dj: "ex_disk2 J = ex_disk2 (ex_json [ex_prev])"
    by (simp add: ex_disk2_def local_write_manifest_def J ex_json_def)
  let ?st = "set_state ExChunking (set_state ExScanning (ex_start (ex_disk2 J) 2))"
  have g: "local_ok sample_crates J [] (es_repo ?st) \<and>
      repo_sound ex_data (ex_restore J) (local_stored []) (local_known sample_crates []) (location_of sample_crates) (es_repo ?st) \<and>
      dedup_sound (local_known sample_crates []) (location_of sample_crates) (es_repo ?st) (es_dedup ?st)"
    using ex_disk2_ready [OF J] by (simp add: backup_ready_def ex_start_def)
  have R: "en_repo ?E = local_repository sample_crates J [8] 0 []" by simp
  have src: "source_readable ?E ?fs" "chunk_data ?E ex_job ?fs \<subseteq> ex_data" by (rule ex_changed_source)+
  have lp: "locs_sound (en_crates ?E) (location_of sample_crates) (am_chunk_locations ex_prev)"
    using inj_eq [OF sample_crates_simps(1)] by (auto simp: locs_sound_def ex_prev_def ex_manifest_def Let_def)
  have l0: "locs_sound (en_crates ?E) (location_of sample_crates) (ra_locations run_acc_new)" by (simp add: locs_sound_def run_acc_new_def)
  have kn: "\<forall>f \<in> set (am_files ex_prev). \<forall>h \<in> set (af_chunks f). local_known sample_crates [] (es_repo ?st) h"
    using ex_disk2_facts(3) [OF J] by (simp add: ex_prev_def ex_manifest_def Let_def ex_start_def)
  from local.incremental_files_ok [OF ex_pipeline R lp g l0 src kn, of "[1]"] obtain a st1 where
    b: "incremental_files ?E ex_job ex_prev [1] ?fs run_acc_new ?st = (Inr a, st1)" "local_ok sample_crates J [] (es_repo st1)"
    by blast
  let ?un = "unchanged_files ex_prev (map af_path ?fs)"
  let ?refs = "unchanged_refs ex_prev [1] ?un @ ra_refs a"
  let ?locs = "fold (\<lambda>(k, l). or_insert k l) (am_chunk_locations ex_prev) (ra_locations a)"
  obtain m where m: "build_manifest ?E [1] (Some [7]) (am_version_number ex_prev + 1) Incremental (?un @ ra_files a) ?refs ?locs = Inr m"
    using build_manifest_Inr by blast
  have "ex_m2 = m"
    using b(1) m dj unfolding ex_m2_def Let_def incremental_files_json [of "ex_json []" ex_changed _ _ _ _ J]
      build_manifest_json [of "ex_json []" ex_changed J] by (simp add: ex_disk2_def)
  then have "oj_manifest_to_vec J m \<noteq> None" using J by (simp add: ex_json_def)
  from commit_Inr [OF b(2) m this] obtain st2 where
    c: "commit_version ?E [1] (Some [7]) (am_version_number ex_prev + 1) Incremental (?un @ ra_files a) ?refs ?locs st1 = (Inr m, st2)" by blast
  have rd: "br_read_manifest (local_repository sample_crates J [8] 0 []) [7] (ex_disk2 J) = (Inr ex_prev, ex_disk2 J)"
    using local.read_manifest ex_disk2_facts(1,2) [OF J] by blast
  have fu: "fresh_uuid ?E (ex_start (ex_disk2 J) 1) = ([1], ex_start (ex_disk2 J) 2)"
    by (simp add: fresh_uuid_def ex_start_def numeral_2_eq_2)
  have st: "(set_state ExScanning (ex_start (ex_disk2 J) 2))\<lparr>es_repo := ex_disk2 J\<rparr> = set_state ExScanning (ex_start (ex_disk2 J) 2)"
    "es_repo (ex_start (ex_disk2 J) 2) = ex_disk2 J" by (simp_all add: set_state_def ex_start_def)
  show ?thesis using fu rd b(1) c by (simp add: run_incremental_backup_def on_repo_def lift_err_def Let_def st)
qed

text \<open>A file that grew from \<open>[1]\<close> to \<open>[1, 2]\<close> is restored, verified, as \<open>[2, 1]\<close>.\<close>

theorem incremental_restore_rotates_changed_files_witness:
  "let J = ex_json [ex_prev, ex_m2]; r = run_incremental_backup (ex_engine J ex_changed) ex_job [7] (ex_start (ex_disk2 J) 1) in
   source_bytes (ex_engine J ex_changed) (ex_entry ''a/x'') = [1, 2] \<and>
   (\<exists>v rst rr. bt_version_id (projr (fst r)) = Some v \<and>
     run_restore (ex_restore J) (restore_everything v [''out'']) (restore_start \<lparr>nodes = [], faults = []\<rparr> (es_repo (snd r))) = (Inr rr, rst) \<and>
     rr_all_verified rr \<and> lookup (rs_disk rst) [''out'', ''x''] = Some (File [2, 1]))"
proof -
  define J where "J = ex_json [ex_prev, ex_m2]"
  let ?E = "ex_engine J ex_changed" and ?fs = "map (ex_entry \<circ> fst) ex_changed"
  have src: "source_readable ?E ?fs" "chunk_data ?E ex_job ?fs \<subseteq> ex_data" by (rule ex_changed_source)+
  have lp: "locs_sound (en_crates ?E) (location_of sample_crates) (am_chunk_locations ex_prev)" "distinct (keys (am_chunk_locations ex_prev))"
    using inj_eq [OF sample_crates_simps(1)] by (auto simp: locs_sound_def ex_prev_def ex_manifest_def Let_def)
  have pf: "am_files ex_prev = [(ex_entry ''a/x'')\<lparr>af_chunks := [[1]], af_file_hash := [1]\<rparr>]"
    by (simp add: ex_prev_def ex_manifest_def Let_def)
  have "map (blake3_hash (en_crates ?E)) [[1]] = [[1]]" "concat [[1 :: u8]] = [1]" "set [[1 :: u8]] \<subseteq> ex_data"
    by (simp_all add: ex_data_def)
  then have "\<exists>ds. set ds \<subseteq> ex_data \<and> [[1]] = map (blake3_hash (en_crates ?E)) ds \<and> concat ds = [1]" by metis
  then have old: "\<forall>f \<in> set (am_files ex_prev). version_entry ex_data ?E (local_known sample_crates [] (es_repo (ex_start (ex_disk2 J) 1))) f ([1])"
    using ex_disk2_facts(3) [OF J_def] unfolding pf version_entry_def by (simp add: ex_start_def)
  obtain res st' where run: "run_incremental_backup ?E ex_job [7] (ex_start (ex_disk2 J) 1) = (Inr res, st')"
    using ex_incremental_run [OF J_def] by blast
  have cs: "source_chunks ?E ex_job (ex_entry ''a/x'') = [\<lparr>rc_offset = 0, rc_data = [1]\<rparr>, \<lparr>rc_offset = 1, rc_data = [2]\<rparr>]"
    by (simp add: source_chunks_def ex_changed_def ex_job_def fixed_chunk_def)
  have bytes: "incremental_bytes ?E ex_job ex_prev (ex_entry ''a/x'') = [2, 1]"
    by (simp add: incremental_bytes_def cs baseline_chunks_def ex_prev_def ex_manifest_def Let_def)
  have sv: "local_saved sample_crates J [] (es_repo (ex_start (ex_disk2 J) 1)) [7] = Some ex_prev"
    using ex_disk2_facts(2) [OF J_def] by (simp add: ex_start_def)
  have un: "unchanged_files ex_prev (map af_path ?fs) = []"
    by (simp add: unchanged_files_def ex_prev_def ex_manifest_def Let_def ex_changed_def)
  have nm: "\<forall>f \<in> set (am_files ex_prev @ ?fs). file_name (af_path f) \<noteq> []" "length (am_files ex_prev) + length ?fs < 2 ^ 64"
    "distinct (map (file_name \<circ> af_path) (unchanged_files ex_prev (map af_path ?fs) @ ?fs))"
    unfolding un pf by (simp_all add: ex_changed_def)
  from incremental_restore_rotates_changed_files
    [OF _ ex_pipeline ex_disk2_ready [OF J_def] sv lp old _ src run ex_target nm]
  have "\<exists>v rr rst. bt_version_id res = Some v \<and>
     run_restore (ex_restore J) (restore_everything v [''out'']) (restore_start \<lparr>nodes = [], faults = []\<rparr> (es_repo st')) = (Inr rr, rst) \<and>
     rr_all_verified rr \<and> lookup (rs_disk rst) [''out'', ''x''] = Some (File [2, 1])"
    by (fastforce simp: ex_changed_def bytes [unfolded ex_changed_def])
  moreover have "source_bytes ?E (ex_entry ''a/x'') = [1, 2]" by (simp add: source_bytes_def ex_changed_def)
  ultimately show ?thesis unfolding Let_def J_def [symmetric] run by auto
qed

subsection \<open>A resumed backup, a torn chunk and a second lock\<close>

definition ex_journal :: "ag_journal_entry list journal_trait" where
  "ex_journal = \<lparr>jt_append = (\<lambda>e j. j @ [e]), jt_read_recent = (\<lambda>n j. Some (drop (length j - n) j))\<rparr>"

definition ex_resuming :: "repo_json \<Rightarrow> (string \<times> reader) list \<Rightarrow> (fsys, ag_journal_entry list) backup_engine" where
  "ex_resuming J files = \<lparr>en_crates = sample_crates, en_sha256 = (\<lambda>d. d), en_manifest_to_vec = (\<lambda>m. Some [9]), en_now = 0,
     en_uuid = (\<lambda>n. [of_nat n]), en_scan = (\<lambda>src snap. Inr (map (ex_entry \<circ> fst) files)), en_estimate = (\<lambda>src. 1),
     en_open = map_of files, en_chunk = fixed_chunk, en_compress = Inr,
     en_encrypt = (\<lambda>d k. Inr (ex_sealed d)), en_repo = local_repository sample_crates J [8] 0 [],
     en_journal = Some ex_journal, en_memory_limit = 268435456\<rparr>"

definition ex_interrupted :: "(fsys, ag_journal_entry list) engine_st" where
  "ex_interrupted = \<lparr>es_dedup = dedup_new, es_repo = ex_disk, es_journal = [FileProcessed [4] ''a/x'' [[1]]],
     es_state = ExPending, es_completed = False, es_next = 0\<rparr>"

text \<open>The only file was processed before the interruption: the version that the resumed run reports as
  successful is empty.\<close>

theorem resumed_backup_omits_processed_files_witness:
  "let J = ex_json [ex_manifest [0] None 1 Full [] []] in
   \<exists>res st' v m r. run_backup_resumable (ex_resuming J [(''a/x'', [Seg [1]])]) ex_job [6] ex_interrupted = (Inr res, st') \<and>
     bt_version_id res = Some v \<and> br_write_manifest (local_repository sample_crates J [8] 0 []) v m r = (Inr (), es_repo st') \<and>
     (\<forall>f \<in> set (am_files m). af_path f \<noteq> ''a/x'')"
proof -
  define J where "J = ex_json [ex_manifest [0] None 1 Full [] []]"
  let ?E = "ex_resuming J [(''a/x'', [Seg [1]])]" and ?m = "ex_manifest [0] None 1 Full [] []"
  have "oj_manifest_to_vec J ?m \<noteq> None" by (simp add: J_def ex_json_def)
  moreover have "local_ok sample_crates J [] ex_disk" unfolding J_def by (rule ex_disk_ok) simp
  ultimately obtain t where t: "local_write_manifest sample_crates J [] [0] ?m ex_disk = (Inr (), t)"
    using local_write_manifest_ok by blast
  have don: "processed_files ?E (bj_job_id ex_job) ex_interrupted = [''a/x'']"
    by (simp add: processed_files_def ex_resuming_def ex_journal_def ex_interrupted_def ex_job_def map_filter_def)
  have bm: "build_manifest ?E [0] None 1 Full [] [] [] = Inr ?m"
    by (simp add: build_manifest_def ex_resuming_def ex_manifest_def)
  have flds: "en_repo ?E = local_repository sample_crates J [8] 0 []" "en_journal ?E = Some ex_journal" "en_now ?E = 0"
      "en_uuid ?E 0 = [0]" "en_scan ?E src None = Inr [ex_entry ''a/x'']" "es_next ex_interrupted = 0" "es_repo ex_interrupted = ex_disk" for src
    by (simp_all add: ex_resuming_def ex_interrupted_def)
  have fin: "\<exists>st'. finish_full ?E ex_job [0] run_acc_new st = (Inr (result_of [0] run_acc_new), st')" if "es_repo st = ex_disk" for st
    using t that by (simp add: finish_full_def commit_version_def lift_err_def run_acc_new_def on_repo_def Let_def flds bm
        set_state_def local_repository_def)
  have "\<exists>res st'. run_backup_resumable ?E ex_job [6] ex_interrupted = (Inr res, st')"
    unfolding run_backup_resumable_def don
    by (simp add: start_run_def fresh_uuid_def lift_err_def Let_def flds journal_append_to_def set_state_def)
       (rule exI, rule fin, simp add: flds)
  then obtain res st' where run: "run_backup_resumable ?E ex_job [6] ex_interrupted = (Inr res, st')" by blast
  from resumed_backup_omits_processed_files [OF run] run show ?thesis
    unfolding J_def [symmetric] Let_def don by (auto simp: ex_resuming_def)
qed

text \<open>The write of a chunk stops after three bytes.\<close>

theorem torn_chunk_is_reused_witness:
  "let J = ex_json []; E = ex_engine J []; loc = location_of sample_crates [1] in
   \<exists>s'. local_write_chunk sample_crates [] [1] (ex_sealed [1]) (ex_disk\<lparr>faults := [NoFault, Torn 3]\<rparr>) = (Inl (ReIo IoFault), s') \<and>
     (\<exists>a' st'. store_chunk E False [1] run_acc_new ((ex_start ex_disk 0)\<lparr>es_repo := s'\<rparr>) = (Inr a', st') \<and> es_repo st' = s' \<and>
        map_of (ra_locations a') (hex_encode sample_crates [1]) = Some loc) \<and>
     local_read_chunk [] loc s' = (Inl (ReIo IoInvalidData), s')"
proof -
  have ok: "local_ok sample_crates (ex_json []) [] ((ex_disk\<lparr>faults := [NoFault, Torn 3]\<rparr>)\<lparr>faults := []\<rparr>)"
    using ex_disk_ok [of "[]"] by (simp add: ex_disk_def)
  have "chunk_wf (ex_sealed [1])" by (simp add: chunk_wf_def ex_sealed_def)
  from torn_chunk_is_reused [OF ok _ _ this, of 3 "ex_engine (ex_json []) []" "[8]" 0 "[1]" "[1]" "ex_start ex_disk 0" False run_acc_new]
  show ?thesis by (simp add: Let_def ex_start_def dedup_new_def)
qed

text \<open>A lock another process took 0 seconds ago, and a second one beside it.\<close>

theorem lock_acquire_never_excludes_witness:
  "\<exists>t. lock_acquire sample_crates (ex_json []) [7, 8] 0 [''locks''] LkBackup 1800
       \<lparr>nodes = [([''locks''], Dir), ([''locks'', ''a.lock''], File [1])], faults = []\<rparr> =
       (Inr (to_repo_lock (lock_file_new [7, 8] 0 LkBackup 1800)), t) \<and>
     lookup t [''locks'', ''a.lock''] = Some (File [1]) \<and> lookup t (lock_path sample_crates [''locks''] [7, 8]) = Some (File [1])"
proof -
  let ?s = "\<lparr>nodes = [([''locks''], Dir), ([''locks'', ''a.lock''], File [1])], faults = []\<rparr>"
  have ne: "uuid_to_string sample_crates [7, 8] @ ''.lock'' \<noteq> ''a.lock''" by (simp add: sample_crates_def)
  have "\<forall>q. prefix q [''locks''] \<longrightarrow> \<not> is_file ?s q" by (auto simp: is_file_def lookup_def prefix_Cons split: option.splits)
  moreover have "\<not> is_dir ?s (lock_path sample_crates [''locks''] [7, 8])" by (auto simp: is_dir_def lookup_def lock_path_def split: if_splits)
  moreover have "oj_lock_to_vec (ex_json []) l = Some [1]" "oj_lock_from_slice (ex_json []) b = Some (lock_file_new [5] 0 LkBackup 1800)" for l b
    by (simp_all add: ex_json_def)
  moreover have "\<not> lock_is_expired 0 (lock_file_new [5] 0 LkBackup 1800)" by (simp add: lock_is_expired_def lock_file_new_def num_seconds_def)
  moreover have "lookup ?s ([''locks''] @ [''a.lock'']) = Some (File [1])" by (simp add: lookup_def)
  moreover have "[''locks''] @ [''a.lock''] \<noteq> lock_path sample_crates [''locks''] [7, 8]" using ne by (simp add: lock_path_def)
  ultimately show ?thesis using lock_acquire_never_excludes [of ?s "[''locks'']" sample_crates "[7, 8]" "ex_json []" 0 LkBackup 1800 "[1]" "''a.lock''"]
    by simp
qed

end
