(* ===== verification/Agent_Backup_Verify.thy ===== *)
theory Agent_Backup_Verify
  imports Agent_Verify Agent_Examples
begin

text \<open>
  Backup and verification put together: what a successful backup wrote passes the deepest verification, and
  what the references of a manifest are.  Witnesses for the theorems of \<open>Agent_Verify\<close>.
\<close>

subsection \<open>The references of a version\<close>

lemma store_new_refs: "store_new E conc h d a st = (Inr a', st') \<Longrightarrow> ra_refs a' = ra_refs a"
  by (auto simp: store_new_def and_then_Ok_iff Let_def insert_location_def fresh_uuid_def)

lemma store_chunk_refs: "store_chunk E conc d a st = (Inr a', st') \<Longrightarrow> ra_refs a' = ra_refs a"
  by (auto simp: store_chunk_def Let_def and_then_Ok_iff insert_location_def dest: store_new_refs split: if_splits option.splits)

lemma backup_chunks_refs:
  "backup_chunks E conc v p cs a st = (Inr a', st') \<Longrightarrow> map cr_hash (ra_refs a') = map cr_hash (ra_refs a) @ chunk_hashes E cs"
proof (induction cs arbitrary: a st)
  case (Cons c cs)
  then obtain a1 st1 where s: "store_chunk E conc (rc_data c) a st = (Inr a1, st1)" by (auto simp: and_then_Ok_iff)
  with Cons.prems Cons.IH store_chunk_refs [OF s] show ?case by fastforce
qed simp

text \<open>The references are the chunks of the files, file by file.\<close>

definition refs_match :: "run_acc \<Rightarrow> bool" where
  "refs_match a \<longleftrightarrow> map cr_hash (ra_refs a) = concat (map af_chunks (ra_files a))"

lemma chunk_and_store_refs: "chunk_and_store E conc track job v f r a st = (Inr a', st') \<Longrightarrow> refs_match a \<Longrightarrow> refs_match a'"
proof -
  assume c: "chunk_and_store E conc track job v f r a st = (Inr a', st')" and m: "refs_match a"
  obtain cs a1 st0 st1 where b: "backup_chunks E conc v (af_path f) cs a st0 = (Inr a1, st1)"
      "a' = add_file (completed_entry E f (chunk_hashes E cs) (concat (map rc_data cs))) (length (concat (map rc_data cs))) a1"
    using c by (auto simp: chunk_and_store_def and_then_Ok_iff Let_def)
  show ?thesis using m b(2) backup_chunks_refs [OF b(1)] backup_chunks_files [OF b(1)] by (simp add: refs_match_def add_file_def completed_entry_def)
qed

lemma backup_files_refs: "backup_files E conc job v fs a st = (Inr a', st') \<Longrightarrow> refs_match a \<Longrightarrow> refs_match a'"
proof (induction fs arbitrary: a st)
  case (Cons f fs)
  show ?case
  proof (cases "en_open E (af_path f)")
    case None
    then show ?thesis using Cons by (auto simp: refs_match_def)
  next
    case (Some r)
    then obtain a1 st1 where s: "chunk_and_store E conc True job v f r a st = (Inr a1, st1)"
        "backup_files E conc job v fs (a1\<lparr>ra_file_count := ra_file_count a1 + 1\<rparr>) (log_file E job a1 st1) = (Inr a', st')"
      using Cons.prems(1) by (auto simp: and_then_Ok_iff)
    have "refs_match (a1\<lparr>ra_file_count := ra_file_count a1 + 1\<rparr>)" using chunk_and_store_refs [OF s(1) Cons.prems(2)] by (simp add: refs_match_def)
    then show ?thesis using Cons.IH [OF s(2)] by blast
  qed
qed simp

subsection \<open>What the verifier recomputes\<close>

lemma build_manifest_verifies:
  assumes "build_manifest E v parent n bt files refs locs = Inr m" and "iv_sha256 V = en_sha256 E"
    and "iv_manifest_to_vec V = en_manifest_to_vec E"
  shows "ag_verify_manifest_hash V m = Inr True" "verify_repo_hash V m" "am_chunk_refs m = refs" "am_files m = files"
  using assms by (auto simp: build_manifest_def ag_verify_manifest_hash_def verify_repo_hash_def temp_manifest_def Let_def split: option.splits)

definition verifier_ok :: "integrity_verifier \<Rightarrow> ('r, 'j) backup_engine \<Rightarrow> 'r restore_engine \<Rightarrow> crates \<Rightarrow> bool" where
  "verifier_ok V E G X \<longleftrightarrow> iv_crates V = X \<and> en_crates E = X \<and> iv_sha256 V = en_sha256 E \<and> iv_manifest_to_vec V = en_manifest_to_vec E \<and>
     iv_decrypt V = rg_decrypt G \<and> iv_decompress V = rg_decompress G"

lemma verify_location_of: "verify_location X h = location_of X h"
  by (simp add: verify_location_def location_of_def bucket_name_def ag_chunk_filename_def)

lemma known_plain:
  assumes "verifier_ok V E G X" and "pipeline_ok D E G chunk_wf"
    and "repo_sound D G (local_stored root) (local_known X root) (location_of X) s" and "local_known X root s (blake3_hash X d)" and "d \<in> D"
  shows "plain_of V (local_stored root s) (blake3_hash X d) = Some d"
proof -
  obtain e d' where e: "local_stored root s (location_of X (blake3_hash X d)) = Some e" "opens G e d'" "blake3_hash (rg_crates G) d' = blake3_hash X d" "d' \<in> D"
    using assms(3,4) by (auto simp: repo_sound_def)
  have "inj_on (blake3_hash X) D" "rg_crates G = X" using assms(1,2) by (auto simp: pipeline_ok_def verifier_ok_def)
  then have "d' = d" using e(3,4) assms(5) by (simp add: inj_on_eq_iff)
  then show ?thesis using assms(1) e(1,2) by (auto simp: plain_of_def verify_location_of verifier_ok_def opens_def)
qed

lemma bytes_of_map:
  "\<forall>d \<in> set ds. plain_of V st (blake3_hash X d) = Some d \<Longrightarrow> bytes_of V st (map (blake3_hash X) ds) = Some (concat ds)"
  by (induction ds) auto

text \<open>(C19) What is backed up verifies: after a successful full backup to a local repository, verifying the new
  version in the quick, full or deep mode reports no failure.  It is assumed of the data \<open>D\<close>, the chunks of the
  source and those the repository holds already, that their hashes do not collide, that decoding inverts
  encoding and that a sealed chunk fits the memory budget of the engine; that the source files can be read;
  and that the verifier has the keys and functions of the engine.\<close>

theorem backup_then_verify:
  assumes "en_repo E = local_repository X J fresh now root" and "pipeline_ok D E G chunk_wf" and "verifier_ok V E G X"
    and "backup_ready D X J root G st" and "en_scan E (bj_source job) None = Inr fs" and "source_readable E fs"
    and "chunk_data E job fs \<subseteq> D" and "run_backup E job x st = (Inr res, st')" and "mode \<noteq> VmRandom"
  shows "\<exists>v rep. bt_version_id res = Some v \<and>
     integrity_verify V t0 t1 v mode (local_repository X J fresh now root) (es_repo st') = (Inr rep, es_repo st') \<and>
     vt_failures rep = [] \<and> vt_failed rep = 0"
proof -
  have g: "local_ok X J root (es_repo st) \<and> repo_sound D G (local_stored root) (local_known X root) (location_of X) (es_repo st) \<and>
     dedup_sound (local_known X root) (location_of X) (es_repo st) (es_dedup st)" using assms(4) by (simp add: backup_ready_def)
  from local.full_run_ok [OF assms(2,1) g assms(6,7,5) assms(8) [unfolded run_backup_def]]
  obtain v m where v: "bt_version_id res = Some v" "local_saved X J root (es_repo st') v = Some m" "local_ok X J root (es_repo st')"
      "repo_sound D G (local_stored root) (local_known X root) (location_of X) (es_repo st')"
      "list_all2 (\<lambda>f f'. af_path f' = af_path f \<and> local.entry_ok X root D E (es_repo st') f' (source_bytes E f)) fs (am_files m)"
      "\<exists>st a st1. backup_files E False job v fs run_acc_new st = (Inr a, st1) \<and> build_manifest E v None 1 Full (ra_files a) (ra_refs a) (ra_locations a) = Inr m"
    by blast
  then obtain st0 a st1 where b: "backup_files E False job v fs run_acc_new st0 = (Inr a, st1)"
      "build_manifest E v None 1 Full (ra_files a) (ra_refs a) (ra_locations a) = Inr m" by blast
  have V: "iv_crates V = X" "en_crates E = X" "iv_sha256 V = en_sha256 E" "iv_manifest_to_vec V = en_manifest_to_vec E"
    using assms(3) by (auto simp: verifier_ok_def)
  note m = build_manifest_verifies [OF b(2) V(3,4)]
  have files: "\<forall>f \<in> set (am_files m). \<exists>d. local.entry_ok X root D E (es_repo st') f d"
    using v(5) by (fastforce simp: list_all2_conv_all_nth in_set_conv_nth)
  have plain: "plain_of V (local_stored root (es_repo st')) (blake3_hash X d) = Some d" if "local_known X root (es_repo st') (blake3_hash X d)" "d \<in> D" for d
    using known_plain [OF assms(3,2) v(4) that(1,2)] .
  have "refs_match a" using backup_files_refs [OF b(1)] by (simp add: refs_match_def run_acc_new_def)
  then have "set (map cr_hash (ra_refs a)) = set (concat (map af_chunks (ra_files a)))" by (simp only: refs_match_def)
  then have refs: "cr_hash ` set (am_chunk_refs m) = (\<Union>f \<in> set (am_files m). set (af_chunks f))" by (simp add: m(3,4))
  have "intact V (local_stored root (es_repo st')) h" if h: "h \<in> cr_hash ` set (am_chunk_refs m)" for h
  proof -
    obtain f where f: "f \<in> set (am_files m)" "h \<in> set (af_chunks f)" using h unfolding refs by blast
    obtain ds where ds: "set ds \<subseteq> D" "af_chunks f = map (blake3_hash X) ds" "\<forall>h \<in> set (af_chunks f). local_known X root (es_repo st') h"
      using files f(1) V(2) by metis
    obtain d where "h = blake3_hash X d" "d \<in> D" using f(2) ds(1,2) by auto
    moreover have "local_known X root (es_repo st') h" using f(2) ds(3) by blast
    ultimately show ?thesis using plain V(1) by (simp add: intact_def)
  qed
  moreover have "file_intact V (local_stored root (es_repo st')) f" if f: "f \<in> set (am_files m)" for f
  proof -
    obtain ds where ds: "af_chunks f = map (blake3_hash X) ds" "af_file_hash f = en_sha256 E (concat ds)" "\<forall>h \<in> set (af_chunks f). local_known X root (es_repo st') h" "set ds \<subseteq> D"
      using files f V(2) by metis
    then have "bytes_of V (local_stored root (es_repo st')) (af_chunks f) = Some (concat ds)" unfolding ds(1) by (intro bytes_of_map) (use ds(3,4) in \<open>auto simp: ds(1) plain\<close>)
    then show ?thesis using ds(2) V(3) by (simp add: file_intact_def)
  qed
  ultimately show ?thesis using checked.integrity_verify_ok [OF v(3,2) m(1) assms(9), of t0 t1 fresh now] v(1) m(2) by fastforce
qed

subsection \<open>Witnesses\<close>

definition ex_verifier :: integrity_verifier where
  "ex_verifier = \<lparr>iv_crates = sample_crates, iv_sha256 = (\<lambda>d. d), iv_manifest_to_vec = (\<lambda>m. Some [9]),
     iv_decompress = Inr, iv_decrypt = Inr \<circ> ec_ciphertext, iv_sample = take 1\<rparr>"

lemma ex_verifier_ok: "verifier_ok ex_verifier (ex_engine J files) (ex_restore J) sample_crates"
  by (simp add: verifier_ok_def ex_verifier_def ex_restore_def ex_engine_def)

theorem backup_then_verify_witness:
  "let J = ex_json [ex_m ex_files]; r = run_backup (ex_engine J ex_files) ex_job [6] (ex_start ex_disk 0) in
   \<exists>v rep. bt_version_id (projr (fst r)) = Some v \<and>
     integrity_verify ex_verifier 0 0 v VmDeep (local_repository sample_crates J [8] 0 []) (es_repo (snd r)) = (Inr rep, es_repo (snd r)) \<and>
     vt_failures rep = []"
proof -
  define J where "J = ex_json [ex_m ex_files]"
  let ?fs = "map (ex_entry \<circ> fst) ex_files"
  have src: "source_readable (ex_engine J ex_files) ?fs" "chunk_data (ex_engine J ex_files) ex_job ?fs \<subseteq> ex_data"
    by (rule ex_source)+
  obtain res st' where run: "run_backup (ex_engine J ex_files) ex_job [6] (ex_start ex_disk 0) = (Inr res, st')"
    using ex_full_run [OF J_def src] by blast
  have "backup_ready ex_data sample_crates J [] (ex_restore J) (ex_start ex_disk 0)" unfolding J_def by (rule ex_ready) simp
  from backup_then_verify [OF _ ex_pipeline ex_verifier_ok this _ src run, of "[8]" 0 VmDeep 0 0]
  show ?thesis unfolding Let_def J_def [symmetric] run by auto
qed

text \<open>A repository whose only version refers to the chunks \<open>[1]\<close> and \<open>[2]\<close>; \<open>[2]\<close> is missing and \<open>[3]\<close> an orphan.\<close>

definition vr_manifest :: ag_manifest where
  "vr_manifest = ex_manifest [7] None 1 Full [(''a/x'', [[1], [2]], [0, 1])] []"

definition vr_json :: repo_json where
  "vr_json = ex_json [vr_manifest]"

definition vr_disk :: fsys where
  "vr_disk = snd (local_write_manifest sample_crates vr_json [] [7] vr_manifest
     (snd (local_write_chunk sample_crates [] [3] (ex_sealed [3]) (snd (local_write_chunk sample_crates [] [1] (ex_sealed [1]) ex_disk)))))"

lemma vr_disk_facts:
  "local_ok sample_crates vr_json [] vr_disk" "local_saved sample_crates vr_json [] vr_disk [7] = Some vr_manifest"
  "local_known sample_crates [] vr_disk h \<longleftrightarrow> h = [1] \<or> h = [3]"
proof -
  have ok: "local_ok sample_crates vr_json [] ex_disk" unfolding vr_json_def by (rule ex_disk_ok) simp
  have nk: "\<not> local_known sample_crates [] ex_disk k" for k
    by (simp add: local_known_def path_exists_def local_chunk_path_def ex_disk_def lookup_def)
  have wf: "chunk_wf (ex_sealed d)" for d by (simp add: chunk_wf_def ex_sealed_def)
  obtain s1 where s1: "local_write_chunk sample_crates [] [1] (ex_sealed [1]) ex_disk = (Inr (location_of sample_crates [1]), s1)"
      "local_ok sample_crates vr_json [] s1" "\<forall>k. local_known sample_crates [] s1 k \<longleftrightarrow> local_known sample_crates [] ex_disk k \<or> k = [1]"
    using local_write_chunk_ok [OF ok wf, of "[1]" "[1]"] by blast
  obtain s2 where s2: "local_write_chunk sample_crates [] [3] (ex_sealed [3]) s1 = (Inr (location_of sample_crates [3]), s2)"
      "local_ok sample_crates vr_json [] s2" "\<forall>k. local_known sample_crates [] s2 k \<longleftrightarrow> local_known sample_crates [] s1 k \<or> k = [3]"
    using local_write_chunk_ok [OF s1(2) wf, of "[3]" "[3]"] by blast
  have vec: "oj_manifest_to_vec vr_json vr_manifest \<noteq> None" by (simp add: vr_json_def ex_json_def)
  obtain s3 where s3: "local_write_manifest sample_crates vr_json [] [7] vr_manifest s2 = (Inr (), s3)" "local_ok sample_crates vr_json [] s3"
      "local_known sample_crates [] s3 = local_known sample_crates [] s2" "local_saved sample_crates vr_json [] s3 [7] = Some vr_manifest"
    using local_write_manifest_ok [OF s2(2) vec, of "[7]"] by auto
  have "vr_disk = s3" using s1(1) s2(1) s3(1) by (simp add: vr_disk_def)
  then show "local_ok sample_crates vr_json [] vr_disk" "local_saved sample_crates vr_json [] vr_disk [7] = Some vr_manifest"
    "local_known sample_crates [] vr_disk h \<longleftrightarrow> h = [1] \<or> h = [3]" using s1 s2 s3 nk by auto
qed

lemma vr_refs: "cr_hash ` set (am_chunk_refs vr_manifest) = {[1], [2]}"
  by (simp add: vr_manifest_def ex_manifest_def Let_def)

theorem integrity_verify_exact_witness:
  "\<exists>rep. integrity_verify ex_verifier 0 0 [7] VmFull (local_repository sample_crates vr_json [8] 0 []) vr_disk = (Inr rep, vr_disk) \<and>
     vt_total_checked rep = 4 \<and> vt_failures rep \<noteq> []"
proof -
  have mh: "ag_verify_manifest_hash ex_verifier vr_manifest = Inr True"
    by (simp add: ag_verify_manifest_hash_def ex_verifier_def vr_manifest_def ex_manifest_def Let_def)
  have "local_stored [] vr_disk (location_of sample_crates [2]) = None"
    using vr_disk_facts(3) [of "[2]"]
    by (auto simp: local_stored_def local_known_def path_exists_def local_chunk_path_def location_of_def location_path_def split: option.splits)
  then have "\<not> intact ex_verifier (local_stored [] vr_disk) [2]"
    by (simp add: intact_def plain_of_def verify_location_def ex_verifier_def location_of_def bucket_name_def ag_chunk_filename_def)
  moreover have "card {[1 :: u8], [2]} = 2" by simp
  ultimately show ?thesis
    using integrity_verify_exact [OF vr_disk_facts(1,2) mh, of VmFull 0 0 "[8]" 0] unfolding vr_refs by auto
qed

theorem repair_removes_only_orphans_witness:
  "\<exists>c x t. check_and_repair (local_repository sample_crates vr_json [8] 0 []) [[1], [2], [3]] vr_disk = (Inr (c, x), t) \<and>
     cy_orphan_chunks c = [[3]] \<and> \<not> local_known sample_crates [] t [3] \<and> local_known sample_crates [] t [1]"
proof -
  have "map_sum id (map vs_version_id) (fst (local_list_versions sample_crates vr_json [] vr_disk)) = Inr [[7]]" by code_simp
  then obtain ss t where "local_list_versions sample_crates vr_json [] vr_disk = (Inr ss, t)" "map vs_version_id ss = [[7]]"
    by (cases "local_list_versions sample_crates vr_json [] vr_disk"; cases "fst (local_list_versions sample_crates vr_json [] vr_disk)") auto
  then have ss: "local_list_versions sample_crates vr_json [] vr_disk = (Inr ss, vr_disk)" "map vs_version_id ss = [[7]]"
    using local_read_only(2) [OF vr_disk_facts(1)] by auto
  have "local_referenced sample_crates vr_json [] vr_disk [[7]] = {[1], [2]}"
    using vr_disk_facts(2) vr_refs by (auto simp: local_referenced_def)
  then have o: "filter (\<lambda>h. h \<notin> local_referenced sample_crates vr_json [] vr_disk [[7]] \<and> local_known sample_crates [] vr_disk h) [[1], [2], [3]] = [[3]]"
    by (simp add: vr_disk_facts(3))
  have "distinct [[1 :: u8], [2], [3]]" by simp
  from repair_removes_only_orphans [OF vr_disk_facts(1) ss(1) this ss(2) [symmetric], of "[8]" 0, unfolded o]
  show ?thesis using vr_disk_facts(3) by fastforce
qed

definition ex_md :: "string \<Rightarrow> u32 \<Rightarrow> file_metadata" where
  "ex_md p perms = \<lparr>md_path = p, md_size = 2, md_mtime_secs = 5, md_permissions = perms\<rparr>"

theorem multi_layer_verify_exact_witness:
  "\<not> ml_all_passed (multi_layer_verify [ex_md ''a'' 1] [ex_md ''a'' 2] [(''a'', [1])] [(''a'', [1])] [(''a'', [2])] [(''a'', [2])]) \<and>
   ml_all_passed (multi_layer_verify [ex_md ''a'' 1] [ex_md ''a'' 1] [(''a'', [1])] [(''a'', [1])] [(''a'', [2])] [(''a'', [2])])"
  using multi_layer_verify_exact [OF _ refl, of "[ex_md ''a'' 2]" "[ex_md ''a'' 1]" "[(''a'', [1])]" "[(''a'', [1])]" "[(''a'', [2])]" "[(''a'', [2])]"]
    multi_layer_verify_exact [OF _ refl, of "[ex_md ''a'' 1]" "[ex_md ''a'' 1]" "[(''a'', [1])]" "[(''a'', [1])]" "[(''a'', [2])]" "[(''a'', [2])]"]
  by (simp add: ex_md_def same_digest_def)

end
