(* ===== verification/Binary_Heap.thy ===== *)
theory Binary_Heap
  imports Main "HOL-Library.Multiset"
begin

text \<open>
  \<open>std::collections::BinaryHeap\<close> as the task queue uses it: a heap-ordered vector with
  \<open>push\<close> (append, sift up) and \<open>pop\<close> (move the last element to the root, sift it down to
  the bottom, sift it up again).  The vector is a list; an exchange of two positions
  stands for moving the hole.  Elements are compared by a key, so that equal keys may
  belong to different elements and the order among those is the one the algorithm gives.

  The locale \<open>max_queue\<close> is the contract of the heap; \<open>heap\<close> interprets it.
\<close>

subsection \<open>The contract\<close>

locale max_queue =
  fixes push :: "'a \<Rightarrow> 'q \<Rightarrow> 'q" and pop :: "'q \<Rightarrow> ('a \<times> 'q) option"
    and inv :: "'q \<Rightarrow> bool" and elems :: "'q \<Rightarrow> 'a multiset" and key :: "'a \<Rightarrow> 'k :: linorder"
  assumes push_elems: "elems (push x q) = add_mset x (elems q)"
    and push_inv: "inv q \<Longrightarrow> inv (push x q)"
    and pop_None: "pop q = None \<longleftrightarrow> elems q = {#}"
    and pop_elems: "pop q = Some (x, r) \<Longrightarrow> elems q = add_mset x (elems r)"
    and pop_inv: "inv q \<Longrightarrow> pop q = Some (x, r) \<Longrightarrow> inv r"
    and pop_max: "inv q \<Longrightarrow> pop q = Some (x, r) \<Longrightarrow> y \<in># elems q \<Longrightarrow> key y \<le> key x"
begin

lemma pop_some: "elems q \<noteq> {#} \<Longrightarrow> \<exists>x r. pop q = Some (x, r)"
  using pop_None by (cases "pop q") auto

lemma push_all_elems: "elems (fold push xs q) = mset xs + elems q"
  by (induction xs arbitrary: q) (simp_all add: push_elems)

lemma push_all_inv: "inv q \<Longrightarrow> inv (fold push xs q)"
  by (induction xs arbitrary: q) (simp_all add: push_inv)

end

subsection \<open>The vector\<close>

definition parent :: "nat \<Rightarrow> nat" where
  "parent i = (i - 1) div 2"

definition swap :: "'a list \<Rightarrow> nat \<Rightarrow> nat \<Rightarrow> 'a list" where
  "swap a i j = a[i := a ! j, j := a ! i]"

lemma parent_less [termination_simp]: "0 < i \<Longrightarrow> parent i < i"
  by (simp add: parent_def)

fun sift_up :: "('a \<Rightarrow> 'k :: linorder) \<Rightarrow> 'a list \<Rightarrow> nat \<Rightarrow> 'a list" where
  "sift_up key a pos =
     (if pos = 0 then a
      else if key (a ! pos) \<le> key (a ! parent pos) then a
      else sift_up key (swap a pos (parent pos)) (parent pos))"

declare sift_up.simps [simp del]

definition larger_child :: "('a \<Rightarrow> 'k :: linorder) \<Rightarrow> 'a list \<Rightarrow> nat \<Rightarrow> nat" where
  "larger_child key a pos = (let child = 2 * pos + 1 in
     if key (a ! child) \<le> key (a ! (child + 1)) then child + 1 else child)"

lemma larger_child_bounds: "pos < larger_child key a pos" "larger_child key a pos \<le> 2 * pos + 2"
  by (auto simp: larger_child_def Let_def)

function sift_down_to_bottom :: "('a \<Rightarrow> 'k :: linorder) \<Rightarrow> 'a list \<Rightarrow> nat \<Rightarrow> 'a list \<times> nat" where
  "sift_down_to_bottom key a pos =
     (if 2 * pos + 2 < length a then
        sift_down_to_bottom key (swap a pos (larger_child key a pos)) (larger_child key a pos)
      else if 2 * pos + 2 = length a then (swap a pos (2 * pos + 1), 2 * pos + 1)
      else (a, pos))"
  by pat_completeness auto
termination
  by (relation "measure (\<lambda>(key, a, pos). length a - pos)") 
     (auto simp: swap_def intro!: diff_less_mono2 larger_child_bounds(1))

declare sift_down_to_bottom.simps [simp del]

definition heap_push :: "('a \<Rightarrow> 'k :: linorder) \<Rightarrow> 'a \<Rightarrow> 'a list \<Rightarrow> 'a list" where
  "heap_push key x a = sift_up key (a @ [x]) (length a)"

definition heap_pop :: "('a \<Rightarrow> 'k :: linorder) \<Rightarrow> 'a list \<Rightarrow> ('a \<times> 'a list) option" where
  "heap_pop key a =
     (if a = [] then None
      else let item = last a; rest = butlast a in
        if rest = [] then Some (item, [])
        else case sift_down_to_bottom key (rest[0 := item]) 0 of
          (b, pos) \<Rightarrow> Some (rest ! 0, sift_up key b pos))"

lemma heap_pop_Nil [simp]: "heap_pop key [] = None"
  by (simp add: heap_pop_def)

subsection \<open>Elements are kept\<close>

lemma length_swap [simp]: "length (swap a i j) = length a"
  by (simp add: swap_def)

lemma mset_swap_list: "i < length a \<Longrightarrow> j < length a \<Longrightarrow> mset (swap a i j) = mset a"
  using mset_swap [of j a i] by (simp add: swap_def)

lemma nth_swap: "i < length a \<Longrightarrow> j < length a \<Longrightarrow> k < length a \<Longrightarrow>
    swap a i j ! k = a ! (if k = j then i else if k = i then j else k)"
  by (simp add: swap_def nth_list_update)

lemma sift_up_mset: "pos < length a \<Longrightarrow> mset (sift_up key a pos) = mset a"
proof (induction key a pos rule: sift_up.induct)
  case (1 key a pos)
  show ?case
  proof (cases "pos = 0 \<or> key (a ! pos) \<le> key (a ! parent pos)")
    case True
    then show ?thesis by (subst sift_up.simps) auto
  next
    case False
    moreover from False have "parent pos < length a" using 1(2) parent_less [of pos] by simp
    ultimately show ?thesis using 1 by (subst sift_up.simps) (simp add: mset_swap_list)
  qed
qed

lemma sift_down_mset:
  "pos < length a \<Longrightarrow> sift_down_to_bottom key a pos = (b, p) \<Longrightarrow> mset b = mset a \<and> p < length b"
proof (induction key a pos rule: sift_down_to_bottom.induct)
  case (1 key a pos)
  show ?case
  proof (cases "2 * pos + 2 < length a")
    case True
    let ?d = "larger_child key a pos"
    have d: "?d < length a" using True larger_child_bounds(2) [of key a pos] by simp
    have "sift_down_to_bottom key (swap a pos ?d) ?d = (b, p)" using 1(3) True by (subst (asm) sift_down_to_bottom.simps) simp
    from 1(1) [OF True _ this] d 1(2) show ?thesis by (simp add: mset_swap_list)
  next
    case False
    then show ?thesis using 1(2,3)
      by (subst (asm) sift_down_to_bottom.simps) (auto simp: mset_swap_list split: if_splits)
  qed
qed

subsection \<open>Order\<close>

definition edge :: "('a \<Rightarrow> 'k :: linorder) \<Rightarrow> 'a list \<Rightarrow> nat \<Rightarrow> bool" where
  "edge key a i \<longleftrightarrow> key (a ! i) \<le> key (a ! parent i)"

definition is_heap :: "('a \<Rightarrow> 'k :: linorder) \<Rightarrow> 'a list \<Rightarrow> bool" where
  "is_heap key a \<longleftrightarrow> (\<forall>i. 0 < i \<and> i < length a \<longrightarrow> edge key a i)"

text \<open>A heap except that the element at \<open>p\<close> may be too large for its place.\<close>

definition heap_above :: "('a \<Rightarrow> 'k :: linorder) \<Rightarrow> 'a list \<Rightarrow> nat \<Rightarrow> bool" where
  "heap_above key a p \<longleftrightarrow> (\<forall>i. 0 < i \<and> i < length a \<and> i \<noteq> p \<longrightarrow> edge key a i) \<and>
     (\<forall>i. 0 < p \<and> 0 < i \<and> i < length a \<and> parent i = p \<longrightarrow> key (a ! i) \<le> key (a ! parent p))"

text \<open>A heap except for the element at \<open>p\<close>, whatever it is.\<close>

definition heap_hole :: "('a \<Rightarrow> 'k :: linorder) \<Rightarrow> 'a list \<Rightarrow> nat \<Rightarrow> bool" where
  "heap_hole key a p \<longleftrightarrow> (\<forall>i. 0 < i \<and> i < length a \<and> i \<noteq> p \<and> parent i \<noteq> p \<longrightarrow> edge key a i) \<and>
     (\<forall>i. 0 < p \<and> 0 < i \<and> i < length a \<and> parent i = p \<longrightarrow> key (a ! i) \<le> key (a ! parent p))"

lemma sift_up_heap: "pos < length a \<Longrightarrow> heap_above key a pos \<Longrightarrow> is_heap key (sift_up key a pos)"
proof (induction key a pos rule: sift_up.induct)
  case (1 key a pos)
  show ?case
  proof (cases "pos = 0 \<or> edge key a pos")
    case True
    then show ?thesis using 1(3) by (subst sift_up.simps) (auto simp: is_heap_def heap_above_def edge_def)
  next
    case False
    let ?q = "parent pos" and ?b = "swap a pos (parent pos)"
    have q: "?q < pos" "?q < length a" using False 1(2) parent_less [of pos] by auto
    have b: "?b ! k = a ! (if k = ?q then pos else if k = pos then ?q else k)" if "k < length a" for k
      using nth_swap [OF 1(2) q(2) that] .
    have big: "key (a ! ?q) < key (a ! pos)" using False by (simp add: edge_def not_le)
    have "heap_above key ?b ?q"
      unfolding heap_above_def
    proof (intro conjI allI impI)
      fix i assume i: "0 < i \<and> i < length ?b \<and> i \<noteq> ?q"
      then have pl: "parent i < length a" using parent_less [of i] by simp
      consider "i = pos" | "i \<noteq> pos" "parent i = pos" | "i \<noteq> pos" "parent i = ?q" | "i \<noteq> pos" "parent i \<noteq> pos" "parent i \<noteq> ?q" by blast
      then show "edge key ?b i"
      proof cases
        case 1
        then show ?thesis using big i pl b by (simp add: edge_def)
      next
        case 2
        then have "key (a ! i) \<le> key (a ! ?q)" using "1.prems"(2) i False unfolding heap_above_def by auto
        then show ?thesis using 2 i pl b q by (simp add: edge_def)
      next
        case 3
        then have "key (a ! i) \<le> key (a ! ?q)" using "1.prems"(2) i unfolding heap_above_def by (auto simp: edge_def)
        then show ?thesis using 3 i pl b big by (simp add: edge_def)
      next
        case 4
        then have "edge key a i" using "1.prems"(2) i unfolding heap_above_def by auto
        then show ?thesis using 4 i pl b by (simp add: edge_def)
      qed
    next
      fix i assume i: "0 < ?q \<and> 0 < i \<and> i < length ?b \<and> parent i = ?q"
      have up: "parent ?q < length a" "parent ?q \<noteq> ?q" "parent ?q \<noteq> pos" using i q parent_less [of ?q] by auto
      have eq: "edge key a ?q" using "1.prems"(2) i q unfolding heap_above_def by auto
      have "key (a ! i) \<le> key (a ! ?q)" if "i \<noteq> pos" using that "1.prems"(2) i unfolding heap_above_def by (auto simp: edge_def)
      moreover have "i \<noteq> ?q" using i parent_less [of i] by auto
      ultimately show "key (?b ! i) \<le> key (?b ! parent ?q)" using eq i up b q by (auto simp: edge_def)
    qed
    then show ?thesis using 1(1) False q by (subst sift_up.simps) (auto simp: edge_def)
  qed
qed

lemma sift_down_heap:
  "pos < length a \<Longrightarrow> heap_hole key a pos \<Longrightarrow> sift_down_to_bottom key a pos = (b, p) \<Longrightarrow> heap_above key b p"
proof (induction key a pos rule: sift_down_to_bottom.induct)
  case (1 key a pos)
  let ?c = "2 * pos + 1"
  have child: "parent i = pos \<longleftrightarrow> i = ?c \<or> i = ?c + 1" if "0 < i" for i using that by (auto simp: parent_def)
  show ?case
  proof (cases "?c < length a")
    case False
    then have "b = a" "p = pos" using 1(4) by (subst (asm) sift_down_to_bottom.simps; simp)+
    moreover have "parent i \<noteq> pos" if "0 < i" "i < length a" for i using child that False by auto
    ultimately show ?thesis using 1(3) by (simp add: heap_hole_def heap_above_def)
  next
    case True
    define d where "d = (if ?c + 1 < length a then larger_child key a pos else ?c)"
    have d: "d < length a" "parent d = pos" "0 < d" "pos < d" using True by (auto simp: d_def parent_def larger_child_def Let_def)
    have max: "key (a ! i) \<le> key (a ! d)" if "0 < i" "i < length a" "parent i = pos" for i
      using that child [of i] by (auto simp: d_def larger_child_def Let_def)
    let ?b = "swap a pos d"
    have b: "?b ! k = a ! (if k = d then pos else if k = pos then d else k)" if "k < length a" for k
      using nth_swap [OF 1(2) d(1) that] .
    have "heap_hole key ?b d"
      unfolding heap_hole_def
    proof (intro conjI allI impI)
      fix i assume i: "0 < i \<and> i < length ?b \<and> i \<noteq> d \<and> parent i \<noteq> d"
      then have pl: "parent i < length a" "parent i \<noteq> i" using parent_less [of i] by auto
      consider "i = pos" | "parent i = pos" | "i \<noteq> pos" "parent i \<noteq> pos" by blast
      then show "edge key ?b i"
      proof cases
        case 1
        then have "key (a ! d) \<le> key (a ! parent pos)" using "1.prems"(2) i d unfolding heap_hole_def by auto
        then show ?thesis using 1 i pl b by (simp add: edge_def)
      next
        case 2
        then show ?thesis using max [of i] i pl b by (simp add: edge_def)
      next
        case 3
        then have "edge key a i" using "1.prems"(2) i unfolding heap_hole_def by auto
        then show ?thesis using 3 i pl b by (simp add: edge_def)
      qed
    next
      fix i assume i: "0 < d \<and> 0 < i \<and> i < length ?b \<and> parent i = d"
      have "d < i" using i parent_less [of i] by simp
      then have "edge key a i" using "1.prems"(2) i d unfolding heap_hole_def by auto
      then show "key (?b ! i) \<le> key (?b ! parent d)" using i b d \<open>d < i\<close> 1(2) by (auto simp: edge_def)
    qed
    note hole = this
    show ?thesis
    proof (cases "?c + 1 < length a")
      case True
      then have deq: "d = larger_child key a pos" "2 * pos + 2 < length a" by (simp_all add: d_def)
      then have "sift_down_to_bottom key ?b d = (b, p)" using 1(4) by (subst (asm) sift_down_to_bottom.simps) simp
      then show ?thesis using 1(1) [OF deq(2)] hole d deq(1) by simp
    next
      case False
      then have "d = ?c" "?c + 1 = length a" using True by (simp_all add: d_def)
      moreover have "sift_down_to_bottom key a pos = (swap a pos ?c, ?c)" using calculation by (subst sift_down_to_bottom.simps) simp
      then have "b = ?b" "p = d" using 1(4) calculation by simp_all
      moreover have "parent i \<noteq> d" if "0 < i" "i < length a" for i using that calculation by (auto simp: parent_def)
      ultimately show ?thesis using hole by (simp add: heap_hole_def heap_above_def)
    qed
  qed
qed

lemma heap_root_max: "is_heap key a \<Longrightarrow> i < length a \<Longrightarrow> key (a ! i) \<le> key (a ! 0)"
proof (induction i rule: less_induct)
  case (less i)
  show ?case
  proof (cases "i = 0")
    case False
    then have "edge key a i" "parent i < i" using less.prems parent_less [of i] by (auto simp: is_heap_def)
    then show ?thesis using less.IH [of "parent i"] less.prems by (auto simp: edge_def intro: order_trans)
  qed simp
qed

subsection \<open>The heap meets its contract\<close>

lemma heap_push_mset: "mset (heap_push key x a) = add_mset x (mset a)"
  by (simp add: heap_push_def sift_up_mset)

lemma heap_push_heap:
  assumes "is_heap key a"
  shows "is_heap key (heap_push key x a)"
proof -
  have "heap_above key (a @ [x]) (length a)"
    unfolding heap_above_def
  proof (intro conjI allI impI)
    fix i assume "0 < i \<and> i < length (a @ [x]) \<and> i \<noteq> length a"
    then have "0 < i" "i < length a" "parent i < length a" using parent_less [of i] by auto
    then show "edge key (a @ [x]) i" using assms by (simp add: is_heap_def edge_def nth_append)
  next
    fix i assume "0 < length a \<and> 0 < i \<and> i < length (a @ [x]) \<and> parent i = length a"
    then show "key ((a @ [x]) ! i) \<le> key ((a @ [x]) ! parent (length a))" using parent_less [of i] by auto
  qed
  then show ?thesis by (simp add: heap_push_def sift_up_heap)
qed

lemma heap_pop_facts:
  assumes "heap_pop key a = Some (x, r)"
  shows "mset a = add_mset x (mset r)" and "a \<noteq> [] \<and> x = a ! 0" and "is_heap key a \<Longrightarrow> is_heap key r"
proof -
  have a: "a \<noteq> []" using assms by (auto simp: heap_pop_def)
  have split: "a = butlast a @ [last a]" using a by simp
  have "mset a = add_mset x (mset r) \<and> x = a ! 0 \<and> (is_heap key a \<longrightarrow> is_heap key r)"
  proof (cases "butlast a = []")
    case True
    then have "x = last a" "r = []" using assms a by (auto simp: heap_pop_def Let_def)
    then show ?thesis using split True by (metis append_Nil is_heap_def length_0_conv less_nat_zero_code mset.simps nth_Cons_0)
  next
    case False
    let ?h = "(butlast a)[0 := last a]"
    obtain b p where b: "sift_down_to_bottom key ?h 0 = (b, p)" by fastforce
    have xr: "x = butlast a ! 0" "r = sift_up key b p" using assms a False b by (auto simp: heap_pop_def Let_def)
    have len: "0 < length ?h" using False by (simp only: length_list_update length_greater_0_conv not_False_eq_True)
    have m: "mset b = mset ?h" "p < length b" using sift_down_mset [OF len b] by auto
    have "mset a = add_mset (last a) (mset (butlast a))" by (subst split) simp
    also have "\<dots> = add_mset x (mset ?h)" using False xr(1) by (cases "butlast a") auto
    finally have ms: "mset a = add_mset x (mset r)" using m sift_up_mset [OF m(2), of key] xr(2) by simp
    have x0: "x = a ! 0" using xr(1) False by (cases a rule: rev_cases) (auto simp: nth_append)
    have "is_heap key r" if "is_heap key a"
    proof -
      have "heap_hole key ?h 0"
        unfolding heap_hole_def
      proof (intro conjI allI impI)
        fix i assume i: "0 < i \<and> i < length ?h \<and> i \<noteq> 0 \<and> parent i \<noteq> 0"
        then have "edge key a i" "parent i < length (butlast a)" using that parent_less [of i] by (auto simp: is_heap_def)
        then show "edge key ?h i" using i by (simp add: edge_def nth_butlast)
      qed simp
      then show ?thesis using sift_down_heap [OF len _ b] sift_up_heap [OF m(2)] xr(2) by simp
    qed
    then show ?thesis using ms x0 by blast
  qed
  then show "mset a = add_mset x (mset r)" "a \<noteq> [] \<and> x = a ! 0" "is_heap key a \<Longrightarrow> is_heap key r" using a by auto
qed

lemma heap_pop_max: "is_heap key a \<Longrightarrow> heap_pop key a = Some (x, r) \<Longrightarrow> y \<in># mset a \<Longrightarrow> key y \<le> key x"
  using heap_pop_facts(2) [of key a x r] heap_root_max [of key a] by (auto simp: in_set_conv_nth)

interpretation heap: max_queue "heap_push key" "heap_pop key" "is_heap key" mset key for key :: "'a \<Rightarrow> 'k :: linorder"
proof unfold_locales
  show "heap_pop key q = None \<longleftrightarrow> mset q = {#}" for q by (auto simp: heap_pop_def Let_def split: prod.splits)
qed (use heap_push_mset heap_push_heap heap_pop_facts heap_pop_max in auto)

end
