(* ===== verification/Agent_Queue.thy ===== *)
theory Agent_Queue
  imports Prelude Binary_Heap "HOL-Library.Product_Lexorder"
begin

text \<open>
  The task queue of the agent's scheduler (\<open>hbx-scheduler/src/queue.rs\<close>): a heap of
  pending tasks, the jobs that are queued or running, and a limit on running tasks.
  Every method holds the mutex, so it is one step of the state; \<open>queue_event\<close> and
  \<open>queue_run\<close> execute any sequence of client calls, in the order in which they take
  the lock.

  The client lemmas hold for every heap that meets the contract \<open>max_queue\<close>; here
  they are stated for the array heap of \<open>BinaryHeap\<close>.
\<close>

subsection \<open>Data\<close>

datatype task_priority = PrLow | PrNormal | PrHigh | PrCritical

fun priority_rank :: "task_priority \<Rightarrow> nat" where
  "priority_rank PrLow = 0"
| "priority_rank PrNormal = 1"
| "priority_rank PrHigh = 2"
| "priority_rank PrCritical = 3"

datatype task_kind = TkBackup | TkRestore | TkVerify | TkCleanup

record queued_task =
  qt_task_id :: uuid
  qt_job_id :: uuid
  qt_priority :: task_priority
  qt_kind :: task_kind
  qt_enqueued_at :: timestamp

text \<open>\<open>Ord for QueuedTask\<close>: by priority, then the older task first.\<close>

definition task_key :: "queued_task \<Rightarrow> nat \<times> int" where
  "task_key t = (priority_rank (qt_priority t), - qt_enqueued_at t)"

datatype dequeue_error = QueueEmpty | JobAlreadyRunning | NoConcurrencySlot

datatype enqueue_error = JobAlreadyQueued

record task_queue =
  tq_pending :: "queued_task list"
  tq_queued_jobs :: "uuid set"
  tq_running_tasks :: "uuid set"
  tq_running_jobs :: "uuid set"
  tq_max_concurrent :: nat

subsection \<open>Operations\<close>

definition task_queue_new :: "nat \<Rightarrow> task_queue" where
  "task_queue_new n = \<lparr>tq_pending = [], tq_queued_jobs = {}, tq_running_tasks = {}, tq_running_jobs = {}, tq_max_concurrent = n\<rparr>"

definition set_max_concurrent :: "nat \<Rightarrow> task_queue \<Rightarrow> task_queue" where
  "set_max_concurrent n q = q\<lparr>tq_max_concurrent := max n 1\<rparr>"

definition enqueue :: "queued_task \<Rightarrow> task_queue \<Rightarrow> (enqueue_error + unit) \<times> task_queue" where
  "enqueue t q =
     (if qt_job_id t \<in> tq_queued_jobs q \<or> qt_job_id t \<in> tq_running_jobs q then (Inl JobAlreadyQueued, q)
      else (Inr (), q\<lparr>tq_queued_jobs := insert (qt_job_id t) (tq_queued_jobs q),
                      tq_pending := heap_push task_key t (tq_pending q)\<rparr>))"

text \<open>The loop of \<open>dequeue\<close>: the task found, the tasks passed over in order, the rest of the heap.\<close>

lemma heap_pop_length: "heap_pop key a = Some (x, r) \<Longrightarrow> length r < length a"
  using heap_pop_facts(1) [of key a x r] by (metis lessI size_add_mset size_mset)

function find_runnable :: "uuid set \<Rightarrow> queued_task list \<Rightarrow> queued_task list \<Rightarrow> queued_task option \<times> queued_task list \<times> queued_task list" where
  "find_runnable running skipped pending = (case heap_pop task_key pending of
     None \<Rightarrow> (None, skipped, pending)
   | Some (t, rest) \<Rightarrow>
       if qt_job_id t \<in> running then find_runnable running (skipped @ [t]) rest
       else (Some t, skipped, rest))"
  by pat_completeness auto
termination
  by (relation "measure (\<lambda>(running, skipped, pending). length pending)") (auto dest: heap_pop_length)

declare find_runnable.simps [simp del]

definition dequeue :: "task_queue \<Rightarrow> (dequeue_error + queued_task) \<times> task_queue" where
  "dequeue q =
     (if tq_pending q = [] then (Inl QueueEmpty, q)
      else if card (tq_running_tasks q) \<ge> tq_max_concurrent q then (Inl NoConcurrencySlot, q)
      else case find_runnable (tq_running_jobs q) [] (tq_pending q) of
        (found, skipped, rest) \<Rightarrow>
          let q1 = (case found of
                Some t \<Rightarrow> q\<lparr>tq_queued_jobs := tq_queued_jobs q - {qt_job_id t},
                    tq_running_tasks := insert (qt_task_id t) (tq_running_tasks q),
                    tq_running_jobs := insert (qt_job_id t) (tq_running_jobs q)\<rparr>
              | None \<Rightarrow> q);
              q2 = q1\<lparr>tq_pending := fold (heap_push task_key) skipped rest\<rparr>
          in (case found of Some t \<Rightarrow> (Inr t, q2) | None \<Rightarrow> (Inl QueueEmpty, q2)))"

definition complete :: "uuid \<Rightarrow> uuid \<Rightarrow> task_queue \<Rightarrow> task_queue" where
  "complete task job q = q\<lparr>tq_running_tasks := tq_running_tasks q - {task}, tq_running_jobs := tq_running_jobs q - {job}\<rparr>"

function cancel_loop :: "uuid \<Rightarrow> queued_task option \<Rightarrow> queued_task list \<Rightarrow> queued_task list \<Rightarrow> queued_task option \<times> queued_task list" where
  "cancel_loop task found remaining pending = (case heap_pop task_key pending of
     None \<Rightarrow> (found, remaining)
   | Some (t, rest) \<Rightarrow>
       if qt_task_id t = task then cancel_loop task (Some t) remaining rest
       else cancel_loop task found (heap_push task_key t remaining) rest)"
  by pat_completeness auto
termination
  by (relation "measure (\<lambda>(task, found, remaining, pending). length pending)") (auto dest: heap_pop_length)

declare cancel_loop.simps [simp del]

definition cancel :: "uuid \<Rightarrow> task_queue \<Rightarrow> queued_task option \<times> task_queue" where
  "cancel task q = (case cancel_loop task None [] (tq_pending q) of (found, remaining) \<Rightarrow>
     (found, q\<lparr>tq_pending := remaining,
        tq_queued_jobs := (case found of Some t \<Rightarrow> tq_queued_jobs q - {qt_job_id t} | None \<Rightarrow> tq_queued_jobs q)\<rparr>))"

definition pending_count :: "task_queue \<Rightarrow> nat" where
  "pending_count q = length (tq_pending q)"

definition running_count :: "task_queue \<Rightarrow> nat" where
  "running_count q = card (tq_running_tasks q)"

definition is_job_running :: "uuid \<Rightarrow> task_queue \<Rightarrow> bool" where
  "is_job_running job q \<longleftrightarrow> job \<in> tq_running_jobs q"

definition is_job_queued :: "uuid \<Rightarrow> task_queue \<Rightarrow> bool" where
  "is_job_queued job q \<longleftrightarrow> job \<in> tq_queued_jobs q \<or> job \<in> tq_running_jobs q"

definition make_task :: "uuid \<Rightarrow> timestamp \<Rightarrow> uuid \<Rightarrow> task_priority \<Rightarrow> task_kind \<Rightarrow> queued_task" where
  "make_task fresh now job p k = \<lparr>qt_task_id = fresh, qt_job_id = job, qt_priority = p, qt_kind = k, qt_enqueued_at = now\<rparr>"

subsection \<open>Client calls\<close>

datatype queue_event = EvEnqueue queued_task | EvDequeue | EvComplete uuid uuid | EvCancel uuid | EvLimit nat

text \<open>Each call with the task it hands out, if any.\<close>

fun queue_step :: "queue_event \<Rightarrow> task_queue \<Rightarrow> queued_task option \<times> task_queue" where
  "queue_step (EvEnqueue t) q = (None, snd (enqueue t q))"
| "queue_step EvDequeue q = (case dequeue q of (Inr t, q) \<Rightarrow> (Some t, q) | (Inl e, q) \<Rightarrow> (None, q))"
| "queue_step (EvComplete task job) q = (None, complete task job q)"
| "queue_step (EvCancel task) q = (None, snd (cancel task q))"
| "queue_step (EvLimit n) q = (None, set_max_concurrent n q)"

fun queue_run :: "queue_event list \<Rightarrow> task_queue \<Rightarrow> (queue_event \<times> queued_task option) list \<times> task_queue" where
  "queue_run [] q = ([], q)"
| "queue_run (e # es) q = (case queue_step e q of (out, q) \<Rightarrow>
     (case queue_run es q of (tr, q) \<Rightarrow> ((e, out) # tr, q)))"

subsection \<open>The invariant\<close>

definition queue_ok :: "task_queue \<Rightarrow> bool" where
  "queue_ok q \<longleftrightarrow> is_heap task_key (tq_pending q) \<and> distinct (map qt_job_id (tq_pending q)) \<and>
     qt_job_id ` set (tq_pending q) \<subseteq> tq_queued_jobs q \<and> tq_queued_jobs q \<inter> tq_running_jobs q = {} \<and>
     finite (tq_running_tasks q)"

lemma distinct_map_mset: "mset xs = mset ys \<Longrightarrow> distinct (map f xs) \<longleftrightarrow> distinct (map f ys)"
  by (rule mset_eq_imp_distinct_iff) simp

lemma queue_new_ok: "queue_ok (task_queue_new n)"
  by (simp add: queue_ok_def task_queue_new_def is_heap_def)

lemma enqueue_ok:
  assumes "queue_ok q"
  shows "queue_ok (snd (enqueue t q))"
proof -
  let ?p = "heap_push task_key t (tq_pending q)"
  have m: "mset ?p = mset (t # tq_pending q)" by (simp add: heap_push_mset)
  have "set ?p = insert t (set (tq_pending q))" using mset_eq_setD [OF m] by simp
  moreover have "distinct (map qt_job_id ?p) \<longleftrightarrow> distinct (map qt_job_id (t # tq_pending q))" by (rule distinct_map_mset [OF m])
  moreover have "is_heap task_key ?p" using assms heap_push_heap by (auto simp: queue_ok_def)
  ultimately show ?thesis using assms by (auto simp: queue_ok_def enqueue_def)
qed

text \<open>No pending task is ever passed over: its job cannot be running.\<close>

lemma dequeue_cases:
  assumes "queue_ok q"
  shows "tq_pending q = [] \<and> dequeue q = (Inl QueueEmpty, q) \<or>
    tq_pending q \<noteq> [] \<and> tq_max_concurrent q \<le> running_count q \<and> dequeue q = (Inl NoConcurrencySlot, q) \<or>
    running_count q < tq_max_concurrent q \<and> (\<exists>t rest. heap_pop task_key (tq_pending q) = Some (t, rest) \<and>
      qt_job_id t \<notin> tq_running_jobs q \<and>
      dequeue q = (Inr t, q\<lparr>tq_pending := rest, tq_queued_jobs := tq_queued_jobs q - {qt_job_id t},
         tq_running_tasks := insert (qt_task_id t) (tq_running_tasks q), tq_running_jobs := insert (qt_job_id t) (tq_running_jobs q)\<rparr>))"
proof (cases "tq_pending q = [] \<or> tq_max_concurrent q \<le> running_count q")
  case True
  then show ?thesis by (auto simp: dequeue_def running_count_def)
next
  case False
  then obtain t rest where p: "heap_pop task_key (tq_pending q) = Some (t, rest)" using heap.pop_some [of "tq_pending q" task_key] by auto
  have "t \<in> set (tq_pending q)" using arg_cong [OF heap_pop_facts(1) [OF p], of set_mset] by simp
  then have nr: "qt_job_id t \<notin> tq_running_jobs q" using assms by (auto simp: queue_ok_def)
  then have "find_runnable (tq_running_jobs q) [] (tq_pending q) = (Some t, [], rest)"
    using p by (simp add: find_runnable.simps)
  then show ?thesis using False p nr by (simp add: dequeue_def Let_def running_count_def)
qed

lemma dequeue_ok:
  assumes "queue_ok q"
  shows "queue_ok (snd (dequeue q))"
proof (cases "\<exists>t r. heap_pop task_key (tq_pending q) = Some (t, r) \<and> fst (dequeue q) = Inr t")
  case False
  then show ?thesis using dequeue_cases [OF assms] assms by auto
next
  case True
  then obtain t r where p: "heap_pop task_key (tq_pending q) = Some (t, r)" "qt_job_id t \<notin> tq_running_jobs q"
      "snd (dequeue q) = q\<lparr>tq_pending := r, tq_queued_jobs := tq_queued_jobs q - {qt_job_id t},
         tq_running_tasks := insert (qt_task_id t) (tq_running_tasks q), tq_running_jobs := insert (qt_job_id t) (tq_running_jobs q)\<rparr>"
    using dequeue_cases [OF assms] by auto
  have m: "mset (tq_pending q) = mset (t # r)" using heap_pop_facts(1) [OF p(1)] by simp
  have "distinct (map qt_job_id (t # r))" "set (tq_pending q) = insert t (set r)"
    using assms distinct_map_mset [OF m, of qt_job_id] mset_eq_setD [OF m] by (auto simp: queue_ok_def)
  moreover have "is_heap task_key r" using heap_pop_facts(3) [OF p(1)] assms by (simp add: queue_ok_def)
  ultimately show ?thesis using assms p(2,3) by (auto simp: queue_ok_def image_iff)
qed

lemma cancel_loop_mset:
  "is_heap task_key remaining \<Longrightarrow> cancel_loop task found remaining pending = (f, r) \<Longrightarrow>
   is_heap task_key r \<and> mset r = mset remaining + filter_mset (\<lambda>t. qt_task_id t \<noteq> task) (mset pending) \<and>
   (f = found \<or> (\<exists>t \<in> set pending. f = Some t \<and> qt_task_id t = task))"
proof (induction task found remaining pending rule: cancel_loop.induct)
  case (1 task found remaining pending)
  show ?case
  proof (cases "heap_pop task_key pending")
    case None
    then have "pending = []" using heap.pop_None [of task_key pending] by simp
    then show ?thesis using 1(3,4) None by (subst (asm) cancel_loop.simps) simp
  next
    case (Some x)
    then obtain t rest where p: "heap_pop task_key pending = Some (t, rest)" by (cases x) auto
    have m: "mset pending = add_mset t (mset rest)" using heap_pop_facts(1) [OF p] .
    then have s: "set pending = insert t (set rest)" by (metis set_mset_add_mset_insert set_mset_mset)
    show ?thesis
    proof (cases "qt_task_id t = task")
      case True
      have "cancel_loop task (Some t) remaining rest = (f, r)" using 1(4) p True by (subst (asm) cancel_loop.simps) simp
      from 1(1) [OF p refl True 1(3) this] show ?thesis using m s True by auto
    next
      case False
      have "cancel_loop task found (heap_push task_key t remaining) rest = (f, r)"
        using 1(4) p False by (subst (asm) cancel_loop.simps) simp
      from 1(2) [OF p refl False heap_push_heap [OF 1(3)] this] show ?thesis using m s False by (auto simp: heap_push_mset)
    qed
  qed
qed

lemma cancel_ok:
  assumes "queue_ok q"
  shows "queue_ok (snd (cancel task q))"
proof -
  obtain f r where c: "cancel_loop task None [] (tq_pending q) = (f, r)" by fastforce
  have h: "is_heap task_key r" "mset r = mset (filter (\<lambda>t. qt_task_id t \<noteq> task) (tq_pending q))"
      "f = None \<or> (\<exists>t \<in> set (tq_pending q). f = Some t \<and> qt_task_id t = task)"
    using cancel_loop_mset [OF _ c] by (simp_all add: is_heap_def)
  have s: "set r = {t \<in> set (tq_pending q). qt_task_id t \<noteq> task}" using mset_eq_setD [OF h(2)] by auto
  have inj: "inj_on qt_job_id (set (tq_pending q))" using assms by (simp add: queue_ok_def distinct_map)
  have "distinct (map qt_job_id r)"
    using assms distinct_map_mset [OF h(2), of qt_job_id] by (simp add: queue_ok_def distinct_map_filter)
  moreover have "qt_job_id u \<noteq> qt_job_id t" if "u \<in> set r" "f = Some t" for u t
    using that h(3) s inj by (auto dest: inj_onD)
  ultimately show ?thesis using assms h(1) s c by (auto simp: queue_ok_def cancel_def split: option.splits)
qed

lemma queue_step_ok: "queue_ok q \<Longrightarrow> queue_ok (snd (queue_step e q))"
proof (cases e)
  case EvDequeue
  moreover assume "queue_ok q"
  ultimately show ?thesis using dequeue_ok [of q] by (auto split: prod.splits sum.splits)
qed (auto simp: enqueue_ok cancel_ok, auto simp: queue_ok_def complete_def set_max_concurrent_def)

lemma queue_run_ok: "queue_ok q \<Longrightarrow> queue_run es q = (tr, r) \<Longrightarrow> queue_ok r"
proof (induction es arbitrary: q tr)
  case (Cons e es)
  then show ?case using queue_step_ok [OF Cons.prems(1), of e] by (auto split: prod.splits)
qed simp

lemma queue_run_split:
  "queue_run es q = (tr1 @ tr2, r) \<Longrightarrow> \<exists>es1 es2 p. queue_run es1 q = (tr1, p) \<and> queue_run es2 p = (tr2, r)"
proof (induction tr1 arbitrary: es q)
  case Nil
  then show ?case by (intro exI [of _ "[]"] exI [of _ es] exI [of _ q]) simp
next
  case (Cons x tr1)
  then obtain e es' out p where "es = e # es'" "queue_step e q = (out, p)" "x = (e, out)" "queue_run es' p = (tr1 @ tr2, r)"
    by (cases es) (auto split: prod.splits)
  with Cons.IH [of es' p] obtain es1 es2 p' where "queue_run es1 p = (tr1, p')" "queue_run es2 p' = (tr2, r)" by blast
  with \<open>queue_step e q = (out, p)\<close> \<open>x = (e, out)\<close> show ?case by (intro exI [of _ "e # es1"] exI [of _ es2] exI [of _ p']) simp
qed

subsection \<open>Properties\<close>

lemma queue_step_running:
  assumes "queue_ok q" and "job \<in> tq_running_jobs q" and "queue_step e q = (out, q')"
  shows "(case out of Some t \<Rightarrow> qt_job_id t \<noteq> job | None \<Rightarrow> True) \<and> ((\<exists>task. e = EvComplete task job) \<or> job \<in> tq_running_jobs q')"
proof (cases e)
  case EvDequeue
  then show ?thesis using assms dequeue_cases [OF assms(1)] by (auto split: prod.splits sum.splits)
qed (use assms in \<open>auto simp: enqueue_def complete_def cancel_def set_max_concurrent_def split: if_splits prod.splits\<close>)

lemma queue_run_running:
  "queue_ok q \<Longrightarrow> job \<in> tq_running_jobs q \<Longrightarrow> queue_run es q = (tr, r) \<Longrightarrow>
   (\<exists>task out. (EvComplete task job, out) \<in> set tr) \<or> job \<in> tq_running_jobs r"
proof (induction es arbitrary: q tr)
  case (Cons e es)
  obtain out q1 tr1 where s: "queue_step e q = (out, q1)" "queue_run es q1 = (tr1, r)" "tr = (e, out) # tr1"
    using Cons.prems(3) by (auto split: prod.splits)
  have "queue_ok q1" using queue_step_ok [OF Cons.prems(1), of e] s(1) by simp
  then show ?case using queue_step_running [OF Cons.prems(1,2) s(1)] Cons.IH [OF _ _ s(2)] s(3) by auto
qed simp

text \<open>(C22) Whatever the callers do, and in whatever order they get the lock, a job is handed out again only
  after a \<open>complete\<close> for that job: two tasks of one job never run at the same time.\<close>

theorem queue_never_runs_job_twice:
  assumes "queue_run es (task_queue_new n) = (xs @ (EvDequeue, Some t) # ys @ (EvDequeue, Some u) # zs, q)"
    and "qt_job_id u = qt_job_id t"
  shows "\<exists>task out. (EvComplete task (qt_job_id t), out) \<in> set ys"
proof (rule ccontr)
  assume none: "\<nexists>task out. (EvComplete task (qt_job_id t), out) \<in> set ys"
  let ?d = "(EvDequeue, Some t)"
  have "xs @ ?d # ys @ (EvDequeue, Some u) # zs = (xs @ [?d]) @ ys @ (EvDequeue, Some u) # zs" by simp
  then obtain es1 es2 q1 where r1: "queue_run es1 (task_queue_new n) = (xs @ [?d], q1)"
      "queue_run es2 q1 = (ys @ (EvDequeue, Some u) # zs, q)"
    using assms(1) queue_run_split [of es "task_queue_new n" "xs @ [?d]"] by auto
  obtain es3 es4 q0 where r0: "queue_run es3 (task_queue_new n) = (xs, q0)" "queue_run es4 q0 = ([?d], q1)"
    using queue_run_split [OF r1(1)] by blast
  have ok0: "queue_ok q0" using queue_run_ok [OF queue_new_ok r0(1)] .
  have ok1: "queue_ok q1" using queue_run_ok [OF queue_new_ok r1(1)] .
  have "queue_step EvDequeue q0 = (Some t, q1)"
    using r0(2) by (cases es4; cases "tl es4") (auto split: prod.splits)
  then have "qt_job_id t \<in> tq_running_jobs q1" using dequeue_cases [OF ok0] by (auto split: prod.splits sum.splits)
  moreover obtain es5 es6 q2 where r2: "queue_run es5 q1 = (ys, q2)" "queue_run es6 q2 = ((EvDequeue, Some u) # zs, q)"
    using queue_run_split [OF r1(2)] by blast
  ultimately have run: "qt_job_id t \<in> tq_running_jobs q2" using queue_run_running [OF ok1 _ r2(1)] none by blast
  obtain q3 where "queue_step EvDequeue q2 = (Some u, q3)" using r2(2) by (cases es6) (auto split: prod.splits)
  from queue_step_running [OF queue_run_ok [OF ok1 r2(1)] run this] assms(2) show False by simp
qed

text \<open>After any sequence of calls \<open>dequeue\<close> answers exactly as its contract says: empty, no slot, or a task of
  the highest priority and, among those, the oldest, which it moves from the pending to the running tasks
  without exceeding the limit.  The answer \<open>JobAlreadyRunning\<close> never occurs.\<close>

theorem dequeue_serves_highest_priority:
  assumes "queue_run es (task_queue_new n) = (tr, q)"
  shows "if pending_count q = 0 then dequeue q = (Inl QueueEmpty, q)
    else if tq_max_concurrent q \<le> running_count q then dequeue q = (Inl NoConcurrencySlot, q)
    else \<exists>t q'. dequeue q = (Inr t, q') \<and> mset (tq_pending q) = add_mset t (mset (tq_pending q')) \<and>
      (\<forall>u \<in> set (tq_pending q). priority_rank (qt_priority u) < priority_rank (qt_priority t) \<or>
         qt_priority u = qt_priority t \<and> qt_enqueued_at t \<le> qt_enqueued_at u) \<and>
      is_job_running (qt_job_id t) q' \<and> running_count q' \<le> tq_max_concurrent q'"
proof -
  have ok: "queue_ok q" using queue_run_ok [OF queue_new_ok assms] .
  have same: "priority_rank a = priority_rank b \<longleftrightarrow> a = b" for a b by (cases a; cases b) simp_all
  have key: "task_key u \<le> task_key t \<longleftrightarrow> priority_rank (qt_priority u) < priority_rank (qt_priority t) \<or>
         qt_priority u = qt_priority t \<and> qt_enqueued_at t \<le> qt_enqueued_at u" for u t
    by (simp add: task_key_def less_eq_prod_def same) (auto simp: same)
  have fin: "finite (tq_running_tasks q)" using ok by (simp add: queue_ok_def)
  have max: "task_key u \<le> task_key t" if "heap_pop task_key (tq_pending q) = Some (t, r)" "u \<in> set (tq_pending q)" for t r u
    using heap_pop_max [OF _ that(1)] that(2) ok by (simp add: queue_ok_def)
  show ?thesis using dequeue_cases [OF ok] heap_pop_facts(1) fin
    by (auto simp: pending_count_def running_count_def is_job_running_def card_insert_if key [symmetric] max)
qed

text \<open>Serving the queue one task at a time.\<close>

fun serve :: "nat \<Rightarrow> task_queue \<Rightarrow> queued_task list \<times> task_queue" where
  "serve 0 q = ([], q)"
| "serve (Suc k) q = (case dequeue q of
     (Inr t, q) \<Rightarrow> (case serve k (complete (qt_task_id t) (qt_job_id t) q) of (ts, q) \<Rightarrow> (t # ts, q))
   | (Inl e, q) \<Rightarrow> ([], q))"

lemma serve_all:
  assumes "queue_ok q" and "running_count q < tq_max_concurrent q" and "length (tq_pending q) = k"
  shows "\<exists>ts r. serve k q = (ts, r) \<and> mset ts = mset (tq_pending q) \<and> tq_pending r = [] \<and>
    sorted_wrt (\<lambda>t u. task_key u \<le> task_key t) ts"
  using assms
proof (induction k arbitrary: q)
  case (Suc k)
  then obtain t rest where d: "heap_pop task_key (tq_pending q) = Some (t, rest)" and
    e: "dequeue q = (Inr t, q\<lparr>tq_pending := rest, tq_queued_jobs := tq_queued_jobs q - {qt_job_id t},
         tq_running_tasks := insert (qt_task_id t) (tq_running_tasks q), tq_running_jobs := insert (qt_job_id t) (tq_running_jobs q)\<rparr>)"
      (is "_ = (_, ?q1)")
    using dequeue_cases [OF Suc.prems(1)] by auto
  let ?q2 = "complete (qt_task_id t) (qt_job_id t) ?q1"
  have m: "mset (tq_pending q) = add_mset t (mset rest)" using heap_pop_facts(1) [OF d] .
  have "queue_ok ?q1" using dequeue_ok [OF Suc.prems(1)] e by simp
  then have "queue_ok ?q2" by (auto simp: queue_ok_def complete_def)
  moreover have "running_count ?q2 < tq_max_concurrent ?q2"
  proof -
    have fin: "finite (tq_running_tasks q)" using Suc.prems(1) by (simp add: queue_ok_def)
    then have "card (tq_running_tasks q - {qt_task_id t}) \<le> card (tq_running_tasks q)" by (intro card_mono) auto
    then show ?thesis using Suc.prems(2) by (simp add: running_count_def complete_def)
  qed
  moreover have "length (tq_pending ?q2) = k"
    using arg_cong [OF m, of size] Suc.prems(3) by (simp add: complete_def)
  ultimately obtain ts r where s: "serve k ?q2 = (ts, r)" "mset ts = mset (tq_pending ?q2)" "tq_pending r = []"
      "sorted_wrt (\<lambda>t u. task_key u \<le> task_key t) ts" using Suc.IH [of ?q2] by blast
  have mts: "mset ts = mset rest" using s(2) by (simp add: complete_def)
  have "task_key u \<le> task_key t" if "u \<in> set ts" for u
    using heap_pop_max [OF _ d] m mset_eq_setD [OF mts] that Suc.prems(1) by (simp add: queue_ok_def)
  then show ?case using e s(1,3,4) m mts by simp
qed simp

text \<open>(C23) No task starves: from every state the callers can reach in which a slot is free, serving and completing
  one task at a time hands out every pending task exactly once, by descending priority and age,
  and leaves the queue empty.\<close>

theorem queue_serves_every_task:
  assumes "queue_run es (task_queue_new n) = (tr, q)" and "running_count q < tq_max_concurrent q"
  shows "\<exists>ts r. serve (pending_count q) q = (ts, r) \<and> mset ts = mset (tq_pending q) \<and> pending_count r = 0 \<and>
    sorted_wrt (\<lambda>t u. task_key u \<le> task_key t) ts"
  using serve_all [OF queue_run_ok [OF queue_new_ok assms(1)] assms(2) refl] by (auto simp: pending_count_def)

subsection \<open>A run\<close>

definition sample_task :: "nat \<Rightarrow> nat \<Rightarrow> task_priority \<Rightarrow> int \<Rightarrow> queued_task" where
  "sample_task task job p at = make_task [of_nat task] at [of_nat job] p TkBackup"

text \<open>Two jobs are queued, the second one is urgent; it runs, is completed, is queued and runs again.\<close>

definition sample_calls :: "queue_event list" where
  "sample_calls = [EvEnqueue (sample_task 1 10 PrNormal 5), EvEnqueue (sample_task 2 20 PrHigh 6), EvDequeue,
     EvComplete [2] [20], EvEnqueue (sample_task 3 20 PrHigh 7), EvDequeue]"

theorem queue_never_runs_job_twice_witness:
  "fst (queue_run sample_calls (task_queue_new 2)) = take 2 (fst (queue_run sample_calls (task_queue_new 2))) @
     (EvDequeue, Some (sample_task 2 20 PrHigh 6)) # [(EvComplete [2] [20], None), (EvEnqueue (sample_task 3 20 PrHigh 7), None)] @
     (EvDequeue, Some (sample_task 3 20 PrHigh 7)) # [] \<and>
   (\<exists>task out. (EvComplete task [20], out) \<in> set [(EvComplete [2] [20], None :: queued_task option), (EvEnqueue (sample_task 3 20 PrHigh 7), None)])"
proof -
  let ?tr = "[(EvEnqueue (sample_task 1 10 PrNormal 5), None), (EvEnqueue (sample_task 2 20 PrHigh 6), None)] @
     (EvDequeue, Some (sample_task 2 20 PrHigh 6)) # [(EvComplete [2] [20], None), (EvEnqueue (sample_task 3 20 PrHigh 7), None)] @
     (EvDequeue, Some (sample_task 3 20 PrHigh 7)) # []"
  have run: "fst (queue_run sample_calls (task_queue_new 2)) = ?tr" by code_simp
  then obtain q where "queue_run sample_calls (task_queue_new 2) = (?tr, q)" by (metis prod.collapse)
  from queue_never_runs_job_twice [OF this] run show ?thesis by (simp add: sample_task_def make_task_def)
qed

theorem dequeue_serves_highest_priority_witness:
  "let q = snd (queue_run (take 2 sample_calls) (task_queue_new 2)) in
   pending_count q = 2 \<and> (\<exists>t q'. dequeue q = (Inr t, q') \<and> mset (tq_pending q) = add_mset t (mset (tq_pending q')) \<and>
     t = sample_task 2 20 PrHigh 6 \<and> running_count q' \<le> tq_max_concurrent q')"
proof -
  define q where "q = snd (queue_run (take 2 sample_calls) (task_queue_new 2))"
  have q: "tq_pending q = [sample_task 2 20 PrHigh 6, sample_task 1 10 PrNormal 5]" "tq_max_concurrent q = 2" "running_count q = 0"
    "fst (dequeue q) = Inr (sample_task 2 20 PrHigh 6)"
    unfolding q_def by code_simp+
  have "queue_run (take 2 sample_calls) (task_queue_new 2) = (fst (queue_run (take 2 sample_calls) (task_queue_new 2)), q)" by (simp add: q_def)
  from dequeue_serves_highest_priority [OF this] q show ?thesis unfolding Let_def q_def [symmetric] by (auto simp: pending_count_def)
qed

theorem queue_serves_every_task_witness:
  "let q = snd (queue_run (take 2 sample_calls) (task_queue_new 2)) in
   \<exists>ts r. serve 2 q = (ts, r) \<and> mset ts = {#sample_task 1 10 PrNormal 5, sample_task 2 20 PrHigh 6#} \<and> pending_count r = 0 \<and>
     sorted_wrt (\<lambda>t u. task_key u \<le> task_key t) ts"
proof -
  define q where "q = snd (queue_run (take 2 sample_calls) (task_queue_new 2))"
  have q: "tq_pending q = [sample_task 2 20 PrHigh 6, sample_task 1 10 PrNormal 5]" "running_count q < tq_max_concurrent q"
    unfolding q_def by code_simp+
  have "queue_run (take 2 sample_calls) (task_queue_new 2) = (fst (queue_run (take 2 sample_calls) (task_queue_new 2)), q)" by (simp add: q_def)
  from queue_serves_every_task [OF this q(2)] q(1) show ?thesis
    unfolding Let_def q_def [symmetric] by (auto simp: pending_count_def numeral_2_eq_2 add_mset_commute)
qed

end
