(* ===== verification/Agent_Retention_Examples.thy ===== *)
theory Agent_Retention_Examples
  imports Agent_Examples Agent_Retention
begin

text \<open>
  Concrete retention decisions and a cleanup of a small repository: three versions over two chunks.
\<close>

subsection \<open>Decisions\<close>

definition ex_version :: "u8 \<Rightarrow> timestamp \<Rightarrow> version_summary" where
  "ex_version k t = \<lparr>vs_version_id = [k], vs_version_number = 1, vs_timestamp = t, vs_backup_type = Full,
     vs_total_size = 0, vs_stored_size = 0\<rparr>"

definition ex_policy :: retention_policy where
  "ex_policy = \<lparr>rp_policy_id = [7], rp_mode = Gfs, rp_keep_last_n = None, rp_time_based_retention = None,
     rp_gfs_config = Some \<lparr>gf_daily = 1, gf_weekly = 2, gf_monthly = 0\<rparr>, rp_smart_rules = None\<rparr>"

theorem retention_decision_correct_witness:
  "\<exists>d. retention_compute plain_calendar (at 15 12 0) [ex_version 1 (at 9 8 0), ex_version 2 (at 15 8 0), ex_version 3 (at 15 9 0), ex_version 4 (at 8 8 0)]
     ex_policy = Inr d \<and> rd_keep d = [[3], [1]] \<and> rd_delete d = [[2], [4]] \<and>
     gfs_decision plain_calendar (at 15 12 0) (the (rp_gfs_config ex_policy))
       [ex_version 1 (at 9 8 0), ex_version 2 (at 15 8 0), ex_version 3 (at 15 9 0), ex_version 4 (at 8 8 0)] [[3], [1]]"
proof -
  let ?vs = "[ex_version 1 (at 9 8 0), ex_version 2 (at 15 8 0), ex_version 3 (at 15 9 0), ex_version 4 (at 8 8 0)]"
  let ?d = "\<lparr>rd_keep = [[3], [1]], rd_delete = [[2], [4]]\<rparr>"
  have r: "retention_compute plain_calendar (at 15 12 0) ?vs ex_policy = Inr ?d" by code_simp
  have "rp_mode ex_policy = Gfs" "distinct (map vs_version_id ?vs)" by code_simp+
  then show ?thesis using retention_decision_correct [OF r] r by simp
qed

subsection \<open>A cleanup\<close>

definition cl_manifest :: "u8 \<Rightarrow> bytes list \<Rightarrow> ag_manifest" where
  "cl_manifest k hs = ex_manifest [k] None 1 Full [(''a'', hs, map (\<lambda>_. 0) hs)] []"

definition cl_json :: repo_json where
  "cl_json = ex_json [cl_manifest 1 [[65], [66]], cl_manifest 2 [[66]], cl_manifest 3 [[65]]]"

definition cl_disk :: fsys where
  "cl_disk = \<lparr>nodes = [([''manifests''], Dir), ([''manifests'', ''.staging''], Dir), ([''locks''], Dir),
     (local_manifest_path sample_crates [] [1], File [0]), (local_manifest_path sample_crates [] [2], File [1]),
     (local_manifest_path sample_crates [] [3], File [2]),
     (local_chunk_path sample_crates [] [65], File (replicate 29 0)), (local_chunk_path sample_crates [] [66], File (replicate 29 1))],
     faults = []\<rparr>"

definition cl_decision :: retention_decision where
  "cl_decision = \<lparr>rd_keep = [[3]], rd_delete = [[1], [2]]\<rparr>"

definition cl_run :: "(repo_error + cleanup_result) \<times> fsys" where
  "cl_run = cleanup_execute (local_repository sample_crates cl_json [8] 0 []) [9] 0 {[2]} cl_decision cl_disk"

lemma cl_run_result: "fst cl_run = Inr \<lparr>ct_deleted_versions = [[1]], ct_reclaimed_chunks = [[66]], ct_skipped_in_use = [[2]]\<rparr>"
  by code_simp

lemma cl_saved:
  "local_saved sample_crates cl_json [] cl_disk [1] = Some (cl_manifest 1 [[65], [66]])"
  "local_saved sample_crates cl_json [] cl_disk [2] = Some (cl_manifest 2 [[66]])"
  "local_saved sample_crates cl_json [] cl_disk [3] = Some (cl_manifest 3 [[65]])"
  by code_simp+

lemma cl_disk_nodes: "lookup cl_disk q = Some n \<Longrightarrow> q = [] \<and> n = Dir \<or> (q, n) \<in> set (nodes cl_disk)"
  by (auto simp: lookup_def split: if_splits dest: map_of_SomeD)

lemma cl_disk_files: "is_file cl_disk q \<Longrightarrow> \<exists>d f. q = [''manifests'', f] \<or> q = [''chunks'', d, f]"
  unfolding is_file_def by (auto split: option.splits node.splits dest!: cl_disk_nodes)
    (auto simp: cl_disk_def local_manifest_path_def local_chunk_path_def)

lemma cl_disk_dirs: "is_dir cl_disk q \<Longrightarrow> q \<in> {[], [''manifests''], [''manifests'', ''.staging''], [''locks'']}"
  unfolding is_dir_def by (elim disjE) (simp, drule cl_disk_nodes, auto simp: cl_disk_def local_manifest_path_def local_chunk_path_def)

lemma cl_disk_ok: "local_ok sample_crates cl_json [] cl_disk"
proof -
  have "is_dir cl_disk [''manifests'']" "is_dir cl_disk [''manifests'', ''.staging'']" "faults cl_disk = []"
    by (simp_all add: cl_disk_def is_dir_def lookup_def)
  moreover have "\<not> is_file cl_disk q" if "prefix q [''chunks'', b]" for q b
    using that cl_disk_files [of q] by (auto simp: prefix_def)
  moreover have "\<not> is_dir cl_disk [''chunks'', b, f]" "\<not> is_dir cl_disk (local_manifest_path sample_crates [] v)"
      "\<not> is_dir cl_disk (local_staging_path sample_crates [] v)" for b f v
    using cl_disk_dirs by (force simp: local_manifest_path_def local_staging_path_def manifest_filename_def manifest_not_staging)+
  ultimately show ?thesis by (simp add: local_ok_def cl_json_def ex_json_inverse)
qed

lemma cl_runs: "\<exists>res t. cl_run = (Inr res, t) \<and> ct_reclaimed_chunks res = [[66]]"
  using cl_run_result by (metis cleanup_result.select_convs(2) prod.collapse)

lemma cl_referenced:
  "local_referenced sample_crates cl_json [] cl_disk [[1]] = {[65], [66]}" "local_referenced sample_crates cl_json [] cl_disk [[3]] = {[65]}"
  by (auto simp: local_referenced_def cl_saved cl_manifest_def ex_manifest_def ex_entry_def Let_def)

lemma cl_known: "local_known sample_crates [] cl_disk [65]" "local_known sample_crates [] cl_disk [66]"
  by code_simp+

lemma cl_filter: "filter (\<lambda>v. v \<notin> {[2]}) (rd_delete cl_decision) = [[1]]"
  by (simp add: cl_decision_def)

theorem cleanup_reclaims_exactly_unreferenced_witness:
  "\<exists>res t. cl_run = (Inr res, t) \<and> ct_reclaimed_chunks res = [[66]] \<and> \<not> local_known sample_crates [] t [66] \<and>
     local_stored [] t (location_of sample_crates [65]) = local_stored [] cl_disk (location_of sample_crates [65])"
proof -
  obtain res t where r: "cl_run = (Inr res, t)" "ct_reclaimed_chunks res = [[66]]" using cl_runs by blast
  note c = cleanup_reclaims_exactly_unreferenced [OF cl_disk_ok r(1) [unfolded cl_run_def]]
  then have "\<not> local_known sample_crates [] t [66]" using r(2) by (metis list.set_intros(1))
  moreover have "[65] \<in> local_referenced sample_crates cl_json [] cl_disk (rd_keep cl_decision)"
    by (simp add: cl_decision_def cl_referenced)
  ultimately show ?thesis using c r by blast
qed

theorem cleanup_breaks_version_in_use_witness:
  "\<exists>res t. cl_run = (Inr res, t) \<and> [2] \<in> set (ct_skipped_in_use res) \<and>
     local_saved sample_crates cl_json [] t [2] = Some (cl_manifest 2 [[66]]) \<and>
     (\<exists>e. local_read_chunk [] (location_of sample_crates [66]) t = (Inl e, t))"
proof -
  obtain res t where r: "cl_run = (Inr res, t)" using cl_runs by blast
  have "[66] \<in> cr_hash ` set (am_chunk_refs (cl_manifest 2 [[66]]))" by (simp add: cl_manifest_def ex_manifest_def ex_entry_def Let_def)
  with cleanup_breaks_version_in_use [OF cl_disk_ok r(1) [unfolded cl_run_def] _ _ cl_saved(2) _ cl_known(2), unfolded cl_filter cl_referenced]
  have "[2] \<in> set (ct_skipped_in_use res) \<and> local_saved sample_crates cl_json [] t [2] = Some (cl_manifest 2 [[66]]) \<and>
     (\<exists>e. local_read_chunk [] (location_of sample_crates [66]) t = (Inl e, t))" by (simp add: cl_decision_def cl_referenced)
  with r show ?thesis by blast
qed

end
