(* ===== verification/Agent_Journal.thy ===== *)
theory Agent_Journal
  imports Agent_Engine Badou_Journal
begin

text \<open>
  The journal of the agent (\<open>hbx-journal\<close>): records with a CRC, append followed by rotation, and the queries
  the backup engine resumes from.  \<open>journal_json\<close> stands for \<open>serde_json\<close> on the six payload types and for
  \<open>crc32fast\<close>.  The progress fraction (\<open>f64\<close>) of a checkpoint is left out.  The open file is
  the handle of \<open>Badou_Journal\<close>: a rename moves it along.  The log interface \<open>record_log\<close> is interpreted here
  for the second record format of the system.
\<close>

record journal_json =
  kj_crc32 :: "bytes \<Rightarrow> u32"
  kj_execution_to :: "uuid \<Rightarrow> bytes option"
  kj_execution_from :: "bytes \<Rightarrow> uuid option"
  kj_file_to :: "string \<times> chunk_hash list \<Rightarrow> bytes option"
  kj_file_from :: "bytes \<Rightarrow> (string \<times> chunk_hash list) option"
  kj_chunk_to :: "chunk_hash \<times> ag_chunk_location \<Rightarrow> bytes option"
  kj_chunk_from :: "bytes \<Rightarrow> (chunk_hash \<times> ag_chunk_location) option"
  kj_checkpoint_to :: "nat \<Rightarrow> bytes option"
  kj_checkpoint_from :: "bytes \<Rightarrow> nat option"
  kj_completed_to :: "uuid \<times> backup_result \<Rightarrow> bytes option"
  kj_completed_from :: "bytes \<Rightarrow> (uuid \<times> backup_result) option"
  kj_error_to :: "backup_error \<Rightarrow> bytes option"
  kj_error_from :: "bytes \<Rightarrow> backup_error option"

datatype ag_journal_error = AjWriteFailed string | AjCorrupted | AjSerialize | AjIo io_error

subsection \<open>Records\<close>

fun entry_parts :: "journal_json \<Rightarrow> ag_journal_entry \<Rightarrow> u8 \<times> uuid \<times> u64 \<times> bytes option" where
  "entry_parts K (TaskStarted job x t) = (1, job, t, kj_execution_to K x)"
| "entry_parts K (FileProcessed job p cs) = (2, job, 0, kj_file_to K (p, cs))"
| "entry_parts K (ChunkWritten job h l) = (3, job, 0, kj_chunk_to K (h, l))"
| "entry_parts K (JCheckpoint job n) = (4, job, 0, kj_checkpoint_to K n)"
| "entry_parts K (TaskCompleted job v r) = (5, job, 0, kj_completed_to K (v, r))"
| "entry_parts K (TaskFailed job e) = (6, job, 0, kj_error_to K e)"

definition ag_encode_entry :: "journal_json \<Rightarrow> ag_journal_entry \<Rightarrow> ag_journal_error + bytes" where
  "ag_encode_entry K e = (case entry_parts K e of
     (_, _, _, None) \<Rightarrow> Inl AjSerialize
   | (entry_type, job, t, Some payload) \<Rightarrow>
       let body = [entry_type] @ le_bytes 8 (unat t) @ job @ le_bytes 4 (length payload mod 2 ^ 32) @ payload
       in Inr (body @ le_bytes 4 (unat (kj_crc32 K body))))"

definition payload_to_entry :: "journal_json \<Rightarrow> u8 \<Rightarrow> uuid \<Rightarrow> u64 \<Rightarrow> bytes \<Rightarrow> ag_journal_error + ag_journal_entry" where
  "payload_to_entry K ty job t payload =
     (let parsed = (\<lambda>x. case x of None \<Rightarrow> Inl AjSerialize | Some e \<Rightarrow> Inr e) in
      if ty = 1 then parsed (map_option (\<lambda>x. TaskStarted job x t) (kj_execution_from K payload))
      else if ty = 2 then parsed (map_option (\<lambda>(p, cs). FileProcessed job p cs) (kj_file_from K payload))
      else if ty = 3 then parsed (map_option (\<lambda>(h, l). ChunkWritten job h l) (kj_chunk_from K payload))
      else if ty = 4 then parsed (map_option (JCheckpoint job) (kj_checkpoint_from K payload))
      else if ty = 5 then parsed (map_option (\<lambda>(v, r). TaskCompleted job v r) (kj_completed_from K payload))
      else if ty = 6 then parsed (map_option (TaskFailed job) (kj_error_from K payload))
      else Inl AjCorrupted)"

definition ag_decode_entry :: "journal_json \<Rightarrow> bytes \<Rightarrow> ag_journal_error + ag_journal_entry" where
  "ag_decode_entry K data =
     (if length data < 33 then Inl AjCorrupted
      else let t = of_nat (of_le_bytes (take 8 (drop 1 data))); job = take 16 (drop 9 data);
               len = of_le_bytes (take 4 (drop 25 data)) in
        if length data < 29 + len + 4 then Inl AjCorrupted
        else if of_nat (of_le_bytes (take 4 (drop (29 + len) data))) \<noteq> kj_crc32 K (take (29 + len) data) then Inl AjCorrupted
        else payload_to_entry K (data ! 0) job t (take len (drop 29 data)))"

text \<open>The loop of \<open>read_all_entries\<close> on the data from the offset on.\<close>

function ag_read_records :: "journal_json \<Rightarrow> bytes \<Rightarrow> ag_journal_entry list" where
  "ag_read_records K data =
     (if length data < 33 then []
      else let n = 29 + of_le_bytes (take 4 (drop 25 data)) + 4 in
        if n > length data then []
        else case ag_decode_entry K (take n data) of
          Inl _ \<Rightarrow> []
        | Inr e \<Rightarrow> e # ag_read_records K (drop n data))"
  by pat_completeness auto
termination
  by (relation "measure (\<lambda>(K, data). length data)") auto

declare ag_read_records.simps [simp del]

subsection \<open>The journal\<close>

definition ag_open_with_rotation :: "path \<Rightarrow> nat \<Rightarrow> fsys \<Rightarrow> (ag_journal_error + journal) \<times> fsys" where
  "ag_open_with_rotation p rotation_size s =
     and_then (map_err AjIo (open_append p s))
       (\<lambda>size s. (Inr \<lparr>j_path = p, j_handle = p, j_rotation_size = rotation_size, j_current_size = size\<rparr>, s))"

definition ag_journal_open :: "path \<Rightarrow> fsys \<Rightarrow> (ag_journal_error + journal) \<times> fsys" where
  "ag_journal_open p s = ag_open_with_rotation p default_rotation_size s"

definition rotated_path :: "path \<Rightarrow> path" where
  "rotated_path p = with_extension p ''journal.rotated''"

definition ag_rotate :: "jst \<Rightarrow> (ag_journal_error + unit) \<times> jst" where
  "ag_rotate = (\<lambda>(j, s). case fs_rename (j_path j) (rotated_path (j_path j)) s of
     (Inl e, s) \<Rightarrow> (Inl (AjIo e), (j, s))
   | (Inr _, s) \<Rightarrow>
       let j = (if j_handle j = j_path j then j\<lparr>j_handle := rotated_path (j_path j)\<rparr> else j) in
       (case open_append (j_path j) s of
          (Inl e, s) \<Rightarrow> (Inl (AjIo e), (j, s))
        | (Inr _, s) \<Rightarrow> (Inr (), (j\<lparr>j_handle := j_path j, j_current_size := 0\<rparr>, s))))"

definition ag_append :: "journal_json \<Rightarrow> ag_journal_entry \<Rightarrow> jst \<Rightarrow> (ag_journal_error + unit) \<times> jst" where
  "ag_append K e = (\<lambda>(j, s). case ag_encode_entry K e of
     Inl x \<Rightarrow> (Inl x, (j, s))
   | Inr rec \<Rightarrow> (case fs_append (j_handle j) rec s of
       (Inl x, s) \<Rightarrow> (Inl (AjIo x), (j, s))
     | (Inr _, s) \<Rightarrow>
         let j = j\<lparr>j_current_size := j_current_size j + length rec\<rparr> in
         if j_current_size j \<ge> j_rotation_size j then ag_rotate (j, s) else (Inr (), (j, s))))"

definition read_all_entries :: "journal_json \<Rightarrow> jst \<Rightarrow> (ag_journal_error + ag_journal_entry list) \<times> jst" where
  "read_all_entries K = (\<lambda>(j, s). case fs_read (j_handle j) s of
     (Inl x, s) \<Rightarrow> (Inl (AjIo x), (j, s))
   | (Inr data, s) \<Rightarrow> (Inr (ag_read_records K data), (j, s)))"

definition read_recent :: "journal_json \<Rightarrow> nat \<Rightarrow> jst \<Rightarrow> (ag_journal_error + ag_journal_entry list) \<times> jst" where
  "read_recent K n st = and_then (read_all_entries K st) (\<lambda>es st. (Inr (drop (length es - n) es), st))"

fun checkpoint_of :: "uuid \<Rightarrow> ag_journal_entry \<Rightarrow> nat option" where
  "checkpoint_of job (JCheckpoint i n) = (if i = job then Some n else None)"
| "checkpoint_of job _ = None"

definition read_checkpoint :: "journal_json \<Rightarrow> timestamp \<Rightarrow> uuid \<Rightarrow> jst \<Rightarrow> (ag_journal_error + (nat \<times> timestamp) option) \<times> jst" where
  "read_checkpoint K now job st = and_then (read_all_entries K st) (\<lambda>es st.
     (Inr (case List.map_filter (checkpoint_of job) (rev es) of [] \<Rightarrow> None | n # _ \<Rightarrow> Some (n, now)), st))"

text \<open>The journal as the backup engine holds it.  Its results are dropped by the engine (\<open>let _ = ...\<close>).\<close>

definition append_journal :: "journal_json \<Rightarrow> jst journal_trait" where
  "append_journal K = \<lparr>jt_append = (\<lambda>e st. snd (ag_append K e st)),
     jt_read_recent = (\<lambda>n st. case fst (read_recent K n st) of Inl _ \<Rightarrow> None | Inr es \<Rightarrow> Some es)\<rparr>"

subsection \<open>The record format\<close>

definition codec_ok :: "journal_json \<Rightarrow> bool" where
  "codec_ok K \<longleftrightarrow> (\<forall>x b. kj_execution_to K x = Some b \<longrightarrow> kj_execution_from K b = Some x) \<and>
     (\<forall>x b. kj_file_to K x = Some b \<longrightarrow> kj_file_from K b = Some x) \<and>
     (\<forall>x b. kj_chunk_to K x = Some b \<longrightarrow> kj_chunk_from K b = Some x) \<and>
     (\<forall>x b. kj_checkpoint_to K x = Some b \<longrightarrow> kj_checkpoint_from K b = Some x) \<and>
     (\<forall>x b. kj_completed_to K x = Some b \<longrightarrow> kj_completed_from K b = Some x) \<and>
     (\<forall>x b. kj_error_to K x = Some b \<longrightarrow> kj_error_from K b = Some x)"

text \<open>An entry the format represents: a 16-byte job identifier and a payload whose length fits 32 bits.\<close>

definition ag_entry_ok :: "journal_json \<Rightarrow> ag_journal_entry \<Rightarrow> bool" where
  "ag_entry_ok K e \<longleftrightarrow> codec_ok K \<and> (case entry_parts K e of (_, job, _, p) \<Rightarrow>
     length job = 16 \<and> (case p of None \<Rightarrow> False | Some b \<Rightarrow> length b < 2 ^ 32))"

lemma payload_inverse:
  assumes "codec_ok K" and "entry_parts K e = (ty, job, t, Some b)"
  shows "payload_to_entry K ty job t b = Inr e"
  using assms by (cases e) (auto simp: payload_to_entry_def codec_ok_def Let_def)

definition ag_header :: "u8 \<Rightarrow> uuid \<Rightarrow> u64 \<Rightarrow> bytes \<Rightarrow> bytes" where
  "ag_header ty job t b = [ty] @ le_bytes 8 (unat t) @ job @ le_bytes 4 (length b)"

lemma ag_header_fields:
  assumes "length job = 16" and "length b < 2 ^ 32"
  shows "length (ag_header ty job t b) = 29" "ag_header ty job t b ! 0 = ty"
    "of_nat (of_le_bytes (take 8 (drop 1 (ag_header ty job t b)))) = t" "take 16 (drop 9 (ag_header ty job t b)) = job"
    "of_le_bytes (take 4 (drop 25 (ag_header ty job t b))) = length b"
proof -
  have "unat t < 256 ^ 8" using unsigned_less [of t, where ?'a = nat] by simp
  then show "of_nat (of_le_bytes (take 8 (drop 1 (ag_header ty job t b)))) = t"
    by (simp add: ag_header_def del: le_bytes.simps)
  show "length (ag_header ty job t b) = 29" "ag_header ty job t b ! 0 = ty" "take 16 (drop 9 (ag_header ty job t b)) = job"
    "of_le_bytes (take 4 (drop 25 (ag_header ty job t b))) = length b"
    using assms by (simp_all add: ag_header_def del: le_bytes.simps)
qed

definition ag_enc :: "journal_json \<Rightarrow> ag_journal_entry \<Rightarrow> bytes" where
  "ag_enc K e = (case ag_encode_entry K e of Inr b \<Rightarrow> b | Inl _ \<Rightarrow> [])"

lemma ag_enc_split:
  assumes "ag_entry_ok K e"
  obtains ty job t b where "entry_parts K e = (ty, job, t, Some b)" "length job = 16" "length b < 2 ^ 32"
    "ag_encode_entry K e = Inr (ag_enc K e)"
    "ag_enc K e = ag_header ty job t b @ b @ le_bytes 4 (unat (kj_crc32 K (ag_header ty job t b @ b)))"
    "payload_to_entry K ty job t b = Inr e"
proof -
  obtain ty job t b where p: "entry_parts K e = (ty, job, t, Some b)" "length job = 16" "length b < 2 ^ 32" "codec_ok K"
    using assms by (auto simp: ag_entry_ok_def split: prod.splits option.splits)
  then have "ag_encode_entry K e = Inr (ag_header ty job t b @ b @ le_bytes 4 (unat (kj_crc32 K (ag_header ty job t b @ b))))"
    by (simp add: ag_encode_entry_def ag_header_def Let_def del: le_bytes.simps)
  then show ?thesis using that p payload_inverse [OF p(4,1)] by (simp add: ag_enc_def)
qed

lemma ag_decode_enc:
  assumes "ag_entry_ok K e"
  shows "ag_decode_entry K (ag_enc K e) = Inr e" "length (ag_enc K e) = 29 + of_le_bytes (take 4 (drop 25 (ag_enc K e @ rest))) + 4"
proof -
  obtain ty job t b where p: "length job = 16" "length b < 2 ^ 32" "payload_to_entry K ty job t b = Inr e"
      "ag_enc K e = ag_header ty job t b @ b @ le_bytes 4 (unat (kj_crc32 K (ag_header ty job t b @ b)))"
    using ag_enc_split [OF assms] by metis
  let ?h = "ag_header ty job t b" and ?c = "kj_crc32 K (ag_header ty job t b @ b)"
  note f = ag_header_fields [OF p(1,2)]
  have "unat ?c < 256 ^ 4" using unsigned_less [of ?c, where ?'a = nat] by simp
  then have crc: "of_nat (of_le_bytes (le_bytes 4 (unat ?c))) = ?c" by (simp del: le_bytes.simps)
  have nth: "(?h @ xs) ! 0 = ty" for xs using f(1,2) by (simp add: nth_append)
  show "ag_decode_entry K (ag_enc K e) = Inr e"
    unfolding p(4) ag_decode_entry_def using f crc p(3) nth by (simp add: Let_def del: le_bytes.simps)
  show "length (ag_enc K e) = 29 + of_le_bytes (take 4 (drop 25 (ag_enc K e @ rest))) + 4"
    unfolding p(4) using f by (simp del: le_bytes.simps)
qed

definition ag_read_log :: "journal_json \<Rightarrow> bytes \<Rightarrow> ag_journal_entry list option" where
  "ag_read_log K bs = Some (ag_read_records K bs)"

interpretation agent_wal: record_log "ag_enc K" "ag_read_log K" "ag_entry_ok K" for K
proof unfold_locales
  show "ag_read_log K [] = Some []" by (simp add: ag_read_log_def ag_read_records.simps)
  fix r rest p assume ok: "ag_entry_ok K r"
  note d = ag_decode_enc [OF ok]
  have l: "\<not> length (ag_enc K r @ rest) < 33" using d(2) [of rest] by simp
  show "ag_read_log K (ag_enc K r @ rest) = map_option ((#) r) (ag_read_log K rest)"
    unfolding ag_read_log_def ag_read_records.simps [of K "ag_enc K r @ rest"] Let_def d(2) [of rest, symmetric] if_not_P [OF l]
    using d(1) by simp
  assume "strict_prefix p (ag_enc K r)"
  then obtain q where q: "ag_enc K r = p @ q" "q \<noteq> []" by (auto simp: strict_prefix_def prefix_def)
  have "29 + of_le_bytes (take 4 (drop 25 p)) + 4 > length p" if "\<not> length p < 33"
    using d(2) [of "[]"] q that by (cases q) simp_all
  then show "ag_read_log K p = Some []" by (simp add: ag_read_log_def ag_read_records.simps [of K p] Let_def)
qed

subsection \<open>The log on disk\<close>

definition ag_log_of :: "journal_json \<Rightarrow> ag_journal_entry list \<Rightarrow> bytes" where
  "ag_log_of K es = concat (map (ag_enc K) es)"

lemma ag_log_of_simps [simp]: "ag_log_of K [] = []" "ag_log_of K (es @ [e]) = ag_log_of K es @ ag_enc K e"
  by (simp_all add: ag_log_of_def)

definition ag_journal_log :: "journal_json \<Rightarrow> ag_journal_entry list \<Rightarrow> jst \<Rightarrow> bool" where
  "ag_journal_log K es = (\<lambda>(j, s). j_handle j = j_path j \<and> lookup s (j_path j) = Some (File (ag_log_of K es)) \<and>
     j_current_size j = length (ag_log_of K es) \<and> (\<forall>e \<in> set es. ag_entry_ok K e))"

text \<open>Whether appending \<open>e\<close> fills the journal.\<close>

definition fills :: "journal_json \<Rightarrow> journal \<Rightarrow> ag_journal_entry \<Rightarrow> bool" where
  "fills K j e \<longleftrightarrow> j_current_size j + length (ag_enc K e) \<ge> j_rotation_size j"

lemma file_stem_dotless: "CHR ''.'' \<in> set n \<Longrightarrow> file_stem n = n \<or> (\<exists>e. CHR ''.'' \<notin> set e \<and> n = file_stem n @ CHR ''.'' # e)"
proof -
  let ?d = "dropWhile (\<lambda>c. c \<noteq> CHR ''.'') (rev n)" and ?t = "takeWhile (\<lambda>c. c \<noteq> CHR ''.'') (rev n)"
  assume "CHR ''.'' \<in> set n"
  then have "?d \<noteq> []" by (auto simp: dropWhile_eq_Nil_conv)
  then have "?d = CHR ''.'' # tl ?d" using hd_dropWhile [of "\<lambda>c. c \<noteq> CHR ''.''" "rev n"] by (metis list.collapse)
  then have "rev n = ?t @ CHR ''.'' # tl ?d" by (metis takeWhile_dropWhile_id)
  then have "n = rev (tl ?d) @ CHR ''.'' # rev ?t" by (metis append.assoc append_Cons append_Nil rev.simps(2) rev_append rev_rev_ident)
  moreover have "CHR ''.'' \<notin> set (rev ?t)" using set_takeWhileD by fastforce
  ultimately have "CHR ''.'' \<notin> set (rev ?t) \<and> n = rev (tl ?d) @ CHR ''.'' # rev ?t" by blast
  moreover have "file_stem n = n \<or> file_stem n = rev (tl ?d)" by (simp add: file_stem_def)
  ultimately show ?thesis by (elim disjE) (blast, (rule disjI2, rule exI [of _ "rev ?t"], simp only: simp_thms))
qed

lemma rotated_path_neq [simp]: "rotated_path p \<noteq> p" "p \<noteq> rotated_path p"
proof -
  show "rotated_path p \<noteq> p"
  proof
    assume "rotated_path p = p"
    then have "last (rotated_path p) = last p" by simp
    then have e: "last p = file_stem (last p) @ ''.journal.rotated''" by (simp add: rotated_path_def with_extension_def)
    have "CHR ''.'' \<in> set (last p)" by (subst e) simp
    then consider "file_stem (last p) = last p" | x where "CHR ''.'' \<notin> set x" "last p = file_stem (last p) @ CHR ''.'' # x"
      using file_stem_dotless by blast
    then show False
    proof cases
      case 1
      have "length (last p) = length (file_stem (last p) @ ''.journal.rotated'')" using arg_cong [OF e] .
      then show False unfolding 1 by simp
    next
      case 2
      have "file_stem (last p) @ CHR ''.'' # x = file_stem (last p) @ ''.journal.rotated''" by (rule trans [OF 2(2) [symmetric] e])
      then show False using 2(1) by auto
    qed
  qed
  then show "p \<noteq> rotated_path p" by metis
qed

lemma ag_rotate_cases:
  assumes "ag_rotate (j, s) = (r, (j', s'))" and "j_handle j = j_path j" and "lookup s (j_path j) = Some (File d)"
  shows "(r = Inr () \<and> j_handle j' = j_path j \<and> j_path j' = j_path j \<and> j_current_size j' = 0 \<and> j_rotation_size j' = j_rotation_size j \<and>
       lookup s' = (lookup s)(rotated_path (j_path j) \<mapsto> File d, j_path j \<mapsto> File [])) \<or>
     (r \<noteq> Inr () \<and> (lookup s' (j_path j) = Some (File d) \<or> lookup s' (rotated_path (j_path j)) = Some (File d)))"
proof (cases "fs_rename (j_path j) (rotated_path (j_path j)) s")
  case (Pair x s1)
  show ?thesis
  proof (cases x)
    case (Inl e)
    then show ?thesis using assms Pair fs_rename_Err [of "j_path j" _ s e s1] by (auto simp: ag_rotate_def)
  next
    case (Inr u)
    then have l: "lookup s1 = (lookup s)(j_path j := None, rotated_path (j_path j) \<mapsto> File d)"
      using fs_rename_Ok [of "j_path j" "rotated_path (j_path j)" s s1] Pair assms(3) by auto
    obtain y s2 where o: "open_append (j_path j) s1 = (y, s2)" by (rule prod.exhaust)
    show ?thesis
    proof (cases y)
      case (Inl e)
      then show ?thesis using assms Pair Inr o l open_append_Err [of "j_path j" s1 e s2] by (auto simp: ag_rotate_def Let_def)
    next
      case y: (Inr n)
      have "lookup s1 (j_path j) = None" using l by simp
      then have "lookup s2 = (lookup s1)(j_path j \<mapsto> File [])" using open_append_Ok [of "j_path j" s1 n s2] o y by auto
      then show ?thesis using assms Pair Inr o y l by (auto simp: ag_rotate_def Let_def)
    qed
  qed
qed

subsection \<open>Appending and reading back\<close>

lemma ag_append_Ok:
  assumes log: "ag_journal_log K es (j, s)" and ok: "ag_entry_ok K e" and a: "ag_append K e (j, s) = (Inr (), (j', s'))"
  shows "j_path j' = j_path j" "j_rotation_size j' = j_rotation_size j"
    "ag_journal_log K (if fills K j e then [] else es @ [e]) (j', s')"
    "fills K j e \<Longrightarrow> lookup s' (rotated_path (j_path j)) = Some (File (ag_log_of K (es @ [e])))"
proof -
  have enc: "ag_encode_entry K e = Inr (ag_enc K e)" using ag_enc_split [OF ok] by metis
  have h: "j_handle j = j_path j" "j_current_size j = length (ag_log_of K es)" "\<forall>x \<in> set es. ag_entry_ok K x"
      "lookup s (j_path j) = Some (File (ag_log_of K es))" using log by (auto simp: ag_journal_log_def)
  let ?j = "j\<lparr>j_current_size := j_current_size j + length (ag_enc K e)\<rparr>"
  obtain s1 where f: "fs_append (j_path j) (ag_enc K e) s = (Inr (), s1)"
      and r: "(if fills K j e then ag_rotate (?j, s1) else (Inr (), (?j, s1))) = (Inr (), (j', s'))"
    using a enc h(1) by (auto simp: ag_append_def fills_def Let_def split: prod.splits sum.splits)
  have l: "lookup s1 = (lookup s)(j_path j \<mapsto> File (ag_log_of K (es @ [e])))" using fs_append_Ok [OF f] h(4) by auto
  have "j_path j' = j_path j \<and> j_rotation_size j' = j_rotation_size j \<and> ag_journal_log K (if fills K j e then [] else es @ [e]) (j', s') \<and>
    (fills K j e \<longrightarrow> lookup s' (rotated_path (j_path j)) = Some (File (ag_log_of K (es @ [e]))))"
  proof (cases "fills K j e")
    case True
    then show ?thesis using ag_rotate_cases [of ?j s1 "Inr ()" j' s'] r h l by (auto simp: ag_journal_log_def)
  next
    case False
    then have "j' = ?j" "s' = s1" using r by auto
    then show ?thesis using False h l ok by (simp add: ag_journal_log_def)
  qed
  then show "j_path j' = j_path j" "j_rotation_size j' = j_rotation_size j"
    "ag_journal_log K (if fills K j e then [] else es @ [e]) (j', s')"
    "fills K j e \<Longrightarrow> lookup s' (rotated_path (j_path j)) = Some (File (ag_log_of K (es @ [e])))" by blast+
qed

lemma ag_read_log_of: "\<forall>e \<in> set es. ag_entry_ok K e \<Longrightarrow> ag_read_records K (ag_log_of K es) = es"
  using agent_wal.rd_log [of es K] by (simp add: ag_read_log_def ag_log_of_def)

lemma ag_queries:
  assumes "ag_journal_log K es (j, s)" and "faults s = []"
  shows "read_recent K n (j, s) = (Inr (drop (length es - n) es), (j, s))"
    "read_checkpoint K now job (j, s) =
       (Inr (case List.map_filter (checkpoint_of job) (rev es) of [] \<Rightarrow> None | n # _ \<Rightarrow> Some (n, now)), (j, s))"
proof -
  have "read_all_entries K (j, s) = (Inr es, (j, s))"
    using assms ag_read_log_of [of es K] by (simp add: read_all_entries_def ag_journal_log_def fs_read_def)
  then show "read_recent K n (j, s) = (Inr (drop (length es - n) es), (j, s))"
    "read_checkpoint K now job (j, s) =
       (Inr (case List.map_filter (checkpoint_of job) (rev es) of [] \<Rightarrow> None | n # _ \<Rightarrow> Some (n, now)), (j, s))"
    by (simp_all add: read_recent_def read_checkpoint_def and_then_def)
qed

text \<open>Whatever fault hits an append to the agent's journal (none, an entry that cannot be serialized, a refused
  call, a write torn at any byte, a failing rename or re-open during rotation), afterwards reading the journal file
  or the rotated file yields every earlier record, in order, with at most the new one behind them.\<close>

theorem agent_journal_never_loses_records:
  assumes log: "ag_journal_log K es (j, s)" and ok: "ag_entry_ok K e" and a: "ag_append K e (j, s) = (r, (j', s'))"
  shows "\<exists>f d k. f \<in> {j_path j, rotated_path (j_path j)} \<and> lookup s' f = Some (File d) \<and> length es \<le> k \<and>
    ag_read_records K d = take k (es @ [e])"
proof -
  have enc: "ag_encode_entry K e = Inr (ag_enc K e)" using ag_enc_split [OF ok] by metis
  have h: "j_handle j = j_path j" "lookup s (j_path j) = Some (File (ag_log_of K es))" "\<forall>x \<in> set es. ag_entry_ok K x"
    using log by (auto simp: ag_journal_log_def)
  have kept: ?thesis if "f \<in> {j_path j, rotated_path (j_path j)}" "lookup s' f = Some (File (ag_log_of K es @ take n (ag_enc K e)))" for f n
  proof -
    obtain k where "ag_read_records K (take n (ag_enc K e)) = take k [e]"
      using agent_wal.rd_prefix [of "[e]" K "take n (ag_enc K e)"] ok by (auto simp: ag_read_log_def take_is_prefix)
    then have "ag_read_records K (ag_log_of K es @ take n (ag_enc K e)) = take (length es + k) (es @ [e])"
      using agent_wal.rd_append [OF h(3), of "take n (ag_enc K e)"] by (simp add: ag_read_log_def ag_log_of_def)
    then show ?thesis using that by (intro exI [of _ f] exI [of _ "ag_log_of K es @ take n (ag_enc K e)"] exI [of _ "length es + k"]) simp
  qed
  obtain x s1 where f: "fs_append (j_path j) (ag_enc K e) s = (x, s1)" by (rule prod.exhaust)
  obtain n where n: "lookup s1 = (lookup s)(j_path j \<mapsto> File (ag_log_of K es @ take n (ag_enc K e)))" "x = Inr () \<Longrightarrow> n = length (ag_enc K e)"
    using fs_append_cases [OF f h(2)] by blast
  let ?j = "j\<lparr>j_current_size := j_current_size j + length (ag_enc K e)\<rparr>"
  consider "s' = s1" | "x = Inr ()" "ag_rotate (?j, s1) = (r, (j', s'))"
    using a enc f h(1) by (auto simp: ag_append_def Let_def split: sum.splits if_splits)
  then show ?thesis
  proof cases
    case 1
    then show ?thesis using kept [of "j_path j" n] n(1) by simp
  next
    case 2
    then have "lookup s1 (j_path j) = Some (File (ag_log_of K es @ ag_enc K e))" using n by simp
    then have "lookup s' (j_path j) = Some (File (ag_log_of K es @ ag_enc K e)) \<or>
        lookup s' (rotated_path (j_path j)) = Some (File (ag_log_of K es @ ag_enc K e))"
      using ag_rotate_cases [OF 2(2)] h(1) by fastforce
    then show ?thesis using kept [of _ "length (ag_enc K e)"] by auto
  qed
qed

text \<open>Rotation makes the agent forget.  An append that fills the journal succeeds, but afterwards the queries
  that resume a backup find nothing: no recent entry, no checkpoint, no processed file, not even the entry just
  appended.  The next rotation replaces the rotated file, and the earlier records are in no file any more.\<close>

theorem journal_rotation_forgets:
  assumes "ag_journal_log K es (j, s)" and "ag_entry_ok K e1" and "ag_entry_ok K e2"
    and "ag_append K e1 (j, s) = (Inr (), (j1, s1))" and "fills K j e1" and "faults s1 = []"
    and "ag_append K e2 (j1, s1) = (Inr (), (j2, s2))" and "fills K j1 e2"
    and "en_journal E = Some (append_journal K)" and "es_journal st = (j1, s1)"
  shows "read_recent K n (j1, s1) = (Inr [], (j1, s1)) \<and> read_checkpoint K now job (j1, s1) = (Inr None, (j1, s1)) \<and>
    processed_files E job st = [] \<and>
    lookup s1 (rotated_path (j_path j)) = Some (File (ag_log_of K (es @ [e1]))) \<and>
    lookup s2 (rotated_path (j_path j)) = Some (File (ag_log_of K [e2])) \<and> lookup s2 (j_path j) = Some (File [])"
proof -
  note a = ag_append_Ok [OF assms(1,2,4)]
  have log1: "ag_journal_log K [] (j1, s1)" using a(3) assms(5) by simp
  note b = ag_append_Ok [OF log1 assms(3,7)]
  have q: "read_recent K m (j1, s1) = (Inr [], (j1, s1))" for m using ag_queries(1) [OF log1 assms(6)] by simp
  moreover have "read_checkpoint K now job (j1, s1) = (Inr None, (j1, s1))" using ag_queries(2) [OF log1 assms(6)] by (simp add: map_filter_def)
  moreover have "processed_files E job st = []" using assms(9,10) q by (simp add: processed_files_def append_journal_def map_filter_def)
  moreover have "lookup s2 (j_path j) = Some (File [])" using b(1,3) a(1) assms(8) by (simp add: ag_journal_log_def)
  ultimately show ?thesis using a(1,4) b(4) assms(5,8) by simp
qed

subsection \<open>Witnesses\<close>

definition sample_kj :: journal_json where
  "sample_kj = \<lparr>kj_crc32 = (\<lambda>b. of_nat (length b)), kj_execution_to = Some, kj_execution_from = Some,
     kj_file_to = (\<lambda>_. None), kj_file_from = (\<lambda>_. None), kj_chunk_to = (\<lambda>_. None), kj_chunk_from = (\<lambda>_. None),
     kj_checkpoint_to = (\<lambda>n. if n < 256 then Some [of_nat n] else None),
     kj_checkpoint_from = (\<lambda>b. case b of [x] \<Rightarrow> Some (unat x) | _ \<Rightarrow> None),
     kj_completed_to = (\<lambda>_. None), kj_completed_from = (\<lambda>_. None), kj_error_to = (\<lambda>_. None), kj_error_from = (\<lambda>_. None)\<rparr>"

definition sample_job :: uuid where
  "sample_job = replicate 16 9"

definition checkpoint :: "nat \<Rightarrow> ag_journal_entry" where
  "checkpoint n = JCheckpoint sample_job n"

lemma sample_kj_ok: "n < 256 \<Longrightarrow> ag_entry_ok sample_kj (checkpoint n)"
  by (auto simp: ag_entry_ok_def codec_ok_def sample_kj_def checkpoint_def sample_job_def unsigned_of_nat take_bit_nat_eq_self split: if_splits)

lemma checkpoint_length: "n < 256 \<Longrightarrow> length (ag_enc sample_kj (checkpoint n)) = 34"
  by (simp add: ag_enc_def ag_encode_entry_def checkpoint_def sample_kj_def sample_job_def Let_def)

definition full_journal :: "nat \<Rightarrow> fault list \<Rightarrow> jst" where
  "full_journal limit fs = (\<lparr>j_path = [''a.journal''], j_handle = [''a.journal''], j_rotation_size = limit, j_current_size = 34\<rparr>,
     \<lparr>nodes = [([''a.journal''], File (ag_enc sample_kj (checkpoint 1)))], faults = fs\<rparr>)"

lemma full_journal_log: "ag_journal_log sample_kj [checkpoint 1] (full_journal limit fs)"
  by (simp add: ag_journal_log_def full_journal_def lookup_def ag_log_of_def sample_kj_ok checkpoint_length)

theorem agent_journal_never_loses_records_witness:
  "\<exists>r j' s' f d k. ag_append sample_kj (checkpoint 2) (full_journal 60 [NoFault, NoFault, Fails]) = (r, (j', s')) \<and>
     lookup s' f = Some (File d) \<and> 1 \<le> k \<and> ag_read_records sample_kj d = take k [checkpoint 1, checkpoint 2]"
proof -
  obtain j s where st: "full_journal 60 [NoFault, NoFault, Fails] = (j, s)" by (rule prod.exhaust)
  obtain r j' s' where a: "ag_append sample_kj (checkpoint 2) (j, s) = (r, (j', s'))" by (metis prod_cases3)
  have "ag_journal_log sample_kj [checkpoint 1] (j, s)" using full_journal_log st by metis
  from agent_journal_never_loses_records [OF this sample_kj_ok a] a st show ?thesis by fastforce
qed

lemma enc_checkpoint: "n < 256 \<Longrightarrow> ag_encode_entry sample_kj (checkpoint n) = Inr (ag_enc sample_kj (checkpoint n))"
  by (rule ag_enc_split [OF sample_kj_ok])

theorem journal_rotation_forgets_witness:
  "\<exists>j1 s1 j2 s2. ag_append sample_kj (checkpoint 2) (full_journal 34 []) = (Inr (), (j1, s1)) \<and>
     ag_append sample_kj (checkpoint 3) (j1, s1) = (Inr (), (j2, s2)) \<and> read_recent sample_kj 10 (j1, s1) = (Inr [], (j1, s1)) \<and>
     lookup s2 (rotated_path [''a.journal'']) = Some (File (ag_log_of sample_kj [checkpoint 3]))"
proof -
  let ?j = "\<lparr>j_path = [''a.journal''], j_handle = [''a.journal''], j_rotation_size = 34, j_current_size = 0\<rparr>"
  have rp: "rotated_path [''a.journal''] = [''a.journal.rotated'']" by code_simp
  note sm = ag_append_def ag_rotate_def fs_append_def fs_rename_def open_append_def lookup_def set_node_def del_node_def is_dir_def
    Let_def rp enc_checkpoint checkpoint_length
  have a: "ag_append sample_kj (checkpoint 2) (full_journal 34 []) = (Inr (), (?j,
      \<lparr>nodes = [([''a.journal.rotated''], File (ag_log_of sample_kj [checkpoint 1, checkpoint 2])), ([''a.journal''], File [])], faults = []\<rparr>))"
    (is "_ = (_, (_, ?s))") by (simp add: full_journal_def sm ag_log_of_def)
  obtain s2 where b: "ag_append sample_kj (checkpoint 3) (?j, ?s) = (Inr (), (?j, s2))" by (simp add: sm)
  obtain j s where st: "full_journal 34 [] = (j, s)" by (rule prod.exhaust)
  have log: "ag_journal_log sample_kj [checkpoint 1] (j, s)" using full_journal_log st by metis
  have f: "fills sample_kj j (checkpoint 2)" "fills sample_kj ?j (checkpoint 3)" "j_path j = [''a.journal'']"
    using st by (auto simp: fills_def full_journal_def checkpoint_length)
  let ?E = "undefined\<lparr>en_journal := Some (append_journal sample_kj)\<rparr> :: (unit, jst) backup_engine"
  let ?st = "undefined\<lparr>es_journal := (?j, ?s)\<rparr> :: (unit, jst) engine_st"
  have "read_recent sample_kj 10 (?j, ?s) = (Inr [], (?j, ?s)) \<and>
      lookup s2 (rotated_path [''a.journal'']) = Some (File (ag_log_of sample_kj [checkpoint 3]))"
    using journal_rotation_forgets [OF log sample_kj_ok sample_kj_ok a [unfolded st] f(1) _ b f(2), of ?E ?st 10] f(3) by simp
  then show ?thesis using a b by blast
qed

end
