(* ===== verification/Agent_Scanner.thy ===== *)
theory Agent_Scanner
  imports Agent_Incremental
begin

text \<open>
  The scanner (\<open>hbx-scanner\<close>): filter rules, the walk over the sources, the difference to the previous
  version with its rename detection, and what the incremental backup makes of that difference.

  \<open>walk_env\<close> stands for the file system as \<open>walkdir\<close> and \<open>std::fs\<close> report it and for \<open>regex\<close>: the readable entries
  below a path in their order, and whether a pattern compiles and matches.  The entries go through a channel in
  order, so the stream is a list.  Instants outside the range of \<open>chrono\<close> are not modelled.
\<close>

record walk_entry =
  we_path :: string
  we_is_file :: bool
  we_metadata :: "(u64 \<times> int option) option"

record walk_env =
  wk_exists :: "path \<Rightarrow> bool"
  wk_walk :: "path \<Rightarrow> walk_entry list"
  wk_regex :: "string \<Rightarrow> string \<Rightarrow> bool option"

subsection \<open>Filters\<close>

primrec glob_match_helper :: "string \<Rightarrow> string \<Rightarrow> bool" where
  "glob_match_helper [] txt \<longleftrightarrow> txt = []"
| "glob_match_helper (c # pat) txt =
     (if c = CHR ''*'' then pat = [] \<or> list_ex (\<lambda>k. glob_match_helper pat (drop k txt)) [0..<Suc (length txt)]
      else (case txt of [] \<Rightarrow> False | x # rest \<Rightarrow> (c = CHR ''?'' \<or> c = x) \<and> glob_match_helper pat rest))"

fun matches_rule :: "walk_env \<Rightarrow> string \<Rightarrow> filter_rule \<Rightarrow> bool" where
  "matches_rule W p (Glob pat) = glob_match_helper pat p"
| "matches_rule W p (Regex pat) = (case wk_regex W pat p of Some b \<Rightarrow> b | None \<Rightarrow> False)"
| "matches_rule W p (PathPrefix q) = prefix q p"

definition passes_filters :: "walk_env \<Rightarrow> string \<Rightarrow> filter_rule list \<Rightarrow> filter_rule list \<Rightarrow> bool" where
  "passes_filters W p incl excl =
     (if list_ex (matches_rule W p) excl then False
      else if incl = [] then True else list_ex (matches_rule W p) incl)"

subsection \<open>The walk\<close>

text \<open>Modification times are cut to seconds; what cannot be read, and anything before 1970, is 1970.\<close>

definition mtime_of :: "int option \<Rightarrow> timestamp" where
  "mtime_of t = (case t of None \<Rightarrow> 0 | Some ns \<Rightarrow> if ns < 0 then 0 else ns div 1000000000 * 1000000000)"

definition scanned_entry :: "walk_env \<Rightarrow> backup_source \<Rightarrow> walk_entry \<Rightarrow> ag_file_entry option" where
  "scanned_entry W src e =
     (if \<not> we_is_file e \<or> \<not> passes_filters W (we_path e) (bs_include_rules src) (bs_exclude_rules src) then None
      else case we_metadata e of
        None \<Rightarrow> None
      | Some (len, modified) \<Rightarrow> Some \<lparr>af_path = we_path e, af_size = len, af_modified_at = mtime_of modified,
          af_attributes = file_attributes_default, af_chunks = [], af_file_hash = replicate 32 0\<rparr>)"

definition all_files :: "walk_env \<Rightarrow> backup_source \<Rightarrow> ag_file_entry list" where
  "all_files W src = concat (map (\<lambda>p. if wk_exists W p then List.map_filter (scanned_entry W src) (wk_walk W p) else []) (bs_paths src))"

definition scan_estimate :: "walk_env \<Rightarrow> backup_source \<Rightarrow> u64 \<times> u64" where
  "scan_estimate W src =
     (let es = filter (\<lambda>e. we_is_file e \<and> passes_filters W (we_path e) (bs_include_rules src) (bs_exclude_rules src))
        (concat (map (\<lambda>p. if wk_exists W p then wk_walk W p else []) (bs_paths src)))
      in (of_nat (length es), sum_list (map (\<lambda>e. case we_metadata e of Some (len, _) \<Rightarrow> len | None \<Rightarrow> 0) es)))"

subsection \<open>The difference to a version\<close>

record renamed_file =
  rn_old_path :: string
  rn_new_path :: string

record file_tree_diff =
  ft_added :: "ag_file_entry list"
  ft_modified :: "ag_file_entry list"
  ft_deleted :: "string list"
  ft_renamed :: "renamed_file list"

definition baseline_map :: "backup_snapshot \<Rightarrow> string \<Rightarrow> file_snapshot_entry option" where
  "baseline_map b p = map_of (rev (map (\<lambda>f. (fn_path f, f)) (bn_files b))) p"

text \<open>The loop over the files of the baseline: what is gone is matched with the first unmatched new file of the
  same size and time.\<close>

fun match_baseline :: "string list \<Rightarrow> ag_file_entry list \<Rightarrow> file_snapshot_entry list \<Rightarrow> string list \<Rightarrow> string list \<times> renamed_file list" where
  "match_baseline cur new [] matched = ([], [])"
| "match_baseline cur new (b # bs) matched =
     (if fn_path b \<in> set cur then match_baseline cur new bs matched
      else case find (\<lambda>c. af_path c \<notin> set matched \<and> af_size c = fn_size b \<and> af_modified_at c = fn_mtime b) new of
        Some c \<Rightarrow> (case match_baseline cur new bs (af_path c # matched) of (d, r) \<Rightarrow>
          (d, \<lparr>rn_old_path = fn_path b, rn_new_path = af_path c\<rparr> # r))
      | None \<Rightarrow> (case match_baseline cur new bs matched of (d, r) \<Rightarrow> (fn_path b # d, r)))"

definition compute_diff :: "ag_file_entry list \<Rightarrow> backup_snapshot \<Rightarrow> file_tree_diff" where
  "compute_diff cur b =
     (let potentially_added = filter (\<lambda>e. baseline_map b (af_path e) = None) cur;
          modified = filter (\<lambda>e. case baseline_map b (af_path e) of
            Some f \<Rightarrow> af_size e \<noteq> fn_size f \<or> af_modified_at e \<noteq> fn_mtime f | None \<Rightarrow> False) cur in
      case match_baseline (map af_path cur) potentially_added (bn_files b) [] of (deleted, renamed) \<Rightarrow>
      \<lparr>ft_added = filter (\<lambda>e. af_path e \<notin> set (map rn_new_path renamed)) potentially_added,
       ft_modified = modified, ft_deleted = deleted, ft_renamed = renamed\<rparr>)"

definition diff_is_empty :: "file_tree_diff \<Rightarrow> bool" where
  "diff_is_empty d \<longleftrightarrow> ft_added d = [] \<and> ft_modified d = [] \<and> ft_deleted d = [] \<and> ft_renamed d = []"

definition changed_files :: "file_tree_diff \<Rightarrow> ag_file_entry list" where
  "changed_files d = ft_added d @ ft_modified d"

definition scan_with_diff :: "walk_env \<Rightarrow> backup_source \<Rightarrow> backup_snapshot option \<Rightarrow> scan_error + (ag_file_entry list \<times> file_tree_diff option)" where
  "scan_with_diff W src base = (case base of
     Some b \<Rightarrow> let d = compute_diff (all_files W src) b in Inr (ft_added d @ ft_modified d, Some d)
   | None \<Rightarrow> Inr (all_files W src, None))"

definition local_scan :: "walk_env \<Rightarrow> backup_source \<Rightarrow> backup_snapshot option \<Rightarrow> scan_error + ag_file_entry list" where
  "local_scan W src base = (case scan_with_diff W src base of Inl e \<Rightarrow> Inl e | Inr (fs, _) \<Rightarrow> Inr fs)"

subsection \<open>What the difference says\<close>

lemma baseline_map_distinct:
  assumes "distinct (map fn_path (bn_files b))"
  shows "baseline_map b p = Some f \<longleftrightarrow> f \<in> set (bn_files b) \<and> fn_path f = p"
    "baseline_map b p = None \<longleftrightarrow> p \<notin> fn_path ` set (bn_files b)"
proof -
  let ?m = "rev (map (\<lambda>f. (fn_path f, f)) (bn_files b))"
  have "distinct (map fst ?m)" using assms by (simp add: rev_map [symmetric] comp_def)
  then show "baseline_map b p = Some f \<longleftrightarrow> f \<in> set (bn_files b) \<and> fn_path f = p" by (auto simp: baseline_map_def map_of_eq_Some_iff)
  show "baseline_map b p = None \<longleftrightarrow> p \<notin> fn_path ` set (bn_files b)" by (simp add: baseline_map_def map_of_eq_None_iff image_image)
qed

lemma match_baseline_cases:
  assumes "match_baseline cur new (b # bs) matched = (d, r)"
  obtains (present) "fn_path b \<in> set cur" "match_baseline cur new bs matched = (d, r)"
  | (renamed) c r' where "fn_path b \<notin> set cur" "c \<in> set new" "af_path c \<notin> set matched" "af_size c = fn_size b" "af_modified_at c = fn_mtime b"
      "match_baseline cur new bs (af_path c # matched) = (d, r')" "r = \<lparr>rn_old_path = fn_path b, rn_new_path = af_path c\<rparr> # r'"
  | (deleted) d' where "fn_path b \<notin> set cur" "match_baseline cur new bs matched = (d', r)" "d = fn_path b # d'"
proof (cases "fn_path b \<in> set cur")
  case False
  show thesis
  proof (cases "find (\<lambda>c. af_path c \<notin> set matched \<and> af_size c = fn_size b \<and> af_modified_at c = fn_mtime b) new")
    case None
    then show thesis using assms False by (auto split: prod.splits intro: deleted)
  next
    case (Some c)
    then have "c \<in> set new" "af_path c \<notin> set matched" "af_size c = fn_size b" "af_modified_at c = fn_mtime b"
      by (auto simp: find_Some_iff)
    then show thesis using assms False Some by (auto split: prod.splits intro: renamed)
  qed
qed (use assms present in simp)

lemma match_baseline_deleted:
  "match_baseline cur new bs matched = (d, r) \<Longrightarrow> set d \<union> rn_old_path ` set r = fn_path ` set bs - set cur"
proof (induction bs arbitrary: matched d r)
  case (Cons b bs)
  from Cons.prems show ?case
  proof (cases rule: match_baseline_cases)
    case present
    then show ?thesis using Cons.IH [OF present(2)] by auto
  next
    case renamed
    then show ?thesis using Cons.IH [OF renamed(6)] by auto
  next
    case deleted
    then show ?thesis using Cons.IH [OF deleted(2)] by auto
  qed
qed simp

lemma match_baseline_distinct:
  "match_baseline cur new bs matched = (d, r) \<Longrightarrow> distinct (map fn_path bs) \<Longrightarrow> distinct (d @ map rn_old_path r)"
proof (induction bs arbitrary: matched d r)
  case (Cons b bs)
  from Cons.prems(1) show ?case
  proof (cases rule: match_baseline_cases)
    case present
    then show ?thesis using Cons.IH [OF present(2)] Cons.prems(2) by auto
  next
    case (renamed c r')
    have "fn_path b \<notin> set d \<union> rn_old_path ` set r'" unfolding match_baseline_deleted [OF renamed(6)] using Cons.prems(2) by auto
    then show ?thesis using Cons.IH [OF renamed(6)] Cons.prems(2) renamed(7) by auto
  next
    case (deleted d')
    have "fn_path b \<notin> set d' \<union> rn_old_path ` set r" unfolding match_baseline_deleted [OF deleted(2)] using Cons.prems(2) by auto
    then show ?thesis using Cons.IH [OF deleted(2)] Cons.prems(2) deleted(3) by auto
  qed
qed simp

definition joins :: "file_snapshot_entry list \<Rightarrow> ag_file_entry list \<Rightarrow> renamed_file \<Rightarrow> bool" where
  "joins bs cs x \<longleftrightarrow> (\<exists>f \<in> set bs. \<exists>c \<in> set cs. rn_old_path x = fn_path f \<and> rn_new_path x = af_path c \<and>
     af_size c = fn_size f \<and> af_modified_at c = fn_mtime f)"

lemma match_baseline_renamed:
  "match_baseline cur new bs matched = (d, r) \<Longrightarrow> distinct (map rn_new_path r) \<and> rn_new_path ` set r \<inter> set matched = {} \<and>
     (\<forall>x \<in> set r. joins bs new x)"
proof (induction bs arbitrary: matched d r)
  case (Cons b bs)
  have mono: "joins bs new x \<Longrightarrow> joins (b # bs) new x" for x by (auto simp: joins_def)
  from Cons.prems(1) show ?case
  proof (cases rule: match_baseline_cases)
    case present
    then show ?thesis using Cons.IH [OF present(2)] mono by blast
  next
    case (renamed c r')
    have "joins (b # bs) new \<lparr>rn_old_path = fn_path b, rn_new_path = af_path c\<rparr>" using renamed(2,4,5) by (auto simp: joins_def)
    then show ?thesis using Cons.IH [OF renamed(6)] renamed(3,7) mono by auto
  next
    case (deleted d')
    then show ?thesis using Cons.IH [OF deleted(2)] mono by blast
  qed
qed simp

lemma file_tree_diff_facts:
  assumes "distinct (map fn_path (bn_files b))" and "d = compute_diff cur b"
  shows "af_path ` set (ft_added d) \<union> rn_new_path ` set (ft_renamed d) = af_path ` set cur - fn_path ` set (bn_files b) \<and>
    af_path ` set (ft_added d) \<inter> rn_new_path ` set (ft_renamed d) = {} \<and>
    set (ft_deleted d) \<union> rn_old_path ` set (ft_renamed d) = fn_path ` set (bn_files b) - af_path ` set cur \<and>
    distinct (ft_deleted d @ map rn_old_path (ft_renamed d)) \<and> distinct (map rn_new_path (ft_renamed d)) \<and>
    (\<forall>x \<in> set (ft_renamed d). joins (bn_files b) cur x) \<and>
    set (ft_modified d) = {c \<in> set cur. \<exists>f \<in> set (bn_files b). fn_path f = af_path c \<and> (af_size c \<noteq> fn_size f \<or> af_modified_at c \<noteq> fn_mtime f)}"
proof -
  let ?new = "filter (\<lambda>e. baseline_map b (af_path e) = None) cur"
  obtain del ren where m: "match_baseline (map af_path cur) ?new (bn_files b) [] = (del, ren)" by (rule prod.exhaust)
  have d: "ft_added d = filter (\<lambda>e. af_path e \<notin> set (map rn_new_path ren)) ?new" "ft_deleted d = del" "ft_renamed d = ren"
      "ft_modified d = filter (\<lambda>e. case baseline_map b (af_path e) of
         Some f \<Rightarrow> af_size e \<noteq> fn_size f \<or> af_modified_at e \<noteq> fn_mtime f | None \<Rightarrow> False) cur"
    using m by (simp_all add: assms(2) compute_diff_def)
  note r = match_baseline_renamed [OF m]
  have new: "af_path ` set ?new = af_path ` set cur - fn_path ` set (bn_files b)" using baseline_map_distinct(2) [OF assms(1)] by auto
  have "rn_new_path ` set ren \<subseteq> af_path ` set ?new" using r by (fastforce simp: joins_def)
  then have 1: "af_path ` set (ft_added d) \<union> rn_new_path ` set ren = af_path ` set ?new" unfolding d(1) by auto
  have 2: "af_path ` set (ft_added d) \<inter> rn_new_path ` set ren = {}" unfolding d(1) by auto
  have 3: "set del \<union> rn_old_path ` set ren = fn_path ` set (bn_files b) - af_path ` set cur" using match_baseline_deleted [OF m] by simp
  have 4: "\<forall>x \<in> set ren. joins (bn_files b) cur x" using r by (fastforce simp: joins_def)
  have 5: "set (ft_modified d) = {c \<in> set cur. \<exists>f \<in> set (bn_files b). fn_path f = af_path c \<and> (af_size c \<noteq> fn_size f \<or> af_modified_at c \<noteq> fn_mtime f)}"
  proof -
    have "(case baseline_map b q of Some f \<Rightarrow> P f | None \<Rightarrow> False) \<longleftrightarrow> (\<exists>f \<in> set (bn_files b). fn_path f = q \<and> P f)" for q P
      using baseline_map_distinct [OF assms(1), of q] by (cases "baseline_map b q") (auto, metis option.inject)
    then show ?thesis unfolding d(4) set_filter by simp
  qed
  show ?thesis unfolding d(2,3) using 1 2 3 4 5 new r match_baseline_distinct [OF m assms(1)] by (intro conjI) simp_all
qed

text \<open>(C31) The difference of a scan to a version accounts for every path: the files the version does not have
  are either added or the target of exactly one rename, the files that are gone are either deleted or the source
  of exactly one rename, a rename joins files of equal size and time, and modified are those whose size or time differs.\<close>

theorem file_tree_diff_correct:
  assumes "distinct (map fn_path (bn_files b))" and "d = compute_diff cur b"
  shows "af_path ` set (ft_added d) \<union> rn_new_path ` set (ft_renamed d) = af_path ` set cur - fn_path ` set (bn_files b) \<and>
    af_path ` set (ft_added d) \<inter> rn_new_path ` set (ft_renamed d) = {} \<and>
    set (ft_deleted d) \<union> rn_old_path ` set (ft_renamed d) = fn_path ` set (bn_files b) - af_path ` set cur \<and>
    distinct (ft_deleted d @ map rn_old_path (ft_renamed d)) \<and> distinct (map rn_new_path (ft_renamed d)) \<and>
    (\<forall>x \<in> set (ft_renamed d). joins (bn_files b) cur x) \<and>
    set (ft_modified d) = {c \<in> set cur. \<exists>f \<in> set (bn_files b). fn_path f = af_path c \<and> (af_size c \<noteq> fn_size f \<or> af_modified_at c \<noteq> fn_mtime f)}"
  using file_tree_diff_facts [OF assms] .

subsection \<open>What the incremental backup makes of it\<close>

lemma diff_and_store_files:
  "diff_and_store E job prev v f r base a st = (Inr a', st') \<Longrightarrow> \<exists>f'. ra_files a' = ra_files a @ [f'] \<and> af_path f' = af_path f"
  by (auto simp: diff_and_store_def and_then_Ok_iff Let_def add_file_def completed_entry_def dest!: backup_chunks_files)

lemma incremental_files_paths:
  "incremental_files E job prev v fs a st = (Inr a', st') \<Longrightarrow>
   f \<in> set (ra_files a') \<Longrightarrow> f \<in> set (ra_files a) \<or> af_path f \<in> af_path ` set fs"
proof (induction fs arbitrary: a st)
  case (Cons g fs)
  show ?case
  proof (cases "en_open E (af_path g)")
    case None
    then show ?thesis using Cons.prems Cons.IH by fastforce
  next
    case (Some r)
    obtain a1 st1 where s: "(case baseline_chunks prev (af_path g) of Some base \<Rightarrow> diff_and_store E job prev v g r base a st
          | None \<Rightarrow> chunk_and_store E False False job v g r a st) = (Inr a1, st1)" "incremental_files E job prev v fs a1 st1 = (Inr a', st')"
      using Cons.prems(1) Some by (auto simp: and_then_Ok_iff)
    have "\<exists>g'. ra_files a1 = ra_files a @ [g'] \<and> af_path g' = af_path g"
      using s(1) diff_and_store_files chunk_and_store_files by (fastforce split: option.splits)
    then show ?thesis using Cons.IH [OF s(2) Cons.prems(2)] by auto
  qed
qed simp

lemma incremental_manifest:
  assumes "run_incremental_backup E job base st = (Inr res, st')"
  obtains v m r prev fs cf where "bt_version_id res = Some v" "br_write_manifest (en_repo E) v m r = (Inr (), es_repo st')"
    "fst (br_read_manifest (en_repo E) base (es_repo st)) = Inr prev" "en_scan E (bj_source job) (Some (snapshot_of base prev)) = Inr fs"
    "am_files m = unchanged_files prev (map af_path fs) @ cf" "\<forall>f \<in> set cf. af_path f \<in> af_path ` set fs"
proof -
  obtain v st1 where s: "fresh_uuid E st = (v, st1)" by fastforce
  have st1: "es_repo st1 = es_repo st" using s by (auto simp: fresh_uuid_def)
  obtain prev st2 where p: "on_repo (br_read_manifest (en_repo E) base) (set_state ExScanning st1) = (Inr prev, st2)"
    and r1: "and_then (lift_err EnScan (en_scan E (bj_source job) (Some (snapshot_of base prev))) st2) (\<lambda>fs st.
       and_then (incremental_files E job prev v fs run_acc_new (set_state ExChunking st)) (\<lambda>a st.
       let unchanged = unchanged_files prev (map af_path fs); refs = unchanged_refs prev v unchanged @ ra_refs a;
           locs = fold (\<lambda>(k, l). or_insert k l) (am_chunk_locations prev) (ra_locations a)
       in and_then (commit_version E v (Some base) (am_version_number prev + 1) Incremental (unchanged @ ra_files a) refs locs st) (\<lambda>_ st.
          (Inr ((result_of v a)\<lparr>bt_file_count := of_nat (length (ra_files a)) + of_nat (length unchanged)\<rparr>),
           set_state ExSuccess st)))) = (Inr res, st')"
    using assms s by (auto simp: run_incremental_backup_def and_then_Ok_iff)
  obtain fs where f: "en_scan E (bj_source job) (Some (snapshot_of base prev)) = Inr fs"
    using r1 by (auto simp: and_then_Ok_iff lift_err_def map_err_Ok_iff)
  let ?un = "unchanged_files prev (map af_path fs)"
  obtain a st3 st4 m refs locs where i: "incremental_files E job prev v fs run_acc_new (set_state ExChunking st2) = (Inr a, st3)"
    and c: "commit_version E v (Some base) (am_version_number prev + 1) Incremental (?un @ ra_files a) refs locs st3 = (Inr m, st4)"
      "bt_version_id res = Some v" "es_repo st' = es_repo st4"
    using r1 f by (auto simp: and_then_Ok_iff lift_err_def map_err_Ok_iff Let_def result_of_def map_err_def)
  have b: "build_manifest E v (Some base) (am_version_number prev + 1) Incremental (?un @ ra_files a) refs locs = Inr m"
      "\<exists>r. br_write_manifest (en_repo E) v m r = (Inr (), es_repo st4)"
    using c(1) by (auto simp: commit_version_def Let_def and_then_Ok_iff lift_err_def map_err_Ok_iff on_repo_def split: prod.splits)
  have "am_files m = ?un @ ra_files a" using b(1) by (auto simp: build_manifest_def Let_def split: option.splits)
  moreover have "fst (br_read_manifest (en_repo E) base (es_repo st)) = Inr prev"
    using p st1 by (auto simp: on_repo_def map_err_Ok_iff split: prod.splits)
  moreover have "\<forall>f \<in> set (ra_files a). af_path f \<in> af_path ` set fs" using incremental_files_paths [OF i] by (auto simp: run_acc_new_def)
  moreover obtain r where "br_write_manifest (en_repo E) v m r = (Inr (), es_repo st')" using b(2) c(3) by metis
  ultimately show thesis using that c(2) f by blast
qed

text \<open>(C32) An incremental backup after a rename or a deletion commits a version that does not show the source as it is: the
  renamed file is missing under its new path and still listed under its old one, and a deleted file stays.\<close>

theorem incremental_backup_ignores_renames_and_deletions:
  assumes "run_incremental_backup E job base st = (Inr res, st')" and "en_scan E = local_scan W"
    and "fst (br_read_manifest (en_repo E) base (es_repo st)) = Inr prev" and "distinct (map af_path (am_files prev))"
    and "d = compute_diff (all_files W (bj_source job)) (snapshot_of base prev)"
  shows "\<exists>v m r. bt_version_id res = Some v \<and> br_write_manifest (en_repo E) v m r = (Inr (), es_repo st') \<and>
    (\<forall>x \<in> set (ft_renamed d). rn_new_path x \<notin> af_path ` set (am_files m) \<and> rn_old_path x \<in> af_path ` set (am_files m)) \<and>
    (\<forall>p \<in> set (ft_deleted d). p \<in> af_path ` set (am_files m))"
proof -
  from assms(1) obtain v m r prev' fs cf where m: "bt_version_id res = Some v" "br_write_manifest (en_repo E) v m r = (Inr (), es_repo st')"
      "fst (br_read_manifest (en_repo E) base (es_repo st)) = Inr prev'" "en_scan E (bj_source job) (Some (snapshot_of base prev')) = Inr fs"
      "am_files m = unchanged_files prev' (map af_path fs) @ cf" "\<forall>f \<in> set cf. af_path f \<in> af_path ` set fs"
    by (rule incremental_manifest)
  have p: "prev' = prev" using m(3) assms(3) by simp
  let ?b = "snapshot_of base prev" and ?cur = "all_files W (bj_source job)"
  have bp: "map fn_path (bn_files ?b) = map af_path (am_files prev)" by (simp add: snapshot_of_def)
  then have bs: "fn_path ` set (bn_files ?b) = af_path ` set (am_files prev)" by (metis set_map)
  have fs: "fs = ft_added d @ ft_modified d" using m(4) assms(2,5) p by (simp add: local_scan_def scan_with_diff_def Let_def)
  note facts = file_tree_diff_facts [OF assms(4) [folded bp] assms(5)]
  have c: "af_path ` set (ft_added d) \<union> rn_new_path ` set (ft_renamed d) = af_path ` set ?cur - af_path ` set (am_files prev)"
      "af_path ` set (ft_added d) \<inter> rn_new_path ` set (ft_renamed d) = {}"
      "set (ft_deleted d) \<union> rn_old_path ` set (ft_renamed d) = af_path ` set (am_files prev) - af_path ` set ?cur"
      "set (ft_modified d) \<subseteq> {x \<in> set ?cur. af_path x \<in> af_path ` set (am_files prev)}"
    using facts [unfolded bs] by (simp_all only:) (auto simp: bs [symmetric] intro: rev_image_eqI)
  have "rn_new_path x \<notin> af_path ` set (am_files m)" if "x \<in> set (ft_renamed d)" for x
  proof -
    have x: "rn_new_path x \<in> rn_new_path ` set (ft_renamed d)" using that by simp
    then have "rn_new_path x \<notin> af_path ` set (am_files prev)" "rn_new_path x \<notin> af_path ` set (ft_added d)" using c(1,2) by blast+
    moreover have "af_path ` set (ft_modified d) \<subseteq> af_path ` set (am_files prev)" using c(4) by blast
    ultimately have "rn_new_path x \<notin> af_path ` set (am_files prev)" "rn_new_path x \<notin> af_path ` set fs"
      unfolding fs set_append image_Un by blast+
    moreover have "af_path ` set cf \<subseteq> af_path ` set fs" using m(6) by blast
    ultimately show ?thesis unfolding m(5) p by (auto simp: unchanged_files_def)
  qed
  moreover have "q \<in> af_path ` set (am_files m)" if "q \<in> set (ft_deleted d) \<union> rn_old_path ` set (ft_renamed d)" for q
  proof -
    have q: "q \<in> af_path ` set (am_files prev)" "q \<notin> af_path ` set ?cur" using c(3) that by auto
    have "af_path ` set (ft_added d) \<subseteq> af_path ` set ?cur" "af_path ` set (ft_modified d) \<subseteq> af_path ` set ?cur" using c(1,4) by blast+
    then have "af_path ` set fs \<subseteq> af_path ` set ?cur" unfolding fs set_append image_Un by blast
    then show ?thesis using q m(5) p by (auto simp: unchanged_files_def image_iff)
  qed
  ultimately show ?thesis using m(1,2) by blast
qed

end
