(* ===== verification/Agent_Scanner_Examples.thy ===== *)
theory Agent_Scanner_Examples
  imports Agent_Examples Agent_Scanner
begin

text \<open>
  A scan after one file was renamed, and the incremental backup that follows it.
\<close>

definition ex_walk :: walk_env where
  "ex_walk = \<lparr>wk_exists = (\<lambda>p. True), wk_walk = (\<lambda>p. [\<lparr>we_path = ''a'', we_is_file = False, we_metadata = None\<rparr>,
     \<lparr>we_path = ''a/y'', we_is_file = True, we_metadata = Some (2, Some 5)\<rparr>]), wk_regex = (\<lambda>p t. None)\<rparr>"

definition rn_job :: backup_job where
  "rn_job = ex_job\<lparr>bj_source := \<lparr>bs_paths = [[''a'']], bs_include_rules = [Glob ''a/*''], bs_exclude_rules = []\<rparr>\<rparr>"

lemma rn_diff:
  "compute_diff (all_files ex_walk (bj_source rn_job)) (snapshot_of [7] ex_prev) =
     \<lparr>ft_added = [], ft_modified = [], ft_deleted = [], ft_renamed = [\<lparr>rn_old_path = ''a/x'', rn_new_path = ''a/y''\<rparr>]\<rparr>"
  by code_simp

theorem file_tree_diff_correct_witness:
  "af_path ` set (all_files ex_walk (bj_source rn_job)) = {''a/y''} \<and> fn_path ` set (bn_files (snapshot_of [7] ex_prev)) = {''a/x''} \<and>
   af_path ` set (ft_added (compute_diff (all_files ex_walk (bj_source rn_job)) (snapshot_of [7] ex_prev))) \<union>
     rn_new_path ` set (ft_renamed (compute_diff (all_files ex_walk (bj_source rn_job)) (snapshot_of [7] ex_prev))) = {''a/y''} - {''a/x''}"
proof -
  have p: "map af_path (all_files ex_walk (bj_source rn_job)) = [''a/y'']" "map fn_path (bn_files (snapshot_of [7] ex_prev)) = [''a/x'']" by code_simp+
  then have d: "distinct (map fn_path (bn_files (snapshot_of [7] ex_prev)))" by simp
  have "af_path ` set (all_files ex_walk (bj_source rn_job)) = {''a/y''}" "fn_path ` set (bn_files (snapshot_of [7] ex_prev)) = {''a/x''}"
    using arg_cong [OF p(1), of set] arg_cong [OF p(2), of set] by simp_all
  then show ?thesis using file_tree_diff_correct [OF d refl, of "all_files ex_walk (bj_source rn_job)"] by metis
qed

definition rn_engine :: "repo_json \<Rightarrow> (fsys, unit) backup_engine" where
  "rn_engine J = (ex_engine J [])\<lparr>en_scan := local_scan ex_walk\<rparr>"

definition rn_manifest :: ag_manifest where
  "rn_manifest = projr (build_manifest (ex_engine (ex_json []) []) [1] (Some [7]) (am_version_number ex_prev + 1) Incremental (am_files ex_prev)
     (unchanged_refs ex_prev [1] (am_files ex_prev)) (fold (\<lambda>(k, l). or_insert k l) (am_chunk_locations ex_prev) []))"

lemma rn_run:
  assumes J: "J = ex_json [ex_prev, rn_manifest]"
  shows "\<exists>res st'. run_incremental_backup (rn_engine J) rn_job [7] (ex_start (ex_disk2 J) 1) = (Inr res, st')"
proof -
  let ?E = "ex_engine J []" and ?locs = "fold (\<lambda>(k, l). or_insert k l) (am_chunk_locations ex_prev) []"
  let ?st = "set_state ExChunking (set_state ExScanning (ex_start (ex_disk2 J) 2))"
  obtain m where m: "build_manifest ?E [1] (Some [7]) (am_version_number ex_prev + 1) Incremental (am_files ex_prev)
      (unchanged_refs ex_prev [1] (am_files ex_prev)) ?locs = Inr m" using build_manifest_Inr by blast
  then have "rn_manifest = m" unfolding rn_manifest_def build_manifest_json [of "ex_json []" "[]" J] by simp
  then have vec: "oj_manifest_to_vec J m \<noteq> None" using J by (simp add: ex_json_def)
  have "local_ok sample_crates J [] (es_repo ?st)" using ex_disk2_facts(1) [OF J] by (simp add: ex_start_def)
  from commit_Inr [OF this m vec] obtain st2 where
    "commit_version ?E [1] (Some [7]) (am_version_number ex_prev + 1) Incremental (am_files ex_prev)
      (unchanged_refs ex_prev [1] (am_files ex_prev)) ?locs ?st = (Inr m, st2)" by blast
  then have c: "commit_version (rn_engine J) [1] (Some [7]) (am_version_number ex_prev + 1) Incremental (am_files ex_prev)
      (unchanged_refs ex_prev [1] (am_files ex_prev)) ?locs ?st = (Inr m, st2)"
    by (simp add: rn_engine_def commit_version_def build_manifest_def)
  have rd: "br_read_manifest (local_repository sample_crates J [8] 0 []) [7] (ex_disk2 J) = (Inr ex_prev, ex_disk2 J)"
    using local.read_manifest ex_disk2_facts(1,2) [OF J] by blast
  have fu: "fresh_uuid (rn_engine J) (ex_start (ex_disk2 J) 1) = ([1], ex_start (ex_disk2 J) 2)"
    by (simp add: fresh_uuid_def ex_start_def rn_engine_def numeral_2_eq_2)
  have st: "(set_state ExScanning (ex_start (ex_disk2 J) 2))\<lparr>es_repo := ex_disk2 J\<rparr> = set_state ExScanning (ex_start (ex_disk2 J) 2)"
    "es_repo (ex_start (ex_disk2 J) 2) = ex_disk2 J" by (simp_all add: set_state_def ex_start_def)
  have sc: "en_scan (rn_engine J) (bj_source rn_job) (Some (snapshot_of [7] ex_prev)) = Inr []"
    by (simp add: rn_engine_def local_scan_def scan_with_diff_def rn_diff)
  have E: "en_repo (rn_engine J) = local_repository sample_crates J [8] 0 []" by (simp add: rn_engine_def)
  show ?thesis using fu rd c sc by (simp add: run_incremental_backup_def on_repo_def lift_err_def Let_def st E unchanged_files_def run_acc_new_def)
qed

theorem incremental_backup_ignores_renames_and_deletions_witness:
  "let J = ex_json [ex_prev, rn_manifest]; r = run_incremental_backup (rn_engine J) rn_job [7] (ex_start (ex_disk2 J) 1) in
   map af_path (all_files ex_walk (bj_source rn_job)) = [''a/y''] \<and>
   (\<exists>v m s. bt_version_id (projr (fst r)) = Some v \<and> br_write_manifest (en_repo (rn_engine J)) v m s = (Inr (), es_repo (snd r)) \<and>
      ''a/y'' \<notin> af_path ` set (am_files m) \<and> ''a/x'' \<in> af_path ` set (am_files m))"
proof -
  define J where "J = ex_json [ex_prev, rn_manifest]"
  obtain res st' where run: "run_incremental_backup (rn_engine J) rn_job [7] (ex_start (ex_disk2 J) 1) = (Inr res, st')"
    using rn_run [OF J_def] by blast
  have rd: "fst (br_read_manifest (en_repo (rn_engine J)) [7] (es_repo (ex_start (ex_disk2 J) 1))) = Inr ex_prev"
    using local.read_manifest [of sample_crates J "[]" "ex_disk2 J" "[7]" ex_prev "[8]" 0] ex_disk2_facts(1,2) [OF J_def]
    by (simp add: rn_engine_def ex_start_def)
  have "distinct (map af_path (am_files ex_prev))" "map af_path (all_files ex_walk (bj_source rn_job)) = [''a/y'']" by code_simp+
  moreover have "en_scan (rn_engine J) = local_scan ex_walk" by (simp add: rn_engine_def)
  ultimately show ?thesis
    using incremental_backup_ignores_renames_and_deletions [OF run _ rd _ rn_diff [symmetric]]
    unfolding Let_def J_def [symmetric] run by simp
qed

end
