(* ===== verification/Agent_Restore_Points.thy ===== *)
theory Agent_Restore_Points
  imports Agent_Repo
begin

text \<open>
  Restore points (\<open>hbx-restore/src/restore_point.rs\<close>): which version a restore starts from, and
  whether the chain of its parents can be read; and the checkpoint of a restore
  (\<open>hbx-restore/src/checkpoint.rs\<close>).  The repository is the trait \<open>backup_repository\<close>, so that the
  results hold for every implementation.  The walk along the parents is a loop that need not
  end: it is a \<open>partial_function\<close>, and exactly when it ends is proved.
\<close>

subsection \<open>Finding a version\<close>

record restore_point =
  rt_version_id :: uuid
  rt_timestamp :: timestamp
  rt_version_number :: u64

definition point_of :: "version_summary \<Rightarrow> restore_point" where
  "point_of v = \<lparr>rt_version_id = vs_version_id v, rt_timestamp = vs_timestamp v, rt_version_number = vs_version_number v\<rparr>"

definition resolve_by_version_id ::
  "'r backup_repository \<Rightarrow> uuid \<Rightarrow> 'r \<Rightarrow> (repo_error + restore_point) \<times> 'r" where
  "resolve_by_version_id R vid r = and_then (br_list_versions R r)
     (\<lambda>versions r. case find (\<lambda>v. vs_version_id v = vid) versions of
        None \<Rightarrow> (Inl (ReFailed ''version not found''), r)
      | Some v \<Rightarrow> (Inr \<lparr>rt_version_id = vid, rt_timestamp = vs_timestamp v, rt_version_number = vs_version_number v\<rparr>, r))"

text \<open>\<open>Iterator::max_by_key\<close>: the last of the elements with the greatest key.\<close>

fun max_by_key :: "('a \<Rightarrow> 'k :: linorder) \<Rightarrow> 'a list \<Rightarrow> 'a option" where
  "max_by_key key [] = None"
| "max_by_key key (x # xs) = Some (fold (\<lambda>y best. if key best \<le> key y then y else best) xs x)"

definition resolve_by_timestamp ::
  "'r backup_repository \<Rightarrow> timestamp \<Rightarrow> 'r \<Rightarrow> (repo_error + restore_point option) \<times> 'r" where
  "resolve_by_timestamp R t r = and_then (br_list_versions R r)
     (\<lambda>versions r. (Inr (map_option point_of (max_by_key vs_timestamp (filter (\<lambda>v. vs_timestamp v \<le> t) versions))), r))"

definition resolve_latest :: "'r backup_repository \<Rightarrow> 'r \<Rightarrow> (repo_error + restore_point option) \<times> 'r" where
  "resolve_latest R r = and_then (br_list_versions R r)
     (\<lambda>versions r. (Inr (case versions of [] \<Rightarrow> None | v # _ \<Rightarrow> Some (point_of v)), r))"

definition list_restore_points :: "'r backup_repository \<Rightarrow> 'r \<Rightarrow> (repo_error + restore_point list) \<times> 'r" where
  "list_restore_points R r = and_then (br_list_versions R r) (\<lambda>versions r. (Inr (map point_of versions), r))"

definition filter_versions_before :: "version_summary list \<Rightarrow> timestamp \<Rightarrow> version_summary list" where
  "filter_versions_before versions t = filter (\<lambda>v. vs_timestamp v \<le> t) versions"

subsection \<open>The chain of parents\<close>

record chain_entry =
  ch_version_id :: uuid
  ch_version_number :: u64
  ch_backup_type :: backup_type
  ch_is_valid :: bool

record chain_integrity_report =
  ci_chain :: "chain_entry list"
  ci_is_intact :: bool
  ci_corrupted_count :: u32

definition valid_entry :: "uuid \<Rightarrow> ag_manifest \<Rightarrow> chain_entry" where
  "valid_entry v m = \<lparr>ch_version_id = v, ch_version_number = am_version_number m, ch_backup_type = am_backup_type m, ch_is_valid = True\<rparr>"

definition invalid_entry :: "uuid \<Rightarrow> chain_entry" where
  "invalid_entry v = \<lparr>ch_version_id = v, ch_version_number = 0, ch_backup_type = Incremental, ch_is_valid = False\<rparr>"

partial_function (option) chain_loop ::
  "'r backup_repository \<Rightarrow> uuid \<Rightarrow> chain_entry list \<Rightarrow> 'r \<Rightarrow> ((chain_entry list \<times> u32) \<times> 'r) option" where
  "chain_loop R current chain r = (case br_read_manifest R current r of (res, r) \<Rightarrow>
     (case res of
        Inr m \<Rightarrow> (case am_parent_version_id m of
          Some parent \<Rightarrow> chain_loop R parent (chain @ [valid_entry current m]) r
        | None \<Rightarrow> Some ((chain @ [valid_entry current m], 0), r))
      | Inl _ \<Rightarrow> Some ((chain @ [invalid_entry current], 1), r)))"

definition verify_chain_integrity ::
  "'r backup_repository \<Rightarrow> uuid \<Rightarrow> 'r \<Rightarrow> ((repo_error + chain_integrity_report) \<times> 'r) option" where
  "verify_chain_integrity R version_id r = (case chain_loop R version_id [] r of
     None \<Rightarrow> None
   | Some ((chain, corrupted_count), r) \<Rightarrow>
       Some (Inr \<lparr>ci_chain = chain, ci_is_intact = (corrupted_count = 0), ci_corrupted_count = corrupted_count\<rparr>, r))"

subsection \<open>Baselines\<close>

fun first_readable_before ::
  "'r backup_repository \<Rightarrow> timestamp \<Rightarrow> version_summary list \<Rightarrow> 'r \<Rightarrow> restore_point option \<times> 'r" where
  "first_readable_before R cutoff [] r = (None, r)"
| "first_readable_before R cutoff (v # vs) r =
     (if vs_timestamp v \<ge> cutoff then first_readable_before R cutoff vs r
      else case br_read_manifest R (vs_version_id v) r of
        (Inr _, r) \<Rightarrow> (Some (point_of v), r)
      | (Inl _, r) \<Rightarrow> first_readable_before R cutoff vs r)"

definition resolve_nearest_valid_baseline ::
  "'r backup_repository \<Rightarrow> uuid \<Rightarrow> 'r \<Rightarrow> (repo_error + restore_point option) \<times> 'r" where
  "resolve_nearest_valid_baseline R corrupted r = and_then (br_list_versions R r)
     (\<lambda>versions r. case find (\<lambda>v. vs_version_id v = corrupted) versions of
        None \<Rightarrow> (Inr None, r)
      | Some c \<Rightarrow> (case first_readable_before R (vs_timestamp c) versions r of (p, r) \<Rightarrow> (Inr p, r)))"

fun readable_from ::
  "'r backup_repository \<Rightarrow> timestamp \<Rightarrow> version_summary list \<Rightarrow> 'r \<Rightarrow> restore_point list \<times> 'r" where
  "readable_from R start [] r = ([], r)"
| "readable_from R start (v # vs) r =
     (if vs_timestamp v < start then readable_from R start vs r
      else case br_read_manifest R (vs_version_id v) r of (res, r) \<Rightarrow>
        case readable_from R start vs r of (rest, r) \<Rightarrow>
          (case res of Inr _ \<Rightarrow> point_of v # rest | Inl _ \<Rightarrow> rest, r))"

definition rebuild_chain_from_baseline ::
  "'r backup_repository \<Rightarrow> uuid \<Rightarrow> 'r \<Rightarrow> (repo_error + restore_point list) \<times> 'r" where
  "rebuild_chain_from_baseline R baseline r = and_then (br_list_versions R r)
     (\<lambda>versions r. case find (\<lambda>v. vs_version_id v = baseline) versions of
        None \<Rightarrow> (Inl (ReFailed ''baseline version not found''), r)
      | Some b \<Rightarrow> (case readable_from R (vs_timestamp b) versions r of (ps, r) \<Rightarrow> (Inr ps, r)))"

subsection \<open>The checkpoint of a restore\<close>

record restore_checkpoint =
  rk_restore_id :: string
  rk_restored_files :: "string set"
  rk_total_files :: nat
  rk_completed :: bool

record checkpoint_json =
  kp_to_string :: "restore_checkpoint \<Rightarrow> bytes option"
  kp_from_str :: "bytes \<Rightarrow> restore_checkpoint option"

datatype checkpoint_error = KpIo io_error | KpSerde

definition restore_checkpoint_new :: "string \<Rightarrow> nat \<Rightarrow> restore_checkpoint" where
  "restore_checkpoint_new restore_id total_files =
     \<lparr>rk_restore_id = restore_id, rk_restored_files = {}, rk_total_files = total_files, rk_completed = False\<rparr>"

definition mark_restored :: "string \<Rightarrow> restore_checkpoint \<Rightarrow> restore_checkpoint" where
  "mark_restored p k = k\<lparr>rk_restored_files := insert p (rk_restored_files k)\<rparr>"

definition is_restored :: "restore_checkpoint \<Rightarrow> string \<Rightarrow> bool" where
  "is_restored k p \<longleftrightarrow> p \<in> rk_restored_files k"

definition mark_completed :: "restore_checkpoint \<Rightarrow> restore_checkpoint" where
  "mark_completed k = k\<lparr>rk_completed := True\<rparr>"

definition checkpoint_save :: "checkpoint_json \<Rightarrow> restore_checkpoint \<Rightarrow> path \<Rightarrow> fsys \<Rightarrow> (checkpoint_error + unit) \<times> fsys" where
  "checkpoint_save K k p s = (case kp_to_string K k of
     None \<Rightarrow> (Inl KpSerde, s)
   | Some data \<Rightarrow> map_err KpIo (fs_write p data s))"

definition checkpoint_load :: "checkpoint_json \<Rightarrow> path \<Rightarrow> fsys \<Rightarrow> (checkpoint_error + restore_checkpoint) \<times> fsys" where
  "checkpoint_load K p s = and_then (map_err KpIo (fs_read p s))
     (\<lambda>data s. case kp_from_str K data of None \<Rightarrow> (Inl KpSerde, s) | Some k \<Rightarrow> (Inr k, s))"

definition load_or_create ::
  "checkpoint_json \<Rightarrow> path \<Rightarrow> string \<Rightarrow> nat \<Rightarrow> fsys \<Rightarrow> (checkpoint_error + restore_checkpoint) \<times> fsys" where
  "load_or_create K p restore_id total_files s =
     (if path_exists s p then checkpoint_load K p s else (Inr (restore_checkpoint_new restore_id total_files), s))"

definition checkpoint_path :: "path \<Rightarrow> string \<Rightarrow> path" where
  "checkpoint_path base restore_id = base @ [restore_id @ ''.restore-checkpoint'']"

subsection \<open>Results of the searches\<close>

lemma max_fold:
  fixes key :: "'a \<Rightarrow> 'k :: linorder"
  assumes "y = fold (\<lambda>y best. if key best \<le> key y then y else best) ys x"
  shows "y \<in> insert x (set ys) \<and> key x \<le> key y \<and> (\<forall>z \<in> set ys. key z \<le> key y)"
  using assms
proof (induction ys arbitrary: x)
  case (Cons z ys)
  define b where "b = (if key x \<le> key z then z else x)"
  have b: "b \<in> {x, z}" "key x \<le> key b" "key z \<le> key b" by (auto simp: b_def)
  have "y = fold (\<lambda>y best. if key best \<le> key y then y else best) ys b" using Cons.prems by (simp add: b_def)
  from Cons.IH [OF this] b order_trans [OF b(2)] order_trans [OF b(3)] show ?case by auto
qed simp

lemma max_by_key_Some: "max_by_key key xs = Some y \<Longrightarrow> y \<in> set xs \<and> (\<forall>x \<in> set xs. key x \<le> key y)"
  using max_fold [of y key "tl xs" "hd xs"] by (cases xs) auto

lemma max_by_key_None: "max_by_key key xs = None \<longleftrightarrow> xs = []"
  by (cases xs) simp_all

text \<open>The version found for a point in time is listed, is not younger, and no listed version is between it
  and the point in time; nothing is found only if every version is younger.\<close>

theorem resolve_by_timestamp_correct:
  assumes "br_list_versions R r = (Inr versions, r')"
  shows "\<exists>p. resolve_by_timestamp R t r = (Inr p, r') \<and>
    (p = None \<longleftrightarrow> (\<forall>v \<in> set versions. t < vs_timestamp v)) \<and>
    (\<forall>q. p = Some q \<longrightarrow> rt_timestamp q \<le> t \<and> (\<exists>v \<in> set versions. q = point_of v) \<and>
       (\<forall>v \<in> set versions. vs_timestamp v \<le> t \<longrightarrow> vs_timestamp v \<le> rt_timestamp q))"
proof -
  let ?xs = "filter (\<lambda>v. vs_timestamp v \<le> t) versions"
  let ?p = "map_option point_of (max_by_key vs_timestamp ?xs)"
  have run: "resolve_by_timestamp R t r = (Inr (map_option point_of (max_by_key vs_timestamp ?xs)), r')"
    using assms by (simp add: resolve_by_timestamp_def)
  have none: "map_option point_of (max_by_key vs_timestamp ?xs) = None \<longleftrightarrow> (\<forall>v \<in> set versions. t < vs_timestamp v)"
    by (auto simp: max_by_key_None filter_empty_conv not_le)
  have some: "rt_timestamp q \<le> t \<and> (\<exists>v \<in> set versions. q = point_of v) \<and>
      (\<forall>v \<in> set versions. vs_timestamp v \<le> t \<longrightarrow> vs_timestamp v \<le> rt_timestamp q)"
    if q: "map_option point_of (max_by_key vs_timestamp ?xs) = Some q" for q
  proof -
    obtain w where w: "max_by_key vs_timestamp ?xs = Some w" "q = point_of w" using q by blast
    from max_by_key_Some [OF w(1)] show ?thesis by (auto simp: w(2) point_of_def)
  qed
  show ?thesis by (rule exI [of _ ?p], intro conjI run none allI impI) (use some in blast)+
qed

text \<open>\<open>resolve_latest\<close> takes the first version of the listing: on a listing with the oldest version first,
  as the provider of the storage server gives it, that is the oldest one.\<close>

theorem resolve_latest_takes_first:
  assumes "br_list_versions R r = (Inr (v # versions), r')"
  shows "resolve_latest R r = (Inr (Some (point_of v)), r')"
  using assms by (simp add: resolve_latest_def)

subsection \<open>When the chain verification ends\<close>

text \<open>The chains of a repository whose manifests are \<open>man\<close>.\<close>

inductive chain :: "(uuid \<Rightarrow> repo_error + ag_manifest) \<Rightarrow> uuid \<Rightarrow> chain_entry list \<Rightarrow> bool \<Rightarrow> bool" for man where
  root: "man v = Inr m \<Longrightarrow> am_parent_version_id m = None \<Longrightarrow> chain man v [valid_entry v m] True"
| broken: "man v = Inl e \<Longrightarrow> chain man v [invalid_entry v] False"
| step: "man v = Inr m \<Longrightarrow> am_parent_version_id m = Some p \<Longrightarrow> chain man p es ok \<Longrightarrow> chain man v (valid_entry v m # es) ok"

inductive_cases chainE: "chain man v es ok"

lemma chain_valid: "chain man v es ok \<Longrightarrow> ok \<longleftrightarrow> (\<forall>e \<in> set es. ch_is_valid e)"
  by (induction rule: chain.induct) (simp_all add: valid_entry_def invalid_entry_def)

text \<open>Reading a manifest answers \<open>man\<close> and leaves the repository as it is.\<close>

definition reads_as :: "'r backup_repository \<Rightarrow> (uuid \<Rightarrow> repo_error + ag_manifest) \<Rightarrow> 'r \<Rightarrow> bool" where
  "reads_as R man r \<longleftrightarrow> (\<forall>v. br_read_manifest R v r = (man v, r))"

abbreviation count_of :: "bool \<Rightarrow> u32" where
  "count_of ok \<equiv> (if ok then 0 else 1)"

lemma chain_loop_complete:
  "chain man v es ok \<Longrightarrow> reads_as R man r \<Longrightarrow> chain_loop R v acc r = Some ((acc @ es, count_of ok), r)"
proof (induction arbitrary: acc rule: chain.induct)
  case (step v m p es ok)
  then show ?case by (subst chain_loop.simps) (simp add: reads_as_def)
qed (subst chain_loop.simps, simp add: reads_as_def)+

lemma chain_loop_sound:
  assumes "chain_loop R v acc r = Some x" and "reads_as R man r"
  shows "\<exists>es ok. chain man v es ok"
proof -
  have "reads_as R man r \<longrightarrow> (\<exists>es ok. chain man v es ok)"
  proof (rule chain_loop.raw_induct [OF _ assms(1), where P = "\<lambda>R v acc r x. reads_as R man r \<longrightarrow> (\<exists>es ok. chain man v es ok)"], rule impI)
    fix loop :: "'a backup_repository \<Rightarrow> uuid \<Rightarrow> chain_entry list \<Rightarrow> 'a \<Rightarrow> ((chain_entry list \<times> u32) \<times> 'a) option" and R v acc r x
    assume IH: "\<And>R v acc r x. loop R v acc r = Some x \<Longrightarrow> reads_as R man r \<longrightarrow> (\<exists>es ok. chain man v es ok)"
      and e: "(case br_read_manifest R v r of (res, r) \<Rightarrow>
       (case res of
          Inr m \<Rightarrow> (case am_parent_version_id m of
            Some parent \<Rightarrow> loop R parent (acc @ [valid_entry v m]) r
          | None \<Rightarrow> Some ((acc @ [valid_entry v m], 0), r))
        | Inl _ \<Rightarrow> Some ((acc @ [invalid_entry v], 1), r))) = Some x"
      and rd: "reads_as R man r"
    have b: "br_read_manifest R v r = (man v, r)" using rd by (simp add: reads_as_def)
    show "\<exists>es ok. chain man v es ok"
    proof (cases "man v")
      case (Inr m)
      show ?thesis
      proof (cases "am_parent_version_id m")
        case (Some p)
        then have "loop R p (acc @ [valid_entry v m]) r = Some x" using e b Inr by simp
        then show ?thesis using IH rd chain.step [of man v m p, OF Inr Some] by blast
      qed (use chain.root [of man v m, OF Inr] in blast)
    qed (use chain.broken [of man v] in blast)
  qed
  then show ?thesis using assms(2) by blast
qed

text \<open>(C37) Verifying a chain of versions.  On a repository whose reads answer and change nothing, the
  verification ends exactly when following the parents reaches a version without parent or one
  that cannot be read.  Then the report lists the versions on the way, the last one marked invalid
  in the second case, and says intact exactly when all are valid.  A chain in which a version is
  its own ancestor is never done with.\<close>

theorem chain_verification_exact:
  assumes "reads_as R man r"
  shows "(\<forall>es ok. chain man v es ok \<longrightarrow> verify_chain_integrity R v r =
      Some (Inr \<lparr>ci_chain = es, ci_is_intact = (\<forall>e \<in> set es. ch_is_valid e), ci_corrupted_count = count_of ok\<rparr>, r)) \<and>
    (verify_chain_integrity R v r = None \<longleftrightarrow> (\<nexists>es ok. chain man v es ok)) \<and>
    (\<forall>cycle. v \<in> cycle \<longrightarrow> (\<forall>u \<in> cycle. \<exists>m p. man u = Inr m \<and> am_parent_version_id m = Some p \<and> p \<in> cycle) \<longrightarrow>
       verify_chain_integrity R v r = None)"
proof (intro conjI allI impI)
  show run: "verify_chain_integrity R v r = Some (Inr \<lparr>ci_chain = es, ci_is_intact = (\<forall>e \<in> set es. ch_is_valid e),
      ci_corrupted_count = count_of ok\<rparr>, r)" if "chain man v es ok" for es ok
    using chain_loop_complete [OF that assms, of "[]"] chain_valid [OF that] by (simp add: verify_chain_integrity_def)
  show none: "verify_chain_integrity R v r = None \<longleftrightarrow> (\<nexists>es ok. chain man v es ok)"
    using run chain_loop_sound [OF _ assms, of v "[]"] by (force simp: verify_chain_integrity_def split: option.splits)
  fix cycle assume c: "v \<in> cycle" "\<forall>u \<in> cycle. \<exists>m p. man u = Inr m \<and> am_parent_version_id m = Some p \<and> p \<in> cycle"
  have "w \<in> cycle \<Longrightarrow> False" if "chain man w es ok" for w es ok using that c(2) by induction fastforce+
  then show "verify_chain_integrity R v r = None" using none c(1) by blast
qed

subsection \<open>Baselines and checkpoints\<close>

lemma first_readable_before_reads:
  assumes "reads_as R man r"
  shows "first_readable_before R cutoff vs r =
    (map_option point_of (find (\<lambda>v. vs_timestamp v < cutoff \<and> \<not> isl (man (vs_version_id v))) vs), r)"
  by (induction vs) (use assms in \<open>auto simp: reads_as_def split: sum.splits\<close>)

lemma readable_from_reads:
  assumes "reads_as R man r"
  shows "readable_from R start vs r =
    (map point_of (filter (\<lambda>v. start \<le> vs_timestamp v \<and> \<not> isl (man (vs_version_id v))) vs), r)"
  by (induction vs) (use assms in \<open>auto simp: reads_as_def split: sum.splits\<close>)

text \<open>A baseline is older than the corrupted version and can be read, and one is found if there is any;
  it is the first such version of the listing, not the one nearest in time.\<close>

theorem baseline_is_first_readable:
  assumes "reads_as R man r" and "br_list_versions R r = (Inr versions, r)" and "find (\<lambda>v. vs_version_id v = u) versions = Some c"
  shows "resolve_nearest_valid_baseline R u r =
      (Inr (map_option point_of (find (\<lambda>v. vs_timestamp v < vs_timestamp c \<and> \<not> isl (man (vs_version_id v))) versions)), r) \<and>
    rebuild_chain_from_baseline R u r =
      (Inr (map point_of (filter (\<lambda>v. vs_timestamp c \<le> vs_timestamp v \<and> \<not> isl (man (vs_version_id v))) versions)), r)"
  using assms(2,3) by (simp add: resolve_nearest_valid_baseline_def rebuild_chain_from_baseline_def
      first_readable_before_reads [OF assms(1)] readable_from_reads [OF assms(1)])

text \<open>A saved checkpoint is loaded again, with the files marked before.\<close>

theorem checkpoint_roundtrip:
  assumes "kp_to_string K k = Some data" and "kp_from_str K data = Some k"
    and "checkpoint_save K k p s = (Inr (), s')" and "faults s' = []" and "p \<noteq> []"
  shows "load_or_create K p restore_id total_files s' = (Inr k, s')"
proof -
  have "lookup s' p = Some (File data)" using assms(1,3) by (auto simp: checkpoint_save_def map_err_Ok_iff dest: fs_write_Ok)
  then show ?thesis using assms(2,4,5) by (simp add: load_or_create_def checkpoint_load_def path_exists_def fs_read_def)
qed

lemma marked_files: "is_restored (mark_restored p k) q \<longleftrightarrow> q = p \<or> is_restored k q"
  by (auto simp: is_restored_def mark_restored_def)

subsection \<open>The local repository\<close>

text \<open>A healthy local repository reads as its manifest files say.\<close>

lemma local_reads_as:
  "faults s = [] \<Longrightarrow> reads_as (local_repository X J fresh now root) (\<lambda>v. fst (local_read_manifest X J root v s)) s"
  by (auto simp: reads_as_def local_repository_def local_read_manifest_def fs_read_def and_then_def map_err_def
      split: option.splits node.splits sum.splits)

subsection \<open>Witness\<close>

text \<open>A local repository with three versions: the first two name each other as parent, the third has none.\<close>

definition looping_manifest :: "uuid \<Rightarrow> uuid option \<Rightarrow> ag_manifest" where
  "looping_manifest v parent = \<lparr>am_version_id = v, am_timestamp = 0, am_parent_version_id = parent, am_version_number = 1,
     am_backup_type = Full, am_files = [], am_chunk_refs = [],
     am_hashes = \<lparr>mh_manifest_hash = [], mh_file_index_hash = [], mh_chunk_index_hash = [], mh_repo_hash = []\<rparr>, am_chunk_locations = []\<rparr>"

definition looping_json :: repo_json where
  "looping_json = \<lparr>oj_manifest_to_vec = (\<lambda>m. Some (am_version_id m)),
     oj_manifest_from_slice = (\<lambda>b. Some (looping_manifest b (if b = [1] then Some [2] else if b = [2] then Some [1] else None))),
     oj_lock_to_vec = (\<lambda>_. None), oj_lock_from_slice = (\<lambda>_. None), oj_repo_lock_to_vec = (\<lambda>_. None), oj_meta_to_vec = (\<lambda>_. None),
     oj_config_to_vec = (\<lambda>_. None), oj_volumes_to_vec = None\<rparr>"

definition looping_disk :: fsys where
  "looping_disk = \<lparr>nodes = map (\<lambda>v. (local_manifest_path sample_crates [] v, File v)) [[1], [2], [3]], faults = []\<rparr>"

lemma looping_read:
  "v \<in> {[1], [2], [3]} \<Longrightarrow> fst (local_read_manifest sample_crates looping_json [] v looping_disk) =
     Inr (looping_manifest v (if v = [1] then Some [2] else if v = [2] then Some [1] else None))"
proof -
  assume "v \<in> {[1], [2], [3]}"
  moreover have "local_manifest_path sample_crates [] a = local_manifest_path sample_crates [] b \<longleftrightarrow> a = b" for a b
    using inj_eq [OF sample_crates_simps(2)] by (simp add: local_manifest_path_def manifest_filename_def)
  ultimately have "lookup looping_disk (local_manifest_path sample_crates [] v) = Some (File v)"
    by (auto simp: lookup_def looping_disk_def local_manifest_path_def)
  moreover have "faults looping_disk = []" by (simp add: looping_disk_def)
  ultimately show ?thesis by (simp add: local_read_manifest_def fs_read_def looping_json_def)
qed

theorem chain_verification_exact_witness:
  "verify_chain_integrity (local_repository sample_crates looping_json [] 0 []) [1] looping_disk = None \<and>
   (\<exists>rep. verify_chain_integrity (local_repository sample_crates looping_json [] 0 []) [3] looping_disk = Some (Inr rep, looping_disk) \<and>
      ci_is_intact rep)"
proof -
  let ?man = "\<lambda>v. fst (local_read_manifest sample_crates looping_json [] v looping_disk)"
  let ?R = "local_repository sample_crates looping_json [] 0 []"
  have r: "reads_as ?R ?man looping_disk" by (rule local_reads_as) (simp add: looping_disk_def)
  note parent = looping_manifest_def
  have "\<forall>u \<in> {[1], [2]}. \<exists>m p. ?man u = Inr m \<and> am_parent_version_id m = Some p \<and> p \<in> {[1 :: 8 word], [2]}"
    using looping_read by (simp add: parent)
  then have "verify_chain_integrity ?R [1] looping_disk = None"
    using conjunct2 [OF conjunct2 [OF chain_verification_exact [OF r, of "[1]"]]] by blast
  moreover have "chain ?man [3] [valid_entry [3] (looping_manifest [3] None)] True"
    using looping_read [of "[3]"] by (intro chain.root) (simp_all add: parent)
  then have "\<exists>rep. verify_chain_integrity ?R [3] looping_disk = Some (Inr rep, looping_disk) \<and> ci_is_intact rep"
    using conjunct1 [OF chain_verification_exact [OF r, of "[3]"]] by (auto simp: valid_entry_def)
  ultimately show ?thesis by blast
qed

end
