(* ===== verification/Agent_Compat.thy ===== *)
theory Agent_Compat
  imports Agent_Engine
begin

text \<open>
  The Duplicati-compatible mode: the translation of a Duplicati configuration
  (\<open>hbx-compat-sem\<close>), the execution states of a compatible run
  (\<open>hbx-compat-engine/src/state_machine.rs\<close>) and the comparison of the two repositories of a dual
  run (\<open>dual_repo_checker.rs\<close>).  The regular expression compiler, SHA-256, fresh identifiers and
  the clock are arguments; the progress of a run, a float, is left out.
\<close>

subsection \<open>Configuration\<close>

datatype semantic_error = UnsupportedConfig string | AmbiguousMapping string

datatype duplicati_filter_type = DfGlob | DfRegex | DfPathPrefix

record duplicati_filter_rule =
  df_pattern :: string
  df_filter_type :: duplicati_filter_type

definition normalize_path :: "string \<Rightarrow> string" where
  "normalize_path p = map (\<lambda>c. if c = CHR 0x5C then CHR ''/'' else c) p"

definition validate_glob :: "string \<Rightarrow> semantic_error + unit" where
  "validate_glob pattern =
     (if pattern = [] then Inl (UnsupportedConfig ''empty glob pattern'')
      else if \<exists>c \<in> set pattern. c \<in> {CHR ''|'', CHR ''<'', CHR ''>'', CHR 0x22} then Inl (UnsupportedConfig ''invalid characters in glob'')
      else Inr ())"

definition align_single_rule :: "(string \<Rightarrow> bool) \<Rightarrow> duplicati_filter_rule \<Rightarrow> semantic_error + filter_rule" where
  "align_single_rule regex_ok rule = (let normalized = normalize_path (df_pattern rule) in
     case df_filter_type rule of
       DfGlob \<Rightarrow> (case validate_glob normalized of Inl e \<Rightarrow> Inl e | Inr _ \<Rightarrow> Inr (Glob normalized))
     | DfRegex \<Rightarrow> if regex_ok normalized then Inr (Regex normalized) else Inl (UnsupportedConfig ''invalid regex'')
     | DfPathPrefix \<Rightarrow> if normalized = [] then Inl (UnsupportedConfig ''empty path prefix'') else Inr (PathPrefix normalized))"

fun align_filter_rules :: "(string \<Rightarrow> bool) \<Rightarrow> duplicati_filter_rule list \<Rightarrow> semantic_error + filter_rule list" where
  "align_filter_rules regex_ok [] = Inr []"
| "align_filter_rules regex_ok (rule # rules) = (case align_single_rule regex_ok rule of
     Inl e \<Rightarrow> Inl e
   | Inr x \<Rightarrow> (case align_filter_rules regex_ok rules of Inl e \<Rightarrow> Inl e | Inr xs \<Rightarrow> Inr (x # xs)))"

record duplicati_version_strategy =
  dv_incremental :: bool
  dv_full_backup_interval :: u32

definition align_version_strategy :: "duplicati_version_strategy \<Rightarrow> semantic_error + backup_type \<times> string option" where
  "align_version_strategy strategy = (if dv_incremental strategy then Inr (Incremental, None) else Inr (Full, None))"

text \<open>\<open>to_lowercase\<close>, as far as the names compared with can tell.\<close>

definition to_lowercase :: "string \<Rightarrow> string" where
  "to_lowercase s = map (\<lambda>c. if 65 \<le> (of_char c :: nat) \<and> (of_char c :: nat) \<le> 90 then char_of (of_char c + 32 :: nat) else c) s"

record duplicati_compression_config =
  dc_algorithm :: string
  dc_level :: u32

definition align_compression :: "duplicati_compression_config \<Rightarrow> semantic_error + compression_profile" where
  "align_compression config = (let name = to_lowercase (dc_algorithm config);
       level = (if dc_level config > 22 then 22 else dc_level config) in
     if name \<in> {''zip'', ''gzip'', ''deflate''} then Inr \<lparr>cp_algorithm = Zstd, cp_level = level\<rparr>
     else if name \<in> {''lz4'', ''lzma'', ''brotli''} then Inr \<lparr>cp_algorithm = Lz4, cp_level = level\<rparr>
     else if name \<in> {''none'', ''no-compression''} then Inr \<lparr>cp_algorithm = NoCompression, cp_level = level\<rparr>
     else Inl (UnsupportedConfig name))"

record duplicati_encryption_config =
  de_algorithm :: string
  de_passphrase :: string

datatype encryption_algorithm = Aes256Gcm

datatype kdf_algorithm = Argon2id

datatype key_source = Password | KeyFile | EnterpriseKms | HuaweiCloudKms | AzureKeyVault | AwsKms

record encryption_profile =
  ep_profile_id :: uuid
  ep_algorithm :: encryption_algorithm
  ep_kdf :: kdf_algorithm
  ep_key_source :: key_source
  ep_key_reference :: string
  ep_salt :: bytes

definition align_encryption :: "uuid \<Rightarrow> duplicati_encryption_config \<Rightarrow> semantic_error + encryption_profile" where
  "align_encryption fresh config =
     (if de_passphrase config = [] then Inl (UnsupportedConfig ''empty passphrase'')
      else let name = to_lowercase (de_algorithm config) in
        if name \<in> {''aes-256'', ''aes-256-gcm'', ''aes-gcm'', ''aes-128'', ''aes-128-cbc'', ''aes-cbc''} then
          Inr \<lparr>ep_profile_id = fresh, ep_algorithm = Aes256Gcm, ep_kdf = Argon2id, ep_key_source = Password,
            ep_key_reference = de_passphrase config, ep_salt = replicate 16 0\<rparr>
        else Inl (UnsupportedConfig name))"

record duplicati_metadata =
  dm_path :: string
  dm_size :: u64
  dm_modified_at :: timestamp
  dm_is_directory :: bool
  dm_is_hidden :: bool
  dm_is_read_only :: bool
  dm_is_system :: bool

definition align_metadata :: "duplicati_metadata \<Rightarrow> semantic_error + ag_file_entry" where
  "align_metadata m = (let p = normalize_path (dm_path m) in
     if p = [] then Inl (UnsupportedConfig ''empty file path'')
     else Inr \<lparr>af_path = p, af_size = dm_size m, af_modified_at = dm_modified_at m,
       af_attributes = \<lparr>fa_is_directory = dm_is_directory m, fa_is_hidden = dm_is_hidden m, fa_is_system = dm_is_system m,
         fa_is_read_only = dm_is_read_only m, fa_windows_acl = None\<rparr>,
       af_chunks = [], af_file_hash = replicate 32 0\<rparr>)"

datatype exception_type =
  NetworkBreak | DiskFull | PermissionDenied | FileLocked | SourceMissing | RepoUnavailable | ProcessKilled | PowerOff

datatype exception_decision = EdRetry | EdSkip | EdAbort | EdContinue | EdMarkFailed | EdResume | EdSelfCheckAndIsolate

fun align_exception_decision :: "exception_type \<Rightarrow> semantic_error + exception_decision" where
  "align_exception_decision NetworkBreak = Inr EdRetry"
| "align_exception_decision DiskFull = Inr EdAbort"
| "align_exception_decision PermissionDenied = Inr EdSkip"
| "align_exception_decision FileLocked = Inr EdRetry"
| "align_exception_decision SourceMissing = Inr EdSkip"
| "align_exception_decision RepoUnavailable = Inr EdRetry"
| "align_exception_decision ProcessKilled = Inr EdResume"
| "align_exception_decision PowerOff = Inr EdSelfCheckAndIsolate"

subsection \<open>Execution states\<close>

datatype compat_state = CxPending | CxAligning | CxScanning | CxChunking | CxEncrypting | CxUploading | CxCompCommitting
  | CxVerifying | CxSuccess | CxFailed | CxPaused

definition compat_is_terminal :: "compat_state \<Rightarrow> bool" where
  "compat_is_terminal s \<longleftrightarrow> s \<in> {CxSuccess, CxFailed}"

definition compat_is_active :: "compat_state \<Rightarrow> bool" where
  "compat_is_active s \<longleftrightarrow> \<not> compat_is_terminal s \<and> s \<noteq> CxPaused"

fun compat_next :: "compat_state \<Rightarrow> compat_state option" where
  "compat_next CxPending = Some CxAligning"
| "compat_next CxAligning = Some CxScanning"
| "compat_next CxScanning = Some CxChunking"
| "compat_next CxChunking = Some CxEncrypting"
| "compat_next CxEncrypting = Some CxUploading"
| "compat_next CxUploading = Some CxCompCommitting"
| "compat_next CxCompCommitting = Some CxVerifying"
| "compat_next CxVerifying = Some CxSuccess"
| "compat_next CxSuccess = None"
| "compat_next CxFailed = None"
| "compat_next CxPaused = None"

record compat_checkpoint =
  ck_job_id :: uuid
  ck_state :: compat_state
  ck_files_completed :: u64
  ck_chunks_completed :: u64
  ck_timestamp :: timestamp

record compatibility_execution =
  cx_execution_id :: uuid
  cx_job_id :: uuid
  cx_started_at :: timestamp
  cx_completed_at :: "timestamp option"
  cx_state :: compat_state
  cx_checkpoint :: "compat_checkpoint option"

definition execution_new :: "uuid \<Rightarrow> timestamp \<Rightarrow> uuid \<Rightarrow> compatibility_execution" where
  "execution_new fresh now job = \<lparr>cx_execution_id = fresh, cx_job_id = job, cx_started_at = now, cx_completed_at = None,
     cx_state = CxPending, cx_checkpoint = None\<rparr>"

definition cx_advance :: "timestamp \<Rightarrow> compatibility_execution \<Rightarrow> compat_state option \<times> compatibility_execution" where
  "cx_advance now x = (case compat_next (cx_state x) of
     Some s \<Rightarrow> (Some s, x\<lparr>cx_state := s, cx_completed_at := (if compat_is_terminal s then Some now else cx_completed_at x)\<rparr>)
   | None \<Rightarrow> (None, x))"

definition cx_fail :: "timestamp \<Rightarrow> compatibility_execution \<Rightarrow> compatibility_execution" where
  "cx_fail now x = x\<lparr>cx_state := CxFailed, cx_completed_at := Some now\<rparr>"

definition cx_pause :: "compatibility_execution \<Rightarrow> compatibility_execution" where
  "cx_pause x = x\<lparr>cx_state := CxPaused\<rparr>"

definition cx_resume :: "compatibility_execution \<Rightarrow> compatibility_execution" where
  "cx_resume x = (if cx_state x = CxPaused then x\<lparr>cx_state := CxPending\<rparr> else x)"

definition cx_save_checkpoint :: "timestamp \<Rightarrow> u64 \<Rightarrow> u64 \<Rightarrow> compatibility_execution \<Rightarrow> compatibility_execution" where
  "cx_save_checkpoint now files chunks x = x\<lparr>cx_checkpoint := Some \<lparr>ck_job_id = cx_job_id x, ck_state = cx_state x,
     ck_files_completed = files, ck_chunks_completed = chunks, ck_timestamp = now\<rparr>\<rparr>"

definition cx_restore_from_checkpoint :: "compat_checkpoint \<Rightarrow> compatibility_execution \<Rightarrow> compatibility_execution" where
  "cx_restore_from_checkpoint c x = x\<lparr>cx_state := ck_state c, cx_checkpoint := Some c\<rparr>"

text \<open>\<open>CompatExecutionTracker::set_state\<close>; the other methods of the tracker forward to the execution.\<close>

definition cx_set_state :: "timestamp \<Rightarrow> compat_state \<Rightarrow> compatibility_execution \<Rightarrow> compatibility_execution" where
  "cx_set_state now s x = x\<lparr>cx_state := s, cx_completed_at := (if compat_is_terminal s then Some now else cx_completed_at x)\<rparr>"

datatype exception_action = XaRetry | XaSkip | XaAbort | XaContinue | XaMarkFailed

definition decide_exception_action :: "compat_state \<Rightarrow> string \<Rightarrow> exception_action" where
  "decide_exception_action state kind =
     (if kind = ''disk_full'' then XaAbort
      else if kind = ''permission_denied'' \<or> kind = ''source_missing'' then XaSkip
      else if kind = ''file_locked'' \<or> kind = ''network_break'' \<or> kind = ''repo_unavailable'' then XaRetry
      else if kind = ''process_killed'' \<or> kind = ''power_off'' then XaContinue
      else XaMarkFailed)"

text \<open>Durations are milliseconds; \<open>as u64\<close> truncates and the product is a 64-bit one.\<close>

definition retry_backoff :: "u32 \<Rightarrow> nat \<Rightarrow> nat \<Rightarrow> nat" where
  "retry_backoff attempt base max_ms =
     (if attempt = 0 then base
      else let multiplier = (2 :: 64 word) ^ min (unat attempt) 10;
               total = of_nat base * multiplier in
        unat (min total (of_nat max_ms)))"

subsection \<open>Comparing two repositories\<close>

record file_comparison =
  fc_path :: string
  fc_native_hash :: "bytes option"
  fc_compat_hash :: "bytes option"
  fc_native_size :: "u64 option"
  fc_compat_size :: "u64 option"
  fc_is_consistent :: bool

record consistency_conclusion =
  cc_checked_at :: timestamp
  cc_total_files_compared :: u64
  cc_consistent_files :: u64
  cc_inconsistent_files :: u64
  cc_missing_in_native :: u64
  cc_missing_in_compat :: u64
  cc_comparisons :: "file_comparison list"
  cc_is_consistent :: bool

type_synonym scanned_files = "(string, bytes \<times> u64) hmap"

definition compare_file :: "scanned_files \<Rightarrow> scanned_files \<Rightarrow> string \<Rightarrow> file_comparison" where
  "compare_file native copied p = (let n = map_of native p; c = map_of copied p in
     \<lparr>fc_path = p, fc_native_hash = map_option fst n, fc_compat_hash = map_option fst c, fc_native_size = map_option snd n,
      fc_compat_size = map_option snd c, fc_is_consistent = (map_option fst n \<noteq> None \<and> map_option fst c \<noteq> None \<and>
        map_option fst n = map_option fst c \<and> map_option snd n = map_option snd c)\<rparr>)"

text \<open>\<open>check_consistency\<close> after the two scans; \<open>all_paths\<close> is the union of the keys in iteration order.\<close>

definition check_consistency :: "timestamp \<Rightarrow> string list \<Rightarrow> scanned_files \<Rightarrow> scanned_files \<Rightarrow> consistency_conclusion" where
  "check_consistency now all_paths native copied =
     (let cs = map (compare_file native copied) all_paths;
          inconsistent = of_nat (length (filter (\<lambda>c. \<not> fc_is_consistent c) cs)) in
      \<lparr>cc_checked_at = now, cc_total_files_compared = of_nat (length all_paths),
       cc_consistent_files = of_nat (length (filter fc_is_consistent cs)), cc_inconsistent_files = inconsistent,
       cc_missing_in_native = of_nat (length (filter (\<lambda>c. fc_native_hash c = None) cs)),
       cc_missing_in_compat = of_nat (length (filter (\<lambda>c. fc_compat_hash c = None) cs)),
       cc_comparisons = cs, cc_is_consistent = (inconsistent = 0)\<rparr>)"

definition is_missing_in_native :: "file_comparison \<Rightarrow> bool" where
  "is_missing_in_native c \<longleftrightarrow> fc_native_hash c = None"

definition is_missing_in_compat :: "file_comparison \<Rightarrow> bool" where
  "is_missing_in_compat c \<longleftrightarrow> fc_compat_hash c = None"

subsection \<open>Facts\<close>

text \<open>Aligned patterns have no backslash left, also inside regular expressions, where a backslash is an
  escape: the aligned expression matches something else.\<close>

theorem aligned_rules_have_no_escapes:
  assumes "align_filter_rules regex_ok rules = Inr aligned" and "Regex p \<in> set aligned"
  shows "CHR 0x5C \<notin> set p \<and> regex_ok p"
  using assms
proof (induction rules arbitrary: aligned)
  case (Cons rule rules)
  then show ?case
    by (auto simp: align_single_rule_def normalize_path_def Let_def split: sum.splits duplicati_filter_type.splits if_splits)
qed simp

lemma aligned_level: "align_compression config = Inr p \<Longrightarrow> cp_level p \<le> 22"
  by (auto simp: align_compression_def Let_def not_less split: if_splits)

text \<open>Every encryption profile has the same salt.\<close>

theorem aligned_salts_agree:
  "align_encryption f c = Inr p \<Longrightarrow> align_encryption g d = Inr q \<Longrightarrow> ep_salt p = ep_salt q"
  by (auto simp: align_encryption_def Let_def split: if_splits)

text \<open>A run advances through eight states to success and then stays.\<close>

definition cx_run :: "timestamp list \<Rightarrow> compatibility_execution \<Rightarrow> compatibility_execution" where
  "cx_run = fold (\<lambda>now x. snd (cx_advance now x))"

lemma advance_reaches_success:
  assumes "cx_state x = CxPending"
  shows "cx_state (cx_run [a, b, c, d, e, f, g, h] x) = CxSuccess \<and> cx_completed_at (cx_run [a, b, c, d, e, f, g, h] x) = Some h \<and>
    fst (cx_advance i (cx_run [a, b, c, d, e, f, g, h] x)) = None"
  using assms by (simp add: cx_run_def cx_advance_def compat_is_terminal_def)

text \<open>Pausing forgets where the run was: after a resume it starts again from the beginning, and a finished run
  becomes a pending one that already has a time of completion.\<close>

theorem resume_restarts: "cx_state (cx_resume (cx_pause x)) = CxPending \<and> cx_completed_at (cx_resume (cx_pause x)) = cx_completed_at x"
  by (simp add: cx_resume_def cx_pause_def)

text \<open>A delay never exceeds the maximum, except for the first attempt; for a base below 2 to the 54 ms nothing is
  lost in the product.\<close>

theorem retry_backoff_bounded:
  assumes "attempt \<noteq> 0" and "base * 1024 < 2 ^ 64" and "max_ms < 2 ^ 64"
  shows "retry_backoff attempt base max_ms = min (base * 2 ^ min (unat attempt) 10) max_ms"
proof -
  let ?k = "min (unat attempt) 10"
  have "(2 :: nat) ^ ?k \<le> 2 ^ 10" by (rule power_increasing) simp_all
  then have "base * 2 ^ ?k \<le> base * 1024" by simp
  then have b: "base * 2 ^ ?k < 2 ^ 64" using assms(2) by linarith
  have "of_nat base * (2 :: 64 word) ^ ?k = of_nat (base * 2 ^ ?k)" by simp
  moreover have "unat (of_nat (base * 2 ^ ?k) :: 64 word) = base * 2 ^ ?k" using b by (simp add: unat_of_nat del: of_nat_mult)
  ultimately have "unat (of_nat base * (2 :: 64 word) ^ ?k) = base * 2 ^ ?k" by metis
  moreover have "unat (of_nat max_ms :: 64 word) = max_ms" using assms(3) by (simp add: unat_of_nat)
  ultimately show ?thesis
    using assms(1) by (simp add: retry_backoff_def Let_def min_def word_le_nat_alt)
qed

text \<open>The conclusion is consistent exactly when both scans have the same files with the same digests and sizes.\<close>

theorem consistency_exact:
  assumes "set all_paths = fst ` set native \<union> fst ` set copied" and "length all_paths < 2 ^ 64"
  shows "cc_is_consistent (check_consistency now all_paths native copied) \<longleftrightarrow> map_of native = map_of copied"
proof -
  let ?cs = "map (compare_file native copied) all_paths"
  have n: "length (filter (\<lambda>c. \<not> fc_is_consistent c) ?cs) < 2 ^ 64"
    by (rule le_less_trans [OF length_filter_le]) (use assms(2) in simp)
  have "(of_nat (length (filter (\<lambda>c. \<not> fc_is_consistent c) ?cs)) :: 64 word) = 0 \<longleftrightarrow> length (filter (\<lambda>c. \<not> fc_is_consistent c) ?cs) = 0"
  proof -
    have "(of_nat k :: 64 word) = 0 \<longleftrightarrow> k = 0" if "k < 2 ^ 64" for k :: nat
      using that by (simp add: word_of_nat_eq_0_iff) (use nat_dvd_not_less in blast)
    then show ?thesis using n by blast
  qed
  then have "cc_is_consistent (check_consistency now all_paths native copied) \<longleftrightarrow> (\<forall>p \<in> set all_paths. fc_is_consistent (compare_file native copied p))"
    by (simp add: check_consistency_def Let_def filter_empty_conv)
  also have "\<dots> \<longleftrightarrow> (\<forall>p \<in> set all_paths. map_of native p = map_of copied p)"
  proof -
    have "map_of native p \<noteq> None \<or> map_of copied p \<noteq> None" if "p \<in> set all_paths" for p
      using that assms(1) by (auto simp: map_of_eq_None_iff)
    then show ?thesis
      by (auto simp: compare_file_def Let_def)
  qed
  also have "\<dots> \<longleftrightarrow> map_of native = map_of copied"
    using assms(1) by (auto simp: fun_eq_iff) (metis UnCI map_of_eq_None_iff)
  finally show ?thesis .
qed

end
