(* ===== verification/Spec2Isabelle.thy ===== *)
theory Spec2Isabelle
  imports Badou_GC Badou_Cluster Agent_Task_Examples Agent_Backup_Verify Agent_Queue Agent_Retention_Examples
    Agent_Journal Agent_Scanner_Examples Agent_Restore_Points Agent_Compat
begin

text \<open>
  A verification development for HyperBackupX, a backup system of two halves.

  \<^bold>\<open>The agent\<close> (\<open>agent/crates\<close>) runs on the machine that is backed up.  A schedule makes a
  job due (\<open>hbx-scheduler\<close>), the queue hands it out, the scanner walks the source and
  compares it with the previous version (\<open>hbx-scanner\<close>), the engine chunks, deduplicates,
  compresses, encrypts and stores each file and writes a manifest (\<open>hbx-engine\<close>,
  \<open>hbx-chunker\<close>, \<open>hbx-dedup\<close>, \<open>hbx-repo\<close>), noting its steps in a journal (\<open>hbx-journal\<close>);
  restore, verification and retention work on the stored versions.

  \<^bold>\<open>The bucket\<close> (\<open>badou/crates\<close>) is the storage server.  A repository is a directory tree with
  content-addressed chunks, an index that counts references, manifests, snapshots and a
  journal; a backup becomes a version by a two-phase commit that verifies before it seals.
  Version deletion, garbage collection, recovery, integrity checks, the repository manager
  and a small cluster layer (Raft log, replicas, scaling, failover) complete it.

  \<^bold>\<open>How the code is read\<close> (theory \<open>Prelude\<close>).  Machine integers are words, counts of in-memory
  collections naturals, timestamps integer nanoseconds.  A method with effects is a function
  that answers its result and the state it leaves, also on error paths; \<open>and_then\<close> is the \<open>?\<close>
  operator.  A \<open>HashMap\<close> is an association list whose order is the iteration order.  Mutexes
  make each operation one step; concurrency is the order of steps.  Third-party crates
  (\<open>crates\<close>: hex, blake3, uuid; the serde codecs \<open>index_json\<close>, \<open>manifest_json\<close>, \<open>snapshot_json\<close>,
  \<open>repository_json\<close>, \<open>repo_json\<close>; \<open>journal_crates\<close>; the calendar of chrono; walkdir and
  regex; compressors and ciphers), the clock, fresh UUIDs and random numbers are arguments;
  what a theorem needs of them is a named hypothesis, and the witnesses instantiate them.

  \<^bold>\<open>Disk\<close> (theory \<open>FileSystem\<close>).  \<open>fsys\<close> is a map from paths to nodes with a plan of faults; each
  call may fail or tear a write according to the plan.  A theorem without a hypothesis on the
  plan holds on every error path; \<open>faults s = []\<close> is a healthy disk.

  \<^bold>\<open>Theories of the bucket\<close>

  \<^item> \<open>Badou_Domain\<close>: \<open>badou-engine\<close>, the domain records, the version life cycle, the on-disk layout.
  \<^item> \<open>Badou_State\<close>: \<open>badou-state\<close>, the transition table and the retention guard.  Locale
    \<open>seal_protocol\<close>, interpreted by both transition tables of the code: a sealed history went
    through writing, verifying and committing, and histories after the seal are finite.
  \<^item> \<open>Badou_Index\<close>: \<open>badou-index\<close>.  Every change that answers Ok is what a later open reads
    (refinement to the persisted image); interprets the counting locale \<open>refcount\<close>.
  \<^item> \<open>Badou_Store\<close>, \<open>Badou_Chunk_Facts\<close>: \<open>badou-store\<close>, chunk, manifest, snapshot and staging stores.
    Locale \<open>content_store\<close>, interpreted by the chunk store (\<open>cs\<close>); commit, verification and
    recovery use its laws.
  \<^item> \<open>Badou_Journal\<close>: \<open>badou-journal\<close>.  Interprets the prelude's \<open>record_log\<close>; appends and reads under
    crashes and rotation.
  \<^item> \<open>Badou_Ops\<close>: the version registry, chunk and snapshot operations of \<open>badou-ops\<close>.
    \<open>Badou_Commit\<close>, \<open>Badou_Commit_Facts\<close>, \<open>Badou_Commit_Success\<close>: the two-phase commit, its frame
    argument, what a seal implies, when it succeeds.
  \<^item> \<open>Badou_GC\<close>: \<open>badou-gc\<close>, deletion, the collector, retention, triggers.
  \<^item> \<open>Badou_Recovery\<close>: \<open>badou-recovery\<close> and \<open>badou-verify\<close>; commit followed by recovery returns
    the committed bytes.
  \<^item> \<open>Badou_Repository\<close>: the repository manager of \<open>badou-ops\<close>.
  \<^item> \<open>Badou_Auth\<close>, \<open>Badou_Server\<close>: \<open>badou-hbop-server\<close>, tokens and roles, the cache of open
    repositories and the twenty calls of the gRPC service, dispatched by \<open>serve\<close>; a call is one
    step on the whole server state (manager, registry, open repositories, disk).
    \<open>Badou_Server_Auth\<close>: who may call what, and which calls only read.
    \<open>Badou_Server_Steps\<close>, \<open>Badou_Session\<close>: what every call keeps under any faults (relations
    \<open>repo_step\<close>, \<open>commit_step\<close>, \<open>server_step\<close>), and what follows for arbitrary sequences of calls.
  \<^item> \<open>Badou_Cluster\<close>: \<open>badou-cluster\<close>.

  \<^bold>\<open>Theories of the agent\<close>

  \<^item> \<open>Agent_Core\<close>: objects and traits of \<open>hbx-core\<close>; a trait is a record of its operations.  Locale
    \<open>chunk_repository\<close>, interpreted by the local repository and by the retrying wrapper.
  \<^item> \<open>Agent_Chunker\<close>: \<open>hbx-chunker\<close>, the rolling hash on 64-bit words; chunks are bounded and
    reassemble the input however the reader splits it.
  \<^item> \<open>Agent_Repo\<close>: \<open>hbx-repo\<close>, local repository, locks, retries.  \<open>Agent_Dedup\<close>: \<open>hbx-dedup\<close>.
  \<^item> \<open>Agent_Engine\<close>, \<open>Agent_Restore\<close>, \<open>Agent_Roundtrip\<close>, \<open>Agent_Incremental\<close>, \<open>Agent_Examples\<close>:
    \<open>hbx-engine\<close> and \<open>hbx-restore\<close>; backup followed by restore, incremental and resumed runs.
  \<^item> \<open>Binary_Heap\<close>, \<open>Agent_Queue\<close>: the task queue over the sift operations of
    \<open>std::collections::BinaryHeap\<close>; locale \<open>max_queue\<close>, interpreted by the heap.
  \<^item> \<open>Agent_Schedule\<close>: schedules and cron.
  \<^item> \<open>Agent_Retention\<close>, \<open>Agent_Retention_Examples\<close>: \<open>hbx-retention\<close>; locale \<open>prunable_repository\<close>, an
    extension of \<open>chunk_repository\<close>, interpreted by the local repository.
  \<^item> \<open>Agent_Journal\<close>: \<open>hbx-journal\<close>, a second interpretation of \<open>record_log\<close>.
  \<^item> \<open>Agent_Scanner\<close>, \<open>Agent_Scanner_Examples\<close>: \<open>hbx-scanner\<close>.
  \<^item> \<open>Agent_Verify\<close>, \<open>Agent_Backup_Verify\<close>: \<open>hbx-verify\<close>; locale \<open>verifiable_repository\<close>; what a backup
    wrote passes verification.
  \<^item> \<open>Agent_Restore_Points\<close>: the resolver and checkpoints of \<open>hbx-restore\<close>; exactly when the walk
    along the parents of a version ends.  \<open>Agent_Compat\<close>: \<open>hbx-compat-sem\<close> and the execution
    states and dual check of \<open>hbx-compat-engine\<close>.
  \<^item> \<open>Agent_Badou\<close>: \<open>hbx-badou-provider\<close>, the repository trait as calls of the modelled
    service; the network is a plan that lets each step through, loses the request or loses the
    answer.  \<open>Agent_Tasks\<close>: \<open>hbx-agent/src/task_executor.rs\<close>, the backup, restore and verify
    tasks over it.  \<open>Agent_Badou_Facts\<close>, \<open>Agent_Task_Facts\<close>, \<open>Agent_Task_Roundtrip\<close>: agent and
    server as one system (round trips of chunks, manifests and whole tasks, what the listing
    and a restart lose, what a task reports).  \<open>Agent_Badou_Examples\<close>, \<open>Agent_Task_Examples\<close>
    evaluate an upload, a commit and a backup with its restore through all layers.

  \<^bold>\<open>Loops\<close>.  Loops over collections are structural recursion; chunking, record reading, cron
  search and heap operations terminate by a measure.  Loops that may not end are
  \<open>partial_function (option)\<close>, with totality or divergence proved.  No fuel bounds are used.

  \<^bold>\<open>Hypotheses on data\<close>.  Theorems about a whole backup speak of a set \<open>D\<close> (or \<open>V\<close>) of data in play, the
  chunks of the source and those the repository already holds.  Only on this set the digest is assumed not
  to collide, the codecs to be inverse and a sealed chunk to fit the memory budget of the engine; the
  examples take all chunks up to the budget of 256 MB.

  \<^bold>\<open>Where the model is coarser than the code\<close>.  Each operation and each call of the service is one step: the
  index is written out (\<open>persist\<close>) in the step that changes it, whereas the code writes after releasing its
  lock, and \<open>open_repo\<close> looks up and inserts without a lock across, so two calls that open a repository at the
  same time are not interleaved.  Removing a directory tree fails as a whole or not at all.  Reading a
  journal or a file is one call: a fault of the device in the middle of a record, which \<open>decode_entry\<close> turns
  into a truncated record, is an I/O error of the whole read.  The limit of 256 MB of the client on a
  message is not checked.  Paths are text (\<open>to_string_lossy\<close> is the identity), white space is that of ASCII,
  instants are unbounded, so the overflow of chrono on day counts beyond its range (retention of hundreds of
  thousands of years) does not occur, and the rounded binary logarithm in \<open>compute_mask\<close> is exact.

  \<^bold>\<open>Not modelled\<close>.  Network clients and servers of third-party frameworks, TLS, the platform
  code of the agent (service control, threads, metrics, credential vault), remote storage
  backends, cipher and compressor bindings, command-line front ends, the pipeline
  and repository of the Duplicati-compatible mode, and the programs in other languages (control plane,
  web console, tray).  They are I/O around, or alternatives to, the modelled code.
  Floating-point fields (progress, ratios, percentages) and message texts are left out, the
  latter represented by the values they are formatted from.
\<close>

end
